(* ===== verification/Vtelem_Prelude.thy ===== *)
theory Vtelem_Prelude
  imports Complex_Main "HOL-Library.Word" "HOL-Library.AList"
begin

text \<open>
  The shared prelude: the Python exceptions the sources can raise, the state-and-exception
  form in which every stateful method is written (an exception keeps the state it was raised
  in, as Python does), Python slicing, insertion-ordered dictionaries as association lists,
  and the generic facts on them that the component theories use.
\<close>

named_theorems py_simps \<open>equations that run a state-and-exception program\<close>

named_theorems dict_simps \<open>lookups after dictionary updates\<close>

section \<open>Exceptions and stateful programs\<close>

text \<open>
  The exception classes that the modelled code raises, directly or through the standard
  library. \<open>Blocks\<close> stands for a call that does not return because it waits on a full queue.
\<close>

datatype py_error =
    AssertionError
  | AttributeError
  | FileNotFoundError
  | IndexError
  | KeyError
  | KeyboardInterrupt
  | NotADirectoryError
  | OSError
  | OverflowError
  | RecursionError
  | RuntimeError
  | StructError
  | TypeError
  | UnboundLocalError
  | ValueError
  | ZeroDivisionError
  | Blocks

type_synonym ('s, 'a) py = "'s \<Rightarrow> (py_error + 'a) \<times> 's"

definition ret :: "'a \<Rightarrow> ('s, 'a) py" where
  "ret a = (\<lambda>s. (Inr a, s))"

definition raise :: "py_error \<Rightarrow> ('s, 'a) py" where
  "raise e = (\<lambda>s. (Inl e, s))"

definition bindp :: "('s, 'a) py \<Rightarrow> ('a \<Rightarrow> ('s, 'b) py) \<Rightarrow> ('s, 'b) py" where
  "bindp m f = (\<lambda>s. case m s of (Inl e, s') \<Rightarrow> (Inl e, s') | (Inr a, s') \<Rightarrow> f a s')"

definition assertp :: "bool \<Rightarrow> ('s, unit) py" where
  "assertp b = (if b then ret () else raise AssertionError)"

definition gets :: "('s \<Rightarrow> 'a) \<Rightarrow> ('s, 'a) py" where
  "gets f = (\<lambda>s. (Inr (f s), s))"

definition modify :: "('s \<Rightarrow> 's) \<Rightarrow> ('s, unit) py" where
  "modify f = (\<lambda>s. (Inr (), f s))"

text \<open>A pure computation that may fail, inside a stateful program.\<close>

definition lift_res :: "py_error + 'a \<Rightarrow> ('s, 'a) py" where
  "lift_res r = (\<lambda>s. (r, s))"

text \<open>A program over one part of the state, run on the whole state.\<close>

definition zoom :: "('s \<Rightarrow> 'p) \<Rightarrow> ('p \<Rightarrow> 's \<Rightarrow> 's) \<Rightarrow> ('p, 'a) py \<Rightarrow> ('s, 'a) py" where
  "zoom get put m = (\<lambda>s. case m (get s) of (r, p) \<Rightarrow> (r, put p s))"

lemma ret_apply [simp, py_simps]: "ret a s = (Inr a, s)"
  by (simp add: ret_def)

lemma raise_apply [simp, py_simps]: "raise e s = (Inl e, s)"
  by (simp add: raise_def)

lemma gets_apply [simp, py_simps]: "gets f s = (Inr (f s), s)"
  by (simp add: gets_def)

lemma modify_apply [simp, py_simps]: "modify f s = (Inr (), f s)"
  by (simp add: modify_def)

lemma lift_res_apply [simp, py_simps]: "lift_res r s = (r, s)"
  by (simp add: lift_res_def)

lemma assertp_apply [py_simps]:
  "assertp b s = (if b then (Inr (), s) else (Inl AssertionError, s))"
  by (simp add: assertp_def)

lemma assertp_True [simp]: "assertp True s = (Inr (), s)"
  by (simp add: assertp_def)

lemma assertp_False [simp]: "assertp False s = (Inl AssertionError, s)"
  by (simp add: assertp_def)

lemma bindp_apply [py_simps]:
  "bindp m f s = (case m s of (Inl e, s') \<Rightarrow> (Inl e, s') | (Inr a, s') \<Rightarrow> f a s')"
  by (simp add: bindp_def)

lemma bindp_Inr [simp]: "m s = (Inr a, s') \<Longrightarrow> bindp m f s = f a s'"
  by (simp add: bindp_def)

lemma bindp_Inl [simp]: "m s = (Inl e, s') \<Longrightarrow> bindp m f s = (Inl e, s')"
  by (simp add: bindp_def)

text \<open>The basic programs as first steps of a sequence.\<close>

lemma bindp_basic [simp]:
  "bindp (ret a) f s = f a s"
  "bindp (raise e) f' s = (Inl e, s)"
  "bindp (gets g) f'' s = f'' (g s) s"
  "bindp (modify h) k s = k () (h s)"
  "bindp (assertp b) k s = (if b then k () s else (Inl AssertionError, s))"
  "bindp (lift_res (Inr a)) f s = f a s"
  "bindp (lift_res (Inl e)) f s = (Inl e, s)"
  by (simp_all add: bindp_def assertp_def)

lemma zoom_apply [py_simps]:
  "zoom get put m s = (case m (get s) of (r, p) \<Rightarrow> (r, put p s))"
  by (simp add: zoom_def)

lemma zoom_run [simp]: "m (get s) = (r, p) \<Longrightarrow> zoom get put m s = (r, put p s)"
  by (simp add: zoom_def)

text \<open>How a sequence can have succeeded: each part did.\<close>

lemma bindp_InrE:
  assumes "bindp m f s = (Inr b, s'')"
  obtains a s' where "m s = (Inr a, s')" and "f a s' = (Inr b, s'')"
  using assms by (auto simp: bindp_def split: prod.splits sum.splits)

lemma assertp_InrE:
  assumes "assertp b s = (Inr u, s')"
  obtains "b" and "s' = s"
  using assms by (auto simp: assertp_def split: if_splits)

lemma bindp_assoc: "bindp (bindp m f) g = bindp m (\<lambda>a. bindp (f a) g)"
  by (rule ext) (simp add: bindp_def split: prod.split sum.split)

text \<open>Running a program once per element of a list, in order: a \<open>for\<close> loop.\<close>

fun for_each :: "('a \<Rightarrow> ('s, unit) py) \<Rightarrow> 'a list \<Rightarrow> ('s, unit) py" where
  "for_each f [] = ret ()"
| "for_each f (x # xs) = bindp (f x) (\<lambda>_. for_each f xs)"

fun map_each :: "('a \<Rightarrow> ('s, 'b) py) \<Rightarrow> 'a list \<Rightarrow> ('s, 'b list) py" where
  "map_each f [] = ret []"
| "map_each f (x # xs) = bindp (f x) (\<lambda>y. bindp (map_each f xs) (\<lambda>ys. ret (y # ys)))"

text \<open>An invariant of the body is an invariant of the loop, also when the loop raises.\<close>

lemma for_each_inv:
  assumes "\<And>x s. x \<in> set xs \<Longrightarrow> P s \<Longrightarrow> P (snd (f x s))"
    and "P s"
  shows "P (snd (for_each f xs s))"
  using assms
proof (induction xs arbitrary: s)
  case Nil
  then show ?case by simp
next
  case (Cons x xs)
  have step: "P (snd (f x s))" using Cons.prems by simp
  show ?case
    using step Cons.IH [of "snd (f x s)"] Cons.prems(1)
    by (auto simp: bindp_def split: prod.splits sum.splits)
qed

lemma for_each_cong: "(\<And>x. x \<in> set xs \<Longrightarrow> f x = g x) \<Longrightarrow> for_each f xs = for_each g xs"
  by (induction xs) auto

lemma map_each_length: "map_each f xs s = (Inr ys, s') \<Longrightarrow> length ys = length xs"
  by (induction xs arbitrary: s ys) (auto elim!: bindp_InrE)

section \<open>Dictionaries\<close>

text \<open>
  A Python dictionary keeps its keys in insertion order; assigning an existing key keeps its
  place. \<^const>\<open>AList.update\<close> does exactly that on an association list.
\<close>

type_synonym ('k, 'v) dict = "('k \<times> 'v) list"

abbreviation dict_get :: "('k, 'v) dict \<Rightarrow> 'k \<Rightarrow> 'v option" where
  "dict_get d k \<equiv> map_of d k"

abbreviation dict_set :: "'k \<Rightarrow> 'v \<Rightarrow> ('k, 'v) dict \<Rightarrow> ('k, 'v) dict" where
  "dict_set k v d \<equiv> AList.update k v d"

abbreviation dict_keys :: "('k, 'v) dict \<Rightarrow> 'k list" where
  "dict_keys d \<equiv> map fst d"

abbreviation dict_del :: "'k \<Rightarrow> ('k, 'v) dict \<Rightarrow> ('k, 'v) dict" where
  "dict_del k d \<equiv> AList.delete k d"

lemma dict_get_set [simp, dict_simps]:
  "dict_get (dict_set k v d) k' = (if k' = k then Some v else dict_get d k')"
  by (simp add: update_conv')

lemma dict_keys_set:
  "dict_keys (dict_set k v d) = (if k \<in> set (dict_keys d) then dict_keys d else dict_keys d @ [k])"
  by (induction d) auto

lemma dict_set_fresh: "k \<notin> set (dict_keys d) \<Longrightarrow> dict_set k v d = d @ [(k, v)]"
  by (induction d) auto

lemma dict_set_entries: "set (dict_set k v d) \<subseteq> insert (k, v) (set d)"
  by (induction d) auto

lemma dict_get_None_iff: "dict_get d k = None \<longleftrightarrow> k \<notin> set (dict_keys d)"
  by (simp add: map_of_eq_None_iff)

lemma dict_set_key: "k \<in> fst ` set (dict_set k v d)"
  by (induction d) auto

text \<open>\<open>d.update(other)\<close>.\<close>

fun dict_update :: "('k, 'v) dict \<Rightarrow> ('k, 'v) dict \<Rightarrow> ('k, 'v) dict" where
  "dict_update d [] = d"
| "dict_update d ((k, v) # kvs) = dict_update (dict_set k v d) kvs"

text \<open>\<open>d[k]\<close> on a plain dictionary.\<close>

definition dict_item :: "('k, 'v) dict \<Rightarrow> 'k \<Rightarrow> py_error + 'v" where
  "dict_item d k = (case dict_get d k of None \<Rightarrow> Inl KeyError | Some v \<Rightarrow> Inr v)"

lemma dict_item_Some [simp]: "dict_get d k = Some v \<Longrightarrow> dict_item d k = Inr v"
  by (simp add: dict_item_def)

section \<open>Sequences\<close>

text \<open>
  Python slicing \<open>xs[i:j]\<close>: negative bounds count from the end, bounds outside the sequence
  are clamped.
\<close>

definition slice_bound :: "int \<Rightarrow> int \<Rightarrow> int" where
  "slice_bound n i = (if i < 0 then max 0 (i + n) else min i n)"

definition py_slice :: "'a list \<Rightarrow> int \<Rightarrow> int \<Rightarrow> 'a list" where
  "py_slice xs i j =
     (let n = int (length xs); a = slice_bound n i; b = slice_bound n j
      in take (nat (b - a)) (drop (nat a) xs))"

lemma py_slice_nat:
  assumes "0 \<le> i" and "i \<le> j" and "j \<le> int (length xs)"
  shows "py_slice xs i j = take (nat (j - i)) (drop (nat i) xs)"
  using assms by (simp add: py_slice_def slice_bound_def Let_def)

lemma py_slice_from0:
  assumes "0 \<le> j" and "j \<le> int (length xs)"
  shows "py_slice xs 0 j = take (nat j) xs"
  using assms by (simp add: py_slice_nat)

lemma py_slice_int: "i + k \<le> length xs \<Longrightarrow> py_slice xs (int i) (int (i + k)) = take k (drop i xs)"
  by (subst py_slice_nat) simp_all

lemma py_slice_all [simp]: "py_slice xs 0 (int (length xs)) = xs"
  by (simp add: py_slice_from0)

text \<open>Overwriting a run of a list in place, as \<open>struct.pack_into\<close> does.\<close>

definition overwrite :: "'a list \<Rightarrow> nat \<Rightarrow> 'a list \<Rightarrow> 'a list" where
  "overwrite xs i ys = take i xs @ ys @ drop (i + length ys) xs"

lemma length_overwrite [simp]:
  "i + length ys \<le> length xs \<Longrightarrow> length (overwrite xs i ys) = length xs"
  by (simp add: overwrite_def)

lemma take_overwrite_before: "j \<le> i \<Longrightarrow> i \<le> length xs \<Longrightarrow> take j (overwrite xs i ys) = take j xs"
  by (simp add: overwrite_def)

lemma take_overwrite_through:
  "i + length ys \<le> length xs \<Longrightarrow> take (i + length ys) (overwrite xs i ys) = take i xs @ ys"
  by (simp add: overwrite_def)

lemma drop_overwrite_after:
  "i + length ys \<le> length xs \<Longrightarrow> i + length ys \<le> j \<Longrightarrow> drop j (overwrite xs i ys) = drop j xs"
  by (simp add: overwrite_def)

text \<open>Cutting a list into pieces of at most \<open>n\<close> elements.\<close>

function chunks :: "nat \<Rightarrow> 'a list \<Rightarrow> 'a list list" where
  "chunks n xs = (if n = 0 \<or> xs = [] then [] else take n xs # chunks n (drop n xs))"
  by pat_completeness auto
termination
  by (relation "measure (\<lambda>(n, xs). length xs)") auto

declare chunks.simps [simp del]

lemma chunks_Nil [simp]: "chunks n [] = []"
  by (simp add: chunks.simps)

lemma concat_chunks: "0 < n \<Longrightarrow> concat (chunks n xs) = xs"
proof (induction n xs rule: chunks.induct)
  case (1 n xs)
  then show ?case by (cases "xs = []") (simp_all add: chunks.simps [of n xs])
qed

lemma div_ceil_step:
  fixes n m :: nat
  assumes "0 < n" and "0 < m"
  shows "Suc ((m - n + n - 1) div n) = (m + n - 1) div n"
proof (cases "n \<le> m")
  case True
  have "((m - 1) + n) div n = Suc ((m - 1) div n)"
    using assms(1) by (subst div_add_self2) simp_all
  with True assms show ?thesis by simp
next
  case False
  have "(m + n - 1) div n = ((m - 1) + n) div n"
    using assms(2) by simp
  also have "\<dots> = Suc ((m - 1) div n)"
    using assms(1) by (subst div_add_self2) simp_all
  also have "\<dots> = Suc 0"
    using False by simp
  finally show ?thesis using False assms by simp
qed

lemma length_chunks: "0 < n \<Longrightarrow> length (chunks n xs) = (length xs + n - 1) div n"
proof (induction n xs rule: chunks.induct)
  case (1 n xs)
  show ?case
  proof (cases "xs = []")
    case True
    with "1.prems" show ?thesis by simp
  next
    case False
    with "1" have "length (chunks n xs) = Suc ((length xs - n + n - 1) div n)"
      by (simp add: chunks.simps [of n xs])
    with div_ceil_step [of n "length xs"] False "1.prems" show ?thesis by simp
  qed
qed

lemma length_chunk_le: "c \<in> set (chunks n xs) \<Longrightarrow> length c \<le> n"
proof (induction n xs rule: chunks.induct)
  case (1 n xs)
  then show ?case by (auto simp: chunks.simps [of n xs] split: if_splits)
qed

end
