(* ===== verification/Py_Float.thy ===== *)
theory Py_Float
  imports Vtelem_Prelude
begin

text \<open>
  Python's \<open>float\<close> is the IEEE 754 binary64 number of the platform. A value is modelled by its
  64-bit pattern; arithmetic takes the exact rational result and rounds it to nearest, ties to
  even, and comparison follows the sign-magnitude order of the patterns. The binary32 format is
  what \<open>struct\<close> packs for the format character \<open>f\<close>.
\<close>

section \<open>Binary formats\<close>

type_synonym pyfloat = "64 word"

text \<open>A format is the number of its mantissa bits and of its exponent bits.\<close>

type_synonym float_format = "nat \<times> nat"

definition binary64 :: float_format where
  "binary64 = (52, 11)"

definition binary32 :: float_format where
  "binary32 = (23, 8)"

definition two_powi :: "int \<Rightarrow> rat" where
  "two_powi e = (if 0 \<le> e then 2 ^ nat e else 1 / 2 ^ nat (- e))"

function nbits :: "int \<Rightarrow> int" where
  "nbits n = (if n \<le> 0 then 0 else 1 + nbits (n div 2))"
  by pat_completeness auto
termination
  by (relation "measure nat") auto

declare nbits.simps [simp del]

text \<open>The exponent of a positive rational: the integer part of its binary logarithm.\<close>

definition ilog2 :: "rat \<Rightarrow> int" where
  "ilog2 q =
     (let (n, d) = quotient_of q; k = nbits n - nbits d
      in if two_powi k \<le> q then k else k - 1)"

definition round_half_even :: "rat \<Rightarrow> int" where
  "round_half_even q =
     (let f = \<lfloor>q\<rfloor>; r = q - of_int f
      in if r < 1 / 2 then f else if 1 / 2 < r then f + 1 else if even f then f else f + 1)"

definition exp_min :: "float_format \<Rightarrow> int" where
  "exp_min fmt = 2 - 2 ^ (snd fmt - 1)"

definition inf_mag :: "float_format \<Rightarrow> int" where
  "inf_mag fmt = (2 ^ snd fmt - 1) * 2 ^ fst fmt"

text \<open>
  The magnitude (the pattern without its sign bit) of a non-negative rational. The exponent
  field and the mantissa are added, so that a mantissa that rounds up to the next power of two
  carries into the exponent, and a result past the largest finite number is infinity.
\<close>

definition enc_mag :: "float_format \<Rightarrow> rat \<Rightarrow> int" where
  "enc_mag fmt q =
     (if q \<le> 0 then 0
      else let ex = max (ilog2 q) (exp_min fmt);
               m = round_half_even (q / two_powi (ex - int (fst fmt)))
           in min (inf_mag fmt) ((ex - exp_min fmt) * 2 ^ fst fmt + m))"

text \<open>The rational a finite magnitude denotes.\<close>

definition dec_mag :: "float_format \<Rightarrow> int \<Rightarrow> rat" where
  "dec_mag fmt w =
     (let e = w div 2 ^ fst fmt; m = w mod 2 ^ fst fmt
      in if e = 0 then of_int m * two_powi (exp_min fmt - int (fst fmt))
         else of_int (2 ^ fst fmt + m) * two_powi (e - 1 + exp_min fmt - int (fst fmt)))"

section \<open>Python floats\<close>

definition fneg_bit :: "pyfloat \<Rightarrow> bool" where
  "fneg_bit x \<longleftrightarrow> 2 ^ 63 \<le> uint x"

definition fmag :: "pyfloat \<Rightarrow> int" where
  "fmag x = uint x mod 2 ^ 63"

definition fbits :: "bool \<Rightarrow> int \<Rightarrow> pyfloat" where
  "fbits neg m = word_of_int ((if neg then 2 ^ 63 else 0) + m)"

definition fnan :: "pyfloat \<Rightarrow> bool" where
  "fnan x \<longleftrightarrow> inf_mag binary64 < fmag x"

definition finf :: "pyfloat \<Rightarrow> bool" where
  "finf x \<longleftrightarrow> fmag x = inf_mag binary64"

definition ffinite :: "pyfloat \<Rightarrow> bool" where
  "ffinite x \<longleftrightarrow> fmag x < inf_mag binary64"

definition nan :: pyfloat where
  "nan = fbits False (inf_mag binary64 + 2 ^ 51)"

text \<open>The rational value of a finite float, and the float nearest to a rational.\<close>

definition fval :: "pyfloat \<Rightarrow> rat" where
  "fval x = (if fneg_bit x then - dec_mag binary64 (fmag x) else dec_mag binary64 (fmag x))"

definition fl :: "rat \<Rightarrow> pyfloat" where
  "fl q = fbits (q < 0) (enc_mag binary64 \<bar>q\<bar>)"

definition fneg :: "pyfloat \<Rightarrow> pyfloat" where
  "fneg x = fbits (\<not> fneg_bit x) (fmag x)"

definition fabs :: "pyfloat \<Rightarrow> pyfloat" where
  "fabs x = fbits False (fmag x)"

definition fadd :: "pyfloat \<Rightarrow> pyfloat \<Rightarrow> pyfloat" where
  "fadd x y =
     (if fnan x \<or> fnan y then nan
      else if finf x then (if finf y \<and> fneg_bit x \<noteq> fneg_bit y then nan else x)
      else if finf y then y
      else let r = fval x + fval y
           in if r = 0 then fbits (fneg_bit x \<and> fneg_bit y) 0 else fl r)"

definition fsub :: "pyfloat \<Rightarrow> pyfloat \<Rightarrow> pyfloat" where
  "fsub x y = fadd x (fneg y)"

definition fmul :: "pyfloat \<Rightarrow> pyfloat \<Rightarrow> pyfloat" where
  "fmul x y =
     (if fnan x \<or> fnan y then nan
      else if finf x \<or> finf y
      then (if fmag x = 0 \<or> fmag y = 0 then nan
            else fbits (fneg_bit x \<noteq> fneg_bit y) (inf_mag binary64))
      else fbits (fneg_bit x \<noteq> fneg_bit y) (enc_mag binary64 (\<bar>fval x\<bar> * \<bar>fval y\<bar>)))"

text \<open>Python raises on a zero divisor.\<close>

definition fdiv :: "pyfloat \<Rightarrow> pyfloat \<Rightarrow> py_error + pyfloat" where
  "fdiv x y =
     (if fmag y = 0 then Inl ZeroDivisionError
      else if fnan x \<or> fnan y \<or> finf x \<and> finf y then Inr nan
      else if finf x then Inr (fbits (fneg_bit x \<noteq> fneg_bit y) (inf_mag binary64))
      else if finf y then Inr (fbits (fneg_bit x \<noteq> fneg_bit y) 0)
      else Inr (fbits (fneg_bit x \<noteq> fneg_bit y)
                  (enc_mag binary64 (\<bar>fval x\<bar> / \<bar>fval y\<bar>))))"

text \<open>Comparison: every comparison with a NaN is false, and the two zeros are equal.\<close>

definition fkey :: "pyfloat \<Rightarrow> int" where
  "fkey x = (if fneg_bit x then - fmag x else fmag x)"

definition flt :: "pyfloat \<Rightarrow> pyfloat \<Rightarrow> bool" where
  "flt x y \<longleftrightarrow> \<not> fnan x \<and> \<not> fnan y \<and> fkey x < fkey y"

definition fle :: "pyfloat \<Rightarrow> pyfloat \<Rightarrow> bool" where
  "fle x y \<longleftrightarrow> \<not> fnan x \<and> \<not> fnan y \<and> fkey x \<le> fkey y"

definition feq :: "pyfloat \<Rightarrow> pyfloat \<Rightarrow> bool" where
  "feq x y \<longleftrightarrow> \<not> fnan x \<and> \<not> fnan y \<and> fkey x = fkey y"

text \<open>\<open>float(n)\<close> for an integer: an integer that rounds past the largest float overflows.\<close>

definition float_of_int :: "int \<Rightarrow> py_error + pyfloat" where
  "float_of_int n =
     (let x = fl (of_int n) in if finf x then Inl OverflowError else Inr x)"

text \<open>\<open>int(x)\<close> truncates towards zero; infinities and NaN have no integer.\<close>

definition rat_trunc :: "rat \<Rightarrow> int" where
  "rat_trunc q = (if 0 \<le> q then \<lfloor>q\<rfloor> else \<lceil>q\<rceil>)"

definition int_of_float :: "pyfloat \<Rightarrow> py_error + int" where
  "int_of_float x =
     (if fnan x then Inl ValueError else if finf x then Inl OverflowError
      else Inr (rat_trunc (fval x)))"

section \<open>Single precision on the wire\<close>

text \<open>
  \<open>struct.pack\<close> with \<open>f\<close> narrows to binary32 and raises when a finite number has no finite
  binary32 neighbour; a NaN keeps its top payload bits and becomes quiet. \<open>struct.unpack\<close>
  widens, which is exact.
\<close>

definition narrow :: "pyfloat \<Rightarrow> py_error + 32 word" where
  "narrow x =
     (let s = (if fneg_bit x then 2 ^ 31 else 0 :: int)
      in if fnan x then Inr (word_of_int (s + inf_mag binary32 + 2 ^ 22 + fmag x div 2 ^ 29 mod 2 ^ 22))
         else if finf x then Inr (word_of_int (s + inf_mag binary32))
         else let m = enc_mag binary32 \<bar>fval x\<bar>
              in if m = inf_mag binary32 then Inl OverflowError else Inr (word_of_int (s + m)))"

definition widen :: "32 word \<Rightarrow> pyfloat" where
  "widen w =
     (let neg = (2 ^ 31 \<le> uint w); m = uint w mod 2 ^ 31
      in if inf_mag binary32 < m then fbits neg (inf_mag binary64 + 2 ^ 51 + (m mod 2 ^ 22) * 2 ^ 29)
         else if m = inf_mag binary32 then fbits neg (inf_mag binary64)
         else fbits neg (enc_mag binary64 (dec_mag binary32 m)))"

end
