(* ===== verification/Primitives.thy ===== *)
theory Primitives
  imports Py_Float
begin

text \<open>
  The primitive types of the wire protocol (\<open>vtelem/enums/primitive.py\<close>, the defaults of
  \<open>vtelem/classes/__init__.py\<close>) and the part of Python's \<open>struct\<close> module they rest on: every
  primitive is packed as a fixed number of bytes and read back.
\<close>

section \<open>Python values\<close>

text \<open>The values a command, a channel or a field can carry: what JSON can express.\<close>

datatype pyval =
    VNone
  | VBool bool
  | VInt int
  | VFloat pyfloat
  | VStr string
  | VList "pyval list"
  | VDict "(string \<times> pyval) list"

fun truthy :: "pyval \<Rightarrow> bool" where
  "truthy VNone = False"
| "truthy (VBool b) = b"
| "truthy (VInt n) = (n \<noteq> 0)"
| "truthy (VFloat x) = (fmag x \<noteq> 0)"
| "truthy (VStr s) = (s \<noteq> [])"
| "truthy (VList xs) = (xs \<noteq> [])"
| "truthy (VDict d) = (d \<noteq> [])"

text \<open>A number seen as an exact integer, as \<open>bool\<close> is a subclass of \<open>int\<close>.\<close>

fun as_int :: "pyval \<Rightarrow> int option" where
  "as_int (VBool b) = Some (if b then 1 else 0)"
| "as_int (VInt n) = Some n"
| "as_int _ = None"

text \<open>A number converted to a float, as \<open>float(v)\<close> and \<open>struct\<close> do.\<close>

fun as_float :: "pyval \<Rightarrow> py_error + pyfloat" where
  "as_float (VBool b) = Inr (fl (if b then 1 else 0))"
| "as_float (VInt n) = float_of_int n"
| "as_float (VFloat x) = Inr x"
| "as_float _ = Inl TypeError"

text \<open>\<open>a == b\<close> on numbers; an integer and a float compare by exact value.\<close>

fun num_eq :: "pyval \<Rightarrow> pyval \<Rightarrow> bool" where
  "num_eq (VFloat x) (VFloat y) = feq x y"
| "num_eq (VFloat x) b = (case as_int b of Some n \<Rightarrow> ffinite x \<and> fval x = of_int n | None \<Rightarrow> False)"
| "num_eq a (VFloat y) = (case as_int a of Some n \<Rightarrow> ffinite y \<and> fval y = of_int n | None \<Rightarrow> False)"
| "num_eq a b = (case (as_int a, as_int b) of (Some m, Some n) \<Rightarrow> m = n | _ \<Rightarrow> False)"

text \<open>\<open>a + b\<close> on numbers: an integer sum is exact, a float operand makes it a float.\<close>

fun num_add :: "pyval \<Rightarrow> pyval \<Rightarrow> py_error + pyval" where
  "num_add a b =
     (case (as_int a, as_int b) of
        (Some m, Some n) \<Rightarrow> Inr (VInt (m + n))
      | _ \<Rightarrow> (case as_float a of
                Inl e \<Rightarrow> Inl e
              | Inr x \<Rightarrow> (case as_float b of Inl e \<Rightarrow> Inl e | Inr y \<Rightarrow> Inr (VFloat (fadd x y)))))"

section \<open>The primitive enumeration\<close>

datatype py_type = TBool | TInt | TFloat

datatype validator = AlwaysTrue | IntegerCanHold

record base_primitive =
  fmt :: string
  py_type_of :: py_type
  size_of :: int
  name_of :: string
  signed_of :: bool
  min_of :: int
  max_of :: int
  validate_of :: validator

definition integer_bounds :: "int \<Rightarrow> bool \<Rightarrow> int \<times> int" where
  "integer_bounds byte_count is_signed =
     (let min_val = (if \<not> is_signed then 0 else -1 * 2 ^ nat (byte_count * 8 - 1));
          width = (if \<not> is_signed then 8 * byte_count else 8 * byte_count - 1)
      in (min_val, 2 ^ nat width - 1))"

definition integer_can_hold :: "base_primitive \<Rightarrow> int \<Rightarrow> bool" where
  "integer_can_hold prim val \<longleftrightarrow> min_of prim \<le> val \<and> val \<le> max_of prim"

definition int_primitive :: "string \<Rightarrow> int \<Rightarrow> string \<Rightarrow> bool \<Rightarrow> base_primitive" where
  "int_primitive f sz nm sg =
     \<lparr>fmt = f, py_type_of = TInt, size_of = sz, name_of = nm, signed_of = sg,
      min_of = fst (integer_bounds sz sg), max_of = snd (integer_bounds sz sg),
      validate_of = IntegerCanHold\<rparr>"

definition other_primitive :: "string \<Rightarrow> py_type \<Rightarrow> int \<Rightarrow> string \<Rightarrow> bool \<Rightarrow> base_primitive" where
  "other_primitive f ty sz nm sg =
     \<lparr>fmt = f, py_type_of = ty, size_of = sz, name_of = nm, signed_of = sg,
      min_of = 0, max_of = 0, validate_of = AlwaysTrue\<rparr>"

datatype primitive =
    BOOLEAN | INT8 | UINT8 | INT16 | UINT16 | INT32 | UINT32 | INT64 | UINT64 | FLOAT | DOUBLE

text \<open>The enumeration's members in declaration order, and the tuple each one carries.\<close>

definition all_primitives :: "primitive list" where
  "all_primitives =
     [BOOLEAN, INT8, UINT8, INT16, UINT16, INT32, UINT32, INT64, UINT64, FLOAT, DOUBLE]"

fun prim_value :: "primitive \<Rightarrow> base_primitive" where
  "prim_value BOOLEAN = other_primitive ''?'' TBool 1 ''boolean'' False"
| "prim_value INT8 = int_primitive ''b'' 1 ''int8'' True"
| "prim_value UINT8 = int_primitive ''B'' 1 ''uint8'' False"
| "prim_value INT16 = int_primitive ''h'' 2 ''int16'' True"
| "prim_value UINT16 = int_primitive ''H'' 2 ''uint16'' False"
| "prim_value INT32 = int_primitive ''i'' 4 ''int32'' True"
| "prim_value UINT32 = int_primitive ''I'' 4 ''uint32'' False"
| "prim_value INT64 = int_primitive ''q'' 8 ''int64'' True"
| "prim_value UINT64 = int_primitive ''Q'' 8 ''uint64'' False"
| "prim_value FLOAT = other_primitive ''f'' TFloat 4 ''float'' True"
| "prim_value DOUBLE = other_primitive ''d'' TFloat 8 ''double'' True"

definition get_name :: "primitive \<Rightarrow> string" where
  "get_name inst = name_of (prim_value inst)"

definition get_fstring :: "primitive \<Rightarrow> string" where
  "get_fstring inst = fmt (prim_value inst)"

definition get_size :: "primitive \<Rightarrow> int" where
  "get_size inst = size_of (prim_value inst)"

fun type_default :: "py_type \<Rightarrow> pyval" where
  "type_default TBool = VBool False"
| "type_default TInt = VInt 0"
| "type_default TFloat = VFloat 0"

definition default_val :: "primitive \<Rightarrow> pyval" where
  "default_val inst = type_default (py_type_of (prim_value inst))"

definition INTEGER_PRIMITIVES :: "primitive list" where
  "INTEGER_PRIMITIVES = [INT8, UINT8, INT16, UINT16, INT32, UINT32, INT64, UINT64]"

text \<open>
  A random integer of a primitive's range: the generator's draw \<open>rnd\<close> is an argument, reduced
  to the range that \<open>random.randint\<close> promises.
\<close>

definition random_integer :: "int \<Rightarrow> primitive \<Rightarrow> py_error + int" where
  "random_integer rnd prim =
     (if prim = BOOLEAN \<or> prim = FLOAT \<or> prim = DOUBLE then Inl AssertionError
      else let b = prim_value prim
           in Inr (min_of b + rnd mod (max_of b - min_of b + 1)))"

definition prim_to_dict :: "primitive \<Rightarrow> (string, pyval) dict" where
  "prim_to_dict prim =
     (let val = prim_value prim;
          data = [(''name'', VStr (name_of val)), (''size'', VInt (size_of val)),
                  (''signed'', VBool (signed_of val)),
                  (''integer'', VBool (prim \<in> set INTEGER_PRIMITIVES))]
      in if min_of val \<noteq> 0 \<or> max_of val \<noteq> 0
         then dict_set ''max'' (VInt (max_of val)) (dict_set ''min'' (VInt (min_of val)) data)
         else data)"

text \<open>The validation a primitive applies to a value of its Python type.\<close>

definition prim_validate :: "primitive \<Rightarrow> int \<Rightarrow> bool" where
  "prim_validate p n =
     (case validate_of (prim_value p) of
        AlwaysTrue \<Rightarrow> True
      | IntegerCanHold \<Rightarrow> integer_can_hold (prim_value p) n)"

text \<open>The default type of each kind of protocol field.\<close>

definition DEFAULTS :: "(string, primitive) dict" where
  "DEFAULTS =
     [(''version'', UINT8), (''enum'', UINT8), (''timestamp'', UINT64), (''metric'', UINT32),
      (''count'', UINT32), (''crc'', UINT32), (''id'', UINT16)]"

lemma DEFAULTS_get [simp]:
  "dict_get DEFAULTS ''enum'' = Some UINT8"
  "dict_get DEFAULTS ''timestamp'' = Some UINT64"
  "dict_get DEFAULTS ''metric'' = Some UINT32"
  "dict_get DEFAULTS ''count'' = Some UINT32"
  "dict_get DEFAULTS ''crc'' = Some UINT32"
  "dict_get DEFAULTS ''id'' = Some UINT16"
  by (simp_all add: DEFAULTS_def)

lemma get_size_simps [simp]:
  "get_size BOOLEAN = 1" "get_size INT8 = 1" "get_size UINT8 = 1" "get_size INT16 = 2"
  "get_size UINT16 = 2" "get_size INT32 = 4" "get_size UINT32 = 4" "get_size INT64 = 8"
  "get_size UINT64 = 8" "get_size FLOAT = 4" "get_size DOUBLE = 8"
  by (simp_all add: get_size_def int_primitive_def other_primitive_def)

lemma get_size_pos [simp]: "0 < get_size p"
  by (cases p) simp_all

lemma get_size_nonneg [simp]: "0 \<le> get_size p"
  by (cases p) simp_all

lemma all_primitives_set [simp]: "set all_primitives = UNIV"
  by (auto simp: all_primitives_def intro: primitive.exhaust)

section \<open>Bytes\<close>

type_synonym byte = "8 word"

text \<open>The \<open>n\<close> low bytes of an integer in two's complement, most significant first.\<close>

fun be_bytes :: "nat \<Rightarrow> int \<Rightarrow> byte list" where
  "be_bytes 0 v = []"
| "be_bytes (Suc n) v = be_bytes n (v div 256) @ [word_of_int v]"

definition be_val :: "byte list \<Rightarrow> int" where
  "be_val bs = foldl (\<lambda>a b. a * 256 + uint b) 0 bs"

definition be_sval :: "byte list \<Rightarrow> int" where
  "be_sval bs =
     (let u = be_val bs; w = 8 * length bs
      in if 2 ^ (w - 1) \<le> u then u - 2 ^ w else u)"

lemma length_be_bytes [simp]: "length (be_bytes n v) = n"
  by (induction n arbitrary: v) simp_all

lemma be_val_snoc: "be_val (bs @ [b]) = be_val bs * 256 + uint b"
  by (simp add: be_val_def)

lemma uint_byte_of_int: "uint (word_of_int v :: byte) = v mod 256"
  by (simp add: uint_word_of_int)

lemma be_val_be_bytes: "be_val (be_bytes n v) = v mod 256 ^ n"
proof (induction n arbitrary: v)
  case 0
  then show ?case by (simp add: be_val_def)
next
  case (Suc n)
  have "v mod (256 * 256 ^ n) = 256 * (v div 256 mod 256 ^ n) + v mod 256"
    by (rule zmod_zmult2_eq) simp
  with Suc show ?case by (simp add: be_val_snoc uint_byte_of_int)
qed

lemma be_val_bounds: "0 \<le> be_val bs \<and> be_val bs < 256 ^ length bs"
proof (induction bs rule: rev_induct)
  case Nil
  then show ?case by (simp add: be_val_def)
next
  case (snoc b bs)
  have "uint b < 256" using uint_lt2p [of b] by simp
  with snoc show ?case by (simp add: be_val_snoc)
qed

lemma be_bytes_be_val: "be_bytes (length bs) (be_val bs) = bs"
proof (induction bs rule: rev_induct)
  case Nil
  then show ?case by simp
next
  case (snoc b bs)
  have b: "uint b < 256" "0 \<le> uint b" using uint_lt2p [of b] by simp_all
  have "(be_val bs * 256 + uint b) div 256 = be_val bs"
    using b by simp
  moreover have "(word_of_int (be_val bs * 256 + uint b) :: byte) = b"
  proof -
    have "uint (word_of_int (be_val bs * 256 + uint b) :: byte) = uint b"
      by (simp only: uint_byte_of_int) (simp add: b)
    then show ?thesis by (simp only: word_uint_eq_iff)
  qed
  ultimately show ?case using snoc by (simp add: be_val_snoc)
qed

lemma be_val_roundtrip: "0 \<le> v \<Longrightarrow> v < 256 ^ n \<Longrightarrow> be_val (be_bytes n v) = v"
  by (simp add: be_val_be_bytes)

lemma be_sval_roundtrip:
  assumes "0 < n" and "- (2 ^ (8 * n - 1)) \<le> v" and "v < 2 ^ (8 * n - 1)"
  shows "be_sval (be_bytes n v) = v"
proof -
  have p: "(256 :: int) ^ n = 2 * 2 ^ (8 * n - 1)"
  proof -
    have "(256 :: int) ^ n = 2 ^ (8 * n)" by (simp add: power_mult)
    also have "\<dots> = 2 * 2 ^ (8 * n - 1)" using assms(1) by (cases "8 * n") simp_all
    finally show ?thesis .
  qed
  have pw: "(2 :: int) ^ (8 * n) = 256 ^ n" by (simp add: power_mult)
  show ?thesis
  proof (cases "0 \<le> v")
    case True
    then show ?thesis using assms p by (simp add: be_sval_def be_val_be_bytes Let_def)
  next
    case False
    have "v mod 256 ^ n = v + 256 ^ n"
      using False assms p by (intro mod_pos_pos_trivial [of "v + 256 ^ n" "256 ^ n", simplified]) linarith+
    then show ?thesis using False assms p pw by (simp add: be_sval_def be_val_be_bytes Let_def)
  qed
qed

end
