(* ===== verification/Struct_Codec.thy ===== *)
theory Struct_Codec
  imports Primitives
begin

text \<open>
  The part of Python's \<open>struct\<close> module that the buffers and primitives call: packing and
  unpacking one value by a format of an optional byte-order character and a type character.
  The locale \<open>field_codec\<close> states what the frame code relies on: a packed field has its type's
  width and unpacks to the value the wire carries.
\<close>

section \<open>Formats\<close>

definition int_code :: "char \<Rightarrow> (nat \<times> bool) option" where
  "int_code c = map_of
     [(CHR ''b'', (1, True)), (CHR ''B'', (1, False)), (CHR ''h'', (2, True)),
      (CHR ''H'', (2, False)), (CHR ''i'', (4, True)), (CHR ''I'', (4, False)),
      (CHR ''q'', (8, True)), (CHR ''Q'', (8, False))] c"

text \<open>
  The byte order of a format (true for little-endian) and its type character. The native orders
  are those of the supported platform, which is little-endian.
\<close>

fun fmt_parse :: "string \<Rightarrow> (bool \<times> char) option" where
  "fmt_parse [c] = Some (True, c)"
| "fmt_parse [p, c] =
     (if p \<in> {CHR ''!'', CHR ''>''} then Some (False, c)
      else if p \<in> {CHR ''<'', CHR ''='', CHR ''@''} then Some (True, c) else None)"
| "fmt_parse _ = None"

section \<open>Packing\<close>

definition int_range :: "nat \<Rightarrow> bool \<Rightarrow> int \<Rightarrow> bool" where
  "int_range n sg k \<longleftrightarrow>
     (if sg then - (2 ^ (8 * n - 1)) \<le> k \<and> k < 2 ^ (8 * n - 1) else 0 \<le> k \<and> k < 256 ^ n)"

text \<open>Every conversion error of a float argument is reported as \<open>struct.error\<close>.\<close>

definition pack_char :: "char \<Rightarrow> pyval \<Rightarrow> py_error + byte list" where
  "pack_char c v =
     (case int_code c of
        Some (n, sg) \<Rightarrow>
          (case as_int v of
             Some k \<Rightarrow> if int_range n sg k then Inr (be_bytes n k) else Inl StructError
           | None \<Rightarrow> Inl StructError)
      | None \<Rightarrow>
          if c = CHR ''?'' then Inr [if truthy v then 1 else 0]
          else if c = CHR ''f'' then
            (case as_float v of
               Inl _ \<Rightarrow> Inl StructError
             | Inr x \<Rightarrow> (case narrow x of Inl e \<Rightarrow> Inl e | Inr w \<Rightarrow> Inr (be_bytes 4 (uint w))))
          else if c = CHR ''d'' then
            (case as_float v of Inl _ \<Rightarrow> Inl StructError | Inr x \<Rightarrow> Inr (be_bytes 8 (uint x)))
          else Inl StructError)"

definition struct_pack :: "string \<Rightarrow> pyval \<Rightarrow> py_error + byte list" where
  "struct_pack f v =
     (case fmt_parse f of
        None \<Rightarrow> Inl StructError
      | Some (little, c) \<Rightarrow> map_sum id (if little then rev else id) (pack_char c v))"

section \<open>Unpacking\<close>

definition char_size :: "char \<Rightarrow> nat option" where
  "char_size c =
     (case int_code c of
        Some (n, _) \<Rightarrow> Some n
      | None \<Rightarrow> map_of [(CHR ''?'', 1), (CHR ''f'', 4), (CHR ''d'', 8)] c)"

definition unpack_char :: "char \<Rightarrow> byte list \<Rightarrow> pyval" where
  "unpack_char c bs =
     (case int_code c of
        Some (n, sg) \<Rightarrow> VInt (if sg then be_sval bs else be_val bs)
      | None \<Rightarrow>
          if c = CHR ''?'' then VBool (be_val bs \<noteq> 0)
          else if c = CHR ''f'' then VFloat (widen (word_of_int (be_val bs)))
          else VFloat (word_of_int (be_val bs)))"

definition struct_unpack :: "string \<Rightarrow> byte list \<Rightarrow> py_error + pyval" where
  "struct_unpack f bs =
     (case fmt_parse f of
        None \<Rightarrow> Inl StructError
      | Some (little, c) \<Rightarrow>
          if char_size c = Some (length bs)
          then Inr (unpack_char c (if little then rev bs else bs))
          else Inl StructError)"

section \<open>What the wire carries\<close>

text \<open>
  The value that arrives when a value is sent as a primitive: a boolean becomes its truth value,
  an integer itself, and a single-precision number loses the digits binary32 cannot hold.
\<close>

fun wire :: "primitive \<Rightarrow> pyval \<Rightarrow> pyval" where
  "wire BOOLEAN v = VBool (truthy v)"
| "wire FLOAT v =
     (case as_float v of
        Inr x \<Rightarrow> (case narrow x of Inr w \<Rightarrow> VFloat (widen w) | Inl _ \<Rightarrow> v)
      | Inl _ \<Rightarrow> v)"
| "wire DOUBLE v = (case as_float v of Inr x \<Rightarrow> VFloat x | Inl _ \<Rightarrow> v)"
| "wire _ v = (case as_int v of Some k \<Rightarrow> VInt k | None \<Rightarrow> v)"

text \<open>The values a primitive of a type may hold: what its setter accepts.\<close>

fun holds :: "primitive \<Rightarrow> pyval \<Rightarrow> bool" where
  "holds p (VBool b) = (p = BOOLEAN)"
| "holds p (VInt n) = (p \<in> set INTEGER_PRIMITIVES \<and> integer_can_hold (prim_value p) n)"
| "holds p (VFloat x) = (p = FLOAT \<or> p = DOUBLE)"
| "holds p _ = False"

lemma get_fstring_simps [simp]:
  "get_fstring BOOLEAN = ''?''" "get_fstring INT8 = ''b''" "get_fstring UINT8 = ''B''"
  "get_fstring INT16 = ''h''" "get_fstring UINT16 = ''H''" "get_fstring INT32 = ''i''"
  "get_fstring UINT32 = ''I''" "get_fstring INT64 = ''q''" "get_fstring UINT64 = ''Q''"
  "get_fstring FLOAT = ''f''" "get_fstring DOUBLE = ''d''"
  by (simp_all add: get_fstring_def int_primitive_def other_primitive_def)

lemma int_code_simps [simp]:
  "int_code (CHR ''b'') = Some (1, True)" "int_code (CHR ''B'') = Some (1, False)"
  "int_code (CHR ''h'') = Some (2, True)" "int_code (CHR ''H'') = Some (2, False)"
  "int_code (CHR ''i'') = Some (4, True)" "int_code (CHR ''I'') = Some (4, False)"
  "int_code (CHR ''q'') = Some (8, True)" "int_code (CHR ''Q'') = Some (8, False)"
  "int_code (CHR ''?'') = None" "int_code (CHR ''f'') = None" "int_code (CHR ''d'') = None"
  by (simp_all add: int_code_def)

lemma char_size_simps [simp]:
  "char_size (CHR ''b'') = Some 1" "char_size (CHR ''B'') = Some 1"
  "char_size (CHR ''h'') = Some 2" "char_size (CHR ''H'') = Some 2"
  "char_size (CHR ''i'') = Some 4" "char_size (CHR ''I'') = Some 4"
  "char_size (CHR ''q'') = Some 8" "char_size (CHR ''Q'') = Some 8"
  "char_size (CHR ''?'') = Some 1" "char_size (CHR ''f'') = Some 4" "char_size (CHR ''d'') = Some 8"
  by (simp_all add: char_size_def)

lemma be_val_single: "be_val [b] = uint b"
  by (simp add: be_val_def)

lemma word_of_be_bytes:
  fixes w :: "'a::len word"
  assumes "LENGTH('a) = 8 * n"
  shows "word_of_int (be_val (be_bytes n (uint w))) = w"
proof -
  have "uint w < 2 ^ (8 * n)" using uint_lt2p [of w] assms by simp
  then have "uint w < 256 ^ n" by (simp add: power_mult)
  then show ?thesis by (simp add: be_val_roundtrip)
qed

lemma unpack_int:
  assumes "int_range n sg k" and "0 < n"
  shows "(if sg then be_sval (be_bytes n k) else be_val (be_bytes n k)) = k"
  using assms by (auto simp: int_range_def be_sval_roundtrip be_val_roundtrip)

text \<open>A packed primitive has its type's size, in either byte order.\<close>

lemma pack_char_length: "pack_char c v = Inr bs \<Longrightarrow> char_size c = Some (length bs)"
  by (auto simp: pack_char_def char_size_def split: option.splits if_splits sum.splits prod.splits)

lemma char_size_fstring: "char_size (hd (get_fstring p)) = Some (nat (get_size p))"
  by (cases p) simp_all

lemma fstring_single: "get_fstring p = [hd (get_fstring p)]"
  by (cases p) simp_all

lemma unpack_pack_char:
  "pack_char (hd (get_fstring p)) v = Inr bs \<Longrightarrow> unpack_char (hd (get_fstring p)) bs = wire p v"
  using unpack_int [of 1 True] unpack_int [of 1 False] unpack_int [of 2 True]
    unpack_int [of 2 False] unpack_int [of 4 True] unpack_int [of 4 False]
    unpack_int [of 8 True] unpack_int [of 8 False]
  by (cases p)
    (auto simp: pack_char_def unpack_char_def be_val_single word_of_be_bytes
      split: option.splits if_splits sum.splits)

section \<open>The codec interface\<close>

locale field_codec =
  fixes pack :: "'p \<Rightarrow> 'v \<Rightarrow> py_error + byte list"
    and unpack :: "'p \<Rightarrow> byte list \<Rightarrow> py_error + 'v"
    and width :: "'p \<Rightarrow> int"
    and arrives :: "'p \<Rightarrow> 'v \<Rightarrow> 'v"
  assumes pack_width: "pack p v = Inr bs \<Longrightarrow> int (length bs) = width p"
    and unpack_pack: "pack p v = Inr bs \<Longrightarrow> unpack p bs = Inr (arrives p v)"
begin

lemma pack_take: "pack p v = Inr bs \<Longrightarrow> take (nat (width p)) (bs @ rest) = bs"
  using pack_width [of p v bs] by simp

lemma pack_drop: "pack p v = Inr bs \<Longrightarrow> drop (nat (width p)) (bs @ rest) = rest"
  using pack_width [of p v bs] by simp

lemma width_nonneg: "pack p v = Inr bs \<Longrightarrow> 0 \<le> width p"
  using pack_width [of p v bs] by simp

text \<open>The bytes of a field fix the value that arrives.\<close>

lemma pack_inj: "pack p v = Inr bs \<Longrightarrow> pack p u = Inr bs \<Longrightarrow> arrives p v = arrives p u"
  using unpack_pack [of p v bs] unpack_pack [of p u bs] by simp

end

text \<open>A primitive in a byte order, as the buffers pack and unpack it.\<close>

definition prim_pack :: "string \<Rightarrow> primitive \<Rightarrow> pyval \<Rightarrow> py_error + byte list" where
  "prim_pack order p v = struct_pack (order @ get_fstring p) v"

definition prim_unpack :: "string \<Rightarrow> primitive \<Rightarrow> byte list \<Rightarrow> py_error + pyval" where
  "prim_unpack order p bs = struct_unpack (order @ get_fstring p) bs"

lemma fmt_parse_char: "fmt_parse (ord @ [c]) = Some (little, c') \<Longrightarrow> c' = c"
  by (auto elim!: fmt_parse.elims split: if_splits simp: append_eq_Cons_conv)

text \<open>A successful pack is a big-endian pack of the type's character, reversed for the other order.\<close>

lemma prim_packE:
  assumes "prim_pack ord p v = Inr bs"
  obtains little cs where "fmt_parse (ord @ get_fstring p) = Some (little, hd (get_fstring p))"
    and "pack_char (hd (get_fstring p)) v = Inr cs" and "bs = (if little then rev cs else cs)"
proof -
  from assms obtain little c where lc: "fmt_parse (ord @ get_fstring p) = Some (little, c)"
    by (auto simp: prim_pack_def struct_pack_def split: option.splits)
  then have c: "c = hd (get_fstring p)"
    using fmt_parse_char [of ord "hd (get_fstring p)"] fstring_single [of p] by metis
  with assms lc obtain cs where "pack_char c v = Inr cs" and "bs = (if little then rev cs else cs)"
    by (cases "pack_char c v") (auto simp: prim_pack_def struct_pack_def)
  with that lc c show thesis by blast
qed

interpretation codec: field_codec "prim_pack ord" "prim_unpack ord" get_size wire for ord
proof unfold_locales
  fix p v bs
  assume a: "prim_pack ord p v = Inr bs"
  then obtain little cs
    where lc: "fmt_parse (ord @ get_fstring p) = Some (little, hd (get_fstring p))"
      and cs: "pack_char (hd (get_fstring p)) v = Inr cs"
      and bs: "bs = (if little then rev cs else cs)"
    by (rule prim_packE)
  have "char_size (hd (get_fstring p)) = Some (length cs)"
    using cs by (rule pack_char_length)
  then have len: "length cs = nat (get_size p)"
    by (simp add: char_size_fstring)
  with bs show "int (length bs) = get_size p" by simp
  show "prim_unpack ord p bs = Inr (wire p v)"
    using lc bs len unpack_pack_char [OF cs]
    by (simp add: prim_unpack_def struct_unpack_def char_size_fstring)
qed

text \<open>Whatever a primitive may hold can be packed, unless single precision overflows.\<close>

lemma fmt_parse_net [simp]: "fmt_parse (CHR ''!'' # get_fstring p) = Some (False, hd (get_fstring p))"
  by (cases p) simp_all

lemma prim_bounds:
  "min_of (prim_value INT8) = - (2 ^ 7) \<and> max_of (prim_value INT8) = 2 ^ 7 - 1"
  "min_of (prim_value UINT8) = 0 \<and> max_of (prim_value UINT8) = 2 ^ 8 - 1"
  "min_of (prim_value INT16) = - (2 ^ 15) \<and> max_of (prim_value INT16) = 2 ^ 15 - 1"
  "min_of (prim_value UINT16) = 0 \<and> max_of (prim_value UINT16) = 2 ^ 16 - 1"
  "min_of (prim_value INT32) = - (2 ^ 31) \<and> max_of (prim_value INT32) = 2 ^ 31 - 1"
  "min_of (prim_value UINT32) = 0 \<and> max_of (prim_value UINT32) = 2 ^ 32 - 1"
  "min_of (prim_value INT64) = - (2 ^ 63) \<and> max_of (prim_value INT64) = 2 ^ 63 - 1"
  "min_of (prim_value UINT64) = 0 \<and> max_of (prim_value UINT64) = 2 ^ 64 - 1"
  by (simp_all add: int_primitive_def integer_bounds_def)

lemma int_range_hold:
  "p \<in> set INTEGER_PRIMITIVES \<Longrightarrow> integer_can_hold (prim_value p) n \<Longrightarrow>
   \<exists>k sg. int_code (hd (get_fstring p)) = Some (k, sg) \<and> int_range k sg n"
  by (cases p) (auto simp: INTEGER_PRIMITIVES_def integer_can_hold_def prim_bounds
      int_range_def simp del: prim_value.simps)

lemma holds_pack:
  assumes "holds p v" and "p \<noteq> FLOAT"
  obtains bs where "prim_pack ''!'' p v = Inr bs"
proof (cases v)
  case (VInt n)
  with assms obtain k sg where "int_code (hd (get_fstring p)) = Some (k, sg)" and "int_range k sg n"
    using int_range_hold [of p n] by auto
  with that VInt show thesis
    by (simp add: prim_pack_def struct_pack_def pack_char_def)
qed (use assms that in \<open>auto simp: prim_pack_def struct_pack_def pack_char_def\<close>)

lemma holds_wire:
  assumes "holds p v" and "p \<noteq> FLOAT"
  shows "wire p v = v"
  using assms by (cases v; cases p) (auto simp: INTEGER_PRIMITIVES_def)

section \<open>Properties\<close>

text \<open>
  Property C34: whatever value a primitive type packs to, in either byte order, the packed bytes are
  exactly the type's width and unpack to that value as the type carries it (integers unchanged,
  truth values for booleans, doubles unchanged, floats rounded to single precision).
\<close>

theorem pack_unpack:
  assumes "prim_pack ord p v = Inr bs"
  shows "prim_unpack ord p bs = Inr (wire p v) \<and> int (length bs) = get_size p"
  using codec.unpack_pack [OF assms] codec.pack_width [OF assms] by simp

theorem pack_unpack_witness:
  "prim_unpack ''<'' INT16 [254, 255] = Inr (VInt (-2))"
proof -
  have "prim_pack ''<'' INT16 (VInt (-2)) = Inr [254, 255]" by code_simp
  from pack_unpack [OF this] show ?thesis by simp
qed

text \<open>
  A value that a primitive type holds (every type but the single-precision float, which
  rounds) can be packed, and arrives exactly as it was.
\<close>

theorem held_value_roundtrip:
  assumes "holds p v" and "p \<noteq> FLOAT"
  shows "\<exists>bs. prim_pack ''!'' p v = Inr bs \<and> prim_unpack ''!'' p bs = Inr v"
proof -
  obtain bs where "prim_pack ''!'' p v = Inr bs" by (rule holds_pack [OF assms])
  with codec.unpack_pack holds_wire [OF assms] show ?thesis by fastforce
qed

theorem held_value_roundtrip_witness:
  "\<exists>bs. prim_pack ''!'' UINT64 (VInt 18446744073709551615) = Inr bs \<and>
     prim_unpack ''!'' UINT64 bs = Inr (VInt 18446744073709551615)"
  by (rule held_value_roundtrip)
    (simp_all add: INTEGER_PRIMITIVES_def integer_can_hold_def int_primitive_def integer_bounds_def)

end
