(* ===== verification/Byte_Buffer.thy ===== *)
theory Byte_Buffer
  imports Struct_Codec
begin

text \<open>
  The buffer that frames are built in and parsed from (\<open>vtelem/classes/byte_buffer.py\<close>). The
  state is the backing bytes, the number of meaningful bytes (\<open>size\<close>), the read and write
  position, whether writes are allowed and the byte order. Two interfaces say what the frame
  code relies on: \<open>byte_sink\<close>, where a write appends the packed bytes, and \<open>byte_source\<close>,
  where a read takes them from the front of what is left.
\<close>

unbundle bit_operations_syntax

section \<open>Checksums\<close>

text \<open>\<open>zlib.crc32\<close>: the reflected CRC of polynomial 0xEDB88320, seeded and inverted.\<close>

definition crc_bit :: "32 word \<Rightarrow> 32 word" where
  "crc_bit c = (if bit c 0 then drop_bit 1 c XOR 0xEDB88320 else drop_bit 1 c)"

definition crc_byte :: "32 word \<Rightarrow> byte \<Rightarrow> 32 word" where
  "crc_byte c b = (crc_bit ^^ 8) (c XOR ucast b)"

definition zlib_crc32 :: "byte list \<Rightarrow> 32 word \<Rightarrow> 32 word" where
  "zlib_crc32 bs c = NOT (foldl crc_byte (NOT c) bs)"

definition crc :: "byte list \<Rightarrow> int option \<Rightarrow> int \<Rightarrow> int" where
  "crc data size_arg initial_val =
     (let sz = (case size_arg of None \<Rightarrow> int (length data) | Some n \<Rightarrow> n)
      in uint (zlib_crc32 (py_slice data 0 sz) (word_of_int initial_val)))"

text \<open>A checksum can be continued over the next piece of the data.\<close>

lemma zlib_crc32_append: "zlib_crc32 (xs @ ys) c = zlib_crc32 ys (zlib_crc32 xs c)"
  by (simp add: zlib_crc32_def)

lemma crc_range: "0 \<le> crc data sz i \<and> crc data sz i < 2 ^ 32"
  using uint_lt2p [of "zlib_crc32 bs c" for bs c] by (auto simp: crc_def Let_def)

section \<open>The buffer\<close>

record byte_buffer =
  bb_data :: "byte list"
  bb_size :: int
  bb_pos :: int
  bb_mutable :: bool
  bb_order :: string

definition get_pos :: "byte_buffer \<Rightarrow> int" where
  "get_pos b = bb_pos b"

definition expand_to :: "int \<Rightarrow> (byte_buffer, unit) py" where
  "expand_to sz = modify (\<lambda>b.
     if int (length (bb_data b)) < sz
     then b\<lparr>bb_data := bb_data b @ replicate (nat (sz - int (length (bb_data b)))) 0\<rparr> else b)"

definition set_pos :: "int \<Rightarrow> (byte_buffer, unit) py" where
  "set_pos pos = bindp (expand_to pos) (\<lambda>_. modify (\<lambda>b. b\<lparr>bb_pos := pos\<rparr>))"

definition new_buffer :: "byte list \<Rightarrow> bool \<Rightarrow> int \<Rightarrow> string \<Rightarrow> byte_buffer" where
  "new_buffer data is_mutable sz order =
     snd (set_pos 0 \<lparr>bb_data = data, bb_size = sz, bb_pos = 0, bb_mutable = is_mutable,
                     bb_order = order\<rparr>)"

definition reset :: "(byte_buffer, unit) py" where
  "reset = bindp (gets bb_mutable) (\<lambda>m. bindp (assertp m) (\<lambda>_.
     modify (\<lambda>b. b\<lparr>bb_data := [], bb_size := 0, bb_pos := 0\<rparr>)))"

text \<open>
  The context manager: run the body at a position and restore the position afterwards, also
  when the body raises.
\<close>

definition with_pos :: "int option \<Rightarrow> (byte_buffer, 'a) py \<Rightarrow> (byte_buffer, 'a) py" where
  "with_pos pos body =
     (case pos of
        None \<Rightarrow> body
      | Some p \<Rightarrow> (\<lambda>b. let orig = get_pos b;
                           (r, b') = bindp (set_pos p) (\<lambda>_. body) b
                       in (r, snd (set_pos orig b'))))"

definition advance :: "int \<Rightarrow> bool \<Rightarrow> (byte_buffer, unit) py" where
  "advance amount inc_size = bindp (gets get_pos) (\<lambda>p. bindp (set_pos (p + amount)) (\<lambda>_.
     modify (\<lambda>b. if inc_size \<and> bb_size b < get_pos b
                 then b\<lparr>bb_size := bb_size b + (get_pos b - bb_size b)\<rparr> else b)))"

definition fstring :: "byte_buffer \<Rightarrow> primitive \<Rightarrow> string" where
  "fstring b inst = bb_order b @ get_fstring inst"

definition remaining :: "byte_buffer \<Rightarrow> int" where
  "remaining b = bb_size b - get_pos b"

definition can_read :: "primitive \<Rightarrow> byte_buffer \<Rightarrow> bool" where
  "can_read inst b \<longleftrightarrow> get_size inst \<le> remaining b"

definition read_bytes :: "int \<Rightarrow> bool \<Rightarrow> (byte_buffer, byte list) py" where
  "read_bytes count chomp =
     bindp (gets (\<lambda>b. count \<le> remaining b)) (\<lambda>ok. bindp (assertp ok) (\<lambda>_.
     bindp (gets get_pos) (\<lambda>pos.
     bindp (gets (\<lambda>b. py_slice (bb_data b) pos (pos + count))) (\<lambda>result.
     bindp (advance count False) (\<lambda>_.
     if chomp then
       bindp (assertp (pos = 0)) (\<lambda>_.
       bindp (modify (\<lambda>b. b\<lparr>bb_data :=
         py_slice (bb_data b) (pos + count) (int (length (bb_data b)))\<rparr>)) (\<lambda>_.
       bindp (modify (\<lambda>b. b\<lparr>bb_size := remaining b\<rparr>)) (\<lambda>_.
       bindp (set_pos 0) (\<lambda>_. ret result))))
     else ret result)))))"

definition bb_read :: "primitive \<Rightarrow> bool \<Rightarrow> (byte_buffer, pyval) py" where
  "bb_read inst chomp =
     bindp (gets (can_read inst)) (\<lambda>ok. bindp (assertp ok) (\<lambda>_.
     bindp (gets (\<lambda>b. fstring b inst)) (\<lambda>f.
     bindp (read_bytes (get_size inst) chomp) (\<lambda>bs. lift_res (struct_unpack f bs)))))"

definition bb_append :: "byte list \<Rightarrow> int option \<Rightarrow> (byte_buffer, int) py" where
  "bb_append other data_len_arg =
     (let data_len = (case data_len_arg of None \<Rightarrow> int (length other) | Some n \<Rightarrow> n)
      in bindp (modify (\<lambda>b. b\<lparr>bb_data :=
           py_slice (bb_data b) 0 (bb_size b) @ py_slice other 0 data_len\<rparr>)) (\<lambda>_.
         bindp (gets (\<lambda>b. remaining b = 0 \<and> bb_size b \<noteq> 0)) (\<lambda>at_end.
         bindp (if at_end then advance data_len True
                else modify (\<lambda>b. b\<lparr>bb_size := bb_size b + data_len\<rparr>)) (\<lambda>_.
         ret data_len))))"

definition crc32 :: "int \<Rightarrow> byte_buffer \<Rightarrow> int" where
  "crc32 initial_val b = crc (bb_data b) (Some (bb_size b)) initial_val"

text \<open>\<open>struct.pack_into\<close> at an offset; a negative offset counts from the end.\<close>

definition pack_into :: "string \<Rightarrow> int \<Rightarrow> pyval \<Rightarrow> (byte_buffer, unit) py" where
  "pack_into f offset v b =
     (case struct_pack f v of
        Inl e \<Rightarrow> (Inl e, b)
      | Inr bs \<Rightarrow>
          let n = int (length (bb_data b)); i = (if offset < 0 then offset + n else offset)
          in if i < 0 \<or> n < i + int (length bs) then (Inl StructError, b)
             else (Inr (), b\<lparr>bb_data := overwrite (bb_data b) (nat i) bs\<rparr>))"

definition bb_write :: "primitive \<Rightarrow> pyval \<Rightarrow> (byte_buffer, int) py" where
  "bb_write inst data =
     bindp (gets bb_mutable) (\<lambda>m.
     if \<not> m then ret 0
     else let sz = get_size inst
          in bindp (gets get_pos) (\<lambda>p. bindp (expand_to (p + sz)) (\<lambda>_.
             bindp (gets (\<lambda>b. fstring b inst)) (\<lambda>f.
             bindp (pack_into f p data) (\<lambda>_.
             bindp (advance sz True) (\<lambda>_. ret sz))))))"

section \<open>The invariant\<close>

text \<open>
  Position and size are in the backing bytes. Every operation keeps this when its arguments are
  sensible (a position or count that is not negative, a length not beyond the given bytes).
\<close>

definition bb_inv :: "byte_buffer \<Rightarrow> bool" where
  "bb_inv b \<longleftrightarrow> 0 \<le> bb_pos b \<and> 0 \<le> bb_size b \<and> bb_pos b \<le> int (length (bb_data b)) \<and>
     bb_size b \<le> int (length (bb_data b))"

text \<open>The bytes written so far, and the bytes still to be read.\<close>

definition bb_content :: "byte_buffer \<Rightarrow> byte list" where
  "bb_content b = take (nat (bb_size b)) (bb_data b)"

definition bb_rest :: "byte_buffer \<Rightarrow> byte list" where
  "bb_rest b = drop (nat (bb_pos b)) (bb_content b)"

lemma length_bb_content [simp]: "bb_inv b \<Longrightarrow> length (bb_content b) = nat (bb_size b)"
  by (auto simp: bb_content_def bb_inv_def)

lemma length_bb_rest: "bb_inv b \<Longrightarrow> int (length (bb_rest b)) = max 0 (remaining b)"
  by (auto simp: bb_rest_def bb_inv_def remaining_def get_pos_def)

definition grow :: "nat \<Rightarrow> byte list \<Rightarrow> byte list" where
  "grow n xs = xs @ replicate (n - length xs) 0"

lemma length_grow [simp]: "length (grow n xs) = max n (length xs)"
  by (auto simp: grow_def)

lemma grow_same [simp]: "n \<le> length xs \<Longrightarrow> grow n xs = xs"
  by (simp add: grow_def)

lemma take_grow [simp]: "k \<le> length xs \<Longrightarrow> take k (grow n xs) = take k xs"
  by (simp add: grow_def)

lemma expand_to_run: "expand_to n b = (Inr (), b\<lparr>bb_data := grow (nat n) (bb_data b)\<rparr>)"
proof (cases "int (length (bb_data b)) < n")
  case True
  then have "nat (n - int (length (bb_data b))) = nat n - length (bb_data b)" by simp
  with True show ?thesis by (simp add: expand_to_def grow_def)
next
  case False
  then show ?thesis by (simp add: expand_to_def)
qed

lemma set_pos_run:
  "set_pos p b = (Inr (), b\<lparr>bb_data := grow (nat p) (bb_data b), bb_pos := p\<rparr>)"
  by (simp add: set_pos_def expand_to_run bindp_def)

lemma set_pos_in [simp]:
  "p \<le> int (length (bb_data b)) \<Longrightarrow> set_pos p b = (Inr (), b\<lparr>bb_pos := p\<rparr>)"
  by (simp add: set_pos_run)

lemma advance_run:
  "bb_pos b + n \<le> int (length (bb_data b)) \<Longrightarrow>
   advance n inc b =
     (Inr (), b\<lparr>bb_pos := bb_pos b + n,
               bb_size := (if inc then max (bb_size b) (bb_pos b + n) else bb_size b)\<rparr>)"
  by (simp add: advance_def bindp_def get_pos_def max_def)

lemma with_pos_None [simp]: "with_pos None m = m"
  by (simp add: with_pos_def)

lemma new_buffer_simps [simp]:
  "new_buffer data m sz ord =
     \<lparr>bb_data = data, bb_size = sz, bb_pos = 0, bb_mutable = m, bb_order = ord\<rparr>"
  by (simp add: new_buffer_def set_pos_run)

section \<open>Writing\<close>

text \<open>A write at any position inside the backing bytes, in one step.\<close>

lemma bb_write_run:
  assumes "bb_mutable b" and "bb_inv b" and "prim_pack (bb_order b) p v = Inr bs"
  shows "bb_write p v b =
    (Inr (get_size p),
     b\<lparr>bb_data := overwrite (grow (nat (bb_pos b) + length bs) (bb_data b)) (nat (bb_pos b)) bs,
       bb_pos := bb_pos b + get_size p,
       bb_size := max (bb_size b) (bb_pos b + get_size p)\<rparr>)"
proof -
  have len: "int (length bs) = get_size p" using assms(3) by (rule codec.pack_width)
  have pos: "0 \<le> bb_pos b" using assms(2) by (simp add: bb_inv_def)
  have n: "nat (bb_pos b + get_size p) = nat (bb_pos b) + length bs"
    using len pos by linarith
  show ?thesis
    using assms(1,3) len pos n
    by (simp add: bb_write_def bindp_def get_pos_def expand_to_run fstring_def pack_into_def
        prim_pack_def Let_def advance_run)
qed

text \<open>A failed pack raises \<open>struct.error\<close> (or an overflow) out of the write.\<close>

lemma bb_write_error:
  assumes "bb_mutable b" and "prim_pack (bb_order b) p v = Inl e"
  shows "fst (bb_write p v b) = Inl e"
  using assms by (simp add: bb_write_def bindp_def expand_to_run fstring_def pack_into_def
      prim_pack_def Let_def)

definition bb_at_end :: "byte_buffer \<Rightarrow> bool" where
  "bb_at_end b \<longleftrightarrow> bb_inv b \<and> bb_mutable b \<and> bb_pos b = bb_size b"

lemma bb_write_at_end:
  assumes "bb_at_end b" and "prim_pack (bb_order b) p v = Inr bs"
  obtains b' where "bb_write p v b = (Inr (get_size p), b')" and "bb_at_end b'"
    and "bb_content b' = bb_content b @ bs" and "bb_order b' = bb_order b"
proof -
  have len: "int (length bs) = get_size p" using assms(2) by (rule codec.pack_width)
  have inv: "bb_inv b" and m: "bb_mutable b" and ps: "bb_pos b = bb_size b"
    using assms(1) by (simp_all add: bb_at_end_def)
  let ?i = "nat (bb_size b)"
  let ?d = "overwrite (grow (?i + length bs) (bb_data b)) ?i bs"
  let ?b = "b\<lparr>bb_data := ?d, bb_pos := bb_size b + get_size p, bb_size := bb_size b + get_size p\<rparr>"
  have i: "?i \<le> length (bb_data b)" and i': "int ?i = bb_size b"
    using inv by (auto simp: bb_inv_def)
  have run: "bb_write p v b = (Inr (get_size p), ?b)"
    using bb_write_run [OF m inv assms(2)] ps by (simp add: max_def)
  have n: "nat (bb_size b + get_size p) = ?i + length bs"
    using len i' by linarith
  have "bb_content ?b = take ?i (bb_data b) @ bs"
    using i by (simp add: bb_content_def n take_overwrite_through)
  then have c: "bb_content ?b = bb_content b @ bs" by (simp add: bb_content_def)
  have "?i + length bs \<le> length ?d" using i by simp
  then have "bb_size b + get_size p \<le> int (length ?d)" using len i' by linarith
  moreover have "0 \<le> bb_size b" using inv by (simp add: bb_inv_def)
  ultimately have "bb_at_end ?b"
    using m get_size_nonneg [of p] by (simp add: bb_at_end_def bb_inv_def del: length_overwrite)
  with run c that show thesis by simp
qed

text \<open>A write back into a place already written, as the frame's element count is.\<close>

lemma bb_write_back:
  assumes "bb_mutable b" and "bb_inv b" and "prim_pack (bb_order b) p v = Inr bs"
    and "0 \<le> i" and "i + get_size p \<le> bb_size b"
  shows "with_pos (Some i) (bb_write p v) b =
    (Inr (get_size p), b\<lparr>bb_data := overwrite (bb_data b) (nat i) bs\<rparr>)"
proof -
  have len: "int (length bs) = get_size p" using assms(3) by (rule codec.pack_width)
  have fits: "nat i + length bs \<le> length (bb_data b)" "i \<le> int (length (bb_data b))"
    using assms(2,4,5) len by (auto simp: bb_inv_def)
  have inv: "bb_inv (b\<lparr>bb_pos := i\<rparr>)"
    using assms(2,4) fits by (simp add: bb_inv_def)
  have run: "bb_write p v (b\<lparr>bb_pos := i\<rparr>) =
    (Inr (get_size p), b\<lparr>bb_data := overwrite (bb_data b) (nat i) bs, bb_pos := i + get_size p\<rparr>)"
    using bb_write_run [of "b\<lparr>bb_pos := i\<rparr>" p v bs] assms fits inv by (simp add: max_def)
  have "bb_pos b \<le> int (length (bb_data b))" using assms(2) by (simp add: bb_inv_def)
  then show ?thesis
    using fits run by (simp add: with_pos_def get_pos_def Let_def)
qed

lemma bb_content_overwrite:
  assumes "bb_inv b" and "i + length bs \<le> nat (bb_size b)"
  shows "bb_content (b\<lparr>bb_data := overwrite (bb_data b) i bs\<rparr>) = overwrite (bb_content b) i bs"
proof -
  have "nat (bb_size b) \<le> length (bb_data b)" using assms(1) by (auto simp: bb_inv_def)
  with assms(2) show ?thesis
    by (auto simp: bb_content_def overwrite_def drop_take)
qed

text \<open>Raw bytes are added after the content; a position at the end moves along.\<close>

lemma bb_append_run:
  assumes "bb_inv b" and "0 \<le> n" and "n \<le> int (length other)"
  shows "bb_append other (Some n) b =
    (Inr n, b\<lparr>bb_data := bb_content b @ take (nat n) other, bb_size := bb_size b + n,
              bb_pos := (if bb_pos b = bb_size b \<and> bb_size b \<noteq> 0 then bb_size b + n
                         else bb_pos b)\<rparr>)"
proof -
  have sl: "py_slice (bb_data b) 0 (bb_size b) = bb_content b"
    "py_slice other 0 n = take (nat n) other"
    using assms by (simp_all add: py_slice_from0 bb_content_def bb_inv_def)
  have len: "int (length (bb_content b @ take (nat n) other)) = bb_size b + n"
    using assms by (auto simp: bb_inv_def)
  show ?thesis
    using assms sl len
    by (simp add: bb_append_def Let_def bindp_def remaining_def get_pos_def advance_run max_def
        bb_inv_def)
qed

lemma bb_append_None: "bb_append other None = bb_append other (Some (int (length other)))"
  by (simp add: bb_append_def)

lemma bb_append_at_end:
  assumes "bb_at_end b" and "bb_size b \<noteq> 0" and "0 \<le> n" and "n \<le> int (length other)"
  obtains b' where "bb_append other (Some n) b = (Inr n, b')" and "bb_at_end b'"
    and "bb_content b' = bb_content b @ take (nat n) other"
    and "bb_data b' = bb_content b'" and "bb_order b' = bb_order b"
proof -
  let ?d = "bb_content b @ take (nat n) other"
  let ?b = "b\<lparr>bb_data := ?d, bb_size := bb_size b + n, bb_pos := bb_size b + n\<rparr>"
  have inv: "bb_inv b" using assms(1) by (simp add: bb_at_end_def)
  have run: "bb_append other (Some n) b = (Inr n, ?b)"
    using bb_append_run [OF inv assms(3,4)] assms(1,2) by (simp add: bb_at_end_def)
  have len: "int (length ?d) = bb_size b + n"
    using inv assms(3,4) by (auto simp: bb_inv_def)
  then have "nat (bb_size b + n) = length ?d" by linarith
  then have c: "bb_content ?b = ?d"
    using assms(4) by (simp only: bb_content_def [of ?b]) (simp add: min_def)
  have "bb_at_end ?b"
    using assms inv len by (auto simp: bb_at_end_def bb_inv_def)
  with run c that show thesis by simp
qed

section \<open>Reading\<close>

lemma bb_rest_take:
  assumes "bb_inv b" and "0 \<le> n" and "n \<le> remaining b"
  shows "py_slice (bb_data b) (bb_pos b) (bb_pos b + n) = take (nat n) (bb_rest b)"
proof -
  have "nat n + nat (bb_pos b) \<le> nat (bb_size b)"
    using assms by (auto simp: bb_inv_def remaining_def get_pos_def)
  then have "take (nat n) (drop (nat (bb_pos b)) (take (nat (bb_size b)) (bb_data b))) =
      take (nat n) (drop (nat (bb_pos b)) (bb_data b))"
    by (simp add: take_drop min_def)
  then show ?thesis
    using assms by (simp add: py_slice_nat bb_rest_def bb_content_def bb_inv_def remaining_def
        get_pos_def)
qed

lemma bb_rest_advance:
  assumes "bb_inv b" and "0 \<le> n"
  shows "bb_rest (b\<lparr>bb_pos := bb_pos b + n\<rparr>) = drop (nat n) (bb_rest b)"
proof -
  have "nat (bb_pos b + n) = nat n + nat (bb_pos b)"
    using assms by (simp add: bb_inv_def nat_add_distrib)
  then show ?thesis by (simp add: bb_rest_def bb_content_def)
qed

lemma read_bytes_run:
  assumes "bb_inv b" and "0 \<le> n" and "n \<le> remaining b"
  shows "read_bytes n False b = (Inr (take (nat n) (bb_rest b)), b\<lparr>bb_pos := bb_pos b + n\<rparr>)"
proof -
  have "bb_pos b + n \<le> int (length (bb_data b))"
    using assms by (auto simp: bb_inv_def remaining_def get_pos_def)
  then show ?thesis
    using assms bb_rest_take [OF assms]
    by (simp add: read_bytes_def bindp_def get_pos_def advance_run)
qed

text \<open>Reading tl_bytes than is left fails the assertion and changes nothing.\<close>

lemma read_bytes_short: "remaining b < n \<Longrightarrow> read_bytes n c b = (Inl AssertionError, b)"
  by (simp add: read_bytes_def bindp_def)

text \<open>A chomping read removes what it read from the front of the buffer.\<close>

lemma read_bytes_chomp:
  assumes "bb_inv b" and "bb_pos b = 0" and "0 \<le> n" and "n \<le> bb_size b"
  shows "read_bytes n True b =
    (Inr (take (nat n) (bb_content b)), b\<lparr>bb_data := drop (nat n) (bb_data b), bb_size := bb_size b - n\<rparr>)"
proof -
  have r: "n \<le> remaining b" using assms by (simp add: remaining_def get_pos_def)
  have le: "n \<le> int (length (bb_data b))" using assms by (simp add: bb_inv_def)
  have sl: "py_slice (bb_data b) 0 n = take (nat n) (bb_content b)"
    using bb_rest_take [OF assms(1,3) r] assms(2) by (simp add: bb_rest_def)
  have dr: "py_slice (bb_data b) n (int (length (bb_data b))) = drop (nat n) (bb_data b)"
    using assms(3) le by (simp add: py_slice_nat nat_diff_distrib)
  have b: "b\<lparr>bb_pos := 0, bb_data := x, bb_size := y\<rparr> = b\<lparr>bb_data := x, bb_size := y\<rparr>" for x y
    using assms(2) by simp
  show ?thesis
    using assms r le sl dr
    by (simp add: read_bytes_def bindp_def get_pos_def advance_run remaining_def)
qed

lemma bb_content_chomp:
  assumes "bb_inv b" and "0 \<le> n" and "n \<le> bb_size b"
  shows "bb_content (b\<lparr>bb_data := drop (nat n) (bb_data b), bb_size := bb_size b - n\<rparr>) =
    drop (nat n) (bb_content b)"
  using assms by (simp add: bb_content_def drop_take nat_diff_distrib)

text \<open>Reading a primitive: the bytes that were packed give back the value the wire carries.\<close>

lemma bb_read_run:
  assumes "bb_inv b" and "prim_pack (bb_order b) p v = Inr bs" and "bb_rest b = bs @ rest"
  shows "bb_read p False b = (Inr (wire p v), b\<lparr>bb_pos := bb_pos b + get_size p\<rparr>)"
    and "bb_rest (b\<lparr>bb_pos := bb_pos b + get_size p\<rparr>) = rest"
proof -
  have len: "int (length bs) = get_size p" using assms(2) by (rule codec.pack_width)
  have "int (length (bb_rest b)) = max 0 (remaining b)"
    using assms(1) by (rule length_bb_rest)
  moreover have "int (length (bb_rest b)) = get_size p + int (length rest)"
    using len assms(3) by simp
  ultimately have rem: "get_size p \<le> remaining b"
    using get_size_pos [of p] by linarith
  have tk: "take (nat (get_size p)) (bb_rest b) = bs"
    using len assms(3) by simp
  have un: "struct_unpack (fstring b p) bs = Inr (wire p v)"
    using codec.unpack_pack [OF assms(2)] by (simp add: prim_unpack_def fstring_def)
  show "bb_read p False b = (Inr (wire p v), b\<lparr>bb_pos := bb_pos b + get_size p\<rparr>)"
    using rem un tk read_bytes_run [OF assms(1) _ rem]
    by (simp add: bb_read_def bindp_def can_read_def)
  show "bb_rest (b\<lparr>bb_pos := bb_pos b + get_size p\<rparr>) = rest"
    using bb_rest_advance [OF assms(1), of "get_size p"] len assms(3) by simp
qed

lemma bb_read_short: "remaining b < get_size p \<Longrightarrow> bb_read p c b = (Inl AssertionError, b)"
  by (simp add: bb_read_def bindp_def can_read_def)

section \<open>The interfaces\<close>

text \<open>
  A sink takes one field at a time and keeps all bytes written, in order. The client lemma says
  what a loop of writes leaves: the packed fields, one after the other.
\<close>

locale byte_sink =
  fixes wr :: "'p \<Rightarrow> 'v \<Rightarrow> ('s, int) py"
    and enc :: "'p \<Rightarrow> 'v \<Rightarrow> py_error + byte list"
    and width :: "'p \<Rightarrow> int"
    and ready :: "'s \<Rightarrow> bool"
    and written :: "'s \<Rightarrow> byte list"
  assumes wr_ok: "ready s \<Longrightarrow> enc p v = Inr bs \<Longrightarrow>
      \<exists>s'. wr p v s = (Inr (width p), s') \<and> ready s' \<and> written s' = written s @ bs"
    and enc_width: "enc p v = Inr bs \<Longrightarrow> int (length bs) = width p"
begin

lemma write_each:
  assumes "ready s" and "list_all2 (\<lambda>(p, v) bs. enc p v = Inr bs) fs bss"
  shows "\<exists>s'. map_each (\<lambda>(p, v). wr p v) fs s = (Inr (map (\<lambda>(p, v). width p) fs), s') \<and> ready s' \<and>
    written s' = written s @ concat bss"
  using assms(2,1)
proof (induction fs bss arbitrary: s rule: list_all2_induct)
  case Nil
  then show ?case by simp
next
  case (Cons f fs bs bss)
  obtain p v where f: "f = (p, v)" by (cases f)
  with Cons.hyps(1) Cons.prems obtain s1
    where s1: "wr p v s = (Inr (width p), s1)" "ready s1" "written s1 = written s @ bs"
    using wr_ok [of s p v bs] by auto
  with Cons.IH [of s1] f show ?case by auto
qed

lemma write_each_size:
  assumes "list_all2 (\<lambda>(p, v) bs. enc p v = Inr bs) fs bss"
  shows "int (length (concat bss)) = (\<Sum>(p, v)\<leftarrow>fs. width p)"
  using assms
proof (induction fs bss rule: list_all2_induct)
  case Nil
  then show ?case by simp
next
  case (Cons f fs bs bss)
  then show ?case using enc_width [of "fst f" "snd f" bs] by (cases f) simp
qed

end

text \<open>
  A source gives the fields back in the same order and touches nothing but its own position.
\<close>

locale byte_source =
  fixes rd :: "'p \<Rightarrow> ('s, 'v) py"
    and enc :: "'p \<Rightarrow> 'v \<Rightarrow> py_error + byte list"
    and arrives :: "'p \<Rightarrow> 'v \<Rightarrow> 'v"
    and ready :: "'s \<Rightarrow> bool"
    and rest :: "'s \<Rightarrow> byte list"
    and base :: "'s \<Rightarrow> 'b"
  assumes rd_ok: "ready s \<Longrightarrow> enc p v = Inr bs \<Longrightarrow> rest s = bs @ tl_bytes \<Longrightarrow>
      \<exists>s'. rd p s = (Inr (arrives p v), s') \<and> ready s' \<and> rest s' = tl_bytes \<and> base s' = base s"
begin

lemma read_each:
  assumes "ready s" and "list_all2 (\<lambda>(p, v) bs. enc p v = Inr bs) fs bss"
    and "rest s = concat bss @ tl_bytes"
  shows "\<exists>s'. map_each rd (map fst fs) s = (Inr (map (\<lambda>(p, v). arrives p v) fs), s') \<and> ready s' \<and>
    rest s' = tl_bytes \<and> base s' = base s"
  using assms(2,1,3)
proof (induction fs bss arbitrary: s rule: list_all2_induct)
  case Nil
  then show ?case by simp
next
  case (Cons f fs bs bss)
  obtain p v where f: "f = (p, v)" by (cases f)
  with Cons.hyps(1) Cons.prems obtain s1
    where s1: "rd p s = (Inr (arrives p v), s1)" "ready s1" "rest s1 = concat bss @ tl_bytes"
      "base s1 = base s"
    using rd_ok [of s p v bs "concat bss @ tl_bytes"] by auto
  with Cons.IH [of s1] f show ?case by auto
qed

end

text \<open>The buffer is a sink at its end and a source anywhere, in network byte order.\<close>

definition bb_sink :: "byte_buffer \<Rightarrow> bool" where
  "bb_sink b \<longleftrightarrow> bb_at_end b \<and> bb_order b = ''!''"

definition bb_source :: "byte_buffer \<Rightarrow> bool" where
  "bb_source b \<longleftrightarrow> bb_inv b \<and> bb_order b = ''!''"

abbreviation net_pack :: "primitive \<Rightarrow> pyval \<Rightarrow> py_error + byte list" where
  "net_pack \<equiv> prim_pack ''!''"

interpretation sink: byte_sink bb_write net_pack get_size bb_sink bb_content
proof unfold_locales
  fix s p v bs
  assume a: "bb_sink s" and e: "net_pack p v = Inr bs"
  then have "bb_at_end s" and "prim_pack (bb_order s) p v = Inr bs"
    by (simp_all add: bb_sink_def)
  then obtain s' where "bb_write p v s = (Inr (get_size p), s')" "bb_at_end s'"
    "bb_content s' = bb_content s @ bs" "bb_order s' = bb_order s"
    by (rule bb_write_at_end)
  with a show "\<exists>s'. bb_write p v s = (Inr (get_size p), s') \<and> bb_sink s' \<and>
      bb_content s' = bb_content s @ bs"
    by (auto simp: bb_sink_def)
qed (rule codec.pack_width)

lemma bb_inv_advance:
  "bb_inv b \<Longrightarrow> 0 \<le> n \<Longrightarrow> n \<le> remaining b \<Longrightarrow> bb_inv (b\<lparr>bb_pos := bb_pos b + n\<rparr>)"
  by (auto simp: bb_inv_def remaining_def get_pos_def)

lemma bb_rest_remaining:
  assumes "bb_inv b" and "bb_rest b = bs @ rest" and "bs \<noteq> []"
  shows "int (length bs) \<le> remaining b"
proof -
  have "int (length bs) + int (length rest) = max 0 (remaining b)"
    using length_bb_rest [OF assms(1)] assms(2) by simp
  moreover have "0 < length bs" using assms(3) by simp
  ultimately show ?thesis by linarith
qed

interpretation source: byte_source "\<lambda>p. bb_read p False" net_pack wire bb_source bb_rest
  "\<lambda>b. (bb_data b, bb_size b, bb_mutable b)"
proof unfold_locales
  fix s p v bs tl_bytes
  assume a: "bb_source s" and e: "net_pack p v = Inr bs" and r: "bb_rest s = bs @ tl_bytes"
  then have inv: "bb_inv s" and e': "prim_pack (bb_order s) p v = Inr bs"
    by (simp_all add: bb_source_def)
  have len: "int (length bs) = get_size p" using e by (rule codec.pack_width)
  then have "0 < int (length bs)" by simp
  then have "bs \<noteq> []" by auto
  then have "get_size p \<le> remaining s" using bb_rest_remaining [OF inv r] len by simp
  then have "bb_source (s\<lparr>bb_pos := bb_pos s + get_size p\<rparr>)"
    using bb_inv_advance [OF inv] a by (simp add: bb_source_def)
  with bb_read_run [OF inv e' r]
  show "\<exists>s'. bb_read p False s = (Inr (wire p v), s') \<and> bb_source s' \<and> bb_rest s' = tl_bytes \<and>
      (bb_data s', bb_size s', bb_mutable s') = (bb_data s, bb_size s, bb_mutable s)"
    by simp
qed

section \<open>Properties\<close>

text \<open>
  A sequence of typed fields written to a fresh buffer makes up exactly the
  concatenation of their encodings, and reading the same types back from the start gives every
  value as its type carries it.
\<close>

theorem buffer_roundtrip:
  assumes "list_all2 (\<lambda>(p, v) bs. net_pack p v = Inr bs) fs bss"
  shows "\<exists>b b' b''. map_each (\<lambda>(p, v). bb_write p v) fs (new_buffer [] True 0 ''!'') =
      (Inr (map (\<lambda>(p, v). get_size p) fs), b) \<and> bb_content b = concat bss \<and>
    set_pos 0 b = (Inr (), b') \<and>
    map_each (\<lambda>p. bb_read p False) (map fst fs) b' = (Inr (map (\<lambda>(p, v). wire p v) fs), b'') \<and>
    bb_rest b'' = []"
proof -
  have new: "bb_sink (new_buffer [] True 0 ''!'')" and empty: "bb_content (new_buffer [] True 0 ''!'') = []"
    by (simp_all add: bb_sink_def bb_at_end_def bb_inv_def bb_content_def)
  obtain b where b: "map_each (\<lambda>(p, v). bb_write p v) fs (new_buffer [] True 0 ''!'') =
      (Inr (map (\<lambda>(p, v). get_size p) fs), b)" "bb_sink b" "bb_content b = concat bss"
    using sink.write_each [OF new assms] empty by auto
  let ?b = "b\<lparr>bb_pos := 0\<rparr>"
  have inv: "bb_inv b" using b(2) by (simp add: bb_sink_def bb_at_end_def)
  then have "bb_source ?b" and rest: "bb_rest ?b = concat bss @ []"
    using b(2,3) by (simp_all add: bb_source_def bb_sink_def bb_inv_def bb_rest_def bb_content_def)
  from source.read_each [OF this(1) assms rest] obtain b'' where
    r: "map_each (\<lambda>p. bb_read p False) (map fst fs) ?b = (Inr (map (\<lambda>(p, v). wire p v) fs), b'')"
      "bb_source b''" "bb_rest b'' = []" "bb_size b'' = bb_size ?b" "bb_data b'' = bb_data ?b" by auto
  then show ?thesis using b r by (auto simp: set_pos_run)
qed

theorem buffer_roundtrip_witness:
  "\<exists>b b' b''. map_each (\<lambda>(p, v). bb_write p v) [(UINT8, VInt 7), (INT16, VInt (-2))]
      (new_buffer [] True 0 ''!'') = (Inr [1, 2], b) \<and> bb_content b = [7, 255, 254] \<and>
    set_pos 0 b = (Inr (), b') \<and>
    map_each (\<lambda>p. bb_read p False) [UINT8, INT16] b' = (Inr [VInt 7, VInt (-2)], b'') \<and> bb_rest b'' = []"
proof -
  have "net_pack UINT8 (VInt 7) = Inr [7]" and "net_pack INT16 (VInt (-2)) = Inr [255, 254]"
    by code_simp+
  then have "list_all2 (\<lambda>(p, v) bs. net_pack p v = Inr bs)
      [(UINT8, VInt 7), (INT16, VInt (-2))] [[7], [255, 254]]"
    by simp
  from buffer_roundtrip [OF this] show ?thesis by simp
qed

end
