(* ===== verification/Type_Primitive.thy ===== *)
theory Type_Primitive
  imports Byte_Buffer
begin

text \<open>
  Stored primitives (\<open>vtelem/classes/type_primitive.py\<close>): a typed value with the time of its last
  assignment and an optional change callback. A setter answers whether the value was accepted;
  its call of the callback is part of the result, for the caller that owns the callback to run.
\<close>

section \<open>The primitive and its setter\<close>

text \<open>A value and the time it was set; a change is the old and the new one.\<close>

type_synonym timed_value = "pyval \<times> pyfloat"

type_synonym change = "timed_value \<times> timed_value"

record type_primitive =
  tp_type :: primitive
  tp_data :: pyval
  tp_changed_cb :: bool
  tp_last_set :: pyfloat

definition new_type_primitive :: "primitive \<Rightarrow> bool \<Rightarrow> type_primitive" where
  "new_type_primitive inst changed_cb =
     \<lparr>tp_type = inst, tp_data = default_val inst, tp_changed_cb = changed_cb, tp_last_set = 0\<rparr>"

text \<open>\<open>isinstance(data, expected_type)\<close>: a boolean is an integer, an integer is not a float.\<close>

fun isinstance :: "pyval \<Rightarrow> py_type \<Rightarrow> bool" where
  "isinstance (VBool b) TBool = True"
| "isinstance (VBool b) TInt = True"
| "isinstance (VInt n) TInt = True"
| "isinstance (VFloat x) TFloat = True"
| "isinstance _ _ = False"

text \<open>\<open>expected_type(data)\<close> for a value that is an instance of it.\<close>

fun convert :: "py_type \<Rightarrow> pyval \<Rightarrow> pyval" where
  "convert TInt v = (case as_int v of Some n \<Rightarrow> VInt n | None \<Rightarrow> v)"
| "convert _ v = v"

definition py_validate :: "primitive \<Rightarrow> pyval \<Rightarrow> bool" where
  "py_validate p v = (case as_int v of Some n \<Rightarrow> prim_validate p n | None \<Rightarrow> True)"

definition tp_set :: "pyval \<Rightarrow> pyfloat option \<Rightarrow> 'x type_primitive_scheme \<Rightarrow>
    bool \<times> 'x type_primitive_scheme \<times> change option" where
  "tp_set data time_arg tp =
     (let time = (case time_arg of None \<Rightarrow> 0 | Some t \<Rightarrow> t);
          expected_type = py_type_of (prim_value (tp_type tp))
      in if isinstance data expected_type then
           if \<not> py_validate (tp_type tp) data then (False, tp, None)
           else (True, tp\<lparr>tp_data := convert expected_type data, tp_last_set := time\<rparr>,
                 if tp_changed_cb tp \<and> \<not> num_eq (tp_data tp) data
                 then Some ((tp_data tp, tp_last_set tp), (data, time)) else None)
         else (False, tp, None))"

definition tp_get :: "'x type_primitive_scheme \<Rightarrow> pyval" where
  "tp_get tp = tp_data tp"

definition tp_add :: "pyval \<Rightarrow> pyfloat option \<Rightarrow> 'x type_primitive_scheme \<Rightarrow>
    py_error + bool \<times> 'x type_primitive_scheme \<times> change option" where
  "tp_add data time tp =
     (case num_add (tp_get tp) data of Inl e \<Rightarrow> Inl e | Inr v \<Rightarrow> Inr (tp_set v time tp))"

definition tp_eq :: "'x type_primitive_scheme \<Rightarrow> 'y type_primitive_scheme \<Rightarrow> py_error + bool" where
  "tp_eq a b =
     (if tp_type a \<noteq> tp_type b then Inr False
      else case as_float (tp_data a) of
        Inl e \<Rightarrow> Inl e
      | Inr x \<Rightarrow> (case as_float (tp_data b) of
                  Inl e \<Rightarrow> Inl e
                | Inr y \<Rightarrow> Inr (flt (fabs (fsub x y)) (fl (1 / 1000)))))"

section \<open>Reading and writing\<close>

definition tp_size :: "'x type_primitive_scheme \<Rightarrow> int" where
  "tp_size tp = get_size (tp_type tp)"

definition tp_write :: "int option \<Rightarrow> 'x type_primitive_scheme \<Rightarrow> (byte_buffer, int) py" where
  "tp_write pos tp = with_pos pos (bb_write (tp_type tp) (tp_data tp))"

text \<open>A read stores whatever arrived, without the setter's check, time and callback.\<close>

definition tp_read :: "int option \<Rightarrow> bool \<Rightarrow> (byte_buffer \<times> type_primitive, pyval) py" where
  "tp_read pos chomp =
     bindp (gets (\<lambda>(b, tp). tp_type tp)) (\<lambda>ty.
     bindp (zoom fst (\<lambda>b (_, tp). (b, tp)) (with_pos pos (bb_read ty chomp))) (\<lambda>result.
     bindp (modify (\<lambda>(b, tp). (b, tp\<lparr>tp_data := result\<rparr>))) (\<lambda>_. ret result)))"

definition tp_buffer :: "string \<Rightarrow> 'x type_primitive_scheme \<Rightarrow> py_error + byte list" where
  "tp_buffer order tp = struct_pack (order @ fmt (prim_value (tp_type tp))) (tp_data tp)"

definition new_default :: "string \<Rightarrow> bool \<Rightarrow> py_error + type_primitive" where
  "new_default dflt changed_cb =
     (if dflt \<in> set (dict_keys DEFAULTS)
      then (case dict_item DEFAULTS dflt of Inl e \<Rightarrow> Inl e | Inr p \<Rightarrow> Inr (new_type_primitive p changed_cb))
      else Inl AssertionError)"

section \<open>The invariant\<close>

text \<open>A stored primitive holds a value of its type, in its range.\<close>

definition tp_inv :: "'x type_primitive_scheme \<Rightarrow> bool" where
  "tp_inv tp \<longleftrightarrow> holds (tp_type tp) (tp_data tp)"

lemma holds_default [simp]: "holds p (default_val p)"
  by (cases p) (simp_all add: default_val_def int_primitive_def other_primitive_def
      INTEGER_PRIMITIVES_def integer_can_hold_def integer_bounds_def)

lemma new_type_primitive_inv [simp]: "tp_inv (new_type_primitive p cb)"
  by (simp add: tp_inv_def new_type_primitive_def)

lemma prim_type_simps [simp]:
  "py_type_of (prim_value p) =
     (if p = BOOLEAN then TBool else if p \<in> set INTEGER_PRIMITIVES then TInt else TFloat)"
  by (cases p) (simp_all add: int_primitive_def other_primitive_def INTEGER_PRIMITIVES_def)

lemma prim_validate_int:
  "p \<in> set INTEGER_PRIMITIVES \<Longrightarrow> prim_validate p n = integer_can_hold (prim_value p) n"
  by (cases p) (simp_all add: prim_validate_def int_primitive_def INTEGER_PRIMITIVES_def)

lemma prim_validate_other: "p \<notin> set INTEGER_PRIMITIVES \<Longrightarrow> prim_validate p n"
  by (cases p) (simp_all add: prim_validate_def other_primitive_def INTEGER_PRIMITIVES_def)

text \<open>The values the setter of a type accepts.\<close>

definition accepts :: "primitive \<Rightarrow> pyval \<Rightarrow> bool" where
  "accepts p v \<longleftrightarrow> isinstance v (py_type_of (prim_value p)) \<and> py_validate p v"

lemma accepts_holds:
  "accepts p v \<Longrightarrow> holds p (convert (py_type_of (prim_value p)) v)"
  by (cases v)
    (auto simp: accepts_def py_validate_def prim_validate_int prim_validate_other
      split: if_splits, (cases p; simp add: INTEGER_PRIMITIVES_def)+)

lemma holds_accepts: "holds p v \<Longrightarrow> accepts p v"
  by (cases v)
    (auto simp: accepts_def py_validate_def prim_validate_int prim_validate_other
      INTEGER_PRIMITIVES_def other_primitive_def simp del: prim_value.simps
      split: if_splits)

lemma tp_set_run:
  "tp_set v t tp =
     (if accepts (tp_type tp) v
      then (True, tp\<lparr>tp_data := convert (py_type_of (prim_value (tp_type tp))) v,
                     tp_last_set := (case t of None \<Rightarrow> 0 | Some t' \<Rightarrow> t')\<rparr>,
            if tp_changed_cb tp \<and> \<not> num_eq (tp_data tp) v
            then Some ((tp_data tp, tp_last_set tp), (v, case t of None \<Rightarrow> 0 | Some t' \<Rightarrow> t')) else None)
      else (False, tp, None))"
  by (auto simp: tp_set_def accepts_def Let_def)

lemma tp_set_type [simp]: "tp_type (fst (snd (tp_set v t tp))) = tp_type tp"
  by (simp add: tp_set_run)

lemma tp_set_inv: "tp_inv tp \<Longrightarrow> tp_inv (fst (snd (tp_set v t tp)))"
  using accepts_holds [of "tp_type tp" v] by (simp add: tp_set_run tp_inv_def)

lemma tp_add_inv: "tp_inv tp \<Longrightarrow> tp_add v t tp = Inr (ok, tp', c) \<Longrightarrow> tp_inv tp'"
  using tp_set_inv [of tp "projr (num_add (tp_get tp) v)" t]
  by (auto simp: tp_add_def split: sum.splits)

text \<open>
  Whatever bytes arrive unpack to a value of the type, so a read keeps the invariant although it
  bypasses the setter.
\<close>

lemma be_sval_bounds:
  assumes "bs \<noteq> []"
  shows "- (2 ^ (8 * length bs - 1)) \<le> be_sval bs \<and> be_sval bs < 2 ^ (8 * length bs - 1)"
proof -
  have "0 < 8 * length bs" using assms by simp
  then have p: "(2 :: int) ^ (8 * length bs) = 2 * 2 ^ (8 * length bs - 1)"
    by (cases "8 * length bs") simp_all
  have "0 \<le> be_val bs" and "be_val bs < 2 ^ (8 * length bs)"
    using be_val_bounds [of bs] by (simp_all add: power_mult)
  with p show ?thesis by (auto simp: be_sval_def Let_def)
qed

lemma unpack_char_holds:
  assumes "length bs = nat (get_size p)"
  shows "holds p (unpack_char (hd (get_fstring p)) bs)"
proof -
  have ne: "bs \<noteq> []" using assms by (cases p) auto
  have u: "0 \<le> be_val bs" "be_val bs < 256 ^ length bs"
    using be_val_bounds [of bs] by simp_all
  note s = be_sval_bounds [OF ne]
  show ?thesis
    using assms u s
    by (cases p) (simp_all add: unpack_char_def INTEGER_PRIMITIVES_def integer_can_hold_def
        prim_bounds del: prim_value.simps)
qed

lemma prim_unpack_holds:
  assumes "prim_unpack ord p bs = Inr v"
  shows "holds p v"
proof -
  from assms obtain little c where fp: "fmt_parse (ord @ get_fstring p) = Some (little, c)"
      and c: "char_size c = Some (length bs)" and v: "v = unpack_char c (if little then rev bs else bs)"
    by (auto simp: prim_unpack_def struct_unpack_def split: option.splits if_splits)
  have hd: "c = hd (get_fstring p)"
    using fp fmt_parse_char [of ord "hd (get_fstring p)"] fstring_single [of p] by metis
  with c have "length bs = nat (get_size p)" by (simp add: char_size_fstring)
  then show ?thesis
    using v hd unpack_char_holds [of bs p] unpack_char_holds [of "rev bs" p] by simp
qed

lemma bb_read_holds:
  assumes "bb_read p chomp b = (Inr v, b')"
  shows "holds p v"
proof -
  from assms obtain bs where "struct_unpack (fstring b p) bs = Inr v"
    by (auto simp: bb_read_def elim!: bindp_InrE split: if_splits)
  then show ?thesis
    using prim_unpack_holds [of "bb_order b" p bs v] by (simp add: prim_unpack_def fstring_def)
qed

lemma with_pos_InrE:
  assumes "with_pos pos m b = (Inr v, b')"
  obtains b1 b2 where "m b1 = (Inr v, b2)"
proof (cases pos)
  case None
  with assms that show thesis by simp
next
  case (Some p)
  with assms obtain b2 where "bindp (set_pos p) (\<lambda>_. m) b = (Inr v, b2)"
    by (auto simp: with_pos_def Let_def split: prod.splits)
  then show thesis using that by (elim bindp_InrE)
qed

lemma tp_read_inv:
  assumes "tp_read pos chomp (b, tp) = (Inr v, (b', tp'))"
  shows "tp_inv tp' \<and> tp_data tp' = v \<and> tp_type tp' = tp_type tp"
proof -
  obtain r b1 where r: "with_pos pos (bb_read (tp_type tp) chomp) b = (r, b1)"
    by (cases "with_pos pos (bb_read (tp_type tp) chomp) b")
  with assms have v: "r = Inr v" and tp': "tp' = tp\<lparr>tp_data := v\<rparr>"
    by (cases r; simp add: tp_read_def bindp_def zoom_def)+
  from r v have "holds (tp_type tp) v"
    by (auto elim!: with_pos_InrE bb_read_holds)
  with tp' show ?thesis by (simp add: tp_inv_def)
qed

text \<open>A failed read leaves the stored value alone.\<close>

lemma tp_read_error:
  assumes "tp_read pos chomp (b, tp) = (Inl e, (b', tp'))"
  shows "tp' = tp"
  using assms
  by (cases "with_pos pos (bb_read (tp_type tp) chomp) b"; cases "fst (with_pos pos (bb_read (tp_type tp) chomp) b)")
    (auto simp: tp_read_def bindp_def zoom_def)

text \<open>What a primitive's bytes and its buffer write have in common.\<close>

lemma tp_buffer_pack: "tp_buffer order tp = prim_pack order (tp_type tp) (tp_data tp)"
  by (simp add: tp_buffer_def prim_pack_def get_fstring_def)

lemma tp_write_sink:
  assumes "bb_sink b" and "net_pack (tp_type tp) (tp_data tp) = Inr bs"
  shows "\<exists>b'. tp_write None tp b = (Inr (tp_size tp), b') \<and> bb_sink b' \<and>
    bb_content b' = bb_content b @ bs"
  using sink.wr_ok [OF assms] by (simp add: tp_write_def tp_size_def)

lemma new_default_ok [simp]:
  "dict_get DEFAULTS k = Some p \<Longrightarrow> new_default k cb = Inr (new_type_primitive p cb)"
  by (force simp: new_default_def dest: map_of_SomeD)

section \<open>Properties\<close>

text \<open>
  Property C37: a typed value always holds a value of its type and range. Setting it keeps that
  whether the new value is accepted or refused, adding to it does, and reading it from a buffer
  does whatever the bytes are; a refused value changes nothing, and a value the type can hold is
  accepted.
\<close>

theorem typed_value_invariant:
  assumes "tp_inv tp"
  shows "tp_inv (fst (snd (tp_set v t tp)))
    \<and> (\<forall>ok tp' c. tp_add v t tp = Inr (ok, tp', c) \<longrightarrow> tp_inv tp')
    \<and> (\<forall>pos chomp b r b' tp'. tp_read pos chomp (b, tp) = (r, (b', tp')) \<longrightarrow> tp_inv tp')
    \<and> (\<not> fst (tp_set v t tp) \<longrightarrow> snd (tp_set v t tp) = (tp, None))
    \<and> (holds (tp_type tp) v \<longrightarrow> fst (tp_set v t tp))"
proof (intro conjI allI impI)
  show "tp_inv (fst (snd (tp_set v t tp)))" using assms by (rule tp_set_inv)
next
  fix ok tp' c
  assume "tp_add v t tp = Inr (ok, tp', c)"
  then show "tp_inv tp'" using tp_add_inv [OF assms] by blast
next
  fix pos chomp b r b' tp'
  assume run: "tp_read pos chomp (b, tp) = (r, (b', tp'))"
  show "tp_inv tp'"
  proof (cases r)
    case (Inl e)
    then show ?thesis using tp_read_error run assms by fastforce
  next
    case (Inr x)
    then show ?thesis using tp_read_inv run by fastforce
  qed
next
  assume "\<not> fst (tp_set v t tp)"
  then have "\<not> accepts (tp_type tp) v" by (auto simp: tp_set_run)
  then show "snd (tp_set v t tp) = (tp, None)" unfolding tp_set_run by simp
next
  assume "holds (tp_type tp) v"
  then show "fst (tp_set v t tp)" by (simp add: tp_set_run holds_accepts)
qed

theorem typed_value_invariant_witness:
  "tp_inv (fst (snd (tp_set (VInt 256) None (new_type_primitive UINT8 True)))) \<and>
     snd (tp_set (VInt 256) None (new_type_primitive UINT8 True)) = (new_type_primitive UINT8 True, None)"
proof -
  have inv: "tp_inv (new_type_primitive UINT8 True)" by simp
  have "\<not> fst (tp_set (VInt 256) None (new_type_primitive UINT8 True))" by code_simp
  with typed_value_invariant [OF inv, of "VInt 256" None] show ?thesis by blast
qed

end
