(* ===== verification/User_Enum.thy ===== *)
theory User_Enum
  imports Type_Primitive
begin

text \<open>
  Runtime enumerations (\<open>vtelem/classes/user_enum.py\<close>, with \<open>vtelem/names.py\<close>) and the library's
  own enumerations: frame and message types (\<open>vtelem/types/frame.py\<close>) and the daemon states and
  operations (\<open>vtelem/enums/daemon.py\<close>).
\<close>

section \<open>Names\<close>

definition is_upper :: "char \<Rightarrow> bool" where
  "is_upper c \<longleftrightarrow> 65 \<le> (of_char c :: nat) \<and> (of_char c :: nat) \<le> 90"

definition is_lower :: "char \<Rightarrow> bool" where
  "is_lower c \<longleftrightarrow> 97 \<le> (of_char c :: nat) \<and> (of_char c :: nat) \<le> 122"

definition is_digit :: "char \<Rightarrow> bool" where
  "is_digit c \<longleftrightarrow> 48 \<le> (of_char c :: nat) \<and> (of_char c :: nat) \<le> 57"

definition char_lower :: "char \<Rightarrow> char" where
  "char_lower c = (if is_upper c then char_of ((of_char c :: nat) + 32) else c)"

definition str_lower :: "string \<Rightarrow> string" where
  "str_lower s = map char_lower s"

text \<open>The two substitutions of \<open>to_snake\<close>: matches are found left to right and do not overlap.\<close>

function sub_words :: "string \<Rightarrow> string" where
  "sub_words (c # u # l # s) =
     (if c \<noteq> CHR 0x0A \<and> is_upper u \<and> is_lower l
      then c # CHR ''_'' # u # l # takeWhile is_lower s @ sub_words (dropWhile is_lower s)
      else c # sub_words (u # l # s))"
| "sub_words [] = []"
| "sub_words [c] = [c]"
| "sub_words [c, u] = [c, u]"
  by pat_completeness auto
termination
  by (relation "measure length") (auto simp: less_Suc_eq_le intro!: le_SucI length_dropWhile_le)

fun sub_humps :: "string \<Rightarrow> string" where
  "sub_humps (c # u # s) =
     (if (is_lower c \<or> is_digit c) \<and> is_upper u then c # CHR ''_'' # u # sub_humps s
      else c # sub_humps (u # s))"
| "sub_humps s = s"

definition to_snake :: "string \<Rightarrow> string" where
  "to_snake name = str_lower (sub_humps (sub_words name))"

lemma char_lower_not_upper: "\<not> is_upper (char_lower c)"
  by (auto simp: is_upper_def char_lower_def of_char_of)

lemma char_lower_idem [simp]: "char_lower (char_lower c) = char_lower c"
  using char_lower_not_upper [of c] by (simp add: char_lower_def [of "char_lower c"])

lemma str_lower_idem [simp]: "str_lower (str_lower s) = str_lower s"
  by (simp add: str_lower_def)

lemma sub_words_no_upper: "list_all (\<lambda>c. \<not> is_upper c) s \<Longrightarrow> sub_words s = s"
  by (induction s rule: sub_words.induct) simp_all

lemma sub_humps_no_upper: "list_all (\<lambda>c. \<not> is_upper c) s \<Longrightarrow> sub_humps s = s"
  by (induction s rule: sub_humps.induct) simp_all

lemma str_lower_no_upper: "list_all (\<lambda>c. \<not> is_upper c) (str_lower s)"
  by (simp add: str_lower_def list_all_iff char_lower_not_upper)

text \<open>A snake-case name is left alone.\<close>

lemma to_snake_idem: "to_snake (to_snake s) = to_snake s"
  using str_lower_no_upper [of "sub_humps (sub_words s)"]
  by (simp add: to_snake_def sub_words_no_upper sub_humps_no_upper)

section \<open>Enumerations\<close>

record user_enum =
  ue_name :: string
  ue_mappings :: "(int, string) dict"
  ue_default :: string
  ue_strings :: "(string, int option) dict"

definition coerce_enum :: "(int, string) dict \<Rightarrow> py_error + (int, string) dict" where
  "coerce_enum values =
     (let enum = map (\<lambda>(k, v). (k, str_lower v)) (fold (\<lambda>(k, v). dict_set k v) values [])
      in if int (length enum) \<le> 2 ^ nat (get_size UINT8 * 8) \<and> 0 < length enum
         then Inr enum else Inl AssertionError)"

definition reverse_map :: "(int, string) dict \<Rightarrow> (string, int option) dict" where
  "reverse_map enum_map = fold (\<lambda>(k, v). dict_set (str_lower v) (Some k)) enum_map []"

record enum_data =
  ed_name :: string
  ed_mappings :: "(int, string) dict"
  ed_default :: "string option"

definition user_enum_data :: "string \<Rightarrow> (int, string) dict \<Rightarrow> string option \<Rightarrow> py_error + enum_data" where
  "user_enum_data name values dflt =
     (case coerce_enum values of
        Inl e \<Rightarrow> Inl e
      | Inr m \<Rightarrow> Inr \<lparr>ed_name = to_snake name, ed_mappings = m, ed_default = dflt\<rparr>)"

text \<open>\<open>UserEnum.init\<close>: the reverse mapping, and the first name when no default is given.\<close>

definition ue_init :: "enum_data \<Rightarrow> py_error + user_enum" where
  "ue_init data =
     (let strings = reverse_map (ed_mappings data)
      in case (ed_default data, dict_keys strings) of
           (Some d, _) \<Rightarrow> Inr \<lparr>ue_name = ed_name data, ue_mappings = ed_mappings data,
                               ue_default = d, ue_strings = strings\<rparr>
         | (None, k # _) \<Rightarrow> Inr \<lparr>ue_name = ed_name data, ue_mappings = ed_mappings data,
                                ue_default = k, ue_strings = strings\<rparr>
         | (None, []) \<Rightarrow> Inl IndexError)"

definition user_enum :: "string \<Rightarrow> (int, string) dict \<Rightarrow> string option \<Rightarrow> py_error + user_enum" where
  "user_enum name values dflt =
     (case user_enum_data name values dflt of Inl e \<Rightarrow> Inl e | Inr d \<Rightarrow> ue_init d)"

definition ue_iter :: "user_enum \<Rightarrow> string list" where
  "ue_iter e = dict_keys (ue_strings e)"

definition get_str :: "int \<Rightarrow> user_enum \<Rightarrow> py_error + string" where
  "get_str val e = dict_item (ue_mappings e) val"

text \<open>
  The reverse mapping is a \<open>defaultdict\<close> that answers \<open>None\<close>: looking up a missing name stores
  that name with \<open>None\<close>.
\<close>

definition lookup_string :: "string \<Rightarrow> (user_enum, int option) py" where
  "lookup_string k e =
     (case dict_get (ue_strings e) k of
        Some v \<Rightarrow> (Inr v, e)
      | None \<Rightarrow> (Inr None, e\<lparr>ue_strings := dict_set k None (ue_strings e)\<rparr>))"

definition get_value :: "string \<Rightarrow> (user_enum, int) py" where
  "get_value val = bindp (lookup_string (str_lower val)) (\<lambda>r.
     case r of None \<Rightarrow> raise AssertionError | Some n \<Rightarrow> ret n)"

definition get_primitive :: "string \<Rightarrow> bool \<Rightarrow> (user_enum, type_primitive) py" where
  "get_primitive val changed_cb =
     bindp (lift_res (new_default ''enum'' changed_cb)) (\<lambda>result.
     bindp (lookup_string (str_lower val)) (\<lambda>r.
     case r of
       None \<Rightarrow> raise AssertionError
     | Some n \<Rightarrow> (case tp_set (VInt n) None result of
                   (ok, result', _) \<Rightarrow> bindp (assertp ok) (\<lambda>_. ret result'))))"

text \<open>An enumeration class is its name and its members in definition order.\<close>

fun enum_values :: "(string \<times> int) list \<Rightarrow> (int, string) dict \<Rightarrow> py_error + (int, string) dict" where
  "enum_values [] values = Inr values"
| "enum_values ((n, v) # ms) values =
     (if v \<in> set (dict_keys values) then Inl AssertionError
      else enum_values ms (dict_set v (str_lower n) values))"

definition from_enum :: "string \<Rightarrow> (string \<times> int) list \<Rightarrow> py_error + user_enum" where
  "from_enum class_name members =
     (case enum_values members [] of
        Inl e \<Rightarrow> Inl e
      | Inr values \<Rightarrow> user_enum (to_snake class_name) values None)"

section \<open>The library's enumerations\<close>

datatype frame_type = DATA | EVENT | INVALID | MESSAGE | STREAM

fun frame_type_value :: "frame_type \<Rightarrow> int" where
  "frame_type_value DATA = 1"
| "frame_type_value EVENT = 2"
| "frame_type_value INVALID = 0"
| "frame_type_value MESSAGE = 3"
| "frame_type_value STREAM = 4"

text \<open>\<open>FrameType(n)\<close> and \<open>MessageType(n)\<close>: an unknown number raises.\<close>

definition FrameType :: "int \<Rightarrow> py_error + frame_type" where
  "FrameType n =
     (case map_of (map (\<lambda>t. (frame_type_value t, t)) [DATA, EVENT, INVALID, MESSAGE, STREAM]) n of
        None \<Rightarrow> Inl ValueError | Some t \<Rightarrow> Inr t)"

datatype message_type = AGNOSTIC | TEXT | JSON | ENUM | ENUM_REGISTRY | PRIMITIVE

fun message_type_value :: "message_type \<Rightarrow> int" where
  "message_type_value AGNOSTIC = 0"
| "message_type_value TEXT = 1"
| "message_type_value JSON = 2"
| "message_type_value ENUM = 3"
| "message_type_value ENUM_REGISTRY = 4"
| "message_type_value PRIMITIVE = 5"

definition MessageType :: "int \<Rightarrow> py_error + message_type" where
  "MessageType n =
     (case map_of (map (\<lambda>t. (message_type_value t, t))
             [AGNOSTIC, TEXT, JSON, ENUM, ENUM_REGISTRY, PRIMITIVE]) n of
        None \<Rightarrow> Inl ValueError | Some t \<Rightarrow> Inr t)"

definition frame_type_members :: "(string \<times> int) list" where
  "frame_type_members =
     [(''DATA'', 1), (''EVENT'', 2), (''INVALID'', 0), (''MESSAGE'', 3), (''STREAM'', 4)]"

definition FRAME_TYPES :: "py_error + user_enum" where
  "FRAME_TYPES = from_enum ''FrameType'' frame_type_members"

definition message_type_members :: "(string \<times> int) list" where
  "message_type_members =
     [(''AGNOSTIC'', 0), (''TEXT'', 1), (''JSON'', 2), (''ENUM'', 3), (''ENUM_REGISTRY'', 4),
      (''PRIMITIVE'', 5)]"

definition MESSAGE_TYPES :: "py_error + user_enum" where
  "MESSAGE_TYPES = from_enum ''MessageType'' message_type_members"

datatype daemon_state = ERROR | IDLE | STARTING | RUNNING | PAUSED | STOPPING

fun daemon_state_value :: "daemon_state \<Rightarrow> int" where
  "daemon_state_value ERROR = 0"
| "daemon_state_value IDLE = 1"
| "daemon_state_value STARTING = 2"
| "daemon_state_value RUNNING = 3"
| "daemon_state_value PAUSED = 4"
| "daemon_state_value STOPPING = 5"

definition daemon_state_members :: "(string \<times> int) list" where
  "daemon_state_members =
     [(''ERROR'', 0), (''IDLE'', 1), (''STARTING'', 2), (''RUNNING'', 3), (''PAUSED'', 4),
      (''STOPPING'', 5)]"

datatype daemon_operation = OP_NONE | OP_START | OP_STOP | OP_PAUSE | OP_UNPAUSE | OP_RESTART

definition all_operations :: "daemon_operation list" where
  "all_operations = [OP_NONE, OP_START, OP_STOP, OP_PAUSE, OP_UNPAUSE, OP_RESTART]"

fun operation_str :: "daemon_operation \<Rightarrow> string" where
  "operation_str OP_NONE = ''none''"
| "operation_str OP_START = ''start''"
| "operation_str OP_STOP = ''stop''"
| "operation_str OP_PAUSE = ''pause''"
| "operation_str OP_UNPAUSE = ''unpause''"
| "operation_str OP_RESTART = ''restart''"

definition is_operation :: "string \<Rightarrow> bool" where
  "is_operation operation \<longleftrightarrow> (\<exists>oper \<in> set all_operations. operation = operation_str oper)"

definition str_to_operation :: "string \<Rightarrow> daemon_operation option" where
  "str_to_operation operation =
     find (\<lambda>known_op. operation_str known_op = str_lower operation) all_operations"

section \<open>Correctness\<close>

lemma FrameType_value [simp]: "FrameType (frame_type_value t) = Inr t"
  by (cases t) (simp_all add: FrameType_def)

lemma FrameType_inv: "FrameType n = Inr t \<Longrightarrow> n = frame_type_value t"
  by (auto simp: FrameType_def split: option.splits if_splits)

lemma MessageType_value [simp]: "MessageType (message_type_value t) = Inr t"
  by (cases t) (simp_all add: MessageType_def)

lemma MessageType_inv: "MessageType n = Inr t \<Longrightarrow> n = message_type_value t"
  by (auto simp: MessageType_def split: option.splits if_splits)

lemma frame_type_value_bounds: "0 \<le> frame_type_value t \<and> frame_type_value t < 256"
  by (cases t) simp_all

lemma message_type_value_bounds: "0 \<le> message_type_value t \<and> message_type_value t < 256"
  by (cases t) simp_all

lemma str_to_operation_str: "str_to_operation (operation_str op) = Some op"
  by (cases op) (simp_all add: str_to_operation_def all_operations_def str_lower_def
      char_lower_def is_upper_def)

text \<open>The reverse mapping of distinct names is the inverse of the mapping.\<close>

lemma reverse_map_fold:
  assumes "distinct (map (str_lower \<circ> snd) m)"
  shows "dict_get (fold (\<lambda>(k, v). dict_set (str_lower v) (Some k)) m acc) s =
    (case find (\<lambda>(k, v). str_lower v = s) m of Some (k, v) \<Rightarrow> Some (Some k) | None \<Rightarrow> dict_get acc s)"
  using assms
proof (induction m arbitrary: acc)
  case Nil
  then show ?case by simp
next
  case (Cons kv m)
  obtain k v where kv: "kv = (k, v)" by (cases kv)
  have "find (\<lambda>(k, v). str_lower v = str_lower (snd kv)) m = None"
    using Cons.prems by (auto simp: find_None_iff image_iff)
  with Cons kv show ?case by (auto split: option.splits)
qed

definition ue_wf :: "user_enum \<Rightarrow> bool" where
  "ue_wf e \<longleftrightarrow> distinct (dict_keys (ue_mappings e)) \<and>
     (\<forall>k s. dict_get (ue_strings e) s = Some (Some k) \<longleftrightarrow>
       (\<exists>v. (k, v) \<in> set (ue_mappings e) \<and> str_lower v = s)) \<and>
     (\<forall>(k, v) \<in> set (ue_mappings e). str_lower v = v)"

lemma find_pair_iff:
  assumes "distinct (map (str_lower \<circ> snd) m)"
  shows "find (\<lambda>(k, v). str_lower v = s) m = Some (k, v) \<longleftrightarrow> (k, v) \<in> set m \<and> str_lower v = s"
  using assms by (induction m) (force split: if_splits)+

lemma ue_init_wf:
  assumes "ue_init d = Inr e" and "distinct (dict_keys (ed_mappings d))"
    and "distinct (map (str_lower \<circ> snd) (ed_mappings d))"
    and "\<forall>(k, v) \<in> set (ed_mappings d). str_lower v = v"
  shows "ue_wf e"
proof -
  have m: "ue_mappings e = ed_mappings d" and s: "ue_strings e = reverse_map (ed_mappings d)"
    using assms(1) by (auto simp: ue_init_def Let_def split: option.splits list.splits)
  have "dict_get (ue_strings e) x = Some (Some k) \<longleftrightarrow>
      (\<exists>v. (k, v) \<in> set (ue_mappings e) \<and> str_lower v = x)" for k x
    using find_pair_iff [OF assms(3), of x k]
    by (cases "find (\<lambda>(k, v). str_lower v = x) (ed_mappings d)")
      (simp_all add: m s reverse_map_def reverse_map_fold [OF assms(3)] split: prod.splits, blast+)
  with assms(2,4) m show ?thesis by (auto simp: ue_wf_def)
qed

lemma get_str_value:
  assumes "ue_wf e" and "get_str n e = Inr s"
  shows "get_value s e = (Inr n, e)"
proof -
  have "(n, s) \<in> set (ue_mappings e)"
    using assms(2) by (auto simp: get_str_def dict_item_def map_of_SomeD split: option.splits)
  moreover from this have "str_lower s = s"
    using assms(1) by (auto simp: ue_wf_def)
  ultimately have "dict_get (ue_strings e) (str_lower s) = Some (Some n)"
    using assms(1) by (auto simp: ue_wf_def)
  then show ?thesis by (simp add: get_value_def lookup_string_def bindp_def)
qed

lemma get_value_str:
  assumes "ue_wf e" and "fst (get_value s e) = Inr n"
  shows "get_str n e = Inr (str_lower s)"
proof -
  have "dict_get (ue_strings e) (str_lower s) = Some (Some n)"
    using assms(2) by (auto simp: get_value_def lookup_string_def bindp_def split: option.splits)
  then obtain v where "(n, v) \<in> set (ue_mappings e)" and "str_lower v = str_lower s"
    using assms(1) unfolding ue_wf_def by blast
  moreover from this have "v = str_lower s"
    using assms(1) by (auto simp: ue_wf_def)
  ultimately show ?thesis
    using assms(1) by (auto simp: get_str_def ue_wf_def)
qed

text \<open>A lookup of an unknown name fails and leaves that name behind in the iteration.\<close>

lemma get_value_unknown:
  assumes "dict_get (ue_strings e) (str_lower s) = None"
  shows "fst (get_value s e) = Inl AssertionError"
    and "ue_iter (snd (get_value s e)) = ue_iter e @ [str_lower s]"
proof -
  have new: "str_lower s \<notin> set (dict_keys (ue_strings e))"
    using assms by (simp add: map_of_eq_None_iff)
  show "fst (get_value s e) = Inl AssertionError"
    and "ue_iter (snd (get_value s e)) = ue_iter e @ [str_lower s]"
    using assms dict_set_fresh [OF new, of None]
    by (simp_all add: get_value_def lookup_string_def bindp_def ue_iter_def)
qed

section \<open>Properties\<close>

text \<open>
  In an enumeration built from distinct numbers with distinct names, numbers and names
  translate into one another: the name of a number gives the number back without changing the
  enumeration, and the number of a name gives the name in lower case.
\<close>

theorem enum_names_roundtrip:
  assumes "ue_init d = Inr e" and "distinct (dict_keys (ed_mappings d))"
    and "distinct (map (str_lower \<circ> snd) (ed_mappings d))"
    and "\<forall>(k, v) \<in> set (ed_mappings d). str_lower v = v"
  shows "(get_str n e = Inr s \<longrightarrow> get_value s e = (Inr n, e)) \<and>
     (fst (get_value s' e) = Inr n \<longrightarrow> get_str n e = Inr (str_lower s'))"
  using get_str_value [OF ue_init_wf [OF assms]] get_value_str [OF ue_init_wf [OF assms]] by blast

theorem enum_names_roundtrip_witness:
  "\<exists>e. ue_init \<lparr>ed_name = ''e'', ed_mappings = [(0, ''zero''), (5, ''five'')], ed_default = None\<rparr> = Inr e \<and>
     get_str 5 e = Inr ''five'' \<and> get_value ''five'' e = (Inr 5, e)"
proof -
  let ?d = "\<lparr>ed_name = ''e'', ed_mappings = [(0, ''zero''), (5, ''five'')], ed_default = None\<rparr>"
  let ?e = "\<lparr>ue_name = ''e'', ue_mappings = [(0, ''zero''), (5, ''five'')], ue_default = ''zero'',
    ue_strings = [(''zero'', Some 0), (''five'', Some 5)]\<rparr>"
  have e: "ue_init ?d = Inr ?e" by code_simp
  have d: "distinct (dict_keys (ed_mappings ?d))" by simp
  have l: "map (str_lower \<circ> snd) (ed_mappings ?d) = [''zero'', ''five'']" by code_simp
  then have n: "distinct (map (str_lower \<circ> snd) (ed_mappings ?d))" by (simp only: l) simp
  have "str_lower ''zero'' = ''zero''" and "str_lower ''five'' = ''five''" by code_simp+
  then have "\<forall>(k, v) \<in> set (ed_mappings ?d). str_lower v = v" by simp
  from enum_names_roundtrip [OF e d n this, of 5 "''five''"] e
  show ?thesis by (simp add: get_str_def)
qed

text \<open>
  Asking an enumeration for the number of a name it does not have raises, but leaves the
  name among those the enumeration iterates over.
\<close>

theorem unknown_name_stays:
  assumes "dict_get (ue_strings e) (str_lower s) = None"
  shows "fst (get_value s e) = Inl AssertionError \<and>
     ue_iter (snd (get_value s e)) = ue_iter e @ [str_lower s]"
  using get_value_unknown [OF assms] by simp

theorem unknown_name_stays_witness:
  "ue_iter (snd (get_value ''B'' \<lparr>ue_name = ''e'', ue_mappings = [(0, ''a'')], ue_default = ''a'',
     ue_strings = [(''a'', Some 0)]\<rparr>)) = [''a'', ''b'']"
proof -
  have b: "str_lower ''B'' = ''b''" by code_simp
  then have "dict_get (ue_strings \<lparr>ue_name = ''e'', ue_mappings = [(0, ''a'')], ue_default = ''a'',
     ue_strings = [(''a'', Some 0)]\<rparr>) (str_lower ''B'') = None" by simp
  from unknown_name_stays [OF this] b show ?thesis by (simp add: ue_iter_def)
qed

end
