(* ===== verification/Registry.thy ===== *)
theory Registry
  imports User_Enum
begin

text \<open>
  Registries (\<open>vtelem/registry\<close>): names are given consecutive integer identifiers. The abstract
  view of a registry is the list of its named items in registration order, an item's identifier
  being its index; \<open>reg_rel\<close> relates the dictionaries of the code to that list and the locale
  \<open>named_store\<close> is the interface the type, channel and enumeration registries rely on. Both
  dictionaries of a registry are \<open>defaultdict\<close>s, so a failed lookup stores \<open>None\<close> in them.
\<close>

section \<open>The generic registry\<close>

record 'a registry =
  reg_type_name :: string
  reg_items :: "(int, 'a option) dict"
  reg_mappings :: "(string, int option) dict"
  reg_curr_id :: int

definition empty_registry :: "string \<Rightarrow> 'a registry" where
  "empty_registry type_name =
     \<lparr>reg_type_name = type_name, reg_items = [], reg_mappings = [], reg_curr_id = 0\<rparr>"

definition reg_count :: "'a registry \<Rightarrow> int" where
  "reg_count r = reg_curr_id r"

definition get_item :: "int \<Rightarrow> ('a registry, 'a option) py" where
  "get_item item_id r =
     (case dict_get (reg_items r) item_id of
        Some v \<Rightarrow> (Inr v, r)
      | None \<Rightarrow> (Inr None, r\<lparr>reg_items := dict_set item_id None (reg_items r)\<rparr>))"

definition get_id :: "string \<Rightarrow> ('a registry, int option) py" where
  "get_id name r =
     (case dict_get (reg_mappings r) name of
        Some v \<Rightarrow> (Inr v, r)
      | None \<Rightarrow> (Inr None, r\<lparr>reg_mappings := dict_set name None (reg_mappings r)\<rparr>))"

definition reg_add :: "string \<Rightarrow> 'a \<Rightarrow> ('a registry, bool \<times> int) py" where
  "reg_add name data = bindp (get_id name) (\<lambda>known.
     if known \<noteq> None then ret (False, -1)
     else bindp (gets reg_curr_id) (\<lambda>i.
       bindp (modify (\<lambda>r. r\<lparr>reg_items := dict_set i (Some data) (reg_items r),
                            reg_mappings := dict_set name (Some i) (reg_mappings r),
                            reg_curr_id := i + 1\<rparr>)) (\<lambda>_. ret (True, i))))"

definition new_registry :: "string \<Rightarrow> (string \<times> 'a) list \<Rightarrow> 'a registry" where
  "new_registry type_name initial_data =
     snd (for_each (\<lambda>(n, x). bindp (reg_add n x) (\<lambda>_. ret ())) initial_data
            (empty_registry type_name))"

section \<open>The interface of a registry\<close>

text \<open>
  The store holds the list \<open>xs\<close> of named items: a new name is given the next index, a known one
  is refused, and lookups change nothing that can be seen.
\<close>

locale named_store =
  fixes add :: "'n \<Rightarrow> 'a \<Rightarrow> ('s, bool \<times> int) py"
    and id_of :: "'n \<Rightarrow> ('s, int option) py"
    and item_of :: "int \<Rightarrow> ('s, 'a option) py"
    and rel :: "'s \<Rightarrow> ('n \<times> 'a) list \<Rightarrow> bool"
  assumes distinct_names: "rel s xs \<Longrightarrow> distinct (map fst xs)"
    and add_new: "rel s xs \<Longrightarrow> n \<notin> fst ` set xs \<Longrightarrow>
      \<exists>s'. add n x s = (Inr (True, int (length xs)), s') \<and> rel s' (xs @ [(n, x)])"
    and add_known: "rel s xs \<Longrightarrow> n \<in> fst ` set xs \<Longrightarrow>
      \<exists>s'. add n x s = (Inr (False, -1), s') \<and> rel s' xs"
    and id_ok: "rel s xs \<Longrightarrow> i < length xs \<Longrightarrow>
      \<exists>s'. id_of (fst (xs ! i)) s = (Inr (Some (int i)), s') \<and> rel s' xs"
    and id_none: "rel s xs \<Longrightarrow> n \<notin> fst ` set xs \<Longrightarrow> \<exists>s'. id_of n s = (Inr None, s') \<and> rel s' xs"
    and item_ok: "rel s xs \<Longrightarrow> i < length xs \<Longrightarrow>
      \<exists>s'. item_of (int i) s = (Inr (Some (snd (xs ! i))), s') \<and> rel s' xs"
    and item_none: "rel s xs \<Longrightarrow> j < 0 \<or> int (length xs) \<le> j \<Longrightarrow>
      \<exists>s'. item_of j s = (Inr None, s') \<and> rel s' xs"
begin

lemma add_all:
  assumes "rel s xs" and "distinct (map fst (xs @ ys))"
  shows "\<exists>s'. for_each (\<lambda>(n, x). bindp (add n x) (\<lambda>_. ret ())) ys s = (Inr (), s') \<and> rel s' (xs @ ys)"
  using assms
proof (induction ys arbitrary: s xs)
  case Nil
  then show ?case by simp
next
  case (Cons y ys)
  obtain n x where y: "y = (n, x)" by (cases y)
  with Cons.prems(2) have new: "n \<notin> fst ` set xs" by auto
  obtain s1 where "add n x s = (Inr (True, int (length xs)), s1)" "rel s1 (xs @ [(n, x)])"
    using add_new [OF Cons.prems(1) new] by auto
  with Cons.IH [of s1 "xs @ [(n, x)]"] Cons.prems(2) y show ?case by auto
qed

text \<open>Finding a name and then its item gives what was registered under that name.\<close>

lemma lookup_registered:
  assumes "rel s xs" and "(n, x) \<in> set xs"
  shows "\<exists>i s' s''. id_of n s = (Inr (Some i), s') \<and> item_of i s' = (Inr (Some x), s'') \<and> rel s'' xs"
proof -
  from assms(2) obtain k where k: "k < length xs" "xs ! k = (n, x)" by (auto simp: in_set_conv_nth)
  with id_ok [OF assms(1), of k] obtain s'
    where "id_of n s = (Inr (Some (int k)), s')" and s': "rel s' xs" by auto
  moreover from item_ok [OF s', of k] k obtain s''
    where "item_of (int k) s' = (Inr (Some x), s'')" and "rel s'' xs" by auto
  ultimately show ?thesis by blast
qed

lemma refused_keeps:
  assumes "rel s xs" and "(n, x) \<in> set xs"
  shows "\<exists>s'. add n y s = (Inr (False, -1), s') \<and> rel s' xs"
  using add_known [OF assms(1), of n y] assms(2) by force

end

definition reg_rel :: "'a registry \<Rightarrow> (string \<times> 'a) list \<Rightarrow> bool" where
  "reg_rel r xs \<longleftrightarrow> reg_curr_id r = int (length xs) \<and> distinct (map fst xs) \<and>
     (\<forall>j x. dict_get (reg_items r) j = Some (Some x) \<longleftrightarrow>
        (\<exists>i < length xs. j = int i \<and> x = snd (xs ! i))) \<and>
     (\<forall>n j. dict_get (reg_mappings r) n = Some (Some j) \<longleftrightarrow>
        (\<exists>i < length xs. j = int i \<and> n = fst (xs ! i)))"

lemma reg_relI:
  assumes "reg_curr_id r = int (length xs)" and "distinct (map fst xs)"
    and "\<And>j x. dict_get (reg_items r) j = Some (Some x) \<longleftrightarrow>
        (\<exists>i < length xs. j = int i \<and> x = snd (xs ! i))"
    and "\<And>n j. dict_get (reg_mappings r) n = Some (Some j) \<longleftrightarrow>
        (\<exists>i < length xs. j = int i \<and> n = fst (xs ! i))"
  shows "reg_rel r xs"
  using assms by (simp add: reg_rel_def)

lemma reg_rel_empty: "reg_rel (empty_registry t) []"
  by (simp add: reg_rel_def empty_registry_def)

lemma reg_rel_item:
  "reg_rel r xs \<Longrightarrow> dict_get (reg_items r) j = Some (Some x) \<longleftrightarrow>
     (\<exists>i < length xs. j = int i \<and> x = snd (xs ! i))"
  by (simp add: reg_rel_def)

lemma reg_rel_mapping:
  "reg_rel r xs \<Longrightarrow> dict_get (reg_mappings r) n = Some (Some j) \<longleftrightarrow>
     (\<exists>i < length xs. j = int i \<and> n = fst (xs ! i))"
  by (simp add: reg_rel_def)

text \<open>Storing \<open>None\<close> under a missing key does not change the abstract view.\<close>

lemma reg_rel_none:
  assumes "reg_rel r xs"
  shows "dict_get (reg_items r) j = None \<Longrightarrow>
      reg_rel (r\<lparr>reg_items := dict_set j None (reg_items r)\<rparr>) xs"
    and "dict_get (reg_mappings r) n = None \<Longrightarrow>
      reg_rel (r\<lparr>reg_mappings := dict_set n None (reg_mappings r)\<rparr>) xs"
proof -
  assume a: "dict_get (reg_items r) j = None"
  then have "\<not> (\<exists>i < length xs. j = int i)" using reg_rel_item [OF assms, of j] by auto
  with assms show "reg_rel (r\<lparr>reg_items := dict_set j None (reg_items r)\<rparr>) xs"
    by (auto simp: reg_rel_def)
next
  assume a: "dict_get (reg_mappings r) n = None"
  then have "\<not> (\<exists>i < length xs. n = fst (xs ! i))" using reg_rel_mapping [OF assms, of n] by auto
  with assms show "reg_rel (r\<lparr>reg_mappings := dict_set n None (reg_mappings r)\<rparr>) xs"
    by (auto simp: reg_rel_def)
qed

lemma get_id_known:
  assumes "reg_rel r xs" and "i < length xs"
  shows "get_id (fst (xs ! i)) r = (Inr (Some (int i)), r)"
proof -
  have "dict_get (reg_mappings r) (fst (xs ! i)) = Some (Some (int i))"
    using reg_rel_mapping [OF assms(1)] assms(2) by blast
  then show ?thesis by (simp add: get_id_def)
qed

lemma get_item_known:
  assumes "reg_rel r xs" and "i < length xs"
  shows "get_item (int i) r = (Inr (Some (snd (xs ! i))), r)"
proof -
  have "dict_get (reg_items r) (int i) = Some (Some (snd (xs ! i)))"
    using reg_rel_item [OF assms(1)] assms(2) by blast
  then show ?thesis by (simp add: get_item_def)
qed

lemma get_id_unknown:
  assumes "reg_rel r xs" and "n \<notin> fst ` set xs"
  shows "\<exists>r'. get_id n r = (Inr None, r') \<and> reg_rel r' xs \<and> reg_items r' = reg_items r"
proof (cases "dict_get (reg_mappings r) n")
  case None
  then show ?thesis using reg_rel_none(2) [OF assms(1)] by (simp add: get_id_def)
next
  case (Some v)
  have "v = None"
  proof (rule ccontr)
    assume "v \<noteq> None"
    with Some reg_rel_mapping [OF assms(1), of n] have "\<exists>i < length xs. n = fst (xs ! i)" by auto
    with assms(2) show False by auto
  qed
  with Some assms(1) show ?thesis by (simp add: get_id_def)
qed

lemma get_item_unknown:
  assumes "reg_rel r xs" and "j < 0 \<or> int (length xs) \<le> j"
  shows "\<exists>r'. get_item j r = (Inr None, r') \<and> reg_rel r' xs"
proof (cases "dict_get (reg_items r) j")
  case None
  then show ?thesis using reg_rel_none(1) [OF assms(1)] by (simp add: get_item_def)
next
  case (Some v)
  have "v = None" using Some reg_rel_item [OF assms(1), of j] assms(2) by (cases v) auto
  with Some assms(1) show ?thesis by (simp add: get_item_def)
qed

lemma ex_less_snoc:
  "(\<exists>i < length (xs @ [y]). P i ((xs @ [y]) ! i)) \<longleftrightarrow>
   (\<exists>i < length xs. P i (xs ! i)) \<or> P (length xs) y"
  by (simp add: Ex_less_Suc nth_append disj_commute cong: conj_cong)

lemma reg_rel_snoc:
  assumes "reg_rel r xs" and "n \<notin> fst ` set xs"
  shows "reg_rel (r\<lparr>reg_items := dict_set (reg_curr_id r) (Some x) (reg_items r),
      reg_mappings := dict_set n (Some (reg_curr_id r)) (reg_mappings r),
      reg_curr_id := reg_curr_id r + 1\<rparr>) (xs @ [(n, x)])" (is "reg_rel ?r _")
proof (rule reg_relI)
  have c: "reg_curr_id r = int (length xs)" and d: "distinct (map fst xs)"
    using assms(1) by (simp_all add: reg_rel_def)
  show "reg_curr_id ?r = int (length (xs @ [(n, x)]))" using c by simp
  show "distinct (map fst (xs @ [(n, x)]))" using d assms(2) by simp
  show "dict_get (reg_items ?r) j = Some (Some y) \<longleftrightarrow>
      (\<exists>i < length (xs @ [(n, x)]). j = int i \<and> y = snd ((xs @ [(n, x)]) ! i))" for j y
    unfolding ex_less_snoc [where P = "\<lambda>i e. j = int i \<and> y = snd e"]
    using reg_rel_item [OF assms(1), of j y] c by (cases "j = reg_curr_id r") auto
  have new: "\<not> (\<exists>i < length xs. n = fst (xs ! i))" using assms(2) by auto
  show "dict_get (reg_mappings ?r) m = Some (Some j) \<longleftrightarrow>
      (\<exists>i < length (xs @ [(n, x)]). j = int i \<and> m = fst ((xs @ [(n, x)]) ! i))" for m j
    unfolding ex_less_snoc [where P = "\<lambda>i e. j = int i \<and> m = fst e"]
    using reg_rel_mapping [OF assms(1), of m j] c new by (cases "m = n") auto
qed

lemma reg_add_new:
  assumes "reg_rel r xs" and "n \<notin> fst ` set xs"
  shows "\<exists>r'. reg_add n x r = (Inr (True, int (length xs)), r') \<and> reg_rel r' (xs @ [(n, x)])"
proof -
  obtain r1 where r1: "get_id n r = (Inr None, r1)" "reg_rel r1 xs"
    using get_id_unknown [OF assms] by auto
  have "reg_curr_id r1 = int (length xs)" using r1(2) by (simp add: reg_rel_def)
  with reg_rel_snoc [OF r1(2) assms(2), of x] r1(1) show ?thesis
    by (simp add: reg_add_def)
qed

lemma reg_add_known:
  assumes "reg_rel r xs" and "n \<in> fst ` set xs"
  shows "reg_add n x r = (Inr (False, -1), r)"
proof -
  from assms(2) obtain i where "i < length xs" "n = fst (xs ! i)"
    by (auto simp: in_set_conv_nth)
  with get_id_known [OF assms(1)] show ?thesis by (simp add: reg_add_def)
qed

interpretation reg: named_store reg_add get_id get_item reg_rel
proof unfold_locales
  show "reg_rel r xs \<Longrightarrow> distinct (map fst xs)" for r :: "'b registry" and xs
    by (simp add: reg_rel_def)
qed (auto simp: reg_add_known get_id_known get_item_known intro: reg_add_new
    dest: get_id_unknown get_item_unknown)

lemma new_registry_rel:
  assumes "distinct (map fst xs)"
  shows "reg_rel (new_registry t xs) xs"
  using reg.add_all [OF reg_rel_empty, of xs t] assms by (auto simp: new_registry_def)

section \<open>Properties\<close>

text \<open>
  Property C10: a registry refines a list of named items. Whatever lookups happened before, in a
  registry that stands for the list \<open>xs\<close> a new name is appended and gets the next index, a known
  name is refused with -1 and nothing changes, an item is found under its name and its index, and a
  name or index that was never registered is not found.
\<close>

theorem registry_refines_list:
  assumes "reg_rel r xs"
  shows "(n \<notin> fst ` set xs \<longrightarrow>
      (\<exists>r'. reg_add n x r = (Inr (True, int (length xs)), r') \<and> reg_rel r' (xs @ [(n, x)])))
    \<and> (n \<in> fst ` set xs \<longrightarrow> (\<exists>r'. reg_add n x r = (Inr (False, -1), r') \<and> reg_rel r' xs))
    \<and> ((n, x) \<in> set xs \<longrightarrow> (\<exists>i r' r''. get_id n r = (Inr (Some i), r') \<and>
        get_item i r' = (Inr (Some x), r'') \<and> reg_rel r'' xs))
    \<and> (n \<notin> fst ` set xs \<longrightarrow> (\<exists>r'. get_id n r = (Inr None, r') \<and> reg_rel r' xs))
    \<and> (i < 0 \<or> int (length xs) \<le> i \<longrightarrow> (\<exists>r'. get_item i r = (Inr None, r') \<and> reg_rel r' xs))"
  using reg.add_new [OF assms] reg.add_known [OF assms] reg.lookup_registered [OF assms]
    reg.id_none [OF assms] reg.item_none [OF assms] by blast

theorem registry_refines_list_witness:
  "\<exists>r'. reg_add ''b'' (2 :: nat) (new_registry ''t'' [(''a'', 1)]) = (Inr (True, 1), r') \<and>
     reg_rel r' [(''a'', 1), (''b'', 2)]"
proof -
  have "reg_rel (new_registry ''t'' [(''a'', 1 :: nat)]) [(''a'', 1)]" by (rule new_registry_rel) simp
  from registry_refines_list [OF this, of "''b''" 2] show ?thesis by simp
qed

end
