(* ===== verification/Channel.thy ===== *)
theory Channel
  imports Registry
begin

text \<open>
  Channels (\<open>vtelem/channel/__init__.py\<close>), the event queue their change callbacks fill
  (\<open>vtelem/classes/event_queue.py\<close>) and the channel registry (\<open>vtelem/channel/registry.py\<close>). A
  channel extends a stored primitive with a name, an emission rate and the time it last emitted.
\<close>

section \<open>The event queue\<close>

type_synonym event = "string \<times> timed_value \<times> timed_value"

definition MAX_SIZE :: int where
  "MAX_SIZE = 256"

text \<open>The queue is bounded: an event that finds it full is dropped.\<close>

definition enqueue :: "string \<Rightarrow> timed_value \<Rightarrow> timed_value \<Rightarrow> event list \<Rightarrow> bool \<times> event list" where
  "enqueue channel prev cur q =
     (if MAX_SIZE \<le> int (length q) then (False, q) else (True, q @ [(channel, prev, cur)]))"

fun consume_loop :: "event list \<Rightarrow> event list \<Rightarrow> event list \<times> event list" where
  "consume_loop result [] = (result, [])"
| "consume_loop result (e # q) = consume_loop (result @ [e]) q"

definition consume :: "event list \<Rightarrow> event list \<times> event list" where
  "consume q = consume_loop [] q"

lemma consume_run [simp]: "consume q = (q, [])"
proof -
  have "consume_loop r q = (r @ q, [])" for r
    by (induction q arbitrary: r) simp_all
  then show ?thesis by (simp add: consume_def)
qed

section \<open>Channels\<close>

record channel = type_primitive +
  ch_name :: string
  ch_rate :: pyfloat
  ch_commandable :: bool
  ch_is_stream :: bool
  ch_last_emitted :: pyfloat

definition new_channel :: "string \<Rightarrow> primitive \<Rightarrow> pyfloat \<Rightarrow> bool \<Rightarrow> bool \<Rightarrow> bool \<Rightarrow> channel" where
  "new_channel name inst rate event_queue commandable is_stream =
     type_primitive.extend (new_type_primitive inst event_queue)
       (channel.fields name rate commandable is_stream 0)"

text \<open>
  A channel runs beside the event queue its callback writes to; whether the callback's event was
  queued or dropped does not change the setter's answer.
\<close>

type_synonym chan_state = "channel \<times> event list"

definition run_changed_cb :: "channel \<Rightarrow> change option \<Rightarrow> event list \<Rightarrow> event list" where
  "run_changed_cb c cb q =
     (case cb of None \<Rightarrow> q | Some (prev, cur) \<Rightarrow> snd (enqueue (ch_name c) prev cur q))"

definition ch_set :: "pyval \<Rightarrow> pyfloat option \<Rightarrow> (chan_state, bool) py" where
  "ch_set v time = (\<lambda>(c, q).
     case tp_set v time c of (ok, c', cb) \<Rightarrow> (Inr ok, (c', run_changed_cb c cb q)))"

definition ch_add :: "pyval \<Rightarrow> pyfloat option \<Rightarrow> (chan_state, bool) py" where
  "ch_add v time = (\<lambda>(c, q).
     case tp_add v time c of
       Inl e \<Rightarrow> (Inl e, (c, q))
     | Inr (ok, c', cb) \<Rightarrow> (Inr ok, (c', run_changed_cb c cb q)))"

definition ch_command :: "pyval \<Rightarrow> pyfloat option \<Rightarrow> bool \<Rightarrow> (chan_state, bool) py" where
  "ch_command v time add =
     bindp (gets (\<lambda>(c, q). ch_commandable c)) (\<lambda>ok.
     if \<not> ok then ret False else if add then ch_add v time else ch_set v time)"

definition set_rate :: "pyfloat \<Rightarrow> channel \<Rightarrow> channel" where
  "set_rate rate c = c\<lparr>ch_rate := rate\<rparr>"

definition emit :: "pyfloat \<Rightarrow> channel \<Rightarrow> pyval option \<times> channel" where
  "emit time c =
     (if fle (fadd (ch_last_emitted c) (ch_rate c)) time
      then (Some (tp_get c), c\<lparr>ch_last_emitted := time\<rparr>) else (None, c))"

definition channel_dict :: "channel \<Rightarrow> (string, pyval) dict" where
  "channel_dict o' =
     [(''name'', VStr (ch_name o')), (''rate'', VFloat (ch_rate o')),
      (''commandable'', VBool (ch_commandable o')),
      (''type'', VDict [(''name'', VStr (name_of (prim_value (tp_type o')))),
                        (''signed'', VBool (signed_of (prim_value (tp_type o')))),
                        (''size'', VInt (size_of (prim_value (tp_type o'))))])]"

section \<open>The channel registry\<close>

type_synonym channel_registry = "channel registry"

definition get_channel_type :: "int \<Rightarrow> (channel_registry, primitive) py" where
  "get_channel_type chan_id = bindp (get_item chan_id) (\<lambda>ch.
     case ch of None \<Rightarrow> raise AssertionError | Some c \<Rightarrow> ret (tp_type c))"

definition add_channel :: "channel \<Rightarrow> (channel_registry, bool \<times> int) py" where
  "add_channel ch = reg_add (ch_name ch) ch"

definition new_channel_registry :: "channel list \<Rightarrow> channel_registry" where
  "new_channel_registry initial_channels =
     snd (for_each (\<lambda>c. bindp (add_channel c) (\<lambda>_. ret ())) initial_channels
            (empty_registry ''channels''))"

lemma for_each_map: "for_each f (map g xs) = for_each (\<lambda>x. f (g x)) xs"
  by (induction xs) simp_all

lemma new_channel_registry_rel:
  assumes "distinct (map ch_name cs)"
  shows "reg_rel (new_channel_registry cs) (map (\<lambda>c. (ch_name c, c)) cs)"
proof -
  have "new_channel_registry cs = new_registry ''channels'' (map (\<lambda>c. (ch_name c, c)) cs)"
    by (simp add: new_channel_registry_def new_registry_def add_channel_def for_each_map)
  then show ?thesis using assms by (simp add: new_registry_rel comp_def)
qed

section \<open>Correctness of a channel\<close>

lemma new_channel_fields [simp]:
  "tp_type (new_channel n p r q cm st) = p" "tp_data (new_channel n p r q cm st) = default_val p"
  "tp_changed_cb (new_channel n p r q cm st) = q" "ch_name (new_channel n p r q cm st) = n"
  "ch_rate (new_channel n p r q cm st) = r" "ch_is_stream (new_channel n p r q cm st) = st"
  "ch_commandable (new_channel n p r q cm st) = cm" "tp_inv (new_channel n p r q cm st)"
  "ch_last_emitted (new_channel n p r q cm st) = 0"
  by (simp_all add: new_channel_def type_primitive.defs channel.defs new_type_primitive_def
      tp_inv_def)

text \<open>A channel's state keeps its value in range, its identity, and its queue bounded.\<close>

definition chan_inv :: "chan_state \<Rightarrow> bool" where
  "chan_inv = (\<lambda>(c, q). tp_inv c \<and> int (length q) \<le> MAX_SIZE)"

lemma run_changed_cb_bound:
  "int (length q) \<le> MAX_SIZE \<Longrightarrow> int (length (run_changed_cb c cb q)) \<le> MAX_SIZE"
  by (auto simp: run_changed_cb_def enqueue_def split: option.splits)

lemma ch_set_inv: "chan_inv s \<Longrightarrow> chan_inv (snd (ch_set v t s))"
  using tp_set_inv [of "fst s" v t]
  by (auto simp: chan_inv_def ch_set_def run_changed_cb_bound split: prod.splits)

lemma ch_add_inv: "chan_inv s \<Longrightarrow> chan_inv (snd (ch_add v t s))"
  using tp_add_inv [of "fst s" v t]
  by (auto simp: chan_inv_def ch_add_def run_changed_cb_bound split: prod.splits sum.splits)

lemma ch_command_inv: "chan_inv s \<Longrightarrow> chan_inv (snd (ch_command v t add s))"
  using ch_set_inv [of s v t] ch_add_inv [of s v t]
  by (auto simp: ch_command_def bindp_def)

lemma emit_inv: "tp_inv c \<Longrightarrow> tp_inv (snd (emit t c))"
  by (simp add: emit_def tp_inv_def)

text \<open>The times at which a channel emits, over a sequence of times it is asked at.\<close>

fun emissions :: "pyfloat list \<Rightarrow> channel \<Rightarrow> pyfloat list" where
  "emissions [] c = []"
| "emissions (t # ts) c =
     (case emit t c of (Some _, c') \<Rightarrow> t # emissions ts c' | (None, c') \<Rightarrow> emissions ts c')"

fun spaced :: "pyfloat \<Rightarrow> pyfloat \<Rightarrow> pyfloat list \<Rightarrow> bool" where
  "spaced rate prev_t [] = True"
| "spaced rate prev_t (t # ts) = (fle (fadd prev_t rate) t \<and> spaced rate t ts)"

lemma emissions_spaced: "spaced (ch_rate c) (ch_last_emitted c) (emissions ts c)"
proof (induction ts arbitrary: c)
  case Nil
  then show ?case by simp
next
  case (Cons t ts)
  show ?case
    using Cons.IH [of "c\<lparr>ch_last_emitted := t\<rparr>"] Cons.IH [of c] by (simp add: emit_def)
qed

text \<open>What a setter does to the queue: one event exactly when a tracked value changed.\<close>

lemma ch_set_event:
  assumes "ch_set v t (c, q) = (Inr True, (c', q'))"
  shows "q' = (if tp_changed_cb c \<and> \<not> num_eq (tp_data c) v \<and> int (length q) < MAX_SIZE
               then q @ [(ch_name c, (tp_data c, tp_last_set c), (v, case t of None \<Rightarrow> 0 | Some x \<Rightarrow> x))]
               else q)"
  using assms by (auto simp: ch_set_def tp_set_run run_changed_cb_def enqueue_def split: if_splits)

lemma ch_set_rejected:
  assumes "\<not> accepts (tp_type c) v"
  shows "ch_set v t (c, q) = (Inr False, (c, q))"
  using assms by (simp add: ch_set_def tp_set_run run_changed_cb_def)

lemma ch_set_accepted:
  assumes "accepts (tp_type c) v"
  obtains c' q' where "ch_set v t (c, q) = (Inr True, (c', q'))"
    and "tp_data c' = convert (py_type_of (prim_value (tp_type c))) v"
    and "tp_type c' = tp_type c" and "ch_name c' = ch_name c"
  using assms by (simp add: ch_set_def tp_set_run)

section \<open>Properties\<close>

text \<open>
  Property C38: whatever times a channel is polled at, two consecutive emissions (and the first one
  after the last before it) are at least one period of the channel apart.
\<close>

theorem emissions_rate_limited: "spaced (ch_rate c) (ch_last_emitted c) (emissions ts c)"
  by (rule emissions_spaced)

text \<open>
  Setting a channel either refuses a value its type does not accept, with no change of
  the channel or of the event queue, or stores it; a stored value that differs from the one before
  is queued as an event with the old value and its time and the new value and its time, in order,
  as long as the queue has room.
\<close>

theorem channel_set_events:
  "if accepts (tp_type c) v
   then \<exists>c'. ch_set v t (c, q) = (Inr True, (c',
       if tp_changed_cb c \<and> \<not> num_eq (tp_data c) v \<and> int (length q) < MAX_SIZE
       then q @ [(ch_name c, (tp_data c, tp_last_set c), (v, case t of None \<Rightarrow> 0 | Some x \<Rightarrow> x))] else q)) \<and>
     tp_data c' = convert (py_type_of (prim_value (tp_type c))) v
   else ch_set v t (c, q) = (Inr False, (c, q))"
proof (cases "accepts (tp_type c) v")
  case True
  then obtain c' q' where "ch_set v t (c, q) = (Inr True, (c', q'))"
      "tp_data c' = convert (py_type_of (prim_value (tp_type c))) v"
    by (rule ch_set_accepted [where t = t and q = q])
  with ch_set_event [OF this(1)] True show ?thesis by simp
next
  case False
  then show ?thesis by (simp add: ch_set_rejected)
qed

text \<open>
  Every operation of a channel keeps its value in the range of its type and its event
  queue within the queue's bound.
\<close>

theorem channel_invariant:
  assumes "chan_inv (c, q)"
  shows "chan_inv (snd (ch_set v t (c, q))) \<and> chan_inv (snd (ch_add v t (c, q))) \<and>
    chan_inv (snd (ch_command v t ad (c, q))) \<and> chan_inv (snd (emit x c), q) \<and>
    chan_inv (set_rate x c, q)"
  using ch_set_inv [OF assms] ch_add_inv [OF assms] ch_command_inv [OF assms] emit_inv [of c x] assms
  by (auto simp: chan_inv_def set_rate_def tp_inv_def split: prod.splits)

theorem channel_invariant_witness:
  "chan_inv (snd (ch_add (VInt 1) None (new_channel ''a'' UINT8 0 True True False, [])))"
proof -
  have "chan_inv (new_channel ''a'' UINT8 0 True True False, [])"
    by (simp add: chan_inv_def MAX_SIZE_def tp_inv_def)
  from channel_invariant [OF this] show ?thesis by blast
qed

end
