(* ===== verification/Float_Facts.thy ===== *)
theory Float_Facts
  imports Py_Float
begin

text \<open>
  What rounding to binary64 does to a number in the normal range: the result is the nearest
  multiple of the unit in the last place, so that its error is at most half of it and an integer
  bound on the number is a bound on the result. The ceiling of a quotient of two integers, as
  the message framer computes it, is therefore exact.
\<close>

lemma two_powi_power_int: "two_powi e = 2 powi e"
  by (simp add: two_powi_def power_int_def field_simps)

lemma two_powi_pos [simp]: "0 < two_powi e"
  by (simp add: two_powi_power_int)

lemma two_powi_nonzero [simp]: "two_powi e \<noteq> 0"
  by (simp add: two_powi_power_int)

lemma two_powi_add: "two_powi (a + b) = two_powi a * two_powi b"
  by (simp add: two_powi_power_int power_int_add)

lemma two_powi_nat: "two_powi (int n) = 2 ^ n"
  by (simp add: two_powi_def)

lemma two_powi_Suc: "two_powi (e + 1) = 2 * two_powi e"
  using two_powi_add [of e 1] by (simp add: two_powi_def)

lemma two_powi_mono: "a \<le> b \<Longrightarrow> two_powi a \<le> two_powi b"
  by (simp add: two_powi_power_int power_int_increasing)

lemma two_powi_strict: "two_powi a < two_powi b \<Longrightarrow> a < b"
  by (metis two_powi_mono linorder_not_le)

lemma nbits_nonneg: "0 \<le> nbits n"
  by (induction n rule: nbits.induct) (simp add: nbits.simps)

lemma nbits_bounds:
  assumes "0 < n"
  shows "two_powi (nbits n - 1) \<le> of_int n \<and> of_int n < two_powi (nbits n)"
  using assms
proof (induction n rule: nbits.induct)
  case (1 n)
  show ?case
  proof (cases "n = 1")
    case True
    then show ?thesis by (simp add: nbits.simps two_powi_def)
  next
    case False
    with "1.prems" have pos: "0 < n div 2" by auto
    have nb: "nbits n = 1 + nbits (n div 2)" using "1.prems" by (simp add: nbits.simps [of n])
    have ih: "two_powi (nbits (n div 2) - 1) \<le> of_int (n div 2)"
        "of_int (n div 2) < two_powi (nbits (n div 2))"
      using "1.IH" "1.prems" pos by simp_all
    let ?k = "nbits (n div 2)"
    have k: "0 < ?k" using pos nbits_nonneg [of "n div 2 div 2"] by (simp add: nbits.simps [of "n div 2"])
    have p: "two_powi ?k = of_int (2 ^ nat ?k)" using k by (simp add: two_powi_def)
    then have "n div 2 + 1 \<le> 2 ^ nat ?k" using ih(2) by linarith
    moreover have "n < 2 * (n div 2 + 1)" by presburger
    ultimately have "n < 2 * 2 ^ nat ?k" by linarith
    then have "(of_int n :: rat) < of_int (2 * 2 ^ nat ?k)" by (simp only: of_int_less_iff)
    then have up: "of_int n < two_powi (nbits n)"
      using p two_powi_Suc [of ?k] nb by (simp add: add.commute)
    have "2 * (n div 2) \<le> n" by presburger
    then have "(of_int (2 * (n div 2)) :: rat) \<le> of_int n" by (simp only: of_int_le_iff)
    then have "two_powi ?k \<le> of_int n"
      using ih(1) two_powi_Suc [of "?k - 1"] by simp
    with up nb show ?thesis by simp
  qed
qed

lemma ilog2_bounds:
  assumes "0 < q"
  shows "two_powi (ilog2 q) \<le> q \<and> q < two_powi (ilog2 q + 1)"
proof -
  obtain n d where nd: "quotient_of q = (n, d)" by (cases "quotient_of q")
  have d: "0 < d" using quotient_of_denom_pos [OF nd] .
  have q: "q = of_int n / of_int d" using quotient_of_div [OF nd] .
  have n: "0 < n" using assms q d by (simp add: zero_less_divide_iff)
  let ?k = "nbits n - nbits d"
  note bn = nbits_bounds [OF n] and bd = nbits_bounds [OF d]
  have dpos: "(0 :: rat) < of_int d" using d by simp
  have "q * of_int d = of_int n" using q d by simp
  have "of_int n < two_powi (?k + 1) * of_int d"
  proof -
    have "of_int n < two_powi (?k + 1 + (nbits d - 1))" using bn by (simp add: algebra_simps)
    also have "\<dots> = two_powi (?k + 1) * two_powi (nbits d - 1)" by (rule two_powi_add)
    also have "\<dots> \<le> two_powi (?k + 1) * of_int d" using bd by simp
    finally show ?thesis .
  qed
  then have up: "q < two_powi (?k + 1)" using q dpos by (simp add: divide_less_eq)
  have "two_powi (?k - 1) * of_int d \<le> of_int n"
  proof -
    have "two_powi (?k - 1) * of_int d \<le> two_powi (?k - 1) * two_powi (nbits d)" using bd by simp
    also have "\<dots> = two_powi (?k - 1 + nbits d)" by (rule two_powi_add [symmetric])
    also have "\<dots> \<le> of_int n" using bn by (simp add: algebra_simps)
    finally show ?thesis .
  qed
  then have "two_powi (?k - 1) \<le> q" using q dpos by (simp add: le_divide_eq)
  with up show ?thesis by (simp add: ilog2_def nd Let_def)
qed

lemma round_half_even_near: "\<bar>of_int (round_half_even q) - q\<bar> \<le> 1 / 2"
proof -
  have "0 \<le> q - of_int \<lfloor>q\<rfloor>" "q - of_int \<lfloor>q\<rfloor> < 1" by linarith+
  then show ?thesis by (auto simp: round_half_even_def Let_def)
qed

lemma round_half_even_le: "q \<le> of_int k \<Longrightarrow> round_half_even q \<le> k"
proof -
  assume a: "q \<le> of_int k"
  have near: "\<bar>of_int (round_half_even q) - q\<bar> \<le> 1 / 2" by (rule round_half_even_near)
  then have "of_int (round_half_even q) < (of_int (k + 1) :: rat)" using a by linarith
  then show ?thesis by (simp only: of_int_less_iff)
qed

lemma round_half_even_ge: "of_int k \<le> q \<Longrightarrow> k \<le> round_half_even q"
proof -
  assume a: "of_int k \<le> q"
  have near: "\<bar>of_int (round_half_even q) - q\<bar> \<le> 1 / 2" by (rule round_half_even_near)
  then have "of_int (k - 1) < (of_int (round_half_even q) :: rat)" using a by linarith
  then show ?thesis by (simp only: of_int_less_iff)
qed

text \<open>Decoding an exponent and a mantissa that rounding produced, with its possible carry.\<close>

lemma dec_mag_normal:
  assumes "0 \<le> e" and "2 ^ 52 \<le> m" and "m \<le> 2 ^ 53"
  shows "dec_mag binary64 (e * 2 ^ 52 + m) = of_int m * two_powi (e + exp_min binary64 - 52)"
proof (cases "m = 2 ^ 53")
  case True
  have "e * 2 ^ 52 + m = (e + 2) * 2 ^ 52" using True by simp
  then have "dec_mag binary64 (e * 2 ^ 52 + m) =
      of_int (2 ^ 52) * two_powi (e + exp_min binary64 - 52 + 1)"
    using assms(1) by (simp add: dec_mag_def binary64_def Let_def algebra_simps)
  also have "\<dots> = of_int m * two_powi (e + exp_min binary64 - 52)"
    using True by (simp only: two_powi_Suc) simp
  finally show ?thesis .
next
  case False
  define r where "r = m - 2 ^ 52"
  have r: "0 \<le> r" "r < 2 ^ 52" "m = 2 ^ 52 + r" using assms False by (simp_all add: r_def)
  have eq: "e * 2 ^ 52 + m = r + (e + 1) * 2 ^ 52" using r(3) by simp
  have dv: "(e * 2 ^ 52 + m) div 2 ^ 52 = e + 1"
    using r(1,2) unfolding eq by simp
  have md: "(e * 2 ^ 52 + m) mod 2 ^ 52 = r"
    using r(1,2) unfolding eq mod_mult_self1 by (rule mod_pos_pos_trivial)
  show ?thesis
    using assms(1) dv md r(3) by (simp add: dec_mag_def binary64_def Let_def algebra_simps)
qed

lemma fval_fbits:
  assumes "0 \<le> m" and "m < 2 ^ 63"
  shows "fval (fbits False m) = dec_mag binary64 m"
proof -
  have u: "uint (fbits False m) = m"
    using assms by (simp add: fbits_def uint_word_of_int)
  then show ?thesis using assms by (simp add: fval_def fneg_bit_def fmag_def)
qed

lemma enc_mag_normal:
  assumes "0 < q" and "-1022 \<le> ilog2 q" and "ilog2 q \<le> 1000"
  defines "m \<equiv> round_half_even (q / two_powi (ilog2 q - 52))"
  shows "enc_mag binary64 q = (ilog2 q + 1022) * 2 ^ 52 + m" and "2 ^ 52 \<le> m" and "m \<le> 2 ^ 53"
proof -
  let ?e = "ilog2 q"
  let ?u = "two_powi (?e - 52)"
  have b: "two_powi ?e \<le> q" "q < two_powi (?e + 1)" using ilog2_bounds [OF assms(1)] by simp_all
  have s: "two_powi ?e = of_int (2 ^ 52) * ?u"
    using two_powi_add [of 52 "?e - 52"] by (simp add: two_powi_def [of 52])
  then have s': "two_powi (?e + 1) = of_int (2 ^ 53) * ?u"
    by (simp add: two_powi_Suc)
  have "of_int (2 ^ 52) \<le> q / ?u" "q / ?u \<le> of_int (2 ^ 53)"
    using b s s' by (simp_all add: le_divide_eq divide_le_eq)
  then show m: "2 ^ 52 \<le> m" "m \<le> 2 ^ 53"
    using round_half_even_ge [of "2 ^ 52" "q / ?u"] round_half_even_le [of "q / ?u" "2 ^ 53"]
    unfolding m_def by blast+
  have ex: "exp_min binary64 = -1022" by (simp add: exp_min_def binary64_def)
  have "(?e + 1022) * 2 ^ 52 + m < 2047 * 2 ^ 52" using assms m by simp
  then show "enc_mag binary64 q = (?e + 1022) * 2 ^ 52 + m"
    using assms ex by (simp add: enc_mag_def Let_def inf_mag_def binary64_def max_def)
qed

lemma fl_normal:
  assumes "0 < q" and "-1022 \<le> ilog2 q" and "ilog2 q \<le> 1000"
  shows "fval (fl q) =
    of_int (round_half_even (q / two_powi (ilog2 q - 52))) * two_powi (ilog2 q - 52)"
proof -
  note n = enc_mag_normal [OF assms]
  have "fval (fl q) = dec_mag binary64 ((ilog2 q + 1022) * 2 ^ 52 + round_half_even (q / two_powi (ilog2 q - 52)))"
    using assms n by (simp add: fl_def fval_fbits)
  then show ?thesis
    using dec_mag_normal [OF _ n(2,3), of "ilog2 q + 1022"] assms(2) by (simp add: exp_min_def binary64_def)
qed

lemma ilog2_range:
  assumes "0 < q" and "two_powi a \<le> q" and "q < two_powi b"
  shows "a \<le> ilog2 q \<and> ilog2 q < b"
proof -
  note l = ilog2_bounds [OF assms(1)]
  have "two_powi a < two_powi (ilog2 q + 1)" using assms(2) l by linarith
  then have "a < ilog2 q + 1" by (rule two_powi_strict)
  moreover have "two_powi (ilog2 q) < two_powi b" using assms(3) l by linarith
  then have "ilog2 q < b" by (rule two_powi_strict)
  ultimately show ?thesis by simp
qed

text \<open>Integers of up to 53 bits are floats.\<close>

lemma float_of_int_small:
  assumes "0 \<le> n" and "n < 2 ^ 53"
  shows "float_of_int n = Inr (fl (of_int n))"
proof (cases "n = 0")
  case True
  then show ?thesis by (simp add: float_of_int_def fl_def enc_mag_def finf_def fmag_def inf_mag_def binary64_def fbits_def)
next
  case False
  let ?q = "of_int n :: rat"
  have "?q < of_int (2 ^ 53)" using assms(2) by (simp only: of_int_less_iff)
  then have "0 < ?q" "two_powi 0 \<le> ?q" "?q < two_powi 53" using assms(1) False by (simp_all add: two_powi_def)
  then have "0 \<le> ilog2 ?q" "ilog2 ?q < 53" "0 < ?q" using ilog2_range [of ?q 0 53] by simp_all
  then have "0 \<le> enc_mag binary64 ?q" "enc_mag binary64 ?q < 2047 * 2 ^ 52"
    using enc_mag_normal [of ?q] by simp_all
  then have "\<not> finf (fl ?q)" using assms(1)
    by (simp add: finf_def fmag_def fl_def fbits_def inf_mag_def binary64_def uint_word_of_int)
  then show ?thesis by (simp add: float_of_int_def)
qed

theorem fl_ceiling:
  assumes "0 \<le> a" and "a < 2 ^ 53" and "0 < b" and "b < 2 ^ 53"
  shows "\<lceil>fval (fl (of_int a / of_int b))\<rceil> = \<lceil>of_int a / (of_int b :: rat)\<rceil>"
proof (cases "a = 0")
  case True
  then show ?thesis by (simp add: fl_def enc_mag_def fval_fbits dec_mag_def binary64_def)
next
  case False
  let ?q = "of_int a / of_int b :: rat"
  let ?e = "ilog2 ?q"
  let ?u = "two_powi (?e - 52)"
  let ?x = "fval (fl ?q)"
  define k where "k = \<lceil>?q\<rceil>"
  have a: "1 \<le> a" using False assms(1) by simp
  have q: "0 < ?q" using a assms(3) by simp
  have hi: "?q < two_powi 53"
  proof -
    have "?q \<le> of_int a" using assms(3) a by (simp add: divide_le_eq)
    also have "\<dots> < of_int (2 ^ 53)" using assms(2) by (simp only: of_int_less_iff)
    finally show ?thesis by (simp add: two_powi_def)
  qed
  have lo: "two_powi (-53) \<le> ?q"
  proof -
    have "of_int b \<le> (of_int (2 ^ 53) :: rat)" using assms(4) by (simp only: of_int_le_iff)
    then have "two_powi (-53) \<le> 1 / of_int b" using assms(3) by (simp add: two_powi_def frac_le)
    also have "\<dots> \<le> ?q" using a assms(3) by (simp add: divide_right_mono)
    finally show ?thesis .
  qed
  have e: "-53 \<le> ?e" "?e \<le> 52" using ilog2_range [OF q lo hi] by simp_all
  have x: "?x = of_int (round_half_even (?q / ?u)) * ?u" using fl_normal [OF q] e by simp
  have kq: "?q \<le> of_int k" "of_int k - 1 < ?q" by (simp_all add: k_def) linarith
  have "two_powi (52 - ?e) * ?u = 1"
    using two_powi_add [of "52 - ?e" "?e - 52"] by (simp add: two_powi_def [of 0])
  then have "of_int k / ?u = of_int k * two_powi (52 - ?e)"
    by (auto simp: divide_eq_eq mult.assoc)
  then have u: "of_int k / ?u = of_int (k * 2 ^ nat (52 - ?e))"
    using e by (simp add: two_powi_def [of "52 - ?e"])
  have "?q / ?u \<le> of_int (k * 2 ^ nat (52 - ?e))"
    unfolding u [symmetric] by (rule divide_right_mono [OF kq(1)]) (simp add: less_imp_le)
  then have "round_half_even (?q / ?u) \<le> k * 2 ^ nat (52 - ?e)" by (rule round_half_even_le)
  then have "of_int (round_half_even (?q / ?u)) \<le> of_int k / ?u" unfolding u by (simp only: of_int_le_iff)
  then have up: "?x \<le> of_int k" unfolding x by (simp add: le_divide_eq)
  have "\<bar>of_int (round_half_even (?q / ?u)) - ?q / ?u\<bar> \<le> 1 / 2" by (rule round_half_even_near)
  then have "?q / ?u - 1 / 2 \<le> of_int (round_half_even (?q / ?u))" by linarith
  then have "(?q / ?u - 1 / 2) * ?u \<le> ?x" unfolding x by (simp add: mult_right_mono less_imp_le)
  then have near: "?q - ?u / 2 \<le> ?x" by (simp add: left_diff_distrib)
  have "two_powi ?e \<le> ?q" using ilog2_bounds [OF q] by simp
  moreover have "two_powi ?e = 2 ^ 52 * ?u"
    using two_powi_add [of 52 "?e - 52"] by (simp add: two_powi_def)
  ultimately have "?u / 2 \<le> ?q / 2 ^ 53" by simp
  also have "\<dots> < 1 / of_int b"
  proof -
    have "(of_int a :: rat) < of_int (2 ^ 53)" using assms(2) by (simp only: of_int_less_iff)
    then show ?thesis using assms(3) by (simp add: divide_less_eq field_simps)
  qed
  finally have half: "?u / 2 < 1 / of_int b" .
  have "(k - 1) * b + 1 \<le> a"
  proof -
    have "(of_int ((k - 1) * b) :: rat) < of_int a"
      using kq(2) assms(3) by (simp add: less_divide_eq)
    then show ?thesis by (simp only: of_int_less_iff)
  qed
  then have "(of_int ((k - 1) * b + 1) :: rat) \<le> of_int a" by (simp only: of_int_le_iff)
  then have "of_int ((k - 1) * b + 1) / of_int b \<le> ?q"
    using assms(3) by (simp add: divide_right_mono)
  then have "of_int k - 1 + 1 / of_int b \<le> ?q"
    using assms(3) by (simp add: add_divide_distrib)
  then have "of_int k - 1 < ?x" using near half by linarith
  with up have "\<lceil>?x\<rceil> = k" by linarith
  then show ?thesis by (simp add: k_def)
qed

end
