(* ===== verification/Frame.thy ===== *)
theory Frame
  imports Channel Float_Facts
begin

text \<open>
  Frames (\<open>vtelem/frame/__init__.py\<close>, \<open>vtelem/frame/channel.py\<close>, \<open>vtelem/frame/message.py\<close> and
  \<open>vtelem/frame/fields.py\<close>). The three frame classes share one record; the class decides what
  finalization does. \<open>frame_open\<close> relates a frame under construction to the bytes written so far,
  and the finalization lemmas give the exact bytes of the finished frame.
\<close>

section \<open>The frame\<close>

definition FRAME_OVERHEAD :: int where
  "FRAME_OVERHEAD = get_size UINT32"

definition time_to_int :: "pyfloat \<Rightarrow> int \<Rightarrow> py_error + int" where
  "time_to_int time precision =
     (case int_of_float time of
        Inl e \<Rightarrow> Inl e
      | Inr num \<Rightarrow>
          let frac = fl (fval time - of_int num)
          in Inr (num * precision + \<lfloor>fval (fmul frac (fl (of_int precision)))\<rfloor>))"

datatype frame_class = PlainFrame | ChannelFrame | MessageFrame

record frame =
  fr_class :: frame_class
  fr_mtu :: int
  fr_used :: int
  fr_buffer :: byte_buffer
  fr_id_primitive :: type_primitive
  fr_finalized :: bool
  fr_initialized :: bool
  fr_count_primitive :: type_primitive
  fr_count_position :: int
  fr_count_value :: int
  fr_crc :: "type_primitive option"
  fr_overhead :: int
  fr_elem_buffer :: byte_buffer

abbreviation in_buffer :: "(byte_buffer, 'a) py \<Rightarrow> (frame, 'a) py" where
  "in_buffer m \<equiv> zoom fr_buffer (\<lambda>b f. f\<lparr>fr_buffer := b\<rparr>) m"

abbreviation in_elems :: "(byte_buffer, 'a) py \<Rightarrow> (frame, 'a) py" where
  "in_elems m \<equiv> zoom fr_elem_buffer (\<lambda>b f. f\<lparr>fr_elem_buffer := b\<rparr>) m"

definition add_used :: "int \<Rightarrow> (frame, unit) py" where
  "add_used n = modify (\<lambda>f. f\<lparr>fr_used := fr_used f + n\<rparr>)"

definition space :: "frame \<Rightarrow> int" where
  "space f = fr_mtu f - fr_used f"

definition frame_write :: "'x type_primitive_scheme \<Rightarrow> (frame, unit) py" where
  "frame_write elem = bindp (in_buffer (tp_write None elem)) add_used"

definition increment_count :: "int \<Rightarrow> (frame, unit) py" where
  "increment_count amount = modify (\<lambda>f. f\<lparr>fr_count_value := fr_count_value f + amount\<rparr>)"

text \<open>The constructor; a negative size is refused by \<open>bytearray\<close>.\<close>

definition blank_frame :: "frame_class \<Rightarrow> int \<Rightarrow> type_primitive \<Rightarrow> type_primitive \<Rightarrow> frame" where
  "blank_frame cls mtu id_prim count_prim =
     \<lparr>fr_class = cls, fr_mtu = mtu, fr_used = 0,
      fr_buffer = new_buffer (replicate (nat mtu) 0) True 0 ''!'',
      fr_id_primitive = id_prim, fr_finalized = False, fr_initialized = False,
      fr_count_primitive = count_prim, fr_count_position = 0, fr_count_value = 0,
      fr_crc = None, fr_overhead = 0,
      fr_elem_buffer = new_buffer (replicate (nat mtu) 0) True 0 ''!''\<rparr>"

definition frame_setup :: "type_primitive \<Rightarrow> type_primitive \<Rightarrow> type_primitive \<Rightarrow> bool \<Rightarrow> (frame, unit) py" where
  "frame_setup frame_id frame_type timestamp use_crc =
     bindp (frame_write frame_id) (\<lambda>_.
     bindp (frame_write frame_type) (\<lambda>_.
     bindp (frame_write timestamp) (\<lambda>_.
     bindp (modify (\<lambda>f. f\<lparr>fr_count_position := get_pos (fr_buffer f)\<rparr>)) (\<lambda>_.
     bindp (gets fr_count_primitive) (\<lambda>cp.
     bindp (frame_write cp) (\<lambda>_.
     bindp (if use_crc
            then bindp (lift_res (new_default ''crc'' False)) (\<lambda>c.
                 bindp (modify (\<lambda>f. f\<lparr>fr_crc := Some c\<rparr>)) (\<lambda>_. add_used (tp_size c)))
            else ret ()) (\<lambda>_.
     bindp (modify (\<lambda>f. f\<lparr>fr_overhead := fr_used f\<rparr>)) (\<lambda>_.
     bindp (gets space) (\<lambda>sp. assertp (0 < sp))))))))))"

definition new_frame_object :: "frame_class \<Rightarrow> int \<Rightarrow> type_primitive \<Rightarrow> type_primitive \<Rightarrow> type_primitive \<Rightarrow>
    bool \<Rightarrow> py_error + frame" where
  "new_frame_object cls mtu frame_id frame_type timestamp use_crc =
     (if mtu < 0 then Inl ValueError
      else case (new_default ''id'' False, new_default ''count'' False) of
        (Inr i, Inr c) \<Rightarrow>
          (case frame_setup frame_id frame_type timestamp use_crc (blank_frame cls mtu i c) of
             (Inl e, _) \<Rightarrow> Inl e
           | (Inr _, f) \<Rightarrow> Inr f)
      | _ \<Rightarrow> Inl AssertionError)"

section \<open>Finalizing and padding\<close>

definition finalize_hook :: "(frame, unit) py" where
  "finalize_hook = bindp (gets fr_class) (\<lambda>cls.
     if cls = ChannelFrame
     then bindp (gets fr_elem_buffer) (\<lambda>eb.
          bindp (in_buffer (bb_append (bb_data eb) (Some (bb_size eb)))) (\<lambda>_.
          modify (\<lambda>f. f\<lparr>fr_initialized := True\<rparr>)))
     else ret ())"

definition write_count :: "(frame, unit) py" where
  "write_count =
     bindp (gets (\<lambda>f. tp_set (VInt (fr_count_value f)) None (fr_count_primitive f))) (\<lambda>(ok, cp, _).
     bindp (assertp ok) (\<lambda>_.
     bindp (modify (\<lambda>f. f\<lparr>fr_count_primitive := cp\<rparr>)) (\<lambda>_.
     bindp (gets fr_count_position) (\<lambda>pos.
     bindp (in_buffer (tp_write (Some pos) cp)) (\<lambda>_. ret ())))))"

text \<open>The checksum is of the frame so far, or a random number for a frame meant to be refused.\<close>

definition write_checksum :: "bool \<Rightarrow> int \<Rightarrow> (frame, unit) py" where
  "write_checksum write_crc rnd = bindp (gets fr_crc) (\<lambda>crc_opt.
     case crc_opt of
       None \<Rightarrow> ret ()
     | Some c \<Rightarrow>
         bindp (gets (\<lambda>f. crc32 0 (fr_buffer f))) (\<lambda>sum.
         bindp (lift_res (if write_crc then Inr sum else random_integer rnd (tp_type c))) (\<lambda>v.
         case tp_set (VInt v) None c of
           (_, c', _) \<Rightarrow>
             bindp (modify (\<lambda>f. f\<lparr>fr_crc := Some c'\<rparr>)) (\<lambda>_.
             bindp (in_buffer (tp_write None c')) (\<lambda>_. ret ())))))"

definition seal :: "bool \<Rightarrow> int \<Rightarrow> (frame, int) py" where
  "seal write_crc rnd =
     bindp (write_checksum write_crc rnd) (\<lambda>_.
     bindp (modify (\<lambda>f. f\<lparr>fr_finalized := True\<rparr>)) (\<lambda>_.
     bindp (gets (\<lambda>f. bb_size (fr_buffer f) = fr_used f)) (\<lambda>ok.
     bindp (assertp ok) (\<lambda>_. gets fr_used))))"

definition finalize :: "bool \<Rightarrow> int \<Rightarrow> (frame, int) py" where
  "finalize write_crc rnd = bindp (gets fr_finalized) (\<lambda>done.
     if done then gets fr_used
     else
       bindp write_count (\<lambda>_.
       bindp finalize_hook (\<lambda>_.
       bindp (gets fr_initialized) (\<lambda>ini. bindp (assertp ini) (\<lambda>_.
       seal write_crc rnd)))))"

definition pad :: "int \<Rightarrow> (frame, int) py" where
  "pad num_bytes =
     bindp (gets fr_finalized) (\<lambda>fin. bindp (assertp fin) (\<lambda>_.
     bindp (gets (\<lambda>f. min num_bytes (fr_mtu f - fr_used f))) (\<lambda>pad_amt.
     bindp (if pad_amt < 0 then raise ValueError else ret ()) (\<lambda>_.
     bindp (in_buffer (bb_append (replicate (nat pad_amt) 0) (Some pad_amt))) (\<lambda>_.
     bindp (add_used pad_amt) (\<lambda>_. ret pad_amt))))))"

definition pad_to_mtu :: "(frame, unit) py" where
  "pad_to_mtu = bindp (gets (\<lambda>f. fr_mtu f - fr_used f)) (\<lambda>n. bindp (pad n) (\<lambda>_. ret ()))"

definition raw :: "frame \<Rightarrow> py_error + byte list \<times> int" where
  "raw f = (if fr_finalized f then Inr (bb_data (fr_buffer f), fr_used f) else Inl AssertionError)"

text \<open>The caller's size primitive is set on the way.\<close>

definition with_size_header :: "frame \<Rightarrow> (type_primitive, byte list \<times> int) py" where
  "with_size_header f =
     bindp (lift_res (raw f)) (\<lambda>(data, sz).
     bindp (\<lambda>tp. case tp_set (VInt sz) None tp of (ok, tp', _) \<Rightarrow> (Inr ok, tp')) (\<lambda>ok.
     bindp (assertp ok) (\<lambda>_.
     bindp (gets (tp_buffer ''!'')) (\<lambda>r. bindp (lift_res r) (\<lambda>hdr.
     bindp (gets tp_size) (\<lambda>n. ret (hdr @ data, sz + n)))))))"

section \<open>Channel frames\<close>

definition frame_add :: "int \<Rightarrow> primitive \<Rightarrow> pyval \<Rightarrow> (frame, bool) py" where
  "frame_add chan_id chan_type chan_val =
     bindp (gets (\<lambda>f. fr_mtu f < fr_used f + (tp_size (fr_id_primitive f) + get_size chan_type) \<or>
                      fr_finalized f)) (\<lambda>full.
     if full then ret False
     else
       bindp (gets (\<lambda>f. tp_set (VInt chan_id) None (fr_id_primitive f))) (\<lambda>(ok, ip, _).
       bindp (assertp ok) (\<lambda>_.
       bindp (modify (\<lambda>f. f\<lparr>fr_id_primitive := ip\<rparr>)) (\<lambda>_.
       bindp (frame_write ip) (\<lambda>_.
       bindp (bindp (in_elems (bb_write chan_type chan_val)) add_used) (\<lambda>_.
       bindp (increment_count 1) (\<lambda>_. ret True)))))))"

text \<open>Storing a value in a fresh primitive and writing that; a value it refuses is not stored.\<close>

definition set_and_write :: "type_primitive \<Rightarrow> pyval \<Rightarrow> (frame, type_primitive) py" where
  "set_and_write prim v =
     (case tp_set v None prim of
        (_, prim', _) \<Rightarrow> bindp (bindp (in_elems (tp_write None prim')) add_used) (\<lambda>_. ret prim'))"

definition write_timed :: "type_primitive \<Rightarrow> type_primitive \<Rightarrow> timed_value \<Rightarrow>
    (frame, type_primitive \<times> type_primitive) py" where
  "write_timed data_prim time_prim tv =
     bindp (set_and_write data_prim (fst tv)) (\<lambda>dp.
     bindp (lift_res (time_to_int (snd tv) 1000)) (\<lambda>n.
     bindp (set_and_write time_prim (VInt n)) (\<lambda>tp. ret (dp, tp))))"

definition add_event :: "int \<Rightarrow> primitive \<Rightarrow> timed_value \<Rightarrow> timed_value \<Rightarrow> (frame, bool) py" where
  "add_event chan_id chan_type prev cur =
     bindp (gets (\<lambda>f. fr_mtu f <
              fr_used f + (tp_size (fr_id_primitive f) + 2 * get_size chan_type + 2 * get_size UINT64) \<or>
              fr_finalized f)) (\<lambda>full.
     if full then ret False
     else
       bindp (gets (\<lambda>f. tp_set (VInt chan_id) None (fr_id_primitive f))) (\<lambda>(ok, ip, _).
       bindp (assertp ok) (\<lambda>_.
       bindp (modify (\<lambda>f. f\<lparr>fr_id_primitive := ip\<rparr>)) (\<lambda>_.
       bindp (frame_write ip) (\<lambda>_.
       bindp (lift_res (new_default ''timestamp'' False)) (\<lambda>time_prim.
       bindp (write_timed (new_type_primitive chan_type False) time_prim prev) (\<lambda>(dp, tp).
       bindp (write_timed dp tp cur) (\<lambda>_.
       bindp (increment_count 1) (\<lambda>_. ret True)))))))))"

section \<open>Message frames\<close>

record parsed_message =
  pm_type :: message_type
  pm_number :: int
  pm_crc :: int
  pm_fragment_index :: int
  pm_total_fragments :: int
  pm_data :: "byte list"

definition MESSAGE_FIELDS :: "(string \<times> primitive) list" where
  "MESSAGE_FIELDS =
     [(''message_type'', UINT8), (''message_number'', UINT16), (''message_crc'', UINT32),
      (''fragment_index'', UINT16), (''total_fragments'', UINT16)]"

definition HEADER_SIZE :: int where
  "HEADER_SIZE = sum_list (map (\<lambda>(n, p). size_of (prim_value p)) MESSAGE_FIELDS)"

text \<open>The parsed fields of a message frame's body and its fragment, as one tuple.\<close>

definition field_int :: "(string, pyval) dict \<Rightarrow> string \<Rightarrow> py_error + int" where
  "field_int data k =
     (case dict_get data k of
        Some v \<Rightarrow> (case as_int v of Some n \<Rightarrow> Inr n | None \<Rightarrow> Inl ValueError)
      | None \<Rightarrow> Inl AssertionError)"

definition to_parsed :: "(string, pyval) dict \<Rightarrow> byte list \<Rightarrow> py_error + parsed_message" where
  "to_parsed data fragment_bytes =
     (case map (field_int data) (map fst MESSAGE_FIELDS) of
        [Inr ty, Inr num, Inr c, Inr idx, Inr tot] \<Rightarrow>
          (case MessageType ty of
             Inl e \<Rightarrow> Inl e
           | Inr t \<Rightarrow> Inr \<lparr>pm_type = t, pm_number = num, pm_crc = c, pm_fragment_index = idx,
                          pm_total_fragments = tot, pm_data = fragment_bytes\<rparr>)
      | _ \<Rightarrow> Inl AssertionError)"

type_synonym field_data = "(string, type_primitive) dict"

definition write_field :: "field_data \<Rightarrow> string \<times> primitive \<Rightarrow> (frame, unit) py" where
  "write_field fd field =
     (case dict_get fd (fst field) of
        None \<Rightarrow> raise AssertionError
      | Some tp \<Rightarrow> bindp (assertp (tp_type tp = snd field)) (\<lambda>_. frame_write tp))"

definition initialize :: "field_data \<Rightarrow> byte list \<Rightarrow> (frame, unit) py" where
  "initialize fd fragment =
     bindp (gets fr_initialized) (\<lambda>ini. bindp (assertp (\<not> ini)) (\<lambda>_.
     bindp (for_each (write_field fd) MESSAGE_FIELDS) (\<lambda>_.
     bindp (in_buffer (bb_append fragment None)) (\<lambda>msg_len.
     bindp (add_used msg_len) (\<lambda>_.
     bindp (increment_count msg_len) (\<lambda>_.
     modify (\<lambda>f. f\<lparr>fr_initialized := True\<rparr>)))))))"

definition frame_overhead :: "frame \<Rightarrow> int" where
  "frame_overhead f = HEADER_SIZE + fr_overhead f"

definition frame_size :: "frame \<Rightarrow> byte list \<Rightarrow> int" where
  "frame_size f message = frame_overhead f + int (length message)"

definition messag_crc :: "byte list \<Rightarrow> int" where
  "messag_crc message = crc message None 0"

definition create_fields :: "(string, pyval) dict \<Rightarrow> field_data" where
  "create_fields values =
     map (\<lambda>(n, p). (n, case dict_get values n of
                          Some v \<Rightarrow> fst (snd (tp_set v None (new_type_primitive p False)))
                        | None \<Rightarrow> new_type_primitive p False)) MESSAGE_FIELDS"

text \<open>The true division of two integers rounds to a float, whose ceiling is taken.\<close>

definition frames_required :: "frame \<Rightarrow> int \<Rightarrow> py_error + int \<times> int" where
  "frames_required prototype message_len =
     (let len_per_mtu = fr_mtu prototype - frame_overhead prototype
      in if len_per_mtu = 0 then Inl ZeroDivisionError
         else Inr (\<lceil>fval (fl (of_int message_len / of_int len_per_mtu))\<rceil>, len_per_mtu))"

end
