(* ===== verification/Frame_Layout.thy ===== *)
theory Frame_Layout
  imports Frame
begin

text \<open>
  The bytes of a frame. A frame under construction is related to the identifier, type and
  timestamp of its header, the bytes in its buffer after the header and the bytes in its element
  buffer; every operation that adds to a frame extends these, and finalization produces the
  header with the final element count, the body, the elements and the checksum of all that.
\<close>

section \<open>Headers\<close>

lemma net_pack_uint:
  "0 \<le> n \<Longrightarrow> n < 2 ^ 8 \<Longrightarrow> net_pack UINT8 (VInt n) = Inr (be_bytes 1 n)"
  "0 \<le> n \<Longrightarrow> n < 2 ^ 16 \<Longrightarrow> net_pack UINT16 (VInt n) = Inr (be_bytes 2 n)"
  "0 \<le> n \<Longrightarrow> n < 2 ^ 32 \<Longrightarrow> net_pack UINT32 (VInt n) = Inr (be_bytes 4 n)"
  "0 \<le> n \<Longrightarrow> n < 2 ^ 64 \<Longrightarrow> net_pack UINT64 (VInt n) = Inr (be_bytes 8 n)"
  by (simp_all add: prim_pack_def struct_pack_def pack_char_def int_range_def)

text \<open>A stored unsigned integer, as the header fields are.\<close>

definition holds_uint :: "primitive \<Rightarrow> int \<Rightarrow> type_primitive \<Rightarrow> bool" where
  "holds_uint p n tp \<longleftrightarrow> tp_type tp = p \<and> tp_data tp = VInt n"

definition frame_header :: "int \<Rightarrow> int \<Rightarrow> int \<Rightarrow> int \<Rightarrow> byte list" where
  "frame_header app_id ty ts n = be_bytes 2 app_id @ be_bytes 1 ty @ be_bytes 8 ts @ be_bytes 4 n"

lemma length_frame_header [simp]: "length (frame_header a t s n) = 15"
  by (simp add: frame_header_def)

text \<open>The whole frame: header, body and, when it has one, the checksum.\<close>

definition frame_image :: "bool \<Rightarrow> int \<Rightarrow> int \<Rightarrow> int \<Rightarrow> int \<Rightarrow> byte list \<Rightarrow> byte list" where
  "frame_image with_crc a t s n body =
     (let p = frame_header a t s n @ body
      in if with_crc then p @ be_bytes 4 (uint (zlib_crc32 p 0)) else p)"

lemma length_frame_image [simp]:
  "length (frame_image c a t s n body) = 15 + length body + (if c then 4 else 0)"
  by (simp add: frame_image_def Let_def)

lemma frame_header_count:
  "overwrite (frame_header a t s m @ body) 11 (be_bytes 4 n) = frame_header a t s n @ body"
  by (simp add: frame_header_def overwrite_def)

section \<open>Frames under construction\<close>

definition crc_len :: "frame \<Rightarrow> int" where
  "crc_len f = (case fr_crc f of None \<Rightarrow> 0 | Some _ \<Rightarrow> 4)"

definition frame_open :: "frame \<Rightarrow> int \<Rightarrow> int \<Rightarrow> int \<Rightarrow> byte list \<Rightarrow> byte list \<Rightarrow> bool" where
  "frame_open f a t s body elems \<longleftrightarrow>
     bb_sink (fr_buffer f) \<and> bb_content (fr_buffer f) = frame_header a t s 0 @ body \<and>
     bb_sink (fr_elem_buffer f) \<and> bb_content (fr_elem_buffer f) = elems \<and>
     \<not> fr_finalized f \<and> fr_count_position f = 11 \<and> tp_type (fr_count_primitive f) = UINT32 \<and>
     tp_type (fr_id_primitive f) = UINT16 \<and> (\<forall>c. fr_crc f = Some c \<longrightarrow> tp_type c = UINT32) \<and>
     fr_overhead f = 15 + crc_len f \<and>
     fr_used f = fr_overhead f + int (length body) + int (length elems) \<and> fr_used f \<le> fr_mtu f"

lemma bb_sink_new: "bb_sink (new_buffer xs True 0 ''!'')"
  by (simp add: bb_sink_def bb_at_end_def bb_inv_def)

lemma bb_content_new [simp]: "bb_content (new_buffer xs m 0 ord) = []"
  by (simp add: bb_content_def)

lemma frame_write_sink:
  assumes "bb_sink (fr_buffer f)" and "net_pack (tp_type e) (tp_data e) = Inr bs"
  shows "\<exists>b. frame_write e f = (Inr (), f\<lparr>fr_buffer := b, fr_used := fr_used f + int (length bs)\<rparr>) \<and>
    bb_sink b \<and> bb_content b = bb_content (fr_buffer f) @ bs"
proof -
  have "int (length bs) = tp_size e" using codec.pack_width [OF assms(2)] by (simp add: tp_size_def)
  then show ?thesis
    using tp_write_sink [OF assms] by (auto simp: frame_write_def add_used_def)
qed

lemma bb_sink_pos: "bb_sink b \<Longrightarrow> bb_pos b = int (length (bb_content b))"
  by (auto simp: bb_sink_def bb_at_end_def bb_content_def bb_inv_def)

lemma holds_uint_pack:
  "holds_uint UINT8 n tp \<Longrightarrow> 0 \<le> n \<Longrightarrow> n < 2 ^ 8 \<Longrightarrow> net_pack (tp_type tp) (tp_data tp) = Inr (be_bytes 1 n)"
  "holds_uint UINT16 n tp \<Longrightarrow> 0 \<le> n \<Longrightarrow> n < 2 ^ 16 \<Longrightarrow> net_pack (tp_type tp) (tp_data tp) = Inr (be_bytes 2 n)"
  "holds_uint UINT32 n tp \<Longrightarrow> 0 \<le> n \<Longrightarrow> n < 2 ^ 32 \<Longrightarrow> net_pack (tp_type tp) (tp_data tp) = Inr (be_bytes 4 n)"
  "holds_uint UINT64 n tp \<Longrightarrow> 0 \<le> n \<Longrightarrow> n < 2 ^ 64 \<Longrightarrow> net_pack (tp_type tp) (tp_data tp) = Inr (be_bytes 8 n)"
  by (simp_all only: holds_uint_def net_pack_uint)

text \<open>The ranges of the header fields, and the primitives that hold them.\<close>

definition header_ok :: "int \<Rightarrow> int \<Rightarrow> int \<Rightarrow> bool" where
  "header_ok a t s \<longleftrightarrow> 0 \<le> a \<and> a < 2 ^ 16 \<and> 0 \<le> t \<and> t < 2 ^ 8 \<and> 0 \<le> s \<and> s < 2 ^ 64"

lemma new_default_uint32: "holds_uint UINT32 0 (new_type_primitive UINT32 cb)"
  by (simp add: holds_uint_def new_type_primitive_def default_val_def INTEGER_PRIMITIVES_def
      int_primitive_def)

text \<open>The header is written whatever the size; only then is the space checked.\<close>

lemma frame_setup_writes:
  assumes "holds_uint UINT16 a ip" and "holds_uint UINT8 t tp" and "holds_uint UINT64 s sp"
    and "header_ok a t s"
  shows "\<exists>b. frame_setup ip tp sp use_crc
      (blank_frame cls mtu (new_type_primitive UINT16 False) (new_type_primitive UINT32 False)) =
    (if 15 + (if use_crc then 4 else 0) < mtu then Inr () else Inl AssertionError,
     (blank_frame cls mtu (new_type_primitive UINT16 False) (new_type_primitive UINT32 False))
       \<lparr>fr_buffer := b, fr_used := 15 + (if use_crc then 4 else 0), fr_count_position := 11,
        fr_crc := (if use_crc then Some (new_type_primitive UINT32 False) else None),
        fr_overhead := 15 + (if use_crc then 4 else 0)\<rparr>) \<and>
    bb_sink b \<and> bb_content b = frame_header a t s 0"
proof -
  let ?cp = "new_type_primitive UINT32 False"
  let ?f0 = "blank_frame cls mtu (new_type_primitive UINT16 False) ?cp"
  have e: "net_pack (tp_type ip) (tp_data ip) = Inr (be_bytes 2 a)"
      "net_pack (tp_type tp) (tp_data tp) = Inr (be_bytes 1 t)"
      "net_pack (tp_type sp) (tp_data sp) = Inr (be_bytes 8 s)"
      "net_pack (tp_type ?cp) (tp_data ?cp) = Inr (be_bytes 4 0)"
    using assms holds_uint_pack(3) [OF new_default_uint32]
    by (simp_all only: header_ok_def holds_uint_pack) simp_all
  have s0: "bb_sink (fr_buffer ?f0)" "bb_content (fr_buffer ?f0) = []"
    using bb_sink_new by (simp_all add: blank_frame_def bb_content_def)
  obtain b1 where b1: "frame_write ip ?f0 = (Inr (), ?f0\<lparr>fr_buffer := b1, fr_used := 2\<rparr>)"
      "bb_sink b1" "bb_content b1 = be_bytes 2 a"
    using frame_write_sink [OF s0(1) e(1)] s0(2) by (auto simp: blank_frame_def)
  let ?f1 = "?f0\<lparr>fr_buffer := b1, fr_used := 2\<rparr>"
  obtain b2 where b2: "frame_write tp ?f1 = (Inr (), ?f1\<lparr>fr_buffer := b2, fr_used := 3\<rparr>)"
      "bb_sink b2" "bb_content b2 = be_bytes 2 a @ be_bytes 1 t"
    using frame_write_sink [of ?f1, OF _ e(2)] b1 by auto
  let ?f2 = "?f1\<lparr>fr_buffer := b2, fr_used := 3\<rparr>"
  obtain b3 where b3: "frame_write sp ?f2 = (Inr (), ?f2\<lparr>fr_buffer := b3, fr_used := 11\<rparr>)"
      "bb_sink b3" "bb_content b3 = be_bytes 2 a @ be_bytes 1 t @ be_bytes 8 s"
    using frame_write_sink [of ?f2, OF _ e(3)] b2 by auto
  let ?f3 = "?f2\<lparr>fr_buffer := b3, fr_used := 11, fr_count_position := 11\<rparr>"
  have pos: "get_pos b3 = 11" using bb_sink_pos [OF b3(2)] b3(3) by (simp add: get_pos_def)
  obtain b4 where b4: "frame_write ?cp ?f3 = (Inr (), ?f3\<lparr>fr_buffer := b4, fr_used := 15\<rparr>)"
      "bb_sink b4" "bb_content b4 = frame_header a t s 0"
    using frame_write_sink [of ?f3, OF _ e(4)] b3 by (auto simp: frame_header_def)
  have cp: "fr_count_primitive ?f0 = ?cp" "fr_mtu ?f0 = mtu" by (simp_all add: blank_frame_def)
  have "frame_setup ip tp sp use_crc ?f0 =
    (if 15 + (if use_crc then 4 else 0) < mtu then Inr () else Inl AssertionError,
     ?f0\<lparr>fr_buffer := b4, fr_used := 15 + (if use_crc then 4 else 0), fr_count_position := 11,
        fr_crc := (if use_crc then Some (new_type_primitive UINT32 False) else None),
        fr_overhead := 15 + (if use_crc then 4 else 0)\<rparr>)"
    using b1(1) b2(1) b3(1) b4(1) pos cp
    by (cases use_crc) (simp_all add: frame_setup_def bindp_def space_def add_used_def tp_size_def
        new_type_primitive_def assertp_def blank_frame_def)
  with b4(2,3) show ?thesis by blast
qed

lemma new_frame_open:
  assumes "holds_uint UINT16 a ip" and "holds_uint UINT8 t tp" and "holds_uint UINT64 s sp"
    and "header_ok a t s" and "15 + (if use_crc then 4 else 0) < mtu"
  obtains f where "new_frame_object cls mtu ip tp sp use_crc = Inr f"
    and "frame_open f a t s [] []" and "fr_class f = cls" and "fr_mtu f = mtu"
    and "fr_count_value f = 0" and "\<not> fr_initialized f"
    and "(fr_crc f \<noteq> None) = use_crc"
proof -
  let ?f0 = "blank_frame cls mtu (new_type_primitive UINT16 False) (new_type_primitive UINT32 False)"
  obtain b where b: "frame_setup ip tp sp use_crc ?f0 = (Inr (), ?f0
       \<lparr>fr_buffer := b, fr_used := 15 + (if use_crc then 4 else 0), fr_count_position := 11,
        fr_crc := (if use_crc then Some (new_type_primitive UINT32 False) else None),
        fr_overhead := 15 + (if use_crc then 4 else 0)\<rparr>)" (is "_ = (_, ?f)")
      "bb_sink b" "bb_content b = frame_header a t s 0"
    using frame_setup_writes [OF assms(1-4), of use_crc cls mtu] assms(5) by auto
  have "0 \<le> mtu" using assms(5) by (simp split: if_splits)
  then have "new_frame_object cls mtu ip tp sp use_crc = Inr ?f"
    using b(1) by (simp add: new_frame_object_def)
  moreover have "frame_open ?f a t s [] []"
    using b(2,3) assms(5) bb_sink_new
    by (simp add: frame_open_def blank_frame_def crc_len_def new_type_primitive_def bb_content_def)
  ultimately show thesis using that [of ?f] by (simp add: blank_frame_def)
qed

text \<open>A maximum size that leaves no room for an element is refused.\<close>

lemma new_frame_too_small:
  assumes "holds_uint UINT16 a ip" and "holds_uint UINT8 t tp" and "holds_uint UINT64 s sp"
    and "header_ok a t s" and "0 \<le> mtu" and "mtu \<le> 15 + (if use_crc then 4 else 0)"
  shows "new_frame_object cls mtu ip tp sp use_crc = Inl AssertionError"
  using frame_setup_writes [OF assms(1-4), of use_crc cls mtu] assms(5,6)
  by (auto simp: new_frame_object_def)

section \<open>Finalization\<close>

lemma accepts_uint:
  "accepts UINT8 (VInt n) \<longleftrightarrow> 0 \<le> n \<and> n < 2 ^ 8"
  "accepts UINT16 (VInt n) \<longleftrightarrow> 0 \<le> n \<and> n < 2 ^ 16"
  "accepts UINT32 (VInt n) \<longleftrightarrow> 0 \<le> n \<and> n < 2 ^ 32"
  "accepts UINT64 (VInt n) \<longleftrightarrow> 0 \<le> n \<and> n < 2 ^ 64"
  by (auto simp: accepts_def py_validate_def prim_validate_def integer_can_hold_def
      int_primitive_def integer_bounds_def)

lemma tp_set_uint:
  assumes "accepts (tp_type tp) (VInt n)"
  shows "\<exists>c. tp_set (VInt n) None tp = (True, tp\<lparr>tp_data := VInt n, tp_last_set := 0\<rparr>, c)"
proof -
  have "convert ty (VInt n) = VInt n" for ty by (cases ty) simp_all
  with assms show ?thesis by (simp add: tp_set_run del: prim_type_simps)
qed

text \<open>A buffer whose backing bytes are exactly its content.\<close>

definition bb_tight :: "byte_buffer \<Rightarrow> bool" where
  "bb_tight b \<longleftrightarrow> int (length (bb_data b)) = bb_size b"

lemma bb_tight_content: "bb_tight b \<Longrightarrow> bb_content b = bb_data b"
  by (auto simp: bb_tight_def bb_content_def)

lemma bb_write_tight:
  assumes "bb_sink b" and "bb_tight b" and "net_pack p v = Inr bs"
  shows "\<exists>b'. bb_write p v b = (Inr (get_size p), b') \<and> bb_sink b' \<and> bb_tight b' \<and>
    bb_content b' = bb_content b @ bs"
proof -
  have b: "bb_inv b" "bb_mutable b" "bb_pos b = bb_size b" "bb_order b = ''!''"
    using assms(1) by (simp_all add: bb_sink_def bb_at_end_def)
  have len: "int (length bs) = get_size p" using assms(3) by (rule codec.pack_width)
  have n: "nat (bb_pos b) = length (bb_data b)" using assms(2) b(3) by (simp add: bb_tight_def)
  obtain b' where b': "bb_write p v b = (Inr (get_size p), b')" "bb_sink b'"
      "bb_content b' = bb_content b @ bs"
    using sink.wr_ok [OF assms(1,3)] by auto
  have "length (bb_data b') = length (bb_data b) + length bs"
      "bb_size b' = max (bb_size b) (bb_pos b + get_size p)"
    using bb_write_run [OF b(2,1)] assms(3) b(4) b'(1) n by auto
  then have "bb_tight b'" using assms(2) len b(3) by (simp add: bb_tight_def)
  with b' show ?thesis by blast
qed

lemma crc32_content:
  assumes "bb_inv b"
  shows "crc32 0 b = uint (zlib_crc32 (bb_content b) 0)"
  using assms by (simp add: crc32_def crc_def py_slice_from0 bb_inv_def bb_content_def)

lemma write_count_run:
  assumes "frame_open f a t s body elems" and "fr_count_value f = n" and "0 \<le> n" and "n < 2 ^ 32"
  obtains b cp where "write_count f = (Inr (), f\<lparr>fr_count_primitive := cp, fr_buffer := b\<rparr>)"
    and "bb_sink b" and "bb_content b = frame_header a t s n @ body"
    and "bb_tight b = bb_tight (fr_buffer f)" and "tp_type cp = UINT32"
proof -
  let ?b = "fr_buffer f"
  let ?cp = "(fr_count_primitive f)\<lparr>tp_data := VInt n, tp_last_set := 0\<rparr>"
  have f: "bb_inv ?b" "bb_mutable ?b" "bb_pos ?b = bb_size ?b" "bb_order ?b = ''!''"
      "bb_content ?b = frame_header a t s 0 @ body" "tp_type (fr_count_primitive f) = UINT32"
      "fr_count_position f = 11"
    using assms(1) by (simp_all add: frame_open_def bb_sink_def bb_at_end_def)
  obtain c where c: "tp_set (VInt n) None (fr_count_primitive f) = (True, ?cp, c)"
    using tp_set_uint [of "fr_count_primitive f" n] f(6) assms(3,4) by (auto simp: accepts_uint)
  have e: "prim_pack (bb_order ?b) UINT32 (VInt n) = Inr (be_bytes 4 n)"
    using net_pack_uint(3) [OF assms(3,4)] f(4) by simp
  have "length (bb_content ?b) = 15 + length body" using f(5) by simp
  then have sz: "15 \<le> bb_size ?b" using f(1) by (simp add: bb_inv_def)
  let ?d = "overwrite (bb_data ?b) 11 (be_bytes 4 n)"
  have "tp_write (Some 11) ?cp ?b = (Inr 4, ?b\<lparr>bb_data := ?d\<rparr>)"
    using bb_write_back [OF f(2,1) e, of 11] sz f(6) by (simp add: tp_write_def)
  then have run: "write_count f =
      (Inr (), f\<lparr>fr_count_primitive := ?cp, fr_buffer := ?b\<lparr>bb_data := ?d\<rparr>\<rparr>)"
    using c f(7) assms(2) by (simp add: write_count_def bindp_def zoom_def)
  have len: "length ?d = length (bb_data ?b)"
    using f(1) sz by (intro length_overwrite) (auto simp: bb_inv_def)
  have "bb_content (?b\<lparr>bb_data := ?d\<rparr>) = frame_header a t s n @ body"
    using bb_content_overwrite [OF f(1), of 11 "be_bytes 4 n"] sz f(5)
    by (simp add: frame_header_count)
  moreover have "bb_sink (?b\<lparr>bb_data := ?d\<rparr>)"
    using assms(1) len by (simp add: frame_open_def bb_sink_def bb_at_end_def bb_inv_def)
  moreover have "bb_tight (?b\<lparr>bb_data := ?d\<rparr>) = bb_tight ?b" using len by (simp add: bb_tight_def)
  ultimately show thesis using that [OF run] f(6) by simp
qed

lemma bb_append_sink:
  assumes "bb_sink b" and "bb_content b \<noteq> []" and "bb_inv e"
  obtains b' where "bb_append (bb_data e) (Some (bb_size e)) b = (Inr (bb_size e), b')"
    and "bb_sink b'" and "bb_tight b'" and "bb_content b' = bb_content b @ bb_content e"
proof -
  have b: "bb_at_end b" "bb_order b = ''!''" "bb_inv b"
    using assms(1) by (simp_all add: bb_sink_def bb_at_end_def)
  have ne: "bb_size b \<noteq> 0" using assms(2) by (auto simp: bb_content_def)
  have e: "0 \<le> bb_size e" "bb_size e \<le> int (length (bb_data e))"
    using assms(3) by (simp_all add: bb_inv_def)
  obtain b' where b': "bb_append (bb_data e) (Some (bb_size e)) b = (Inr (bb_size e), b')"
      "bb_at_end b'" "bb_content b' = bb_content b @ take (nat (bb_size e)) (bb_data e)"
      "bb_data b' = bb_content b'" "bb_order b' = bb_order b"
    by (rule bb_append_at_end [OF b(1) ne e])
  have "bb_inv b'" using b'(2) by (simp add: bb_at_end_def)
  then have "length (bb_content b') = nat (bb_size b')" and "0 \<le> bb_size b'"
    by (rule length_bb_content, simp add: bb_inv_def)
  then have "bb_tight b'" unfolding bb_tight_def b'(4) by simp
  with b' b(2) that show thesis by (simp add: bb_sink_def bb_content_def [of e])
qed

text \<open>The checksum a finished frame carries, for the bytes before it.\<close>

definition sealed :: "frame \<Rightarrow> bool \<Rightarrow> int \<Rightarrow> byte list \<Rightarrow> byte list" where
  "sealed f write_crc rnd p =
     (if fr_crc f = None then p
      else if write_crc then p @ be_bytes 4 (uint (zlib_crc32 p 0))
      else p @ be_bytes 4 (rnd mod 2 ^ 32))"

lemma random_uint32: "random_integer rnd UINT32 = Inr (rnd mod 2 ^ 32)"
  by (simp add: random_integer_def int_primitive_def integer_bounds_def Let_def)

lemma write_checksum_run:
  assumes "bb_sink (fr_buffer f)" and "bb_tight (fr_buffer f)"
    and "\<forall>c. fr_crc f = Some c \<longrightarrow> tp_type c = UINT32"
  obtains b crc' where "write_checksum w rnd f = (Inr (), f\<lparr>fr_crc := crc', fr_buffer := b\<rparr>)"
    and "bb_sink b" and "bb_tight b"
    and "bb_content b = sealed f w rnd (bb_content (fr_buffer f))"
proof (cases "fr_crc f")
  case None
  then have "write_checksum w rnd f = (Inr (), f\<lparr>fr_crc := fr_crc f, fr_buffer := fr_buffer f\<rparr>)"
    by (simp add: write_checksum_def bindp_def)
  with that [OF this assms(1,2)] None show thesis by (simp add: sealed_def)
next
  case (Some c)
  let ?b = "fr_buffer f"
  define v where "v = (if w then uint (zlib_crc32 (bb_content ?b) 0) else rnd mod 2 ^ 32)"
  have ty: "tp_type c = UINT32" using Some assms(3) by simp
  have inv: "bb_inv ?b" using assms(1) by (simp add: bb_sink_def bb_at_end_def)
  have v: "0 \<le> v" "v < 2 ^ 32"
    using uint_lt2p [of "zlib_crc32 (bb_content ?b) 0"] by (simp_all add: v_def)
  obtain u where u: "tp_set (VInt v) None c = (True, c\<lparr>tp_data := VInt v, tp_last_set := 0\<rparr>, u)"
    using tp_set_uint [of c v] v ty by (auto simp: accepts_uint)
  have pick: "(if w then Inr (crc32 0 ?b) else random_integer rnd (tp_type c)) = Inr v"
    by (simp add: v_def ty random_uint32 crc32_content [OF inv])
  obtain b' where b': "bb_write UINT32 (VInt v) ?b = (Inr 4, b')" "bb_sink b'" "bb_tight b'"
      "bb_content b' = bb_content ?b @ be_bytes 4 v"
    using bb_write_tight [OF assms(1,2) net_pack_uint(3) [OF v]] by auto
  have "write_checksum w rnd f =
      (Inr (), f\<lparr>fr_crc := Some (c\<lparr>tp_data := VInt v, tp_last_set := 0\<rparr>), fr_buffer := b'\<rparr>)"
    using Some pick u b'(1) ty
    by (simp add: write_checksum_def bindp_def zoom_def tp_write_def cong: if_cong)
  with that [OF this b'(2,3)] b'(4) Some show thesis by (simp add: sealed_def v_def)
qed

text \<open>Sealing a frame once its body is complete.\<close>

lemma seal_run:
  assumes "bb_sink (fr_buffer f)" and "bb_tight (fr_buffer f)"
    and "\<forall>c. fr_crc f = Some c \<longrightarrow> tp_type c = UINT32"
    and "int (length (bb_content (fr_buffer f))) + crc_len f = fr_used f"
  obtains f' where "seal w rnd f = (Inr (fr_used f), f')"
    and "fr_finalized f'" and "fr_used f' = fr_used f" and "fr_mtu f' = fr_mtu f"
    and "bb_data (fr_buffer f') = sealed f w rnd (bb_content (fr_buffer f))"
    and "bb_sink (fr_buffer f')" and "bb_tight (fr_buffer f')"
proof -
  obtain b crc' where b: "write_checksum w rnd f = (Inr (), f\<lparr>fr_crc := crc', fr_buffer := b\<rparr>)"
      "bb_sink b" "bb_tight b" "bb_content b = sealed f w rnd (bb_content (fr_buffer f))"
    using write_checksum_run [OF assms(1-3)] by metis
  have d: "bb_data b = bb_content b" using bb_tight_content [OF b(3)] by simp
  have "bb_size b = int (length (bb_content b))" using b(3) d by (simp add: bb_tight_def)
  also have "\<dots> = fr_used f"
    using b(4) assms(4) by (simp add: sealed_def crc_len_def split: option.splits)
  finally have sz: "bb_size b = fr_used f" .
  show thesis
    by (rule that [of "f\<lparr>fr_crc := crc', fr_buffer := b, fr_finalized := True\<rparr>"])
      (use b d sz in \<open>simp_all add: seal_def bindp_def\<close>)
qed

lemma finalize_channel_frame:
  assumes "frame_open f a t s body elems" and "fr_class f = ChannelFrame"
    and "fr_count_value f = n" and "0 \<le> n" and "n < 2 ^ 32"
  obtains f' where "finalize w rnd f = (Inr (fr_used f), f')" and "fr_finalized f'"
    and "fr_used f' = fr_used f" and "fr_mtu f' = fr_mtu f"
    and "bb_data (fr_buffer f') = sealed f w rnd (frame_header a t s n @ body @ elems)"
    and "bb_sink (fr_buffer f')" and "bb_tight (fr_buffer f')"
proof -
  obtain b1 cp where b1: "write_count f = (Inr (), f\<lparr>fr_count_primitive := cp, fr_buffer := b1\<rparr>)"
      "bb_sink b1" "bb_content b1 = frame_header a t s n @ body"
    using write_count_run [OF assms(1,3-5)] by metis
  have e: "bb_inv (fr_elem_buffer f)" "bb_content (fr_elem_buffer f) = elems"
    using assms(1) by (simp_all add: frame_open_def bb_sink_def bb_at_end_def)
  have "length (bb_content b1) \<noteq> 0" using b1(3) by simp
  then have ne: "bb_content b1 \<noteq> []" by auto
  obtain b2 where b2: "bb_append (bb_data (fr_elem_buffer f)) (Some (bb_size (fr_elem_buffer f))) b1 =
        (Inr (bb_size (fr_elem_buffer f)), b2)" "bb_sink b2" "bb_tight b2"
      "bb_content b2 = frame_header a t s n @ body @ elems"
    using bb_append_sink [OF b1(2) ne e(1)] b1(3) e(2) by auto
  let ?f2 = "f\<lparr>fr_count_primitive := cp, fr_buffer := b2, fr_initialized := True\<rparr>"
  have hook: "finalize_hook (f\<lparr>fr_count_primitive := cp, fr_buffer := b1\<rparr>) = (Inr (), ?f2)"
    using b2(1) assms(2) by (simp add: finalize_hook_def bindp_def zoom_def)
  have s2: "bb_sink (fr_buffer ?f2)" and t2: "bb_tight (fr_buffer ?f2)" using b2(2,3) by simp_all
  have l2: "int (length (bb_content (fr_buffer ?f2))) + crc_len ?f2 = fr_used ?f2"
    using assms(1) b2(4) by (simp add: frame_open_def crc_len_def)
  have c2: "\<forall>c. fr_crc ?f2 = Some c \<longrightarrow> tp_type c = UINT32"
    using assms(1) by (simp add: frame_open_def)
  obtain f' where f': "seal w rnd ?f2 = (Inr (fr_used ?f2), f')"
      "fr_finalized f'" "fr_used f' = fr_used ?f2" "fr_mtu f' = fr_mtu ?f2"
      "bb_data (fr_buffer f') = sealed ?f2 w rnd (bb_content (fr_buffer ?f2))"
      "bb_sink (fr_buffer f')" "bb_tight (fr_buffer f')"
    using seal_run [OF s2 t2 c2 l2, of w rnd] by blast
  have "\<not> fr_finalized f" using assms(1) by (simp add: frame_open_def)
  then have "finalize w rnd f = (Inr (fr_used f), f')"
    using b1(1) hook f'(1) by (simp add: finalize_def)
  with that f' b2(4) show thesis by (simp add: sealed_def)
qed

text \<open>A frame that was never initialized cannot be finalized.\<close>

lemma finalize_uninitialized:
  assumes "frame_open f a t s body elems" and "fr_class f \<noteq> ChannelFrame" and "\<not> fr_initialized f"
    and "fr_count_value f = n" and "0 \<le> n" and "n < 2 ^ 32"
  shows "fst (finalize w rnd f) = Inl AssertionError"
proof -
  obtain b1 cp where b1: "write_count f = (Inr (), f\<lparr>fr_count_primitive := cp, fr_buffer := b1\<rparr>)"
    using write_count_run [OF assms(1,4-6)] by metis
  have "\<not> fr_finalized f" using assms(1) by (simp add: frame_open_def)
  with b1 assms(2,3) show ?thesis
    by (simp add: finalize_def finalize_hook_def bindp_def)
qed

lemma finalize_message_frame:
  assumes "frame_open f a t s body []" and "fr_class f = MessageFrame" and "fr_initialized f"
    and "bb_tight (fr_buffer f)"
    and "fr_count_value f = n" and "0 \<le> n" and "n < 2 ^ 32"
  obtains f' where "finalize w rnd f = (Inr (fr_used f), f')" and "fr_finalized f'"
    and "fr_used f' = fr_used f" and "fr_mtu f' = fr_mtu f"
    and "bb_data (fr_buffer f') = sealed f w rnd (frame_header a t s n @ body)"
proof -
  obtain b1 cp where b1: "write_count f = (Inr (), f\<lparr>fr_count_primitive := cp, fr_buffer := b1\<rparr>)"
      "bb_sink b1" "bb_content b1 = frame_header a t s n @ body" "bb_tight b1"
    using write_count_run [OF assms(1,5-7)] assms(4) by metis
  let ?f2 = "f\<lparr>fr_count_primitive := cp, fr_buffer := b1\<rparr>"
  have s2: "bb_sink (fr_buffer ?f2)" and t2: "bb_tight (fr_buffer ?f2)" using b1(2,4) by simp_all
  have l2: "int (length (bb_content (fr_buffer ?f2))) + crc_len ?f2 = fr_used ?f2"
    using assms(1) b1(3) by (simp add: frame_open_def crc_len_def)
  have c2: "\<forall>c. fr_crc ?f2 = Some c \<longrightarrow> tp_type c = UINT32"
    using assms(1) by (simp add: frame_open_def)
  obtain f' where f': "seal w rnd ?f2 = (Inr (fr_used ?f2), f')"
      "fr_finalized f'" "fr_used f' = fr_used ?f2" "fr_mtu f' = fr_mtu ?f2"
      "bb_data (fr_buffer f') = sealed ?f2 w rnd (bb_content (fr_buffer ?f2))"
    using seal_run [OF s2 t2 c2 l2, of w rnd] by blast
  have "\<not> fr_finalized f" using assms(1) by (simp add: frame_open_def)
  then have "finalize w rnd f = (Inr (fr_used f), f')"
    using b1(1) assms(2,3) f'(1) by (simp add: finalize_def finalize_hook_def bindp_Inr)
  with that f' b1(3) show thesis by (simp add: sealed_def)
qed

end
