(* ===== verification/Frame_Content.thy ===== *)
theory Frame_Content
  imports Frame_Layout
begin

text \<open>
  Filling frames: what adding a channel value, an event or a message fragment does to the bytes
  of an open frame.
\<close>

section \<open>Elements\<close>

lemma elem_write_sink:
  assumes "bb_sink (fr_elem_buffer f)" and "net_pack p v = Inr bs"
  shows "\<exists>b. bindp (in_elems (bb_write p v)) add_used f =
      (Inr (), f\<lparr>fr_elem_buffer := b, fr_used := fr_used f + int (length bs)\<rparr>) \<and>
    bb_sink b \<and> bb_content b = bb_content (fr_elem_buffer f) @ bs"
proof -
  have "int (length bs) = get_size p" using codec.pack_width [OF assms(2)] .
  then show ?thesis
    using sink.wr_ok [OF assms] by (auto simp: add_used_def)
qed

text \<open>The channel identifier goes into the frame's own buffer.\<close>

lemma id_write_run:
  assumes "frame_open f a t s body elems" and "0 \<le> i" and "i < 2 ^ 16"
  obtains ip c b where "tp_set (VInt i) None (fr_id_primitive f) = (True, ip, c)"
    and "frame_write ip (f\<lparr>fr_id_primitive := ip\<rparr>) =
      (Inr (), f\<lparr>fr_id_primitive := ip, fr_buffer := b, fr_used := fr_used f + 2\<rparr>)"
    and "bb_sink b" and "bb_content b = frame_header a t s 0 @ body @ be_bytes 2 i"
    and "tp_type ip = UINT16"
proof -
  let ?ip = "(fr_id_primitive f)\<lparr>tp_data := VInt i, tp_last_set := 0\<rparr>"
  have f: "tp_type (fr_id_primitive f) = UINT16" "bb_sink (fr_buffer f)"
      "bb_content (fr_buffer f) = frame_header a t s 0 @ body"
    using assms(1) by (simp_all add: frame_open_def)
  obtain c where c: "tp_set (VInt i) None (fr_id_primitive f) = (True, ?ip, c)"
    using tp_set_uint [of "fr_id_primitive f" i] f(1) assms(2,3) by (auto simp: accepts_uint)
  have e: "net_pack (tp_type ?ip) (tp_data ?ip) = Inr (be_bytes 2 i)"
    using f(1) net_pack_uint(2) [OF assms(2,3)] by simp
  obtain b where b: "frame_write ?ip (f\<lparr>fr_id_primitive := ?ip\<rparr>) =
      (Inr (), f\<lparr>fr_id_primitive := ?ip, fr_buffer := b, fr_used := fr_used f + 2\<rparr>)"
      "bb_sink b" "bb_content b = bb_content (fr_buffer f) @ be_bytes 2 i"
    using frame_write_sink [of "f\<lparr>fr_id_primitive := ?ip\<rparr>", OF _ e] f(2) by auto
  show thesis
    by (rule that [OF c b(1,2)]) (use b(3) f in simp_all)
qed

lemma frame_open_id_size: "frame_open f a t s body elems \<Longrightarrow> tp_size (fr_id_primitive f) = 2"
  by (simp add: frame_open_def tp_size_def)

lemma frame_add_run:
  assumes "frame_open f a t s body elems" and "0 \<le> i" and "i < 2 ^ 16"
    and "net_pack ty v = Inr vs" and "fr_used f + 2 + get_size ty \<le> fr_mtu f"
  obtains f' where "frame_add i ty v f = (Inr True, f')"
    and "frame_open f' a t s (body @ be_bytes 2 i) (elems @ vs)"
    and "fr_count_value f' = fr_count_value f + 1" and "fr_class f' = fr_class f"
    and "fr_mtu f' = fr_mtu f" and "fr_crc f' = fr_crc f"
    and "fr_used f' = fr_used f + 2 + get_size ty"
proof -
  obtain ip c b where ip: "tp_set (VInt i) None (fr_id_primitive f) = (True, ip, c)"
      "frame_write ip (f\<lparr>fr_id_primitive := ip\<rparr>) =
        (Inr (), f\<lparr>fr_id_primitive := ip, fr_buffer := b, fr_used := fr_used f + 2\<rparr>)"
      "bb_sink b" "bb_content b = frame_header a t s 0 @ body @ be_bytes 2 i" "tp_type ip = UINT16"
    by (rule id_write_run [OF assms(1-3)])
  let ?f1 = "f\<lparr>fr_id_primitive := ip, fr_buffer := b, fr_used := fr_used f + 2\<rparr>"
  have len: "int (length vs) = get_size ty" using codec.pack_width [OF assms(4)] .
  have e0: "bb_sink (fr_elem_buffer f)" "bb_content (fr_elem_buffer f) = elems"
    using assms(1) by (simp_all add: frame_open_def)
  obtain eb where eb: "bindp (in_elems (bb_write ty v)) add_used ?f1 =
      (Inr (), ?f1\<lparr>fr_elem_buffer := eb, fr_used := fr_used f + 2 + get_size ty\<rparr>)"
      "bb_sink eb" "bb_content eb = elems @ vs"
    using elem_write_sink [of ?f1, OF _ assms(4)] e0 len by auto
  let ?f' = "?f1\<lparr>fr_elem_buffer := eb, fr_used := fr_used f + 2 + get_size ty,
    fr_count_value := fr_count_value f + 1\<rparr>"
  have notfull: "\<not> (fr_mtu f < fr_used f + (tp_size (fr_id_primitive f) + get_size ty) \<or> fr_finalized f)"
    using assms(1,5) frame_open_id_size [OF assms(1)] by (simp add: frame_open_def)
  have "frame_add i ty v f = (Inr True, ?f')"
    using notfull ip(1,2) eb(1)
    by (simp add: frame_add_def bindp_Inr [where m = "bindp _ add_used"] increment_count_def)
  moreover have "frame_open ?f' a t s (body @ be_bytes 2 i) (elems @ vs)"
    using assms(1,5) ip(3-5) eb(2,3) len by (simp add: frame_open_def crc_len_def)
  ultimately show thesis using that [of ?f'] by simp
qed

section \<open>Events\<close>

text \<open>The bytes of a value at a time, as an event carries it.\<close>

definition timed_image :: "primitive \<Rightarrow> timed_value \<Rightarrow> byte list \<Rightarrow> bool" where
  "timed_image ty tv bs \<longleftrightarrow>
     (\<exists>n vs. accepts ty (fst tv) \<and>
        net_pack ty (convert (py_type_of (prim_value ty)) (fst tv)) = Inr vs \<and>
        time_to_int (snd tv) 1000 = Inr n \<and> 0 \<le> n \<and> n < 2 ^ 64 \<and> bs = vs @ be_bytes 8 n)"

lemma timed_image_length: "timed_image ty tv bs \<Longrightarrow> int (length bs) = get_size ty + 8"
  using codec.pack_width by (auto simp: timed_image_def)

lemma set_and_write_run:
  assumes "bb_sink (fr_elem_buffer f)" and "accepts (tp_type prim) v"
    and "net_pack (tp_type prim) (convert (py_type_of (prim_value (tp_type prim))) v) = Inr bs"
  shows "\<exists>b prim'. set_and_write prim v f =
      (Inr prim', f\<lparr>fr_elem_buffer := b, fr_used := fr_used f + int (length bs)\<rparr>) \<and>
    bb_sink b \<and> bb_content b = bb_content (fr_elem_buffer f) @ bs \<and> tp_type prim' = tp_type prim"
proof -
  let ?u = "convert (py_type_of (prim_value (tp_type prim))) v"
  let ?p = "prim\<lparr>tp_data := ?u, tp_last_set := 0\<rparr>"
  obtain c where c: "tp_set v None prim = (True, ?p, c)"
    using assms(2) by (simp add: tp_set_run del: prim_type_simps)
  obtain b where b: "bindp (in_elems (bb_write (tp_type prim) ?u)) add_used f =
      (Inr (), f\<lparr>fr_elem_buffer := b, fr_used := fr_used f + int (length bs)\<rparr>)"
      "bb_sink b" "bb_content b = bb_content (fr_elem_buffer f) @ bs"
    using elem_write_sink [OF assms(1,3)] by auto
  have w: "tp_write None ?p = bb_write (tp_type prim) ?u" by (simp add: tp_write_def)
  have "set_and_write prim v f =
      (Inr ?p, f\<lparr>fr_elem_buffer := b, fr_used := fr_used f + int (length bs)\<rparr>)"
    unfolding set_and_write_def c prod.case w
    using b(1) by (simp add: bindp_Inr [where m = "bindp _ add_used"])
  with b show ?thesis by auto
qed

lemma write_timed_run:
  assumes "bb_sink (fr_elem_buffer f)" and "timed_image ty tv bs"
    and "tp_type dp = ty" and "tp_type tp = UINT64"
  shows "\<exists>b dp' tp'. write_timed dp tp tv f =
      (Inr (dp', tp'), f\<lparr>fr_elem_buffer := b, fr_used := fr_used f + int (length bs)\<rparr>) \<and>
    bb_sink b \<and> bb_content b = bb_content (fr_elem_buffer f) @ bs \<and>
    tp_type dp' = ty \<and> tp_type tp' = UINT64"
proof -
  from assms(2) obtain n vs where tv: "accepts ty (fst tv)"
      "net_pack ty (convert (py_type_of (prim_value ty)) (fst tv)) = Inr vs"
      "time_to_int (snd tv) 1000 = Inr n" "0 \<le> n" "n < 2 ^ 64" "bs = vs @ be_bytes 8 n"
    by (auto simp: timed_image_def)
  obtain b1 dp' where b1: "set_and_write dp (fst tv) f =
      (Inr dp', f\<lparr>fr_elem_buffer := b1, fr_used := fr_used f + int (length vs)\<rparr>)"
      "bb_sink b1" "bb_content b1 = bb_content (fr_elem_buffer f) @ vs" "tp_type dp' = ty"
    using set_and_write_run [OF assms(1), of dp "fst tv" vs] tv(1,2) assms(3) by auto
  let ?f1 = "f\<lparr>fr_elem_buffer := b1, fr_used := fr_used f + int (length vs)\<rparr>"
  have a: "accepts (tp_type tp) (VInt n)" using tv(4,5) assms(4) by (simp add: accepts_uint)
  have "convert (py_type_of (prim_value (tp_type tp))) (VInt n) = VInt n"
    by (cases "py_type_of (prim_value (tp_type tp))") simp_all
  then have e: "net_pack (tp_type tp) (convert (py_type_of (prim_value (tp_type tp))) (VInt n)) =
      Inr (be_bytes 8 n)"
    using net_pack_uint(4) [OF tv(4,5)] assms(4) by metis
  obtain b2 tp' where b2: "set_and_write tp (VInt n) ?f1 =
      (Inr tp', ?f1\<lparr>fr_elem_buffer := b2, fr_used := fr_used f + int (length vs) + 8\<rparr>)"
      "bb_sink b2" "bb_content b2 = bb_content (fr_elem_buffer f) @ vs @ be_bytes 8 n"
      "tp_type tp' = UINT64"
    using set_and_write_run [of ?f1, OF _ a e] b1(2,3) assms(4) by auto
  have "write_timed dp tp tv f =
      (Inr (dp', tp'), f\<lparr>fr_elem_buffer := b2, fr_used := fr_used f + int (length bs)\<rparr>)"
    using b1(1) b2(1) tv(3,6) by (simp add: write_timed_def)
  with b1(4) b2 tv(6) show ?thesis by auto
qed

lemma add_event_run:
  assumes "frame_open f a t s body elems" and "0 \<le> i" and "i < 2 ^ 16"
    and "timed_image ty prev ps" and "timed_image ty cur cs"
    and "fr_used f + 2 + 2 * get_size ty + 16 \<le> fr_mtu f"
  obtains f' where "add_event i ty prev cur f = (Inr True, f')"
    and "frame_open f' a t s (body @ be_bytes 2 i) (elems @ ps @ cs)"
    and "fr_count_value f' = fr_count_value f + 1" and "fr_class f' = fr_class f"
    and "fr_mtu f' = fr_mtu f" and "fr_crc f' = fr_crc f"
    and "fr_used f' = fr_used f + 2 + 2 * get_size ty + 16"
proof -
  obtain ip c b where ip: "tp_set (VInt i) None (fr_id_primitive f) = (True, ip, c)"
      "frame_write ip (f\<lparr>fr_id_primitive := ip\<rparr>) =
        (Inr (), f\<lparr>fr_id_primitive := ip, fr_buffer := b, fr_used := fr_used f + 2\<rparr>)"
      "bb_sink b" "bb_content b = frame_header a t s 0 @ body @ be_bytes 2 i" "tp_type ip = UINT16"
    by (rule id_write_run [OF assms(1-3)])
  let ?f1 = "f\<lparr>fr_id_primitive := ip, fr_buffer := b, fr_used := fr_used f + 2\<rparr>"
  let ?dp = "new_type_primitive ty False" and ?tp = "new_type_primitive UINT64 False"
  have ty: "tp_type ?dp = ty" "tp_type ?tp = UINT64" by (simp_all add: new_type_primitive_def)
  have e0: "bb_sink (fr_elem_buffer f)" "bb_content (fr_elem_buffer f) = elems"
    using assms(1) by (simp_all add: frame_open_def)
  note len = timed_image_length [OF assms(4)] timed_image_length [OF assms(5)]
  obtain e1 dp1 tp1 where e1: "write_timed ?dp ?tp prev ?f1 =
      (Inr (dp1, tp1), ?f1\<lparr>fr_elem_buffer := e1, fr_used := fr_used f + 2 + int (length ps)\<rparr>)"
      "bb_sink e1" "bb_content e1 = elems @ ps" "tp_type dp1 = ty" "tp_type tp1 = UINT64"
    using write_timed_run [of ?f1, OF _ assms(4) ty] e0 by auto
  let ?f2 = "?f1\<lparr>fr_elem_buffer := e1, fr_used := fr_used f + 2 + int (length ps)\<rparr>"
  obtain e2 dp2 tp2 where e2: "write_timed dp1 tp1 cur ?f2 = (Inr (dp2, tp2),
      ?f2\<lparr>fr_elem_buffer := e2, fr_used := fr_used f + 2 + int (length ps) + int (length cs)\<rparr>)"
      "bb_sink e2" "bb_content e2 = elems @ ps @ cs"
    using write_timed_run [of ?f2, OF _ assms(5) e1(4,5)] e1(2,3) by auto
  let ?f' = "?f2\<lparr>fr_elem_buffer := e2, fr_used := fr_used f + 2 + 2 * get_size ty + 16,
    fr_count_value := fr_count_value f + 1\<rparr>"
  have notfull: "\<not> (fr_mtu f < fr_used f + (tp_size (fr_id_primitive f) + 2 * get_size ty +
      2 * get_size UINT64) \<or> fr_finalized f)"
    using assms(1,6) frame_open_id_size [OF assms(1)] by (simp add: frame_open_def)
  have "add_event i ty prev cur f = (Inr True, ?f')"
    using notfull ip(1,2) e1(1) e2(1) len
    by (simp add: add_event_def increment_count_def)
  moreover have "frame_open ?f' a t s (body @ be_bytes 2 i) (elems @ ps @ cs)"
    using assms(1,6) ip(3-5) e2(2,3) len by (simp add: frame_open_def crc_len_def)
  ultimately show thesis using that [of ?f'] by simp
qed

section \<open>Messages\<close>

lemma write_fields_run:
  assumes "bb_sink (fr_buffer f)"
    and "list_all2 (\<lambda>(n, p) bs. \<exists>tp. dict_get fd n = Some tp \<and> tp_type tp = p \<and>
      net_pack p (tp_data tp) = Inr bs) flds bss"
  shows "\<exists>b. for_each (write_field fd) flds f =
      (Inr (), f\<lparr>fr_buffer := b, fr_used := fr_used f + int (length (concat bss))\<rparr>) \<and>
    bb_sink b \<and> bb_content b = bb_content (fr_buffer f) @ concat bss"
  using assms(2,1)
proof (induction flds bss arbitrary: f rule: list_all2_induct)
  case Nil
  then show ?case by (intro exI [of _ "fr_buffer f"]) simp
next
  case (Cons x flds bs bss)
  obtain n p where x: "x = (n, p)" by (cases x)
  with Cons.hyps(1) obtain tp where tp: "dict_get fd n = Some tp" "tp_type tp = p"
      "net_pack (tp_type tp) (tp_data tp) = Inr bs" by auto
  obtain b where b: "frame_write tp f =
      (Inr (), f\<lparr>fr_buffer := b, fr_used := fr_used f + int (length bs)\<rparr>)"
      "bb_sink b" "bb_content b = bb_content (fr_buffer f) @ bs"
    using frame_write_sink [OF Cons.prems tp(3)] by auto
  let ?f1 = "f\<lparr>fr_buffer := b, fr_used := fr_used f + int (length bs)\<rparr>"
  have "write_field fd x f = (Inr (), ?f1)"
    using x tp(1,2) b(1) by (simp add: write_field_def)
  with Cons.IH [of ?f1] b(2,3) show ?case by (auto simp: add.assoc)
qed

definition message_header :: "int \<Rightarrow> int \<Rightarrow> int \<Rightarrow> int \<Rightarrow> int \<Rightarrow> byte list" where
  "message_header ty num c idx tot =
     be_bytes 1 ty @ be_bytes 2 num @ be_bytes 4 c @ be_bytes 2 idx @ be_bytes 2 tot"

lemma length_message_header [simp]: "length (message_header ty num c idx tot) = 11"
  by (simp add: message_header_def)

text \<open>The field primitives hold these five numbers.\<close>

definition fields_hold :: "field_data \<Rightarrow> int \<Rightarrow> int \<Rightarrow> int \<Rightarrow> int \<Rightarrow> int \<Rightarrow> bool" where
  "fields_hold fd ty num c idx tot \<longleftrightarrow>
     (\<exists>p. dict_get fd ''message_type'' = Some p \<and> holds_uint UINT8 ty p) \<and>
     (\<exists>p. dict_get fd ''message_number'' = Some p \<and> holds_uint UINT16 num p) \<and>
     (\<exists>p. dict_get fd ''message_crc'' = Some p \<and> holds_uint UINT32 c p) \<and>
     (\<exists>p. dict_get fd ''fragment_index'' = Some p \<and> holds_uint UINT16 idx p) \<and>
     (\<exists>p. dict_get fd ''total_fragments'' = Some p \<and> holds_uint UINT16 tot p)"

definition fields_ok :: "int \<Rightarrow> int \<Rightarrow> int \<Rightarrow> int \<Rightarrow> int \<Rightarrow> bool" where
  "fields_ok ty num c idx tot \<longleftrightarrow> 0 \<le> ty \<and> ty < 2 ^ 8 \<and> 0 \<le> num \<and> num < 2 ^ 16 \<and>
     0 \<le> c \<and> c < 2 ^ 32 \<and> 0 \<le> idx \<and> idx < 2 ^ 16 \<and> 0 \<le> tot \<and> tot < 2 ^ 16"

lemma fields_pack:
  assumes "fields_hold fd ty num c idx tot" and "fields_ok ty num c idx tot"
  shows "list_all2 (\<lambda>(n, p) bs. \<exists>tp. dict_get fd n = Some tp \<and> tp_type tp = p \<and>
      net_pack p (tp_data tp) = Inr bs) MESSAGE_FIELDS
    [be_bytes 1 ty, be_bytes 2 num, be_bytes 4 c, be_bytes 2 idx, be_bytes 2 tot]"
  using assms unfolding fields_hold_def fields_ok_def MESSAGE_FIELDS_def holds_uint_def
  by (simp del: be_bytes.simps) (auto simp: net_pack_uint simp del: be_bytes.simps)

lemma initialize_run:
  assumes "frame_open f a t s [] []" and "\<not> fr_initialized f"
    and "fields_hold fd ty num c idx tot" and "fields_ok ty num c idx tot"
    and "frame_overhead f + int (length frag) \<le> fr_mtu f"
  obtains f' where "initialize fd frag f = (Inr (), f')"
    and "frame_open f' a t s (message_header ty num c idx tot @ frag) []"
    and "fr_count_value f' = fr_count_value f + int (length frag)" and "fr_initialized f'"
    and "fr_class f' = fr_class f" and "fr_mtu f' = fr_mtu f" and "fr_crc f' = fr_crc f"
    and "bb_tight (fr_buffer f')" and "fr_used f' = frame_overhead f + int (length frag)"
proof -
  let ?h = "message_header ty num c idx tot"
  have f: "bb_sink (fr_buffer f)" "bb_content (fr_buffer f) = frame_header a t s 0"
      "fr_used f = fr_overhead f"
    using assms(1) by (simp_all add: frame_open_def)
  have cat: "concat [be_bytes 1 ty, be_bytes 2 num, be_bytes 4 c, be_bytes 2 idx, be_bytes 2 tot] = ?h"
    by (simp add: message_header_def)
  obtain b1 where b1: "for_each (write_field fd) MESSAGE_FIELDS f =
      (Inr (), f\<lparr>fr_buffer := b1, fr_used := fr_used f + 11\<rparr>)"
      "bb_sink b1" "bb_content b1 = frame_header a t s 0 @ ?h"
    using write_fields_run [OF f(1) fields_pack [OF assms(3,4)]] f(2) unfolding cat by auto
  have e: "bb_inv (new_buffer frag True (int (length frag)) ''!'')" by (simp add: bb_inv_def)
  have "length (bb_content b1) \<noteq> 0" using b1(3) by simp
  then have ne: "bb_content b1 \<noteq> []" by auto
  obtain b2 where b2: "bb_append frag None b1 = (Inr (int (length frag)), b2)"
      "bb_sink b2" "bb_tight b2" "bb_content b2 = frame_header a t s 0 @ ?h @ frag"
    using bb_append_sink [OF b1(2) ne e] b1(3)
    by (auto simp: bb_append_None bb_content_def [of "\<lparr>bb_data = frag, bb_size = int (length frag), bb_pos = 0, bb_mutable = True,
           bb_order = ''!''\<rparr>"])
  have oh: "frame_overhead f = 11 + fr_overhead f"
    by (simp add: frame_overhead_def HEADER_SIZE_def MESSAGE_FIELDS_def int_primitive_def)
  let ?f' = "f\<lparr>fr_buffer := b2, fr_used := fr_used f + 11 + int (length frag),
    fr_count_value := fr_count_value f + int (length frag), fr_initialized := True\<rparr>"
  have "initialize fd frag f = (Inr (), ?f')"
    using assms(2) b1(1) b2(1)
    by (simp add: initialize_def add_used_def increment_count_def)
  moreover have "frame_open ?f' a t s (?h @ frag) []"
    using assms(1,5) b2 oh by (simp add: frame_open_def crc_len_def)
  ultimately show thesis using that [of ?f'] b2(3) oh f(3) by simp
qed

end
