(* ===== verification/Framer.thy ===== *)
theory Framer
  imports Frame_Content
begin

text \<open>
  Framers (\<open>vtelem/frame/framer.py\<close>): an application identifier, one primitive per frame type and
  one timestamp per frame type, from which new frames are made; and the dummy frames of a given
  size (also those of \<open>vtelem/channel/framer.py\<close>) with which the transport layers probe the
  maximum size. Random draws are arguments.
\<close>

section \<open>Framers\<close>

definition FRAME_CLASS_MAP :: "string \<Rightarrow> frame_class" where
  "FRAME_CLASS_MAP name =
     (case map_of [(''data'', ChannelFrame), (''event'', ChannelFrame), (''message'', MessageFrame)] name of
        Some c \<Rightarrow> c | None \<Rightarrow> PlainFrame)"

definition basis_to_int :: "pyfloat \<Rightarrow> py_error + int" where
  "basis_to_int basis =
     (let b = fabs basis;
          r = (if flt (fl 1) b then fdiv (fl 1) b else Inr b)
      in case r of
           Inl e \<Rightarrow> Inl e
         | Inr b' \<Rightarrow> int_of_float (fmul (fl (of_int (max_of (prim_value UINT16)))) b'))"

definition create_app_id :: "pyfloat option \<Rightarrow> int \<Rightarrow> py_error + type_primitive" where
  "create_app_id basis rnd =
     (case new_default ''id'' False of
        Inl e \<Rightarrow> Inl e
      | Inr result \<Rightarrow>
          (case (case basis of None \<Rightarrow> random_integer rnd UINT16 | Some b \<Rightarrow> basis_to_int b) of
             Inl e \<Rightarrow> Inl e
           | Inr new_id \<Rightarrow>
               (case tp_set (VInt new_id) None result of
                  (ok, result', _) \<Rightarrow> if ok then Inr result' else Inl AssertionError)))"

record framer =
  frm_mtu :: int
  frm_timestamps :: "(string, type_primitive) dict"
  frm_primitives :: "(string, type_primitive) dict"
  frm_use_crc :: bool

text \<open>The constructor's loop over the frame types, on the shared enumeration of them.\<close>

definition framer_entry :: "user_enum \<Rightarrow> string \<Rightarrow> (framer, unit) py" where
  "framer_entry frame_types name =
     bindp (lift_res (new_default ''timestamp'' False)) (\<lambda>ts.
     bindp (lift_res (fst (get_primitive name False frame_types))) (\<lambda>p.
     modify (\<lambda>fr. fr\<lparr>frm_timestamps := dict_set name ts (frm_timestamps fr),
                     frm_primitives := dict_set name p (frm_primitives fr)\<rparr>)))"

definition new_framer :: "int \<Rightarrow> pyfloat option \<Rightarrow> int \<Rightarrow> bool \<Rightarrow> py_error + framer" where
  "new_framer mtu app_id_basis rnd use_crc =
     (case FRAME_TYPES of
        Inl e \<Rightarrow> Inl e
      | Inr ft \<Rightarrow>
          fst (bindp (for_each (framer_entry ft) (ue_iter ft)) (\<lambda>_.
               bindp (lift_res (create_app_id app_id_basis rnd)) (\<lambda>p.
               bindp (modify (\<lambda>fr. fr\<lparr>frm_primitives := dict_set ''app_id'' p (frm_primitives fr)\<rparr>)) (\<lambda>_.
               gets id)))
             \<lparr>frm_mtu = mtu, frm_timestamps = [], frm_primitives = [], frm_use_crc = use_crc\<rparr>))"

text \<open>A new frame of a type; without a time the type's previous timestamp is used again.\<close>

definition set_timestamp :: "string \<Rightarrow> pyfloat option \<Rightarrow> (framer, type_primitive) py" where
  "set_timestamp frame_type time =
     bindp (gets (\<lambda>fr. dict_item (frm_timestamps fr) frame_type)) (\<lambda>r. bindp (lift_res r) (\<lambda>timestamp.
     case time of
       None \<Rightarrow> ret timestamp
     | Some t \<Rightarrow>
         bindp (lift_res (time_to_int t 1000)) (\<lambda>n.
         case tp_set (VInt n) None timestamp of
           (ok, timestamp', _) \<Rightarrow>
             bindp (assertp ok) (\<lambda>_.
             bindp (modify (\<lambda>fr. fr\<lparr>frm_timestamps :=
               dict_set frame_type timestamp' (frm_timestamps fr)\<rparr>)) (\<lambda>_. ret timestamp')))))"

definition new_frame :: "string \<Rightarrow> pyfloat option \<Rightarrow> (framer, frame) py" where
  "new_frame frame_type time =
     bindp (set_timestamp frame_type time) (\<lambda>timestamp.
     bindp (gets (\<lambda>fr. dict_item (frm_primitives fr) ''app_id'')) (\<lambda>r1. bindp (lift_res r1) (\<lambda>app_id.
     bindp (gets (\<lambda>fr. dict_item (frm_primitives fr) frame_type)) (\<lambda>r2. bindp (lift_res r2) (\<lambda>ty.
     bindp (gets (\<lambda>fr. new_frame_object (FRAME_CLASS_MAP frame_type) (frm_mtu fr) app_id ty timestamp
                         (frm_use_crc fr))) lift_res)))))"

section \<open>Dummy frames\<close>

definition finish_dummy :: "int \<Rightarrow> (frame, unit) py \<Rightarrow> bool \<Rightarrow> int \<Rightarrow> (frame, unit) py" where
  "finish_dummy overall_size frame_builder bad_crc rnd =
     bindp frame_builder (\<lambda>_.
     bindp (finalize (\<not> bad_crc) rnd) (\<lambda>_.
     bindp pad_to_mtu (\<lambda>_.
     bindp (finalize True rnd) (\<lambda>n. assertp (n = overall_size)))))"

definition build_dummy_frame :: "int \<Rightarrow> string \<Rightarrow> (frame, unit) py \<Rightarrow> pyfloat option \<Rightarrow> bool \<Rightarrow> int \<Rightarrow>
    py_error + frame" where
  "build_dummy_frame overall_size frame_type frame_builder app_id_basis bad_crc rnd =
     (case create_app_id app_id_basis rnd of
        Inl e \<Rightarrow> Inl e
      | Inr app_id \<Rightarrow>
         (case FRAME_TYPES of
            Inl e \<Rightarrow> Inl e
          | Inr ft \<Rightarrow>
             (case (fst (get_primitive frame_type False ft), new_default ''timestamp'' False) of
                (Inr ty, Inr ts) \<Rightarrow>
                  (case new_frame_object ChannelFrame overall_size app_id ty ts True of
                     Inl e \<Rightarrow> Inl e
                   | Inr fr \<Rightarrow>
                       (case finish_dummy overall_size frame_builder bad_crc rnd fr of
                          (Inl e, _) \<Rightarrow> Inl e
                        | (Inr _, fr') \<Rightarrow> Inr fr'))
              | (Inl e, _) \<Rightarrow> Inl e
              | (_, Inl e) \<Rightarrow> Inl e)))"

text \<open>
  The builder of \<open>vtelem/channel/framer.py\<close> writes a boolean channel until no space is left. Each
  write takes one byte, so the space plus one is enough fuel; running out would mean the loop
  does not end.
\<close>

fun fill_frame :: "nat \<Rightarrow> channel \<Rightarrow> (frame, unit) py" where
  "fill_frame 0 chan = raise Blocks"
| "fill_frame (Suc fuel) chan = bindp (gets space) (\<lambda>sp.
     if sp \<noteq> 0 then bindp (frame_write chan) (\<lambda>_. fill_frame fuel chan) else ret ())"

definition channel_frame_builder :: "(frame, unit) py" where
  "channel_frame_builder = bindp (gets space) (\<lambda>sp.
     fill_frame (Suc (nat sp)) (new_channel ''fake'' BOOLEAN (fl 1) False True False))"

definition build_channel_dummy_frame :: "int \<Rightarrow> pyfloat option \<Rightarrow> bool \<Rightarrow> int \<Rightarrow> py_error + frame" where
  "build_channel_dummy_frame overall_size app_id_basis bad_crc rnd =
     build_dummy_frame overall_size ''invalid'' channel_frame_builder app_id_basis bad_crc rnd"

section \<open>New frames\<close>

lemma create_app_id_holds:
  assumes "create_app_id basis rnd = Inr p"
  shows "\<exists>a. holds_uint UINT16 a p \<and> 0 \<le> a \<and> a < 2 ^ 16"
proof -
  let ?t = "new_type_primitive UINT16 False"
  from assms obtain n where n: "(case tp_set (VInt n) None ?t of
      (ok, result', _) \<Rightarrow> if ok then Inr result' else Inl AssertionError) = Inr p"
    by (auto simp: create_app_id_def split: sum.splits option.splits)
  have ty: "tp_type ?t = UINT16" by (simp add: new_type_primitive_def)
  have acc: "accepts UINT16 (VInt n)"
    using n ty by (auto simp: tp_set_run split: if_splits)
  then obtain c where "tp_set (VInt n) None ?t = (True, ?t\<lparr>tp_data := VInt n, tp_last_set := 0\<rparr>, c)"
    using tp_set_uint [of ?t n] ty by auto
  with n have "p = ?t\<lparr>tp_data := VInt n, tp_last_set := 0\<rparr>" by simp
  with acc ty show ?thesis by (auto simp: holds_uint_def accepts_uint)
qed

text \<open>An application identifier drawn at random always is one.\<close>

lemma create_app_id_random: "\<exists>p. create_app_id None rnd = Inr p \<and> holds_uint UINT16 (rnd mod 2 ^ 16) p"
proof -
  let ?t = "new_type_primitive UINT16 False"
  have r: "random_integer rnd UINT16 = Inr (rnd mod 2 ^ 16)"
    by (simp add: random_integer_def int_primitive_def integer_bounds_def Let_def)
  have ty: "tp_type ?t = UINT16" by (simp add: new_type_primitive_def)
  obtain c where "tp_set (VInt (rnd mod 2 ^ 16)) None ?t =
      (True, ?t\<lparr>tp_data := VInt (rnd mod 2 ^ 16), tp_last_set := 0\<rparr>, c)"
    using tp_set_uint [of ?t "rnd mod 2 ^ 16"] ty by (auto simp: accepts_uint)
  then show ?thesis using r ty by (simp add: create_app_id_def holds_uint_def)
qed

text \<open>The frame types a framer knows: their names and numbers.\<close>

fun frame_type_name :: "frame_type \<Rightarrow> string" where
  "frame_type_name DATA = ''data''"
| "frame_type_name EVENT = ''event''"
| "frame_type_name INVALID = ''invalid''"
| "frame_type_name MESSAGE = ''message''"
| "frame_type_name STREAM = ''stream''"

definition framer_ok :: "framer \<Rightarrow> int \<Rightarrow> bool" where
  "framer_ok fr a \<longleftrightarrow> 0 \<le> a \<and> a < 2 ^ 16 \<and>
     (\<exists>p. dict_get (frm_primitives fr) ''app_id'' = Some p \<and> holds_uint UINT16 a p) \<and>
     (\<forall>t. \<exists>p. dict_get (frm_primitives fr) (frame_type_name t) = Some p \<and>
        holds_uint UINT8 (frame_type_value t) p) \<and>
     (\<forall>t. \<exists>p s. dict_get (frm_timestamps fr) (frame_type_name t) = Some p \<and>
        holds_uint UINT64 s p \<and> 0 \<le> s \<and> s < 2 ^ 64)"

lemma FRAME_TYPES_value:
  "FRAME_TYPES = Inr \<lparr>ue_name = ''frame_type'',
     ue_mappings = [(1, ''data''), (2, ''event''), (0, ''invalid''), (3, ''message''), (4, ''stream'')],
     ue_default = ''data'',
     ue_strings = [(''data'', Some 1), (''event'', Some 2), (''invalid'', Some 0),
       (''message'', Some 3), (''stream'', Some 4)]\<rparr>"
  by code_simp

definition frame_types :: user_enum where
  "frame_types = projr FRAME_TYPES"

lemma FRAME_TYPES_Inr: "FRAME_TYPES = Inr frame_types"
  by (simp add: frame_types_def FRAME_TYPES_value)

lemma frame_types_iter: "ue_iter frame_types = map frame_type_name [DATA, EVENT, INVALID, MESSAGE, STREAM]"
  by (simp add: frame_types_def FRAME_TYPES_value ue_iter_def)

lemma frame_type_name_lower: "str_lower (frame_type_name t) = frame_type_name t"
  by (cases t) (simp_all add: str_lower_def char_lower_def is_upper_def)

lemma frame_type_name_inj: "frame_type_name t = frame_type_name u \<longleftrightarrow> t = u"
  by (cases t; cases u) simp_all

lemma frame_type_lookup:
  "dict_get (ue_strings frame_types) (frame_type_name t) = Some (Some (frame_type_value t))"
  by (cases t) (simp_all add: frame_types_def FRAME_TYPES_value)

lemma frame_type_primitive:
  obtains p where "get_primitive (frame_type_name t) False frame_types = (Inr p, frame_types)"
    and "holds_uint UINT8 (frame_type_value t) p"
proof -
  let ?t = "new_type_primitive UINT8 False"
  let ?n = "frame_type_value t"
  have ty: "tp_type ?t = UINT8" by (simp add: new_type_primitive_def)
  obtain c where "tp_set (VInt ?n) None ?t = (True, ?t\<lparr>tp_data := VInt ?n, tp_last_set := 0\<rparr>, c)"
    using tp_set_uint [of ?t ?n] ty frame_type_value_bounds [of t] by (auto simp: accepts_uint)
  then have "get_primitive (frame_type_name t) False frame_types =
      (Inr (?t\<lparr>tp_data := VInt ?n, tp_last_set := 0\<rparr>), frame_types)"
    using frame_type_lookup [of t] frame_type_name_lower [of t]
    by (simp add: get_primitive_def lookup_string_def bindp_def)
  with that ty show thesis by (simp add: holds_uint_def)
qed

text \<open>The constructor fills one entry per frame type.\<close>

lemma framer_entry_run:
  obtains fr' p where "framer_entry frame_types (frame_type_name t) fr = (Inr (), fr')"
    and "fr' = fr\<lparr>frm_timestamps :=
           dict_set (frame_type_name t) (new_type_primitive UINT64 False) (frm_timestamps fr),
         frm_primitives := dict_set (frame_type_name t) p (frm_primitives fr)\<rparr>"
    and "holds_uint UINT8 (frame_type_value t) p"
proof -
  obtain p where "get_primitive (frame_type_name t) False frame_types = (Inr p, frame_types)"
    and "holds_uint UINT8 (frame_type_value t) p" by (rule frame_type_primitive)
  with that show thesis by (simp add: framer_entry_def)
qed

definition entry_ok :: "framer \<Rightarrow> frame_type \<Rightarrow> bool" where
  "entry_ok fr t \<longleftrightarrow>
     (\<exists>p. dict_get (frm_primitives fr) (frame_type_name t) = Some p \<and>
        holds_uint UINT8 (frame_type_value t) p) \<and>
     (\<exists>p s. dict_get (frm_timestamps fr) (frame_type_name t) = Some p \<and>
        holds_uint UINT64 s p \<and> 0 \<le> s \<and> s < 2 ^ 64)"

lemma framer_ok_entries:
  "framer_ok fr a \<longleftrightarrow> 0 \<le> a \<and> a < 2 ^ 16 \<and>
     (\<exists>p. dict_get (frm_primitives fr) ''app_id'' = Some p \<and> holds_uint UINT16 a p) \<and> (\<forall>t. entry_ok fr t)"
  by (auto simp: framer_ok_def entry_ok_def)

lemma new_timestamp_holds: "holds_uint UINT64 0 (new_type_primitive UINT64 cb)"
  by (simp add: holds_uint_def new_type_primitive_def default_val_def int_primitive_def)

lemma framer_entries_run:
  "\<exists>fr'. for_each (framer_entry frame_types) (map frame_type_name ts) fr = (Inr (), fr') \<and>
     (\<forall>t \<in> set ts. entry_ok fr' t) \<and> (\<forall>t. entry_ok fr t \<longrightarrow> entry_ok fr' t) \<and>
     frm_mtu fr' = frm_mtu fr \<and> frm_use_crc fr' = frm_use_crc fr"
proof (induction ts arbitrary: fr)
  case Nil
  then show ?case by simp
next
  case (Cons t ts)
  obtain fr1 p where fr1: "framer_entry frame_types (frame_type_name t) fr = (Inr (), fr1)"
      "fr1 = fr\<lparr>frm_timestamps :=
           dict_set (frame_type_name t) (new_type_primitive UINT64 False) (frm_timestamps fr),
         frm_primitives := dict_set (frame_type_name t) p (frm_primitives fr)\<rparr>"
      "holds_uint UINT8 (frame_type_value t) p"
    by (rule framer_entry_run)
  have "entry_ok fr1 t"
    using fr1(2,3) new_timestamp_holds by (force simp: entry_ok_def)
  moreover have "entry_ok fr u \<Longrightarrow> entry_ok fr1 u" for u
    using fr1(2,3) new_timestamp_holds [of False]
    by (cases "u = t") (auto simp: entry_ok_def frame_type_name_inj)
  ultimately show ?case
    using Cons.IH [of fr1] fr1(1,2) by fastforce
qed

lemma app_id_not_type: "frame_type_name t \<noteq> ''app_id''"
  by (cases t) simp_all

lemma new_framer_ok:
  assumes "create_app_id basis rnd = Inr p" and "holds_uint UINT16 a p" and "0 \<le> a" and "a < 2 ^ 16"
  obtains fr where "new_framer mtu basis rnd use_crc = Inr fr" and "framer_ok fr a"
    and "frm_mtu fr = mtu" and "frm_use_crc fr = use_crc"
proof -
  let ?fr0 = "\<lparr>frm_mtu = mtu, frm_timestamps = [], frm_primitives = [], frm_use_crc = use_crc\<rparr>"
  obtain fr1 where fr1: "for_each (framer_entry frame_types) (ue_iter frame_types) ?fr0 = (Inr (), fr1)"
      "\<forall>t \<in> {DATA, EVENT, INVALID, MESSAGE, STREAM}. entry_ok fr1 t"
      "frm_mtu fr1 = mtu" "frm_use_crc fr1 = use_crc"
    using framer_entries_run [of "[DATA, EVENT, INVALID, MESSAGE, STREAM]" ?fr0]
    unfolding frame_types_iter by auto
  let ?fr = "fr1\<lparr>frm_primitives := dict_set ''app_id'' p (frm_primitives fr1)\<rparr>"
  have all: "entry_ok fr1 t" for t using fr1(2) by (cases t) auto
  have "entry_ok ?fr t" for t
    using all [of t] app_id_not_type [of t] by (simp add: entry_ok_def)
  moreover have "new_framer mtu basis rnd use_crc = Inr ?fr"
    using fr1(1) assms(1) by (simp add: new_framer_def FRAME_TYPES_Inr)
  ultimately show thesis
    using that [of ?fr] assms(2-4) fr1(3,4) by (simp add: framer_ok_entries)
qed

text \<open>A framer with a random application identifier can always be made.\<close>

lemma new_framer_random:
  "\<exists>fr. new_framer mtu None rnd use_crc = Inr fr \<and> framer_ok fr (rnd mod 2 ^ 16) \<and> frm_mtu fr = mtu \<and>
     frm_use_crc fr = use_crc"
proof -
  obtain p where p: "create_app_id None rnd = Inr p" "holds_uint UINT16 (rnd mod 2 ^ 16) p"
    using create_app_id_random [of rnd] by blast
  have a: "0 \<le> rnd mod 2 ^ 16" "rnd mod 2 ^ 16 < 2 ^ 16" by simp_all
  show ?thesis by (rule new_framer_ok [OF p a, of mtu use_crc]) blast
qed

lemma framer_okE:
  assumes "framer_ok fr a"
  obtains ip tp p s where "dict_get (frm_primitives fr) ''app_id'' = Some ip" and "holds_uint UINT16 a ip"
    and "dict_get (frm_primitives fr) (frame_type_name t) = Some tp"
    and "holds_uint UINT8 (frame_type_value t) tp"
    and "dict_get (frm_timestamps fr) (frame_type_name t) = Some p"
    and "holds_uint UINT64 s p" and "0 \<le> s" and "s < 2 ^ 64"
proof -
  have "entry_ok fr t" using assms by (simp add: framer_ok_entries)
  with assms that show thesis unfolding framer_ok_def entry_ok_def by blast
qed

lemma set_timestamp_run:
  assumes "framer_ok fr a"
    and "case time of None \<Rightarrow> True | Some x \<Rightarrow> (\<exists>n. time_to_int x 1000 = Inr n \<and> 0 \<le> n \<and> n < 2 ^ 64)"
  obtains fr' p s where "set_timestamp (frame_type_name t) time fr = (Inr p, fr')"
    and "holds_uint UINT64 s p" and "0 \<le> s" and "s < 2 ^ 64" and "framer_ok fr' a"
    and "frm_mtu fr' = frm_mtu fr" and "frm_use_crc fr' = frm_use_crc fr"
    and "\<forall>x. time = Some x \<longrightarrow> time_to_int x 1000 = Inr s"
    and "frm_primitives fr' = frm_primitives fr"
proof -
  obtain p0 s0 where p0: "dict_get (frm_timestamps fr) (frame_type_name t) = Some p0"
      "holds_uint UINT64 s0 p0" "0 \<le> s0" "s0 < 2 ^ 64"
    using assms(1) by (rule framer_okE [where t = t])
  show thesis
  proof (cases time)
    case None
    then show thesis
      using that [of p0 fr s0] p0 assms(1) by (simp add: set_timestamp_def)
  next
    case (Some x)
    with assms(2) obtain n where n: "time_to_int x 1000 = Inr n" "0 \<le> n" "n < 2 ^ 64" by auto
    have ty: "tp_type p0 = UINT64" using p0(2) by (simp add: holds_uint_def)
    let ?p = "p0\<lparr>tp_data := VInt n, tp_last_set := 0\<rparr>"
    let ?fr = "fr\<lparr>frm_timestamps := dict_set (frame_type_name t) ?p (frm_timestamps fr)\<rparr>"
    obtain c where c: "tp_set (VInt n) None p0 = (True, ?p, c)"
      using tp_set_uint [of p0 n] ty n by (auto simp: accepts_uint)
    have h: "holds_uint UINT64 n ?p" using ty by (simp add: holds_uint_def)
    have "framer_ok ?fr a"
      using assms(1) h n unfolding framer_ok_def by (auto simp: frame_type_name_inj)
    then show thesis
      using that [of ?p ?fr n] Some n h c p0(1) by (simp add: set_timestamp_def)
  qed
qed

text \<open>A framer's new frame has its identifier, the type's number and the time in its header.\<close>

lemma new_frame_run:
  assumes "framer_ok fr a"
    and "case time of None \<Rightarrow> True | Some x \<Rightarrow> (\<exists>n. time_to_int x 1000 = Inr n \<and> 0 \<le> n \<and> n < 2 ^ 64)"
    and "15 + (if frm_use_crc fr then 4 else 0) < frm_mtu fr"
  obtains f fr' s where "new_frame (frame_type_name t) time fr = (Inr f, fr')"
    and "frame_open f a (frame_type_value t) s [] []" and "header_ok a (frame_type_value t) s"
    and "framer_ok fr' a" and "frm_mtu fr' = frm_mtu fr" and "frm_use_crc fr' = frm_use_crc fr"
    and "fr_class f = FRAME_CLASS_MAP (frame_type_name t)" and "fr_mtu f = frm_mtu fr"
    and "fr_count_value f = 0" and "\<not> fr_initialized f" and "(fr_crc f \<noteq> None) = frm_use_crc fr"
    and "\<forall>x. time = Some x \<longrightarrow> time_to_int x 1000 = Inr s"
proof -
  obtain fr' p s where p: "set_timestamp (frame_type_name t) time fr = (Inr p, fr')"
      "holds_uint UINT64 s p" "0 \<le> s" "s < 2 ^ 64" "framer_ok fr' a"
      "frm_mtu fr' = frm_mtu fr" "frm_use_crc fr' = frm_use_crc fr"
      "\<forall>x. time = Some x \<longrightarrow> time_to_int x 1000 = Inr s" "frm_primitives fr' = frm_primitives fr"
    by (rule set_timestamp_run [OF assms(1,2), of t])
  obtain ip tp where ip: "dict_get (frm_primitives fr') ''app_id'' = Some ip" "holds_uint UINT16 a ip"
      "dict_get (frm_primitives fr') (frame_type_name t) = Some tp"
      "holds_uint UINT8 (frame_type_value t) tp"
    using p(5) by (rule framer_okE [where t = t])
  have hok: "header_ok a (frame_type_value t) s"
    using p(3-5) frame_type_value_bounds [of t] by (simp add: header_ok_def framer_ok_def)
  obtain f where f: "new_frame_object (FRAME_CLASS_MAP (frame_type_name t)) (frm_mtu fr) ip tp p
        (frm_use_crc fr) = Inr f"
      "frame_open f a (frame_type_value t) s [] []"
      "fr_class f = FRAME_CLASS_MAP (frame_type_name t)" "fr_mtu f = frm_mtu fr"
      "fr_count_value f = 0" "\<not> fr_initialized f" "(fr_crc f \<noteq> None) = frm_use_crc fr"
    by (rule new_frame_open [OF ip(2,4) p(2) hok assms(3)])
  have "new_frame (frame_type_name t) time fr = (Inr f, fr')"
    using p(1,6,7) ip(1,3) f(1) by (simp add: new_frame_def)
  from that [OF this f(2) hok p(5,6,7) f(3-7) p(8)] show thesis .
qed

section \<open>The size of a dummy frame\<close>

lemma pad_run:
  assumes "fr_finalized f" and "bb_sink (fr_buffer f)" and "bb_content (fr_buffer f) \<noteq> []"
    and "0 \<le> n" and "n \<le> fr_mtu f - fr_used f"
  obtains b where "pad n f = (Inr n, f\<lparr>fr_buffer := b, fr_used := fr_used f + n\<rparr>)"
    and "bb_sink b" and "bb_tight b" and "bb_content b = bb_content (fr_buffer f) @ replicate (nat n) 0"
proof -
  let ?e = "new_buffer (replicate (nat n) 0) True n ''!''"
  have e: "bb_inv ?e" using assms(4) by (simp add: bb_inv_def)
  obtain b where b: "bb_append (replicate (nat n) 0) (Some n) (fr_buffer f) = (Inr n, b)"
      "bb_sink b" "bb_tight b" "bb_content b = bb_content (fr_buffer f) @ replicate (nat n) 0"
    using bb_append_sink [OF assms(2,3) e] by (auto simp: bb_content_def)
  have "pad n f = (Inr n, f\<lparr>fr_buffer := b, fr_used := fr_used f + n\<rparr>)"
    using assms(1,4,5) b(1) by (simp add: pad_def min_def add_used_def)
  with b that show thesis by blast
qed

text \<open>Padding never exceeds the maximum size: what is asked for beyond it is left out.\<close>

lemma pad_clamped:
  assumes "fr_finalized f" and "fr_mtu f - fr_used f < n"
  shows "pad n f = pad (fr_mtu f - fr_used f) f"
  using assms by (simp add: pad_def min_def)

lemma finish_dummy_run:
  assumes "builder f = (Inr (), f1)" and "frame_open f1 a t s body elems"
    and "fr_class f1 = ChannelFrame" and "fr_count_value f1 = 0" and "fr_mtu f1 = sz"
  obtains f' where "finish_dummy sz builder bad rnd f = (Inr (), f')" and "fr_finalized f'"
    and "fr_used f' = sz" and "length (bb_data (fr_buffer f')) = nat sz"
    and "bb_data (fr_buffer f') = sealed f1 (\<not> bad) rnd (frame_header a t s 0 @ body @ elems) @
           replicate (nat (sz - fr_used f1)) 0"
proof -
  obtain f2 where f2: "finalize (\<not> bad) rnd f1 = (Inr (fr_used f1), f2)" "fr_finalized f2"
      "fr_used f2 = fr_used f1" "fr_mtu f2 = fr_mtu f1"
      "bb_data (fr_buffer f2) = sealed f1 (\<not> bad) rnd (frame_header a t s 0 @ body @ elems)"
      "bb_sink (fr_buffer f2)" "bb_tight (fr_buffer f2)"
    by (rule finalize_channel_frame [OF assms(2,3,4)]) simp_all
  let ?img = "sealed f1 (\<not> bad) rnd (frame_header a t s 0 @ body @ elems)"
  have len: "int (length ?img) = fr_used f1"
    using assms(2) by (simp add: sealed_def frame_open_def crc_len_def split: option.splits)
  have le: "fr_used f1 \<le> sz" and pos: "0 < fr_used f1"
    using assms(2,5) by (auto simp: frame_open_def crc_len_def split: option.splits)
  have ct: "bb_content (fr_buffer f2) = ?img" using bb_tight_content [OF f2(7)] f2(5) by simp
  have ne: "bb_content (fr_buffer f2) \<noteq> []" using ct len pos by auto
  obtain b where b: "pad (sz - fr_used f1) f2 =
        (Inr (sz - fr_used f1), f2\<lparr>fr_buffer := b, fr_used := fr_used f2 + (sz - fr_used f1)\<rparr>)"
      "bb_sink b" "bb_tight b"
      "bb_content b = bb_content (fr_buffer f2) @ replicate (nat (sz - fr_used f1)) 0"
    by (rule pad_run [OF f2(2,6) ne, of "sz - fr_used f1"]) (use le f2(3,4) assms(5) in simp_all)
  let ?f' = "f2\<lparr>fr_buffer := b, fr_used := sz\<rparr>"
  have d: "bb_data b = ?img @ replicate (nat (sz - fr_used f1)) 0"
    using bb_tight_content [OF b(3)] b(4) ct by simp
  have "finish_dummy sz builder bad rnd f = (Inr (), ?f')"
    using assms(1,5) f2(1-4) b(1)
    by (simp add: finish_dummy_def pad_to_mtu_def finalize_def)
  with that [OF this] d len le f2(2) show thesis by simp
qed

lemma fill_frame_run:
  assumes "frame_open f a t s body elems" and "space f < int fuel" and "tp_type chan = BOOLEAN"
    and "tp_data chan = VBool False"
  shows "\<exists>f'. fill_frame fuel chan f = (Inr (), f') \<and>
    frame_open f' a t s (body @ replicate (nat (space f)) 0) elems \<and> fr_used f' = fr_mtu f \<and>
    fr_class f' = fr_class f \<and> fr_count_value f' = fr_count_value f \<and> fr_mtu f' = fr_mtu f \<and>
    fr_crc f' = fr_crc f"
  using assms(1,2)
proof (induction fuel arbitrary: f body)
  case 0
  then show ?case by (simp add: frame_open_def space_def)
next
  case (Suc fuel)
  show ?case
  proof (cases "space f = 0")
    case True
    then show ?thesis using Suc.prems(1) by (intro exI [of _ f]) (simp add: space_def)
  next
    case False
    have sp: "0 < space f" using False Suc.prems(1) by (simp add: frame_open_def space_def)
    have e: "net_pack (tp_type chan) (tp_data chan) = Inr [0]"
      using assms(3,4) by (simp add: prim_pack_def struct_pack_def pack_char_def)
    obtain b where b: "frame_write chan f = (Inr (), f\<lparr>fr_buffer := b, fr_used := fr_used f + 1\<rparr>)"
        "bb_sink b" "bb_content b = frame_header a t s 0 @ body @ [0]"
      using frame_write_sink [OF _ e, of f] Suc.prems(1) by (auto simp: frame_open_def)
    let ?f1 = "f\<lparr>fr_buffer := b, fr_used := fr_used f + 1\<rparr>"
    have open1: "frame_open ?f1 a t s (body @ [0]) elems"
      using Suc.prems(1) b(2,3) sp by (simp add: frame_open_def crc_len_def space_def)
    have sp1: "space ?f1 = space f - 1" by (simp add: space_def)
    obtain f' where f': "fill_frame fuel chan ?f1 = (Inr (), f')"
        "frame_open f' a t s ((body @ [0]) @ replicate (nat (space ?f1)) 0) elems"
        "fr_used f' = fr_mtu f" "fr_class f' = fr_class f" "fr_count_value f' = fr_count_value f"
        "fr_mtu f' = fr_mtu f" "fr_crc f' = fr_crc f"
      using Suc.IH [OF open1] Suc.prems(2) sp1 by auto
    have "(body @ [0]) @ replicate (nat (space ?f1)) 0 = body @ replicate (nat (space f)) 0"
      using sp sp1 by (cases "nat (space f)") (simp_all add: nat_diff_distrib)
    with f' b(1) False show ?thesis by (intro exI [of _ f']) simp
  qed
qed

lemma build_dummy_run:
  assumes "create_app_id basis rnd = Inr p" and "19 < sz"
    and "\<And>f a s. frame_open f a (frame_type_value t) s [] [] \<Longrightarrow> fr_mtu f = sz \<Longrightarrow>
      \<exists>f1 body. builder f = (Inr (), f1) \<and> frame_open f1 a (frame_type_value t) s body [] \<and>
        fr_class f1 = fr_class f \<and> fr_count_value f1 = fr_count_value f \<and> fr_mtu f1 = sz \<and>
        fr_crc f1 = fr_crc f"
  shows "\<exists>f. build_dummy_frame sz (frame_type_name t) builder basis bad rnd = Inr f \<and>
    raw f = Inr (bb_data (fr_buffer f), sz) \<and> int (length (bb_data (fr_buffer f))) = sz"
proof -
  obtain a where a: "holds_uint UINT16 a p" "0 \<le> a" "a < 2 ^ 16"
    using create_app_id_holds [OF assms(1)] by auto
  obtain tp where tp: "get_primitive (frame_type_name t) False frame_types = (Inr tp, frame_types)"
      "holds_uint UINT8 (frame_type_value t) tp"
    by (rule frame_type_primitive)
  have hok: "header_ok a (frame_type_value t) 0"
    using a frame_type_value_bounds [of t] by (simp add: header_ok_def)
  have room: "15 + (if True then 4 else 0) < sz" using assms(2) by simp
  obtain f0 where f0: "new_frame_object ChannelFrame sz p tp (new_type_primitive UINT64 False) True = Inr f0"
      "frame_open f0 a (frame_type_value t) 0 [] []" "fr_class f0 = ChannelFrame" "fr_mtu f0 = sz"
      "fr_count_value f0 = 0"
    by (rule new_frame_open [OF a(1) tp(2) new_timestamp_holds hok room])
  obtain f1 body where f1: "builder f0 = (Inr (), f1)" "frame_open f1 a (frame_type_value t) 0 body []"
      "fr_class f1 = fr_class f0" "fr_count_value f1 = fr_count_value f0" "fr_mtu f1 = sz"
    using assms(3) [OF f0(2,4)] by auto
  obtain f' where f': "finish_dummy sz builder bad rnd f0 = (Inr (), f')" "fr_finalized f'"
      "fr_used f' = sz" "length (bb_data (fr_buffer f')) = nat sz"
    by (rule finish_dummy_run [of builder f0, OF f1(1,2)]) (use f1(3-5) f0(3,5) in simp_all)
  have "build_dummy_frame sz (frame_type_name t) builder basis bad rnd = Inr f'"
    using assms(1) tp(1) f0(1) f'(1) by (simp add: build_dummy_frame_def FRAME_TYPES_Inr)
  with f' assms(2) show ?thesis by (simp add: raw_def)
qed

lemma channel_builder_open:
  assumes "frame_open f a t s [] []"
  shows "\<exists>f1 body. channel_frame_builder f = (Inr (), f1) \<and> frame_open f1 a t s body [] \<and>
    fr_class f1 = fr_class f \<and> fr_count_value f1 = fr_count_value f \<and> fr_mtu f1 = fr_mtu f \<and>
    fr_crc f1 = fr_crc f"
proof -
  let ?c = "new_channel ''fake'' BOOLEAN (fl 1) False True False"
  have d: "tp_data ?c = VBool False" by (simp add: default_val_def other_primitive_def)
  have fuel: "space f < int (Suc (nat (space f)))" by linarith
  obtain f' where "fill_frame (Suc (nat (space f))) ?c f = (Inr (), f')"
      "frame_open f' a t s ([] @ replicate (nat (space f)) 0) []"
      "fr_class f' = fr_class f" "fr_count_value f' = fr_count_value f" "fr_mtu f' = fr_mtu f"
      "fr_crc f' = fr_crc f"
    using fill_frame_run [OF assms fuel _ d] by (auto simp del: fill_frame.simps)
  then show ?thesis by (auto simp: channel_frame_builder_def simp del: fill_frame.simps)
qed

section \<open>Properties\<close>

text \<open>
  A frame whose size limit does not exceed its own header (and checksum) is refused
  with an assertion, whatever its class.
\<close>

theorem tiny_frame_refused:
  assumes "framer_ok fr a" and "0 \<le> frm_mtu fr" and "frm_mtu fr \<le> 15 + (if frm_use_crc fr then 4 else 0)"
  shows "fst (new_frame (frame_type_name t) None fr) = Inl AssertionError"
proof -
  have time: "case None of None \<Rightarrow> True | Some x \<Rightarrow> (\<exists>n. time_to_int x 1000 = Inr n \<and> 0 \<le> n \<and> n < 2 ^ 64)"
    by simp
  obtain p s fr' where p: "set_timestamp (frame_type_name t) None fr = (Inr p, fr')"
      "holds_uint UINT64 s p" "0 \<le> s" "s < 2 ^ 64" "framer_ok fr' a"
      "frm_mtu fr' = frm_mtu fr" "frm_use_crc fr' = frm_use_crc fr"
      "\<forall>x. None = Some x \<longrightarrow> time_to_int x 1000 = Inr s" "frm_primitives fr' = frm_primitives fr"
    by (rule set_timestamp_run [OF assms(1) time, of t])
  obtain ip tp where ip: "dict_get (frm_primitives fr') ''app_id'' = Some ip" "holds_uint UINT16 a ip"
      "dict_get (frm_primitives fr') (frame_type_name t) = Some tp"
      "holds_uint UINT8 (frame_type_value t) tp"
    using p(5) by (rule framer_okE [where t = t])
  have "header_ok a (frame_type_value t) s"
    using p(3-5) frame_type_value_bounds [of t] by (simp add: header_ok_def framer_ok_def)
  from new_frame_too_small [OF ip(2,4) p(2) this assms(2,3)] p(1,6,7) ip(1,3) show ?thesis
    by (simp add: new_frame_def)
qed

theorem tiny_frame_refused_witness:
  "\<exists>fr. new_framer 19 None 5 True = Inr fr \<and> fst (new_frame ''data'' None fr) = Inl AssertionError"
proof -
  obtain fr where fr: "new_framer 19 None 5 True = Inr fr" "framer_ok fr (5 mod 2 ^ 16)"
      "frm_mtu fr = 19" "frm_use_crc fr = True"
    using new_framer_random [of 19 5 True] by (elim exE conjE) (rule that)
  from tiny_frame_refused [OF fr(2), of DATA] fr(1,3,4) show ?thesis by simp
qed

text \<open>
  A dummy frame is exactly as long as it was asked to be, whatever its application
  identifier and whether its checksum is to be right or wrong.
\<close>

lemma dummy_frame_run:
  assumes "create_app_id basis rnd = Inr p" and "19 < sz"
  shows "\<exists>f. build_channel_dummy_frame sz basis bad rnd = Inr f \<and>
    raw f = Inr (bb_data (fr_buffer f), sz) \<and> int (length (bb_data (fr_buffer f))) = sz"
proof -
  have b: "\<exists>f1 body. channel_frame_builder f = (Inr (), f1) \<and>
      frame_open f1 a (frame_type_value INVALID) s body [] \<and> fr_class f1 = fr_class f \<and>
      fr_count_value f1 = fr_count_value f \<and> fr_mtu f1 = sz \<and> fr_crc f1 = fr_crc f"
    if "frame_open f a (frame_type_value INVALID) s [] []" and "fr_mtu f = sz" for f a s
    using channel_builder_open [OF that(1)] that(2) by auto
  from build_dummy_run [OF assms b, of bad] show ?thesis
    by (simp add: build_channel_dummy_frame_def)
qed

end
