(* ===== verification/Parsing.thy ===== *)
theory Parsing
  imports Framer
begin

text \<open>
  Decoding frames (\<open>vtelem/parsing/frames.py\<close>, \<open>vtelem/parsing/encapsulation.py\<close>, the parser table of
  \<open>vtelem/enums/frame.py\<close> and the tuples of \<open>vtelem/types/frame.py\<close>). A parser runs over the buffer
  and the channel registry, whose lookups store \<open>None\<close> for unknown identifiers.
\<close>

section \<open>Parsed frames\<close>

record frame_header_tuple =
  fh_length :: int
  fh_app_id :: int
  fh_type :: frame_type
  fh_timestamp :: int
  fh_size :: int

record frame_footer =
  ff_crc :: "int option"

text \<open>The body of a frame; the dictionaries of the parsers have fixed keys per frame type.\<close>

record parsed_event =
  pe_id :: int
  pe_channel :: channel
  pe_previous :: "pyval \<times> int"
  pe_current :: "pyval \<times> int"

datatype parsed_body =
    InvalidBody
  | DataBody "(int \<times> channel \<times> pyval) list"
  | EventBody "parsed_event list"
  | MessageBody "(string, pyval) dict" "byte list"
  | StreamBody int channel int "byte list"

record parsed_frame =
  pf_header :: frame_header_tuple
  pf_body :: parsed_body
  pf_footer :: frame_footer

type_synonym parse_state = "byte_buffer \<times> channel_registry"

abbreviation in_buf :: "(byte_buffer, 'a) py \<Rightarrow> (parse_state, 'a) py" where
  "in_buf m \<equiv> zoom fst (\<lambda>b s. (b, snd s)) m"

abbreviation in_registry :: "(channel_registry, 'a) py \<Rightarrow> (parse_state, 'a) py" where
  "in_registry m \<equiv> zoom snd (\<lambda>r s. (fst s, r)) m"

definition read_int :: "primitive \<Rightarrow> (byte_buffer, int) py" where
  "read_int p = bindp (bb_read p False) (\<lambda>v.
     case as_int v of Some n \<Rightarrow> ret n | None \<Rightarrow> raise TypeError)"

section \<open>The parsers\<close>

definition parse_invalid_frame :: "frame_header_tuple \<Rightarrow> (parse_state, parsed_body) py" where
  "parse_invalid_frame hdr =
     bindp (gets (\<lambda>s. remaining (fst s))) (\<lambda>n.
     bindp (in_buf (advance n False)) (\<lambda>_. ret InvalidBody))"

text \<open>An element's identifier and its channel, which must not be a stream.\<close>

definition read_channel :: "(parse_state, int \<times> channel) py" where
  "read_channel =
     bindp (in_buf (read_int UINT16)) (\<lambda>i.
     bindp (in_registry (get_item i)) (\<lambda>ch.
     case ch of
       None \<Rightarrow> raise AttributeError
     | Some c \<Rightarrow> bindp (assertp (\<not> ch_is_stream c)) (\<lambda>_. ret (i, c))))"

definition read_channels :: "int \<Rightarrow> (parse_state, (int \<times> channel) list) py" where
  "read_channels n = map_each (\<lambda>_. read_channel) (replicate (nat n) ())"

definition read_value :: "int \<times> channel \<Rightarrow> (parse_state, int \<times> channel \<times> pyval) py" where
  "read_value e =
     bindp (in_buf (bb_read (tp_type (snd e)) False)) (\<lambda>v. ret (fst e, snd e, v))"

definition parse_data_frame :: "frame_header_tuple \<Rightarrow> (parse_state, parsed_body) py" where
  "parse_data_frame hdr =
     bindp (read_channels (fh_size hdr)) (\<lambda>chans.
     bindp (map_each read_value chans) (\<lambda>vals. ret (DataBody vals)))"

definition read_timed :: "primitive \<Rightarrow> (parse_state, pyval \<times> int) py" where
  "read_timed ty =
     bindp (in_buf (bb_read ty False)) (\<lambda>v. bindp (in_buf (read_int UINT64)) (\<lambda>t. ret (v, t)))"

definition read_event :: "int \<times> channel \<Rightarrow> (parse_state, parsed_event) py" where
  "read_event e =
     bindp (read_timed (tp_type (snd e))) (\<lambda>prev.
     bindp (read_timed (tp_type (snd e))) (\<lambda>cur.
     ret \<lparr>pe_id = fst e, pe_channel = snd e, pe_previous = prev, pe_current = cur\<rparr>))"

definition parse_event_frame :: "frame_header_tuple \<Rightarrow> (parse_state, parsed_body) py" where
  "parse_event_frame hdr =
     bindp (read_channels (fh_size hdr)) (\<lambda>chans.
     bindp (map_each read_event chans) (\<lambda>evs. ret (EventBody evs)))"

definition parse_message_frame :: "frame_header_tuple \<Rightarrow> (parse_state, parsed_body) py" where
  "parse_message_frame hdr =
     bindp (in_buf (map_each (\<lambda>p. bb_read p False) (map snd MESSAGE_FIELDS))) (\<lambda>vs.
     bindp (in_buf (read_bytes (fh_size hdr) False)) (\<lambda>bs.
     ret (MessageBody (zip (map fst MESSAGE_FIELDS) vs) bs)))"

definition parse_stream_frame :: "frame_header_tuple \<Rightarrow> (parse_state, parsed_body) py" where
  "parse_stream_frame hdr =
     bindp (in_buf (read_int UINT16)) (\<lambda>i.
     bindp (in_registry (get_item i)) (\<lambda>ch.
     case ch of
       None \<Rightarrow> raise AttributeError
     | Some c \<Rightarrow>
         bindp (assertp (ch_is_stream c)) (\<lambda>_.
         bindp (in_buf (read_int UINT32)) (\<lambda>index.
         bindp (in_buf (read_bytes (fh_size hdr * tp_size c) False)) (\<lambda>data.
         ret (StreamBody i c index data))))))"

fun PARSERS :: "frame_type \<Rightarrow> frame_header_tuple \<Rightarrow> (parse_state, parsed_body) py" where
  "PARSERS DATA = parse_data_frame"
| "PARSERS EVENT = parse_event_frame"
| "PARSERS INVALID = parse_invalid_frame"
| "PARSERS MESSAGE = parse_message_frame"
| "PARSERS STREAM = parse_stream_frame"

section \<open>Encapsulation\<close>

definition parse_frame_header :: "type_primitive option \<Rightarrow> (byte_buffer, int \<times> frame_header_tuple option) py" where
  "parse_frame_header expected_id =
     bindp (read_int UINT16) (\<lambda>app_id.
     if (case expected_id of Some e \<Rightarrow> \<not> num_eq (VInt app_id) (tp_get e) | None \<Rightarrow> False)
     then ret (app_id, None)
     else
       bindp (gets bb_size) (\<lambda>len.
       bindp (read_int UINT8) (\<lambda>t. bindp (lift_res (FrameType t)) (\<lambda>ty.
       bindp (read_int UINT64) (\<lambda>ts.
       bindp (read_int UINT32) (\<lambda>n.
       ret (app_id, Some \<lparr>fh_length = len, fh_app_id = app_id, fh_type = ty, fh_timestamp = ts,
                         fh_size = n\<rparr>)))))))"

definition parse_frame_footer :: "(byte_buffer, frame_footer) py" where
  "parse_frame_footer =
     bindp (gets (can_read UINT32)) (\<lambda>ok.
     if ok then bindp (read_int UINT32) (\<lambda>c. ret \<lparr>ff_crc = Some c\<rparr>) else ret \<lparr>ff_crc = None\<rparr>)"

text \<open>The checksum covers the bytes before it.\<close>

definition crc_matches :: "int \<Rightarrow> (byte_buffer, bool) py" where
  "crc_matches c =
     bindp (modify (\<lambda>b. b\<lparr>bb_size := get_pos b - get_size UINT32\<rparr>)) (\<lambda>_.
     gets (\<lambda>b. c = crc32 0 b))"

definition decode_steps :: "type_primitive option \<Rightarrow> (parse_state, parsed_frame option) py" where
  "decode_steps expected_id =
     bindp (in_buf (parse_frame_header expected_id)) (\<lambda>(app_id, hd_opt).
     case hd_opt of
       None \<Rightarrow> ret None
     | Some hdr \<Rightarrow>
         bindp (PARSERS (fh_type hdr) hdr) (\<lambda>result.
         bindp (in_buf parse_frame_footer) (\<lambda>footer.
         case ff_crc footer of
           None \<Rightarrow> ret (Some \<lparr>pf_header = hdr, pf_body = result, pf_footer = footer\<rparr>)
         | Some c \<Rightarrow> bindp (in_buf (crc_matches c)) (\<lambda>ok.
             ret (if ok then Some \<lparr>pf_header = hdr, pf_body = result, pf_footer = footer\<rparr> else None)))))"

definition decode_frame :: "byte list \<Rightarrow> int \<Rightarrow> type_primitive option \<Rightarrow>
    (channel_registry, parsed_frame option) py" where
  "decode_frame data sz expected_id reg =
     (case decode_steps expected_id (new_buffer data False sz ''!'', reg) of (r, (_, reg')) \<Rightarrow> (r, reg'))"

section \<open>Reading back\<close>

lemma read_int_uint:
  assumes "bb_source b" and "net_pack p (VInt n) = Inr bs" and "bb_rest b = bs @ rest"
    and "wire p (VInt n) = VInt n"
  shows "\<exists>b'. read_int p b = (Inr n, b') \<and> bb_source b' \<and> bb_rest b' = rest \<and>
    (bb_data b', bb_size b', bb_mutable b') = (bb_data b, bb_size b, bb_mutable b)"
  using source.rd_ok [OF assms(1-3)] assms(4) by (auto simp: read_int_def bindp_def)

lemma wire_uint: "p \<in> set INTEGER_PRIMITIVES \<Longrightarrow> wire p (VInt n) = VInt n"
  by (auto simp: INTEGER_PRIMITIVES_def)

text \<open>The state of a buffer that is being read: its bytes, all of them, and what is left of them.\<close>

definition reading :: "byte_buffer \<Rightarrow> byte list \<Rightarrow> byte list \<Rightarrow> bool" where
  "reading b full rest \<longleftrightarrow> bb_source b \<and> bb_data b = full \<and> bb_size b = int (length full) \<and>
     bb_rest b = rest \<and> \<not> bb_mutable b"

lemma reading_new: "reading (new_buffer full False (int (length full)) ''!'') full full"
  by (simp add: reading_def bb_source_def bb_inv_def bb_rest_def bb_content_def)

lemma reading_rd:
  assumes "reading b full (bs @ rest)" and "net_pack p v = Inr bs"
  obtains b' where "bb_read p False b = (Inr (wire p v), b')" and "reading b' full rest"
  using source.rd_ok [of b p v bs rest] assms by (auto simp: reading_def)

lemma reading_int:
  assumes "reading b full (bs @ rest)" and "net_pack p (VInt n) = Inr bs"
    and "p \<in> set INTEGER_PRIMITIVES"
  obtains b' where "read_int p b = (Inr n, b')" and "reading b' full rest"
  using read_int_uint [of b p n bs rest] assms wire_uint [OF assms(3)]
  by (auto simp: reading_def)

lemma reading_pos: "reading b full rest \<Longrightarrow> bb_pos b + int (length rest) = int (length full)"
  by (auto simp: reading_def bb_rest_def bb_content_def bb_source_def bb_inv_def)

lemma reading_bytes:
  assumes "reading b full (bs @ rest)"
  obtains b' where "read_bytes (int (length bs)) False b = (Inr bs, b')" and "reading b' full rest"
proof -
  have inv: "bb_inv b" and rem: "int (length bs) \<le> remaining b"
    using assms reading_pos [OF assms] by (auto simp: reading_def bb_source_def remaining_def get_pos_def)
  have run: "read_bytes (int (length bs)) False b = (Inr bs, b\<lparr>bb_pos := bb_pos b + int (length bs)\<rparr>)"
    using read_bytes_run [OF inv _ rem] assms by (simp add: reading_def)
  have "reading (b\<lparr>bb_pos := bb_pos b + int (length bs)\<rparr>) full rest"
    using assms bb_rest_advance [OF inv, of "int (length bs)"] bb_inv_advance [OF inv _ rem]
    by (simp add: reading_def bb_source_def)
  with run that show thesis by blast
qed

end
