(* ===== verification/Decoding.thy ===== *)
theory Decoding
  imports Parsing
begin

text \<open>
  Decoding the bytes of a frame gives back what the frame was built from, for each frame type;
  a frame for another application or with a wrong checksum is refused.
\<close>

section \<open>Header and footer\<close>

definition expected_ok :: "type_primitive option \<Rightarrow> int \<Rightarrow> bool" where
  "expected_ok eid a = (case eid of None \<Rightarrow> True | Some e \<Rightarrow> num_eq (VInt a) (tp_get e))"

lemma int_prims: "UINT8 \<in> set INTEGER_PRIMITIVES" "UINT16 \<in> set INTEGER_PRIMITIVES"
  "UINT32 \<in> set INTEGER_PRIMITIVES" "UINT64 \<in> set INTEGER_PRIMITIVES"
  by (simp_all add: INTEGER_PRIMITIVES_def)

lemma parse_header_run:
  assumes "reading b full (frame_header a t s n @ rest)" and "header_ok a t s"
    and "0 \<le> n" and "n < 2 ^ 32" and "FrameType t = Inr ty" and "expected_ok eid a"
  obtains b' where "parse_frame_header eid b =
      (Inr (a, Some \<lparr>fh_length = int (length full), fh_app_id = a, fh_type = ty, fh_timestamp = s,
                     fh_size = n\<rparr>), b')"
    and "reading b' full rest"
proof -
  have r0: "reading b full (be_bytes 2 a @ be_bytes 1 t @ be_bytes 8 s @ be_bytes 4 n @ rest)"
    using assms(1) by (simp add: frame_header_def)
  have e: "net_pack UINT16 (VInt a) = Inr (be_bytes 2 a)" "net_pack UINT8 (VInt t) = Inr (be_bytes 1 t)"
      "net_pack UINT64 (VInt s) = Inr (be_bytes 8 s)" "net_pack UINT32 (VInt n) = Inr (be_bytes 4 n)"
    using assms(2-4) net_pack_uint by (simp_all add: header_ok_def)
  obtain b1 where b1: "read_int UINT16 b = (Inr a, b1)"
      "reading b1 full (be_bytes 1 t @ be_bytes 8 s @ be_bytes 4 n @ rest)"
    by (rule reading_int [OF r0 e(1) int_prims(2)])
  obtain b2 where b2: "read_int UINT8 b1 = (Inr t, b2)" "reading b2 full (be_bytes 8 s @ be_bytes 4 n @ rest)"
    by (rule reading_int [OF b1(2) e(2) int_prims(1)])
  obtain b3 where b3: "read_int UINT64 b2 = (Inr s, b3)" "reading b3 full (be_bytes 4 n @ rest)"
    by (rule reading_int [OF b2(2) e(3) int_prims(4)])
  obtain b4 where b4: "read_int UINT32 b3 = (Inr n, b4)" "reading b4 full rest"
    by (rule reading_int [OF b3(2) e(4) int_prims(3)])
  have sz: "bb_size b1 = int (length full)" using b1(2) by (simp add: reading_def)
  have "\<not> (case eid of Some e \<Rightarrow> \<not> num_eq (VInt a) (tp_get e) | None \<Rightarrow> False)"
    using assms(6) by (simp add: expected_ok_def split: option.splits)
  then have "parse_frame_header eid b =
      (Inr (a, Some \<lparr>fh_length = int (length full), fh_app_id = a, fh_type = ty, fh_timestamp = s,
                     fh_size = n\<rparr>), b4)"
    unfolding parse_frame_header_def
    using b1(1) b2(1) b3(1) b4(1) sz assms(5) by simp
  with b4(2) that show thesis by blast
qed

lemma parse_header_mismatch:
  assumes "reading b full (be_bytes 2 a @ rest)" and "0 \<le> a" and "a < 2 ^ 16"
    and "\<not> expected_ok eid a"
  obtains b' where "parse_frame_header eid b = (Inr (a, None), b')"
proof -
  obtain b1 where "read_int UINT16 b = (Inr a, b1)"
    using reading_int [OF assms(1) net_pack_uint(2) [OF assms(2,3)] int_prims(2)] by blast
  moreover have "(case eid of Some e \<Rightarrow> \<not> num_eq (VInt a) (tp_get e) | None \<Rightarrow> False)"
    using assms(4) by (simp add: expected_ok_def split: option.splits)
  ultimately show thesis using that unfolding parse_frame_header_def by simp
qed

lemma footer_none:
  assumes "reading b full []"
  shows "parse_frame_footer b = (Inr \<lparr>ff_crc = None\<rparr>, b)"
proof -
  have "remaining b = 0"
    using reading_pos [OF assms] assms by (simp add: remaining_def get_pos_def reading_def)
  then show ?thesis by (simp add: parse_frame_footer_def can_read_def)
qed

lemma footer_crc:
  assumes "reading b (p @ be_bytes 4 c) (be_bytes 4 c)" and "0 \<le> c" and "c < 2 ^ 32"
  obtains b1 b2 where "parse_frame_footer b = (Inr \<lparr>ff_crc = Some c\<rparr>, b1)"
    and "crc_matches c b1 = (Inr (c = uint (zlib_crc32 p 0)), b2)"
proof -
  let ?full = "p @ be_bytes 4 c"
  have r: "reading b ?full (be_bytes 4 c @ [])" using assms(1) by simp
  obtain b1 where b1: "read_int UINT32 b = (Inr c, b1)" "reading b1 ?full []"
    by (rule reading_int [OF r net_pack_uint(3) [OF assms(2,3)] int_prims(3)])
  have "remaining b = 4"
    using reading_pos [OF assms(1)] assms(1) by (simp add: remaining_def get_pos_def reading_def)
  then have f: "parse_frame_footer b = (Inr \<lparr>ff_crc = Some c\<rparr>, b1)"
    using b1(1) by (simp add: parse_frame_footer_def can_read_def)
  have pos: "bb_pos b1 = int (length p) + 4" using reading_pos [OF b1(2)] by simp
  have d: "bb_data b1 = ?full" using b1(2) by (simp add: reading_def)
  have "crc32 0 (b1\<lparr>bb_size := int (length p)\<rparr>) = uint (zlib_crc32 p 0)"
    using d by (simp add: crc32_def crc_def py_slice_from0)
  then have "crc_matches c b1 = (Inr (c = uint (zlib_crc32 p 0)), b1\<lparr>bb_size := int (length p)\<rparr>)"
    using pos by (simp add: crc_matches_def get_pos_def)
  with f that show thesis by blast
qed

section \<open>Whole frames\<close>

definition header_tuple :: "byte list \<Rightarrow> int \<Rightarrow> frame_type \<Rightarrow> int \<Rightarrow> int \<Rightarrow> frame_header_tuple" where
  "header_tuple full a ty s n =
     \<lparr>fh_length = int (length full), fh_app_id = a, fh_type = ty, fh_timestamp = s, fh_size = n\<rparr>"

text \<open>A body that its parser reads completely, whatever follows it.\<close>

definition body_reads :: "frame_type \<Rightarrow> int \<Rightarrow> channel_registry \<Rightarrow> byte list \<Rightarrow> parsed_body \<Rightarrow> bool" where
  "body_reads ty n reg body result \<longleftrightarrow>
     (\<forall>b full rest hdr. reading b full (body @ rest) \<longrightarrow> fh_size hdr = n \<longrightarrow>
        (\<exists>b'. PARSERS ty hdr (b, reg) = (Inr result, (b', reg)) \<and> reading b' full rest))"

lemma decode_prefix:
  assumes "header_ok a (frame_type_value ty) s" and "0 \<le> n" and "n < 2 ^ 32"
    and "expected_ok eid a" and "body_reads ty n reg body result"
    and "full = frame_header a (frame_type_value ty) s n @ body @ rest"
  obtains b where "reading b full rest" and "decode_steps eid (new_buffer full False (int (length full)) ''!'', reg) =
      bindp (in_buf parse_frame_footer) (\<lambda>footer.
         case ff_crc footer of
           None \<Rightarrow> ret (Some \<lparr>pf_header = header_tuple full a ty s n, pf_body = result, pf_footer = footer\<rparr>)
         | Some c \<Rightarrow> bindp (in_buf (crc_matches c)) (\<lambda>ok.
             ret (if ok then Some \<lparr>pf_header = header_tuple full a ty s n, pf_body = result,
                    pf_footer = footer\<rparr> else None))) (b, reg)"
proof -
  let ?b0 = "new_buffer full False (int (length full)) ''!''"
  have r: "reading ?b0 full (frame_header a (frame_type_value ty) s n @ body @ rest)"
    using reading_new [of full] assms(6) by simp
  obtain b1 where b1: "parse_frame_header eid ?b0 = (Inr (a, Some (header_tuple full a ty s n)), b1)"
      "reading b1 full (body @ rest)"
    unfolding header_tuple_def
    by (rule parse_header_run [OF r assms(1-3) FrameType_value assms(4)])
  have hs: "fh_size (header_tuple full a ty s n) = n" by (simp add: header_tuple_def)
  obtain b2 where b2: "PARSERS ty (header_tuple full a ty s n) (b1, reg) = (Inr result, (b2, reg))"
      "reading b2 full rest"
    using assms(5) b1(2) hs unfolding body_reads_def by blast
  have "fh_type (header_tuple full a ty s n) = ty" by (simp add: header_tuple_def)
  with b1(1) b2 that [OF b2(2)] show thesis by (simp add: decode_steps_def)
qed

lemma decode_image:
  assumes "header_ok a (frame_type_value ty) s" and "0 \<le> n" and "n < 2 ^ 32"
    and "expected_ok eid a" and "body_reads ty n reg body result"
    and "full = frame_image with_crc a (frame_type_value ty) s n body"
  shows "decode_frame full (int (length full)) eid reg =
    (Inr (Some \<lparr>pf_header = header_tuple full a ty s n, pf_body = result,
       pf_footer = \<lparr>ff_crc = (if with_crc
         then Some (uint (zlib_crc32 (frame_header a (frame_type_value ty) s n @ body) 0)) else None)\<rparr>\<rparr>), reg)"
proof (cases with_crc)
  case True
  let ?p = "frame_header a (frame_type_value ty) s n @ body"
  let ?c = "uint (zlib_crc32 ?p 0)"
  have full: "full = frame_header a (frame_type_value ty) s n @ body @ be_bytes 4 ?c"
    using assms(6) True by (simp add: frame_image_def Let_def)
  have c: "0 \<le> ?c" "?c < 2 ^ 32" using uint_lt2p [of "zlib_crc32 ?p 0"] by simp_all
  obtain b where b: "reading b full (be_bytes 4 ?c)"
      "decode_steps eid (new_buffer full False (int (length full)) ''!'', reg) =
      bindp (in_buf parse_frame_footer) (\<lambda>footer.
         case ff_crc footer of
           None \<Rightarrow> ret (Some \<lparr>pf_header = header_tuple full a ty s n, pf_body = result, pf_footer = footer\<rparr>)
         | Some c \<Rightarrow> bindp (in_buf (crc_matches c)) (\<lambda>ok.
             ret (if ok then Some \<lparr>pf_header = header_tuple full a ty s n, pf_body = result,
                    pf_footer = footer\<rparr> else None))) (b, reg)"
    by (rule decode_prefix [OF assms(1-5) full])
  have r: "reading b (?p @ be_bytes 4 ?c) (be_bytes 4 ?c)" using b(1) full by simp
  obtain b1 b2 where "parse_frame_footer b = (Inr \<lparr>ff_crc = Some ?c\<rparr>, b1)"
      "crc_matches ?c b1 = (Inr (?c = uint (zlib_crc32 ?p 0)), b2)"
    by (rule footer_crc [OF r c])
  with b(2) True show ?thesis by (simp add: decode_frame_def)
next
  case False
  have full: "full = frame_header a (frame_type_value ty) s n @ body @ []"
    using assms(6) False by (simp add: frame_image_def Let_def)
  obtain b where b: "reading b full []"
      "decode_steps eid (new_buffer full False (int (length full)) ''!'', reg) =
      bindp (in_buf parse_frame_footer) (\<lambda>footer.
         case ff_crc footer of
           None \<Rightarrow> ret (Some \<lparr>pf_header = header_tuple full a ty s n, pf_body = result, pf_footer = footer\<rparr>)
         | Some c \<Rightarrow> bindp (in_buf (crc_matches c)) (\<lambda>ok.
             ret (if ok then Some \<lparr>pf_header = header_tuple full a ty s n, pf_body = result,
                    pf_footer = footer\<rparr> else None))) (b, reg)"
    by (rule decode_prefix [OF assms(1-5) full])
  with footer_none [OF b(1)] False show ?thesis by (simp add: decode_frame_def)
qed

text \<open>A checksum that is not that of the bytes before it is refused.\<close>

lemma decode_bad_crc:
  assumes "header_ok a (frame_type_value ty) s" and "0 \<le> n" and "n < 2 ^ 32"
    and "expected_ok eid a" and "body_reads ty n reg body result"
    and "0 \<le> c" and "c < 2 ^ 32"
    and "c \<noteq> uint (zlib_crc32 (frame_header a (frame_type_value ty) s n @ body) 0)"
    and "full = frame_header a (frame_type_value ty) s n @ body @ be_bytes 4 c"
  shows "decode_frame full (int (length full)) eid reg = (Inr None, reg)"
proof -
  let ?p = "frame_header a (frame_type_value ty) s n @ body"
  obtain b where b: "reading b full (be_bytes 4 c)"
      "decode_steps eid (new_buffer full False (int (length full)) ''!'', reg) =
      bindp (in_buf parse_frame_footer) (\<lambda>footer.
         case ff_crc footer of
           None \<Rightarrow> ret (Some \<lparr>pf_header = header_tuple full a ty s n, pf_body = result, pf_footer = footer\<rparr>)
         | Some c \<Rightarrow> bindp (in_buf (crc_matches c)) (\<lambda>ok.
             ret (if ok then Some \<lparr>pf_header = header_tuple full a ty s n, pf_body = result,
                    pf_footer = footer\<rparr> else None))) (b, reg)"
    by (rule decode_prefix [OF assms(1-5,9)])
  have r: "reading b (?p @ be_bytes 4 c) (be_bytes 4 c)" using b(1) assms(9) by simp
  obtain b1 b2 where "parse_frame_footer b = (Inr \<lparr>ff_crc = Some c\<rparr>, b1)"
      "crc_matches c b1 = (Inr (c = uint (zlib_crc32 ?p 0)), b2)"
    by (rule footer_crc [OF r assms(6,7)])
  with b(2) assms(8) show ?thesis by (simp add: decode_frame_def)
qed

text \<open>A frame of another application is refused before anything else of it is read.\<close>

lemma decode_mismatch:
  assumes "0 \<le> a" and "a < 2 ^ 16" and "\<not> expected_ok eid a" and "full = be_bytes 2 a @ rest"
  shows "decode_frame full (int (length full)) eid reg = (Inr None, reg)"
proof -
  have r: "reading (new_buffer full False (int (length full)) ''!'') full (be_bytes 2 a @ rest)"
    using reading_new [of full] assms(4) by simp
  obtain b' where "parse_frame_header eid (new_buffer full False (int (length full)) ''!'') = (Inr (a, None), b')"
    by (rule parse_header_mismatch [OF r assms(1-3)])
  then show ?thesis by (simp add: decode_frame_def decode_steps_def)
qed

section \<open>Bodies\<close>

text \<open>The registered channel of an identifier, as the frames refer to it.\<close>

definition registered :: "(string \<times> channel) list \<Rightarrow> nat \<Rightarrow> bool" where
  "registered xs i \<longleftrightarrow> i < length xs \<and> i < 2 ^ 16 \<and> \<not> ch_is_stream (snd (xs ! i))"

lemma read_channel_run:
  assumes "reg_rel reg xs" and "registered xs i" and "reading b full (be_bytes 2 (int i) @ rest)"
  obtains b' where "read_channel (b, reg) = (Inr (int i, snd (xs ! i)), (b', reg))"
    and "reading b' full rest"
proof -
  have i: "(0 :: int) \<le> int i" "int i < 2 ^ 16" using assms(2) by (simp_all add: registered_def)
  obtain b1 where b1: "read_int UINT16 b = (Inr (int i), b1)" "reading b1 full rest"
    by (rule reading_int [OF assms(3) net_pack_uint(2) [OF i] int_prims(2)])
  have "get_item (int i) reg = (Inr (Some (snd (xs ! i))), reg)"
    using get_item_known [OF assms(1)] assms(2) by (simp add: registered_def)
  with b1 that assms(2) show thesis by (simp add: read_channel_def registered_def)
qed

definition id_bytes :: "nat list \<Rightarrow> byte list" where
  "id_bytes is = concat (map (\<lambda>i. be_bytes 2 (int i)) is)"

lemma read_channels_run:
  assumes "reg_rel reg xs" and "\<forall>i \<in> set is. registered xs i" and "reading b full (id_bytes is @ rest)"
  shows "\<exists>b'. read_channels (int (length is)) (b, reg) =
      (Inr (map (\<lambda>i. (int i, snd (xs ! i))) is), (b', reg)) \<and> reading b' full rest"
  using assms(2,3)
proof (induction "is" arbitrary: b)
  case Nil
  then show ?case by (simp add: read_channels_def id_bytes_def)
next
  case (Cons i "is")
  have r: "reading b full (be_bytes 2 (int i) @ id_bytes is @ rest)"
    using Cons.prems(2) by (simp add: id_bytes_def)
  obtain b1 where b1: "read_channel (b, reg) = (Inr (int i, snd (xs ! i)), (b1, reg))"
      "reading b1 full (id_bytes is @ rest)"
    using read_channel_run [OF assms(1) _ r] Cons.prems(1) by auto
  obtain b2 where b2: "read_channels (int (length is)) (b1, reg) =
      (Inr (map (\<lambda>i. (int i, snd (xs ! i))) is), (b2, reg))" "reading b2 full rest"
    using Cons.IH [OF _ b1(2)] Cons.prems(1) by auto
  then show ?case using b1(1) by (simp add: read_channels_def nat_add_distrib)
qed

text \<open>The values of a data frame: what arrives for each value that was packed.\<close>

lemma read_values_run:
  assumes "list_all2 (\<lambda>(i, c, v) vs. net_pack (tp_type c) v = Inr vs) es vss"
    and "reading b full (concat vss @ rest)"
  shows "\<exists>b'. map_each read_value (map (\<lambda>(i, c, v). (i, c)) es) (b, reg) =
      (Inr (map (\<lambda>(i, c, v). (i, c, wire (tp_type c) v)) es), (b', reg)) \<and> reading b' full rest"
  using assms
proof (induction es vss arbitrary: b rule: list_all2_induct)
  case Nil
  then show ?case by simp
next
  case (Cons e es vs vss)
  obtain i c v where e: "e = (i, c, v)" by (cases e)
  have r: "reading b full (vs @ concat vss @ rest)" using Cons.prems by simp
  have p: "net_pack (tp_type c) v = Inr vs" using Cons.hyps(1) e by simp
  obtain b1 where b1: "bb_read (tp_type c) False b = (Inr (wire (tp_type c) v), b1)"
      "reading b1 full (concat vss @ rest)"
    by (rule reading_rd [OF r p])
  obtain b2 where "map_each read_value (map (\<lambda>(i, c, v). (i, c)) es) (b1, reg) =
      (Inr (map (\<lambda>(i, c, v). (i, c, wire (tp_type c) v)) es), (b2, reg))" "reading b2 full rest"
    using Cons.IH [OF b1(2)] by auto
  moreover have "read_value (i, c) (b, reg) = (Inr (i, c, wire (tp_type c) v), (b1, reg))"
    using b1(1) by (simp add: read_value_def)
  ultimately show ?case using e by simp
qed

text \<open>A data frame's elements: an identifier, the value to send and the bytes it packs to.\<close>

definition data_elements :: "(string \<times> channel) list \<Rightarrow> (nat \<times> pyval) list \<Rightarrow> byte list list \<Rightarrow> bool" where
  "data_elements xs es vss \<longleftrightarrow>
     list_all2 (\<lambda>(i, v) vs. registered xs i \<and> net_pack (tp_type (snd (xs ! i))) v = Inr vs) es vss"

lemma data_body_reads:
  assumes "reg_rel reg xs" and "data_elements xs es vss"
  shows "body_reads DATA (int (length es)) reg (id_bytes (map fst es) @ concat vss)
    (DataBody (map (\<lambda>(i, v). (int i, snd (xs ! i), wire (tp_type (snd (xs ! i))) v)) es))"
  unfolding body_reads_def
proof (intro allI impI)
  fix b full rest and hdr :: frame_header_tuple
  assume r: "reading b full ((id_bytes (map fst es) @ concat vss) @ rest)"
    and sz: "fh_size hdr = int (length es)"
  let ?cs = "map (\<lambda>(i, v). (int i, snd (xs ! i), v)) es"
  have reg: "\<forall>i \<in> set (map fst es). registered xs i"
    using assms(2) by (auto simp: data_elements_def list_all2_conv_all_nth in_set_conv_nth split: prod.splits)
  have pk: "list_all2 (\<lambda>(i, c, v) vs. net_pack (tp_type c) v = Inr vs) ?cs vss"
    using assms(2) by (auto simp: data_elements_def list_all2_map1 split: prod.splits
        elim!: list_all2_mono)
  obtain b1 where b1: "read_channels (int (length es)) (b, reg) =
      (Inr (map (\<lambda>i. (int i, snd (xs ! i))) (map fst es)), (b1, reg))"
      "reading b1 full (concat vss @ rest)"
    using read_channels_run [OF assms(1) reg, of b full "concat vss @ rest"] r by auto
  have ids: "map (\<lambda>i. (int i, snd (xs ! i))) (map fst es) = map (\<lambda>(i, c, v). (i, c)) ?cs"
    by (auto simp: comp_def split: prod.splits)
  obtain b2 where b2: "map_each read_value (map (\<lambda>(i, c, v). (i, c)) ?cs) (b1, reg) =
      (Inr (map (\<lambda>(i, c, v). (i, c, wire (tp_type c) v)) ?cs), (b2, reg))" "reading b2 full rest"
    using read_values_run [OF pk b1(2)] by auto
  have out: "map (\<lambda>(i, c, v). (i, c, wire (tp_type c) v)) ?cs =
      map (\<lambda>(i, v). (int i, snd (xs ! i), wire (tp_type (snd (xs ! i))) v)) es"
    by (auto simp: comp_def split: prod.splits)
  have "PARSERS DATA hdr (b, reg) = (Inr (DataBody
      (map (\<lambda>(i, v). (int i, snd (xs ! i), wire (tp_type (snd (xs ! i))) v)) es)), (b2, reg))"
    unfolding PARSERS.simps parse_data_frame_def sz
    using b1(1) b2(1) by (simp only: bindp_Inr ids out ret_apply)
  with b2(2) show "\<exists>b'. PARSERS DATA hdr (b, reg) = (Inr (DataBody
      (map (\<lambda>(i, v). (int i, snd (xs ! i), wire (tp_type (snd (xs ! i))) v)) es)), (b', reg)) \<and>
      reading b' full rest"
    by blast
qed

text \<open>An event's value arrives as the wire carries it, its time in milliseconds.\<close>

definition timed_arrives :: "primitive \<Rightarrow> timed_value \<Rightarrow> byte list \<Rightarrow> pyval \<times> int \<Rightarrow> bool" where
  "timed_arrives ty tv bs r \<longleftrightarrow>
     (\<exists>vs. net_pack ty (convert (py_type_of (prim_value ty)) (fst tv)) = Inr vs \<and>
        time_to_int (snd tv) 1000 = Inr (snd r) \<and> 0 \<le> snd r \<and> snd r < 2 ^ 64 \<and>
        bs = vs @ be_bytes 8 (snd r) \<and> fst r = wire ty (convert (py_type_of (prim_value ty)) (fst tv)))"

lemma timed_image_arrives: "timed_image ty tv bs \<Longrightarrow> \<exists>r. timed_arrives ty tv bs r"
  unfolding timed_image_def timed_arrives_def by fastforce

lemma read_timed_run:
  assumes "timed_arrives ty tv bs r" and "reading b full (bs @ rest)"
  shows "\<exists>b'. read_timed ty (b, reg) = (Inr r, (b', reg)) \<and> reading b' full rest"
proof -
  from assms(1) obtain vs where vs: "net_pack ty (convert (py_type_of (prim_value ty)) (fst tv)) = Inr vs"
      "0 \<le> snd r" "snd r < 2 ^ 64" "bs = vs @ be_bytes 8 (snd r)"
      "fst r = wire ty (convert (py_type_of (prim_value ty)) (fst tv))"
    by (auto simp: timed_arrives_def)
  have r0: "reading b full (vs @ be_bytes 8 (snd r) @ rest)" using assms(2) vs(4) by simp
  obtain b1 where b1: "bb_read ty False b = (Inr (fst r), b1)" "reading b1 full (be_bytes 8 (snd r) @ rest)"
    using reading_rd [OF r0 vs(1)] vs(5) by metis
  obtain b2 where b2: "read_int UINT64 b1 = (Inr (snd r), b2)" "reading b2 full rest"
    by (rule reading_int [OF b1(2) net_pack_uint(4) [OF vs(2,3)] int_prims(4)])
  show ?thesis using b1(1) b2 by (simp add: read_timed_def)
qed

text \<open>An event frame's elements: an identifier, the two values with times, and what arrives of them.\<close>

type_synonym event_element = "nat \<times> timed_value \<times> timed_value"

definition event_arrives :: "(string \<times> channel) list \<Rightarrow> event_element \<Rightarrow> byte list \<Rightarrow> parsed_event \<Rightarrow> bool" where
  "event_arrives xs e bs r \<longleftrightarrow>
     (case e of (i, prev, cur) \<Rightarrow>
        registered xs i \<and> pe_id r = int i \<and> pe_channel r = snd (xs ! i) \<and>
        (\<exists>ps cs. bs = ps @ cs \<and> timed_arrives (tp_type (snd (xs ! i))) prev ps (pe_previous r) \<and>
           timed_arrives (tp_type (snd (xs ! i))) cur cs (pe_current r)))"

lemma read_event_run:
  assumes "event_arrives xs (i, prev, cur) bs r" and "reading b full (bs @ rest)"
  shows "\<exists>b'. read_event (int i, snd (xs ! i)) (b, reg) = (Inr r, (b', reg)) \<and> reading b' full rest"
proof -
  from assms(1) obtain ps cs where r: "pe_id r = int i" "pe_channel r = snd (xs ! i)" "bs = ps @ cs"
      "timed_arrives (tp_type (snd (xs ! i))) prev ps (pe_previous r)"
      "timed_arrives (tp_type (snd (xs ! i))) cur cs (pe_current r)"
    by (auto simp: event_arrives_def)
  have r0: "reading b full (ps @ cs @ rest)" using assms(2) r(3) by simp
  obtain b1 where b1: "read_timed (tp_type (snd (xs ! i))) (b, reg) = (Inr (pe_previous r), (b1, reg))"
      "reading b1 full (cs @ rest)"
    using read_timed_run [OF r(4) r0] by auto
  obtain b2 where b2: "read_timed (tp_type (snd (xs ! i))) (b1, reg) = (Inr (pe_current r), (b2, reg))"
      "reading b2 full rest"
    using read_timed_run [OF r(5) b1(2)] by auto
  have "\<lparr>pe_id = int i, pe_channel = snd (xs ! i), pe_previous = pe_previous r,
      pe_current = pe_current r\<rparr> = r"
    using r(1,2) by simp
  with b1(1) b2 show ?thesis by (simp add: read_event_def)
qed

lemma read_events_run:
  assumes "list_all2 (\<lambda>(e, r) bs. event_arrives xs e bs r) ers bss"
    and "reading b full (concat bss @ rest)"
  shows "\<exists>b'. map_each read_event (map (\<lambda>(e, r). (int (fst e), snd (xs ! fst e))) ers) (b, reg) =
      (Inr (map snd ers), (b', reg)) \<and> reading b' full rest"
  using assms
proof (induction ers bss arbitrary: b rule: list_all2_induct)
  case Nil
  then show ?case by simp
next
  case (Cons x ers bs bss)
  obtain i prev cur r where x: "x = ((i, prev, cur), r)" by (cases x) auto
  have r0: "reading b full (bs @ concat bss @ rest)" using Cons.prems by simp
  have ev: "event_arrives xs (i, prev, cur) bs r" using Cons.hyps(1) x by simp
  obtain b1 where b1: "read_event (int i, snd (xs ! i)) (b, reg) = (Inr r, (b1, reg))"
      "reading b1 full (concat bss @ rest)"
    using read_event_run [OF ev r0] by auto
  with Cons.IH [OF b1(2)] x show ?case by auto
qed

lemma event_body_reads:
  assumes "reg_rel reg xs" and "list_all2 (\<lambda>(e, r) bs. event_arrives xs e bs r) ers bss"
  shows "body_reads EVENT (int (length ers)) reg (id_bytes (map (fst \<circ> fst) ers) @ concat bss)
    (EventBody (map snd ers))"
  unfolding body_reads_def
proof (intro allI impI)
  fix b full rest and hdr :: frame_header_tuple
  assume r: "reading b full ((id_bytes (map (fst \<circ> fst) ers) @ concat bss) @ rest)"
    and sz: "fh_size hdr = int (length ers)"
  have reg: "\<forall>i \<in> set (map (fst \<circ> fst) ers). registered xs i"
    using assms(2) by (auto simp: event_arrives_def list_all2_conv_all_nth in_set_conv_nth split: prod.splits)
  obtain b1 where b1: "read_channels (int (length ers)) (b, reg) =
      (Inr (map (\<lambda>i. (int i, snd (xs ! i))) (map (fst \<circ> fst) ers)), (b1, reg))"
      "reading b1 full (concat bss @ rest)"
    using read_channels_run [OF assms(1) reg, of b full "concat bss @ rest"] r by auto
  have ids: "map (\<lambda>i. (int i, snd (xs ! i))) (map (fst \<circ> fst) ers) =
      map (\<lambda>(e, r). (int (fst e), snd (xs ! fst e))) ers"
    by (auto simp: comp_def split: prod.splits)
  obtain b2 where b2: "map_each read_event (map (\<lambda>(e, r). (int (fst e), snd (xs ! fst e))) ers) (b1, reg) =
      (Inr (map snd ers), (b2, reg))" "reading b2 full rest"
    using read_events_run [OF assms(2) b1(2)] by auto
  have "PARSERS EVENT hdr (b, reg) = (Inr (EventBody (map snd ers)), (b2, reg))"
    unfolding PARSERS.simps parse_event_frame_def sz
    using b1(1) b2(1) by (simp only: bindp_Inr ids ret_apply)
  with b2(2) show "\<exists>b'. PARSERS EVENT hdr (b, reg) = (Inr (EventBody (map snd ers)), (b', reg)) \<and>
      reading b' full rest"
    by blast
qed

text \<open>A message frame's five fields and its fragment.\<close>

definition message_fields :: "int \<Rightarrow> int \<Rightarrow> int \<Rightarrow> int \<Rightarrow> int \<Rightarrow> (string, pyval) dict" where
  "message_fields ty num c idx tot =
     [(''message_type'', VInt ty), (''message_number'', VInt num), (''message_crc'', VInt c),
      (''fragment_index'', VInt idx), (''total_fragments'', VInt tot)]"

lemma reading_each:
  assumes "list_all2 (\<lambda>(p, v) bs. net_pack p v = Inr bs) fs bss"
    and "reading b full (concat bss @ rest)"
  shows "\<exists>b'. map_each (\<lambda>p. bb_read p False) (map fst fs) b = (Inr (map (\<lambda>(p, v). wire p v) fs), b') \<and>
    reading b' full rest"
  using source.read_each [of b fs bss rest] assms by (auto simp: reading_def)

lemma message_body_reads:
  assumes "fields_ok ty num c idx tot"
  shows "body_reads MESSAGE (int (length frag)) reg (message_header ty num c idx tot @ frag)
    (MessageBody (message_fields ty num c idx tot) frag)"
  unfolding body_reads_def
proof (intro allI impI)
  fix b full rest and hdr :: frame_header_tuple
  assume r: "reading b full ((message_header ty num c idx tot @ frag) @ rest)"
    and sz: "fh_size hdr = int (length frag)"
  let ?fs = "[(UINT8, VInt ty), (UINT16, VInt num), (UINT32, VInt c), (UINT16, VInt idx), (UINT16, VInt tot)]"
  let ?bss = "[be_bytes 1 ty, be_bytes 2 num, be_bytes 4 c, be_bytes 2 idx, be_bytes 2 tot]"
  have pk: "list_all2 (\<lambda>(p, v) bs. net_pack p v = Inr bs) ?fs ?bss"
    using assms net_pack_uint by (simp add: fields_ok_def del: be_bytes.simps)
  have r': "reading b full (concat ?bss @ frag @ rest)"
    using r by (simp add: message_header_def)
  obtain b1 where b1: "map_each (\<lambda>p. bb_read p False) (map fst ?fs) b =
      (Inr (map (\<lambda>(p, v). wire p v) ?fs), b1)" "reading b1 full (frag @ rest)"
    using reading_each [OF pk r'] by blast
  obtain b2 where b2: "read_bytes (int (length frag)) False b1 = (Inr frag, b2)" "reading b2 full rest"
    by (rule reading_bytes [OF b1(2)])
  have ps: "map snd MESSAGE_FIELDS = map fst ?fs" by (simp add: MESSAGE_FIELDS_def)
  have out: "zip (map fst MESSAGE_FIELDS) (map (\<lambda>(p, v). wire p v) ?fs) = message_fields ty num c idx tot"
    by (simp add: MESSAGE_FIELDS_def message_fields_def)
  have "PARSERS MESSAGE hdr (b, reg) =
      (Inr (MessageBody (message_fields ty num c idx tot) frag), (b2, reg))"
    unfolding PARSERS.simps parse_message_frame_def sz ps
    using b1(1) b2(1) by (simp only: bindp_Inr zoom_run fst_conv snd_conv out ret_apply)
  with b2(2) show "\<exists>b'. PARSERS MESSAGE hdr (b, reg) =
      (Inr (MessageBody (message_fields ty num c idx tot) frag), (b', reg)) \<and> reading b' full rest"
    by blast
qed

lemma to_parsed_fields:
  assumes "MessageType ty = Inr mt"
  shows "to_parsed (message_fields ty num c idx tot) frag =
    Inr \<lparr>pm_type = mt, pm_number = num, pm_crc = c, pm_fragment_index = idx,
         pm_total_fragments = tot, pm_data = frag\<rparr>"
  using assms by (simp add: to_parsed_def message_fields_def MESSAGE_FIELDS_def field_int_def)

section \<open>Properties\<close>



text \<open>
  A frame of another application than the expected one is not delivered, whatever
  follows its identifier: decoding returns nothing and looks no further.
\<close>

theorem foreign_frame_refused:
  assumes "0 \<le> a" and "a < 2 ^ 16" and "\<not> expected_ok eid a"
  shows "decode_frame (be_bytes 2 a @ rest) (int (length (be_bytes 2 a @ rest))) eid reg = (Inr None, reg)"
  using decode_mismatch [OF assms refl] .

theorem foreign_frame_refused_witness:
  "decode_frame (be_bytes 2 5 @ []) 2 (Some (new_type_primitive UINT16 False)) (new_channel_registry []) =
     (Inr None, new_channel_registry [])"
proof -
  have "\<not> expected_ok (Some (new_type_primitive UINT16 False)) 5" by code_simp
  from foreign_frame_refused [OF _ _ this, of "[]"] show ?thesis by simp
qed

end
