(* ===== verification/Channel_Frames.thy ===== *)
theory Channel_Frames
  imports Framer Decoding
begin

text \<open>
  Channel frames from end to end: elements added one after the other to a frame of the framer,
  the finished frame, and what the decoder finds in it.
\<close>

section \<open>Adding several elements\<close>

definition data_size :: "(string \<times> channel) list \<Rightarrow> (nat \<times> pyval) list \<Rightarrow> int" where
  "data_size xs es = (\<Sum>(i, v)\<leftarrow>es. 2 + get_size (tp_type (snd (xs ! i))))"

definition add_data :: "(string \<times> channel) list \<Rightarrow> nat \<times> pyval \<Rightarrow> (frame, bool) py" where
  "add_data xs = (\<lambda>(i, v). frame_add (int i) (tp_type (snd (xs ! i))) v)"

definition event_size :: "(string \<times> channel) list \<Rightarrow> event_element list \<Rightarrow> int" where
  "event_size xs es = (\<Sum>(i, _)\<leftarrow>es. 18 + 2 * get_size (tp_type (snd (xs ! i))))"

definition add_change :: "(string \<times> channel) list \<Rightarrow> event_element \<Rightarrow> (frame, bool) py" where
  "add_change xs = (\<lambda>(i, prev, cur). add_event (int i) (tp_type (snd (xs ! i))) prev cur)"

lemma data_size_nonneg: "0 \<le> data_size xs es"
  unfolding data_size_def by (rule sum_list_nonneg) (auto simp: add_nonneg_nonneg)

lemma event_size_nonneg: "0 \<le> event_size xs es"
  unfolding event_size_def by (rule sum_list_nonneg) (auto simp: add_nonneg_nonneg)

text \<open>Both values of an event are ones its channel accepts.\<close>

definition event_accepted :: "(string \<times> channel) list \<Rightarrow> event_element \<Rightarrow> bool" where
  "event_accepted xs = (\<lambda>(i, prev, cur).
     accepts (tp_type (snd (xs ! i))) (fst prev) \<and> accepts (tp_type (snd (xs ! i))) (fst cur))"

text \<open>A frame that grew from another by \<open>n\<close> elements.\<close>

definition grown :: "frame \<Rightarrow> frame \<Rightarrow> nat \<Rightarrow> int \<Rightarrow> bool" where
  "grown f f' n sz \<longleftrightarrow> fr_count_value f' = fr_count_value f + int n \<and> fr_class f' = fr_class f \<and>
     fr_mtu f' = fr_mtu f \<and> fr_crc f' = fr_crc f \<and> fr_used f' = fr_used f + sz"

lemma add_data_run:
  assumes "frame_open f a t s body elems" and "data_elements xs es vss"
    and "fr_used f + data_size xs es \<le> fr_mtu f"
  shows "\<exists>f'. map_each (add_data xs) es f = (Inr (replicate (length es) True), f') \<and>
    frame_open f' a t s (body @ id_bytes (map fst es)) (elems @ concat vss) \<and>
    grown f f' (length es) (data_size xs es)"
  using assms
proof (induction es arbitrary: f body elems vss)
  case Nil
  then show ?case by (simp add: data_elements_def id_bytes_def grown_def data_size_def)
next
  case (Cons e es)
  obtain i v where e: "e = (i, v)" by (cases e)
  from Cons.prems(2) e obtain vs vss' where vss: "vss = vs # vss'" "data_elements xs es vss'"
      "registered xs i" "net_pack (tp_type (snd (xs ! i))) v = Inr vs"
    by (auto simp: data_elements_def list_all2_Cons1)
  let ?sz = "2 + get_size (tp_type (snd (xs ! i)))"
  have sz: "data_size xs (e # es) = ?sz + data_size xs es" by (simp add: data_size_def e)
  have i: "0 \<le> int i" "int i < 2 ^ 16" using vss(3) by (simp_all add: registered_def)
  have fits: "fr_used f + 2 + get_size (tp_type (snd (xs ! i))) \<le> fr_mtu f"
    using Cons.prems(3) data_size_nonneg [of xs es] by (simp add: sz)
  obtain f1 where f1: "frame_add (int i) (tp_type (snd (xs ! i))) v f = (Inr True, f1)"
      "frame_open f1 a t s (body @ be_bytes 2 (int i)) (elems @ vs)"
      "fr_count_value f1 = fr_count_value f + 1" "fr_class f1 = fr_class f" "fr_mtu f1 = fr_mtu f"
      "fr_crc f1 = fr_crc f" "fr_used f1 = fr_used f + 2 + get_size (tp_type (snd (xs ! i)))"
    by (rule frame_add_run [OF Cons.prems(1) i vss(4) fits])
  have "fr_used f1 + data_size xs es \<le> fr_mtu f1" using Cons.prems(3) f1(5,7) by (simp add: sz)
  from Cons.IH [OF f1(2) vss(2) this] obtain f' where
    f': "map_each (add_data xs) es f1 = (Inr (replicate (length es) True), f')"
      "frame_open f' a t s ((body @ be_bytes 2 (int i)) @ id_bytes (map fst es)) ((elems @ vs) @ concat vss')"
      "grown f1 f' (length es) (data_size xs es)"
    by blast
  have "grown f f' (length (e # es)) (data_size xs (e # es))"
    using f'(3) f1 by (simp add: grown_def sz)
  with f1(1) f' show ?case
    by (simp add: e vss(1) add_data_def id_bytes_def)
qed

lemma add_change_run:
  assumes "frame_open f a t s body elems"
    and "list_all2 (\<lambda>(e, r) bs. event_arrives xs e bs r) ers bss"
    and "fr_used f + event_size xs (map fst ers) \<le> fr_mtu f"
    and "\<forall>er \<in> set ers. event_accepted xs (fst er)"
  shows "\<exists>f'. map_each (add_change xs) (map fst ers) f = (Inr (replicate (length ers) True), f') \<and>
    frame_open f' a t s (body @ id_bytes (map (fst \<circ> fst) ers)) (elems @ concat bss) \<and>
    grown f f' (length ers) (event_size xs (map fst ers))"
  using assms
proof (induction ers arbitrary: f body elems bss)
  case Nil
  then show ?case by (simp add: id_bytes_def grown_def event_size_def)
next
  case (Cons er ers)
  obtain i prev cur r where e: "er = ((i, prev, cur), r)" by (metis prod.collapse)
  from Cons.prems(2) e obtain ps cs bss' where bss: "bss = (ps @ cs) # bss'"
      "list_all2 (\<lambda>(e, r) bs. event_arrives xs e bs r) ers bss'" "registered xs i"
      "timed_arrives (tp_type (snd (xs ! i))) prev ps (pe_previous r)"
      "timed_arrives (tp_type (snd (xs ! i))) cur cs (pe_current r)"
    by (auto simp: list_all2_Cons1 event_arrives_def)
  let ?ty = "tp_type (snd (xs ! i))"
  have sz: "event_size xs (map fst (er # ers)) = 18 + 2 * get_size ?ty + event_size xs (map fst ers)"
    by (simp add: event_size_def e)
  have i: "0 \<le> int i" "int i < 2 ^ 16" using bss(3) by (simp_all add: registered_def)
  have imgs: "timed_image ?ty prev ps" "timed_image ?ty cur cs"
    using bss(4,5) Cons.prems(4) unfolding e timed_arrives_def timed_image_def
    by (auto simp: event_accepted_def simp del: prim_type_simps)
  have fits: "fr_used f + 2 + 2 * get_size ?ty + 16 \<le> fr_mtu f"
    using Cons.prems(3) event_size_nonneg [of xs "map fst ers"] unfolding sz by linarith
  obtain f1 where f1: "add_event (int i) ?ty prev cur f = (Inr True, f1)"
      "frame_open f1 a t s (body @ be_bytes 2 (int i)) (elems @ ps @ cs)"
      "fr_count_value f1 = fr_count_value f + 1" "fr_class f1 = fr_class f" "fr_mtu f1 = fr_mtu f"
      "fr_crc f1 = fr_crc f" "fr_used f1 = fr_used f + 2 + 2 * get_size ?ty + 16"
    by (rule add_event_run [OF Cons.prems(1) i imgs fits])
  have "fr_used f1 + event_size xs (map fst ers) \<le> fr_mtu f1"
    using Cons.prems(3) f1(5,7) unfolding sz by linarith
  moreover have "\<forall>er \<in> set ers. event_accepted xs (fst er)" using Cons.prems(4) by simp
  ultimately obtain f' where
    f': "map_each (add_change xs) (map fst ers) f1 = (Inr (replicate (length ers) True), f')"
      "frame_open f' a t s ((body @ be_bytes 2 (int i)) @ id_bytes (map (fst \<circ> fst) ers))
         ((elems @ ps @ cs) @ concat bss')"
      "grown f1 f' (length ers) (event_size xs (map fst ers))"
    using Cons.IH [OF f1(2) bss(2)] by blast
  have "grown f f' (length (er # ers)) (event_size xs (map fst (er # ers)))"
    using f'(3) f1 unfolding grown_def sz by simp
  with f1(1) f' show ?case
    by (simp add: e bss(1) add_change_def id_bytes_def comp_def)
qed

section \<open>The whole frame\<close>

text \<open>A finished channel frame of an open one, with the checksum of the framer.\<close>

lemma finish_channel_frame:
  assumes "frame_open f a t s body elems" and "fr_class f = ChannelFrame"
    and "fr_count_value f = int n" and "n < 2 ^ 32" and "(fr_crc f \<noteq> None) = c"
  shows "\<exists>f'. finalize True rnd f = (Inr (fr_used f), f') \<and> fr_finalized f' \<and>
    bb_data (fr_buffer f') = frame_image c a t s (int n) (body @ elems) \<and>
    fr_used f = int (length (bb_data (fr_buffer f'))) \<and> fr_used f \<le> fr_mtu f"
proof -
  have n: "0 \<le> int n" "int n < 2 ^ 32" using assms(4) by simp_all
  obtain f' where f': "finalize True rnd f = (Inr (fr_used f), f')" "fr_finalized f'"
      "bb_data (fr_buffer f') = sealed f True rnd (frame_header a t s (int n) @ body @ elems)"
    by (rule finalize_channel_frame [OF assms(1-3) n])
  have img: "bb_data (fr_buffer f') = frame_image c a t s (int n) (body @ elems)"
    using f'(3) assms(5) by (auto simp: sealed_def frame_image_def Let_def)
  have "fr_used f = 15 + (if c then 4 else 0) + int (length body) + int (length elems)"
    using assms(1,5) by (auto simp: frame_open_def crc_len_def)
  with img f' assms(1) show ?thesis by (auto simp: frame_open_def)
qed

lemma channel_class [simp]:
  "FRAME_CLASS_MAP (frame_type_name DATA) = ChannelFrame"
  "FRAME_CLASS_MAP (frame_type_name EVENT) = ChannelFrame"
  by (simp_all add: FRAME_CLASS_MAP_def)

text \<open>
  A frame of the framer to which a program adds \<open>n\<close> elements, finished and decoded: the decoder
  sees the body that was added.
\<close>

lemma channel_frame_run:
  assumes "framer_ok fr a" and "time_to_int time 1000 = Inr s" and "0 \<le> s" and "s < 2 ^ 64"
    and "15 + (if frm_use_crc fr then 4 else 0) < frm_mtu fr"
    and "FRAME_CLASS_MAP (frame_type_name t) = ChannelFrame"
    and adds: "\<forall>f. frame_open f a (frame_type_value t) s [] [] \<longrightarrow> fr_used f + sz \<le> fr_mtu f \<longrightarrow>
      (\<exists>f1. adds f = (Inr r, f1) \<and> frame_open f1 a (frame_type_value t) s ids vals \<and> grown f f1 n sz)"
    and "body_reads t (int n) reg (ids @ vals) result" and "n < 2 ^ 32"
    and "15 + (if frm_use_crc fr then 4 else 0) + sz \<le> frm_mtu fr" and "expected_ok eid a"
  shows "\<exists>f fr' f1 f2 k ft. new_frame (frame_type_name t) (Some time) fr = (Inr f, fr') \<and>
    adds f = (Inr r, f1) \<and> finalize True rnd f1 = (Inr k, f2) \<and> k \<le> frm_mtu fr \<and>
    k = int (length (bb_data (fr_buffer f2))) \<and>
    decode_frame (bb_data (fr_buffer f2)) k eid reg =
      (Inr (Some \<lparr>pf_header = header_tuple (bb_data (fr_buffer f2)) a t s (int n), pf_body = result,
                  pf_footer = ft\<rparr>), reg)"
proof -
  have time: "case Some time of None \<Rightarrow> True | Some x \<Rightarrow> (\<exists>n. time_to_int x 1000 = Inr n \<and> 0 \<le> n \<and> n < 2 ^ 64)"
    using assms(2-4) by simp
  obtain f fr' s' where f: "new_frame (frame_type_name t) (Some time) fr = (Inr f, fr')"
      "frame_open f a (frame_type_value t) s' [] []" "header_ok a (frame_type_value t) s'"
      "fr_class f = FRAME_CLASS_MAP (frame_type_name t)" "fr_mtu f = frm_mtu fr"
      "fr_count_value f = 0" "(fr_crc f \<noteq> None) = frm_use_crc fr"
      "\<forall>x. Some time = Some x \<longrightarrow> time_to_int x 1000 = Inr s'"
    by (rule new_frame_run [where t = t, OF assms(1) time assms(5)])
  have s': "s' = s" using f(8) assms(2) by simp
  have "fr_used f = 15 + (if frm_use_crc fr then 4 else 0)"
    using f(2,7) by (auto simp: frame_open_def crc_len_def)
  then have "fr_used f + sz \<le> fr_mtu f" using assms(10) f(5) by simp
  with adds f(2) s' obtain f1 where f1: "adds f = (Inr r, f1)"
      "frame_open f1 a (frame_type_value t) s ids vals" "grown f f1 n sz"
    by blast
  have g: "fr_class f1 = ChannelFrame" "fr_count_value f1 = int n"
      "(fr_crc f1 \<noteq> None) = frm_use_crc fr" "fr_mtu f1 = frm_mtu fr"
    using f1(3) f(4-7) assms(6) by (simp_all add: grown_def)
  obtain f2 where f2: "finalize True rnd f1 = (Inr (fr_used f1), f2)"
      "bb_data (fr_buffer f2) = frame_image (frm_use_crc fr) a (frame_type_value t) s (int n) (ids @ vals)"
      "fr_used f1 = int (length (bb_data (fr_buffer f2)))" "fr_used f1 \<le> fr_mtu f1"
    using finish_channel_frame [OF f1(2) g(1,2) assms(9) g(3)] by blast
  have n: "0 \<le> int n" "int n < 2 ^ 32" using assms(9) by simp_all
  have h: "header_ok a (frame_type_value t) s" using f(3) s' by simp
  from decode_image [OF h n assms(11,8) f2(2)] f(1) f1(1) f2(1,3,4) g(4) show ?thesis by auto
qed

text \<open>Time zero, for the examples below.\<close>

lemma fval_zero: "fval 0 = 0"
  by (simp add: fval_def dec_mag_def fmag_def fneg_bit_def Let_def)

lemma fl_zero: "fl 0 = 0"
  by (simp add: fl_def enc_mag_def fbits_def)

lemma fl_1000: "fl 1000 = 4652007308841189376"
  by code_simp

lemma time_to_int_zero: "time_to_int 0 1000 = Inr 0"
proof -
  have "fmul 0 4652007308841189376 = 0"
    by (simp add: fmul_def fnan_def finf_def inf_mag_def binary64_def fmag_def fval_zero fneg_bit_def
        enc_mag_def fbits_def)
  then show ?thesis
    by (simp add: time_to_int_def int_of_float_def fnan_def finf_def inf_mag_def binary64_def fmag_def
        fval_zero fl_zero fl_1000 rat_trunc_def Let_def)
qed

section \<open>Properties\<close>

text \<open>
  Property C4: channel values added to a data frame of a framer, as long as they fit, are all
  accepted; the finished frame is as long as it says and not longer than the framer's limit; and
  decoding it with the registry of the same channels yields exactly these channels with their
  values, in the order they were added, under the frame's application identifier and time.
\<close>

theorem data_frame_roundtrip:
  assumes "framer_ok fr a" and "time_to_int time 1000 = Inr s" and "0 \<le> s" and "s < 2 ^ 64"
    and "15 + (if frm_use_crc fr then 4 else 0) < frm_mtu fr"
    and "reg_rel reg xs" and "data_elements xs es vss" and "length es < 2 ^ 32"
    and "15 + (if frm_use_crc fr then 4 else 0) + data_size xs es \<le> frm_mtu fr"
    and "expected_ok eid a"
  shows "\<exists>f fr' f1 f2 n ft. new_frame ''data'' (Some time) fr = (Inr f, fr') \<and>
    map_each (add_data xs) es f = (Inr (replicate (length es) True), f1) \<and>
    finalize True rnd f1 = (Inr n, f2) \<and> n \<le> frm_mtu fr \<and> n = int (length (bb_data (fr_buffer f2))) \<and>
    decode_frame (bb_data (fr_buffer f2)) n eid reg =
      (Inr (Some \<lparr>pf_header = \<lparr>fh_length = n, fh_app_id = a, fh_type = DATA, fh_timestamp = s,
                               fh_size = int (length es)\<rparr>,
                  pf_body = DataBody (map (\<lambda>(i, v). (int i, snd (xs ! i), wire (tp_type (snd (xs ! i))) v)) es),
                  pf_footer = ft\<rparr>), reg)"
proof -
  have adds: "\<forall>f. frame_open f a (frame_type_value DATA) s [] [] \<longrightarrow> fr_used f + data_size xs es \<le> fr_mtu f \<longrightarrow>
      (\<exists>f1. map_each (add_data xs) es f = (Inr (replicate (length es) True), f1) \<and>
        frame_open f1 a (frame_type_value DATA) s (id_bytes (map fst es)) (concat vss) \<and>
        grown f f1 (length es) (data_size xs es))"
    using add_data_run [where body = "[]" and elems = "[]", OF _ assms(7)] by auto
  from channel_frame_run [OF assms(1-5) channel_class(1) adds data_body_reads [OF assms(6,7)] assms(8,9,10),
      of rnd]
  show ?thesis by (fastforce simp: header_tuple_def)
qed

theorem data_frame_roundtrip_witness:
  "\<exists>fr f fr' f1 f2 n p. new_framer 100 None 77 True = Inr fr \<and>
    new_frame ''data'' (Some 0) fr = (Inr f, fr') \<and>
    map_each (add_data [(''a'', new_channel ''a'' INT16 0 False True False)]) [(0, VInt (-2))] f = (Inr [True], f1) \<and>
    finalize True 0 f1 = (Inr n, f2) \<and>
    decode_frame (bb_data (fr_buffer f2)) n None (new_channel_registry [new_channel ''a'' INT16 0 False True False])
      = (Inr (Some p), new_channel_registry [new_channel ''a'' INT16 0 False True False]) \<and>
    pf_body p = DataBody [(0, new_channel ''a'' INT16 0 False True False, VInt (-2))]"
proof -
  let ?c = "new_channel ''a'' INT16 0 False True False"
  let ?xs = "[(''a'', ?c)]" and ?es = "[(0 :: nat, VInt (-2))]"
  obtain fr where fr: "new_framer 100 None 77 True = Inr fr" "framer_ok fr (77 mod 2 ^ 16)"
      "frm_mtu fr = 100" "frm_use_crc fr = True"
    using new_framer_random [of 100 77 True] by (elim exE conjE) (rule that)
  note t = time_to_int_zero
  have reg: "reg_rel (new_channel_registry [?c]) ?xs"
    using new_channel_registry_rel [of "[?c]"] by simp
  have "net_pack INT16 (VInt (-2)) = Inr [255, 254]" by code_simp
  then have els: "data_elements ?xs ?es [[255, 254]]" by (simp add: data_elements_def registered_def)
  have "\<exists>f fr' f1 f2 n ft. new_frame ''data'' (Some 0) fr = (Inr f, fr') \<and>
    map_each (add_data ?xs) ?es f = (Inr (replicate (length ?es) True), f1) \<and>
    finalize True 0 f1 = (Inr n, f2) \<and> n \<le> frm_mtu fr \<and> n = int (length (bb_data (fr_buffer f2))) \<and>
    decode_frame (bb_data (fr_buffer f2)) n None (new_channel_registry [?c]) =
      (Inr (Some \<lparr>pf_header = \<lparr>fh_length = n, fh_app_id = 77 mod 2 ^ 16, fh_type = DATA, fh_timestamp = 0,
                               fh_size = int (length ?es)\<rparr>,
                  pf_body = DataBody (map (\<lambda>(i, v). (int i, snd (?xs ! i), wire (tp_type (snd (?xs ! i))) v)) ?es),
                  pf_footer = ft\<rparr>), new_channel_registry [?c])"
    by (rule data_frame_roundtrip [OF fr(2) t _ _ _ reg els])
      (simp_all add: fr(3,4) data_size_def expected_ok_def)
  then show ?thesis using fr(1) by fastforce
qed

text \<open>
  Property C5: change events added to an event frame of a framer, as long as they fit, are all
  accepted; the finished frame is not longer than the framer's limit; and decoding it yields
  exactly these events, each with its channel and its previous and current value and time in
  milliseconds, in the order they were added.
\<close>

theorem event_frame_roundtrip:
  assumes "framer_ok fr a" and "time_to_int time 1000 = Inr s" and "0 \<le> s" and "s < 2 ^ 64"
    and "15 + (if frm_use_crc fr then 4 else 0) < frm_mtu fr"
    and "reg_rel reg xs" and "list_all2 (\<lambda>(e, r) bs. event_arrives xs e bs r) ers bss"
    and "\<forall>er \<in> set ers. event_accepted xs (fst er)" and "length ers < 2 ^ 32"
    and "15 + (if frm_use_crc fr then 4 else 0) + event_size xs (map fst ers) \<le> frm_mtu fr"
    and "expected_ok eid a"
  shows "\<exists>f fr' f1 f2 n ft. new_frame ''event'' (Some time) fr = (Inr f, fr') \<and>
    map_each (add_change xs) (map fst ers) f = (Inr (replicate (length ers) True), f1) \<and>
    finalize True rnd f1 = (Inr n, f2) \<and> n \<le> frm_mtu fr \<and> n = int (length (bb_data (fr_buffer f2))) \<and>
    decode_frame (bb_data (fr_buffer f2)) n eid reg =
      (Inr (Some \<lparr>pf_header = \<lparr>fh_length = n, fh_app_id = a, fh_type = EVENT, fh_timestamp = s,
                               fh_size = int (length ers)\<rparr>,
                  pf_body = EventBody (map snd ers), pf_footer = ft\<rparr>), reg)"
proof -
  have adds: "\<forall>f. frame_open f a (frame_type_value EVENT) s [] [] \<longrightarrow>
      fr_used f + event_size xs (map fst ers) \<le> fr_mtu f \<longrightarrow>
      (\<exists>f1. map_each (add_change xs) (map fst ers) f = (Inr (replicate (length ers) True), f1) \<and>
        frame_open f1 a (frame_type_value EVENT) s (id_bytes (map (fst \<circ> fst) ers)) (concat bss) \<and>
        grown f f1 (length ers) (event_size xs (map fst ers)))"
    using add_change_run [where body = "[]" and elems = "[]", OF _ assms(7) _ assms(8)] by auto
  from channel_frame_run [OF assms(1-5) channel_class(2) adds event_body_reads [OF assms(6,7)] assms(9,10,11),
      of rnd]
  show ?thesis by (fastforce simp: header_tuple_def)
qed

theorem event_frame_roundtrip_witness:
  "\<exists>fr f fr' f1 f2 n p. new_framer 100 None 77 False = Inr fr \<and>
    new_frame ''event'' (Some 0) fr = (Inr f, fr') \<and>
    map_each (add_change [(''a'', new_channel ''a'' UINT8 0 True True False)])
      [(0, (VInt 1, 0), (VInt 2, 0))] f = (Inr [True], f1) \<and>
    finalize True 0 f1 = (Inr n, f2) \<and>
    decode_frame (bb_data (fr_buffer f2)) n None (new_channel_registry [new_channel ''a'' UINT8 0 True True False])
      = (Inr (Some p), new_channel_registry [new_channel ''a'' UINT8 0 True True False]) \<and>
    pf_body p = EventBody [\<lparr>pe_id = 0, pe_channel = new_channel ''a'' UINT8 0 True True False,
      pe_previous = (VInt 1, 0), pe_current = (VInt 2, 0)\<rparr>]"
proof -
  let ?c = "new_channel ''a'' UINT8 0 True True False"
  let ?xs = "[(''a'', ?c)]"
  let ?r = "\<lparr>pe_id = 0, pe_channel = ?c, pe_previous = (VInt 1, 0), pe_current = (VInt 2, 0)\<rparr>"
  let ?ers = "[((0 :: nat, (VInt 1, 0 :: pyfloat), (VInt 2, 0 :: pyfloat)), ?r)]"
  obtain fr where fr: "new_framer 100 None 77 False = Inr fr" "framer_ok fr (77 mod 2 ^ 16)"
      "frm_mtu fr = 100" "frm_use_crc fr = False"
    using new_framer_random [of 100 77 False] by (elim exE conjE) (rule that)
  note t = time_to_int_zero
  have reg: "reg_rel (new_channel_registry [?c]) ?xs"
    using new_channel_registry_rel [of "[?c]"] by simp
  have "net_pack UINT8 (VInt 1) = Inr [1]" and "net_pack UINT8 (VInt 2) = Inr [2]" by code_simp+
  then have "timed_arrives UINT8 (VInt 1, 0) ([1] @ be_bytes 8 0) (VInt 1, 0)"
    and "timed_arrives UINT8 (VInt 2, 0) ([2] @ be_bytes 8 0) (VInt 2, 0)"
    by (simp_all add: timed_arrives_def t int_primitive_def)
  then have els: "list_all2 (\<lambda>(e, r) bs. event_arrives ?xs e bs r) ?ers [([1] @ be_bytes 8 0) @ ([2] @ be_bytes 8 0)]"
    unfolding event_arrives_def
    by (simp add: registered_def del: be_bytes.simps append_assoc)
      (metis append_Cons append_assoc)
  have "accepts UINT8 (VInt 1)" and "accepts UINT8 (VInt 2)" by (simp_all add: accepts_def) code_simp+
  then have acc: "\<forall>er \<in> set ?ers. event_accepted ?xs (fst er)" by (simp add: event_accepted_def)
  have "\<exists>f fr' f1 f2 n ft. new_frame ''event'' (Some 0) fr = (Inr f, fr') \<and>
    map_each (add_change ?xs) (map fst ?ers) f = (Inr (replicate (length ?ers) True), f1) \<and>
    finalize True 0 f1 = (Inr n, f2) \<and> n \<le> frm_mtu fr \<and> n = int (length (bb_data (fr_buffer f2))) \<and>
    decode_frame (bb_data (fr_buffer f2)) n None (new_channel_registry [?c]) =
      (Inr (Some \<lparr>pf_header = \<lparr>fh_length = n, fh_app_id = 77 mod 2 ^ 16, fh_type = EVENT, fh_timestamp = 0,
                               fh_size = int (length ?ers)\<rparr>,
                  pf_body = EventBody (map snd ?ers), pf_footer = ft\<rparr>), new_channel_registry [?c])"
    by (rule event_frame_roundtrip [OF fr(2) t _ _ _ reg els acc])
      (simp_all add: fr(3,4) event_size_def expected_ok_def)
  then show ?thesis using fr(1) by fastforce
qed

end
