(* ===== verification/Processor.thy ===== *)
theory Processor
  imports Frame_Layout
begin

text \<open>
  The stream parser (\<open>vtelem/frame/processor.py\<close>): bytes arrive in arbitrary pieces and are cut
  into the frames that the size headers delimit. The specification \<open>deframe\<close> cuts a whole byte
  string; the processor is shown to refine it whatever the pieces are.
\<close>

section \<open>The processor\<close>

record processor =
  fp_buffer :: byte_buffer
  fp_size :: int
  fp_size_stale :: bool

definition new_processor :: processor where
  "new_processor = \<lparr>fp_buffer = new_buffer [] True 0 ''!'', fp_size = 0, fp_size_stale = True\<rparr>"

text \<open>The processor runs on its own state and the caller's size primitive.\<close>

type_synonym proc_state = "processor \<times> type_primitive"

abbreviation in_proc_buffer :: "(byte_buffer, 'a) py \<Rightarrow> (proc_state, 'a) py" where
  "in_proc_buffer m \<equiv> zoom (\<lambda>s. fp_buffer (fst s)) (\<lambda>b s. ((fst s)\<lparr>fp_buffer := b\<rparr>, snd s)) m"

definition read_next_size :: "(proc_state, unit) py" where
  "read_next_size =
     bindp (zoom (\<lambda>s. (fp_buffer (fst s), snd s)) (\<lambda>(b, tp) s. ((fst s)\<lparr>fp_buffer := b\<rparr>, tp))
              (tp_read None True)) (\<lambda>v.
     case as_int v of
       None \<Rightarrow> raise TypeError
     | Some n \<Rightarrow> modify (\<lambda>(p, tp). (p\<lparr>fp_size := n, fp_size_stale := False\<rparr>, tp)))"

definition read_size :: "int \<Rightarrow> (proc_state, unit) py" where
  "read_size mtu =
     bindp (gets (\<lambda>(p, tp). fp_size_stale p \<and> can_read (tp_type tp) (fp_buffer p))) (\<lambda>ok.
     bindp (if ok then read_next_size else ret ()) (\<lambda>_.
     bindp (gets (\<lambda>(p, tp). mtu < fp_size p)) (\<lambda>too_big.
     if too_big
     then bindp (in_proc_buffer reset) (\<lambda>_. modify (\<lambda>(p, tp). (p\<lparr>fp_size_stale := True\<rparr>, tp)))
     else ret ())))"

text \<open>
  The loop of \<open>process\<close>. Every round but the last takes a size header from the buffer, so one more
  round than the buffer has bytes is enough; running out would mean that the loop does not end.
\<close>

fun process_loop :: "nat \<Rightarrow> int \<Rightarrow> byte list list \<Rightarrow> (proc_state, byte list list) py" where
  "process_loop 0 mtu result = raise Blocks"
| "process_loop (Suc fuel) mtu result =
     bindp (gets (\<lambda>(p, tp). \<not> fp_size_stale p \<and> fp_size p \<le> remaining (fp_buffer p))) (\<lambda>more.
     if more then
       bindp (gets (\<lambda>(p, tp). fp_size p)) (\<lambda>n.
       bindp (in_proc_buffer (read_bytes n True)) (\<lambda>bs.
       bindp (modify (\<lambda>(p, tp). (p\<lparr>fp_size_stale := True\<rparr>, tp))) (\<lambda>_.
       bindp (read_size mtu) (\<lambda>_. process_loop fuel mtu (result @ [bs])))))
     else ret result)"

definition process :: "byte list \<Rightarrow> int \<Rightarrow> (proc_state, byte list list) py" where
  "process data mtu =
     bindp (in_proc_buffer (bb_append data None)) (\<lambda>_.
     bindp (read_size mtu) (\<lambda>_.
     bindp (gets (\<lambda>(p, tp). length (bb_data (fp_buffer p)))) (\<lambda>n.
     process_loop (Suc (Suc n)) mtu [])))"

section \<open>The specification\<close>

text \<open>Cutting a byte string into the frames that are complete and the bytes of the next one.\<close>

function deframe :: "byte list \<Rightarrow> byte list list \<times> byte list" where
  "deframe bs =
     (if length bs < 4 then ([], bs)
      else let n = nat (be_val (take 4 bs))
           in if length bs < 4 + n then ([], bs)
              else let (fs, rest) = deframe (drop (4 + n) bs) in (take n (drop 4 bs) # fs, rest))"
  by pat_completeness auto
termination
  by (relation "measure length") auto

declare deframe.simps [simp del]

text \<open>Every size header met on the way is one that the receiver accepts.\<close>

function sizes_ok :: "int \<Rightarrow> byte list \<Rightarrow> bool" where
  "sizes_ok mtu bs =
     (if length bs < 4 then True
      else let n = be_val (take 4 bs)
           in n \<le> mtu \<and> (length bs < 4 + nat n \<or> sizes_ok mtu (drop (4 + nat n) bs)))"
  by pat_completeness auto
termination
  by (relation "measure (\<lambda>(m, bs). length bs)") auto

declare sizes_ok.simps [simp del]

definition size_framed :: "byte list \<Rightarrow> byte list" where
  "size_framed f = be_bytes 4 (int (length f)) @ f"

lemma deframe_framed:
  assumes "length f < 2 ^ 32"
  shows "deframe (size_framed f @ bs) = (f # fst (deframe bs), snd (deframe bs))"
proof -
  have v: "be_val (be_bytes 4 (int (length f))) = int (length f)"
    using assms by (simp add: be_val_roundtrip)
  show ?thesis
    using v by (simp add: deframe.simps [of "be_bytes 4 (int (length f)) @ f @ bs"] size_framed_def Let_def
        split: prod.splits)
qed

lemma sizes_ok_framed:
  assumes "length f < 2 ^ 32"
  shows "sizes_ok mtu (size_framed f @ bs) \<longleftrightarrow> int (length f) \<le> mtu \<and> sizes_ok mtu bs"
proof -
  have v: "be_val (be_bytes 4 (int (length f))) = int (length f)"
    using assms by (simp add: be_val_roundtrip)
  show ?thesis
    using v by (simp add: sizes_ok.simps [of mtu "be_bytes 4 (int (length f)) @ f @ bs"] size_framed_def Let_def)
qed

lemma deframe_all:
  assumes "\<forall>f \<in> set fs. length f < 2 ^ 32"
  shows "deframe (concat (map size_framed fs) @ bs) = (fs @ fst (deframe bs), snd (deframe bs))"
  using assms by (induction fs) (simp_all add: deframe_framed)

lemma sizes_ok_all:
  assumes "\<forall>f \<in> set fs. length f < 2 ^ 32 \<and> int (length f) \<le> mtu"
  shows "sizes_ok mtu (concat (map size_framed fs) @ bs) \<longleftrightarrow> sizes_ok mtu bs"
  using assms by (induction fs) (simp_all add: sizes_ok_framed)

text \<open>Cutting can be resumed: what is left over starts the next piece.\<close>

lemma deframe_append:
  "deframe (xs @ ys) =
     (fst (deframe xs) @ fst (deframe (snd (deframe xs) @ ys)), snd (deframe (snd (deframe xs) @ ys)))"
proof (induction xs rule: deframe.induct)
  case (1 xs)
  let ?n = "nat (be_val (take 4 xs))"
  show ?case
  proof (cases "length xs < 4 \<or> length xs < 4 + ?n")
    case True
    then have "deframe xs = ([], xs)" by (auto simp: deframe.simps [of xs] Let_def)
    then show ?thesis by simp
  next
    case False
    then have t: "take 4 (xs @ ys) = take 4 xs" by simp
    have a: "deframe xs = (take ?n (drop 4 xs) # fst (deframe (drop (4 + ?n) xs)),
        snd (deframe (drop (4 + ?n) xs)))"
      using False by (simp add: deframe.simps [of xs] Let_def split: prod.splits)
    have b: "deframe (xs @ ys) = (take ?n (drop 4 xs) # fst (deframe (drop (4 + ?n) xs @ ys)),
        snd (deframe (drop (4 + ?n) xs @ ys)))"
      using False t by (simp add: deframe.simps [of "xs @ ys"] Let_def split: prod.splits)
    show ?thesis using "1.IH" False a b by simp
  qed
qed

lemma sizes_ok_append:
  "sizes_ok mtu (xs @ ys) \<Longrightarrow> sizes_ok mtu xs \<and> sizes_ok mtu (snd (deframe xs) @ ys)"
proof (induction xs rule: deframe.induct)
  case (1 xs)
  let ?n = "nat (be_val (take 4 xs))"
  show ?case
  proof (cases "length xs < 4 \<or> length xs < 4 + ?n")
    case True
    then have d: "deframe xs = ([], xs)" by (auto simp: deframe.simps [of xs] Let_def)
    have "sizes_ok mtu xs"
    proof (cases "length xs < 4")
      case True
      then show ?thesis by (simp add: sizes_ok.simps [of mtu xs])
    next
      case False
      then have "take 4 (xs @ ys) = take 4 xs" by simp
      with "1.prems" False \<open>length xs < 4 \<or> length xs < 4 + ?n\<close> show ?thesis
        by (auto simp: sizes_ok.simps [of mtu xs] sizes_ok.simps [of mtu "xs @ ys"] Let_def)
    qed
    with "1.prems" d show ?thesis by simp
  next
    case False
    then have t: "take 4 (xs @ ys) = take 4 xs" by simp
    have a: "snd (deframe xs) = snd (deframe (drop (4 + ?n) xs))"
      using False by (simp add: deframe.simps [of xs] Let_def split: prod.splits)
    have "be_val (take 4 xs) \<le> mtu" "sizes_ok mtu (drop (4 + ?n) xs @ ys)"
      using "1.prems" False t by (auto simp: sizes_ok.simps [of mtu "xs @ ys"] Let_def)
    with "1.IH" False a show ?thesis
      by (simp add: sizes_ok.simps [of mtu xs] Let_def)
  qed
qed

section \<open>Refinement\<close>

text \<open>
  A processor's pending bytes: those in its buffer, after the size header it has already taken.
\<close>

definition buf_ok :: "byte_buffer \<Rightarrow> bool" where
  "buf_ok b \<longleftrightarrow> bb_inv b \<and> bb_pos b = 0 \<and> bb_mutable b \<and> bb_order b = ''!''"

definition proc_ok :: "int \<Rightarrow> proc_state \<Rightarrow> bool" where
  "proc_ok mtu = (\<lambda>(p, tp). buf_ok (fp_buffer p) \<and> tp_type tp = UINT32 \<and>
     0 \<le> fp_size p \<and> fp_size p < 2 ^ 32 \<and> fp_size p \<le> mtu)"

definition pending :: "proc_state \<Rightarrow> byte list" where
  "pending = (\<lambda>(p, tp). if fp_size_stale p then bb_content (fp_buffer p)
     else be_bytes 4 (fp_size p) @ bb_content (fp_buffer p))"

definition settled :: "proc_state \<Rightarrow> bool" where
  "settled = (\<lambda>(p, tp). if fp_size_stale p then length (bb_content (fp_buffer p)) < 4
     else int (length (bb_content (fp_buffer p))) < fp_size p)"

lemma buf_ok_remaining: "buf_ok b \<Longrightarrow> remaining b = int (length (bb_content b))"
  by (auto simp: buf_ok_def remaining_def get_pos_def bb_inv_def bb_content_def)

lemma buf_ok_chomp:
  assumes "buf_ok b" and "0 \<le> n" and "n \<le> int (length (bb_content b))"
  obtains b' where "read_bytes n True b = (Inr (take (nat n) (bb_content b)), b')" and "buf_ok b'"
    and "bb_content b' = drop (nat n) (bb_content b)"
    and "length (bb_data b') = length (bb_data b) - nat n"
proof -
  have b: "bb_inv b" "bb_pos b = 0" using assms(1) by (simp_all add: buf_ok_def)
  have n: "n \<le> bb_size b" using assms(3) b(1) by (simp add: bb_inv_def)
  let ?b = "b\<lparr>bb_data := drop (nat n) (bb_data b), bb_size := bb_size b - n\<rparr>"
  have "read_bytes n True b = (Inr (take (nat n) (bb_content b)), ?b)"
    by (rule read_bytes_chomp [OF b assms(2) n])
  moreover have "buf_ok ?b"
    using assms(1,2) n by (auto simp: buf_ok_def bb_inv_def)
  ultimately show thesis using that [of ?b] bb_content_chomp [OF b(1) assms(2) n] by simp
qed

lemma buf_ok_append:
  assumes "buf_ok b"
  obtains b' where "bb_append data None b = (Inr (int (length data)), b')" and "buf_ok b'"
    and "bb_content b' = bb_content b @ data" and "bb_data b' = bb_content b'"
proof -
  have b: "bb_inv b" "bb_pos b = 0" using assms by (simp_all add: buf_ok_def)
  let ?b = "b\<lparr>bb_data := bb_content b @ data, bb_size := bb_size b + int (length data)\<rparr>"
  have "bb_append data None b = (Inr (int (length data)), ?b)"
    using bb_append_run [OF b(1), of "int (length data)" data] b(2) by (simp add: bb_append_None)
  moreover have len: "int (length (bb_content b @ data)) = bb_size b + int (length data)"
    using b(1) by (simp add: bb_inv_def)
  then have "nat (bb_size b + int (length data)) = length (bb_content b @ data)" by linarith
  then have "bb_content ?b = bb_content b @ data"
    by (simp only: bb_content_def [of ?b]) simp
  moreover have "buf_ok ?b"
    using assms len b(1) by (simp add: buf_ok_def bb_inv_def)
  ultimately show thesis using that [of ?b] by simp
qed

lemma be_bytes_4: "length bs = 4 \<Longrightarrow> be_bytes 4 (be_val bs) = bs"
  using be_bytes_be_val [of bs] by simp

text \<open>Taking the next size header, when it is complete and acceptable.\<close>

lemma read_size_take:
  assumes "proc_ok mtu (p, tp)" and "fp_size_stale p" and "4 \<le> length (bb_content (fp_buffer p))"
    and "be_val (take 4 (bb_content (fp_buffer p))) \<le> mtu"
  obtains p' tp' where "read_size mtu (p, tp) = (Inr (), (p', tp'))" and "proc_ok mtu (p', tp')"
    and "\<not> fp_size_stale p'" and "fp_size p' = be_val (take 4 (bb_content (fp_buffer p)))"
    and "bb_content (fp_buffer p') = drop 4 (bb_content (fp_buffer p))"
    and "length (bb_data (fp_buffer p')) = length (bb_data (fp_buffer p)) - 4"
proof -
  let ?b = "fp_buffer p"
  let ?hdr = "take 4 (bb_content ?b)"
  let ?n = "be_val ?hdr"
  have b: "buf_ok ?b" "tp_type tp = UINT32" using assms(1) by (simp_all add: proc_ok_def)
  have ord: "bb_order ?b = ''!''" using b(1) by (simp add: buf_ok_def)
  have len: "length ?hdr = 4" using assms(3) by simp
  have n: "0 \<le> ?n" "?n < 2 ^ 32" using be_val_bounds [of ?hdr] len by simp_all
  obtain b' where b': "read_bytes 4 True ?b = (Inr ?hdr, b')" "buf_ok b'"
      "bb_content b' = drop 4 (bb_content ?b)" "length (bb_data b') = length (bb_data ?b) - 4"
    using buf_ok_chomp [OF b(1), of 4] assms(3) by auto
  have can: "can_read UINT32 ?b"
    using buf_ok_remaining [OF b(1)] assms(3) by (simp add: can_read_def)
  have "net_pack UINT32 (VInt ?n) = Inr ?hdr"
    using net_pack_uint(3) [OF n] be_bytes_4 [OF len] by simp
  then have un: "struct_unpack (fstring ?b UINT32) ?hdr = Inr (VInt ?n)"
    using codec.unpack_pack [of "''!''" UINT32 "VInt ?n" ?hdr] ord
    by (simp add: prim_unpack_def fstring_def)
  have rd: "bb_read UINT32 True ?b = (Inr (VInt ?n), b')"
    using can un b'(1) by (simp add: bb_read_def)
  have tr: "tp_read None True (?b, tp) = (Inr (VInt ?n), (b', tp\<lparr>tp_data := VInt ?n\<rparr>))"
    using rd b(2) by (simp add: tp_read_def)
  let ?p' = "p\<lparr>fp_buffer := b', fp_size := ?n, fp_size_stale := False\<rparr>"
  have "read_next_size (p, tp) = (Inr (), (?p', tp\<lparr>tp_data := VInt ?n\<rparr>))"
    using tr by (simp add: read_next_size_def)
  then have "read_size mtu (p, tp) = (Inr (), (?p', tp\<lparr>tp_data := VInt ?n\<rparr>))"
    using assms(2,4) can b(2) by (simp add: read_size_def)
  moreover have "proc_ok mtu (?p', tp\<lparr>tp_data := VInt ?n\<rparr>)"
    using assms(1,4) b'(2) n by (simp add: proc_ok_def)
  ultimately show thesis using that b'(3,4) by simp
qed

text \<open>Nothing happens when a size is known already or the next one is not complete.\<close>

lemma read_size_wait:
  assumes "proc_ok mtu (p, tp)" and "\<not> fp_size_stale p \<or> length (bb_content (fp_buffer p)) < 4"
  shows "read_size mtu (p, tp) = (Inr (), (p, tp))"
proof -
  have b: "buf_ok (fp_buffer p)" "tp_type tp = UINT32" "fp_size p \<le> mtu"
    using assms(1) by (simp_all add: proc_ok_def)
  have "\<not> (fp_size_stale p \<and> can_read UINT32 (fp_buffer p))"
    using assms(2) buf_ok_remaining [OF b(1)] by (auto simp: can_read_def)
  with b show ?thesis by (auto simp: read_size_def)
qed

text \<open>The frames in the pending bytes, and what the state is when no more are complete.\<close>

lemma deframe_step:
  assumes "be_val hdr = n" and "length hdr = 4" and "n \<le> int (length c)" and "0 \<le> n"
  shows "deframe (hdr @ c) = (take (nat n) c # fst (deframe (drop (nat n) c)), snd (deframe (drop (nat n) c)))"
  using assms by (simp add: deframe.simps [of "hdr @ c"] Let_def split: prod.splits)

lemma deframe_wait:
  assumes "settled s" and "proc_ok mtu s"
  shows "deframe (pending s) = ([], pending s)"
proof -
  obtain p tp where s: "s = (p, tp)" by (cases s)
  have n: "0 \<le> fp_size p" "fp_size p < 2 ^ 32" using assms(2) s by (simp_all add: proc_ok_def)
  have "be_val (be_bytes 4 (fp_size p)) = fp_size p" using n by (simp add: be_val_roundtrip)
  with assms(1) s n show ?thesis
    unfolding deframe.simps [of "pending s"]
    by (auto simp: pending_def settled_def Let_def split: if_splits)
qed

lemma read_size_pending:
  assumes "proc_ok mtu (p, tp)" and "sizes_ok mtu (pending (p, tp))"
  obtains p' tp' where "read_size mtu (p, tp) = (Inr (), (p', tp'))" and "proc_ok mtu (p', tp')"
    and "pending (p', tp') = pending (p, tp)"
    and "fp_size_stale p' \<longrightarrow> length (bb_content (fp_buffer p')) < 4"
    and "length (bb_data (fp_buffer p')) \<le> length (bb_data (fp_buffer p))"
    and "fp_size_stale p \<and> \<not> fp_size_stale p' \<longrightarrow>
           length (bb_data (fp_buffer p')) < length (bb_data (fp_buffer p))"
proof (cases "fp_size_stale p \<and> 4 \<le> length (bb_content (fp_buffer p))")
  case True
  let ?c = "bb_content (fp_buffer p)"
  have "pending (p, tp) = ?c" using True by (simp add: pending_def)
  then have v: "be_val (take 4 ?c) \<le> mtu"
    using assms(2) True by (simp add: sizes_ok.simps [of mtu ?c] Let_def)
  have st: "fp_size_stale p" and l4: "4 \<le> length ?c" using True by simp_all
  obtain p' tp' where p': "read_size mtu (p, tp) = (Inr (), (p', tp'))" "proc_ok mtu (p', tp')"
      "\<not> fp_size_stale p'" "fp_size p' = be_val (take 4 ?c)"
      "bb_content (fp_buffer p') = drop 4 ?c"
      "length (bb_data (fp_buffer p')) = length (bb_data (fp_buffer p)) - 4"
    by (rule read_size_take [OF assms(1) st l4 v])
  have "be_bytes 4 (be_val (take 4 ?c)) = take 4 ?c" using True by (intro be_bytes_4) simp
  then have "pending (p', tp') = pending (p, tp)"
    using p' True by (simp add: pending_def)
  moreover have "length (bb_data (fp_buffer p)) - 4 < length (bb_data (fp_buffer p))"
    using l4 unfolding bb_content_def length_take by linarith
  ultimately show thesis using that [OF p'(1,2)] p'(3,6) by simp
next
  case False
  then have "read_size mtu (p, tp) = (Inr (), (p, tp))"
    by (intro read_size_wait [OF assms(1)]) auto
  with that assms(1) False show thesis by auto
qed

lemma process_loop_run:
  assumes "proc_ok mtu (p, tp)" and "sizes_ok mtu (pending (p, tp))"
    and "fp_size_stale p \<longrightarrow> length (bb_content (fp_buffer p)) < 4"
    and "length (bb_data (fp_buffer p)) < fuel"
  shows "\<exists>s'. process_loop (Suc fuel) mtu result (p, tp) =
      (Inr (result @ fst (deframe (pending (p, tp)))), s') \<and>
    proc_ok mtu s' \<and> settled s' \<and> pending s' = snd (deframe (pending (p, tp)))"
  using assms
proof (induction fuel arbitrary: p tp result)
  case 0
  then show ?case by simp
next
  case (Suc fuel)
  let ?c = "bb_content (fp_buffer p)"
  let ?n = "fp_size p"
  have b: "buf_ok (fp_buffer p)" "0 \<le> ?n" "?n < 2 ^ 32" using Suc.prems(1) by (simp_all add: proc_ok_def)
  note rem = buf_ok_remaining [OF b(1)]
  show ?case
  proof (cases "\<not> fp_size_stale p \<and> ?n \<le> int (length ?c)")
    case False
    then have st: "settled (p, tp)" using Suc.prems(3) by (auto simp: settled_def)
    have "process_loop (Suc (Suc fuel)) mtu result (p, tp) = (Inr result, (p, tp))"
      using False rem by (auto simp: process_loop.simps(2) [of "Suc fuel"] simp del: process_loop.simps)
    with st deframe_wait [OF st Suc.prems(1)] Suc.prems(1) show ?thesis by auto
  next
    case True
    obtain b' where b': "read_bytes ?n True (fp_buffer p) = (Inr (take (nat ?n) ?c), b')" "buf_ok b'"
        "bb_content b' = drop (nat ?n) ?c" "length (bb_data b') = length (bb_data (fp_buffer p)) - nat ?n"
      using buf_ok_chomp [OF b(1,2)] True by blast
    let ?p1 = "p\<lparr>fp_buffer := b', fp_size_stale := True\<rparr>"
    have v: "be_val (be_bytes 4 ?n) = ?n" using b by (simp add: be_val_roundtrip)
    have pend: "pending (p, tp) = be_bytes 4 ?n @ ?c" using True by (simp add: pending_def)
    have dp: "deframe (pending (p, tp)) = (take (nat ?n) ?c # fst (deframe (drop (nat ?n) ?c)),
        snd (deframe (drop (nat ?n) ?c)))"
      unfolding pend using deframe_step [OF v] True b(2) by simp
    have pend1: "pending (?p1, tp) = drop (nat ?n) ?c" using b'(3) by (simp add: pending_def)
    have ok1: "proc_ok mtu (?p1, tp)" using Suc.prems(1) b'(2) by (simp add: proc_ok_def)
    have "sizes_ok mtu (drop (nat ?n) ?c)"
      using Suc.prems(2) True v b(2) unfolding pend
      by (auto simp: sizes_ok.simps [of mtu "be_bytes 4 ?n @ ?c"] Let_def)
    then have so1: "sizes_ok mtu (pending (?p1, tp))" using pend1 by simp
    obtain p2 tp2 where p2: "read_size mtu (?p1, tp) = (Inr (), (p2, tp2))" "proc_ok mtu (p2, tp2)"
        "pending (p2, tp2) = pending (?p1, tp)"
        "fp_size_stale p2 \<longrightarrow> length (bb_content (fp_buffer p2)) < 4"
        "length (bb_data (fp_buffer p2)) \<le> length (bb_data (fp_buffer ?p1))"
        "fp_size_stale ?p1 \<and> \<not> fp_size_stale p2 \<longrightarrow>
           length (bb_data (fp_buffer p2)) < length (bb_data (fp_buffer ?p1))"
      by (rule read_size_pending [OF ok1 so1])
    have run: "process_loop (Suc (Suc fuel)) mtu result (p, tp) =
        process_loop (Suc fuel) mtu (result @ [take (nat ?n) ?c]) (p2, tp2)"
      using True rem b'(1) p2(1) by (simp add: process_loop.simps(2) [of "Suc fuel"] del: process_loop.simps)
    show ?thesis
    proof (cases "fp_size_stale p2")
      case True
      then have st: "settled (p2, tp2)" using p2(4) by (simp add: settled_def)
      have "process_loop (Suc fuel) mtu (result @ [take (nat ?n) ?c]) (p2, tp2) =
          (Inr (result @ [take (nat ?n) ?c]), (p2, tp2))"
        using True by simp
      with run dp deframe_wait [OF st p2(2)] st p2(2,3) pend1 show ?thesis by auto
    next
      case False
      then have "length (bb_data (fp_buffer p2)) < fuel" using p2(5,6) b'(4) Suc.prems(4) by simp
      moreover have "sizes_ok mtu (pending (p2, tp2))" using so1 p2(3) by simp
      ultimately obtain s' where
          "process_loop (Suc fuel) mtu (result @ [take (nat ?n) ?c]) (p2, tp2) =
            (Inr ((result @ [take (nat ?n) ?c]) @ fst (deframe (pending (p2, tp2)))), s')"
          "proc_ok mtu s'" "settled s'" "pending s' = snd (deframe (pending (p2, tp2)))"
        using Suc.IH [OF p2(2) _ p2(4)] by blast
      with run dp p2(3) pend1 show ?thesis by (intro exI [of _ s']) simp
    qed
  qed
qed

text \<open>One call of \<open>process\<close> cuts the pending bytes and the new ones.\<close>

lemma process_run:
  assumes "proc_ok mtu s" and "settled s" and "sizes_ok mtu (pending s @ data)"
  shows "\<exists>s'. process data mtu s = (Inr (fst (deframe (pending s @ data))), s') \<and>
    proc_ok mtu s' \<and> settled s' \<and> pending s' = snd (deframe (pending s @ data))"
proof -
  obtain p tp where s: "s = (p, tp)" by (cases s)
  have b: "buf_ok (fp_buffer p)" using assms(1) s by (simp add: proc_ok_def)
  obtain b1 where b1: "bb_append data None (fp_buffer p) = (Inr (int (length data)), b1)" "buf_ok b1"
      "bb_content b1 = bb_content (fp_buffer p) @ data" "bb_data b1 = bb_content b1"
    by (rule buf_ok_append [OF b])
  let ?p1 = "p\<lparr>fp_buffer := b1\<rparr>"
  have ok1: "proc_ok mtu (?p1, tp)" using assms(1) s b1(2) by (simp add: proc_ok_def)
  have pend1: "pending (?p1, tp) = pending s @ data" using s b1(3) by (simp add: pending_def)
  have so1: "sizes_ok mtu (pending (?p1, tp))" using assms(3) pend1 by simp
  obtain p2 tp2 where p2: "read_size mtu (?p1, tp) = (Inr (), (p2, tp2))" "proc_ok mtu (p2, tp2)"
      "pending (p2, tp2) = pending (?p1, tp)"
      "fp_size_stale p2 \<longrightarrow> length (bb_content (fp_buffer p2)) < 4"
      "length (bb_data (fp_buffer p2)) \<le> length (bb_data (fp_buffer ?p1))"
      "fp_size_stale ?p1 \<and> \<not> fp_size_stale p2 \<longrightarrow>
         length (bb_data (fp_buffer p2)) < length (bb_data (fp_buffer ?p1))"
    by (rule read_size_pending [OF ok1 so1])
  have so2: "sizes_ok mtu (pending (p2, tp2))" using so1 p2(3) by simp
  have "process data mtu s = process_loop (Suc (Suc (length (bb_data (fp_buffer p2))))) mtu [] (p2, tp2)"
    using s b1(1) p2(1) by (simp add: process_def del: process_loop.simps)
  with process_loop_run [OF p2(2) so2 p2(4) lessI, of "[]"] p2(3) pend1 show ?thesis by simp
qed

text \<open>Feeding a list of pieces, one call after the other.\<close>

definition process_all :: "byte list list \<Rightarrow> int \<Rightarrow> (proc_state, byte list list) py" where
  "process_all pieces mtu =
     bindp (map_each (\<lambda>d. process d mtu) pieces) (\<lambda>rs. ret (concat rs))"

lemma process_pieces_run:
  assumes "proc_ok mtu s" and "settled s" and "sizes_ok mtu (pending s @ concat pieces)"
  shows "\<exists>rs s'. map_each (\<lambda>d. process d mtu) pieces s = (Inr rs, s') \<and>
    concat rs = fst (deframe (pending s @ concat pieces)) \<and>
    proc_ok mtu s' \<and> settled s' \<and> pending s' = snd (deframe (pending s @ concat pieces))"
  using assms
proof (induction pieces arbitrary: s)
  case Nil
  then show ?case using deframe_wait [of s mtu] by simp
next
  case (Cons d ds)
  have so: "sizes_ok mtu ((pending s @ d) @ concat ds)" using Cons.prems(3) by simp
  note split = sizes_ok_append [OF so]
  obtain s1 where s1: "process d mtu s = (Inr (fst (deframe (pending s @ d))), s1)" "proc_ok mtu s1"
      "settled s1" "pending s1 = snd (deframe (pending s @ d))"
    using process_run [OF Cons.prems(1,2), of d] split by auto
  have "sizes_ok mtu (pending s1 @ concat ds)" using split s1(4) by simp
  with Cons.IH [OF s1(2,3)] obtain rs s' where "map_each (\<lambda>d. process d mtu) ds s1 = (Inr rs, s')"
      "concat rs = fst (deframe (pending s1 @ concat ds))" "proc_ok mtu s'" "settled s'"
      "pending s' = snd (deframe (pending s1 @ concat ds))"
    by blast
  then show ?case using s1(1,4) deframe_append [of "pending s @ d" "concat ds"] by auto
qed

lemma new_processor_ok:
  assumes "0 \<le> mtu" and "tp_type tp = UINT32"
  shows "proc_ok mtu (new_processor, tp) \<and> settled (new_processor, tp) \<and> pending (new_processor, tp) = []"
  using assms by (simp add: proc_ok_def settled_def pending_def new_processor_def buf_ok_def bb_inv_def
      bb_content_def)

text \<open>A whole stream of framed messages, cut anywhere.\<close>

lemma process_whole_stream:
  assumes "0 \<le> mtu" and "tp_type tp = UINT32"
    and "\<forall>f \<in> set fs. length f < 2 ^ 32 \<and> int (length f) \<le> mtu"
    and "concat pieces = concat (map size_framed fs)"
  shows "\<exists>s'. process_all pieces mtu (new_processor, tp) = (Inr fs, s') \<and> pending s' = []"
proof -
  have new: "proc_ok mtu (new_processor, tp)" "settled (new_processor, tp)" "pending (new_processor, tp) = []"
    using new_processor_ok [OF assms(1,2)] by simp_all
  have "sizes_ok mtu []" by (simp add: sizes_ok.simps)
  then have ok: "sizes_ok mtu (pending (new_processor, tp) @ concat pieces)"
    using sizes_ok_all [OF assms(3), of "[]"] by (simp add: new(3) assms(4))
  have "deframe (concat pieces) = (fs, [])"
    using deframe_all [of fs "[]"] assms(3,4) by (simp add: deframe.simps)
  with process_pieces_run [OF new(1,2) ok] new(3) show ?thesis
    by (auto simp: process_all_def)
qed

section \<open>Oversized frames\<close>

text \<open>
  A header beyond the maximum size discards everything that is buffered. The size that was read
  stays, so that until the next whole header arrives every piece that is shorter than a header
  is discarded too.
\<close>

lemma read_size_oversize:
  assumes "mtu < fp_size p" and "buf_ok (fp_buffer p)" and "tp_type tp = UINT32"
    and "length (bb_content (fp_buffer p)) < 4" and "fp_size_stale p"
  shows "read_size mtu (p, tp) =
    (Inr (), (p\<lparr>fp_buffer := (fp_buffer p)\<lparr>bb_data := [], bb_size := 0\<rparr>, fp_size_stale := True\<rparr>, tp))"
proof -
  have "\<not> can_read UINT32 (fp_buffer p)"
    using assms(4) buf_ok_remaining [OF assms(2)] by (simp add: can_read_def)
  with assms show ?thesis by (simp add: read_size_def reset_def buf_ok_def)
qed

lemma process_after_oversize:
  assumes "mtu < fp_size p" and "buf_ok (fp_buffer p)" and "tp_type tp = UINT32"
    and "bb_content (fp_buffer p) = []" and "fp_size_stale p" and "length data < 4"
  shows "\<exists>p'. process data mtu (p, tp) = (Inr [], (p', tp)) \<and> bb_content (fp_buffer p') = []"
proof -
  obtain b1 where b1: "bb_append data None (fp_buffer p) = (Inr (int (length data)), b1)" "buf_ok b1"
      "bb_content b1 = bb_content (fp_buffer p) @ data"
    using buf_ok_append [OF assms(2)] by metis
  let ?p1 = "p\<lparr>fp_buffer := b1\<rparr>"
  have rs: "read_size mtu (?p1, tp) =
    (Inr (), (?p1\<lparr>fp_buffer := b1\<lparr>bb_data := [], bb_size := 0\<rparr>, fp_size_stale := True\<rparr>, tp))"
    using read_size_oversize [of mtu ?p1 tp] assms b1 by simp
  have "process data mtu (p, tp) =
      (Inr [], (?p1\<lparr>fp_buffer := b1\<lparr>bb_data := [], bb_size := 0\<rparr>, fp_size_stale := True\<rparr>, tp))"
    using b1(1) rs by (simp add: process_def)
  then show ?thesis by (simp add: bb_content_def)
qed

section \<open>Properties\<close>

text \<open>
  Property C6: frames sent as a byte stream, each behind its four-byte length, come out of the
  processor exactly, in order, however the stream was cut into pieces on its way, as long as no
  frame is longer than the limit; bytes of a frame that has not arrived completely are kept.
\<close>

theorem stream_pieces:
  assumes "0 \<le> mtu" and "tp_type tp = UINT32"
    and "\<forall>f \<in> set fs. length f < 2 ^ 32 \<and> int (length f) \<le> mtu"
    and "concat pieces = concat (map size_framed fs)"
  shows "\<exists>s'. process_all pieces mtu (new_processor, tp) = (Inr fs, s') \<and> pending s' = []"
  by (rule process_whole_stream [OF assms])

theorem stream_pieces_witness:
  "\<exists>s'. process_all [[0, 0], [0, 1, 42, 0, 0, 0], [2, 1], [2]] 10 (new_processor, new_type_primitive UINT32 False)
     = (Inr [[42], [1, 2]], s')"
proof -
  have "concat [[0, 0], [0, 1, 42, 0, 0, 0], [2, 1], [2]] = concat (map size_framed [[42], [1, 2]])"
    by code_simp
  from stream_pieces [OF _ _ _ this, of 10 "new_type_primitive UINT32 False"] show ?thesis
    by (auto simp: new_type_primitive_def)
qed

text \<open>
  After a length beyond the limit the processor keeps that length: the first bytes of
  what follows, when fewer than four arrive at once, are thrown away instead of being kept for the
  next length.
\<close>

theorem bytes_lost_after_oversize:
  assumes "mtu < fp_size p" and "buf_ok (fp_buffer p)" and "tp_type tp = UINT32"
    and "bb_content (fp_buffer p) = []" and "fp_size_stale p" and "length data < 4"
  shows "\<exists>p'. process data mtu (p, tp) = (Inr [], (p', tp)) \<and> bb_content (fp_buffer p') = []"
  using process_after_oversize [OF assms] .

theorem bytes_lost_after_oversize_witness:
  "\<exists>p p'. process [0, 0, 1, 0] 10 (new_processor, new_type_primitive UINT32 False) =
      (Inr [], (p, (new_type_primitive UINT32 False)\<lparr>tp_data := VInt 256\<rparr>)) \<and>
    process [0, 0] 10 (p, (new_type_primitive UINT32 False)\<lparr>tp_data := VInt 256\<rparr>) =
      (Inr [], (p', (new_type_primitive UINT32 False)\<lparr>tp_data := VInt 256\<rparr>)) \<and>
    bb_content (fp_buffer p') = []"
proof -
  let ?tp = "(new_type_primitive UINT32 False)\<lparr>tp_data := VInt 256\<rparr>"
  let ?b = "\<lparr>bb_data = [], bb_size = 0, bb_pos = 0, bb_mutable = True, bb_order = ''!''\<rparr>"
  let ?p = "\<lparr>fp_buffer = ?b, fp_size = 256, fp_size_stale = True\<rparr>"
  have first: "process [0, 0, 1, 0] 10 (new_processor, new_type_primitive UINT32 False) = (Inr [], (?p, ?tp))"
    by code_simp
  have "buf_ok (fp_buffer ?p)" by (simp add: buf_ok_def bb_inv_def)
  from bytes_lost_after_oversize [OF _ this, of 10 ?tp "[0, 0]"] first show ?thesis
    by (auto simp: new_type_primitive_def bb_content_def)
qed

end
