(* ===== verification/Py_Strings.thy ===== *)
theory Py_Strings
  imports User_Enum
begin

text \<open>
  The string operations of Python that the request and command parsers use: \<open>str.split\<close> with a
  separator, \<open>str.strip\<close>, \<open>str.join\<close>, \<open>int\<close> of a string, decimal printing and \<open>json.dumps\<close>.
  Characters are code points below 256; letters are folded to lower case in the ASCII range only.
\<close>

named_theorems split_simps \<open>splitting a string at a separator\<close>

section \<open>Splitting and joining\<close>

text \<open>Occurrences of the separator are found left to right and do not overlap.\<close>

function split_from :: "string \<Rightarrow> string \<Rightarrow> string \<Rightarrow> string list" where
  "split_from sep acc [] = [acc]"
| "split_from sep acc (c # cs) =
     (if sep \<noteq> [] \<and> take (length sep) (c # cs) = sep
      then acc # split_from sep [] (drop (length sep) (c # cs))
      else split_from sep (acc @ [c]) cs)"
  by pat_completeness auto
termination
  by (relation "measure (\<lambda>(sep, acc, s). length s)") (auto simp: neq_Nil_conv)

definition py_split :: "string \<Rightarrow> string \<Rightarrow> string list" where
  "py_split sep s = split_from sep [] s"

fun py_join :: "string \<Rightarrow> string list \<Rightarrow> string" where
  "py_join sep [] = []"
| "py_join sep [x] = x"
| "py_join sep (x # y # zs) = x @ sep @ py_join sep (y # zs)"

text \<open>The separator starts nowhere inside the text, not even where the text runs into it.\<close>

fun free_of :: "string \<Rightarrow> string \<Rightarrow> bool" where
  "free_of sep [] \<longleftrightarrow> True"
| "free_of sep (c # cs) \<longleftrightarrow> take (length sep) (c # cs @ sep) \<noteq> sep \<and> free_of sep cs"

lemma take_append_short: "length xs \<le> length ys \<Longrightarrow> take (length xs) (ys @ zs) = take (length xs) ys"
  by simp

lemma free_of_Cons_through:
  "free_of sep (c # cs) \<Longrightarrow> take (length sep) (c # cs @ sep @ r) \<noteq> sep"
  using take_append_short [of sep "c # cs @ sep" r] by simp

lemma free_of_Cons_end: "free_of sep (c # cs) \<Longrightarrow> take (length sep) (c # cs) \<noteq> sep"
proof
  assume f: "free_of sep (c # cs)" and t: "take (length sep) (c # cs) = sep"
  then have "length sep \<le> length (c # cs)" by (metis length_take min.absorb_iff1 min.commute)
  with take_append_short [of sep "c # cs" sep] t have "take (length sep) (c # cs @ sep) = sep" by simp
  with f show False by simp
qed

lemma split_from_through:
  "sep \<noteq> [] \<Longrightarrow> free_of sep x \<Longrightarrow> split_from sep acc (x @ sep @ r) = (acc @ x) # split_from sep [] r"
proof (induction x arbitrary: acc)
  case Nil
  then obtain c cs where "sep = c # cs" by (auto simp: neq_Nil_conv)
  then show ?case by simp
next
  case (Cons c cs)
  then show ?case using free_of_Cons_through [of sep c cs r] by simp
qed

lemma split_from_end: "free_of sep x \<Longrightarrow> split_from sep acc x = [acc @ x]"
proof (induction x arbitrary: acc)
  case (Cons c cs)
  then show ?case using free_of_Cons_end [of sep c cs] by simp
qed simp

lemma py_split_through [split_simps]:
  "sep \<noteq> [] \<Longrightarrow> free_of sep x \<Longrightarrow> py_split sep (x @ sep @ r) = x # py_split sep r"
  by (simp add: py_split_def split_from_through)

lemma py_split_end [split_simps]: "free_of sep x \<Longrightarrow> py_split sep x = [x]"
  by (simp add: py_split_def split_from_end)

lemma split_join:
  "sep \<noteq> [] \<Longrightarrow> xs \<noteq> [] \<Longrightarrow> \<forall>x \<in> set xs. free_of sep x \<Longrightarrow> py_split sep (py_join sep xs) = xs"
  by (induction sep xs rule: py_join.induct) (simp_all add: split_simps)

lemma split_from_not_Nil: "split_from sep acc s \<noteq> []"
  by (induction sep acc s rule: split_from.induct) auto

lemma py_split_not_Nil [simp]: "py_split sep s \<noteq> []"
  by (simp add: py_split_def split_from_not_Nil)

lemma py_join_Cons: "xs \<noteq> [] \<Longrightarrow> py_join sep (x # xs) = x @ sep @ py_join sep xs"
  by (cases xs) simp_all

lemma py_join_append:
  "xs \<noteq> [] \<Longrightarrow> ys \<noteq> [] \<Longrightarrow> py_join sep (xs @ ys) = py_join sep xs @ sep @ py_join sep ys"
  by (induction sep xs rule: py_join.induct) (simp_all add: py_join_Cons)

text \<open>Joining is the inverse the other way round for every text.\<close>

lemma join_split_from: "py_join sep (split_from sep acc s) = acc @ s"
proof (induction sep acc s rule: split_from.induct)
  case (2 sep acc c cs)
  show ?case
  proof (cases "sep \<noteq> [] \<and> take (length sep) (c # cs) = sep")
    case True
    have eq: "sep @ drop (length sep) (c # cs) = c # cs"
      using append_take_drop_id [of "length sep" "c # cs"] True by simp
    have "py_join sep (split_from sep acc (c # cs)) = acc @ sep @ drop (length sep) (c # cs)"
      using True "2.IH"(1) by (simp add: py_join_Cons split_from_not_Nil)
    with eq show ?thesis by (simp del: drop_Cons')
  next
    case False
    then show ?thesis using "2.IH"(2) by auto
  qed
qed simp

lemma join_split: "py_join sep (py_split sep s) = s"
  by (simp add: py_split_def join_split_from)

text \<open>A text without the first character of the separator is free of it.\<close>

lemma free_of_head: "c \<notin> set x \<Longrightarrow> free_of (c # sep) x"
  by (induction x) auto

lemma free_of_char [simp]: "free_of [c] x \<longleftrightarrow> c \<notin> set x"
  by (induction x) auto

lemma split_char_through [split_simps]: "c \<notin> set x \<Longrightarrow> py_split [c] (x @ c # r) = x # py_split [c] r"
  using py_split_through [of "[c]" x r] by simp

lemma split_char_end [split_simps]: "c \<notin> set x \<Longrightarrow> py_split [c] x = [x]"
  by (simp add: py_split_end)

section \<open>Stripping\<close>

definition is_space :: "char \<Rightarrow> bool" where
  "is_space c \<longleftrightarrow> (let n = (of_char c :: nat)
     in 9 \<le> n \<and> n \<le> 13 \<or> 28 \<le> n \<and> n \<le> 32 \<or> n = 133 \<or> n = 160)"

definition py_strip :: "string \<Rightarrow> string" where
  "py_strip s = rev (dropWhile is_space (rev (dropWhile is_space s)))"

definition stripped :: "string \<Rightarrow> bool" where
  "stripped s \<longleftrightarrow> s = [] \<or> \<not> is_space (hd s) \<and> \<not> is_space (List.last s)"

lemma dropWhile_hd: "s = [] \<or> \<not> P (hd s) \<Longrightarrow> dropWhile P s = s"
  by (cases s) auto

lemma py_strip_id [simp]: "stripped s \<Longrightarrow> py_strip s = s"
  by (auto simp: py_strip_def stripped_def dropWhile_hd hd_rev)

lemma py_strip_space [simp]: "is_space c \<Longrightarrow> py_strip (c # s) = py_strip s"
  by (simp add: py_strip_def)

lemma is_space_blank [simp]: "is_space CHR '' ''"
  by (simp add: is_space_def)

lemma stripped_py_strip: "stripped (py_strip s)"
proof (cases "py_strip s = []")
  case False
  let ?d = "dropWhile is_space s"
  have d: "dropWhile is_space (rev ?d) \<noteq> []" using False by (simp add: py_strip_def)
  then have last: "\<not> is_space (hd (dropWhile is_space (rev ?d)))" by (rule hd_dropWhile)
  have "?d \<noteq> []" using d by (metis dropWhile.simps(1) rev.simps(1))
  then have first: "\<not> is_space (hd ?d)" by (rule hd_dropWhile)
  obtain ws where "rev ?d = ws @ dropWhile is_space (rev ?d)"
    by (metis takeWhile_dropWhile_id)
  then have "?d = py_strip s @ rev ws" unfolding py_strip_def by (metis rev_append rev_rev_ident)
  with False first have "\<not> is_space (hd (py_strip s))" by (metis hd_append2)
  moreover have "\<not> is_space (List.last (py_strip s))"
    using last d by (simp add: py_strip_def last_rev)
  ultimately show ?thesis by (simp add: stripped_def)
qed (simp add: stripped_def)

section \<open>Decimal numbers\<close>

definition digit_char :: "nat \<Rightarrow> char" where
  "digit_char d = char_of (48 + d)"

fun nat_str :: "nat \<Rightarrow> string" where
  "nat_str n = (if n < 10 then [digit_char n] else nat_str (n div 10) @ [digit_char (n mod 10)])"

declare nat_str.simps [simp del]

definition int_str :: "int \<Rightarrow> string" where
  "int_str i = (if i < 0 then CHR ''-'' # nat_str (nat (- i)) else nat_str (nat i))"

text \<open>
  \<open>int(s)\<close>: surrounding space, an optional sign, and decimal digits with single underscores
  between them.
\<close>

fun digits_value :: "nat \<Rightarrow> string \<Rightarrow> nat option" where
  "digits_value n [] = Some n"
| "digits_value n (c # cs) =
     (if is_digit c then digits_value (10 * n + (of_char c - 48)) cs
      else if c = CHR ''_'' \<and> cs \<noteq> [] \<and> is_digit (hd cs) then digits_value n cs
      else None)"

definition unsigned_value :: "string \<Rightarrow> nat option" where
  "unsigned_value s = (if s \<noteq> [] \<and> is_digit (hd s) then digits_value 0 s else None)"

definition py_int :: "string \<Rightarrow> py_error + int" where
  "py_int s =
     (let t = py_strip s;
          (neg, u) = (if t \<noteq> [] \<and> hd t \<in> {CHR ''+'', CHR ''-''} then (hd t = CHR ''-'', tl t) else (False, t))
      in case unsigned_value u of
           None \<Rightarrow> Inl ValueError
         | Some n \<Rightarrow> Inr (if neg then - int n else int n))"

lemma of_digit_char: "d < 10 \<Longrightarrow> (of_char (digit_char d) :: nat) = 48 + d"
  by (simp add: digit_char_def of_char_of)

lemma is_digit_digit_char [simp]: "d < 10 \<Longrightarrow> is_digit (digit_char d)"
  by (simp add: is_digit_def of_digit_char)

lemma nat_str_digits: "c \<in> set (nat_str n) \<Longrightarrow> is_digit c"
proof (induction n rule: nat_str.induct)
  case (1 n)
  then show ?case by (cases "n < 10") (auto simp: nat_str.simps [of n])
qed

lemma nat_str_not_Nil [simp]: "nat_str n \<noteq> []"
  by (simp add: nat_str.simps [of n])

lemma digits_value_append:
  "\<forall>c \<in> set xs. is_digit c \<Longrightarrow> digits_value n (xs @ ys) =
     (case digits_value n xs of None \<Rightarrow> None | Some m \<Rightarrow> digits_value m ys)"
  by (induction xs arbitrary: n) auto

lemma digits_value_nat_str: "digits_value 0 (nat_str n) = Some n"
proof (induction n rule: nat_str.induct)
  case (1 n)
  show ?case
  proof (cases "n < 10")
    case True
    then show ?thesis by (simp add: nat_str.simps [of n] of_digit_char)
  next
    case False
    have "digits_value 0 (nat_str n) = digits_value (n div 10) [digit_char (n mod 10)]"
      using False 1 nat_str_digits by (simp add: nat_str.simps [of n] digits_value_append)
    then show ?thesis by (simp add: of_digit_char)
  qed
qed

lemma digit_not_space: "is_digit c \<Longrightarrow> \<not> is_space c"
  by (auto simp: is_digit_def is_space_def Let_def)

lemma minus_not_space: "\<not> is_space CHR ''-''"
  by (simp add: is_space_def)

lemma digit_not_sign: "is_digit c \<Longrightarrow> c \<noteq> CHR ''+'' \<and> c \<noteq> CHR ''-''"
  by (auto simp: is_digit_def)

lemma nat_str_ends [simp]: "is_digit (hd (nat_str n))" "is_digit (List.last (nat_str n))"
  by (simp_all add: nat_str_digits [of _ n])

text \<open>A printed integer is read back.\<close>

lemma py_int_int_str: "py_int (int_str i) = Inr i"
proof (cases "i < 0")
  case True
  have "stripped (int_str i)"
    using True digit_not_space minus_not_space by (simp add: stripped_def int_str_def)
  with True show ?thesis by (simp add: py_int_def int_str_def unsigned_value_def digits_value_nat_str)
next
  case False
  have "stripped (int_str i)" using False digit_not_space by (simp add: stripped_def int_str_def)
  with False digit_not_sign [of "hd (nat_str (nat i))"] show ?thesis
    by (simp add: py_int_def int_str_def unsigned_value_def digits_value_nat_str)
qed

end
