(* ===== verification/Json.thy ===== *)
theory Json
  imports Py_Strings
begin

text \<open>
  \<open>json.dumps\<close> of the standard library on the values the sources hand to it, with its default
  settings (only ASCII output) and an optional indentation. The decimal text of a floating-point
  number is a parameter: it is the interpreter's \<open>float.__repr__\<close>.
\<close>

section \<open>String literals\<close>

definition hex_char :: "nat \<Rightarrow> char" where
  "hex_char d = (if d < 10 then char_of (48 + d) else char_of (87 + d))"

definition json_char :: "char \<Rightarrow> string" where
  "json_char c =
     (let n = (of_char c :: nat)
      in if c = CHR 0x22 then [CHR 0x5C, CHR 0x22]
         else if c = CHR 0x5C then [CHR 0x5C, CHR 0x5C]
         else if n = 10 then CHR 0x5C # ''n''
         else if n = 13 then CHR 0x5C # ''r''
         else if n = 9 then CHR 0x5C # ''t''
         else if n = 12 then CHR 0x5C # ''f''
         else if n = 8 then CHR 0x5C # ''b''
         else if 32 \<le> n \<and> n \<le> 126 then [c]
         else CHR 0x5C # ''u00'' @ [hex_char (n div 16), hex_char (n mod 16)])"

definition json_str :: "string \<Rightarrow> string" where
  "json_str s = CHR 0x22 # concat (map json_char s) @ [CHR 0x22]"

section \<open>Documents\<close>

text \<open>What separates items, and what opens and closes a document with items at a nesting level.\<close>

definition line_break :: "nat option \<Rightarrow> nat \<Rightarrow> string" where
  "line_break ind level =
     (case ind of None \<Rightarrow> [] | Some n \<Rightarrow> CHR 0x0A # replicate (n * level) CHR '' '')"

definition item_sep :: "nat option \<Rightarrow> nat \<Rightarrow> string" where
  "item_sep ind level = (case ind of None \<Rightarrow> '', '' | Some _ \<Rightarrow> '','' @ line_break ind level)"

definition json_wrap :: "string \<Rightarrow> string \<Rightarrow> nat option \<Rightarrow> nat \<Rightarrow> string list \<Rightarrow> string" where
  "json_wrap opening closing ind level items =
     (if items = [] then opening @ closing
      else opening @ line_break ind (Suc level) @ py_join (item_sep ind (Suc level)) items @
           line_break ind level @ closing)"

fun dumps_at :: "(pyfloat \<Rightarrow> string) \<Rightarrow> nat option \<Rightarrow> nat \<Rightarrow> pyval \<Rightarrow> string"
  and dumps_items :: "(pyfloat \<Rightarrow> string) \<Rightarrow> nat option \<Rightarrow> nat \<Rightarrow> pyval list \<Rightarrow> string list"
  and dumps_entries :: "(pyfloat \<Rightarrow> string) \<Rightarrow> nat option \<Rightarrow> nat \<Rightarrow> (string \<times> pyval) list \<Rightarrow> string list" where
  "dumps_at fr ind level VNone = ''null''"
| "dumps_at fr ind level (VBool b) = (if b then ''true'' else ''false'')"
| "dumps_at fr ind level (VInt i) = int_str i"
| "dumps_at fr ind level (VFloat x) = fr x"
| "dumps_at fr ind level (VStr s) = json_str s"
| "dumps_at fr ind level (VList vs) = json_wrap ''['' '']'' ind level (dumps_items fr ind (Suc level) vs)"
| "dumps_at fr ind level (VDict kvs) = json_wrap ''{'' ''}'' ind level (dumps_entries fr ind (Suc level) kvs)"
| "dumps_items fr ind level [] = []"
| "dumps_items fr ind level (v # vs) = dumps_at fr ind level v # dumps_items fr ind level vs"
| "dumps_entries fr ind level [] = []"
| "dumps_entries fr ind level ((k, v) # kvs) =
     (json_str k @ '': '' @ dumps_at fr ind level v) # dumps_entries fr ind level kvs"

definition dumps :: "(pyfloat \<Rightarrow> string) \<Rightarrow> nat option \<Rightarrow> pyval \<Rightarrow> string" where
  "dumps fr ind v = dumps_at fr ind 0 v"

section \<open>The output is ASCII\<close>

definition ascii :: "string \<Rightarrow> bool" where
  "ascii s \<longleftrightarrow> list_all (\<lambda>c. (of_char c :: nat) < 128) s"

lemma ascii_simps [simp]:
  "ascii []" "ascii (c # s) \<longleftrightarrow> (of_char c :: nat) < 128 \<and> ascii s" "ascii (s @ t) \<longleftrightarrow> ascii s \<and> ascii t"
  by (simp_all add: ascii_def)

lemma ascii_concat: "\<forall>x \<in> set xs. ascii x \<Longrightarrow> ascii (concat xs)"
  by (induction xs) simp_all

lemma ascii_join: "ascii sep \<Longrightarrow> \<forall>x \<in> set xs. ascii x \<Longrightarrow> ascii (py_join sep xs)"
  by (induction sep xs rule: py_join.induct) simp_all

lemma ascii_replicate: "(of_char c :: nat) < 128 \<Longrightarrow> ascii (replicate n c)"
  by (induction n) simp_all

lemma ascii_hex_char: "d < 16 \<Longrightarrow> (of_char (hex_char d) :: nat) < 128"
  by (simp add: hex_char_def of_char_of)

lemma ascii_json_char: "ascii (json_char c)"
proof -
  have "(of_char c :: nat) < 256" by (rule nat_of_char_less_256)
  then have "(of_char c :: nat) div 16 < 16" by (intro less_mult_imp_div_less) simp
  then show ?thesis by (simp add: json_char_def Let_def ascii_hex_char)
qed

lemma ascii_json_str: "ascii (json_str s)"
  by (simp add: json_str_def ascii_concat ascii_json_char)

lemma ascii_int_str: "ascii (int_str i)"
proof -
  have "ascii (nat_str n)" for n
    using nat_str_digits [of _ n] by (force simp: ascii_def list_all_iff is_digit_def)
  then show ?thesis by (simp add: int_str_def)
qed

lemma ascii_wrap:
  assumes "ascii opening" and "ascii closing" and "\<forall>x \<in> set items. ascii x"
  shows "ascii (json_wrap opening closing ind level items)"
  using assms
  by (simp add: json_wrap_def line_break_def item_sep_def ascii_replicate ascii_join split: option.split)

lemma ascii_dumps_at:
  assumes "\<And>x. ascii (fr x)"
  shows "ascii (dumps_at fr ind level v)"
    and "\<forall>x \<in> set (dumps_items fr ind level vs). ascii x"
    and "\<forall>x \<in> set (dumps_entries fr ind level kvs). ascii x"
  using assms
  by (induction fr ind level v and fr ind level vs and fr ind level kvs
        rule: dumps_at_dumps_items_dumps_entries.induct)
    (simp_all add: ascii_int_str ascii_json_str ascii_wrap)

lemma ascii_dumps: "(\<And>x. ascii (fr x)) \<Longrightarrow> ascii (dumps fr ind v)"
  by (simp add: dumps_def ascii_dumps_at(1))

end
