(* ===== verification/Py_Text.thy ===== *)
theory Py_Text
  imports Json
begin

text \<open>
  \<open>str\<close> and \<open>repr\<close> of the values that commands carry, as formatted strings use them. The text of a
  floating-point number is a parameter, as it is for \<open>json.dumps\<close>.
\<close>

section \<open>Text of values\<close>

text \<open>
  \<open>repr\<close> of a string: it is quoted with the apostrophe unless it has one and no quotation mark, and
  characters that cannot be printed are escaped.
\<close>

definition printable :: "char \<Rightarrow> bool" where
  "printable c \<longleftrightarrow> (let n = (of_char c :: nat) in 32 \<le> n \<and> n < 127 \<or> 161 \<le> n \<and> n \<noteq> 173)"

definition repr_char :: "char \<Rightarrow> char \<Rightarrow> string" where
  "repr_char quote c =
     (let n = (of_char c :: nat)
      in if c = quote \<or> c = CHR 0x5C then [CHR 0x5C, c]
         else if n = 9 then CHR 0x5C # ''t''
         else if n = 10 then CHR 0x5C # ''n''
         else if n = 13 then CHR 0x5C # ''r''
         else if printable c then [c]
         else CHR 0x5C # ''x'' @ [hex_char (n div 16), hex_char (n mod 16)])"

definition repr_str :: "string \<Rightarrow> string" where
  "repr_str s =
     (let quote = (if CHR 0x27 \<in> set s \<and> CHR 0x22 \<notin> set s then CHR 0x22 else CHR 0x27)
      in quote # concat (map (repr_char quote) s) @ [quote])"

fun py_repr :: "(pyfloat \<Rightarrow> string) \<Rightarrow> pyval \<Rightarrow> string"
  and repr_items :: "(pyfloat \<Rightarrow> string) \<Rightarrow> pyval list \<Rightarrow> string list"
  and repr_entries :: "(pyfloat \<Rightarrow> string) \<Rightarrow> (string \<times> pyval) list \<Rightarrow> string list" where
  "py_repr fr VNone = ''None''"
| "py_repr fr (VBool b) = (if b then ''True'' else ''False'')"
| "py_repr fr (VInt i) = int_str i"
| "py_repr fr (VFloat x) = fr x"
| "py_repr fr (VStr s) = repr_str s"
| "py_repr fr (VList vs) = ''['' @ py_join '', '' (repr_items fr vs) @ '']''"
| "py_repr fr (VDict kvs) = ''{'' @ py_join '', '' (repr_entries fr kvs) @ ''}''"
| "repr_items fr [] = []"
| "repr_items fr (v # vs) = py_repr fr v # repr_items fr vs"
| "repr_entries fr [] = []"
| "repr_entries fr ((k, v) # kvs) = (repr_str k @ '': '' @ py_repr fr v) # repr_entries fr kvs"

definition py_str :: "(pyfloat \<Rightarrow> string) \<Rightarrow> pyval \<Rightarrow> string" where
  "py_str fr v = (case v of VStr s \<Rightarrow> s | _ \<Rightarrow> py_repr fr v)"

section \<open>Values as dictionary keys\<close>

fun hashable :: "pyval \<Rightarrow> bool" where
  "hashable (VList _) = False"
| "hashable (VDict _) = False"
| "hashable _ = True"

text \<open>Keys are found by equality: numbers are compared by value, whatever their type.\<close>

fun key_eq :: "pyval \<Rightarrow> pyval \<Rightarrow> bool" where
  "key_eq VNone VNone = True"
| "key_eq (VStr s) (VStr t) = (s = t)"
| "key_eq a b = num_eq a b"

type_synonym 'v val_dict = "(pyval \<times> 'v) list"

definition val_get :: "'v val_dict \<Rightarrow> pyval \<Rightarrow> 'v option" where
  "val_get d k = map_option snd (find (\<lambda>kv. key_eq (fst kv) k) d)"

fun val_set :: "pyval \<Rightarrow> 'v \<Rightarrow> 'v val_dict \<Rightarrow> 'v val_dict" where
  "val_set k v [] = [(k, v)]"
| "val_set k v ((k', v') # d) = (if key_eq k' k then (k', v) # d else (k', v') # val_set k v d)"

text \<open>A key as \<open>json.dumps\<close> writes it.\<close>

fun json_key :: "(pyfloat \<Rightarrow> string) \<Rightarrow> pyval \<Rightarrow> string" where
  "json_key fr (VStr s) = s"
| "json_key fr v = dumps fr None v"

section \<open>Facts\<close>

text \<open>The keys that are strings behave as the keys of a dictionary.\<close>

lemma key_eq_str [simp]: "key_eq k (VStr s) \<longleftrightarrow> k = VStr s"
  by (cases k) auto

lemma key_eq_str_left [simp]: "key_eq (VStr s) k \<longleftrightarrow> k = VStr s"
  by (cases k) auto

lemma val_get_set_same: "val_get (val_set (VStr s) v d) (VStr s) = Some v"
  by (induction d) (auto simp: val_get_def)

lemma val_get_set_other:
  assumes "\<not> key_eq k (VStr s)"
  shows "val_get (val_set k v d) (VStr s) = val_get d (VStr s)"
proof (induction d)
  case (Cons kv d)
  obtain k' v' where "kv = (k', v')" by (cases kv)
  with Cons assms show ?case by (cases "k' = VStr s") (auto simp: val_get_def)
qed (use assms in \<open>simp add: val_get_def\<close>)

text \<open>Setting a key changes nothing for the strings that are not the key.\<close>

lemma val_get_set_str:
  "val_get (val_set (VStr s) v d) (VStr t) = (if t = s then Some v else val_get d (VStr t))"
  using val_get_set_same [of s v d] val_get_set_other [of "VStr s" t v d] by auto

end
