(* ===== verification/Channel_Environment.thy ===== *)
theory Channel_Environment
  imports Decoding
begin

text \<open>
  The channel environment (\<open>vtelem/channel/environment.py\<close>) with its channel framer
  (\<open>vtelem/channel/framer.py\<close>), metered frame queue (\<open>vtelem/classes/metered_queue.py\<close>) and clock and
  lock (\<open>vtelem/classes/time_entity.py\<close>). Channels are objects shared by the registry and the
  framer, so the environment keeps them in a store and the two hold references. The queues are
  bounded; putting a frame into a full queue does not return.
\<close>

section \<open>State\<close>

record channel_env =
  env_time :: pyfloat
  env_lock :: int
  env_objects :: "channel list"
  env_registry :: "nat registry"
  env_framer :: framer
  env_channels :: "nat list"
  env_write_crc :: bool
  env_metrics :: "(string, int) dict option"
  env_events :: "event list"
  env_frames :: "frame list"
  env_log :: "(string, pyval) dict"

abbreviation in_chan_registry :: "(nat registry, 'a) py \<Rightarrow> (channel_env, 'a) py" where
  "in_chan_registry m \<equiv> zoom env_registry (\<lambda>r e. e\<lparr>env_registry := r\<rparr>) m"

abbreviation in_framer :: "(framer, 'a) py \<Rightarrow> (channel_env, 'a) py" where
  "in_framer m \<equiv> zoom env_framer (\<lambda>f e. e\<lparr>env_framer := f\<rparr>) m"

text \<open>
  \<open>with self.lock\<close>: the lock counts its acquisitions by the running thread and is not released when
  the body raises.
\<close>

definition with_lock :: "(channel_env, 'a) py \<Rightarrow> (channel_env, 'a) py" where
  "with_lock body =
     bindp (modify (\<lambda>e. e\<lparr>env_lock := env_lock e + 1\<rparr>)) (\<lambda>_.
     bindp body (\<lambda>r.
     bindp (modify (\<lambda>e. e\<lparr>env_lock := env_lock e - 1\<rparr>)) (\<lambda>_. ret r)))"

definition advance_time :: "pyfloat \<Rightarrow> (channel_env, unit) py" where
  "advance_time amount = with_lock (modify (\<lambda>e. e\<lparr>env_time := fadd (env_time e) amount\<rparr>))"

definition set_time :: "pyfloat \<Rightarrow> (channel_env, unit) py" where
  "set_time time = with_lock (modify (\<lambda>e. e\<lparr>env_time := time\<rparr>))"

definition get_time :: "channel_env \<Rightarrow> pyfloat" where
  "get_time e = env_time e"

section \<open>Channel objects\<close>

definition chan_at :: "channel_env \<Rightarrow> nat \<Rightarrow> channel" where
  "chan_at e r = env_objects e ! r"

text \<open>A registered channel by its identifier.\<close>

definition get_channel :: "int \<Rightarrow> (channel_env, nat) py" where
  "get_channel chan_id = bindp (in_chan_registry (get_item chan_id)) (\<lambda>ch.
     case ch of None \<Rightarrow> raise AssertionError | Some r \<Rightarrow> ret r)"

text \<open>A method of a channel object, with the environment's event queue behind its callback.\<close>

definition on_channel :: "nat \<Rightarrow> (chan_state, 'a) py \<Rightarrow> (channel_env, 'a) py" where
  "on_channel r m =
     zoom (\<lambda>e. (chan_at e r, env_events e))
       (\<lambda>(c, q) e. e\<lparr>env_objects := (env_objects e)[r := c], env_events := q\<rparr>) m"

definition new_object :: "channel \<Rightarrow> (channel_env, nat) py" where
  "new_object c =
     bindp (gets (\<lambda>e. length (env_objects e))) (\<lambda>r.
     bindp (modify (\<lambda>e. e\<lparr>env_objects := env_objects e @ [c]\<rparr>)) (\<lambda>_. ret r))"

definition set_now :: "int \<Rightarrow> pyval \<Rightarrow> (channel_env, bool) py" where
  "set_now channel_id data =
     bindp (get_channel channel_id) (\<lambda>r.
     bindp (gets get_time) (\<lambda>t. on_channel r (ch_set data (Some t))))"

definition env_get_value :: "int \<Rightarrow> (channel_env, pyval) py" where
  "env_get_value chan_id =
     bindp (get_channel chan_id) (\<lambda>r. gets (\<lambda>e. tp_get (chan_at e r)))"

definition set_channel_rate :: "int \<Rightarrow> pyfloat \<Rightarrow> (channel_env, unit) py" where
  "set_channel_rate chan_id rate =
     bindp (get_channel chan_id) (\<lambda>r.
     modify (\<lambda>e. e\<lparr>env_objects := (env_objects e)[r := set_rate rate (chan_at e r)]\<rparr>))"

definition has_channel :: "string \<Rightarrow> (channel_env, bool) py" where
  "has_channel name = bindp (in_chan_registry (get_id name)) (\<lambda>i. ret (i \<noteq> None))"

definition command_channel_id :: "int \<Rightarrow> pyval \<Rightarrow> (channel_env, bool) py" where
  "command_channel_id chan_id v =
     bindp (get_channel chan_id) (\<lambda>r.
     with_lock (bindp (gets get_time) (\<lambda>t. on_channel r (ch_command v (Some t) False))))"

definition command_channel :: "string \<Rightarrow> pyval \<Rightarrow> (channel_env, bool) py" where
  "command_channel name v =
     bindp (has_channel name) (\<lambda>known.
     if \<not> known then ret False
     else bindp (in_chan_registry (get_id name)) (\<lambda>i.
       case i of None \<Rightarrow> raise AssertionError | Some chan_id \<Rightarrow> command_channel_id chan_id v))"

section \<open>Metrics\<close>

definition has_metric :: "string \<Rightarrow> channel_env \<Rightarrow> bool" where
  "has_metric name e = (case env_metrics e of None \<Rightarrow> False | Some m \<Rightarrow> name \<in> set (dict_keys m))"

definition metric_id :: "string \<Rightarrow> channel_env \<Rightarrow> int option" where
  "metric_id name e = (case env_metrics e of None \<Rightarrow> None | Some m \<Rightarrow> dict_get m name)"

definition set_metric :: "string \<Rightarrow> pyval \<Rightarrow> pyfloat option \<Rightarrow> (channel_env, unit) py" where
  "set_metric name data time = bindp (gets (metric_id name)) (\<lambda>m.
     case m of
       None \<Rightarrow> ret ()
     | Some i \<Rightarrow> bindp (get_channel i) (\<lambda>r.
         bindp (on_channel r (ch_set data time)) assertp))"

definition metric_add :: "string \<Rightarrow> pyval \<Rightarrow> pyfloat option \<Rightarrow> (channel_env, unit) py" where
  "metric_add name data time = bindp (gets (metric_id name)) (\<lambda>m.
     case m of
       None \<Rightarrow> ret ()
     | Some i \<Rightarrow> bindp (get_channel i) (\<lambda>r.
         bindp (on_channel r (ch_add data time)) assertp))"

definition get_metric :: "string \<Rightarrow> (channel_env, pyval) py" where
  "get_metric name = bindp (gets env_metrics) (\<lambda>ms.
     case ms of
       None \<Rightarrow> raise AssertionError
     | Some m \<Rightarrow> bindp (lift_res (dict_item m name)) env_get_value)"

definition set_metric_rate :: "string \<Rightarrow> pyfloat \<Rightarrow> (channel_env, unit) py" where
  "set_metric_rate name rate = bindp (gets env_metrics) (\<lambda>ms.
     case ms of
       None \<Rightarrow> ret ()
     | Some m \<Rightarrow> bindp (lift_res (dict_item m name)) (\<lambda>i. set_channel_rate i rate))"

section \<open>Adding channels\<close>

definition register_object :: "string \<Rightarrow> nat \<Rightarrow> (channel_env, int) py" where
  "register_object name r =
     bindp (in_chan_registry (reg_add name r)) (\<lambda>result.
     bindp (assertp (fst result)) (\<lambda>_.
     bindp (modify (\<lambda>e. e\<lparr>env_channels := env_channels e @ [r]\<rparr>)) (\<lambda>_. ret (snd result))))"

definition env_add_channel :: "string \<Rightarrow> primitive \<Rightarrow> pyfloat \<Rightarrow> bool \<Rightarrow> (pyval \<times> pyfloat option) option \<Rightarrow> bool \<Rightarrow>
    (channel_env, int) py" where
  "env_add_channel name inst rate track_change initial commandable =
     bindp (with_lock (
       bindp (new_object (new_channel name inst rate track_change commandable False)) (\<lambda>r.
       bindp (case initial of
                None \<Rightarrow> ret ()
              | Some (v, t) \<Rightarrow> bindp (on_channel r (ch_set v t)) assertp) (\<lambda>_.
       register_object name r)))) (\<lambda>i.
     bindp (metric_add ''channel_count'' (VInt 1) None) (\<lambda>_. ret i))"

definition add_metric :: "string \<Rightarrow> primitive \<Rightarrow> bool \<Rightarrow> (pyval \<times> pyfloat option) option \<Rightarrow> (channel_env, unit) py" where
  "add_metric name inst track_change initial =
     bindp (gets (\<lambda>e. env_metrics e \<noteq> None \<and> \<not> has_metric name e)) (\<lambda>go.
     if \<not> go then ret ()
     else
       bindp (env_add_channel name inst 0 track_change initial False) (\<lambda>i.
       bindp (modify (\<lambda>e. e\<lparr>env_metrics := map_option (dict_set name i) (env_metrics e)\<rparr>)) (\<lambda>_.
       bindp (get_metric ''metrics_rate'') (\<lambda>v.
       bindp (lift_res (as_float v)) (\<lambda>rate. set_metric_rate name rate)))))"

definition register_base_metrics :: "pyfloat \<Rightarrow> (channel_env, unit) py" where
  "register_base_metrics metrics_rate =
     bindp (gets env_metrics) (\<lambda>ms.
     if ms \<noteq> None then ret ()
     else
       bindp (modify (\<lambda>e. e\<lparr>env_metrics := Some []\<rparr>)) (\<lambda>_.
       bindp (add_metric ''metrics_rate'' FLOAT False (Some (VFloat metrics_rate, None))) (\<lambda>_.
       bindp (add_metric ''channel_count'' UINT32 True (Some (VInt 0, None))) (\<lambda>_.
       bindp (add_metric ''events_captured'' UINT32 True (Some (VInt 0, None))) (\<lambda>_.
       bindp (add_metric ''emits_captured'' UINT32 True (Some (VInt 0, None))) (\<lambda>_.
       bindp (add_metric ''dispatch_count'' UINT32 True (Some (VInt 0, None))) (\<lambda>_.
       bindp (gets (\<lambda>e. reg_count (env_registry e))) (\<lambda>n.
       set_metric ''channel_count'' (VInt n) None))))))))"

section \<open>The metered frame queue\<close>

definition new_metered_queue :: "string \<Rightarrow> (channel_env, unit) py" where
  "new_metered_queue name =
     bindp (gets get_time) (\<lambda>t.
     bindp (add_metric (name @ ''_queue.elements'') UINT16 False (Some (VInt 0, Some t))) (\<lambda>_.
     bindp (add_metric (name @ ''_queue.total_enqueued'') UINT32 False (Some (VInt 0, Some t))) (\<lambda>_.
     add_metric (name @ ''_queue.total_dequeued'') UINT32 False (Some (VInt 0, Some t)))))"

definition queue_put :: "frame \<Rightarrow> (channel_env, unit) py" where
  "queue_put item =
     bindp (gets get_time) (\<lambda>t.
     bindp (metric_add ''frame_queue.elements'' (VInt 1) (Some t)) (\<lambda>_.
     bindp (metric_add ''frame_queue.total_enqueued'' (VInt 1) (Some t)) (\<lambda>_.
     bindp (gets (\<lambda>e. int (length (env_frames e)) < MAX_SIZE)) (\<lambda>room.
     if room then modify (\<lambda>e. e\<lparr>env_frames := env_frames e @ [item]\<rparr>) else raise Blocks))))"

text \<open>Taking a frame from an empty queue waits, and is an exception once the time is up.\<close>

definition queue_get :: "(channel_env, frame) py" where
  "queue_get = bindp (gets env_frames) (\<lambda>fs.
     case fs of
       [] \<Rightarrow> raise Blocks
     | f # rest \<Rightarrow>
         bindp (modify (\<lambda>e. e\<lparr>env_frames := rest\<rparr>)) (\<lambda>_.
         bindp (gets get_time) (\<lambda>t.
         bindp (metric_add ''frame_queue.elements'' (VInt (-1)) (Some t)) (\<lambda>_.
         bindp (metric_add ''frame_queue.total_dequeued'' (VInt 1) (Some t)) (\<lambda>_. ret f)))))"

definition get_next_frame :: "(channel_env, frame) py" where
  "get_next_frame = queue_get"

section \<open>Building frames\<close>

text \<open>Finishing a frame and queueing it; a method of the frame on a local variable.\<close>

definition emit_frame :: "bool \<Rightarrow> int \<Rightarrow> frame \<Rightarrow> (channel_env, unit) py" where
  "emit_frame write_crc rnd f =
     bindp (gets (\<lambda>e. finalize (write_crc \<and> frm_use_crc (env_framer e)) rnd f)) (\<lambda>(r, f').
     bindp (lift_res r) (\<lambda>_. queue_put f'))"

definition new_channel_frame :: "string \<Rightarrow> pyfloat option \<Rightarrow> (channel_env, frame) py" where
  "new_channel_frame frame_type time =
     bindp (in_framer (new_frame frame_type time)) (\<lambda>f.
     bindp (assertp (fr_class f = ChannelFrame)) (\<lambda>_. ret f))"

text \<open>
  Adding an element to the current frame; when it does not fit, the frame is finished and a new
  one, with the same timestamp, takes the element. The result is the current frame and the
  number of frames finished.
\<close>

definition add_or_flush :: "string \<Rightarrow> bool \<Rightarrow> int \<Rightarrow> (frame, bool) py \<Rightarrow> frame \<Rightarrow> (channel_env, frame \<times> int) py" where
  "add_or_flush frame_type write_crc rnd add f =
     (case add f of
        (Inl err, _) \<Rightarrow> raise err
      | (Inr True, f') \<Rightarrow> ret (f', 0)
      | (Inr False, f') \<Rightarrow>
          bindp (emit_frame write_crc rnd f') (\<lambda>_.
          bindp (new_channel_frame frame_type None) (\<lambda>g.
          case add g of
            (Inl err, _) \<Rightarrow> raise err
          | (Inr ok, g') \<Rightarrow> bindp (assertp ok) (\<lambda>_. ret (g', 1)))))"

fun data_loop :: "pyfloat \<Rightarrow> bool \<Rightarrow> int \<Rightarrow> nat list \<Rightarrow> frame \<Rightarrow> int \<Rightarrow> int \<Rightarrow>
    (channel_env, frame \<times> int \<times> int) py" where
  "data_loop time write_crc rnd [] curr_frame frame_count emit_count =
     ret (curr_frame, frame_count, emit_count)"
| "data_loop time write_crc rnd (r # rs) curr_frame frame_count emit_count =
     bindp (gets (\<lambda>e. emit time (chan_at e r))) (\<lambda>(result, c).
     bindp (modify (\<lambda>e. e\<lparr>env_objects := (env_objects e)[r := c]\<rparr>)) (\<lambda>_.
     case result of
       None \<Rightarrow> data_loop time write_crc rnd rs curr_frame frame_count emit_count
     | Some v \<Rightarrow>
         bindp (in_chan_registry (get_id (ch_name c))) (\<lambda>i.
         case i of
           None \<Rightarrow> raise AssertionError
         | Some chan_id \<Rightarrow>
             bindp (add_or_flush ''data'' write_crc rnd (frame_add chan_id (tp_type c) v) curr_frame) (\<lambda>(f, n).
             data_loop time write_crc rnd rs f (frame_count + n) (emit_count + 1)))))"

definition finish_frames :: "bool \<Rightarrow> int \<Rightarrow> frame \<Rightarrow> int \<Rightarrow> int \<Rightarrow> (channel_env, int \<times> int) py" where
  "finish_frames write_crc rnd curr_frame frame_count elem_count =
     (if elem_count \<noteq> 0 \<and> \<not> fr_finalized curr_frame
      then bindp (emit_frame write_crc rnd curr_frame) (\<lambda>_. ret (frame_count + 1, elem_count))
      else ret (frame_count, elem_count))"

definition build_data_frames :: "pyfloat \<Rightarrow> bool \<Rightarrow> int \<Rightarrow> (channel_env, int \<times> int) py" where
  "build_data_frames time write_crc rnd =
     bindp (new_channel_frame ''data'' (Some time)) (\<lambda>curr_frame.
     bindp (with_lock (bindp (gets env_channels) (\<lambda>rs. data_loop time write_crc rnd rs curr_frame 0 0)))
       (\<lambda>(f, frame_count, emit_count). finish_frames write_crc rnd f frame_count emit_count))"

definition event_channel :: "string \<Rightarrow> (channel_env, int \<times> primitive) py" where
  "event_channel name =
     bindp (in_chan_registry (get_id name)) (\<lambda>i.
     case i of
       None \<Rightarrow> raise AssertionError
     | Some chan_id \<Rightarrow> bindp (get_channel chan_id) (\<lambda>r. gets (\<lambda>e. (chan_id, tp_type (chan_at e r)))))"

fun event_loop :: "bool \<Rightarrow> int \<Rightarrow> event list \<Rightarrow> frame \<Rightarrow> int \<Rightarrow> (channel_env, frame \<times> int) py" where
  "event_loop write_crc rnd [] curr_frame frame_count = ret (curr_frame, frame_count)"
| "event_loop write_crc rnd ((name, prev, cur) # evs) curr_frame frame_count =
     bindp (event_channel name) (\<lambda>(chan_id, ty).
     bindp (add_or_flush ''event'' write_crc rnd (add_event chan_id ty prev cur) curr_frame) (\<lambda>(f, n).
     event_loop write_crc rnd evs f (frame_count + n)))"

definition build_event_frames :: "pyfloat \<Rightarrow> bool \<Rightarrow> int \<Rightarrow> (channel_env, int \<times> int) py" where
  "build_event_frames time write_crc rnd =
     bindp (gets (\<lambda>e. consume (env_events e))) (\<lambda>(events, q).
     bindp (modify (\<lambda>e. e\<lparr>env_events := q\<rparr>)) (\<lambda>_.
     bindp (new_channel_frame ''event'' (Some time)) (\<lambda>curr_frame.
     bindp (event_loop write_crc rnd events curr_frame 0) (\<lambda>(f, frame_count).
     finish_frames write_crc rnd f frame_count (int (length events))))))"

section \<open>Dispatching\<close>

definition dispatch_data :: "pyfloat \<Rightarrow> int \<Rightarrow> (channel_env, int \<times> int) py" where
  "dispatch_data time rnd =
     bindp (gets env_write_crc) (\<lambda>w.
     bindp (build_data_frames time w rnd) (\<lambda>result.
     bindp (metric_add ''emits_captured'' (VInt (snd result)) (Some time)) (\<lambda>_. ret result)))"

definition dispatch_events :: "pyfloat \<Rightarrow> int \<Rightarrow> (channel_env, int \<times> int) py" where
  "dispatch_events time rnd =
     bindp (gets env_write_crc) (\<lambda>w.
     bindp (build_event_frames time w rnd) (\<lambda>result.
     bindp (metric_add ''events_captured'' (VInt (snd result)) (Some time)) (\<lambda>_. ret result)))"

definition LOG_PERIOD :: pyfloat where
  "LOG_PERIOD = fl (1 / 4)"

text \<open>The counters for the log, a dictionary that answers 0.0 for a missing key.\<close>

definition log_get :: "string \<Rightarrow> channel_env \<Rightarrow> pyval" where
  "log_get k e = (case dict_get (env_log e) k of None \<Rightarrow> VFloat 0 | Some v \<Rightarrow> v)"

definition log_add :: "string \<Rightarrow> int \<Rightarrow> (channel_env, unit) py" where
  "log_add k n =
     bindp (gets (\<lambda>e. num_add (log_get k e) (VInt n))) (\<lambda>r. bindp (lift_res r) (\<lambda>v.
     modify (\<lambda>e. e\<lparr>env_log := dict_set k v (env_log e)\<rparr>)))"

definition log_set :: "string \<Rightarrow> pyval \<Rightarrow> (channel_env, unit) py" where
  "log_set k v = modify (\<lambda>e. e\<lparr>env_log := dict_set k v (env_log e)\<rparr>)"

definition log_dispatch :: "pyfloat \<Rightarrow> (channel_env, unit) py" where
  "log_dispatch time =
     bindp (gets (\<lambda>e. as_float (log_get ''last_log'' e))) (\<lambda>r. bindp (lift_res r) (\<lambda>last_log.
     if fle LOG_PERIOD (fsub time last_log)
     then bindp (log_set ''emits'' (VInt 0)) (\<lambda>_.
          bindp (log_set ''events'' (VInt 0)) (\<lambda>_.
          bindp (log_set ''frames'' (VInt 0)) (\<lambda>_. log_set ''last_log'' (VFloat time))))
     else ret ()))"

definition dispatch :: "pyfloat \<Rightarrow> bool \<Rightarrow> int \<Rightarrow> (channel_env, int) py" where
  "dispatch time should_log rnd =
     bindp (with_lock (
       bindp (dispatch_data time rnd) (\<lambda>data.
       bindp (dispatch_events time rnd) (\<lambda>events.
       bindp (metric_add ''dispatch_count'' (VInt 1) None) (\<lambda>_. ret (data, events)))))) (\<lambda>(data, events).
     let tot = fst data + fst events
     in bindp (log_add ''emits'' (snd data)) (\<lambda>_.
        bindp (log_add ''events'' (snd events)) (\<lambda>_.
        bindp (log_add ''frames'' tot) (\<lambda>_.
        bindp (if should_log then log_dispatch time else ret ()) (\<lambda>_. ret tot)))))"

definition dispatch_now :: "bool \<Rightarrow> int \<Rightarrow> (channel_env, int) py" where
  "dispatch_now should_log rnd = bindp (gets get_time) (\<lambda>t. dispatch t should_log rnd)"

definition handle_new_mtu :: "int \<Rightarrow> (channel_env, unit) py" where
  "handle_new_mtu new_mtu =
     with_lock (modify (\<lambda>e. if new_mtu < frm_mtu (env_framer e)
       then e\<lparr>env_framer := (env_framer e)\<lparr>frm_mtu := new_mtu\<rparr>\<rparr> else e))"

text \<open>The registry with its channels, as the frame parsers see it.\<close>

definition deref :: "channel_env \<Rightarrow> channel_registry" where
  "deref e =
     (let r = env_registry e
      in \<lparr>reg_type_name = reg_type_name r,
          reg_items = map (\<lambda>(i, x). (i, map_option (chan_at e) x)) (reg_items r),
          reg_mappings = reg_mappings r, reg_curr_id = reg_curr_id r\<rparr>)"

definition env_decode_frame :: "byte list \<Rightarrow> int \<Rightarrow> type_primitive option \<Rightarrow> (channel_env, parsed_frame option) py" where
  "env_decode_frame data sz expected_id e =
     (case decode_frame data sz expected_id (deref e) of
        (r, reg) \<Rightarrow> (r, e\<lparr>env_registry := (env_registry e)
           \<lparr>reg_items := map (\<lambda>(i, x). (i, if x = None then None
              else (case dict_get (reg_items (env_registry e)) i of Some y \<Rightarrow> y | None \<Rightarrow> None)))
              (reg_items reg)\<rparr>\<rparr>))"

section \<open>Construction\<close>

definition env_init :: "channel list \<Rightarrow> pyfloat option \<Rightarrow> (channel_env, unit) py" where
  "env_init initial_channels metrics_rate =
     bindp (for_each (\<lambda>c.
       bindp (new_object c) (\<lambda>r.
       bindp (in_chan_registry (reg_add (ch_name c) r)) (\<lambda>_.
       modify (\<lambda>e. e\<lparr>env_channels := env_channels e @ [r]\<rparr>)))) initial_channels) (\<lambda>_.
     bindp (case metrics_rate of None \<Rightarrow> ret () | Some rate \<Rightarrow> register_base_metrics rate) (\<lambda>_.
     new_metered_queue ''frame''))"

definition new_channel_env :: "int \<Rightarrow> channel list \<Rightarrow> pyfloat option \<Rightarrow> pyfloat option \<Rightarrow> pyfloat option \<Rightarrow> int \<Rightarrow>
    bool \<Rightarrow> py_error + channel_env" where
  "new_channel_env mtu initial_channels metrics_rate init_time app_id_basis rnd use_crc =
     (case new_framer mtu app_id_basis rnd use_crc of
        Inl err \<Rightarrow> Inl err
      | Inr fr \<Rightarrow>
          (case env_init initial_channels metrics_rate
               \<lparr>env_time = (case init_time of None \<Rightarrow> 0 | Some t \<Rightarrow> t), env_lock = 0, env_objects = [],
                env_registry = empty_registry ''channels'', env_framer = fr, env_channels = [],
                env_write_crc = True, env_metrics = None, env_events = [], env_frames = [],
                env_log = []\<rparr> of
             (Inl err, _) \<Rightarrow> Inl err
           | (Inr _, e) \<Rightarrow> Inr e))"

section \<open>Properties\<close>

text \<open>
  Adding a channel under a name that is taken raises, and the environment's lock, which
  is not released when its body raises, stays held.
\<close>

theorem duplicate_channel_keeps_lock:
  assumes "dict_get (reg_mappings (env_registry e)) name = Some (Some i)"
  shows "\<exists>e'. env_add_channel name p rate track None commandable e = (Inl AssertionError, e') \<and>
    env_lock e' = env_lock e + 1 \<and> env_registry e' = env_registry e \<and> env_channels e' = env_channels e"
  using assms
  by (simp add: env_add_channel_def with_lock_def new_object_def register_object_def reg_add_def get_id_def
      zoom_def bindp_assoc)

theorem duplicate_channel_keeps_lock_witness:
  "\<exists>e'. env_add_channel ''a'' UINT8 0 False None True
      \<lparr>env_time = 0, env_lock = 0, env_objects = [new_channel ''a'' UINT8 0 False True False],
       env_registry = \<lparr>reg_type_name = ''channels'', reg_items = [(0, Some 0)], reg_mappings = [(''a'', Some 0)],
         reg_curr_id = 1\<rparr>,
       env_framer = \<lparr>frm_mtu = 64, frm_timestamps = [], frm_primitives = [], frm_use_crc = True\<rparr>,
       env_channels = [0], env_write_crc = True, env_metrics = None, env_events = [], env_frames = [],
       env_log = []\<rparr> = (Inl AssertionError, e') \<and> env_lock e' = 1"
  using duplicate_channel_keeps_lock [of
      "\<lparr>env_time = 0, env_lock = 0, env_objects = [new_channel ''a'' UINT8 0 False True False],
       env_registry = \<lparr>reg_type_name = ''channels'', reg_items = [(0, Some 0)], reg_mappings = [(''a'', Some 0)],
         reg_curr_id = 1\<rparr>,
       env_framer = \<lparr>frm_mtu = 64, frm_timestamps = [], frm_primitives = [], frm_use_crc = True\<rparr>,
       env_channels = [0], env_write_crc = True, env_metrics = None, env_events = [], env_frames = [],
       env_log = []\<rparr>" "''a''" 0 UINT8 0 False True] by auto

end
