(* ===== verification/Type_Registries.thy ===== *)
theory Type_Registries
  imports Registry
begin

text \<open>
  The registries built on the generic one: primitive types (\<open>vtelem/registry/type.py\<close>), services
  (\<open>vtelem/registry/service.py\<close>), enumerations and their export as types
  (\<open>vtelem/registry/enum.py\<close>), and the serializable enumeration registry
  (\<open>vtelem/registry/enum_retry.py\<close>).
\<close>

section \<open>Types and services\<close>

type_synonym type_registry = "primitive registry"

definition new_type_registry :: "(string \<times> primitive) list \<Rightarrow> type_registry" where
  "new_type_registry initial_types = new_registry ''types'' initial_types"

definition get_type :: "int \<Rightarrow> (type_registry, primitive option) py" where
  "get_type type_id = get_item type_id"

definition get_default :: type_registry where
  "get_default = new_type_registry (map (\<lambda>p. (get_name p, p)) all_primitives)"

type_synonym service = "(string \<times> int) list"

definition new_service_registry :: "(string \<times> service) list \<Rightarrow> service registry" where
  "new_service_registry initial_services = new_registry ''services'' initial_services"

text \<open>The default registry knows every primitive under its name, numbered in declaration order.\<close>

lemma get_name_inj: "get_name p = get_name q \<Longrightarrow> p = q"
  by (cases p; cases q) (simp_all add: get_name_def int_primitive_def other_primitive_def)

lemma get_default_rel: "reg_rel get_default (map (\<lambda>p. (get_name p, p)) all_primitives)"
proof -
  have "distinct all_primitives" by (simp add: all_primitives_def)
  then have "distinct (map get_name all_primitives)"
    by (simp add: distinct_map inj_on_def get_name_inj)
  then have "distinct (map fst (map (\<lambda>p. (get_name p, p)) all_primitives))"
    by (simp add: comp_def)
  then show ?thesis
    unfolding get_default_def new_type_registry_def by (rule new_registry_rel)
qed

lemma get_default_lookup:
  "\<exists>i r r'. get_id (get_name p) get_default = (Inr (Some i), r) \<and> get_type i r = (Inr (Some p), r')"
  using reg.lookup_registered [OF get_default_rel, of "get_name p" p]
  by (auto simp: get_type_def)

section \<open>Enumerations\<close>

record enum_registry =
  er_reg :: "user_enum registry"
  er_global :: "(int, int) dict"

abbreviation in_reg :: "(user_enum registry, 'a) py \<Rightarrow> (enum_registry, 'a) py" where
  "in_reg m \<equiv> zoom er_reg (\<lambda>r e. e\<lparr>er_reg := r\<rparr>) m"

definition er_get_enum :: "user_enum \<Rightarrow> (enum_registry, bool \<times> int) py" where
  "er_get_enum enum = bindp (in_reg (get_id (ue_name enum))) (\<lambda>candidate.
     case candidate of None \<Rightarrow> ret (False, -1) | Some i \<Rightarrow> ret (True, i))"

definition er_add_enum :: "user_enum \<Rightarrow> (enum_registry, bool \<times> int) py" where
  "er_add_enum enum = in_reg (reg_add (ue_name enum) enum)"

definition er_add_from_enum :: "string \<Rightarrow> (string \<times> int) list \<Rightarrow> (enum_registry, bool \<times> int) py" where
  "er_add_from_enum class_name members =
     bindp (lift_res (from_enum class_name members)) er_add_enum"

definition new_enum_registry :: "user_enum list \<Rightarrow> enum_registry" where
  "new_enum_registry initial_enums =
     snd (for_each (\<lambda>e. bindp (er_add_enum e) (\<lambda>_. ret ())) initial_enums
            \<lparr>er_reg = empty_registry ''enums'', er_global = []\<rparr>)"

text \<open>The map of type identifiers to enumeration identifiers answers -1, and stores it.\<close>

definition global_mapping :: "int \<Rightarrow> (enum_registry, int) py" where
  "global_mapping k e =
     (case dict_get (er_global e) k of
        Some v \<Rightarrow> (Inr v, e)
      | None \<Rightarrow> (Inr (-1), e\<lparr>er_global := dict_set k (-1) (er_global e)\<rparr>))"

type_synonym export_state = "enum_registry \<times> type_registry"

abbreviation in_enums :: "(enum_registry, 'a) py \<Rightarrow> (export_state, 'a) py" where
  "in_enums m \<equiv> zoom fst (\<lambda>e s. (e, snd s)) m"

abbreviation in_types :: "(type_registry, 'a) py \<Rightarrow> (export_state, 'a) py" where
  "in_types m \<equiv> zoom snd (\<lambda>t s. (fst s, t)) m"

text \<open>
  The loop of \<open>export\<close>, over the registered items; an item that a failed lookup left as \<open>None\<close>
  has no name.
\<close>

fun export_items :: "(int \<times> user_enum option) list \<Rightarrow> (export_state, bool) py" where
  "export_items [] = ret True"
| "export_items ((enum_id, None) # its) = raise AttributeError"
| "export_items ((enum_id, Some enum) # its) =
     bindp (in_types (get_id (ue_name enum))) (\<lambda>curr_id.
     case curr_id of
       Some c \<Rightarrow> bindp (in_enums (global_mapping c)) (\<lambda>expected_id.
         if expected_id \<noteq> enum_id then ret False else export_items its)
     | None \<Rightarrow> bindp (in_types (reg_add (ue_name enum) UINT8)) (\<lambda>result.
         bindp (assertp (fst result)) (\<lambda>_.
         bindp (in_enums (modify (\<lambda>e. e\<lparr>er_global := dict_set (snd result) enum_id (er_global e)\<rparr>)))
           (\<lambda>_. export_items its))))"

definition er_export :: "(export_state, bool) py" where
  "er_export = bindp (gets (\<lambda>s. reg_items (er_reg (fst s)))) export_items"

text \<open>An enumeration is exported when a type of its name is mapped to its identifier.\<close>

definition exported :: "enum_registry \<Rightarrow> (string \<times> primitive) list \<Rightarrow> int \<Rightarrow> string \<Rightarrow> bool" where
  "exported e ts i n \<longleftrightarrow>
     (\<exists>k < length ts. fst (ts ! k) = n \<and> dict_get (er_global e) (int k) = Some i)"

lemma exported_snoc:
  assumes "exported e ts i n"
  shows "exported (e\<lparr>er_global := dict_set (int (length ts)) j (er_global e)\<rparr>) (ts @ [t]) i n"
  using assms unfolding exported_def by (force simp: nth_append)

lemma exported_new: "exported (e\<lparr>er_global := dict_set (int (length ts)) j (er_global e)\<rparr>) (ts @ [(n, p)]) j n"
  unfolding exported_def by (force simp: nth_append)

lemma export_items_ok:
  assumes "reg_rel t ts"
    and "\<forall>it \<in> set its. snd it \<noteq> None"
    and "distinct (map (\<lambda>it. ue_name (the (snd it))) its)"
    and "\<forall>i e. (i, Some e) \<in> set its \<longrightarrow>
      ue_name e \<in> fst ` set ts \<longrightarrow> exported er ts i (ue_name e)"
  shows "\<exists>er' t' ts'. export_items its (er, t) = (Inr True, (er', t')) \<and> reg_rel t' (ts @ ts') \<and>
      er_reg er' = er_reg er \<and> (\<forall>p \<in> set ts'. snd p = UINT8) \<and>
      (\<forall>i n. exported er ts i n \<longrightarrow> exported er' (ts @ ts') i n) \<and>
      (\<forall>i e. (i, Some e) \<in> set its \<longrightarrow> exported er' (ts @ ts') i (ue_name e))"
  using assms
proof (induction its arbitrary: er t ts)
  case Nil
  then show ?case by (intro exI [of _ er] exI [of _ t] exI [of _ "[]"]) simp
next
  case (Cons it its)
  obtain i where "fst it = i" by simp
  with Cons.prems(2) obtain e where it: "it = (i, Some e)" by (cases it) auto
  have d: "distinct (map (\<lambda>it. ue_name (the (snd it))) its)" using Cons.prems(3) by simp
  have fresh: "ue_name e' \<noteq> ue_name e" if "(j, Some e') \<in> set its" for j e'
    using imageI [OF that, of "\<lambda>it. ue_name (the (snd it))"] Cons.prems(3) it by (simp, metis)
  have some: "\<forall>it \<in> set its. snd it \<noteq> None" using Cons.prems(2) by simp
  show ?case
  proof (cases "ue_name e \<in> fst ` set ts")
    case True
    with Cons.prems(4) it have "exported er ts i (ue_name e)" by simp
    then obtain k where k: "k < length ts" "fst (ts ! k) = ue_name e"
        and g: "dict_get (er_global er) (int k) = Some i"
      by (auto simp: exported_def)
    have "get_id (ue_name e) t = (Inr (Some (int k)), t)"
      using get_id_known [OF Cons.prems(1) k(1)] k(2) by simp
    then have run: "export_items (it # its) (er, t) = export_items its (er, t)"
      using g it by (simp add: bindp_def zoom_def global_mapping_def)
    have known: "\<forall>j e'. (j, Some e') \<in> set its \<longrightarrow> ue_name e' \<in> fst ` set ts \<longrightarrow>
        exported er ts j (ue_name e')"
      using Cons.prems(4) by simp
    obtain er' t' ts' where ih: "export_items its (er, t) = (Inr True, (er', t'))"
        "reg_rel t' (ts @ ts')" "er_reg er' = er_reg er" "\<forall>p \<in> set ts'. snd p = UINT8"
        "\<forall>i n. exported er ts i n \<longrightarrow> exported er' (ts @ ts') i n"
        "\<forall>i e. (i, Some e) \<in> set its \<longrightarrow> exported er' (ts @ ts') i (ue_name e)"
      using Cons.IH [OF Cons.prems(1) some d known] by blast
    have "exported er' (ts @ ts') i (ue_name e)"
      using ih(5) \<open>exported er ts i (ue_name e)\<close> by blast
    with ih run it show ?thesis by (intro exI [of _ er'] exI [of _ t'] exI [of _ ts']) auto
  next
    case False
    obtain t0 where t0: "get_id (ue_name e) t = (Inr None, t0)" "reg_rel t0 ts"
      using get_id_unknown [OF Cons.prems(1) False] by auto
    obtain t1 where t1: "reg_add (ue_name e) UINT8 t0 = (Inr (True, int (length ts)), t1)"
        "reg_rel t1 (ts @ [(ue_name e, UINT8)])"
      using reg_add_new [OF t0(2) False] by auto
    let ?er = "er\<lparr>er_global := dict_set (int (length ts)) i (er_global er)\<rparr>"
    have run: "export_items (it # its) (er, t) = export_items its (?er, t1)"
      using t0 t1 it by (simp add: bindp_def zoom_def)
    have prem: "\<forall>j e'. (j, Some e') \<in> set its \<longrightarrow>
        ue_name e' \<in> fst ` set (ts @ [(ue_name e, UINT8)]) \<longrightarrow>
        exported ?er (ts @ [(ue_name e, UINT8)]) j (ue_name e')"
      using Cons.prems(4) fresh by (auto intro: exported_snoc)
    obtain er' t' ts' where ih: "export_items its (?er, t1) = (Inr True, (er', t'))"
        "reg_rel t' ((ts @ [(ue_name e, UINT8)]) @ ts')" "er_reg er' = er_reg ?er"
        "\<forall>p \<in> set ts'. snd p = UINT8"
        "\<forall>i n. exported ?er (ts @ [(ue_name e, UINT8)]) i n \<longrightarrow>
          exported er' ((ts @ [(ue_name e, UINT8)]) @ ts') i n"
        "\<forall>i e'. (i, Some e') \<in> set its \<longrightarrow>
          exported er' ((ts @ [(ue_name e, UINT8)]) @ ts') i (ue_name e')"
      using Cons.IH [OF t1(2) some d prem] by blast
    have "exported er' ((ts @ [(ue_name e, UINT8)]) @ ts') i (ue_name e)"
      using ih(5) exported_new by blast
    with ih run it show ?thesis
      by (intro exI [of _ er'] exI [of _ t'] exI [of _ "(ue_name e, UINT8) # ts'"])
        (auto intro: exported_snoc)
  qed
qed

section \<open>The serializable enumeration registry\<close>

text \<open>
  Its serializable data is a dictionary with the entries \<open>mappings\<close> and \<open>enums\<close>; \<open>rr_keys\<close> are the
  keys of that outer dictionary.
\<close>

record retry_registry =
  rr_keys :: "string list"
  rr_mappings :: "(int, string) dict"
  rr_enum_data :: "(string, enum_data) dict"
  rr_enums :: "(string, user_enum) dict"
  rr_curr_id :: int

definition max_key :: "(int, 'v) dict \<Rightarrow> int" where
  "max_key data = fold (\<lambda>k r. if r < k then k else r) (dict_keys data) (-1)"

definition add_key :: "string \<Rightarrow> string list \<Rightarrow> string list" where
  "add_key k ks = (if k \<in> set ks then ks else ks @ [k])"

definition rr_load :: "string \<Rightarrow> (retry_registry, unit) py" where
  "rr_load name = bindp (gets (\<lambda>r. dict_item (rr_enum_data r) name)) (\<lambda>d.
     bindp (lift_res d) (\<lambda>data.
     bindp (lift_res (ue_init data)) (\<lambda>e.
     modify (\<lambda>r. r\<lparr>rr_enums := dict_set name e (rr_enums r)\<rparr>))))"

definition rr_init :: "string list \<Rightarrow> (int, string) dict \<Rightarrow> (string, enum_data) dict \<Rightarrow>
    py_error + retry_registry" where
  "rr_init keys mappings enums =
     (let r0 = \<lparr>rr_keys = add_key ''enums'' (add_key ''mappings'' (add_key ''type'' keys)),
                rr_mappings = mappings, rr_enum_data = enums, rr_enums = [],
                rr_curr_id = max_key mappings + 1\<rparr>
      in case (if enums \<noteq> [] then for_each rr_load (map snd mappings) else ret ()) r0 of
           (Inl e, _) \<Rightarrow> Inl e
         | (Inr _, r) \<Rightarrow> Inr r)"

definition rr_get_enum :: "int \<Rightarrow> retry_registry \<Rightarrow> py_error + user_enum" where
  "rr_get_enum enum_id r =
     (case dict_item (rr_mappings r) enum_id of
        Inl e \<Rightarrow> Inl e
      | Inr name \<Rightarrow> dict_item (rr_enums r) name)"

definition enum_data_of :: "user_enum \<Rightarrow> enum_data" where
  "enum_data_of e = \<lparr>ed_name = ue_name e, ed_mappings = ue_mappings e, ed_default = Some (ue_default e)\<rparr>"

definition rr_add :: "user_enum \<Rightarrow> (retry_registry, int) py" where
  "rr_add enum =
     bindp (gets rr_keys) (\<lambda>ks. bindp (assertp (ue_name enum \<notin> set ks)) (\<lambda>_.
     bindp (gets rr_curr_id) (\<lambda>this_id.
     bindp (modify (\<lambda>r. r\<lparr>rr_enum_data := dict_set (ue_name enum) (enum_data_of enum) (rr_enum_data r),
                          rr_enums := dict_set (ue_name enum) enum (rr_enums r),
                          rr_mappings := dict_set this_id (ue_name enum) (rr_mappings r),
                          rr_curr_id := this_id + 1\<rparr>)) (\<lambda>_. ret this_id))))"

definition rr_add_from_enum :: "string \<Rightarrow> (string \<times> int) list \<Rightarrow> (retry_registry, int) py" where
  "rr_add_from_enum class_name members = bindp (lift_res (from_enum class_name members)) rr_add"

text \<open>The next identifier is above every one in use, so an added enumeration takes a new one.\<close>

definition rr_inv :: "retry_registry \<Rightarrow> bool" where
  "rr_inv r \<longleftrightarrow> (\<forall>k \<in> set (dict_keys (rr_mappings r)). k < rr_curr_id r)"

lemma fold_max_ge: "m \<le> fold (\<lambda>k r. if r < k then k else r) ks (m :: int) \<and>
    (\<forall>k \<in> set ks. k \<le> fold (\<lambda>k r. if r < k then k else r) ks m)"
proof (induction ks arbitrary: m)
  case Nil
  then show ?case by simp
next
  case (Cons k ks)
  show ?case using Cons.IH [of "if m < k then k else m"] by (auto split: if_splits)
qed

lemma max_key_ge: "k \<in> set (dict_keys d) \<Longrightarrow> k \<le> max_key d"
  using fold_max_ge [of "-1" "dict_keys d"] by (auto simp: max_key_def)

lemma rr_load_fields:
  "rr_mappings (snd (rr_load n r)) = rr_mappings r \<and> rr_curr_id (snd (rr_load n r)) = rr_curr_id r"
  by (simp add: rr_load_def bindp_def dict_item_def split: sum.splits option.splits)

lemma rr_init_inv:
  assumes "rr_init ks m es = Inr r"
  shows "rr_inv r"
proof -
  let ?P = "\<lambda>r. rr_mappings r = m \<and> rr_curr_id r = max_key m + 1"
  let ?r0 = "\<lparr>rr_keys = add_key ''enums'' (add_key ''mappings'' (add_key ''type'' ks)),
      rr_mappings = m, rr_enum_data = es, rr_enums = [], rr_curr_id = max_key m + 1\<rparr>"
  have "?P (snd (for_each rr_load (map snd m) ?r0))"
    by (rule for_each_inv [where P = ?P]) (simp_all add: rr_load_fields)
  with assms have "?P r"
    by (auto simp: rr_init_def Let_def split: prod.splits sum.splits if_splits)
  then show ?thesis using max_key_ge [of _ m] by (force simp: rr_inv_def)
qed

lemma rr_inv_add:
  assumes "rr_inv r"
  shows "rr_inv (r\<lparr>rr_enum_data := ds, rr_enums := es,
    rr_mappings := dict_set (rr_curr_id r) n (rr_mappings r), rr_curr_id := rr_curr_id r + 1\<rparr>)"
proof -
  have "k < rr_curr_id r + 1"
    if "k \<in> set (dict_keys (dict_set (rr_curr_id r) n (rr_mappings r)))" for k
  proof -
    have "k = rr_curr_id r \<or> k \<in> set (dict_keys (rr_mappings r))"
      using that by (simp only: set_map dom_update) blast
    with assms show ?thesis by (fastforce simp: rr_inv_def)
  qed
  then show ?thesis by (simp add: rr_inv_def)
qed

lemma rr_add_get:
  assumes "rr_inv r" and "ue_name e \<notin> set (rr_keys r)"
  shows "\<exists>r'. rr_add e r = (Inr (rr_curr_id r), r') \<and> rr_inv r' \<and>
    rr_get_enum (rr_curr_id r) r' = Inr e \<and>
    (\<forall>i x. i \<noteq> rr_curr_id r \<longrightarrow> rr_get_enum i r = Inr x \<longrightarrow>
       (\<exists>n. dict_get (rr_mappings r) i = Some n \<and> n \<noteq> ue_name e) \<longrightarrow> rr_get_enum i r' = Inr x)"
  using assms rr_inv_add [OF assms(1)]
  by (auto simp: rr_add_def bindp_def rr_get_enum_def dict_item_def
      split: option.splits sum.splits)

section \<open>Properties\<close>

text \<open>
  The default type registry finds every primitive type under its name.
\<close>

theorem default_types_known:
  "\<exists>i r r'. get_id (get_name p) get_default = (Inr (Some i), r) \<and> get_type i r = (Inr (Some p), r')"
  by (rule get_default_lookup)

text \<open>
  Exporting enumerations with distinct names to a type registry whose types of those
  names are already mapped to them succeeds; every enumeration is then a one-byte type mapped to
  its identifier, the types that were there keep their identifiers, and the enumerations
  themselves are unchanged.
\<close>

theorem enum_export:
  assumes "reg_rel t ts"
    and "\<forall>it \<in> set (reg_items (er_reg er)). snd it \<noteq> None"
    and "distinct (map (\<lambda>it. ue_name (the (snd it))) (reg_items (er_reg er)))"
    and "\<forall>i e. (i, Some e) \<in> set (reg_items (er_reg er)) \<longrightarrow>
      ue_name e \<in> fst ` set ts \<longrightarrow> exported er ts i (ue_name e)"
  shows "\<exists>er' t' ts'. er_export (er, t) = (Inr True, (er', t')) \<and> reg_rel t' (ts @ ts') \<and>
      er_reg er' = er_reg er \<and> (\<forall>p \<in> set ts'. snd p = UINT8) \<and>
      (\<forall>i e. (i, Some e) \<in> set (reg_items (er_reg er)) \<longrightarrow> exported er' (ts @ ts') i (ue_name e))"
proof -
  have run: "er_export (er, t) = export_items (reg_items (er_reg er)) (er, t)"
    by (simp add: er_export_def)
  show ?thesis unfolding run using export_items_ok [OF assms] by blast
qed

theorem enum_export_witness:
  "\<exists>er' t' ts'. er_export (new_enum_registry [\<lparr>ue_name = ''e'', ue_mappings = [(0, ''a'')],
      ue_default = ''a'', ue_strings = [(''a'', Some 0)]\<rparr>], get_default) = (Inr True, (er', t')) \<and>
    exported er' ts' 0 ''e''"
proof -
  let ?u = "\<lparr>ue_name = ''e'', ue_mappings = [(0, ''a'')], ue_default = ''a'',
    ue_strings = [(''a'', Some 0)]\<rparr>"
  have items: "reg_items (er_reg (new_enum_registry [?u])) = [(0, Some ?u)]" by code_simp
  have new: "''e'' \<notin> fst ` set (map (\<lambda>p. (get_name p, p)) all_primitives)" by code_simp
  have "\<exists>er' t' ts'. er_export (new_enum_registry [?u], get_default) = (Inr True, (er', t')) \<and>
      reg_rel t' (map (\<lambda>p. (get_name p, p)) all_primitives @ ts') \<and>
      er_reg er' = er_reg (new_enum_registry [?u]) \<and> (\<forall>p \<in> set ts'. snd p = UINT8) \<and>
      (\<forall>i e. (i, Some e) \<in> set (reg_items (er_reg (new_enum_registry [?u]))) \<longrightarrow>
        exported er' (map (\<lambda>p. (get_name p, p)) all_primitives @ ts') i (ue_name e))"
    by (rule enum_export [OF get_default_rel]) (use items new in auto)
  then show ?thesis using items by fastforce
qed

text \<open>
  The serializable enumeration registry gives an added enumeration an identifier above
  all of its own, under which that enumeration is found from then on; the enumerations registered
  under other names stay where they were.
\<close>

theorem retry_registry_add:
  assumes "rr_init ks m es = Inr r" and "ue_name e \<notin> set (rr_keys r)"
  shows "\<exists>r'. rr_add e r = (Inr (rr_curr_id r), r') \<and> rr_inv r' \<and>
    rr_get_enum (rr_curr_id r) r' = Inr e \<and>
    (\<forall>k \<in> set (dict_keys (rr_mappings r)). k < rr_curr_id r) \<and>
    (\<forall>i x. i \<noteq> rr_curr_id r \<longrightarrow> rr_get_enum i r = Inr x \<longrightarrow>
       (\<exists>n. dict_get (rr_mappings r) i = Some n \<and> n \<noteq> ue_name e) \<longrightarrow> rr_get_enum i r' = Inr x)"
  using rr_add_get [OF rr_init_inv [OF assms(1)] assms(2)] rr_init_inv [OF assms(1)]
  by (simp add: rr_inv_def)

theorem retry_registry_add_witness:
  "\<exists>r r'. rr_init [] [(4, ''x'')] [] = Inr r \<and>
     rr_add \<lparr>ue_name = ''e'', ue_mappings = [(0, ''a'')], ue_default = ''a'', ue_strings = [(''a'', Some 0)]\<rparr> r
       = (Inr 5, r')"
proof -
  let ?u = "\<lparr>ue_name = ''e'', ue_mappings = [(0, ''a'')], ue_default = ''a'', ue_strings = [(''a'', Some 0)]\<rparr>"
  let ?r = "\<lparr>rr_keys = [''type'', ''mappings'', ''enums''], rr_mappings = [(4, ''x'')], rr_enum_data = [],
    rr_enums = [], rr_curr_id = 5\<rparr>"
  have r: "rr_init [] [(4, ''x'')] [] = Inr ?r" by code_simp
  have "ue_name ?u \<notin> set (rr_keys ?r)" by simp
  from retry_registry_add [OF r this] r show ?thesis by auto
qed

end
