(* ===== verification/Telemetry_Environment.thy ===== *)
theory Telemetry_Environment
  imports Channel_Environment Type_Registries
begin

text \<open>
  The telemetry environment (\<open>vtelem/telemetry/environment.py\<close>): a channel environment with an
  enumeration registry exported to a type registry, and channels that hold enumeration values.
  The map of channel identifiers to enumeration identifiers is a \<open>defaultdict\<close> that answers -1
  and stores it. A registered enumeration is the registry's own object.
\<close>

section \<open>State\<close>

record telemetry_env =
  te_chan :: channel_env
  te_enums :: enum_registry
  te_types :: type_registry
  te_enum_channels :: "(int, int) dict"

abbreviation in_chan :: "(channel_env, 'a) py \<Rightarrow> (telemetry_env, 'a) py" where
  "in_chan m \<equiv> zoom te_chan (\<lambda>c e. e\<lparr>te_chan := c\<rparr>) m"

abbreviation in_enum_registry :: "(enum_registry, 'a) py \<Rightarrow> (telemetry_env, 'a) py" where
  "in_enum_registry m \<equiv> zoom te_enums (\<lambda>r e. e\<lparr>te_enums := r\<rparr>) m"

abbreviation in_export :: "(export_state, 'a) py \<Rightarrow> (telemetry_env, 'a) py" where
  "in_export m \<equiv> zoom (\<lambda>e. (te_enums e, te_types e)) (\<lambda>(r, t) e. e\<lparr>te_enums := r, te_types := t\<rparr>) m"

definition te_with_lock :: "(telemetry_env, 'a) py \<Rightarrow> (telemetry_env, 'a) py" where
  "te_with_lock body =
     bindp (in_chan (modify (\<lambda>e. e\<lparr>env_lock := env_lock e + 1\<rparr>))) (\<lambda>_.
     bindp body (\<lambda>r.
     bindp (in_chan (modify (\<lambda>e. e\<lparr>env_lock := env_lock e - 1\<rparr>))) (\<lambda>_. ret r)))"

section \<open>Enumerations\<close>

definition has_enum :: "user_enum \<Rightarrow> (telemetry_env, bool) py" where
  "has_enum enum =
     te_with_lock (bindp (in_enum_registry (er_get_enum enum)) (\<lambda>result. ret (fst result)))"

definition add_enum :: "user_enum \<Rightarrow> (telemetry_env, int) py" where
  "add_enum enum =
     te_with_lock (
       bindp (has_enum enum) (\<lambda>known.
       if known then bindp (in_enum_registry (er_get_enum enum)) (\<lambda>result. ret (snd result))
       else
         bindp (in_enum_registry (er_add_enum enum)) (\<lambda>result.
         bindp (assertp (fst result)) (\<lambda>_.
         bindp (in_export er_export) (\<lambda>ok.
         bindp (assertp ok) (\<lambda>_.
         bindp (gets (\<lambda>e. env_metrics (te_chan e))) (\<lambda>ms.
         bindp (if ms = None then ret ()
                else
                  bindp (gets (\<lambda>e. reg_count (er_reg (te_enums e)))) (\<lambda>n.
                  bindp (in_chan (set_metric ''enum_count'' (VInt n) None)) (\<lambda>_.
                  bindp (gets (\<lambda>e. reg_count (te_types e))) (\<lambda>k.
                  in_chan (set_metric ''type_count'' (VInt k) None)))))
           (\<lambda>_. ret (snd result)))))))))"

definition add_from_enum :: "string \<Rightarrow> (string \<times> int) list \<Rightarrow> (telemetry_env, int) py" where
  "add_from_enum class_name members = bindp (lift_res (from_enum class_name members)) add_enum"

section \<open>Enumeration channels\<close>

definition enum_channel_type :: "int \<Rightarrow> (telemetry_env, int) py" where
  "enum_channel_type chan_id e =
     (case dict_get (te_enum_channels e) chan_id of
        Some v \<Rightarrow> (Inr v, e)
      | None \<Rightarrow> (Inr (-1), e\<lparr>te_enum_channels := dict_set chan_id (-1) (te_enum_channels e)\<rparr>))"

definition is_enum_channel :: "int \<Rightarrow> (telemetry_env, bool) py" where
  "is_enum_channel chan_id = bindp (enum_channel_type chan_id) (\<lambda>t. ret (t \<noteq> -1))"

text \<open>A method of the registered enumeration with the given identifier.\<close>

definition on_enum :: "int \<Rightarrow> (user_enum, 'a) py \<Rightarrow> (telemetry_env, 'a) py" where
  "on_enum enum_type m =
     bindp (in_enum_registry (in_reg (get_item enum_type))) (\<lambda>enum_def.
     case enum_def of
       None \<Rightarrow> raise AssertionError
     | Some u \<Rightarrow>
         bindp (ret (m u)) (\<lambda>(r, u').
         bindp (in_enum_registry (in_reg (modify (\<lambda>g. g\<lparr>reg_items :=
             dict_set enum_type (Some u') (reg_items g)\<rparr>)))) (\<lambda>_. lift_res r)))"

definition command_enum_channel_id :: "int \<Rightarrow> string \<Rightarrow> (telemetry_env, bool) py" where
  "command_enum_channel_id chan_id value =
     bindp (enum_channel_type chan_id) (\<lambda>enum_type.
     bindp (on_enum enum_type (get_value value)) (\<lambda>n.
     in_chan (command_channel_id chan_id (VInt n))))"

definition command_enum_channel :: "string \<Rightarrow> string \<Rightarrow> (telemetry_env, bool) py" where
  "command_enum_channel name value =
     bindp (in_chan (has_channel name)) (\<lambda>known.
     if \<not> known then ret False
     else bindp (in_chan (in_chan_registry (get_id name))) (\<lambda>i.
       case i of None \<Rightarrow> raise AssertionError | Some chan_id \<Rightarrow> command_enum_channel_id chan_id value))"

definition add_enum_channel :: "string \<Rightarrow> string \<Rightarrow> pyfloat \<Rightarrow> bool \<Rightarrow> (string \<times> pyfloat option) option \<Rightarrow> bool \<Rightarrow>
    (telemetry_env, int) py" where
  "add_enum_channel name enum_name rate track_change initial commandable =
     bindp (in_chan (env_add_channel name UINT8 rate track_change None commandable)) (\<lambda>new_chan.
     bindp (in_enum_registry (in_reg (get_id enum_name))) (\<lambda>i.
     case i of
       None \<Rightarrow> raise AssertionError
     | Some enum_type \<Rightarrow>
         bindp (modify (\<lambda>e. e\<lparr>te_enum_channels := dict_set new_chan enum_type (te_enum_channels e)\<rparr>)) (\<lambda>_.
         bindp (case initial of
                  None \<Rightarrow> ret ()
                | Some (v, t) \<Rightarrow>
                    bindp (in_chan (get_channel new_chan)) (\<lambda>r.
                    bindp (on_enum enum_type (get_value v)) (\<lambda>n.
                    bindp (in_chan (on_channel r (ch_set (VInt n) t))) assertp)))
           (\<lambda>_. ret new_chan))))"

definition add_enum_metric :: "string \<Rightarrow> string \<Rightarrow> bool \<Rightarrow> (string \<times> pyfloat option) option \<Rightarrow> (telemetry_env, unit) py" where
  "add_enum_metric name enum_name track_change initial =
     bindp (gets (\<lambda>e. env_metrics (te_chan e) \<noteq> None \<and> \<not> has_metric name (te_chan e))) (\<lambda>go.
     if \<not> go then ret ()
     else
       bindp (add_enum_channel name enum_name 0 track_change initial False) (\<lambda>i.
       in_chan (
         bindp (modify (\<lambda>e. e\<lparr>env_metrics := map_option (dict_set name i) (env_metrics e)\<rparr>)) (\<lambda>_.
         bindp (get_metric ''metrics_rate'') (\<lambda>v.
         bindp (lift_res (as_float v)) (\<lambda>rate. set_metric_rate name rate))))))"

definition set_enum_metric :: "string \<Rightarrow> string \<Rightarrow> pyfloat option \<Rightarrow> (telemetry_env, unit) py" where
  "set_enum_metric name data time =
     bindp (gets (\<lambda>e. env_metrics (te_chan e))) (\<lambda>ms.
     case ms of
       None \<Rightarrow> raise AssertionError
     | Some m \<Rightarrow>
         (case dict_get m name of
            None \<Rightarrow> ret ()
          | Some i \<Rightarrow>
              bindp (in_chan (get_channel i)) (\<lambda>r.
              bindp (enum_channel_type i) (\<lambda>enum_type.
              bindp (on_enum enum_type (get_value data)) (\<lambda>n.
              bindp (in_chan (on_channel r (ch_set (VInt n) time))) assertp)))))"

text \<open>
  \<open>get_str\<close> of an enumeration indexes a dictionary with the held value; a held integer is the
  only key that can be there.
\<close>

definition enum_str :: "int \<Rightarrow> pyval \<Rightarrow> (telemetry_env, string) py" where
  "enum_str enum_type v =
     on_enum enum_type (\<lambda>u. (case v of VInt n \<Rightarrow> get_str n u | _ \<Rightarrow> Inl KeyError, u))"

definition get_enum_metric :: "string \<Rightarrow> (telemetry_env, string) py" where
  "get_enum_metric name =
     bindp (gets (\<lambda>e. env_metrics (te_chan e))) (\<lambda>ms.
     case ms of
       None \<Rightarrow> raise AssertionError
     | Some m \<Rightarrow>
         bindp (lift_res (dict_item m name)) (\<lambda>i.
         bindp (enum_channel_type i) (\<lambda>enum_type.
         bindp (on_enum enum_type (ret ())) (\<lambda>_.
         bindp (in_chan (get_metric name)) (enum_str enum_type)))))"

definition get_enum_value :: "int \<Rightarrow> (telemetry_env, string) py" where
  "get_enum_value chan_id =
     bindp (enum_channel_type chan_id) (\<lambda>enum_type.
     bindp (on_enum enum_type (ret ())) (\<lambda>_.
     bindp (in_chan (env_get_value chan_id)) (enum_str enum_type)))"

definition set_enum_now :: "int \<Rightarrow> string \<Rightarrow> (telemetry_env, bool) py" where
  "set_enum_now channel_id data =
     bindp (enum_channel_type channel_id) (\<lambda>enum_type.
     bindp (on_enum enum_type (get_value data)) (\<lambda>n. in_chan (set_now channel_id (VInt n))))"

section \<open>Construction\<close>

definition te_init :: "(telemetry_env, unit) py" where
  "te_init =
     bindp (for_each (\<lambda>r.
       bindp (lift_res r) (\<lambda>u.
       bindp (in_enum_registry (er_add_enum u)) (\<lambda>result. assertp (fst result))))
       [FRAME_TYPES, MESSAGE_TYPES]) (\<lambda>_.
     bindp (in_export er_export) (\<lambda>_.
     bindp (gets (\<lambda>e. (reg_count (er_reg (te_enums e)), reg_count (te_types e), get_time (te_chan e))))
       (\<lambda>(n, k, t).
     in_chan (
       bindp (add_metric ''enum_count'' UINT32 True (Some (VInt n, Some t))) (\<lambda>_.
       add_metric ''type_count'' UINT32 True (Some (VInt k, Some t)))))))"

definition new_telemetry_env :: "int \<Rightarrow> pyfloat option \<Rightarrow> pyfloat option \<Rightarrow> channel list \<Rightarrow> user_enum list \<Rightarrow>
    pyfloat option \<Rightarrow> int \<Rightarrow> bool \<Rightarrow> py_error + telemetry_env" where
  "new_telemetry_env mtu init_time metrics_rate initial_channels initial_enums app_id_basis rnd use_crc =
     (case new_channel_env mtu initial_channels metrics_rate init_time app_id_basis rnd use_crc of
        Inl err \<Rightarrow> Inl err
      | Inr c \<Rightarrow>
          (case te_init \<lparr>te_chan = c, te_enums = new_enum_registry initial_enums,
                         te_types = get_default, te_enum_channels = []\<rparr> of
             (Inl err, _) \<Rightarrow> Inl err
           | (Inr _, e) \<Rightarrow> Inr e))"

end
