(* ===== verification/Daemon.thy ===== *)
theory Daemon
  imports Telemetry_Environment
begin

text \<open>
  The daemon state machine (\<open>vtelem/daemon/__init__.py\<close>). A daemon owns a thread that runs
  \<open>run_harness\<close>; the controlling thread starts, pauses, resumes and stops it. Each method is a
  sequence of the sections it executes under the daemon's lock; what other threads do between
  two sections is a parameter of the sequential form (\<open>wait\<close>) and a step of its own in the
  interleaved form. The user's \<open>run\<close> and the optional \<open>inject_stop\<close> function are parameters.
\<close>

section \<open>State\<close>

text \<open>A thread object is created, started, inside its target function, and finished.\<close>

datatype thread_phase = Created | Started | InRun | Finished

record daemon =
  d_time :: pyfloat
  d_lock :: int
  d_state :: daemon_state
  d_name :: string
  d_env :: "telemetry_env option"
  d_track_changes :: bool
  d_metrics :: "(string, pyval) dict"
  d_thread :: "nat option"
  d_threads :: "thread_phase list"

definition d_with_lock :: "(daemon, 'a) py \<Rightarrow> (daemon, 'a) py" where
  "d_with_lock body =
     bindp (modify (\<lambda>d. d\<lparr>d_lock := d_lock d + 1\<rparr>)) (\<lambda>_.
     bindp body (\<lambda>r.
     bindp (modify (\<lambda>d. d\<lparr>d_lock := d_lock d - 1\<rparr>)) (\<lambda>_. ret r)))"

text \<open>A call on the environment, when there is one.\<close>

definition on_env :: "(telemetry_env, unit) py \<Rightarrow> (daemon, unit) py" where
  "on_env m d =
     (case d_env d of
        None \<Rightarrow> (Inr (), d)
      | Some e \<Rightarrow> (case m e of (r, e') \<Rightarrow> (r, d\<lparr>d_env := Some e'\<rparr>)))"

section \<open>State and metrics\<close>

definition get_metric_name :: "string \<Rightarrow> daemon \<Rightarrow> string" where
  "get_metric_name channel_name d = d_name d @ ''.'' @ channel_name"

definition get_state :: "daemon \<Rightarrow> daemon_state" where
  "get_state d = d_state d"

definition state_name :: "daemon_state \<Rightarrow> string" where
  "state_name s =
     (case find (\<lambda>(n, v). v = daemon_state_value s) daemon_state_members of
        None \<Rightarrow> [] | Some (n, _) \<Rightarrow> n)"

definition get_state_str :: "daemon \<Rightarrow> string" where
  "get_state_str d = str_lower (state_name (get_state d))"

definition set_state :: "daemon_state \<Rightarrow> (daemon, bool) py" where
  "set_state state =
     bindp (d_with_lock (
       bindp (gets d_state) (\<lambda>old_state.
       bindp (modify (\<lambda>d. d\<lparr>d_state := state\<rparr>)) (\<lambda>_. ret (old_state \<noteq> state))))) (\<lambda>transition.
     bindp (if transition
            then bindp (gets (\<lambda>d. d)) (\<lambda>d.
              on_env (set_enum_metric (get_metric_name ''state'' d) (get_state_str d) (Some (d_time d))))
            else ret ()) (\<lambda>_.
     ret transition))"

definition set_env_metric :: "string \<Rightarrow> pyval \<Rightarrow> primitive \<Rightarrow> (daemon, unit) py" where
  "set_env_metric name value prim =
     bindp (gets (\<lambda>d. d)) (\<lambda>d.
     on_env (in_chan (
       bindp (gets (has_metric (get_metric_name name d))) (\<lambda>known.
       bindp (if known then ret ()
              else add_metric (get_metric_name name d) prim (d_track_changes d) None) (\<lambda>_.
       set_metric (get_metric_name name d) value (Some (d_time d)))))))"

definition reset_metric :: "string \<Rightarrow> int \<Rightarrow> (daemon, unit) py" where
  "reset_metric name val =
     bindp (d_with_lock (modify (\<lambda>d. d\<lparr>d_metrics := dict_set name (VInt val) (d_metrics d)\<rparr>))) (\<lambda>_.
     set_env_metric name (VInt val) UINT32)"

text \<open>The metrics dictionary answers 0 for a missing key; the lookup is followed by a store.\<close>

definition metric_value :: "string \<Rightarrow> daemon \<Rightarrow> pyval" where
  "metric_value name d = (case dict_get (d_metrics d) name of None \<Rightarrow> VInt 0 | Some v \<Rightarrow> v)"

definition update_metric :: "(pyval \<Rightarrow> py_error + pyval) \<Rightarrow> string \<Rightarrow> (daemon, unit) py" where
  "update_metric f name =
     bindp (d_with_lock (
       bindp (gets (metric_value name)) (\<lambda>old.
       bindp (lift_res (f old)) (\<lambda>val.
       bindp (modify (\<lambda>d. d\<lparr>d_metrics := dict_set name val (d_metrics d)\<rparr>)) (\<lambda>_. ret val))))) (\<lambda>val.
     set_env_metric name val UINT32)"

definition increment_metric :: "string \<Rightarrow> pyval \<Rightarrow> (daemon, unit) py" where
  "increment_metric name value = update_metric (\<lambda>old. num_add old value) name"

definition num_sub :: "pyval \<Rightarrow> pyval \<Rightarrow> py_error + pyval" where
  "num_sub a b =
     (case (as_int a, as_int b) of
        (Some m, Some n) \<Rightarrow> Inr (VInt (m - n))
      | _ \<Rightarrow> (case as_float a of
                Inl e \<Rightarrow> Inl e
              | Inr x \<Rightarrow> (case as_float b of Inl e \<Rightarrow> Inl e | Inr y \<Rightarrow> Inr (VFloat (fsub x y)))))"

definition decrement_metric :: "string \<Rightarrow> pyval \<Rightarrow> (daemon, unit) py" where
  "decrement_metric name value = update_metric (\<lambda>old. num_sub old value) name"

section \<open>Construction\<close>

definition register_enums :: "(telemetry_env, unit) py" where
  "register_enums =
     for_each (\<lambda>(class_name, members).
       bindp (lift_res (from_enum class_name members)) (\<lambda>u.
       bindp (has_enum u) (\<lambda>known.
       if known then ret () else bindp (add_enum u) (\<lambda>_. ret ()))))
     [(''DaemonState'', daemon_state_members),
      (''DaemonOperation'', map (\<lambda>(i, oper). (operation_str oper, int i)) (enumerate 0 all_operations))]"

definition init_daemon :: "(daemon, unit) py" where
  "init_daemon =
     bindp (on_env register_enums) (\<lambda>_.
     bindp (for_each (\<lambda>n. reset_metric n 0)
       [''starts'', ''stops'', ''pauses'', ''unpauses'', ''count'', ''errors'']) (\<lambda>_.
     bindp (gets (get_metric_name ''state'')) (\<lambda>state_metric.
     bindp (on_env (
       bindp (add_from_enum ''DaemonState'' daemon_state_members) (\<lambda>_.
       add_enum_metric state_metric (to_snake ''DaemonState'') True None))) (\<lambda>_.
     bindp (set_state IDLE) (\<lambda>_. ret ())))))"

definition blank_daemon :: "string \<Rightarrow> telemetry_env option \<Rightarrow> daemon" where
  "blank_daemon name env =
     \<lparr>d_time = 0, d_lock = 0, d_state = ERROR, d_name = name, d_env = env,
      d_track_changes = False, d_metrics = [], d_thread = None, d_threads = []\<rparr>"

definition new_daemon :: "string \<Rightarrow> telemetry_env option \<Rightarrow> py_error + daemon" where
  "new_daemon name env =
     (case init_daemon (blank_daemon name env) of (Inl err, _) \<Rightarrow> Inl err | (Inr _, d) \<Rightarrow> Inr d)"

section \<open>The thread\<close>

definition harness_begin :: "(daemon, bool) py" where
  "harness_begin = set_state RUNNING"

definition harness_end :: "(daemon, unit) py" where
  "harness_end =
     bindp (increment_metric ''count'' (VInt 1)) (\<lambda>_.
     bindp (set_state IDLE) assertp)"

text \<open>
  \<open>run_harness\<close>: the \<open>finally\<close> part runs whatever \<open>run\<close> does, an interruption by the keyboard is
  absorbed, any other exception goes on after it.
\<close>

definition run_harness :: "(daemon, unit) py \<Rightarrow> (daemon, unit) py" where
  "run_harness run d =
     (case bindp harness_begin (\<lambda>transition. if transition then run else ret ()) d of
        (Inr _, d') \<Rightarrow> harness_end d'
      | (Inl err, d') \<Rightarrow>
          (if err = KeyboardInterrupt then harness_end d'
           else bindp harness_end (\<lambda>_. raise err) d'))"

section \<open>Control\<close>

definition set_phase :: "nat \<Rightarrow> thread_phase \<Rightarrow> daemon \<Rightarrow> daemon" where
  "set_phase t ph d = d\<lparr>d_threads := (d_threads d)[t := ph]\<rparr>"

definition create_thread :: "(daemon, unit) py" where
  "create_thread = modify (\<lambda>d. d\<lparr>d_thread := Some (length (d_threads d)),
                                d_threads := d_threads d @ [Created]\<rparr>)"

definition start_section :: "(daemon, bool) py" where
  "start_section =
     d_with_lock (bindp (gets d_state) (\<lambda>state.
       if state \<noteq> IDLE then ret False
       else
         bindp create_thread (\<lambda>_.
         bindp (reset_metric ''count'' 0) (\<lambda>_.
         bindp (increment_metric ''starts'' (VInt 1)) (\<lambda>_.
         bindp (set_state STARTING) (\<lambda>ok.
         bindp (assertp ok) (\<lambda>_. ret True)))))))"

text \<open>\<open>self.thread.start()\<close>: \<open>None\<close> has no such method, and a thread can be started only once.\<close>

definition launch_thread :: "(daemon, unit) py" where
  "launch_thread = bindp (gets (\<lambda>d. d)) (\<lambda>d.
     case d_thread d of
       None \<Rightarrow> raise AttributeError
     | Some t \<Rightarrow> if d_threads d ! t = Created then modify (set_phase t Started) else raise RuntimeError)"

definition start :: "(daemon, bool) py" where
  "start = bindp start_section (\<lambda>ok.
     if ok then bindp launch_thread (\<lambda>_. ret True) else ret False)"

definition pause :: "(daemon, bool) py" where
  "pause =
     d_with_lock (bindp (gets d_state) (\<lambda>state.
       if state = RUNNING
       then bindp (set_state PAUSED) (\<lambda>ok.
            if ok then bindp (increment_metric ''pauses'' (VInt 1)) (\<lambda>_. ret True) else ret False)
       else ret False))"

definition unpause :: "(daemon, bool) py" where
  "unpause =
     d_with_lock (bindp (gets d_state) (\<lambda>state.
       if state = PAUSED
       then bindp (set_state RUNNING) (\<lambda>ok.
            if ok then bindp (increment_metric ''unpauses'' (VInt 1)) (\<lambda>_. ret True) else ret False)
       else ret False))"

definition stop_section :: "(daemon, bool) py" where
  "stop_section =
     d_with_lock (bindp (gets d_state) (\<lambda>state.
       if state = RUNNING then set_state STOPPING else ret False))"

text \<open>A missing \<open>inject_stop\<close> entry is a \<open>KeyError\<close>, which is ignored, as is one it raises.\<close>

definition call_inject :: "(daemon, unit) py option \<Rightarrow> (daemon, unit) py" where
  "call_inject inject d =
     (case inject of
        None \<Rightarrow> (Inr (), d)
      | Some m \<Rightarrow> (case m d of
                    (Inl err, d') \<Rightarrow> if err = KeyError then (Inr (), d') else (Inl err, d')
                  | (Inr _, d') \<Rightarrow> (Inr (), d')))"

definition begin_stop :: "(daemon, unit) py option \<Rightarrow> (daemon, bool) py" where
  "begin_stop inject = bindp stop_section (\<lambda>should_stop.
     bindp (if should_stop then call_inject inject else ret ()) (\<lambda>_. ret should_stop))"

text \<open>
  \<open>self.thread.join(timeout)\<close>: \<open>wait\<close> is what happens to the daemon until the join returns, with
  the thread finished or the time up.
\<close>

definition join_thread :: "(daemon, unit) py \<Rightarrow> (daemon, unit) py" where
  "join_thread wait = bindp (gets (\<lambda>d. d)) (\<lambda>d.
     case d_thread d of
       None \<Rightarrow> raise AssertionError
     | Some t \<Rightarrow> if d_threads d ! t = Created then raise RuntimeError else wait)"

definition stop_finish :: "(daemon, unit) py" where
  "stop_finish =
     d_with_lock (
       bindp (modify (\<lambda>d. d\<lparr>d_thread := None\<rparr>)) (\<lambda>_.
       bindp (gets d_state) (\<lambda>state.
       increment_metric (if state = IDLE then ''stops'' else ''errors'') (VInt 1))))"

definition stop :: "(daemon, unit) py option \<Rightarrow> (daemon, unit) py \<Rightarrow> (daemon, bool) py" where
  "stop inject wait = bindp (begin_stop inject) (\<lambda>ok.
     if \<not> ok then ret False
     else bindp (join_thread wait) (\<lambda>_. bindp stop_finish (\<lambda>_. ret True)))"

definition restart :: "(daemon, unit) py option \<Rightarrow> (daemon, unit) py \<Rightarrow> (daemon, bool) py" where
  "restart inject wait = bindp (stop inject wait) (\<lambda>ok. if ok then start else ret False)"

text \<open>The context managers: the last part runs also when the body raises.\<close>

definition finallyp :: "('s, 'a) py \<Rightarrow> ('s, unit) py \<Rightarrow> ('s, 'a) py" where
  "finallyp body fin s =
     (case body s of
        (Inr a, s') \<Rightarrow> bindp fin (\<lambda>_. ret a) s'
      | (Inl err, s') \<Rightarrow> bindp fin (\<lambda>_. raise err) s')"

definition booted :: "(daemon, unit) py option \<Rightarrow> (daemon, unit) py \<Rightarrow> bool \<Rightarrow> (daemon, 'a) py \<Rightarrow> (daemon, 'a) py" where
  "booted inject wait require_stop body =
     finallyp (bindp start (\<lambda>ok. bindp (assertp ok) (\<lambda>_. body)))
       (bindp (stop inject wait) (\<lambda>stop_result. assertp (\<not> require_stop \<or> stop_result)))"

definition serve :: "(daemon, unit) py option \<Rightarrow> (daemon, unit) py \<Rightarrow> (daemon, int) py \<Rightarrow> (daemon, int) py" where
  "serve inject wait main_thread = booted inject wait True main_thread"

definition paused :: "(daemon, 'a) py \<Rightarrow> (daemon, 'a) py" where
  "paused body =
     finallyp (bindp pause (\<lambda>ok. bindp (assertp ok) (\<lambda>_. body))) (bindp unpause assertp)"

section \<open>Operations by name\<close>

text \<open>The entry made up for an operation without one has no \<open>skip_if_state\<close>.\<close>

definition skip_if_state :: "daemon_operation \<Rightarrow> py_error + daemon_state list" where
  "skip_if_state action =
     (case action of
        OP_NONE \<Rightarrow> Inl KeyError
      | OP_START \<Rightarrow> Inr [STARTING, RUNNING]
      | OP_STOP \<Rightarrow> Inr [STOPPING, IDLE]
      | OP_PAUSE \<Rightarrow> Inr [PAUSED]
      | OP_UNPAUSE \<Rightarrow> Inr [IDLE, RUNNING]
      | OP_RESTART \<Rightarrow> Inr [])"

definition daemon_action :: "(daemon, unit) py option \<Rightarrow> (daemon, unit) py \<Rightarrow> daemon_operation \<Rightarrow>
    (daemon, bool) py" where
  "daemon_action inject wait action =
     (case action of
        OP_NONE \<Rightarrow> ret False
      | OP_START \<Rightarrow> start
      | OP_STOP \<Rightarrow> stop inject wait
      | OP_PAUSE \<Rightarrow> pause
      | OP_UNPAUSE \<Rightarrow> unpause
      | OP_RESTART \<Rightarrow> restart inject wait)"

definition perform :: "(daemon, unit) py option \<Rightarrow> (daemon, unit) py \<Rightarrow> daemon_operation \<Rightarrow>
    (daemon, bool) py" where
  "perform inject wait action =
     bindp (gets get_state) (\<lambda>curr_state.
     bindp (lift_res (skip_if_state action)) (\<lambda>skip.
     if curr_state \<in> set skip then ret True else daemon_action inject wait action))"

definition perform_str :: "(daemon, unit) py option \<Rightarrow> (daemon, unit) py \<Rightarrow> string \<Rightarrow> (daemon, bool) py" where
  "perform_str inject wait action =
     (case str_to_operation action of
        None \<Rightarrow> ret False
      | Some operation \<Rightarrow> perform inject wait operation)"

section \<open>Interleaving\<close>

text \<open>
  One controller works on the daemon while its threads run: it is between calls, has left the
  locked part of \<open>start\<close> and not yet started the thread, or waits for the join of \<open>stop\<close>. A
  step is one section that returned; time passes at any moment.
\<close>

datatype control = Free | Launching | Joining

inductive dstep :: "daemon \<times> control \<Rightarrow> daemon \<times> control \<Rightarrow> bool" where
  begin_start: "start_section d = (Inr ok, d') \<Longrightarrow>
    dstep (d, Free) (d', if ok then Launching else Free)"
| launch: "launch_thread d = (Inr u, d') \<Longrightarrow> dstep (d, Launching) (d', Free)"
| pause_step: "pause d = (Inr ok, d') \<Longrightarrow> dstep (d, Free) (d', Free)"
| unpause_step: "unpause d = (Inr ok, d') \<Longrightarrow> dstep (d, Free) (d', Free)"
| stop_step: "stop_section d = (Inr ok, d') \<Longrightarrow>
    dstep (d, Free) (d', if ok then Joining else Free)"
| join_done: "stop_finish d = (Inr u, d') \<Longrightarrow> dstep (d, Joining) (d', Free)"
| thread_begin: "t < length (d_threads d) \<Longrightarrow> d_threads d ! t = Started \<Longrightarrow>
    harness_begin d = (Inr ok, d') \<Longrightarrow> dstep (d, c) (set_phase t InRun d', c)"
| thread_end: "t < length (d_threads d) \<Longrightarrow> d_threads d ! t = InRun \<Longrightarrow>
    harness_end d = (Inr u, d') \<Longrightarrow> dstep (d, c) (set_phase t Finished d', c)"
| tick: "dstep (d, c) (d\<lparr>d_time := x\<rparr>, c)"

inductive_cases dstepE: "dstep (d, c) (d', c')"

section \<open>What the sections change\<close>

text \<open>The part of a daemon that the state machine is about; metrics and environment are outside it.\<close>

definition core :: "daemon \<Rightarrow> daemon_state \<times> nat option \<times> thread_phase list \<times> int" where
  "core d = (d_state d, d_thread d, d_threads d, d_lock d)"

lemma core_simps:
  "core (d\<lparr>d_env := e\<rparr>) = core d"
  "core (d\<lparr>d_metrics := m\<rparr>) = core d"
  "core (d\<lparr>d_time := x\<rparr>) = core d"
  by (simp_all add: core_def)

lemma on_env_core: "on_env m d = (r, d') \<Longrightarrow> core d' = core d"
  by (auto simp: on_env_def core_def split: option.splits prod.splits)

lemma set_env_metric_core: "set_env_metric n v p d = (r, d') \<Longrightarrow> core d' = core d"
  by (auto simp: set_env_metric_def dest: on_env_core)

lemma reset_metric_core: "reset_metric n v d = (Inr u, d') \<Longrightarrow> core d' = core d"
  by (auto simp: reset_metric_def d_with_lock_def core_def elim!: bindp_InrE
      dest!: set_env_metric_core)

lemma update_metric_core: "update_metric f n d = (Inr u, d') \<Longrightarrow> core d' = core d"
  by (auto simp: update_metric_def d_with_lock_def core_def elim!: bindp_InrE
      dest!: set_env_metric_core)

lemma increment_metric_core: "increment_metric n v d = (Inr u, d') \<Longrightarrow> core d' = core d"
  by (auto simp: increment_metric_def dest: update_metric_core)

lemma set_state_core:
  "set_state s d = (Inr ok, d') \<Longrightarrow> ok = (d_state d \<noteq> s) \<and> core d' = core (d\<lparr>d_state := s\<rparr>)"
  by (auto simp: set_state_def d_with_lock_def core_def elim!: bindp_InrE split: if_splits
      dest!: on_env_core)

text \<open>The locked sections, when they return: refused outside the state they are for.\<close>

lemma with_lock_core:
  assumes "d_with_lock m d = (Inr r, d')"
  obtains d1 where "m (d\<lparr>d_lock := d_lock d + 1\<rparr>) = (Inr r, d1)"
    and "core d' = core (d1\<lparr>d_lock := d_lock d1 - 1\<rparr>)"
  using assms by (auto simp: d_with_lock_def elim!: bindp_InrE)

lemma start_section_core:
  assumes "start_section d = (Inr ok, d')"
  shows "if d_state d = IDLE
         then ok \<and> core d' = (STARTING, Some (length (d_threads d)), d_threads d @ [Created], d_lock d)
         else \<not> ok \<and> core d' = core d"
  using assms unfolding start_section_def
  by (elim with_lock_core)
    (auto simp: create_thread_def core_def elim!: bindp_InrE assertp_InrE split: if_splits
      dest!: reset_metric_core increment_metric_core set_state_core)

lemma launch_thread_core:
  assumes "launch_thread d = (Inr u, d')"
  shows "\<exists>t. d_thread d = Some t \<and> d_threads d ! t = Created \<and>
     core d' = (d_state d, Some t, (d_threads d)[t := Started], d_lock d)"
  using assms
  by (auto simp: launch_thread_def core_def set_phase_def split: option.splits if_splits)

lemma pause_core:
  assumes "pause d = (Inr ok, d')"
  shows "ok = (d_state d = RUNNING) \<and> core d' = core (if ok then d\<lparr>d_state := PAUSED\<rparr> else d)"
  using assms unfolding pause_def
  by (elim with_lock_core)
    (auto simp: core_def elim!: bindp_InrE split: if_splits
      dest!: increment_metric_core set_state_core)

lemma unpause_core:
  assumes "unpause d = (Inr ok, d')"
  shows "ok = (d_state d = PAUSED) \<and> core d' = core (if ok then d\<lparr>d_state := RUNNING\<rparr> else d)"
  using assms unfolding unpause_def
  by (elim with_lock_core)
    (auto simp: core_def elim!: bindp_InrE split: if_splits
      dest!: increment_metric_core set_state_core)

lemma stop_section_core:
  assumes "stop_section d = (Inr ok, d')"
  shows "ok = (d_state d = RUNNING) \<and> core d' = core (if ok then d\<lparr>d_state := STOPPING\<rparr> else d)"
  using assms unfolding stop_section_def
  by (elim with_lock_core) (auto simp: core_def split: if_splits dest!: set_state_core)

lemma stop_finish_core:
  assumes "stop_finish d = (Inr u, d')"
  shows "core d' = core (d\<lparr>d_thread := None\<rparr>)"
  using assms unfolding stop_finish_def
  by (elim with_lock_core) (auto simp: core_def dest!: increment_metric_core)

lemma harness_begin_core:
  "harness_begin d = (Inr ok, d') \<Longrightarrow>
     ok = (d_state d \<noteq> RUNNING) \<and> core d' = core (d\<lparr>d_state := RUNNING\<rparr>)"
  unfolding harness_begin_def by (rule set_state_core)

lemma harness_end_core:
  "harness_end d = (Inr u, d') \<Longrightarrow> d_state d \<noteq> IDLE \<and> core d' = core (d\<lparr>d_state := IDLE\<rparr>)"
  by (auto simp: harness_end_def core_def elim!: bindp_InrE assertp_InrE
      dest!: increment_metric_core set_state_core)

lemmas section_cores = start_section_core launch_thread_core pause_core unpause_core
  stop_section_core stop_finish_core harness_begin_core harness_end_core

section \<open>The invariant of the state machine\<close>

text \<open>Thread \<open>t\<close> is the only unfinished one and is in the given phase.\<close>

definition only :: "nat \<Rightarrow> thread_phase \<Rightarrow> thread_phase list \<Rightarrow> bool" where
  "only t ph ts \<longleftrightarrow> t < length ts \<and> ts ! t = ph \<and> (\<forall>s < length ts. s \<noteq> t \<longrightarrow> ts ! s = Finished)"

definition all_finished :: "thread_phase list \<Rightarrow> bool" where
  "all_finished ts \<longleftrightarrow> (\<forall>ph \<in> set ts. ph = Finished)"

fun dinv :: "daemon \<times> control \<Rightarrow> bool" where
  "dinv (d, c) =
     (case d_state d of
        ERROR \<Rightarrow> False
      | IDLE \<Rightarrow> all_finished (d_threads d) \<and> c \<noteq> Launching
      | STARTING \<Rightarrow> c \<noteq> Joining \<and>
          (\<exists>t. d_thread d = Some t \<and> only t (if c = Launching then Created else Started) (d_threads d))
      | RUNNING \<Rightarrow> c = Free \<and> (\<exists>t. d_thread d = Some t \<and> only t InRun (d_threads d))
      | PAUSED \<Rightarrow> c = Free \<and> (\<exists>t. d_thread d = Some t \<and> only t InRun (d_threads d))
      | STOPPING \<Rightarrow> c \<noteq> Launching \<and>
          (\<exists>t. d_thread d = (if c = Joining then Some t else None) \<and> only t InRun (d_threads d)))"

lemma only_new: "all_finished ts \<Longrightarrow> only (length ts) ph (ts @ [ph])"
  by (auto simp: only_def all_finished_def nth_append less_Suc_eq)

lemma only_phase: "only t ph ts \<Longrightarrow> ts ! t = ph"
  by (simp add: only_def)

lemma only_unique: "only t ph ts \<Longrightarrow> s < length ts \<Longrightarrow> ts ! s \<noteq> Finished \<Longrightarrow> s = t"
  by (auto simp: only_def)

lemma only_update [intro]: "only t ph ts \<Longrightarrow> only t ph' (ts[t := ph'])"
  by (auto simp: only_def)

lemma only_finish: "only t ph ts \<Longrightarrow> all_finished (ts[t := Finished])"
  by (auto simp: only_def all_finished_def in_set_conv_nth nth_list_update)

lemma finished_nth: "all_finished ts \<Longrightarrow> t < length ts \<Longrightarrow> ts ! t = Finished"
  by (simp add: all_finished_def)

lemmas dinv_facts = only_new only_update only_finish

text \<open>Which states and controllers go with a thread that has started, and with one in \<open>run\<close>.\<close>

lemma only_eq:
  "s < length ts \<Longrightarrow> ts ! s \<noteq> Finished \<Longrightarrow>
     only t ph ts \<longleftrightarrow> t = s \<and> ph = ts ! s \<and> only s (ts ! s) ts"
  by (auto simp: only_def)

lemma dinv_started:
  assumes "dinv (d, c)" and "t < length (d_threads d)" and "d_threads d ! t = Started"
  shows "d_state d = STARTING \<and> c = Free \<and> d_thread d = Some t \<and> only t Started (d_threads d)"
proof -
  have "only u ph (d_threads d) \<longleftrightarrow> u = t \<and> ph = Started \<and> only t Started (d_threads d)" for u ph
    by (subst only_eq [OF assms(2)]) (simp_all add: assms(3))
  note this [where ph = Created, simp] this [where ph = InRun, simp]
  have "\<not> all_finished (d_threads d)" using finished_nth [of "d_threads d" t] assms(2,3) by auto
  with assms(1) show ?thesis
    using only_unique [of _ Started "d_threads d" t] assms(2,3)
    by (cases "d_state d"; cases c) auto
qed

lemma dinv_in_run:
  assumes "dinv (d, c)" and "t < length (d_threads d)" and "d_threads d ! t = InRun"
  shows "d_state d \<in> {RUNNING, PAUSED, STOPPING} \<and> c \<noteq> Launching \<and> only t InRun (d_threads d)"
proof -
  have "only u ph (d_threads d) \<longleftrightarrow> u = t \<and> ph = InRun \<and> only t InRun (d_threads d)" for u ph
    by (subst only_eq [OF assms(2)]) (simp_all add: assms(3))
  note this [where ph = Created, simp] this [where ph = Started, simp]
  have "\<not> all_finished (d_threads d)" using finished_nth [of "d_threads d" t] assms(2,3) by auto
  with assms(1) show ?thesis
    using only_unique [of _ InRun "d_threads d" t] assms(2,3)
    by (cases "d_state d"; cases c) auto
qed

lemma dinv_step:
  assumes "dstep s s'" and "dinv s"
  shows "dinv s'"
  using assms
proof (cases rule: dstep.cases)
  case (begin_start d ok d')
  with assms(2) show ?thesis
    by (auto simp: core_def dinv_facts split: if_splits daemon_state.splits dest!: start_section_core)
next
  case (launch d u d')
  with assms(2) show ?thesis
    by (auto simp: core_def dinv_facts split: if_splits daemon_state.splits dest!: launch_thread_core
        dest: finished_nth)
next
  case (pause_step d ok d')
  with assms(2) show ?thesis
    by (auto simp: core_def split: if_splits daemon_state.splits dest!: pause_core)
next
  case (unpause_step d ok d')
  with assms(2) show ?thesis
    by (auto simp: core_def split: if_splits daemon_state.splits dest!: unpause_core)
next
  case (stop_step d ok d')
  with assms(2) show ?thesis
    by (auto simp: core_def split: if_splits daemon_state.splits dest!: stop_section_core)
next
  case (join_done d u d')
  with assms(2) show ?thesis
    by (auto simp: core_def split: if_splits daemon_state.splits dest!: stop_finish_core)
next
  case (thread_begin t d ok d' c)
  have "dinv (d, c)" using assms(2) thread_begin(1) by simp
  from dinv_started [OF this thread_begin(3,4)] harness_begin_core [OF thread_begin(5)]
  have "c = Free" and "d_state d' = RUNNING" and "d_thread d' = Some t"
    and "only t InRun ((d_threads d')[t := InRun])"
    by (auto simp: core_def)
  then show ?thesis by (simp add: thread_begin(2) set_phase_def)
next
  case (thread_end t d u d' c)
  have "dinv (d, c)" using assms(2) thread_end(1) by simp
  from dinv_in_run [OF this thread_end(3,4)] harness_end_core [OF thread_end(5)]
  have "c \<noteq> Launching" and "d_state d' = IDLE" and "all_finished ((d_threads d')[t := Finished])"
    by (auto simp: core_def intro: only_finish)
  then show ?thesis by (simp add: thread_end(2) set_phase_def)
next
  case (tick d c x)
  with assms(2) show ?thesis by (auto split: daemon_state.splits)
qed

inductive dreach :: "daemon \<times> control \<Rightarrow> daemon \<times> control \<Rightarrow> bool" for s0 where
  here: "dreach s0 s0"
| onwards: "dreach s0 s \<Longrightarrow> dstep s s' \<Longrightarrow> dreach s0 s'"

lemma dreach_inv: "dreach s0 s \<Longrightarrow> dinv s0 \<Longrightarrow> dinv s"
  by (induction rule: dreach.induct) (auto intro: dinv_step simp del: dinv.simps)

section \<open>Daemons without an environment\<close>

text \<open>
  Without an environment and with whole counters no section can fail: the environment's calls are
  the only ones that raise.
\<close>

definition quiet :: "daemon \<Rightarrow> bool" where
  "quiet d \<longleftrightarrow> d_env d = None \<and> (\<forall>n v. dict_get (d_metrics d) n = Some v \<longrightarrow> as_int v \<noteq> None)"

lemma quiet_on_env: "quiet d \<Longrightarrow> on_env m d = (Inr (), d)"
  by (simp add: quiet_def on_env_def)

lemma quiet_updates [simp]:
  "quiet (d\<lparr>d_state := s\<rparr>) = quiet d"
  "quiet (d\<lparr>d_lock := l\<rparr>) = quiet d"
  "quiet (d\<lparr>d_thread := t\<rparr>) = quiet d"
  "quiet (d\<lparr>d_threads := ts\<rparr>) = quiet d"
  "quiet (d\<lparr>d_time := x\<rparr>) = quiet d"
  by (simp_all add: quiet_def)

lemma quiet_metric: "quiet d \<Longrightarrow> quiet (d\<lparr>d_metrics := dict_set n (VInt k) (d_metrics d)\<rparr>)"
  by (simp add: quiet_def)

lemma quiet_value: "quiet d \<Longrightarrow> \<exists>k. num_add (metric_value n d) (VInt j) = Inr (VInt k)"
  by (cases "dict_get (d_metrics d) n") (fastforce simp: quiet_def metric_value_def)+

lemma quiet_set_state:
  "quiet d \<Longrightarrow> set_state s d = (Inr (d_state d \<noteq> s), d\<lparr>d_state := s\<rparr>)"
  by (simp add: set_state_def d_with_lock_def quiet_on_env)

lemma quiet_set_env_metric: "quiet d \<Longrightarrow> set_env_metric n v p d = (Inr (), d)"
  by (simp add: set_env_metric_def quiet_on_env)

lemma quiet_reset:
  "quiet d \<Longrightarrow> reset_metric n k d = (Inr (), d\<lparr>d_metrics := dict_set n (VInt k) (d_metrics d)\<rparr>)"
  using quiet_set_env_metric [OF quiet_metric]
  by (simp add: reset_metric_def d_with_lock_def)

lemma quiet_increment:
  assumes "quiet d"
  shows "\<exists>k. increment_metric n (VInt j) d =
     (Inr (), d\<lparr>d_metrics := dict_set n (VInt k) (d_metrics d)\<rparr>)"
proof -
  obtain k where "num_add (metric_value n d) (VInt j) = Inr (VInt k)"
    using quiet_value [OF assms] by blast
  then have "num_add (metric_value n (d\<lparr>d_lock := d_lock d + 1\<rparr>)) (VInt j) = Inr (VInt k)"
    by (simp add: metric_value_def)
  then have "increment_metric n (VInt j) d =
      set_env_metric n (VInt k) UINT32 (d\<lparr>d_metrics := dict_set n (VInt k) (d_metrics d)\<rparr>)"
    by (simp add: increment_metric_def update_metric_def d_with_lock_def del: num_add.simps)
  with quiet_set_env_metric [OF quiet_metric [OF assms]] show ?thesis by auto
qed

lemma quiet_increment_run:
  assumes "quiet d"
  obtains d' where "increment_metric n (VInt j) d = (Inr (), d')" and "quiet d'" and "core d' = core d"
proof -
  obtain k where k: "increment_metric n (VInt j) d =
      (Inr (), d\<lparr>d_metrics := dict_set n (VInt k) (d_metrics d)\<rparr>)"
    using quiet_increment [OF assms] by blast
  show thesis
    by (rule that [OF k]) (simp_all add: quiet_metric [OF assms] core_simps)
qed

lemma quiet_lock:
  assumes "m (d\<lparr>d_lock := d_lock d + 1\<rparr>) = (Inr r, e)" and "quiet e"
  shows "\<exists>d'. d_with_lock m d = (Inr r, d') \<and> quiet d'"
  using assms by (simp add: d_with_lock_def)

lemma quiet_harness_end:
  assumes "quiet d" and "d_state d \<noteq> IDLE"
  shows "\<exists>d'. harness_end d = (Inr (), d') \<and> quiet d'"
proof -
  obtain d1 where d1: "increment_metric ''count'' (VInt 1) d = (Inr (), d1)" "quiet d1" "core d1 = core d"
    by (rule quiet_increment_run [OF assms(1)])
  then show ?thesis using assms(2) by (simp add: harness_end_def quiet_set_state core_def)
qed

lemma quiet_stop_finish:
  assumes "quiet d"
  shows "\<exists>d'. stop_finish d = (Inr (), d') \<and> quiet d'"
proof -
  let ?d = "d\<lparr>d_lock := d_lock d + 1, d_thread := None\<rparr>"
  let ?n = "if d_state d = IDLE then ''stops'' else ''errors''"
  have "quiet ?d" using assms by simp
  then obtain d1 where "increment_metric ?n (VInt 1) ?d = (Inr (), d1)" "quiet d1"
    by (rule quiet_increment_run)
  then show ?thesis unfolding stop_finish_def by (intro quiet_lock) simp_all
qed

lemma quiet_start_section:
  assumes "quiet d"
  shows "\<exists>ok d'. start_section d = (Inr ok, d') \<and> quiet d'"
proof (cases "d_state d = IDLE")
  case True
  let ?d = "d\<lparr>d_lock := d_lock d + 1, d_thread := Some (length (d_threads d)),
    d_threads := d_threads d @ [Created],
    d_metrics := dict_set ''count'' (VInt 0) (d_metrics d)\<rparr>"
  have q: "quiet (d\<lparr>d_lock := d_lock d + 1, d_thread := Some (length (d_threads d)),
    d_threads := d_threads d @ [Created]\<rparr>)"
    using assms by simp
  from quiet_metric [OF this, of "''count''" 0] have "quiet ?d" by simp
  then obtain d1 where d1: "increment_metric ''starts'' (VInt 1) ?d = (Inr (), d1)"
      and "quiet d1" and "core d1 = core ?d"
    by (rule quiet_increment_run)
  then show ?thesis
    using True q unfolding start_section_def
    by (intro exI [of _ True] quiet_lock [where e = "d1\<lparr>d_state := STARTING\<rparr>"])
      (simp_all add: create_thread_def quiet_reset quiet_set_state core_def)
next
  case False
  then show ?thesis
    using assms unfolding start_section_def by (intro exI [of _ False] quiet_lock [where e = "d\<lparr>d_lock := d_lock d + 1\<rparr>"]) simp_all
qed

lemma quiet_pause:
  assumes "quiet d"
  shows "\<exists>ok d'. pause d = (Inr ok, d') \<and> quiet d'"
proof (cases "d_state d = RUNNING")
  case True
  have "quiet (d\<lparr>d_lock := d_lock d + 1, d_state := PAUSED\<rparr>)" using assms by simp
  then obtain d1 where "increment_metric ''pauses'' (VInt 1) (d\<lparr>d_lock := d_lock d + 1, d_state := PAUSED\<rparr>)
      = (Inr (), d1)" and "quiet d1"
    by (rule quiet_increment_run)
  then show ?thesis
    using True assms unfolding pause_def
    by (intro exI [of _ True] quiet_lock) (simp_all add: quiet_set_state)
next
  case False
  then show ?thesis
    using assms unfolding pause_def by (intro exI [of _ False] quiet_lock [where e = "d\<lparr>d_lock := d_lock d + 1\<rparr>"]) simp_all
qed

lemma quiet_unpause:
  assumes "quiet d"
  shows "\<exists>ok d'. unpause d = (Inr ok, d') \<and> quiet d'"
proof (cases "d_state d = PAUSED")
  case True
  have "quiet (d\<lparr>d_lock := d_lock d + 1, d_state := RUNNING\<rparr>)" using assms by simp
  then obtain d1 where "increment_metric ''unpauses'' (VInt 1) (d\<lparr>d_lock := d_lock d + 1, d_state := RUNNING\<rparr>)
      = (Inr (), d1)" and "quiet d1"
    by (rule quiet_increment_run)
  then show ?thesis
    using True assms unfolding unpause_def
    by (intro exI [of _ True] quiet_lock) (simp_all add: quiet_set_state)
next
  case False
  then show ?thesis
    using assms unfolding unpause_def by (intro exI [of _ False] quiet_lock [where e = "d\<lparr>d_lock := d_lock d + 1\<rparr>"]) simp_all
qed

lemma quiet_stop_section:
  assumes "quiet d"
  shows "\<exists>ok d'. stop_section d = (Inr ok, d') \<and> quiet d'"
  using assms unfolding stop_section_def
  by (intro exI [of _ "d_state d = RUNNING"] quiet_lock
      [where e = "(d\<lparr>d_lock := d_lock d + 1\<rparr>)
         \<lparr>d_state := if d_state d = RUNNING then STOPPING else d_state d\<rparr>"])
    (simp_all add: quiet_set_state)

lemma quiet_launch: "quiet d \<Longrightarrow> launch_thread d = (r, d') \<Longrightarrow> quiet d'"
  by (auto simp: launch_thread_def set_phase_def split: option.splits if_splits)

lemma quiet_step: "dstep s s' \<Longrightarrow> quiet (fst s) \<Longrightarrow> quiet (fst s')"
proof (induction rule: dstep.induct)
  case (begin_start d ok d')
  then show ?case using quiet_start_section [of d] by auto
next
  case (launch d u d')
  then show ?case using quiet_launch by auto
next
  case (pause_step d ok d')
  then show ?case using quiet_pause [of d] by auto
next
  case (unpause_step d ok d')
  then show ?case using quiet_unpause [of d] by auto
next
  case (stop_step d ok d')
  then show ?case using quiet_stop_section [of d] by auto
next
  case (join_done d u d')
  then show ?case using quiet_stop_finish [of d] by auto
next
  case (thread_begin t d ok d' c)
  then show ?case by (auto simp: harness_begin_def quiet_set_state set_phase_def)
next
  case (thread_end t d u d' c)
  then show ?case using harness_end_core [of d u d'] quiet_harness_end [of d]
    by (auto simp: set_phase_def)
next
  case (tick d c x)
  then show ?case by simp
qed

lemma dreach_quiet: "dreach s0 s \<Longrightarrow> quiet (fst s0) \<Longrightarrow> quiet (fst s)"
  by (induction rule: dreach.induct) (auto intro: quiet_step)

lemma new_daemon_quiet:
  "\<exists>d. new_daemon n None = Inr d \<and> quiet d \<and> dinv (d, Free) \<and> d_name d = n \<and> d_threads d = []"
proof -
  have "quiet (blank_daemon n None)" by (simp add: quiet_def blank_daemon_def)
  note q = this quiet_metric
  show ?thesis
    by (simp add: new_daemon_def init_daemon_def quiet_on_env quiet_reset quiet_set_state q
        blank_daemon_def all_finished_def quiet_def)
qed

section \<open>New daemons\<close>

lemma init_daemon_core:
  assumes "init_daemon d = (Inr u, d')"
  shows "core d' = core (d\<lparr>d_state := IDLE\<rparr>)"
proof -
  have resets: "for_each (\<lambda>n. reset_metric n 0) ns d1 = (Inr u, d2) \<Longrightarrow> core d2 = core d1" for ns d1 d2 u
    by (induction ns arbitrary: d1) (auto elim!: bindp_InrE dest!: reset_metric_core)
  show ?thesis
    using assms unfolding init_daemon_def
    by (elim bindp_InrE)
      (auto dest!: on_env_core resets set_state_core simp: core_def simp del: for_each.simps)
qed

lemma new_daemon_dinv: "new_daemon name env = Inr d \<Longrightarrow> dinv (d, Free)"
  by (auto simp: new_daemon_def blank_daemon_def core_def all_finished_def split: prod.splits sum.splits
      dest!: init_daemon_core)

text \<open>An environment without metrics stays so, and changes no metric.\<close>

definition unmetered :: "telemetry_env \<Rightarrow> bool" where
  "unmetered e \<longleftrightarrow> env_metrics (te_chan e) = None"

lemma has_enum_unmetered: "has_enum u e = (Inr b, e') \<Longrightarrow> unmetered e' = unmetered e"
  by (auto simp: has_enum_def te_with_lock_def unmetered_def zoom_def elim!: bindp_InrE split: prod.splits)

lemma add_enum_unmetered: "add_enum u e = (Inr i, e') \<Longrightarrow> unmetered e \<Longrightarrow> unmetered e'"
  by (auto simp: add_enum_def te_with_lock_def zoom_def unmetered_def elim!: bindp_InrE assertp_InrE
      split: if_splits prod.splits dest!: has_enum_unmetered)
lemma register_enums_unmetered:
  assumes "register_enums e = (Inr u, e')" and "unmetered e"
  shows "unmetered e'"
  using assms unfolding register_enums_def
  by (auto elim!: bindp_InrE split: if_splits dest!: has_enum_unmetered)
    (blast dest: add_enum_unmetered)+

lemma unmetered_calls:
  assumes "unmetered e"
  shows "in_chan (add_metric n p tc i) e = (Inr (), e)" and "in_chan (set_metric n v t) e = (Inr (), e)"
    and "add_enum_metric n n' tc i' e = (Inr (), e)" and "set_enum_metric n s t e = (Inl AssertionError, e)"
  using assms
  by (simp_all add: unmetered_def add_metric_def set_metric_def metric_id_def add_enum_metric_def
      set_enum_metric_def zoom_def)

lemma reset_metrics_unmetered:
  assumes "for_each (\<lambda>n. reset_metric n 0) ns d = (Inr u, d')" and "d_env d = Some e" and "unmetered e"
  shows "d_env d' = Some e"
  using assms
proof (induction ns arbitrary: d)
  case (Cons n ns)
  have "reset_metric n 0 d = (Inr (), d\<lparr>d_metrics := dict_set n (VInt 0) (d_metrics d)\<rparr>)"
    using Cons.prems(2,3) unmetered_calls(1,2) [OF Cons.prems(3)]
    by (simp add: reset_metric_def d_with_lock_def set_env_metric_def on_env_def zoom_def unmetered_def
        has_metric_def add_metric_def set_metric_def metric_id_def)
  with Cons show ?case by auto
qed simp

lemma new_daemon_idle: "new_daemon name env = Inr d \<Longrightarrow> d_state d = IDLE"
  by (auto simp: new_daemon_def core_def split: prod.splits sum.splits dest!: init_daemon_core)

lemma metric_free_environment:
  assumes "unmetered e"
  shows "new_daemon name (Some e) \<noteq> Inr d"
proof
  assume "new_daemon name (Some e) = Inr d"
  then have "init_daemon (blank_daemon name (Some e)) = (Inr (), d)"
    by (auto simp: new_daemon_def split: prod.splits sum.splits)
  then obtain u1 d1 u2 d2 u3 d3 where
    d1: "on_env register_enums (blank_daemon name (Some e)) = (Inr u1, d1)"
    and d2: "for_each (\<lambda>n. reset_metric n 0)
       [''starts'', ''stops'', ''pauses'', ''unpauses'', ''count'', ''errors''] d1 = (Inr u2, d2)"
    and d3: "on_env (bindp (add_from_enum ''DaemonState'' daemon_state_members) (\<lambda>_.
       add_enum_metric (get_metric_name ''state'' d2) (to_snake ''DaemonState'') True None)) d2 = (Inr u3, d3)"
    and d4: "fst (set_state IDLE d3) \<noteq> Inl AssertionError"
    unfolding init_daemon_def by (elim bindp_InrE) (auto simp del: for_each.simps)
  from d1 obtain e1 where e1: "d_env d1 = Some e1" "unmetered e1" and c1: "core d1 = core (blank_daemon name (Some e))"
    using register_enums_unmetered assms on_env_core [OF d1]
    by (auto simp: on_env_def blank_daemon_def split: prod.splits)
  have e2: "d_env d2 = Some e1" using reset_metrics_unmetered [OF d2 e1] .
  from d3 e2 e1(2) obtain e3 where e3: "d_env d3 = Some e3" "unmetered e3"
    by (auto simp: on_env_def add_from_enum_def unmetered_calls elim!: bindp_InrE split: prod.splits
        dest!: add_enum_unmetered)
  have "core d2 = core d1"
    using d2 by (auto elim!: bindp_InrE dest!: reset_metric_core)
  then have "d_state d3 = ERROR"
    using on_env_core [OF d3] c1 by (simp add: core_def blank_daemon_def)
  then have "fst (set_state IDLE d3) = Inl AssertionError"
    using e3 by (simp add: set_state_def d_with_lock_def on_env_def unmetered_calls)
  with d4 show False by simp
qed

section \<open>Properties\<close>

text \<open>
  Property C7: whatever a controller and the daemon's threads do, in whatever order, at most one of
  the threads ever created is unfinished; the daemon is idle exactly when none is, is starting
  exactly while that thread has not entered its function, and its running, paused and stopping
  states are those in which the thread is inside it.
\<close>

theorem daemon_states_match_threads:
  assumes "new_daemon name env = Inr d0" and "dreach (d0, Free) (d, c)"
  shows "d_state d \<noteq> ERROR \<and>
    (d_state d = IDLE \<longleftrightarrow> (\<forall>ph \<in> set (d_threads d). ph = Finished)) \<and>
    (d_state d = STARTING \<longrightarrow> (\<exists>t ph. only t ph (d_threads d) \<and> d_thread d = Some t \<and> ph \<in> {Created, Started})) \<and>
    (d_state d \<in> {RUNNING, PAUSED, STOPPING} \<longrightarrow> (\<exists>t. only t InRun (d_threads d)))"
proof -
  have "dinv (d0, Free)" using new_daemon_dinv [OF assms(1)] .
  then have "dinv (d, c)" using dreach_inv [OF assms(2)] by blast
  moreover have "\<not> all_finished (d_threads d)" if "only t ph (d_threads d)" "ph \<noteq> Finished" for t ph
    using finished_nth [of "d_threads d" t] that by (auto simp: only_def)
  ultimately show ?thesis
    unfolding all_finished_def [symmetric] by (cases "d_state d"; cases c) auto
qed

theorem daemon_states_match_threads_witness:
  "\<exists>d0 d1. new_daemon ''x'' None = Inr d0 \<and> dreach (d0, Free) (d1, Launching) \<and> d_state d1 = STARTING \<and>
     (\<exists>t ph. only t ph (d_threads d1) \<and> d_thread d1 = Some t \<and> ph \<in> {Created, Started})"
proof -
  obtain d0 where d0: "new_daemon ''x'' None = Inr d0" "quiet d0" "d_state d0 = IDLE"
    using new_daemon_quiet [of "''x''"] new_daemon_idle by blast
  obtain ok d1 where d1: "start_section d0 = (Inr ok, d1)" using quiet_start_section [OF d0(2)] by blast
  from start_section_core [OF this] d0(3) have ok: "ok" "d_state d1 = STARTING" by (simp_all add: core_def)
  have "dstep (d0, Free) (d1, Launching)" using dstep.begin_start [OF d1] ok(1) by simp
  then have r: "dreach (d0, Free) (d1, Launching)" by (rule dreach.onwards [OF dreach.here])
  from daemon_states_match_threads [OF d0(1) r] ok(2) d0(1) r show ?thesis by blast
qed

text \<open>
  A daemon without an environment never fails on its own: in every reachable state the
  thread that was created can be started, a thread in its function can finish and makes the daemon
  idle, the stop of a running daemon finds its thread, and pausing, resuming and starting return.
\<close>

theorem daemon_never_fails:
  assumes "new_daemon name None = Inr d0" and "dreach (d0, Free) (d, c)"
  shows "(c = Launching \<longrightarrow> (\<exists>d'. launch_thread d = (Inr (), d'))) \<and>
    (InRun \<in> set (d_threads d) \<longrightarrow> (\<exists>d'. harness_end d = (Inr (), d') \<and> d_state d' = IDLE)) \<and>
    (d_state d = RUNNING \<longrightarrow> d_thread d \<noteq> None) \<and>
    (\<exists>ok d'. pause d = (Inr ok, d')) \<and> (\<exists>ok d'. unpause d = (Inr ok, d')) \<and>
    (\<exists>ok d'. start_section d = (Inr ok, d')) \<and> (\<exists>ok d'. stop_section d = (Inr ok, d')) \<and>
    (\<exists>d'. stop_finish d = (Inr (), d'))"
proof -
  from new_daemon_quiet [of name] assms(1) have q0: "quiet d0" and i0: "dinv (d0, Free)" by auto
  have inv: "dinv (d, c)" using dreach_inv [OF assms(2) i0] .
  have q: "quiet d" using dreach_quiet [OF assms(2)] q0 by simp
  have "\<exists>d'. launch_thread d = (Inr (), d')" if "c = Launching"
    using inv that by (cases "d_state d") (auto simp: launch_thread_def only_def)
  moreover have "\<exists>d'. harness_end d = (Inr (), d') \<and> d_state d' = IDLE" if "InRun \<in> set (d_threads d)"
  proof -
    from that obtain t where "t < length (d_threads d)" "d_threads d ! t = InRun"
      by (auto simp: in_set_conv_nth)
    with dinv_in_run [OF inv] have "d_state d \<noteq> IDLE" by auto
    with quiet_harness_end [OF q] harness_end_core [of d] show ?thesis by (fastforce simp: core_def)
  qed
  moreover have "d_state d = RUNNING \<longrightarrow> d_thread d \<noteq> None" using inv by auto
  ultimately show ?thesis
    using quiet_pause [OF q] quiet_unpause [OF q] quiet_start_section [OF q] quiet_stop_section [OF q]
      quiet_stop_finish [OF q] by blast
qed

theorem daemon_never_fails_witness:
  "\<exists>d0 d1 d2. new_daemon ''x'' None = Inr d0 \<and> start_section d0 = (Inr True, d1) \<and>
     launch_thread d1 = (Inr (), d2)"
proof -
  obtain d0 where d0: "new_daemon ''x'' None = Inr d0" "quiet d0" "d_state d0 = IDLE"
    using new_daemon_quiet [of "''x''"] new_daemon_idle by blast
  obtain ok d1 where d1: "start_section d0 = (Inr ok, d1)" using quiet_start_section [OF d0(2)] by blast
  from start_section_core [OF this] d0(3) have ok: "ok" by simp
  have "dstep (d0, Free) (d1, Launching)" using dstep.begin_start [OF d1] ok by simp
  then have r: "dreach (d0, Free) (d1, Launching)" by (rule dreach.onwards [OF dreach.here])
  from daemon_never_fails [OF d0(1) r] d0(1) d1 ok show ?thesis by simp
qed

text \<open>
  Property C40: two controllers that do not exclude one another can break a daemon: when one starts it
  again between the end of the thread the other waits for and the end of that other's stop, the
  stop forgets the new thread, and starting it raises an attribute error.
\<close>

theorem stop_start_race:
  assumes "quiet d" and "d_state d = RUNNING"
  shows "\<exists>d1 d2 d3 d4. stop_section d = (Inr True, d1) \<and> harness_end d1 = (Inr (), d2) \<and>
    start_section d2 = (Inr True, d3) \<and> stop_finish d3 = (Inr (), d4) \<and>
    launch_thread d4 = (Inl AttributeError, d4)"
proof -
  obtain ok d1 where d1: "stop_section d = (Inr ok, d1)" "quiet d1"
    using quiet_stop_section [OF assms(1)] by blast
  from stop_section_core [OF d1(1)] assms(2) have ok: "ok" "d_state d1 = STOPPING" by (simp_all add: core_def)
  then obtain d2 where d2: "harness_end d1 = (Inr (), d2)" "quiet d2"
    using quiet_harness_end [OF d1(2)] by auto
  from harness_end_core [OF d2(1)] have idle: "d_state d2 = IDLE" by (simp add: core_def)
  obtain ok' d3 where d3: "start_section d2 = (Inr ok', d3)" "quiet d3"
    using quiet_start_section [OF d2(2)] by blast
  from start_section_core [OF d3(1)] idle have ok': "ok'" by simp
  obtain d4 where d4: "stop_finish d3 = (Inr (), d4)" using quiet_stop_finish [OF d3(2)] by blast
  from stop_finish_core [OF this] have "d_thread d4 = None" by (simp add: core_def)
  then have "launch_thread d4 = (Inl AttributeError, d4)" by (simp add: launch_thread_def)
  with d1(1) ok(1) d2(1) d3(1) ok' d4 show ?thesis by auto
qed

theorem stop_start_race_witness:
  "\<exists>d1 d2 d3 d4. stop_section ((blank_daemon ''x'' None)\<lparr>d_state := RUNNING, d_thread := Some 0, d_threads := [InRun]\<rparr>)
      = (Inr True, d1) \<and> harness_end d1 = (Inr (), d2) \<and>
    start_section d2 = (Inr True, d3) \<and> stop_finish d3 = (Inr (), d4) \<and>
    launch_thread d4 = (Inl AttributeError, d4)"
  by (rule stop_start_race) (simp_all add: quiet_def blank_daemon_def)

text \<open>
  A daemon cannot be made over an environment that has no metrics, because its
  constructor sets a metric for its state that such an environment refuses.
\<close>

theorem daemon_needs_metrics:
  assumes "env_metrics (te_chan e) = None"
  shows "\<exists>err. new_daemon name (Some e) = Inl err"
  using metric_free_environment [of e name] assms
  by (cases "new_daemon name (Some e)") (auto simp: unmetered_def)

theorem daemon_needs_metrics_witness:
  "\<exists>err. new_daemon ''x'' (Some \<lparr>te_chan = \<lparr>env_time = 0, env_lock = 0, env_objects = [],
     env_registry = empty_registry ''channels'',
     env_framer = \<lparr>frm_mtu = 64, frm_timestamps = [], frm_primitives = [], frm_use_crc = True\<rparr>,
     env_channels = [], env_write_crc = True, env_metrics = None, env_events = [], env_frames = [],
     env_log = []\<rparr>, te_enums = new_enum_registry [], te_types = get_default, te_enum_channels = []\<rparr>) = Inl err"
  by (rule daemon_needs_metrics) simp

text \<open>
  Whatever \<open>run\<close> does and however it ends, a harness whose bookkeeping works leaves the
  daemon idle, counts the run, and passes on every exception of \<open>run\<close> but a keyboard interrupt.
\<close>

theorem harness_ends_idle:
  assumes "quiet d" and "d_state d = STARTING"
    and "run (d\<lparr>d_state := RUNNING\<rparr>) = (r, d1)" and "quiet d1" and "d_state d1 \<noteq> IDLE"
  shows "\<exists>d'. run_harness run d =
      (case r of Inl err \<Rightarrow> if err = KeyboardInterrupt then Inr () else Inl err | Inr _ \<Rightarrow> Inr (), d') \<and>
    d_state d' = IDLE \<and> d_thread d' = d_thread d1"
proof -
  have "harness_begin d = (Inr True, d\<lparr>d_state := RUNNING\<rparr>)"
    using assms(1,2) by (simp add: harness_begin_def quiet_set_state)
  moreover obtain d' where d': "harness_end d1 = (Inr (), d')"
    using quiet_harness_end [OF assms(4,5)] by blast
  ultimately show ?thesis
    using assms(3) harness_end_core [OF d']
    by (cases r) (auto simp: run_harness_def core_def)
qed

theorem harness_ends_idle_witness:
  "\<exists>d'. run_harness (raise KeyboardInterrupt) ((blank_daemon ''x'' None)\<lparr>d_state := STARTING\<rparr>) = (Inr (), d') \<and>
     d_state d' = IDLE"
proof -
  let ?d = "(blank_daemon ''x'' None)\<lparr>d_state := STARTING\<rparr>"
  have "quiet ?d" and "quiet (?d\<lparr>d_state := RUNNING\<rparr>)" by (simp_all add: quiet_def blank_daemon_def)
  from harness_ends_idle [OF this(1) _ _ this(2), of "raise KeyboardInterrupt" "Inl KeyboardInterrupt"]
  show ?thesis by auto
qed

end
