(* ===== verification/Queue_Daemon.thy ===== *)
theory Queue_Daemon
  imports Daemon
begin

text \<open>
  Queues between threads and the daemon that services one: \<open>create\<close> of
  \<open>vtelem/classes/metered_queue.py\<close>, the helpers of \<open>vtelem/stream/__init__.py\<close> and the queue daemon
  of \<open>vtelem/daemon/queue.py\<close>. A queue made with an environment publishes its metrics there; an
  element is an item or the \<open>None\<close> that asks the daemon to stop.
\<close>

section \<open>Queue objects\<close>

record 'a queue_obj =
  qo_items :: "'a list"
  qo_maxsize :: int
  qo_meter :: "string option"

text \<open>The metrics a metered queue publishes when something goes in or out.\<close>

definition meter_count :: "string \<Rightarrow> string \<Rightarrow> int \<Rightarrow> (channel_env, unit) py" where
  "meter_count name counter change =
     bindp (gets get_time) (\<lambda>t.
     bindp (metric_add (name @ ''.elements'') (VInt change) (Some t)) (\<lambda>_.
     metric_add (name @ counter) (VInt 1) (Some t)))"

definition meter_put :: "'a queue_obj \<Rightarrow> (daemon, unit) py" where
  "meter_put q = (case qo_meter q of
     None \<Rightarrow> ret ()
   | Some name \<Rightarrow> on_env (in_chan (meter_count name ''.total_enqueued'' 1)))"

definition meter_get :: "'a queue_obj \<Rightarrow> (daemon, unit) py" where
  "meter_get q = (case qo_meter q of
     None \<Rightarrow> ret ()
   | Some name \<Rightarrow> on_env (in_chan (meter_count name ''.total_dequeued'' (-1))))"

definition full :: "'a queue_obj \<Rightarrow> bool" where
  "full q \<longleftrightarrow> 0 < qo_maxsize q \<and> qo_maxsize q \<le> int (length (qo_items q))"

definition qput :: "'a \<Rightarrow> (daemon \<times> 'a queue_obj, unit) py" where
  "qput item =
     bindp (gets snd) (\<lambda>q.
     bindp (zoom fst (\<lambda>d s. (d, snd s)) (meter_put q)) (\<lambda>_.
     bindp (gets (\<lambda>s. full (snd s))) (\<lambda>no_room.
     if no_room then raise Blocks
     else modify (\<lambda>s. (fst s, (snd s)\<lparr>qo_items := qo_items (snd s) @ [item]\<rparr>)))))"

text \<open>\<open>create(name, env, maxsize)\<close>, with the daemon's environment or none.\<close>

definition create_queue :: "string option \<Rightarrow> bool \<Rightarrow> int \<Rightarrow> (daemon, 'a queue_obj) py" where
  "create_queue name use_env maxsize =
     bindp (gets (\<lambda>d. use_env \<and> d_env d \<noteq> None)) (\<lambda>metered.
     if \<not> metered then ret \<lparr>qo_items = [], qo_maxsize = maxsize, qo_meter = None\<rparr>
     else case name of
       None \<Rightarrow> raise AssertionError
     | Some n \<Rightarrow>
         bindp (on_env (in_chan (new_metered_queue n))) (\<lambda>_.
         ret \<lparr>qo_items = [], qo_maxsize = maxsize, qo_meter = Some (n @ ''_queue'')\<rparr>))"

section \<open>The queue daemon\<close>

text \<open>
  \<open>run\<close> over the elements that arrive at the queue, in the order they were put: it handles items
  until it gets \<open>None\<close>, and waits when nothing more arrives. \<open>on_get\<close> is what taking an element
  does to the daemon's environment; the result is what is left in the queue.
\<close>

fun queue_run :: "('s, unit) py \<Rightarrow> ('a \<Rightarrow> ('s, unit) py) \<Rightarrow> 'a option list \<Rightarrow> ('s, 'a option list) py" where
  "queue_run on_get handle [] = raise Blocks"
| "queue_run on_get handle (None # elems) = bindp on_get (\<lambda>_. ret elems)"
| "queue_run on_get handle (Some x # elems) =
     bindp on_get (\<lambda>_. bindp (handle x) (\<lambda>_. queue_run on_get handle elems))"

text \<open>The function that \<open>begin_stop\<close> calls: it puts \<open>None\<close> into the queue.\<close>

definition stop_injector :: "(daemon \<times> 'a option queue_obj, unit) py" where
  "stop_injector = qput None"

text \<open>Everything that was put before the stop request is handled, in order, and nothing after it.\<close>

lemma queue_run_until_stop:
  "queue_run (ret ()) handle (map Some xs @ None # rest) s =
     (case for_each handle xs s of (Inl err, s') \<Rightarrow> (Inl err, s') | (Inr _, s') \<Rightarrow> (Inr rest, s'))"
proof (induction xs arbitrary: s)
  case (Cons x xs)
  then show ?case by (cases "handle x s") (auto simp: bindp_def split: sum.splits)
qed (simp add: bindp_def)

lemma qput_plain:
  "qo_meter q = None \<Longrightarrow> \<not> full q \<Longrightarrow> qput x (d, q) = (Inr (), (d, q\<lparr>qo_items := qo_items q @ [x]\<rparr>))"
  by (simp add: qput_def meter_put_def)

end
