(* ===== verification/Command_Queue.thy ===== *)
theory Command_Queue
  imports Py_Text Queue_Daemon
begin

text \<open>
  The command queue (\<open>vtelem/daemon/command_queue.py\<close>): a queue daemon that takes commands, finds the
  consumers registered for their name and gives the answers to callbacks. The consumers and the
  callbacks of the application are a parameter: they are named by values of a type, and \<open>call\<close> and
  \<open>answer\<close> say what they do to the command's data, the daemon and the rest of the program. The help
  consumer is the daemon's own.
\<close>

section \<open>State\<close>

datatype 'h consumer = HelpHandler | Consumer 'h

type_synonym ('h, 'c) handler_entry = "'h consumer \<times> 'c option \<times> string"
type_synonym cmd_data = "(string, pyval) dict"

record ('h, 'c, 'w) command_daemon =
  cd_daemon :: daemon
  cd_handlers :: "('h, 'c) handler_entry list val_dict"
  cd_queue :: "(pyval \<times> 'c option) option queue_obj"
  cd_world :: 'w

text \<open>What consumers and callbacks of the application do.\<close>

type_synonym ('h, 'w) consumer_calls = "'h \<Rightarrow> (cmd_data \<times> daemon \<times> 'w, bool \<times> string) py"
type_synonym ('c, 'w) answer_calls = "'c \<Rightarrow> bool \<times> string \<Rightarrow> (daemon \<times> 'w, unit) py"

abbreviation in_cd :: "(daemon, 'a) py \<Rightarrow> (('h, 'c, 'w) command_daemon, 'a) py" where
  "in_cd m \<equiv> zoom cd_daemon (\<lambda>d s. s\<lparr>cd_daemon := d\<rparr>) m"

abbreviation in_app :: "(daemon \<times> 'w, 'a) py \<Rightarrow> (('h, 'c, 'w) command_daemon, 'a) py" where
  "in_app m \<equiv> zoom (\<lambda>s. (cd_daemon s, cd_world s)) (\<lambda>(d, w) s. s\<lparr>cd_daemon := d, cd_world := w\<rparr>) m"

text \<open>\<open>self.handlers[command]\<close>: a missing command gets an empty list.\<close>

definition handlers_at :: "pyval \<Rightarrow> (('h, 'c, 'w) command_daemon, ('h, 'c) handler_entry list) py" where
  "handlers_at command s =
     (if \<not> hashable command then (Inl TypeError, s)
      else case val_get (cd_handlers s) command of
        Some hs \<Rightarrow> (Inr hs, s)
      | None \<Rightarrow> (Inr [], s\<lparr>cd_handlers := val_set command [] (cd_handlers s)\<rparr>))"

definition register_consumer :: "string \<Rightarrow> ('h, 'c) handler_entry \<Rightarrow> (('h, 'c, 'w) command_daemon, unit) py" where
  "register_consumer command entry =
     bindp (handlers_at (VStr command)) (\<lambda>hs.
     modify (\<lambda>s. s\<lparr>cd_handlers := val_set (VStr command) (hs @ [entry]) (cd_handlers s)\<rparr>))"

section \<open>The help consumer\<close>

text \<open>\<open>data[key]\<close> of a command's data, a \<open>defaultdict\<close> that answers \<open>None\<close> and stores it.\<close>

definition data_item :: "string \<Rightarrow> (cmd_data \<times> 's, pyval) py" where
  "data_item key = (\<lambda>(data, s).
     case dict_get data key of
       Some v \<Rightarrow> (Inr v, (data, s))
     | None \<Rightarrow> (Inr VNone, (dict_set key VNone data, s)))"

definition help_entry :: "(pyfloat \<Rightarrow> string) \<Rightarrow> ('h, 'c) handler_entry list val_dict \<Rightarrow> pyval \<Rightarrow> string \<times> pyval" where
  "help_entry fr handlers command =
     (json_key fr command,
      VList (case val_get handlers command of None \<Rightarrow> [] | Some hs \<Rightarrow> map (\<lambda>(_, _, msg). VStr msg) hs))"

definition DEFAULT_INDENT :: nat where
  "DEFAULT_INDENT = 2"

definition help_handler :: "(pyfloat \<Rightarrow> string) \<Rightarrow> (cmd_data \<times> ('h, 'c, 'w) command_daemon, bool \<times> string) py" where
  "help_handler fr =
     bindp (gets (\<lambda>s. cd_handlers (snd s))) (\<lambda>handlers.
     bindp (data_item ''command'') (\<lambda>command.
     if command \<noteq> VNone \<and> \<not> hashable command then raise TypeError
     else if command \<noteq> VNone \<and> val_get handlers command = None
     then ret (False, ''Unknown command '' @ [CHR 0x27] @ py_str fr command @ [CHR 0x27])
     else
       (let commands = (if command = VNone then map fst (filter (\<lambda>(_, hs). hs \<noteq> []) handlers) else [command])
        in bindp (data_item ''indent'') (\<lambda>indent.
           ret (True, dumps fr (if indent = VNone then None else Some DEFAULT_INDENT)
             (VDict (map (help_entry fr handlers) commands)))))))"

section \<open>Handling a command\<close>

definition call_consumer :: "(pyfloat \<Rightarrow> string) \<Rightarrow> ('h, 'w) consumer_calls \<Rightarrow> 'h consumer \<Rightarrow>
    (cmd_data \<times> ('h, 'c, 'w) command_daemon, bool \<times> string) py" where
  "call_consumer fr call handler =
     (case handler of
        HelpHandler \<Rightarrow> help_handler fr
      | Consumer h \<Rightarrow>
          zoom (\<lambda>(data, s). (data, cd_daemon s, cd_world s))
            (\<lambda>(data, d, w) (_, s). (data, s\<lparr>cd_daemon := d, cd_world := w\<rparr>)) (call h))"

definition give_answer :: "('c, 'w) answer_calls \<Rightarrow> 'c option \<Rightarrow> bool \<times> string \<Rightarrow> (('h, 'c, 'w) command_daemon, unit) py" where
  "give_answer answer cb result = (case cb of None \<Rightarrow> ret () | Some c \<Rightarrow> in_app (answer c result))"

definition reject :: "('c, 'w) answer_calls \<Rightarrow> 'c option \<Rightarrow> string \<Rightarrow> (('h, 'c, 'w) command_daemon, unit) py" where
  "reject answer cmd_cb err =
     bindp (in_cd (increment_metric ''rejected_count'' (VInt 1))) (\<lambda>_. give_answer answer cmd_cb (False, err))"

definition run_consumer :: "(pyfloat \<Rightarrow> string) \<Rightarrow> ('h, 'w) consumer_calls \<Rightarrow> ('c, 'w) answer_calls \<Rightarrow> 'c option \<Rightarrow>
    ('h, 'c) handler_entry \<Rightarrow> (cmd_data \<times> ('h, 'c, 'w) command_daemon, unit) py" where
  "run_consumer fr call answer cmd_cb = (\<lambda>(handler, result_cb, _).
     bindp (call_consumer fr call handler) (\<lambda>(result, message).
     zoom snd (\<lambda>s p. (fst p, s)) (
       bindp (give_answer answer result_cb (result, message)) (\<lambda>_.
       bindp (give_answer answer cmd_cb (result, message)) (\<lambda>_.
       in_cd (increment_metric (if result then ''success_count'' else ''failure_count'') (VInt 1)))))))"

definition elem_handle :: "(pyfloat \<Rightarrow> string) \<Rightarrow> ('h, 'w) consumer_calls \<Rightarrow> ('c, 'w) answer_calls \<Rightarrow> pyval \<times> 'c option \<Rightarrow>
    (('h, 'c, 'w) command_daemon, unit) py" where
  "elem_handle fr call answer = (\<lambda>(elem, cmd_cb).
     bindp (in_cd (increment_metric ''command_count'' (VInt 1))) (\<lambda>_.
     bindp (gets (\<lambda>s. d_name (cd_daemon s))) (\<lambda>name.
     case elem of
       VDict items \<Rightarrow>
         (case dict_get items ''command'' of
            None \<Rightarrow> reject answer cmd_cb (name @ '': unknown or malformed command, rejected'')
          | Some command \<Rightarrow>
              bindp (handlers_at command) (\<lambda>handlers.
              if handlers = []
              then reject answer cmd_cb (name @ '': command '' @ [CHR 0x27] @ py_str fr command @ [CHR 0x27] @
                     '' has no handlers, rejected'')
              else
                zoom (\<lambda>s. (case dict_get items ''data'' of Some (VDict d) \<Rightarrow> dict_update [] d | _ \<Rightarrow> [], s))
                  (\<lambda>(_, s) _. s) (for_each (run_consumer fr call answer cmd_cb) handlers)))
     | _ \<Rightarrow> reject answer cmd_cb (name @ '': unknown or malformed command, rejected''))))"

section \<open>The daemon\<close>

definition cd_enqueue :: "pyval \<Rightarrow> 'c option \<Rightarrow> (('h, 'c, 'w) command_daemon, unit) py" where
  "cd_enqueue command result_cb =
     zoom (\<lambda>s. (cd_daemon s, cd_queue s)) (\<lambda>(d, q) s. s\<lparr>cd_daemon := d, cd_queue := q\<rparr>) (qput (Some (command, result_cb)))"

definition cd_on_get :: "(('h, 'c, 'w) command_daemon, unit) py" where
  "cd_on_get = bindp (gets cd_queue) (\<lambda>q. in_cd (meter_get q))"

text \<open>\<open>run\<close>: the elements of the queue are handled in order, until the stop request.\<close>

definition cd_run :: "(pyfloat \<Rightarrow> string) \<Rightarrow> ('h, 'w) consumer_calls \<Rightarrow> ('c, 'w) answer_calls \<Rightarrow>
    (('h, 'c, 'w) command_daemon, unit) py" where
  "cd_run fr call answer =
     bindp (gets (\<lambda>s. qo_items (cd_queue s))) (\<lambda>elems.
     bindp (queue_run cd_on_get (elem_handle fr call answer) elems) (\<lambda>rest.
     modify (\<lambda>s. s\<lparr>cd_queue := (cd_queue s)\<lparr>qo_items := rest\<rparr>\<rparr>)))"

text \<open>
  \<open>execute\<close> waits for a first answer at most two seconds and returns the answer that is there then:
  when a command has several consumers, more answers may have come. The argument is the list of
  the answers that the command gets in the end.
\<close>

definition execute_value :: "(bool \<times> string) list \<Rightarrow> bool \<Rightarrow> bool \<times> string" where
  "execute_value seen in_time =
     (let (result, msg) = (if seen = [] then (False, ''Command result not known.'') else List.last seen)
      in (result \<and> in_time, msg))"

definition execute_returns :: "(bool \<times> string) list \<Rightarrow> bool \<times> string \<Rightarrow> bool" where
  "execute_returns answers r \<longleftrightarrow>
     (\<exists>k \<in> {0..length answers}. r = execute_value (take k answers) False \<or> 0 < k \<and> r = execute_value (take k answers) True)"

definition init_command_daemon :: "(('h, 'c, 'w) command_daemon, unit) py" where
  "init_command_daemon =
     bindp (for_each (\<lambda>n. in_cd (reset_metric n 0)) [''command_count'', ''success_count'', ''failure_count'', ''rejected_count'']) (\<lambda>_.
     register_consumer ''help'' (HelpHandler, None, ''inquire about available command usages''))"

definition new_command_daemon :: "string \<Rightarrow> telemetry_env option \<Rightarrow> 'w \<Rightarrow> py_error + ('h, 'c, 'w) command_daemon" where
  "new_command_daemon name env world =
     (case create_queue (Some (name @ ''.queue'')) True MAX_SIZE (blank_daemon name env) of
        (Inl err, _) \<Rightarrow> Inl err
      | (Inr q, d) \<Rightarrow>
          (case bindp (in_cd init_daemon) (\<lambda>_. init_command_daemon)
                 \<lparr>cd_daemon = d, cd_handlers = [], cd_queue = q, cd_world = world\<rparr> of
             (Inl err, _) \<Rightarrow> Inl err
           | (Inr _, s) \<Rightarrow> Inr s))"

section \<open>Counting\<close>

text \<open>What a metric of the daemon stands at.\<close>

definition tally :: "string \<Rightarrow> daemon \<Rightarrow> int" where
  "tally n d = (case as_int (metric_value n d) of Some k \<Rightarrow> k | None \<Rightarrow> 0)"

lemma tally_increment:
  assumes "quiet d"
  obtains d' where "increment_metric n (VInt j) d = (Inr (), d')" and "quiet d'" and "d_name d' = d_name d"
    and "tally n d' = tally n d + j" and "\<forall>m. m \<noteq> n \<longrightarrow> tally m d' = tally m d"
proof -
  obtain i where i: "as_int (metric_value n d) = Some i"
    using assms by (cases "dict_get (d_metrics d) n") (auto simp: quiet_def metric_value_def)
  let ?d = "d\<lparr>d_metrics := dict_set n (VInt (i + j)) (d_metrics d)\<rparr>"
  have "num_add (metric_value n (d\<lparr>d_lock := d_lock d + 1\<rparr>)) (VInt j) = Inr (VInt (i + j))"
    using i by (simp add: metric_value_def)
  then have "increment_metric n (VInt j) d = set_env_metric n (VInt (i + j)) UINT32 ?d"
    by (simp add: increment_metric_def update_metric_def d_with_lock_def del: num_add.simps)
  with quiet_set_env_metric [OF quiet_metric [OF assms]] have "increment_metric n (VInt j) d = (Inr (), ?d)" by simp
  then show thesis
    using i quiet_metric [OF assms] by (intro that [of ?d]) (auto simp: tally_def metric_value_def)
qed

text \<open>The consumers that a command of the queue is for.\<close>

definition consumers_of :: "('h, 'c, 'w) command_daemon \<Rightarrow> pyval \<Rightarrow> ('h, 'c) handler_entry list" where
  "consumers_of s elem =
     (case elem of
        VDict items \<Rightarrow>
          (case dict_get items ''command'' of
             Some command \<Rightarrow> (case val_get (cd_handlers s) command of Some hs \<Rightarrow> hs | None \<Rightarrow> [])
           | None \<Rightarrow> [])
      | _ \<Rightarrow> [])"

definition well_named :: "pyval \<Rightarrow> bool" where
  "well_named elem = (case elem of
     VDict items \<Rightarrow> (case dict_get items ''command'' of Some command \<Rightarrow> hashable command | None \<Rightarrow> True)
   | _ \<Rightarrow> True)"

text \<open>The two ways a command goes: it is refused, or its consumers are called.\<close>

lemma rejected_command:
  assumes "well_named elem" and "consumers_of s elem = []"
    and "increment_metric ''command_count'' (VInt 1) (cd_daemon s) = (Inr (), d)"
  obtains hs err where "elem_handle fr call answer (elem, cb) s = reject answer cb err (s\<lparr>cd_daemon := d, cd_handlers := hs\<rparr>)"
  using assms
  by (cases elem) (auto simp: elem_handle_def consumers_of_def well_named_def handlers_at_def bindp_def zoom_def
      split: option.splits intro: that [where hs = "cd_handlers s"] that)

lemma dispatched_command:
  assumes "well_named elem" and "consumers_of s elem \<noteq> []"
    and "increment_metric ''command_count'' (VInt 1) (cd_daemon s) = (Inr (), d)"
  obtains data where "elem_handle fr call answer (elem, cb) s =
    zoom (\<lambda>s. (data, s)) (\<lambda>(_, s) _. s) (for_each (run_consumer fr call answer cb) (consumers_of s elem)) (s\<lparr>cd_daemon := d\<rparr>)"
  using assms
  by (cases elem) (auto simp: elem_handle_def consumers_of_def well_named_def handlers_at_def bindp_def zoom_def
      split: option.splits)

section \<open>The contract of consumers and callbacks\<close>

definition answers_to :: "('w \<Rightarrow> ('c \<times> bool \<times> string) list) \<Rightarrow> 'c \<Rightarrow> ('h, 'c, 'w) command_daemon \<Rightarrow> (bool \<times> string) list" where
  "answers_to given c s = map snd (filter (\<lambda>g. fst g = c) (given (cd_world s)))"

text \<open>From one state to another a callback got these answers, and each was counted.\<close>

definition answered :: "('w \<Rightarrow> ('c \<times> bool \<times> string) list) \<Rightarrow> 'c \<Rightarrow> (bool \<times> string) list \<Rightarrow>
    ('h, 'c, 'w) command_daemon \<Rightarrow> ('h, 'c, 'w) command_daemon \<Rightarrow> bool" where
  "answered given c rs s s' \<longleftrightarrow>
     quiet (cd_daemon s') \<and> answers_to given c s' = answers_to given c s @ rs \<and>
     tally ''success_count'' (cd_daemon s') = tally ''success_count'' (cd_daemon s) + int (length (filter fst rs)) \<and>
     tally ''failure_count'' (cd_daemon s') = tally ''failure_count'' (cd_daemon s) + int (length (filter (\<lambda>r. \<not> fst r) rs)) \<and>
     tally ''rejected_count'' (cd_daemon s') = tally ''rejected_count'' (cd_daemon s) \<and>
     tally ''command_count'' (cd_daemon s') = tally ''command_count'' (cd_daemon s)"

lemma answered_refl: "quiet (cd_daemon s) \<Longrightarrow> answered given c [] s s"
  by (simp add: answered_def)

lemma answered_trans: "answered given c rs s s1 \<Longrightarrow> answered given c rs' s1 s2 \<Longrightarrow> answered given c (rs @ rs') s s2"
  by (simp add: answered_def)

text \<open>
  What the command queue needs of an application: consumers leave the command daemon and the
  answers given so far alone, and a callback keeps what it is told.
\<close>

locale answering =
  fixes call :: "('h, 'w) consumer_calls"
    and answer :: "('c, 'w) answer_calls"
    and given :: "'w \<Rightarrow> ('c \<times> bool \<times> string) list"
  assumes call_keeps: "call h (data, d, w) = (r, (data', d', w')) \<Longrightarrow> d' = d \<and> given w' = given w"
    and answer_given: "\<exists>w'. answer c res (d, w) = (Inr (), (d, w')) \<and> given w' = given w @ [(c, res)]"
begin

lemma give_answer_run:
  obtains w' where "give_answer answer cb res s = (Inr (), s\<lparr>cd_world := w'\<rparr>)"
    and "answers_to given c (s\<lparr>cd_world := w'\<rparr>) = answers_to given c s @ (if cb = Some c then [res] else [])"
proof (cases cb)
  case None
  then show thesis by (intro that [of "cd_world s"]) (simp_all add: give_answer_def)
next
  case (Some c')
  obtain w' where "answer c' res (cd_daemon s, cd_world s) = (Inr (), (cd_daemon s, w'))"
      "given w' = given (cd_world s) @ [(c', res)]"
    using answer_given by blast
  then show thesis
    using Some by (intro that [of w']) (simp_all add: give_answer_def answers_to_def zoom_def)
qed

lemma call_consumer_keeps:
  assumes "call_consumer fr call h (data, s) = (r, (data', s'))"
  shows "cd_daemon s' = cd_daemon s \<and> given (cd_world s') = given (cd_world s)"
proof (cases h)
  case HelpHandler
  have item: "snd (snd (data_item k (d, s))) = s" for k d by (simp add: data_item_def split: option.split)
  have "s' = s" using assms item HelpHandler
    by (auto simp: call_consumer_def help_handler_def Let_def bindp_def split: prod.splits sum.splits if_splits) (metis snd_conv)+
  then show ?thesis by simp
next
  case (Consumer a)
  then show ?thesis using assms call_keeps by (auto simp: call_consumer_def zoom_def split: prod.splits)
qed

lemma run_consumer_run:
  assumes "quiet (cd_daemon s)" and "call_consumer fr call h (data, s) = (r, (data', s1))" and "rcb \<noteq> Some c"
  obtains s' where "run_consumer fr call answer (Some c) (h, rcb, msg) (data, s) =
      (case r of Inl e \<Rightarrow> Inl e | Inr _ \<Rightarrow> Inr (), (data', s'))"
    and "answered given c (case r of Inl e \<Rightarrow> [] | Inr res \<Rightarrow> [res]) s s'"
proof (cases r)
  case (Inl e)
  then show thesis
    using assms call_consumer_keeps [OF assms(2)]
    by (intro that [of s1]) (simp_all add: run_consumer_def answered_def answers_to_def)
next
  case (Inr res)
  obtain w2 where a: "give_answer answer rcb res s1 = (Inr (), s1\<lparr>cd_world := w2\<rparr>)"
      "answers_to given c (s1\<lparr>cd_world := w2\<rparr>) = answers_to given c s1 @ (if rcb = Some c then [res] else [])"
    by (rule give_answer_run)
  obtain w3 where b: "give_answer answer (Some c) res (s1\<lparr>cd_world := w2\<rparr>) = (Inr (), s1\<lparr>cd_world := w3\<rparr>)"
      "answers_to given c (s1\<lparr>cd_world := w3\<rparr>) = answers_to given c (s1\<lparr>cd_world := w2\<rparr>) @ [res]"
    by (rule give_answer_run [of "Some c" res "s1\<lparr>cd_world := w2\<rparr>" c]) simp
  let ?n = "if fst res then ''success_count'' else ''failure_count''"
  have q: "quiet (cd_daemon s1)" using assms(1) call_consumer_keeps [OF assms(2)] by simp
  obtain d where d: "increment_metric ?n (VInt 1) (cd_daemon s1) = (Inr (), d)" "quiet d"
      "d_name d = d_name (cd_daemon s1)" "tally ?n d = tally ?n (cd_daemon s1) + 1" "\<forall>m. m \<noteq> ?n \<longrightarrow> tally m d = tally m (cd_daemon s1)"
    by (rule tally_increment [OF q, where n = ?n and j = 1])
  have "run_consumer fr call answer (Some c) (h, rcb, msg) (data, s) = (Inr (), (data', s1\<lparr>cd_daemon := d, cd_world := w3\<rparr>))"
    using Inr assms(2) a(1) b(1) d(1) by (simp add: run_consumer_def case_prod_unfold zoom_def)
  moreover have "answered given c [res] s (s1\<lparr>cd_daemon := d, cd_world := w3\<rparr>)"
    using call_consumer_keeps [OF assms(2)] a(2) b(2) d(2,4,5) assms(3)
    by (cases "fst res") (simp_all add: answered_def answers_to_def)
  ultimately show thesis using Inr by (intro that [of "s1\<lparr>cd_daemon := d, cd_world := w3\<rparr>"]) simp_all
qed

lemma consumers_run:
  assumes "quiet (cd_daemon s)" and "\<forall>(h, rcb, msg) \<in> set hs. rcb \<noteq> Some c"
  obtains r data' s' rs where "for_each (run_consumer fr call answer (Some c)) hs (data, s) = (r, (data', s'))"
    and "answered given c rs s s'"
    and "case r of Inr _ \<Rightarrow> length rs = length hs
      | Inl e \<Rightarrow> length rs < length hs \<and> (\<exists>p :: cmd_data \<times> ('h, 'c, 'w) command_daemon. fst (call_consumer fr call (fst (hs ! length rs)) p) = Inl e)"
  using assms
proof (induction hs arbitrary: data s thesis)
  case Nil
  then show ?case by (intro Nil(1) [of "Inr ()" data s "[]"]) (simp_all add: answered_refl)
next
  case (Cons e hs)
  obtain h rcb msg where e: "e = (h, rcb, msg)" by (cases e)
  obtain r1 data1 s1 where call: "call_consumer fr call h (data, s) = (r1, (data1, s1))" by (metis prod.exhaust)
  have rcb: "rcb \<noteq> Some c" using Cons.prems(3) e by simp
  obtain s2 where s2: "run_consumer fr call answer (Some c) e (data, s) = (case r1 of Inl e \<Rightarrow> Inl e | Inr _ \<Rightarrow> Inr (), (data1, s2))"
      "answered given c (case r1 of Inl e \<Rightarrow> [] | Inr res \<Rightarrow> [res]) s s2"
    unfolding e by (rule run_consumer_run [OF Cons.prems(2) call rcb])
  show ?case
  proof (cases r1)
    case (Inl err)
    have "fst (call_consumer fr call (fst ((e # hs) ! length ([] :: (bool \<times> string) list))) (data, s)) = Inl err"
      using call Inl e by simp
    then have "\<exists>p :: cmd_data \<times> ('h, 'c, 'w) command_daemon. fst (call_consumer fr call (fst ((e # hs) ! length ([] :: (bool \<times> string) list))) p) = Inl err" by blast
    with Inl s2 show ?thesis by (intro Cons.prems(1) [of "Inl err" data1 s2 "[]"]) simp_all
  next
    case (Inr res)
    have q: "quiet (cd_daemon s2)" using s2(2) by (simp add: answered_def)
    have tl: "\<forall>(h, rcb, msg) \<in> set hs. rcb \<noteq> Some c" using Cons.prems(3) by simp
    obtain r data' s' rs where rest: "for_each (run_consumer fr call answer (Some c)) hs (data1, s2) = (r, (data', s'))"
        "answered given c rs s2 s'"
        "case r of Inr _ \<Rightarrow> length rs = length hs
          | Inl e \<Rightarrow> length rs < length hs \<and> (\<exists>p :: cmd_data \<times> ('h, 'c, 'w) command_daemon. fst (call_consumer fr call (fst (hs ! length rs)) p) = Inl e)"
      by (rule Cons.IH [OF _ q tl])
    have "for_each (run_consumer fr call answer (Some c)) (e # hs) (data, s) = (r, (data', s'))"
      using s2(1) Inr rest(1) by simp
    moreover have "answered given c (res # rs) s s'" using answered_trans [OF s2(2) rest(2)] Inr by simp
    ultimately show ?thesis using rest(3) by (intro Cons.prems(1) [of r data' s' "res # rs"]) (auto split: sum.splits)
  qed
qed

lemma reject_run:
  assumes "quiet (cd_daemon s)"
  obtains s' where "reject answer (Some c) err s = (Inr (), s')" and "quiet (cd_daemon s')"
    and "answers_to given c s' = answers_to given c s @ [(False, err)]"
    and "tally ''rejected_count'' (cd_daemon s') = tally ''rejected_count'' (cd_daemon s) + 1"
    and "\<forall>m. m \<noteq> ''rejected_count'' \<longrightarrow> tally m (cd_daemon s') = tally m (cd_daemon s)"
proof -
  obtain d where d: "increment_metric ''rejected_count'' (VInt 1) (cd_daemon s) = (Inr (), d)" "quiet d"
      "d_name d = d_name (cd_daemon s)" "tally ''rejected_count'' d = tally ''rejected_count'' (cd_daemon s) + 1"
      "\<forall>m. m \<noteq> ''rejected_count'' \<longrightarrow> tally m d = tally m (cd_daemon s)"
    by (rule tally_increment [OF assms, where n = "''rejected_count''" and j = 1])
  obtain w where w: "give_answer answer (Some c) (False, err) (s\<lparr>cd_daemon := d\<rparr>) = (Inr (), s\<lparr>cd_daemon := d, cd_world := w\<rparr>)"
      "answers_to given c (s\<lparr>cd_daemon := d, cd_world := w\<rparr>) = answers_to given c (s\<lparr>cd_daemon := d\<rparr>) @ [(False, err)]"
    by (rule give_answer_run [of "Some c" "(False, err)" "s\<lparr>cd_daemon := d\<rparr>" c]) simp
  then show thesis
    using d by (intro that [of "s\<lparr>cd_daemon := d, cd_world := w\<rparr>"]) (simp_all add: reject_def answers_to_def)
qed

lemma elem_handle_run:
  assumes "quiet (cd_daemon s)" and "well_named elem" and "\<forall>(h, rcb, msg) \<in> set (consumers_of s elem). rcb \<noteq> Some c"
  shows "\<exists>r s' rs. elem_handle fr call answer (elem, Some c) s = (r, s') \<and> quiet (cd_daemon s') \<and>
    answers_to given c s' = answers_to given c s @ rs \<and>
    tally ''command_count'' (cd_daemon s') = tally ''command_count'' (cd_daemon s) + 1 \<and>
    (if consumers_of s elem = []
     then r = Inr () \<and> length rs = 1 \<and> \<not> fst (hd rs) \<and>
       tally ''rejected_count'' (cd_daemon s') = tally ''rejected_count'' (cd_daemon s) + 1 \<and>
       tally ''success_count'' (cd_daemon s') = tally ''success_count'' (cd_daemon s) \<and>
       tally ''failure_count'' (cd_daemon s') = tally ''failure_count'' (cd_daemon s)
     else tally ''rejected_count'' (cd_daemon s') = tally ''rejected_count'' (cd_daemon s) \<and>
       tally ''success_count'' (cd_daemon s') = tally ''success_count'' (cd_daemon s) + int (length (filter fst rs)) \<and>
       tally ''failure_count'' (cd_daemon s') = tally ''failure_count'' (cd_daemon s) + int (length (filter (\<lambda>x. \<not> fst x) rs)) \<and>
       (case r of
          Inr _ \<Rightarrow> length rs = length (consumers_of s elem)
        | Inl e \<Rightarrow> length rs < length (consumers_of s elem) \<and>
            (\<exists>p :: cmd_data \<times> ('h, 'c, 'w) command_daemon.
               fst (call_consumer fr call (fst (consumers_of s elem ! length rs)) p) = Inl e)))"
proof -
  obtain d where d: "increment_metric ''command_count'' (VInt 1) (cd_daemon s) = (Inr (), d)" "quiet d"
      "d_name d = d_name (cd_daemon s)" "tally ''command_count'' d = tally ''command_count'' (cd_daemon s) + 1"
      "\<forall>m. m \<noteq> ''command_count'' \<longrightarrow> tally m d = tally m (cd_daemon s)"
    by (rule tally_increment [OF assms(1), where n = "''command_count''" and j = 1])
  let ?s = "s\<lparr>cd_daemon := d\<rparr>"
  show ?thesis
  proof (cases "consumers_of s elem = []")
    case True
    obtain hs err where e: "elem_handle fr call answer (elem, Some c) s = reject answer (Some c) err (?s\<lparr>cd_handlers := hs\<rparr>)"
      by (rule rejected_command [OF assms(2) True d(1)])
    have q: "quiet (cd_daemon (?s\<lparr>cd_handlers := hs\<rparr>))" using d(2) by simp
    obtain s' where s': "reject answer (Some c) err (?s\<lparr>cd_handlers := hs\<rparr>) = (Inr (), s')" "quiet (cd_daemon s')"
        "answers_to given c s' = answers_to given c (?s\<lparr>cd_handlers := hs\<rparr>) @ [(False, err)]"
        "tally ''rejected_count'' (cd_daemon s') = tally ''rejected_count'' (cd_daemon (?s\<lparr>cd_handlers := hs\<rparr>)) + 1"
        "\<forall>m. m \<noteq> ''rejected_count'' \<longrightarrow> tally m (cd_daemon s') = tally m (cd_daemon (?s\<lparr>cd_handlers := hs\<rparr>))"
      by (rule reject_run [OF q])
    with True e d show ?thesis
      by (intro exI [of _ "Inr ()"] exI [of _ s'] exI [of _ "[(False, err)]"]) (simp add: answers_to_def)
  next
    case False
    obtain data where e: "elem_handle fr call answer (elem, Some c) s =
        zoom (\<lambda>s. (data, s)) (\<lambda>(_, s) _. s) (for_each (run_consumer fr call answer (Some c)) (consumers_of s elem)) ?s"
      by (rule dispatched_command [OF assms(2) False d(1)])
    have q: "quiet (cd_daemon ?s)" using d(2) by simp
    obtain r data' s' rs where run: "for_each (run_consumer fr call answer (Some c)) (consumers_of s elem) (data, ?s) = (r, (data', s'))"
        "answered given c rs ?s s'"
        "case r of Inr _ \<Rightarrow> length rs = length (consumers_of s elem)
          | Inl e \<Rightarrow> length rs < length (consumers_of s elem) \<and> (\<exists>p :: cmd_data \<times> ('h, 'c, 'w) command_daemon.
              fst (call_consumer fr call (fst (consumers_of s elem ! length rs)) p) = Inl e)"
      by (rule consumers_run [OF q assms(3)])
    with False e d show ?thesis
      by (intro exI [of _ r] exI [of _ s'] exI [of _ rs]) (simp add: answered_def answers_to_def zoom_def)
  qed
qed

end

end
