(* ===== verification/Channel_Group.thy ===== *)
theory Channel_Group
  imports Telemetry_Environment
begin

text \<open>
  Channel groups (\<open>vtelem/channel/group.py\<close>) and their registry (\<open>vtelem/channel/group_registry.py\<close>):
  named sets of channels that are read and written together under the environment's lock. What a
  group needs of the environment is the interface \<open>value_store\<close>: a value that was put is what is
  got, and nothing else changes.
\<close>

section \<open>Groups\<close>

record group_chan =
  gc_id :: int
  gc_value :: "pyval option"
  gc_is_enum :: bool

record group =
  g_name :: string
  g_channels :: "(string, group_chan) dict"

type_synonym group_state = "telemetry_env \<times> group"

abbreviation in_genv :: "(telemetry_env, 'a) py \<Rightarrow> (group_state, 'a) py" where
  "in_genv m \<equiv> zoom fst (\<lambda>e s. (e, snd s)) m"

text \<open>\<open>except AssertionError: return False\<close>.\<close>

definition catch_assertion :: "('s, 'a) py \<Rightarrow> ('s, 'a option) py" where
  "catch_assertion m s =
     (case m s of
        (Inr a, s') \<Rightarrow> (Inr (Some a), s')
      | (Inl err, s') \<Rightarrow> (if err = AssertionError then (Inr None, s') else (Inl err, s')))"

definition store_channel :: "string \<Rightarrow> group_chan \<Rightarrow> (group_state, unit) py" where
  "store_channel name c = modify (\<lambda>(e, g). (e, g\<lparr>g_channels := dict_set name c (g_channels g)\<rparr>))"

definition group_add_channel :: "string \<Rightarrow> primitive \<Rightarrow> pyfloat \<Rightarrow> bool \<Rightarrow> (group_state, bool) py" where
  "group_add_channel name inst rate track_change =
     bindp (gets (\<lambda>s. (g_name (snd s) @ ''.'' @ name, get_time (te_chan (fst s))))) (\<lambda>(real_name, t).
     bindp (catch_assertion (in_genv (in_chan
              (env_add_channel real_name inst rate track_change (Some (default_val inst, Some t)) True)))) (\<lambda>r.
     case r of
       None \<Rightarrow> ret False
     | Some chan_id \<Rightarrow>
         bindp (store_channel name \<lparr>gc_id = chan_id, gc_value = Some (default_val inst), gc_is_enum = False\<rparr>)
           (\<lambda>_. ret True)))"

definition group_add_enum_channel :: "string \<Rightarrow> string \<Rightarrow> pyfloat \<Rightarrow> bool \<Rightarrow> (group_state, bool) py" where
  "group_add_enum_channel name enum_name rate track_change =
     bindp (in_genv (in_enum_registry (in_reg (get_id enum_name)))) (\<lambda>i.
     case i of
       None \<Rightarrow> ret False
     | Some enum_id \<Rightarrow>
         bindp (in_genv (in_enum_registry (in_reg (get_item enum_id)))) (\<lambda>enum.
         case enum of
           None \<Rightarrow> raise AssertionError
         | Some u \<Rightarrow>
             bindp (gets (\<lambda>s. (g_name (snd s) @ ''.'' @ name, get_time (te_chan (fst s))))) (\<lambda>(real_name, t).
             bindp (catch_assertion (in_genv
                      (add_enum_channel real_name enum_name rate track_change (Some (ue_default u, Some t)) True))) (\<lambda>r.
             case r of
               None \<Rightarrow> ret False
             | Some chan_id \<Rightarrow>
                 bindp (store_channel name \<lparr>gc_id = chan_id, gc_value = None, gc_is_enum = True\<rparr>) (\<lambda>_. ret True)))))"

section \<open>Reading and writing\<close>

definition get_chan_value :: "int \<times> bool \<Rightarrow> (telemetry_env, pyval) py" where
  "get_chan_value = (\<lambda>(i, is_enum).
     if is_enum then bindp (get_enum_value i) (\<lambda>s. ret (VStr s)) else in_chan (env_get_value i))"

text \<open>A value that is no string has no method \<open>lower\<close>, which an enumeration calls.\<close>

definition put_chan_value :: "int \<times> bool \<Rightarrow> pyval \<Rightarrow> (telemetry_env, bool) py" where
  "put_chan_value = (\<lambda>(i, is_enum) v.
     if is_enum
     then (case v of
             VStr s \<Rightarrow> set_enum_now i s
           | _ \<Rightarrow> bindp (enum_channel_type i) (\<lambda>ty. on_enum ty (raise AttributeError)))
     else in_chan (set_now i v))"

definition chan_key :: "group_chan \<Rightarrow> int \<times> bool" where
  "chan_key c = (gc_id c, gc_is_enum c)"

definition group_read :: "(group_state, (string, pyval) dict) py" where
  "group_read =
     bindp (gets (\<lambda>s. g_channels (snd s))) (\<lambda>channels.
     bindp (in_genv (te_with_lock (map_each (\<lambda>c. get_chan_value (chan_key (snd c))) channels))) (\<lambda>vs.
     ret (zip (dict_keys channels) vs)))"

definition group_write :: "(string, pyval) dict \<Rightarrow> (group_state, unit) py" where
  "group_write values =
     bindp (gets (\<lambda>s. g_channels (snd s))) (\<lambda>channels.
     in_genv (te_with_lock (for_each (\<lambda>(name, value).
       (case dict_get channels name of
          None \<Rightarrow> raise AssertionError
        | Some chan \<Rightarrow> bindp (put_chan_value (chan_key chan) value) (\<lambda>_. ret ()))) values)))"

text \<open>
  The context manager: the body works on the values that were read, and whatever it leaves of them
  is written, also when it raises. When reading fails there is nothing to write: the variable is
  unbound.
\<close>

definition group_data :: "(group_state \<times> (string, pyval) dict, 'a) py \<Rightarrow> (group_state, 'a) py" where
  "group_data body s =
     (case group_read s of
        (Inl err, s1) \<Rightarrow> (Inl UnboundLocalError, s1)
      | (Inr data, s1) \<Rightarrow>
          (case body (s1, data) of
             (r, (s2, data')) \<Rightarrow>
               (case group_write data' s2 of
                  (Inl err, s3) \<Rightarrow> (Inl err, s3)
                | (Inr _, s3) \<Rightarrow> (r, s3))))"

section \<open>The registry of groups\<close>

type_synonym groups_state = "telemetry_env \<times> group registry"

definition create_group :: "string \<Rightarrow> (groups_state, int) py" where
  "create_group name =
     zoom snd (\<lambda>r s. (fst s, r))
       (bindp (get_id name) (\<lambda>i.
        bindp (assertp (i = None)) (\<lambda>_.
        bindp (reg_add name \<lparr>g_name = name, g_channels = []\<rparr>) (\<lambda>(ok, new_id).
        bindp (assertp ok) (\<lambda>_. ret new_id)))))"

text \<open>A method of the registered group object.\<close>

definition on_group :: "int \<Rightarrow> (group_state, 'a) py \<Rightarrow> (groups_state, 'a) py" where
  "on_group i m =
     bindp (zoom snd (\<lambda>r s. (fst s, r)) (get_item i)) (\<lambda>g.
     case g of
       None \<Rightarrow> raise AssertionError
     | Some group_inst \<Rightarrow>
         zoom (\<lambda>s. (fst s, group_inst))
           (\<lambda>(e, g') s. (e, (snd s)\<lparr>reg_items := dict_set i (Some g') (reg_items (snd s))\<rparr>)) m)"

definition groups_add_channel :: "int \<Rightarrow> string \<Rightarrow> primitive \<Rightarrow> pyfloat \<Rightarrow> bool \<Rightarrow> (groups_state, unit) py" where
  "groups_add_channel i name inst rate track_change =
     on_group i (bindp (group_add_channel name inst rate track_change) (\<lambda>_. ret ()))"

definition groups_add_enum_channel :: "int \<Rightarrow> string \<Rightarrow> string \<Rightarrow> pyfloat \<Rightarrow> bool \<Rightarrow> (groups_state, unit) py" where
  "groups_add_enum_channel i name enum_name rate track_change =
     on_group i (bindp (group_add_enum_channel name enum_name rate track_change) (\<lambda>_. ret ()))"

definition groups_group :: "int \<Rightarrow> (group_state \<times> (string, pyval) dict, 'a) py \<Rightarrow> (groups_state, 'a) py" where
  "groups_group i body = on_group i (group_data body)"

section \<open>Stores of values\<close>

locale value_store =
  fixes put :: "'k \<Rightarrow> 'v \<Rightarrow> ('s, bool) py"
    and get :: "'k \<Rightarrow> ('s, 'v) py"
    and val :: "'s \<Rightarrow> 'k \<Rightarrow> 'v option"
    and fits :: "'s \<Rightarrow> 'k \<Rightarrow> 'v \<Rightarrow> bool"
    and good :: "'s \<Rightarrow> bool"
  assumes get_val: "good s \<Longrightarrow> val s k = Some v \<Longrightarrow> get k s = (Inr v, s)"
    and put_val: "good s \<Longrightarrow> fits s k v \<Longrightarrow>
      \<exists>s'. put k v s = (Inr True, s') \<and> good s' \<and> val s' = (val s)(k \<mapsto> v) \<and> fits s' = fits s"
begin

lemma read_all:
  assumes "good s" and "\<forall>k \<in> set ks. val s k \<noteq> None"
  shows "map_each get ks s = (Inr (map (\<lambda>k. the (val s k)) ks), s)"
  using assms by (induction ks) (auto simp: get_val)

lemma write_all:
  assumes "good s" and "\<forall>(k, v) \<in> set kvs. fits s k v"
  shows "\<exists>s'. for_each (\<lambda>x. bindp (put (fst x) (snd x)) (\<lambda>_. ret ())) kvs s = (Inr (), s') \<and> good s' \<and>
    val s' = val s ++ map_of (rev kvs) \<and> fits s' = fits s"
  using assms
proof (induction kvs arbitrary: s)
  case (Cons kv kvs)
  obtain k v where kv: "kv = (k, v)" by (cases kv)
  obtain s1 where s1: "put k v s = (Inr True, s1)" "good s1" "val s1 = (val s)(k \<mapsto> v)" "fits s1 = fits s"
    using put_val [OF Cons.prems(1), of k v] Cons.prems(2) kv by auto
  have rest: "\<forall>(k, v) \<in> set kvs. fits s1 k v" using Cons.prems(2) s1(4) by simp
  obtain s2 where "for_each (\<lambda>x. bindp (put (fst x) (snd x)) (\<lambda>_. ret ())) kvs s1 = (Inr (), s2)" "good s2"
      "val s2 = val s1 ++ map_of (rev kvs)" "fits s2 = fits s1"
    using Cons.IH [OF s1(2) rest] by blast
  moreover have "for_each (\<lambda>x. bindp (put (fst x) (snd x)) (\<lambda>_. ret ())) (kv # kvs) s =
      for_each (\<lambda>x. bindp (put (fst x) (snd x)) (\<lambda>_. ret ())) kvs s1"
    using s1(1) kv by simp
  moreover have "val s ++ map_of (rev (kv # kvs)) = val s1 ++ map_of (rev kvs)"
    using s1(3) kv by (simp add: map_of_append map_add_upd_left)
  ultimately show ?case using s1(4) by metis
qed simp

end

section \<open>The environment as a store\<close>

definition chan_ref :: "channel_env \<Rightarrow> int \<Rightarrow> nat option" where
  "chan_ref e i = (case dict_get (reg_items (env_registry e)) i of Some v \<Rightarrow> v | None \<Rightarrow> None)"

text \<open>Registered channels are different objects of the environment.\<close>

definition env_good :: "channel_env \<Rightarrow> bool" where
  "env_good e \<longleftrightarrow> (\<forall>i r. chan_ref e i = Some r \<longrightarrow> r < length (env_objects e)) \<and>
     (\<forall>i j r. chan_ref e i = Some r \<and> chan_ref e j = Some r \<longrightarrow> i = j)"

definition chan_of :: "channel_env \<Rightarrow> int \<Rightarrow> channel option" where
  "chan_of e i = map_option (chan_at e) (chan_ref e i)"

definition enum_of :: "telemetry_env \<Rightarrow> int \<Rightarrow> user_enum option" where
  "enum_of t i =
     (case dict_get (te_enum_channels t) i of
        None \<Rightarrow> None
      | Some ty \<Rightarrow> (case dict_get (reg_items (er_reg (te_enums t))) ty of Some u \<Rightarrow> u | None \<Rightarrow> None))"

definition t_good :: "telemetry_env \<Rightarrow> bool" where
  "t_good t \<longleftrightarrow> env_good (te_chan t)"

text \<open>
  The value of a channel: what it holds, or for an enumeration channel the name of what it holds.
  A channel is looked at in one of the two ways only.
\<close>

fun t_val :: "telemetry_env \<Rightarrow> int \<times> bool \<Rightarrow> pyval option" where
  "t_val t (i, False) = (if enum_of t i = None then map_option tp_data (chan_of (te_chan t) i) else None)"
| "t_val t (i, True) =
     (case (enum_of t i, map_option tp_data (chan_of (te_chan t) i)) of
        (Some u, Some (VInt n)) \<Rightarrow> (case get_str n u of Inr s \<Rightarrow> Some (VStr s) | Inl _ \<Rightarrow> None)
      | _ \<Rightarrow> None)"

fun t_fits :: "telemetry_env \<Rightarrow> int \<times> bool \<Rightarrow> pyval \<Rightarrow> bool" where
  "t_fits t (i, False) v \<longleftrightarrow> enum_of t i = None \<and>
     (case chan_of (te_chan t) i of None \<Rightarrow> False | Some c \<Rightarrow> holds (tp_type c) v)"
| "t_fits t (i, True) v \<longleftrightarrow>
     (case (enum_of t i, chan_of (te_chan t) i, v) of
        (Some u, Some c, VStr s) \<Rightarrow>
          (case dict_get (ue_strings u) s of
             Some (Some n) \<Rightarrow> str_lower s = s \<and> get_str n u = Inr s \<and> holds (tp_type c) (VInt n)
           | _ \<Rightarrow> False)
      | _ \<Rightarrow> False)"

lemma get_item_ref: "chan_ref e i = Some r \<Longrightarrow> get_item i (env_registry e) = (Inr (Some r), env_registry e)"
  by (simp add: chan_ref_def get_item_def split: option.splits)

lemma get_channel_ref: "chan_ref e i = Some r \<Longrightarrow> get_channel i e = (Inr r, e)"
  by (simp add: get_channel_def get_item_ref)

lemma chan_ofE:
  assumes "chan_of e i = Some c"
  obtains r where "chan_ref e i = Some r" and "c = chan_at e r"
  using assms by (auto simp: chan_of_def)

lemma env_get_value_run: "chan_of e i = Some c \<Longrightarrow> env_get_value i e = (Inr (tp_data c), e)"
  by (auto simp: env_get_value_def get_channel_ref tp_get_def elim!: chan_ofE)

lemma convert_held: "holds p v \<Longrightarrow> convert (py_type_of (prim_value p)) v = v"
  by (cases p; cases v) (auto simp: INTEGER_PRIMITIVES_def int_primitive_def other_primitive_def)

text \<open>Replacing the object behind an identifier changes that channel and no other.\<close>

lemma chan_of_update:
  assumes "env_good e" and "chan_ref e i = Some r"
  shows "env_good (e\<lparr>env_objects := (env_objects e)[r := c], env_events := q\<rparr>)"
    and "chan_of (e\<lparr>env_objects := (env_objects e)[r := c], env_events := q\<rparr>) = (chan_of e)(i \<mapsto> c)"
proof -
  let ?e = "e\<lparr>env_objects := (env_objects e)[r := c], env_events := q\<rparr>"
  have len: "r < length (env_objects e)" using assms by (simp add: env_good_def)
  have ref: "chan_ref ?e = chan_ref e" by (simp add: chan_ref_def fun_eq_iff)
  show "env_good ?e" using assms(1) unfolding env_good_def ref by simp
  show "chan_of ?e = (chan_of e)(i \<mapsto> c)"
  proof
    fix j
    show "chan_of ?e j = ((chan_of e)(i \<mapsto> c)) j"
    proof (cases "j = i")
      case True
      then show ?thesis unfolding chan_of_def ref using assms(2) len by (simp add: chan_at_def)
    next
      case False
      then have "chan_ref e j \<noteq> Some r" using assms by (auto simp: env_good_def)
      with False show ?thesis unfolding chan_of_def ref by (cases "chan_ref e j") (simp_all add: chan_at_def)
    qed
  qed
qed

lemma set_now_run:
  assumes "env_good e" and "chan_of e i = Some c" and "holds (tp_type c) v"
  obtains e' c' where "set_now i v e = (Inr True, e')" and "env_good e'"
    and "env_registry e' = env_registry e" and "env_metrics e' = env_metrics e"
    and "chan_of e' = (chan_of e)(i \<mapsto> c')" and "tp_data c' = v" and "tp_type c' = tp_type c"
proof -
  obtain r where r: "chan_ref e i = Some r" "c = chan_at e r" by (rule chan_ofE [OF assms(2)])
  obtain cb where set: "tp_set v (Some (get_time e)) c =
      (True, c\<lparr>tp_data := v, tp_last_set := get_time e\<rparr>, cb)"
    using holds_accepts [OF assms(3)] convert_held [OF assms(3)] by (simp add: tp_set_run)
  let ?c = "c\<lparr>tp_data := v, tp_last_set := get_time e\<rparr>"
  let ?e = "e\<lparr>env_objects := (env_objects e)[r := ?c], env_events := run_changed_cb c cb (env_events e)\<rparr>"
  have "set_now i v e = (Inr True, ?e)"
    using r set by (simp add: set_now_def get_channel_ref on_channel_def zoom_def ch_set_def)
  then show thesis using chan_of_update [OF assms(1) r(1)] by (intro that [of ?e ?c]) simp_all
qed

text \<open>A method of a registered enumeration that leaves it as it is leaves the environment as it is.\<close>

lemma on_enum_run:
  assumes "dict_get (te_enum_channels t) i = Some ty"
    and "dict_get (reg_items (er_reg (te_enums t))) ty = Some (Some u)" and "m u = (r, u)"
  shows "on_enum ty m t = (r, t)"
  using assms(2,3) by (simp add: on_enum_def get_item_def zoom_def bindp_def update_triv)

lemma enum_ofE:
  assumes "enum_of t i = Some u"
  obtains ty where "dict_get (te_enum_channels t) i = Some ty"
    and "dict_get (reg_items (er_reg (te_enums t))) ty = Some (Some u)"
  using assms by (auto simp: enum_of_def split: option.splits)

lemma get_value_known:
  "dict_get (ue_strings u) s = Some (Some n) \<Longrightarrow> str_lower s = s \<Longrightarrow> get_value s u = (Inr n, u)"
  by (simp add: get_value_def lookup_string_def)

lemma enum_of_chan [simp]: "enum_of (t\<lparr>te_chan := e\<rparr>) = enum_of t"
  by (simp add: enum_of_def fun_eq_iff split: option.split)

lemma get_chan_value_run:
  assumes "t_val t k = Some v"
  shows "get_chan_value k t = (Inr v, t)"
proof (cases k)
  case (Pair i b)
  show ?thesis
  proof (cases b)
    case False
    with assms Pair show ?thesis
      by (auto simp: get_chan_value_def zoom_def env_get_value_run split: if_splits)
  next
    case True
    then obtain u c n s where u: "enum_of t i = Some u" "chan_of (te_chan t) i = Some c" "tp_data c = VInt n"
        "get_str n u = Inr s" "v = VStr s"
      using assms Pair by (auto split: option.splits pyval.splits sum.splits)
    obtain ty where ty: "dict_get (te_enum_channels t) i = Some ty"
        "dict_get (reg_items (er_reg (te_enums t))) ty = Some (Some u)"
      by (rule enum_ofE [OF u(1)])
    have "get_enum_value i t = (Inr s, t)"
      using ty u on_enum_run [OF ty, of "ret ()"] on_enum_run [OF ty, of "\<lambda>u. (get_str n u, u)"]
      by (simp add: get_enum_value_def enum_channel_type_def enum_str_def zoom_def bindp_def env_get_value_run)
    with True Pair u(5) show ?thesis by (simp add: get_chan_value_def)
  qed
qed

lemma t_val_chan:
  assumes "chan_of e' = (chan_of (te_chan t))(i \<mapsto> c)"
  shows "enum_of t i = None \<Longrightarrow> t_val (t\<lparr>te_chan := e'\<rparr>) = (t_val t)((i, False) \<mapsto> tp_data c)"
    and "enum_of t i = Some u \<Longrightarrow> tp_data c = VInt n \<Longrightarrow> get_str n u = Inr s \<Longrightarrow>
      t_val (t\<lparr>te_chan := e'\<rparr>) = (t_val t)((i, True) \<mapsto> VStr s)"
proof -
  have other: "t_val (t\<lparr>te_chan := e'\<rparr>) (j, b) = t_val t (j, b)" if "j \<noteq> i" for j b
    using that assms by (cases b) simp_all
  show "t_val (t\<lparr>te_chan := e'\<rparr>) = (t_val t)((i, False) \<mapsto> tp_data c)" if "enum_of t i = None"
  proof (rule ext)
    fix k show "t_val (t\<lparr>te_chan := e'\<rparr>) k = ((t_val t)((i, False) \<mapsto> tp_data c)) k"
      using that assms other by (cases k; cases "snd k"; cases "fst k = i") auto
  qed
  show "t_val (t\<lparr>te_chan := e'\<rparr>) = (t_val t)((i, True) \<mapsto> VStr s)"
    if "enum_of t i = Some u" "tp_data c = VInt n" "get_str n u = Inr s"
  proof (rule ext)
    fix k show "t_val (t\<lparr>te_chan := e'\<rparr>) k = ((t_val t)((i, True) \<mapsto> VStr s)) k"
      using that assms other by (cases k; cases "snd k"; cases "fst k = i") auto
  qed
qed

lemma t_fits_chan:
  assumes "chan_of e' = (chan_of (te_chan t))(i \<mapsto> c')" and "chan_of (te_chan t) i = Some c" and "tp_type c' = tp_type c"
  shows "t_fits (t\<lparr>te_chan := e'\<rparr>) = t_fits t"
proof (intro ext)
  fix k v show "t_fits (t\<lparr>te_chan := e'\<rparr>) k v = t_fits t k v"
    using assms by (cases k; cases "snd k"; cases "fst k = i") (auto split: option.splits pyval.splits)
qed

lemma put_chan_value_run:
  assumes "t_good t" and "t_fits t k v"
  shows "\<exists>t'. put_chan_value k v t = (Inr True, t') \<and> t_good t' \<and> t_val t' = (t_val t)(k \<mapsto> v) \<and> t_fits t' = t_fits t"
proof (cases k)
  case (Pair i b)
  have good: "env_good (te_chan t)" using assms(1) by (simp add: t_good_def)
  show ?thesis
  proof (cases b)
    case False
    then obtain c where c: "enum_of t i = None" "chan_of (te_chan t) i = Some c" "holds (tp_type c) v"
      using assms(2) Pair by (auto split: option.splits)
    obtain e' c' where e': "set_now i v (te_chan t) = (Inr True, e')" "env_good e'"
        "chan_of e' = (chan_of (te_chan t))(i \<mapsto> c')" "tp_data c' = v" "tp_type c' = tp_type c"
      by (rule set_now_run [OF good c(2,3)])
    have "put_chan_value k v t = (Inr True, t\<lparr>te_chan := e'\<rparr>)"
      using e'(1) False Pair by (simp add: put_chan_value_def)
    then show ?thesis
      using False Pair e'(2,4) t_val_chan(1) [OF e'(3) c(1)] t_fits_chan [OF e'(3) c(2) e'(5)]
      by (intro exI [of _ "t\<lparr>te_chan := e'\<rparr>"]) (simp add: t_good_def)
  next
    case True
    then obtain u c s n where u: "enum_of t i = Some u" "chan_of (te_chan t) i = Some c" "v = VStr s"
        "dict_get (ue_strings u) s = Some (Some n)" "str_lower s = s" "get_str n u = Inr s" "holds (tp_type c) (VInt n)"
      using assms(2) Pair by (auto split: option.splits pyval.splits)
    obtain ty where ty: "dict_get (te_enum_channels t) i = Some ty"
        "dict_get (reg_items (er_reg (te_enums t))) ty = Some (Some u)"
      by (rule enum_ofE [OF u(1)])
    obtain e' c' where e': "set_now i (VInt n) (te_chan t) = (Inr True, e')" "env_good e'"
        "chan_of e' = (chan_of (te_chan t))(i \<mapsto> c')" "tp_data c' = VInt n" "tp_type c' = tp_type c"
      by (rule set_now_run [OF good u(2,7)])
    have "put_chan_value k v t = (Inr True, t\<lparr>te_chan := e'\<rparr>)"
      using e'(1) True Pair u(3) ty(1) on_enum_run [OF ty, of "get_value s"] get_value_known [OF u(4,5)]
      by (simp add: put_chan_value_def set_enum_now_def enum_channel_type_def)
    then show ?thesis
      using True Pair e'(2) u(3) t_val_chan(2) [OF e'(3) u(1) e'(4) u(6)] t_fits_chan [OF e'(3) u(2) e'(5)]
      by (intro exI [of _ "t\<lparr>te_chan := e'\<rparr>"]) (simp add: t_good_def)
  qed
qed

interpretation env: value_store put_chan_value get_chan_value t_val t_fits t_good
  by unfold_locales (simp_all add: get_chan_value_run put_chan_value_run)

section \<open>Synchronization\<close>

definition lock_by :: "int \<Rightarrow> telemetry_env \<Rightarrow> telemetry_env" where
  "lock_by n t = t\<lparr>te_chan := (te_chan t)\<lparr>env_lock := env_lock (te_chan t) + n\<rparr>\<rparr>"

lemma lock_by_back [simp]: "lock_by (-1) (lock_by 1 t) = t"
  by (simp add: lock_by_def)

lemma chan_of_lock [simp]: "chan_of (e\<lparr>env_lock := n\<rparr>) = chan_of e"
proof -
  have "chan_at (e\<lparr>env_lock := n\<rparr>) = chan_at e" by (simp add: chan_at_def fun_eq_iff)
  then show ?thesis by (intro ext) (simp add: chan_of_def chan_ref_def)
qed

lemma lock_by_view [simp]:
  "t_good (lock_by n t) = t_good t" "t_val (lock_by n t) = t_val t" "t_fits (lock_by n t) = t_fits t"
proof -
  show "t_good (lock_by n t) = t_good t"
    by (simp add: lock_by_def t_good_def env_good_def chan_ref_def)
  show "t_val (lock_by n t) = t_val t"
  proof
    fix k show "t_val (lock_by n t) k = t_val t k" by (cases k; cases "snd k") (simp_all add: lock_by_def)
  qed
  show "t_fits (lock_by n t) = t_fits t"
  proof (intro ext)
    fix k v show "t_fits (lock_by n t) k v = t_fits t k v" by (cases k; cases "snd k") (simp_all add: lock_by_def)
  qed
qed

lemma te_with_lock_run: "m (lock_by 1 t) = (Inr a, t') \<Longrightarrow> te_with_lock m t = (Inr a, lock_by (-1) t')"
  by (simp add: te_with_lock_def lock_by_def)

definition group_keys :: "group \<Rightarrow> (int \<times> bool) list" where
  "group_keys g = map (\<lambda>c. chan_key (snd c)) (g_channels g)"

definition group_values :: "telemetry_env \<Rightarrow> group \<Rightarrow> (string, pyval) dict" where
  "group_values t g = map (\<lambda>(n, c). (n, the (t_val t (chan_key c)))) (g_channels g)"

text \<open>A group whose channels exist in the environment, each under one name.\<close>

definition group_ok :: "telemetry_env \<Rightarrow> group \<Rightarrow> bool" where
  "group_ok t g \<longleftrightarrow> t_good t \<and> distinct (dict_keys (g_channels g)) \<and> distinct (group_keys g) \<and>
     (\<forall>k \<in> set (group_keys g). t_val t k \<noteq> None)"

lemma group_read_run:
  assumes "group_ok t g"
  shows "group_read (t, g) = (Inr (group_values t g), (t, g))"
proof -
  have "map_each get_chan_value (group_keys g) (lock_by 1 t) =
      (Inr (map (\<lambda>k. the (t_val t k)) (group_keys g)), lock_by 1 t)"
    using env.read_all [of "lock_by 1 t" "group_keys g"] assms by (simp add: group_ok_def)
  moreover have "map_each (\<lambda>c. get_chan_value (chan_key (snd c))) cs = map_each get_chan_value (map (\<lambda>c. chan_key (snd c)) cs)" for cs :: "(string, group_chan) dict"
    by (induction cs) simp_all
  ultimately have "te_with_lock (map_each (\<lambda>c. get_chan_value (chan_key (snd c))) (g_channels g)) t =
      (Inr (map (\<lambda>k. the (t_val t k)) (group_keys g)), t)"
    using te_with_lock_run [of _ t] by (force simp: group_keys_def)
  moreover have "zip (map fst cs) (map (\<lambda>k. the (t_val t k)) (map (\<lambda>c. chan_key (snd c)) cs)) =
      map (\<lambda>(n, c). (n, the (t_val t (chan_key c)))) cs" for cs
    by (induction cs) auto
  ultimately show ?thesis
    by (simp add: group_read_def zoom_def bindp_def group_values_def group_keys_def)
qed

lemma write_values_eq:
  assumes "\<forall>x \<in> set vals. dict_get channels (fst x) \<noteq> None"
  shows "for_each (\<lambda>(name, value).
       (case dict_get channels name of
          None \<Rightarrow> raise AssertionError
        | Some chan \<Rightarrow> bindp (put_chan_value (chan_key chan) value) (\<lambda>_. ret ()))) vals =
     for_each (\<lambda>x. bindp (put_chan_value (fst x) (snd x)) (\<lambda>_. ret ()))
       (map (\<lambda>(n, v). (chan_key (the (dict_get channels n)), v)) vals)"
  using assms
proof (induction vals)
  case (Cons x xs)
  obtain n v where x: "x = (n, v)" by (cases x)
  obtain c where c: "dict_get channels n = Some c" using Cons.prems x by auto
  from Cons x c show ?case by (simp del: ret_apply)
qed simp

lemma group_write_run:
  assumes "t_good t" and "\<forall>(n, v) \<in> set vals. \<exists>c. dict_get (g_channels g) n = Some c \<and> t_fits t (chan_key c) v"
  obtains t' where "group_write vals (t, g) = (Inr (), (t', g))" and "t_good t'"
    and "t_val t' = t_val t ++ map_of (rev (map (\<lambda>(n, v). (chan_key (the (dict_get (g_channels g) n)), v)) vals))"
proof -
  let ?kvs = "map (\<lambda>(n, v). (chan_key (the (dict_get (g_channels g) n)), v)) vals"
  have fits: "\<forall>(k, v) \<in> set ?kvs. t_fits (lock_by 1 t) k v" using assms(2) by fastforce
  have known: "\<forall>x \<in> set vals. dict_get (g_channels g) (fst x) \<noteq> None" using assms(2) by fastforce
  have "t_good (lock_by 1 t)" using assms(1) by simp
  then obtain t1 where t1: "for_each (\<lambda>x. bindp (put_chan_value (fst x) (snd x)) (\<lambda>_. ret ())) ?kvs (lock_by 1 t) = (Inr (), t1)"
      "t_good t1" "t_val t1 = t_val (lock_by 1 t) ++ map_of (rev ?kvs)"
    using env.write_all [OF _ fits] by blast
  have "te_with_lock (for_each (\<lambda>x. bindp (put_chan_value (fst x) (snd x)) (\<lambda>_. ret ())) ?kvs) t =
      (Inr (), lock_by (-1) t1)"
    by (rule te_with_lock_run) (rule t1(1))
  then have "group_write vals (t, g) = (Inr (), (lock_by (-1) t1, g))"
    unfolding write_values_eq [OF known, symmetric] by (simp add: group_write_def)
  with t1 show thesis by (intro that [of "lock_by (-1) t1"]) simp_all
qed

lemma keys_of_names:
  assumes "dict_keys vals = dict_keys cs" and "distinct (dict_keys cs)"
  shows "map (\<lambda>(n, v). (chan_key (the (dict_get cs n)), v)) vals =
    zip (map (\<lambda>c. chan_key (snd c)) cs) (map snd vals)"
proof (rule nth_equalityI)
  have len: "length vals = length cs" using arg_cong [OF assms(1), of length] by simp
  then show "length (map (\<lambda>(n, v). (chan_key (the (dict_get cs n)), v)) vals) =
      length (zip (map (\<lambda>c. chan_key (snd c)) cs) (map snd vals))"
    by simp
  fix i assume "i < length (map (\<lambda>(n, v). (chan_key (the (dict_get cs n)), v)) vals)"
  then have i: "i < length vals" "i < length cs" using len by simp_all
  have "fst (vals ! i) = fst (cs ! i)" using assms(1) i by (metis nth_map)
  moreover have "dict_get cs (fst (cs ! i)) = Some (snd (cs ! i))"
    using assms(2) i(2) by (simp add: map_of_eq_Some_iff)
  ultimately show "map (\<lambda>(n, v). (chan_key (the (dict_get cs n)), v)) vals ! i =
      zip (map (\<lambda>c. chan_key (snd c)) cs) (map snd vals) ! i"
    using i by (simp add: case_prod_unfold)
qed

lemma map_of_rev_zip:
  assumes "distinct ks" and "length ks = length vs" and "i < length ks"
  shows "map_of (rev (zip ks vs)) (ks ! i) = Some (vs ! i)"
proof -
  have "distinct (map fst (rev (zip ks vs)))" using assms by (simp add: rev_map [symmetric])
  moreover have "(ks ! i, vs ! i) \<in> set (rev (zip ks vs))" using assms by (auto simp: set_zip)
  ultimately show ?thesis by (simp add: map_of_eq_Some_iff)
qed

lemma group_values_written:
  assumes "dict_keys vals = dict_keys (g_channels g)" and "distinct (group_keys g)"
    and "t_val t' = m ++ map_of (rev (zip (group_keys g) (map snd vals)))"
  shows "group_values t' g = vals"
proof (rule nth_equalityI)
  have len: "length vals = length (g_channels g)" using arg_cong [OF assms(1), of length] by simp
  then show "length (group_values t' g) = length vals" by (simp add: group_values_def)
  fix i assume "i < length (group_values t' g)"
  then have i: "i < length (g_channels g)" "i < length vals" using len by (simp_all add: group_values_def)
  have "t_val t' (group_keys g ! i) = Some (snd (vals ! i))"
    unfolding assms(3) using map_of_rev_zip [OF assms(2), of "map snd vals" i] i len
    by (simp add: group_keys_def map_add_def)
  moreover have "fst (vals ! i) = fst (g_channels g ! i)" using assms(1) i by (metis nth_map)
  ultimately show "group_values t' g ! i = vals ! i"
    using i by (simp add: group_values_def group_keys_def case_prod_unfold prod_eq_iff)
qed

text \<open>A run of the data context.\<close>

lemma group_data_run:
  assumes "group_ok t g" and "body ((t, g), group_values t g) = (r, ((t, g), vals))"
    and "dict_keys vals = dict_keys (g_channels g)"
    and "\<forall>(n, v) \<in> set vals. \<exists>c. dict_get (g_channels g) n = Some c \<and> t_fits t (chan_key c) v"
  shows "\<exists>t'. group_data body (t, g) = (r, (t', g)) \<and> group_ok t' g \<and>
    group_read (t', g) = (Inr vals, (t', g)) \<and>
    (\<forall>k. k \<notin> set (group_keys g) \<longrightarrow> t_val t' k = t_val t k)"
proof -
  have ok: "t_good t" "distinct (dict_keys (g_channels g))" "distinct (group_keys g)"
    using assms(1) by (simp_all add: group_ok_def)
  obtain t' where t': "group_write vals (t, g) = (Inr (), (t', g))" "t_good t'"
      "t_val t' = t_val t ++ map_of (rev (map (\<lambda>(n, v). (chan_key (the (dict_get (g_channels g) n)), v)) vals))"
    by (rule group_write_run [OF ok(1) assms(4)])
  have val: "t_val t' = t_val t ++ map_of (rev (zip (group_keys g) (map snd vals)))"
    unfolding t'(3) keys_of_names [OF assms(3) ok(2)] by (simp add: group_keys_def)
  have out: "t_val t' k = t_val t k" if "k \<notin> set (group_keys g)" for k
  proof -
    have "map_of (rev (zip (group_keys g) (map snd vals))) k = None"
      using that by (auto simp: map_of_eq_None_iff dest: set_zip_leftD)
    then show ?thesis by (simp add: val map_add_def)
  qed
  have "t_val t' k \<noteq> None" if "k \<in> set (group_keys g)" for k
    using that assms(1) by (auto simp: val group_ok_def map_add_def split: option.split)
  with t'(2) ok have ok': "group_ok t' g" by (simp add: group_ok_def)
  have "group_read (t', g) = (Inr vals, (t', g))"
    using group_read_run [OF ok'] group_values_written [OF assms(3) ok(3) val] by simp
  moreover have "group_data body (t, g) = (r, (t', g))"
    using group_read_run [OF assms(1)] assms(2) t'(1) by (simp add: group_data_def)
  ultimately show ?thesis using ok' out by blast
qed

section \<open>Properties\<close>

text \<open>
  Property C17: inside the data context of a group, code sees the current values of exactly the group's
  channels, under their names; what it leaves there (values the channels can hold) is afterwards
  what the group reads, and no channel outside the group has changed. This holds for plain and for
  enumeration channels, and the exception or result of the code is passed on.
\<close>

theorem group_synchronized:
  assumes "group_ok t g" and "body ((t, g), group_values t g) = (r, ((t, g), vals))"
    and "dict_keys vals = dict_keys (g_channels g)"
    and "\<forall>(n, v) \<in> set vals. \<exists>c. dict_get (g_channels g) n = Some c \<and> t_fits t (chan_key c) v"
  shows "\<exists>t'. group_data body (t, g) = (r, (t', g)) \<and> group_ok t' g \<and>
    group_read (t', g) = (Inr vals, (t', g)) \<and>
    (\<forall>k. k \<notin> set (group_keys g) \<longrightarrow> t_val t' k = t_val t k)"
  using group_data_run [of t g body r vals] assms by blast

text \<open>An environment with a plain channel and an enumeration channel, and the group of the two.\<close>

definition sample_env :: telemetry_env where
  "sample_env =
     \<lparr>te_chan = \<lparr>env_time = 0, env_lock = 0,
        env_objects = [new_channel ''g.level'' INT16 0 True True False, new_channel ''g.mode'' UINT8 0 False True False],
        env_registry = \<lparr>reg_type_name = ''channels'', reg_items = [(0, Some 0), (1, Some 1)],
          reg_mappings = [(''g.level'', Some 0), (''g.mode'', Some 1)], reg_curr_id = 2\<rparr>,
        env_framer = \<lparr>frm_mtu = 64, frm_timestamps = [], frm_primitives = [], frm_use_crc = True\<rparr>,
        env_channels = [0, 1], env_write_crc = True, env_metrics = None, env_events = [], env_frames = [],
        env_log = []\<rparr>,
      te_enums = \<lparr>er_reg = \<lparr>reg_type_name = ''enums'', reg_items = [(0, Some
          \<lparr>ue_name = ''mode'', ue_mappings = [(0, ''off''), (1, ''on'')], ue_default = ''off'',
           ue_strings = [(''off'', Some 0), (''on'', Some 1)]\<rparr>)],
          reg_mappings = [(''mode'', Some 0)], reg_curr_id = 1\<rparr>, er_global = []\<rparr>,
      te_types = empty_registry ''types'', te_enum_channels = [(1, 0)]\<rparr>"

definition sample_group :: group where
  "sample_group = \<lparr>g_name = ''g'', g_channels =
     [(''level'', \<lparr>gc_id = 0, gc_value = Some (VInt 0), gc_is_enum = False\<rparr>),
      (''mode'', \<lparr>gc_id = 1, gc_value = None, gc_is_enum = True\<rparr>)]\<rparr>"

lemmas sample_defs = sample_env_def sample_group_def chan_ref_def chan_of_def chan_at_def enum_of_def chan_key_def
  new_channel_def new_type_primitive_def type_primitive.defs channel.defs

lemma sample_views:
  "enum_of sample_env 0 = None"
  "enum_of sample_env 1 = Some \<lparr>ue_name = ''mode'', ue_mappings = [(0, ''off''), (1, ''on'')], ue_default = ''off'',
     ue_strings = [(''off'', Some 0), (''on'', Some 1)]\<rparr>"
  "chan_of (te_chan sample_env) 0 = Some (new_channel ''g.level'' INT16 0 True True False)"
  "chan_of (te_chan sample_env) 1 = Some (new_channel ''g.mode'' UINT8 0 False True False)"
  by (simp_all add: sample_defs)

lemma sample_group_ok: "group_ok sample_env sample_group"
  by (simp add: group_ok_def t_good_def env_good_def group_keys_def sample_defs get_str_def dict_item_def default_val_def
      int_primitive_def)

theorem group_synchronized_witness:
  "\<exists>t'. group_data (\<lambda>(s, data). (Inr (), (s, [(''level'', VInt (-5)), (''mode'', VStr ''on'')]))) (sample_env, sample_group) =
      (Inr (), (t', sample_group)) \<and>
    group_read (t', sample_group) = (Inr [(''level'', VInt (-5)), (''mode'', VStr ''on'')], (t', sample_group))"
proof -
  have names: "dict_keys [(''level'', VInt (-5)), (''mode'', VStr ''on'')] = dict_keys (g_channels sample_group)"
    by (simp add: sample_group_def)
  have low: "str_lower ''on'' = ''on''" by (simp add: str_lower_def char_lower_def is_upper_def)
  have "\<forall>(n, v) \<in> set [(''level'', VInt (-5)), (''mode'', VStr ''on'')]. \<exists>c. dict_get (g_channels sample_group) n = Some c \<and>
      t_fits sample_env (chan_key c) v"
    using low
    by (simp add: sample_group_def chan_key_def sample_views get_str_def dict_item_def new_channel_def
        type_primitive.defs channel.defs new_type_primitive_def INTEGER_PRIMITIVES_def integer_can_hold_def
        integer_bounds_def int_primitive_def)
  from group_synchronized [OF sample_group_ok _ names this, of "\<lambda>(s, data). (Inr (), (s, [(''level'', VInt (-5)), (''mode'', VStr ''on'')]))"]
  show ?thesis by auto
qed

end
