(* ===== verification/Daemon_Manager.thy ===== *)
theory Daemon_Manager
  imports Daemon
begin

text \<open>
  The daemon manager (\<open>vtelem/daemon/manager.py\<close>): a table of daemons with the names each depends
  on, and operations on one or all of them, a daemon after those it depends on. Both tables are
  \<open>defaultdict\<close>s that store \<open>None\<close> for a missing name. \<open>perform_stack\<close> is recursive in the source;
  the depth it may reach is its first argument, and running out of it is the interpreter's
  \<open>RecursionError\<close>. What a join of a daemon's thread waits for, and its \<open>inject_stop\<close>, are
  parameters by name.
\<close>

section \<open>State and operations\<close>

record manager =
  mg_lock :: int
  mg_daemons :: "(string, daemon option) dict"
  mg_depends_on :: "(string, string list option) dict"

definition new_manager :: manager where
  "new_manager = \<lparr>mg_lock = 0, mg_daemons = [], mg_depends_on = []\<rparr>"

definition NAME_DENYLIST :: "string list" where
  "NAME_DENYLIST = [''all'']"

definition m_with_lock :: "(manager, 'a) py \<Rightarrow> (manager, 'a) py" where
  "m_with_lock body =
     bindp (modify (\<lambda>m. m\<lparr>mg_lock := mg_lock m + 1\<rparr>)) (\<lambda>_.
     bindp body (\<lambda>r.
     bindp (modify (\<lambda>m. m\<lparr>mg_lock := mg_lock m - 1\<rparr>)) (\<lambda>_. ret r)))"

definition get_daemon :: "string \<Rightarrow> (manager, daemon option) py" where
  "get_daemon name =
     bindp (assertp (name \<notin> set NAME_DENYLIST)) (\<lambda>_.
     bindp (gets (\<lambda>m. dict_get (mg_daemons m) name)) (\<lambda>found.
     case found of
       Some d \<Rightarrow> ret d
     | None \<Rightarrow> bindp (modify (\<lambda>m. m\<lparr>mg_daemons := dict_set name None (mg_daemons m)\<rparr>)) (\<lambda>_. ret None)))"

definition add_daemon :: "daemon \<Rightarrow> string list option \<Rightarrow> (manager, bool) py" where
  "add_daemon daemon depends_on =
     bindp (assertp (d_name daemon \<notin> set NAME_DENYLIST)) (\<lambda>_.
     m_with_lock (
       bindp (gets (\<lambda>m. d_name daemon \<in> set (dict_keys (mg_daemons m)))) (\<lambda>known.
       if known then ret False
       else bindp (modify (\<lambda>m. m\<lparr>mg_daemons := dict_set (d_name daemon) (Some daemon) (mg_daemons m),
                                 mg_depends_on := dict_set (d_name daemon) depends_on (mg_depends_on m)\<rparr>))
              (\<lambda>_. ret True))))"

type_synonym injects = "string \<Rightarrow> (daemon, unit) py option"
type_synonym waits = "string \<Rightarrow> (daemon, unit) py"

definition m_perform :: "injects \<Rightarrow> waits \<Rightarrow> string \<Rightarrow> daemon_operation \<Rightarrow> (manager, bool) py" where
  "m_perform inject wait name operation =
     bindp (gets (\<lambda>m. name \<in> set (dict_keys (mg_daemons m)))) (\<lambda>known.
     if \<not> known then ret False
     else m_with_lock (\<lambda>m.
       case dict_get (mg_daemons m) name of
         Some (Some d) \<Rightarrow>
           (case perform (inject name) (wait name) operation d of
              (r, d') \<Rightarrow> (r, m\<lparr>mg_daemons := dict_set name (Some d') (mg_daemons m)\<rparr>))
       | _ \<Rightarrow> (Inl AttributeError, m)))"

definition m_perform_str :: "injects \<Rightarrow> waits \<Rightarrow> string \<Rightarrow> string \<Rightarrow> (manager, bool) py" where
  "m_perform_str inject wait name operation =
     (case str_to_operation operation of
        None \<Rightarrow> ret False
      | Some action \<Rightarrow> m_perform inject wait name action)"

definition depends_of :: "string \<Rightarrow> (manager, string list option) py" where
  "depends_of name =
     bindp (gets (\<lambda>m. dict_get (mg_depends_on m) name)) (\<lambda>found.
     case found of
       Some ds \<Rightarrow> ret ds
     | None \<Rightarrow> bindp (modify (\<lambda>m. m\<lparr>mg_depends_on := dict_set name None (mg_depends_on m)\<rparr>)) (\<lambda>_. ret None))"

text \<open>
  The list is popped at its end, and a daemon that has to wait goes to its front, behind the
  ones it waits for.
\<close>

fun perform_stack :: "nat \<Rightarrow> injects \<Rightarrow> waits \<Rightarrow> string list \<Rightarrow> string list \<Rightarrow> (string, bool) dict \<Rightarrow>
    daemon_operation \<Rightarrow> (manager, string list \<times> (string, bool) dict) py" where
  "perform_stack 0 inject wait name_stack executed results operation = raise RecursionError"
| "perform_stack (Suc n) inject wait name_stack executed results operation =
     (if name_stack = [] then ret (executed, results)
      else
        let current = List.last name_stack; rest = butlast name_stack
        in if current \<in> set executed
           then perform_stack n inject wait rest executed results operation
           else bindp (depends_of current) (\<lambda>curr_deps.
             let to_execute = filter (\<lambda>dep. dep \<notin> set executed)
                                (case curr_deps of None \<Rightarrow> [] | Some ds \<Rightarrow> ds)
             in if to_execute \<noteq> []
                then perform_stack n inject wait (to_execute @ [current] @ rest) executed results operation
                else bindp (m_perform inject wait current operation) (\<lambda>r.
                  perform_stack n inject wait rest (executed @ [current])
                    (dict_set current r results) operation)))"

definition perform_all :: "nat \<Rightarrow> injects \<Rightarrow> waits \<Rightarrow> daemon_operation \<Rightarrow> (manager, bool) py" where
  "perform_all limit inject wait operation =
     m_with_lock (
       bindp (gets (\<lambda>m. dict_keys (mg_daemons m))) (\<lambda>names.
       bindp (perform_stack limit inject wait names [] [] operation) (\<lambda>(_, results).
       ret (length (filter (\<lambda>(_, result). \<not> result) results) = 0))))"

definition perform_str_all :: "nat \<Rightarrow> injects \<Rightarrow> waits \<Rightarrow> string \<Rightarrow> (manager, bool) py" where
  "perform_str_all limit inject wait operation =
     (case str_to_operation operation of
        None \<Rightarrow> ret False
      | Some action \<Rightarrow> perform_all limit inject wait action)"

text \<open>\<open>states()\<close>, with the states as strings.\<close>

definition daemon_states :: "(manager, (string, string) dict) py" where
  "daemon_states =
     m_with_lock (
       bindp (gets mg_daemons) (\<lambda>ds.
       bindp (map_each (\<lambda>(name, d). case d of
           None \<Rightarrow> raise AttributeError
         | Some d \<Rightarrow> ret (name, get_state_str d)) ds) (\<lambda>pairs.
       ret (fold (\<lambda>(n, v). dict_set n v) pairs []))))"

section \<open>The order of execution\<close>

text \<open>The names a daemon waits for, and that each name of a list comes after the ones it waits for.\<close>

definition deps :: "manager \<Rightarrow> string \<Rightarrow> string list" where
  "deps m name = (case dict_get (mg_depends_on m) name of Some (Some ds) \<Rightarrow> ds | _ \<Rightarrow> [])"

definition in_order :: "(string \<Rightarrow> string list) \<Rightarrow> string list \<Rightarrow> bool" where
  "in_order D xs \<longleftrightarrow> distinct xs \<and> (\<forall>i < length xs. set (D (xs ! i)) \<subseteq> set (take i xs))"

text \<open>Every name that some daemon waits for.\<close>

definition dep_names :: "manager \<Rightarrow> string set" where
  "dep_names m = (\<Union>y. set (deps m y))"

lemma dep_names_cong: "deps m' = deps m \<Longrightarrow> dep_names m' = dep_names m"
  by (simp add: dep_names_def)

lemma waiting_names: "set (filter P (deps m y)) \<subseteq> dep_names m"
  by (auto simp: dep_names_def)

lemma finite_dep_names: "finite (dep_names m)"
proof (rule finite_subset)
  let ?deps = "\<lambda>entry. set (case snd entry of None \<Rightarrow> [] | Some ds \<Rightarrow> ds)"
  show "dep_names m \<subseteq> \<Union> (?deps ` set (mg_depends_on m))"
  proof
    fix d
    assume "d \<in> dep_names m"
    then obtain y ds where "dict_get (mg_depends_on m) y = Some (Some ds)" and d: "d \<in> set ds"
      by (auto simp: dep_names_def deps_def split: option.splits dest!: sym [of "Some _"])
    then have "(y, Some ds) \<in> set (mg_depends_on m)" by (simp add: map_of_SomeD)
    then show "d \<in> \<Union> (?deps ` set (mg_depends_on m))" by (rule UN_I) (simp add: d)
  qed
  show "finite (\<Union> (?deps ` set (mg_depends_on m)))" by (intro finite_UN_I finite_set)
qed

lemma in_order_Nil [simp]: "in_order D []"
  by (simp add: in_order_def)

lemma in_order_snoc:
  "in_order D xs \<Longrightarrow> x \<notin> set xs \<Longrightarrow> set (D x) \<subseteq> set xs \<Longrightarrow> in_order D (xs @ [x])"
  by (auto simp: in_order_def nth_append less_Suc_eq)

lemma depends_of_run:
  "\<exists>m' ds. depends_of name m = (Inr ds, m') \<and> (case ds of None \<Rightarrow> [] | Some ds \<Rightarrow> ds) = deps m name \<and>
     deps m' = deps m \<and> mg_daemons m' = mg_daemons m \<and> mg_lock m' = mg_lock m"
  by (cases "dict_get (mg_depends_on m) name") (auto simp: depends_of_def deps_def fun_eq_iff)

lemma m_perform_deps: "m_perform inject wait name op m = (Inr b, m') \<Longrightarrow> deps m' = deps m"
  by (auto simp: m_perform_def m_with_lock_def deps_def fun_eq_iff elim!: bindp_InrE
      split: if_splits option.splits prod.splits)

lemma perform_stack_order:
  assumes "perform_stack n inject wait stack ex res op m = (Inr (ex', res'), m')"
    and "in_order (deps m) ex" and "dict_keys res = ex"
  shows "in_order (deps m) ex' \<and> set ex \<union> set stack \<subseteq> set ex' \<and> dict_keys res' = ex'"
  using assms
proof (induction n arbitrary: stack ex res m)
  case 0
  then show ?case by simp
next
  case (Suc n)
  show ?case
  proof (cases stack rule: rev_cases)
    case Nil
    with Suc.prems show ?thesis by simp
  next
    case (snoc st c)
    show ?thesis
    proof (cases "c \<in> set ex")
      case True
      with Suc.prems(1) snoc have "perform_stack n inject wait st ex res op m = (Inr (ex', res'), m')"
        by simp
      from Suc.IH [OF this Suc.prems(2,3)] True snoc show ?thesis by auto
    next
      case new: False
      obtain ds m1 where ds: "depends_of c m = (Inr ds, m1)"
          "(case ds of None \<Rightarrow> [] | Some ds \<Rightarrow> ds) = deps m c" and m1: "deps m1 = deps m"
        using depends_of_run [of c m] by blast
      define te where "te = filter (\<lambda>d. d \<notin> set ex) (deps m c)"
      show ?thesis
      proof (cases "te = []")
        case False
        with Suc.prems(1) snoc new ds
        have "perform_stack n inject wait (te @ [c] @ st) ex res op m1 = (Inr (ex', res'), m')"
          by (simp add: te_def Let_def)
        from Suc.IH [OF this] Suc.prems(2,3) m1 snoc show ?thesis by simp
      next
        case True
        with Suc.prems(1) snoc new ds obtain b m2
          where b: "m_perform inject wait c op m1 = (Inr b, m2)"
            and rec: "perform_stack n inject wait st (ex @ [c]) (dict_set c b res) op m2 = (Inr (ex', res'), m')"
          by (auto simp: te_def Let_def elim!: bindp_InrE)
        have m2: "deps m2 = deps m" using m_perform_deps [OF b] m1 by simp
        have "set (deps m c) \<subseteq> set ex" using True by (auto simp: te_def filter_empty_conv)
        with Suc.prems(2) new have "in_order (deps m2) (ex @ [c])" by (simp add: m2 in_order_snoc)
        moreover have "dict_keys (dict_set c b res) = ex @ [c]"
          using new Suc.prems(3) by (simp add: dict_keys_set)
        ultimately show ?thesis using Suc.IH [OF rec] m2 snoc by auto
      qed
    qed
  qed
qed

lemma perform_stack_deps: "perform_stack n inject wait stack ex res op m = (Inr r, m') \<Longrightarrow> deps m' = deps m"
proof (induction n arbitrary: stack ex res m)
  case (Suc n)
  obtain ds m1 where "depends_of (List.last stack) m = (Inr ds, m1)" "deps m1 = deps m" using depends_of_run by blast
  with Suc show ?case by (auto simp: Let_def split: if_splits elim!: bindp_InrE dest: m_perform_deps)
qed simp

section \<open>Termination\<close>

text \<open>
  An operation that cannot fail on the managers of a class \<open>good\<close>. Then the recursion ends as soon
  as the dependencies have no cycle, however many daemons have to wait for one another.
\<close>

locale performing =
  fixes inject :: injects and wait :: waits and op :: daemon_operation and good :: "manager \<Rightarrow> bool"
  assumes performed: "good m \<Longrightarrow> \<exists>b m'. m_perform inject wait name op m = (Inr b, m') \<and> good m'"
    and looked_up: "good m \<Longrightarrow> depends_of name m = (r, m') \<Longrightarrow> good m'"
begin

definition runs_to :: "nat \<Rightarrow> (string list \<times> string list \<times> (string, bool) dict \<times> manager) \<Rightarrow>
    (string list \<times> string list \<times> (string, bool) dict \<times> manager) \<Rightarrow> bool" where
  "runs_to j s s' \<longleftrightarrow>
     (case s of (st, ex, res, m) \<Rightarrow> case s' of (st', ex', res', m') \<Rightarrow>
        good m' \<and> deps m' = deps m \<and>
        (\<forall>n. perform_stack (j + n) inject wait st ex res op m =
             perform_stack n inject wait st' ex' res' op m'))"

lemma runs_to_trans: "runs_to j s s' \<Longrightarrow> runs_to k s' s'' \<Longrightarrow> runs_to (j + k) s s''"
  by (cases s; cases s'; cases s'') (simp add: runs_to_def add.assoc)

lemma skip_step: "good m \<Longrightarrow> c \<in> set ex \<Longrightarrow> runs_to 1 (st @ [c], ex, res, m) (st, ex, res, m)"
  by (simp add: runs_to_def)

lemma wait_step:
  assumes "good m" and "c \<notin> set ex" and "filter (\<lambda>d. d \<notin> set ex) (deps m c) \<noteq> []"
  shows "\<exists>m'. runs_to 1 (st @ [c], ex, res, m)
     (filter (\<lambda>d. d \<notin> set ex) (deps m c) @ [c] @ st, ex, res, m')"
proof -
  obtain ds m' where ds: "depends_of c m = (Inr ds, m')" "deps m' = deps m"
      "(case ds of None \<Rightarrow> [] | Some ds \<Rightarrow> ds) = deps m c"
    using depends_of_run [of c m] by blast
  moreover have "good m'" using looked_up [OF assms(1) ds(1)] .
  ultimately show ?thesis using assms(2,3) by (intro exI [of _ m']) (simp add: runs_to_def Let_def)
qed

lemma exec_step:
  assumes "good m" and "c \<notin> set ex" and "filter (\<lambda>d. d \<notin> set ex) (deps m c) = []"
  shows "\<exists>b m'. runs_to 1 (st @ [c], ex, res, m) (st, ex @ [c], dict_set c b res, m')"
proof -
  obtain ds m1 where ds: "depends_of c m = (Inr ds, m1)" "deps m1 = deps m"
      "(case ds of None \<Rightarrow> [] | Some ds \<Rightarrow> ds) = deps m c"
    using depends_of_run [of c m] by blast
  have "good m1" using looked_up [OF assms(1) ds(1)] .
  then obtain b m' where b: "m_perform inject wait c op m1 = (Inr b, m')" "good m'"
    using performed by blast
  moreover have "deps m' = deps m" using m_perform_deps [OF b(1)] ds(2) by simp
  ultimately show ?thesis
    using assms(2,3) ds by (intro exI [of _ b] exI [of _ m']) (simp add: runs_to_def Let_def)
qed

text \<open>While a name is waiting, some name is executed after finitely many steps.\<close>

lemma progress:
  assumes "\<forall>x. \<forall>d \<in> set (deps m x). rank d < (rank x :: nat)"
    and "good m" and "x \<notin> set ex"
  shows "\<exists>j c b st' m'. runs_to j (pre @ x # post, ex, res, m) (st', ex @ [c], dict_set c b res, m') \<and>
     c \<notin> set ex \<and> set st' \<union> {c} \<subseteq> set (pre @ x # post) \<union> dep_names m"
  using assms
proof (induction "rank x" arbitrary: x pre post m rule: less_induct)
  case outer: less
  show ?case
    using outer.prems
  proof (induction post arbitrary: pre m rule: rev_induct)
    case Nil
    let ?te = "filter (\<lambda>d. d \<notin> set ex) (deps m x)"
    show ?case
    proof (cases "?te = []")
      case True
      from exec_step [OF Nil.prems(2,3) this, of pre res] Nil.prems(3) show ?thesis by fastforce
    next
      case False
      then obtain y ys where te: "?te = y # ys" by (cases ?te) auto
      then have y: "y \<in> set (deps m x)" "y \<notin> set ex" by (auto simp: filter_eq_Cons_iff)
      obtain m' where m': "runs_to 1 (pre @ [x], ex, res, m) (?te @ [x] @ pre, ex, res, m')"
        using wait_step [OF Nil.prems(2,3) False] by blast
      then have same: "good m'" "deps m' = deps m" by (simp_all add: runs_to_def)
      have "rank y < rank x" using Nil.prems(1) y by blast
      from outer.hyps [OF this, of m' "[]" "ys @ [x] @ pre"] Nil.prems(1) same y(2)
        dep_names_cong [OF same(2)]
      obtain j c b st' m'' where
        run: "runs_to j (y # ys @ [x] @ pre, ex, res, m') (st', ex @ [c], dict_set c b res, m'')"
        and c: "c \<notin> set ex" "set st' \<union> {c} \<subseteq> set (y # ys @ [x] @ pre) \<union> dep_names m"
        by (simp only: append_Nil same) blast
      have "set (y # ys) \<subseteq> dep_names m" unfolding te [symmetric] by (rule waiting_names)
      with c(2) have "set st' \<union> {c} \<subseteq> set (pre @ [x]) \<union> dep_names m" by auto
      with runs_to_trans [OF m'] run c(1) te show ?thesis by (metis append_Cons)
    qed
  next
    case (snoc z post)
    show ?case
    proof (cases "z \<in> set ex")
      case True
      from skip_step [OF snoc.prems(2) this, of "pre @ x # post" res]
      have skip: "runs_to 1 (pre @ x # post @ [z], ex, res, m) (pre @ x # post, ex, res, m)" by simp
      from snoc.IH [OF snoc.prems, of pre] obtain j c b st' m'' where
        "runs_to j (pre @ x # post, ex, res, m) (st', ex @ [c], dict_set c b res, m'')" "c \<notin> set ex"
        "set st' \<union> {c} \<subseteq> set (pre @ x # post) \<union> dep_names m" by blast
      with runs_to_trans [OF skip] show ?thesis by fastforce
    next
      case new: False
      let ?te = "filter (\<lambda>d. d \<notin> set ex) (deps m z)"
      show ?thesis
      proof (cases "?te = []")
        case True
        from exec_step [OF snoc.prems(2) new this, of "pre @ x # post" res] new show ?thesis by fastforce
      next
        case False
        from wait_step [OF snoc.prems(2) new False, of "pre @ x # post" res] obtain m'
          where m': "runs_to 1 (pre @ x # post @ [z], ex, res, m) ((?te @ z # pre) @ x # post, ex, res, m')"
          by auto
        then have same: "good m'" "deps m' = deps m" by (simp_all add: runs_to_def)
        from snoc.IH [of m' "?te @ z # pre"] snoc.prems same obtain j c b st' m'' where
          run: "runs_to j ((?te @ z # pre) @ x # post, ex, res, m') (st', ex @ [c], dict_set c b res, m'')"
          and c: "c \<notin> set ex" "set st' \<union> {c} \<subseteq> set ((?te @ z # pre) @ x # post) \<union>
            dep_names m"
          by (simp only: same dep_names_cong [OF same(2)]) blast
        have "set ?te \<subseteq> dep_names m" by (rule waiting_names)
        with c(2) have "set st' \<union> {c} \<subseteq> set (pre @ x # post @ [z]) \<union> dep_names m" by auto
        with runs_to_trans [OF m' run] c(1) show ?thesis by blast
      qed
    qed
  qed
qed

lemma pops_executed:
  "good m \<Longrightarrow> set st \<subseteq> set ex \<Longrightarrow> \<exists>j. runs_to j (st, ex, res, m) ([], ex, res, m)"
proof (induction st rule: rev_induct)
  case Nil
  then show ?case by (intro exI [of _ 0]) (simp add: runs_to_def)
next
  case (snoc c st)
  then obtain j where "runs_to j (st, ex, res, m) ([], ex, res, m)" by auto
  with runs_to_trans [OF skip_step [of m c ex st res] this] snoc.prems show ?case by auto
qed

lemma empties:
  assumes "\<forall>x. \<forall>d \<in> set (deps m x). rank d < (rank x :: nat)"
    and "good m" and "finite U" and "set st \<union> dep_names m \<subseteq> U"
  shows "\<exists>j ex' res' m'. runs_to j (st, ex, res, m) ([], ex', res', m')"
  using assms
proof (induction "card (U - set ex)" arbitrary: st ex res m rule: less_induct)
  case less
  show ?case
  proof (cases "set st \<subseteq> set ex")
    case True
    with pops_executed [OF less.prems(2)] show ?thesis by blast
  next
    case False
    then obtain x where x: "x \<in> set st" "x \<notin> set ex" by blast
    then obtain pre post where st: "st = pre @ x # post" by (meson split_list)
    from progress [OF less.prems(1,2) x(2), of pre post res] obtain j c b st' m' where
      run: "runs_to j (st, ex, res, m) (st', ex @ [c], dict_set c b res, m')"
      and c: "c \<notin> set ex" "set st' \<union> {c} \<subseteq> set st \<union> dep_names m"
      unfolding st by blast
    have same: "good m'" "deps m' = deps m" using run by (simp_all add: runs_to_def)
    have "c \<in> U" using c(2) less.prems(4) by blast
    then have "U - set (ex @ [c]) \<subset> U - set ex" using c(1) by auto
    then have "card (U - set (ex @ [c])) < card (U - set ex)"
      using less.prems(3) by (intro psubset_card_mono) auto
    moreover have "set st' \<union> dep_names m' \<subseteq> U"
      using c(2) less.prems(4) dep_names_cong [OF same(2)] by auto
    ultimately obtain k ex' res' m'' where
      "runs_to k (st', ex @ [c], dict_set c b res, m') ([], ex', res', m'')"
      using less.hyps [of "ex @ [c]" m' st' "dict_set c b res"] less.prems(1,3) same by auto
    with runs_to_trans [OF run] show ?thesis by blast
  qed
qed

lemma perform_stack_returns:
  assumes "\<forall>x. \<forall>d \<in> set (deps m x). rank d < (rank x :: nat)" and "good m"
  shows "\<exists>limit ex' res' m'. \<forall>n \<ge> limit.
     perform_stack n inject wait st [] [] op m = (Inr (ex', res'), m') \<and> good m'"
proof -
  obtain j ex' res' m' where run: "runs_to j (st, [], [], m) ([], ex', res', m')"
    using empties [OF assms, of "set st \<union> dep_names m" st "[]" "[]"] finite_dep_names [of m] by auto
  have "perform_stack n inject wait st [] [] op m = (Inr (ex', res'), m')" if "Suc j \<le> n" for n
  proof -
    have "n = j + Suc (n - Suc j)" using that by simp
    then obtain k where "n = j + Suc k" ..
    then have "perform_stack n inject wait st [] [] op m =
        perform_stack (Suc k) inject wait [] ex' res' op m'"
      using run unfolding runs_to_def prod.case by blast
    then show ?thesis by simp
  qed
  moreover have "good m'" using run by (simp add: runs_to_def)
  ultimately show ?thesis by blast
qed

end

section \<open>An operation on every daemon\<close>

text \<open>
  An operation that returns on every daemon of a class \<open>good\<close> and keeps it in the class, whatever the
  daemon does when it is told to stop and while it is waited for.
\<close>

locale performing_each =
  fixes inject :: injects and wait :: waits and op :: daemon_operation and good :: "daemon \<Rightarrow> bool"
  assumes each: "good d \<Longrightarrow> \<exists>b d'. perform (inject k) (wait k) op d = (Inr b, d') \<and> good d'"
begin

definition all_good :: "manager \<Rightarrow> bool" where
  "all_good m \<longleftrightarrow> (\<forall>n v. dict_get (mg_daemons m) n = Some v \<longrightarrow> (\<exists>d. v = Some d \<and> good d))"

lemma perform_good:
  assumes "all_good m" and "dict_get (mg_daemons m) name = Some v"
  obtains d b d' where "v = Some d" and "good d" and "perform (inject name) (wait name) op d = (Inr b, d')" and "good d'"
    and "m_perform inject wait name op m = (Inr b, m\<lparr>mg_daemons := dict_set name (Some d') (mg_daemons m)\<rparr>)"
proof -
  obtain d where v: "v = Some d" "good d" using assms unfolding all_good_def by blast
  obtain b d' where d': "perform (inject name) (wait name) op d = (Inr b, d')" "good d'" using each [OF v(2)] by blast
  have "name \<in> set (dict_keys (mg_daemons m))" using assms(2) by (metis dict_get_None_iff option.distinct(1))
  then have "m_perform inject wait name op m = (Inr b, m\<lparr>mg_daemons := dict_set name (Some d') (mg_daemons m)\<rparr>)"
    using assms(2) v(1) d'(1) by (simp add: m_perform_def m_with_lock_def)
  with that v d' show thesis by blast
qed

end

sublocale performing_each \<subseteq> performing inject wait op all_good
proof
  fix m name
  assume good: "all_good m"
  show "\<exists>b m'. m_perform inject wait name op m = (Inr b, m') \<and> all_good m'"
  proof (cases "dict_get (mg_daemons m) name")
    case None
    then show ?thesis using good by (auto simp: m_perform_def dict_get_None_iff)
  next
    case (Some v)
    from perform_good [OF good this] obtain d' b where "good d'"
        "m_perform inject wait name op m = (Inr b, m\<lparr>mg_daemons := dict_set name (Some d') (mg_daemons m)\<rparr>)" by metis
    with good show ?thesis by (auto simp: all_good_def)
  qed
next
  fix m name r m'
  assume "all_good m" and "depends_of name m = (r, m')"
  then show "all_good m'" using depends_of_run [of name m] by (auto simp: all_good_def)
qed

text \<open>The daemons after the operation on the names in \<open>ex\<close>.\<close>

definition after_each :: "injects \<Rightarrow> waits \<Rightarrow> daemon_operation \<Rightarrow> string set \<Rightarrow> (string, daemon option) dict \<Rightarrow> (string, daemon option) dict" where
  "after_each inject wait op ex = map (\<lambda>(k, v). (k, if k \<in> ex then map_option (\<lambda>d. snd (perform (inject k) (wait k) op d)) v else v))"

definition each_result :: "injects \<Rightarrow> waits \<Rightarrow> daemon_operation \<Rightarrow> string \<times> daemon option \<Rightarrow> bool" where
  "each_result inject wait op = (\<lambda>(k, v). \<exists>d. v = Some d \<and> fst (perform (inject k) (wait k) op d) = Inr True)"

lemma after_each_keys [simp]: "dict_keys (after_each inject wait op ex ds) = dict_keys ds"
  by (induction ds) (auto simp: after_each_def)

lemma after_each_get:
  "dict_get (after_each inject wait op ex ds) k =
     map_option (\<lambda>v. if k \<in> ex then map_option (\<lambda>d. snd (perform (inject k) (wait k) op d)) v else v) (dict_get ds k)"
  by (induction ds) (auto simp: after_each_def)

lemma after_each_all:
  "after_each inject wait op (set (dict_keys ds)) ds = map (\<lambda>(k, v). (k, map_option (\<lambda>d. snd (perform (inject k) (wait k) op d)) v)) ds"
  by (force simp: after_each_def)

lemma after_each_step:
  assumes "dict_get ds c = Some (Some d)" and "c \<notin> ex" and "distinct (dict_keys ds)"
  shows "dict_set c (Some (snd (perform (inject c) (wait c) op d))) (after_each inject wait op ex ds) =
    after_each inject wait op (insert c ex) ds"
  using assms
proof (induction ds)
  case (Cons kv ds)
  obtain k v where kv: "kv = (k, v)" by (cases kv)
  show ?case
  proof (cases "k = c")
    case True
    then have "after_each inject wait op ex ds = after_each inject wait op (insert c ex) ds"
      using Cons.prems(3) kv by (force simp: after_each_def)
    with True kv Cons.prems show ?thesis by (simp add: after_each_def)
  next
    case False
    with Cons kv show ?thesis by (simp add: after_each_def)
  qed
qed simp

context performing_each
begin

text \<open>The operation was performed on the names in \<open>ex\<close> and on no other, with the results \<open>res\<close>.\<close>

definition so_far :: "(string, daemon option) dict \<Rightarrow> string list \<Rightarrow> (string, bool) dict \<Rightarrow> manager \<Rightarrow> bool" where
  "so_far ds ex res m \<longleftrightarrow> mg_daemons m = after_each inject wait op (set ex) ds \<and> set ex \<subseteq> set (dict_keys ds) \<and>
     (\<forall>(k, r) \<in> set res. \<forall>v. dict_get ds k = Some v \<longrightarrow> r = each_result inject wait op (k, v))"

lemma one_more:
  assumes "so_far ds ex res m" and "all_good m" and "c \<in> set (dict_keys ds)" and "c \<notin> set ex" and "distinct (dict_keys ds)"
  shows "\<exists>b m'. m_perform inject wait c op m = (Inr b, m') \<and> so_far ds (ex @ [c]) (dict_set c b res) m'"
proof -
  obtain v where v: "dict_get ds c = Some v" using assms(3) by (metis dict_get_None_iff option.exhaust)
  have "dict_get (mg_daemons m) c = Some v" using assms(1,4) v by (simp add: so_far_def after_each_get)
  from perform_good [OF assms(2) this] obtain d b d' where d: "v = Some d" "perform (inject c) (wait c) op d = (Inr b, d')"
      "m_perform inject wait c op m = (Inr b, m\<lparr>mg_daemons := dict_set c (Some d') (mg_daemons m)\<rparr>)" by metis
  have "dict_set c (Some d') (mg_daemons m) = after_each inject wait op (set (ex @ [c])) ds"
    using after_each_step [OF v [unfolded d(1)] assms(4,5), of inject wait op] assms(1) d(2) by (simp add: so_far_def)
  moreover have "\<forall>(k, r) \<in> set (dict_set c b res). \<forall>v. dict_get ds k = Some v \<longrightarrow> r = each_result inject wait op (k, v)"
  proof clarify
    fix k r v'
    assume kr: "(k, r) \<in> set (dict_set c b res)" and v': "dict_get ds k = Some v'"
    from kr consider "k = c" "r = b" | "(k, r) \<in> set res" using dict_set_entries [of c b res] by blast
    then show "r = each_result inject wait op (k, v')"
    proof cases
      case 1
      with v v' d show ?thesis by (auto simp: each_result_def)
    next
      case 2
      with v' assms(1) show ?thesis by (auto simp: so_far_def)
    qed
  qed
  ultimately show ?thesis using d(3) assms(1,3) by (auto simp: so_far_def)
qed

lemma perform_stack_each:
  assumes "perform_stack n inject wait stack ex res op m = (Inr (ex', res'), m')"
    and "so_far ds ex res m" and "all_good m" and "set stack \<union> dep_names m \<subseteq> set (dict_keys ds)" and "distinct (dict_keys ds)"
  shows "so_far ds ex' res' m'"
  using assms
proof (induction n arbitrary: stack ex res m)
  case 0
  then show ?case by simp
next
  case (Suc n)
  show ?case
  proof (cases stack rule: rev_cases)
    case Nil
    with Suc.prems show ?thesis by simp
  next
    case (snoc st c)
    show ?thesis
    proof (cases "c \<in> set ex")
      case True
      with Suc.prems(1) snoc have "perform_stack n inject wait st ex res op m = (Inr (ex', res'), m')"
        by simp
      from Suc.IH [OF this Suc.prems(2,3)] Suc.prems(4,5) snoc show ?thesis by auto
    next
      case new: False
      obtain ds1 m1 where ds1: "depends_of c m = (Inr ds1, m1)"
          "(case ds1 of None \<Rightarrow> [] | Some ds \<Rightarrow> ds) = deps m c" and m1: "deps m1 = deps m"
          "mg_daemons m1 = mg_daemons m"
        using depends_of_run [of c m] by blast
      have sofar: "so_far ds ex res m1" "all_good m1"
        using Suc.prems(2,3) m1(2) by (simp_all add: so_far_def all_good_def)
      let ?te = "filter (\<lambda>d. d \<notin> set ex) (deps m c)"
      show ?thesis
      proof (cases "?te = []")
        case False
        with Suc.prems(1) snoc new ds1
        have "perform_stack n inject wait (?te @ [c] @ st) ex res op m1 = (Inr (ex', res'), m')"
          by (simp add: Let_def)
        moreover have "set ?te \<subseteq> set (dict_keys ds)"
          using subset_trans [OF waiting_names] Suc.prems(4) by blast
        then have "set (?te @ [c] @ st) \<union> dep_names m1 \<subseteq> set (dict_keys ds)"
          using Suc.prems(4) snoc dep_names_cong [OF m1(1)] by simp
        ultimately show ?thesis using Suc.IH sofar Suc.prems(5) by blast
      next
        case True
        have "c \<in> set (dict_keys ds)" using Suc.prems(4) snoc by simp
        then obtain b m2 where m2: "m_perform inject wait c op m1 = (Inr b, m2)"
            "so_far ds (ex @ [c]) (dict_set c b res) m2"
          using one_more [OF sofar _ new Suc.prems(5)] by blast
        have "all_good m2" using performed [OF sofar(2), of c] m2(1) by auto
        moreover have "deps m2 = deps m" using m_perform_deps [OF m2(1)] m1(1) by simp
        then have "set st \<union> dep_names m2 \<subseteq> set (dict_keys ds)"
          using Suc.prems(4) snoc dep_names_cong [of m2 m] by auto
        moreover have "perform_stack n inject wait st (ex @ [c]) (dict_set c b res) op m2 = (Inr (ex', res'), m')"
          using True Suc.prems(1) snoc new ds1 m2(1) by (simp add: Let_def)
        ultimately show ?thesis using Suc.IH m2(2) Suc.prems(5) by blast
      qed
    qed
  qed
qed

lemma so_far_results:
  assumes "so_far ds ex res m'" and "set (dict_keys ds) \<subseteq> set ex" and "dict_keys res = ex" and "distinct (dict_keys ds)"
  shows "list_all snd res = list_all (each_result inject wait op) ds"
proof -
  have entry: "snd e = each_result inject wait op (fst e, v)" if "e \<in> set res" "dict_get ds (fst e) = Some v" for e v
    using assms(1) that by (cases e) (auto simp: so_far_def)
  show ?thesis
    unfolding list_all_iff
  proof (intro iffI ballI)
    fix x
    assume all: "\<forall>e \<in> set res. snd e" and x: "x \<in> set ds"
    obtain k v where kv: "x = (k, v)" by (cases x)
    have v: "dict_get ds k = Some v" using x kv assms(4) by simp
    have "k \<in> fst ` set res" using x kv assms(2,3) by auto
    then obtain e where "e \<in> set res" "fst e = k" by auto
    with entry [of e v] v all kv show "each_result inject wait op x" by auto
  next
    fix e
    assume all: "\<forall>x \<in> set ds. each_result inject wait op x" and e: "e \<in> set res"
    have "fst e \<in> set (dict_keys ds)" using e assms(1,3) by (auto simp: so_far_def)
    then obtain v where v: "dict_get ds (fst e) = Some v" by (metis dict_get_None_iff option.exhaust)
    with all entry [OF e v] show "snd e" using map_of_SomeD [OF v] by auto
  qed
qed

lemma perform_all_each:
  assumes "\<forall>(k, v) \<in> set (mg_daemons m). \<exists>d. v = Some d \<and> good d" and "distinct (dict_keys (mg_daemons m))"
    and "dep_names m \<subseteq> set (dict_keys (mg_daemons m))"
    and "\<forall>x. \<forall>d \<in> set (deps m x). rank d < (rank x :: nat)"
  shows "\<exists>limit m'. (\<forall>n \<ge> limit. perform_all n inject wait op m = (Inr (list_all (each_result inject wait op) (mg_daemons m)), m')) \<and>
    mg_daemons m' = after_each inject wait op (set (dict_keys (mg_daemons m))) (mg_daemons m) \<and> deps m' = deps m"
proof -
  let ?m = "m\<lparr>mg_lock := mg_lock m + 1\<rparr>" and ?names = "dict_keys (mg_daemons m)"
  have good: "all_good ?m" using assms(1) by (auto simp: all_good_def dest: map_of_SomeD)
  have deps: "deps ?m = deps m" by (simp add: deps_def fun_eq_iff)
  then have acyclic: "\<forall>x. \<forall>d \<in> set (deps ?m x). rank d < rank x" using assms(4) by simp
  obtain limit ex res m' where run: "\<forall>n \<ge> limit. perform_stack n inject wait ?names [] [] op ?m = (Inr (ex, res), m')"
    using perform_stack_returns [OF acyclic good, of ?names] by blast
  then have once: "perform_stack limit inject wait ?names [] [] op ?m = (Inr (ex, res), m')" by simp
  have "so_far (mg_daemons m) [] [] ?m" by (auto simp: so_far_def after_each_def intro!: map_idI [symmetric])
  moreover have "set ?names \<union> dep_names ?m \<subseteq> set ?names" using assms(3) dep_names_cong [OF deps] by simp
  ultimately have ended: "so_far (mg_daemons m) ex res m'" by (rule perform_stack_each [OF once _ good _ assms(2)])
  have order: "set ?names \<subseteq> set ex" "dict_keys res = ex" using perform_stack_order [OF once] by simp_all
  have results: "list_all snd res = list_all (each_result inject wait op) (mg_daemons m)"
    by (rule so_far_results [OF ended order assms(2)])
  have "perform_all n inject wait op m = (Inr (list_all (each_result inject wait op) (mg_daemons m)), m'\<lparr>mg_lock := mg_lock m' - 1\<rparr>)"
    if "limit \<le> n" for n
    using run that unfolding results [symmetric] by (simp add: perform_all_def m_with_lock_def list_all_iff filter_empty_conv split_beta)
  moreover have "set ex = set ?names" using order(1) ended by (auto simp: so_far_def)
  moreover have "deps m' = deps m" using perform_stack_deps [OF once] deps by simp
  ultimately show ?thesis using ended
    by (intro exI [of _ limit] exI [of _ "m'\<lparr>mg_lock := mg_lock m' - 1\<rparr>"]) (auto simp: so_far_def deps_def fun_eq_iff)
qed

end

section \<open>Operations by the state of the daemons\<close>

text \<open>When an operation succeeds on a daemon, and the state it leads to.\<close>

definition op_ok :: "daemon_operation \<Rightarrow> daemon_state \<Rightarrow> bool" where
  "op_ok op st =
     (case op of
        OP_START \<Rightarrow> st \<in> {IDLE, STARTING, RUNNING}
      | OP_STOP \<Rightarrow> st \<in> {IDLE, STOPPING, RUNNING}
      | OP_PAUSE \<Rightarrow> st \<in> {RUNNING, PAUSED}
      | OP_UNPAUSE \<Rightarrow> st \<in> {IDLE, RUNNING, PAUSED}
      | _ \<Rightarrow> False)"

definition op_state :: "daemon_operation \<Rightarrow> daemon_state \<Rightarrow> daemon_state" where
  "op_state op st =
     (case (op, st) of
        (OP_START, IDLE) \<Rightarrow> STARTING
      | (OP_STOP, RUNNING) \<Rightarrow> IDLE
      | (OP_PAUSE, RUNNING) \<Rightarrow> PAUSED
      | (OP_UNPAUSE, PAUSED) \<Rightarrow> RUNNING
      | _ \<Rightarrow> st)"

text \<open>
  Daemons without an environment that have a thread while they run. Telling one to stop leaves it as it is,
  and it is idle when its thread has been waited for.
\<close>

definition tidy :: "daemon \<Rightarrow> bool" where
  "tidy d \<longleftrightarrow> quiet d \<and> (d_state d = RUNNING \<or> d_state d = PAUSED \<longrightarrow> (\<exists>t. d_thread d = Some t \<and> d_threads d ! t \<noteq> Created))"

definition stops :: "(daemon, unit) py option \<Rightarrow> (daemon, unit) py \<Rightarrow> bool" where
  "stops inject wait \<longleftrightarrow>
     (\<forall>d. quiet d \<longrightarrow> (\<exists>d'. call_inject inject d = (Inr (), d') \<and> quiet d' \<and> core d' = core d)) \<and>
     (\<forall>d. quiet d \<and> d_state d = STOPPING \<longrightarrow> (\<exists>d'. wait d = (Inr (), d') \<and> quiet d' \<and> d_state d' = IDLE))"

lemma tidy_start:
  assumes "quiet d"
  shows "\<exists>d'. start d = (Inr (d_state d = IDLE), d') \<and> quiet d' \<and> d_state d' = (if d_state d = IDLE then STARTING else d_state d) \<and>
    (d_state d \<noteq> IDLE \<longrightarrow> core d' = core d)"
proof -
  obtain ok d1 where d1: "start_section d = (Inr ok, d1)" "quiet d1"
    using quiet_start_section [OF assms] by blast
  from start_section_core [OF d1(1)] d1 show ?thesis
    by (cases "d_state d = IDLE") (auto simp: start_def launch_thread_def core_def set_phase_def)
qed

lemma tidy_stop:
  assumes "tidy d" and "stops inject wait" and "d_state d = RUNNING"
  shows "\<exists>d'. stop inject wait d = (Inr True, d') \<and> quiet d' \<and> d_state d' = IDLE"
proof -
  obtain ok d1 where d1: "stop_section d = (Inr ok, d1)" "quiet d1" using quiet_stop_section assms(1) unfolding tidy_def by blast
  then have c1: "ok" "core d1 = core (d\<lparr>d_state := STOPPING\<rparr>)" using stop_section_core [OF d1(1)] assms(3) by simp_all
  obtain d2 where d2: "call_inject inject d1 = (Inr (), d2)" "quiet d2" "core d2 = core d1" using assms(2) d1(2) unfolding stops_def by blast
  then have s2: "d_state d2 = STOPPING" "\<exists>t. d_thread d2 = Some t \<and> d_threads d2 ! t \<noteq> Created"
    using c1(2) assms(1,3) by (auto simp: core_def tidy_def)
  obtain d3 where d3: "wait d2 = (Inr (), d3)" "quiet d3" "d_state d3 = IDLE" using assms(2) d2(2) s2(1) unfolding stops_def by blast
  obtain d4 where d4: "stop_finish d3 = (Inr (), d4)" "quiet d4" using quiet_stop_finish [OF d3(2)] by blast
  have "d_state d4 = IDLE" using stop_finish_core [OF d4(1)] d3(3) by (simp add: core_def)
  with c1(1) d1(1) d2(1) d3(1) d4 s2(2) show ?thesis by (auto simp: stop_def begin_stop_def join_thread_def)
qed

lemma perform_tidy:
  assumes "tidy d" and "op = OP_STOP \<Longrightarrow> stops inject wait" and "op \<in> {OP_START, OP_STOP, OP_PAUSE, OP_UNPAUSE}"
  shows "\<exists>d'. perform inject wait op d = (Inr (op_ok op (d_state d)), d') \<and> tidy d' \<and> d_state d' = op_state op (d_state d)"
proof -
  have q: "quiet d" using assms(1) by (simp add: tidy_def)
  note per = perform_def skip_if_state_def daemon_action_def get_state_def op_ok_def op_state_def
  consider "op = OP_START" | "op = OP_STOP" | "op = OP_PAUSE" | "op = OP_UNPAUSE" using assms(3) by blast
  then show ?thesis
  proof cases
    case 1
    with tidy_start [OF q] assms(1) show ?thesis by (cases "d_state d") (auto simp: per tidy_def core_def)
  next
    case 2
    show ?thesis
    proof (cases "d_state d = RUNNING")
      case True
      with tidy_stop [OF assms(1) assms(2) [OF 2]] 2 show ?thesis by (auto simp: per tidy_def)
    next
      case False
      obtain ok d1 where d1: "stop_section d = (Inr ok, d1)" "quiet d1" using quiet_stop_section [OF q] by blast
      with stop_section_core [OF d1(1)] False 2 assms(1) show ?thesis
        by (cases "d_state d") (auto simp: per tidy_def core_def stop_def begin_stop_def)
    qed
  next
    case 3
    obtain ok d1 where d1: "pause d = (Inr ok, d1)" "quiet d1" using quiet_pause [OF q] by blast
    with pause_core [OF d1(1)] 3 assms(1) show ?thesis by (cases "d_state d") (auto simp: per tidy_def core_def)
  next
    case 4
    obtain ok d1 where d1: "unpause d = (Inr ok, d1)" "quiet d1" using quiet_unpause [OF q] by blast
    with unpause_core [OF d1(1)] 4 assms(1) show ?thesis by (cases "d_state d") (auto simp: per tidy_def core_def)
  qed
qed

interpretation starting: performing_each inject wait OP_START tidy for inject wait
  by unfold_locales (metis perform_tidy daemon_operation.distinct insertI1)

interpretation pausing: performing_each inject wait OP_PAUSE tidy for inject wait
  by unfold_locales (metis perform_tidy daemon_operation.distinct insertI1 insertI2)

interpretation unpausing: performing_each inject wait OP_UNPAUSE tidy for inject wait
  by unfold_locales (metis perform_tidy daemon_operation.distinct insertI1 insertI2)

text \<open>A manager of such daemons whose dependencies have no cycle, and the states of its daemons.\<close>

definition manager_ok :: "(string \<Rightarrow> nat) \<Rightarrow> manager \<Rightarrow> bool" where
  "manager_ok rank m \<longleftrightarrow> (\<forall>(k, v) \<in> set (mg_daemons m). \<exists>d. v = Some d \<and> tidy d) \<and> distinct (dict_keys (mg_daemons m)) \<and>
     dep_names m \<subseteq> set (dict_keys (mg_daemons m)) \<and> (\<forall>x. \<forall>d \<in> set (deps m x). rank d < rank x)"

definition state_list :: "manager \<Rightarrow> (string, daemon_state) dict" where
  "state_list m = map (\<lambda>(k, v). (k, d_state (the v))) (mg_daemons m)"

lemma perform_all_tidy:
  assumes "manager_ok rank m" and "op = OP_STOP \<Longrightarrow> \<forall>k. stops (inject k) (wait k)" and "op \<in> {OP_START, OP_STOP, OP_PAUSE, OP_UNPAUSE}"
  shows "\<exists>limit m'. (\<forall>n \<ge> limit. perform_all n inject wait op m = (Inr (\<forall>(k, st) \<in> set (state_list m). op_ok op st), m')) \<and>
    manager_ok rank m' \<and> state_list m' = map (\<lambda>(k, st). (k, op_state op st)) (state_list m)"
proof -
  have one: "\<exists>d'. perform (inject k) (wait k) op d = (Inr (op_ok op (d_state d)), d') \<and> tidy d' \<and> d_state d' = op_state op (d_state d)"
    if "tidy d" for k d using perform_tidy [OF that _ assms(3)] assms(2) by blast
  have pe: "performing_each inject wait op tidy" by unfold_locales (use one in blast)
  note ok = assms(1) [unfolded manager_ok_def]
  from performing_each.perform_all_each [OF pe, of m rank] ok obtain limit m' where
      run: "\<forall>n \<ge> limit. perform_all n inject wait op m = (Inr (list_all (each_result inject wait op) (mg_daemons m)), m')"
      and ds: "mg_daemons m' = after_each inject wait op (set (dict_keys (mg_daemons m))) (mg_daemons m)" and deps: "deps m' = deps m"
    by auto
  have held: "\<exists>d d'. v = Some d \<and> perform (inject k) (wait k) op d = (Inr (op_ok op (d_state d)), d') \<and> tidy d' \<and>
      d_state d' = op_state op (d_state d)" if "(k, v) \<in> set (mg_daemons m)" for k v
    using one ok that by blast
  have "list_all (each_result inject wait op) (mg_daemons m) = (\<forall>(k, st) \<in> set (state_list m). op_ok op st)"
    using held by (fastforce simp: list_all_iff each_result_def state_list_def)
  moreover have "state_list m' = map (\<lambda>(k, st). (k, op_state op st)) (state_list m)"
    unfolding ds state_list_def after_each_all map_map
  proof (rule map_cong [OF refl])
    fix e
    assume e: "e \<in> set (mg_daemons m)"
    obtain k v where kv: "e = (k, v)" by (cases e)
    from held [of k v] e kv show "((\<lambda>(k, v). (k, d_state (the v))) \<circ> (\<lambda>(k, v). (k, map_option (\<lambda>d. snd (perform (inject k) (wait k) op d)) v))) e =
      ((\<lambda>(k, st). (k, op_state op st)) \<circ> (\<lambda>(k, v). (k, d_state (the v)))) e"
      by auto
  qed
  moreover have "manager_ok rank m'"
  proof -
    have "\<exists>d. v = Some d \<and> tidy d" if v: "(k, v) \<in> set (mg_daemons m')" for k v
    proof -
      from v obtain v0 where v0: "(k, v0) \<in> set (mg_daemons m)" "v = map_option (\<lambda>d. snd (perform (inject k) (wait k) op d)) v0"
        unfolding ds after_each_all by auto
      from held [OF v0(1)] v0(2) show ?thesis by auto
    qed
    then show ?thesis using ok deps dep_names_cong [OF deps] ds by (auto simp: manager_ok_def)
  qed
  ultimately show ?thesis using run by (intro exI [of _ limit] exI [of _ m']) simp
qed

section \<open>Properties\<close>



text \<open>
  Property C9: an operation on all daemons of a manager is performed exactly once on each of them, and
  its result is true exactly when it succeeded on all. This holds for every operation that returns
  on each daemon, given enough room for the recursion, when every name that is waited for is a daemon and the
  dependencies have no cycle.
\<close>

theorem operation_on_all:
  assumes "\<forall>k d. good d \<longrightarrow> (\<exists>b d'. perform (inject k) (wait k) op d = (Inr b, d') \<and> good d')"
    and "\<forall>(k, v) \<in> set (mg_daemons m). \<exists>d. v = Some d \<and> good d" and "distinct (dict_keys (mg_daemons m))"
    and "dep_names m \<subseteq> set (dict_keys (mg_daemons m))"
    and "\<forall>x. \<forall>d \<in> set (deps m x). rank d < (rank x :: nat)"
  shows "\<exists>limit m'. (\<forall>n \<ge> limit. perform_all n inject wait op m =
      (Inr (\<forall>(k, v) \<in> set (mg_daemons m). \<exists>d. v = Some d \<and> fst (perform (inject k) (wait k) op d) = Inr True), m')) \<and>
    mg_daemons m' = map (\<lambda>(k, v). (k, map_option (\<lambda>d. snd (perform (inject k) (wait k) op d)) v)) (mg_daemons m)"
proof -
  have pe: "performing_each inject wait op good" using assms(1) by unfold_locales blast
  from performing_each.perform_all_each [OF pe assms(2-5), unfolded after_each_all] obtain limit m' where
      "\<forall>n \<ge> limit. perform_all n inject wait op m = (Inr (list_all (each_result inject wait op) (mg_daemons m)), m')"
      "mg_daemons m' = map (\<lambda>(k, v). (k, map_option (\<lambda>d. snd (perform (inject k) (wait k) op d)) v)) (mg_daemons m)"
    by (elim exE conjE)
  moreover have "list_all (each_result inject wait op) ds = (\<forall>(k, v) \<in> set ds. \<exists>d. v = Some d \<and> fst (perform (inject k) (wait k) op d) = Inr True)" for ds
    by (auto simp: list_all_iff each_result_def)
  ultimately show ?thesis by (intro exI [of _ limit] exI [of _ m']) simp
qed

theorem operation_on_all_witness:
  "\<exists>a b limit m'. new_daemon ''a'' None = Inr a \<and> new_daemon ''b'' None = Inr b \<and>
    (\<forall>n \<ge> limit. perform_all n (\<lambda>_. None) (\<lambda>_. ret ()) OP_START
       \<lparr>mg_lock = 0, mg_daemons = [(''b'', Some b), (''a'', Some a)], mg_depends_on = [(''b'', Some [''a''])]\<rparr>
       = (Inr True, m')) \<and> dict_keys (mg_daemons m') = [''b'', ''a'']"
proof -
  obtain a where a: "new_daemon ''a'' None = Inr a" "quiet a" "d_state a = IDLE"
    using new_daemon_quiet [of "''a''"] new_daemon_idle by blast
  obtain b where b: "new_daemon ''b'' None = Inr b" "quiet b" "d_state b = IDLE"
    using new_daemon_quiet [of "''b''"] new_daemon_idle by blast
  let ?m = "\<lparr>mg_lock = 0, mg_daemons = [(''b'', Some b), (''a'', Some a)], mg_depends_on = [(''b'', Some [''a''])]\<rparr>"
  have good: "tidy a" "tidy b" using a b by (simp_all add: tidy_def)
  have each: "\<forall>k d. tidy d \<longrightarrow> (\<exists>b d'. perform None (ret ()) OP_START d = (Inr b, d') \<and> tidy d')"
    using starting.each [where inject = "\<lambda>_. None" and wait = "\<lambda>_. ret ()"] by simp
  have up: "fst (perform None (ret ()) OP_START a) = Inr True" "fst (perform None (ret ()) OP_START b) = Inr True"
    using perform_tidy [OF good(1), of OP_START None "ret ()"] perform_tidy [OF good(2), of OP_START None "ret ()"] a(3) b(3)
    by (auto simp: op_ok_def)
  have d: "deps ?m x = (if x = ''b'' then [''a''] else [])" for x by (simp add: deps_def)
  have n: "dep_names ?m \<subseteq> set (dict_keys (mg_daemons ?m))" unfolding dep_names_def d by auto
  have r: "\<forall>x. \<forall>d \<in> set (deps ?m x). (if d = ''b'' then 1 else 0) < ((if x = ''b'' then 1 else 0) :: nat)"
    unfolding d by simp
  have ds: "\<forall>(k, v) \<in> set (mg_daemons ?m). \<exists>d. v = Some d \<and> tidy d" "distinct (dict_keys (mg_daemons ?m))" using good by simp_all
  obtain limit m' where run: "\<forall>n \<ge> limit. perform_all n (\<lambda>_. None) (\<lambda>_. ret ()) OP_START ?m =
      (Inr (\<forall>(k, v) \<in> set (mg_daemons ?m). \<exists>d. v = Some d \<and> fst (perform None (ret ()) OP_START d) = Inr True), m')"
      "mg_daemons m' = map (\<lambda>(k, v). (k, map_option (\<lambda>d. snd (perform None (ret ()) OP_START d)) v)) (mg_daemons ?m)"
    using operation_on_all [where inject = "\<lambda>_. None" and wait = "\<lambda>_. ret ()", OF each ds n r] by (elim exE conjE)
  have "(\<forall>(k, v) \<in> set (mg_daemons ?m). \<exists>d. v = Some d \<and> fst (perform None (ret ()) OP_START d) = Inr True) = True"
    using up by simp
  with run a(1) b(1) show ?thesis by (intro exI [of _ a] exI [of _ b] exI [of _ limit] exI [of _ m']) simp
qed

end
