(* ===== verification/Commanders.thy ===== *)
theory Commanders
  imports Command_Queue Channel_Group Daemon_Manager
begin

text \<open>
  The consumers that vtelem registers itself: commands for the channels of an environment
  (\<open>vtelem/factories/telemetry_environment.py\<close>) and for the daemons of a manager
  (\<open>vtelem/factories/daemon_manager.py\<close>). Looking up a channel by something that is no string, or by
  something that is no number, finds nothing; the entry with \<open>None\<close> that Python's \<open>defaultdict\<close> makes
  for such a key is left out.
\<close>

section \<open>Texts\<close>

definition quoted :: "string \<Rightarrow> string" where
  "quoted s = CHR 0x27 # s @ [CHR 0x27]"

definition outcome_text :: "bool \<Rightarrow> string" where
  "outcome_text ok = (if ok then ''success'' else ''failure'')"

fun member_name :: "primitive \<Rightarrow> string" where
  "member_name BOOLEAN = ''BOOLEAN''"
| "member_name INT8 = ''INT8''"
| "member_name UINT8 = ''UINT8''"
| "member_name INT16 = ''INT16''"
| "member_name UINT16 = ''UINT16''"
| "member_name INT32 = ''INT32''"
| "member_name UINT32 = ''UINT32''"
| "member_name INT64 = ''INT64''"
| "member_name UINT64 = ''UINT64''"
| "member_name FLOAT = ''FLOAT''"
| "member_name DOUBLE = ''DOUBLE''"

definition tp_text :: "(pyfloat \<Rightarrow> string) \<Rightarrow> 'x type_primitive_scheme \<Rightarrow> string" where
  "tp_text fr tp = ''('' @ member_name (tp_type tp) @ '') '' @ py_str fr (tp_data tp)"

section \<open>Operations on a channel\<close>

text \<open>A channel is given as the reference to the object and its identifier.\<close>

abbreviation chan_text :: "(pyfloat \<Rightarrow> string) \<Rightarrow> nat \<Rightarrow> telemetry_env \<Rightarrow> string" where
  "chan_text fr r t \<equiv> quoted (tp_text fr (chan_at (te_chan t) r))"

definition channel_set :: "(pyfloat \<Rightarrow> string) \<Rightarrow> nat \<times> int \<Rightarrow> cmd_data \<Rightarrow> pyfloat \<Rightarrow> (telemetry_env, bool \<times> string) py" where
  "channel_set fr = (\<lambda>(r, i) cmd time.
     case dict_get cmd ''value'' of
       None \<Rightarrow> gets (\<lambda>t. (False, ''no value provided to set '' @ chan_text fr r t))
     | Some value \<Rightarrow>
         bindp (is_enum_channel i) (\<lambda>is_enum.
         bindp (if is_enum
                then (case value of
                        VStr s \<Rightarrow> command_enum_channel_id i s
                      | _ \<Rightarrow> bindp (enum_channel_type i) (\<lambda>ty. on_enum ty (raise AttributeError)))
                else in_chan (on_channel r (ch_command value (Some time) False))) (\<lambda>result.
         gets (\<lambda>t. (result, outcome_text result @ '': set '' @ chan_text fr r t @ '' to '' @ quoted (py_str fr value))))))"

definition channel_get :: "(pyfloat \<Rightarrow> string) \<Rightarrow> nat \<times> int \<Rightarrow> (telemetry_env, bool \<times> string) py" where
  "channel_get fr = (\<lambda>(r, i).
     bindp (is_enum_channel i) (\<lambda>is_enum.
     if is_enum then bindp (get_enum_value i) (\<lambda>s. ret (True, s))
     else gets (\<lambda>t. (True, py_str fr (tp_get (chan_at (te_chan t) r))))))"

text \<open>\<open>value * -1\<close>: a sequence repeated fewer than once is empty.\<close>

fun times_minus_one :: "pyval \<Rightarrow> py_error + pyval" where
  "times_minus_one (VBool b) = Inr (VInt (if b then -1 else 0))"
| "times_minus_one (VInt n) = Inr (VInt (- n))"
| "times_minus_one (VFloat x) = Inr (VFloat (fmul x (fl (-1))))"
| "times_minus_one (VStr s) = Inr (VStr [])"
| "times_minus_one (VList vs) = Inr (VList [])"
| "times_minus_one _ = Inl TypeError"

definition amount :: "cmd_data \<Rightarrow> pyval" where
  "amount cmd = (case dict_get cmd ''value'' of None \<Rightarrow> VInt 1 | Some v \<Rightarrow> v)"

definition channel_increment :: "(pyfloat \<Rightarrow> string) \<Rightarrow> nat \<times> int \<Rightarrow> cmd_data \<Rightarrow> pyfloat \<Rightarrow> (telemetry_env, bool \<times> string) py" where
  "channel_increment fr = (\<lambda>(r, i) cmd time.
     bindp (is_enum_channel i) (\<lambda>is_enum.
     if is_enum then gets (\<lambda>t. (False, ''can'' @ [CHR 0x27] @ ''t increment enum channel '' @ chan_text fr r t))
     else
       bindp (in_chan (on_channel r (ch_command (amount cmd) (Some time) True))) (\<lambda>result.
       gets (\<lambda>t. (result, outcome_text result @ '': incremented '' @ chan_text fr r t @ '' by '' @
         quoted (py_str fr (amount cmd)))))))"

definition channel_decrement :: "(pyfloat \<Rightarrow> string) \<Rightarrow> nat \<times> int \<Rightarrow> cmd_data \<Rightarrow> pyfloat \<Rightarrow> (telemetry_env, bool \<times> string) py" where
  "channel_decrement fr = (\<lambda>(r, i) cmd time.
     bindp (is_enum_channel i) (\<lambda>is_enum.
     if is_enum then gets (\<lambda>t. (False, ''can'' @ [CHR 0x27] @ ''t decrement enum channel '' @ chan_text fr r t))
     else
       bindp (lift_res (times_minus_one (amount cmd))) (\<lambda>by.
       bindp (in_chan (on_channel r (ch_command by (Some time) True))) (\<lambda>result.
       gets (\<lambda>t. (result, outcome_text result @ '': decremented '' @ chan_text fr r t @ '' by '' @
         quoted (py_str fr (amount cmd))))))))"

section \<open>The channel commander\<close>

text \<open>The identifier that a value stands for as a key of the registry's items.\<close>

definition id_key :: "pyval \<Rightarrow> int option" where
  "id_key v = (case v of
     VFloat x \<Rightarrow> if ffinite x \<and> fval x = of_int \<lfloor>fval x\<rfloor> then Some \<lfloor>fval x\<rfloor> else None
   | _ \<Rightarrow> as_int v)"

text \<open>\<open>channel_registry.get_item(chan_id)\<close> for any value.\<close>

definition find_channel :: "pyval \<Rightarrow> (telemetry_env, (nat \<times> int) option) py" where
  "find_channel chan_id =
     (if \<not> hashable chan_id then raise TypeError
      else case id_key chan_id of
        None \<Rightarrow> ret None
      | Some i \<Rightarrow> bindp (in_chan (in_chan_registry (get_item i))) (\<lambda>ch. ret (map_option (\<lambda>r. (r, i)) ch)))"

text \<open>The identifier a command names, or the message that refuses it.\<close>

definition command_channel_key :: "(pyfloat \<Rightarrow> string) \<Rightarrow> cmd_data \<Rightarrow> (telemetry_env, string + pyval) py" where
  "command_channel_key fr cmd =
     (case dict_get cmd ''channel_name'' of
        Some chan_name \<Rightarrow>
          (case chan_name of
             VStr name \<Rightarrow>
               bindp (in_chan (has_channel name)) (\<lambda>known.
               if \<not> known then ret (Inl (''no channel '' @ quoted name @ '' known''))
               else
                 bindp (in_chan (in_chan_registry (get_id name))) (\<lambda>i.
                 case i of
                   None \<Rightarrow> raise AssertionError
                 | Some chan_id \<Rightarrow>
                     (case dict_get cmd ''channel_id'' of
                        Some v \<Rightarrow>
                          (if \<not> num_eq v (VInt chan_id)
                           then ret (Inl (''id mismatch, '' @ quoted (py_str fr v) @ '' != '' @ quoted (int_str chan_id)))
                           else ret (Inr (VInt chan_id)))
                      | None \<Rightarrow> ret (Inr (VInt chan_id)))))
           | _ \<Rightarrow>
               if hashable chan_name then ret (Inl (''no channel '' @ quoted (py_str fr chan_name) @ '' known''))
               else raise TypeError)
      | None \<Rightarrow>
          (case dict_get cmd ''channel_id'' of
             Some v \<Rightarrow> (if v = VNone then raise AssertionError else ret (Inr v))
           | None \<Rightarrow> raise UnboundLocalError))"

definition missing_key :: "string list \<Rightarrow> cmd_data \<Rightarrow> bool" where
  "missing_key keys cmd \<longleftrightarrow> (\<forall>k \<in> set keys. dict_get cmd k = None)"

definition key_list_text :: "(pyfloat \<Rightarrow> string) \<Rightarrow> string list \<Rightarrow> string" where
  "key_list_text fr keys = ''missing key from '' @ quoted (py_repr fr (VList (map VStr keys)))"

definition channel_operation :: "(pyfloat \<Rightarrow> string) \<Rightarrow> pyval \<Rightarrow> nat \<times> int \<Rightarrow> cmd_data \<Rightarrow> (telemetry_env, bool \<times> string) py" where
  "channel_operation fr operation chan cmd =
     bindp (gets (\<lambda>t. get_time (te_chan t))) (\<lambda>time.
     case operation of
       VStr op \<Rightarrow>
         if op = ''set'' then channel_set fr chan cmd time
         else if op = ''get'' then channel_get fr chan
         else if op = ''increment'' then channel_increment fr chan cmd time
         else if op = ''decrement'' then channel_decrement fr chan cmd time
         else ret (False, ''operation '' @ quoted op @ '' not supported'')
     | _ \<Rightarrow>
         if hashable operation then ret (False, ''operation '' @ quoted (py_str fr operation) @ '' not supported'')
         else raise TypeError)"

definition channel_commander :: "(pyfloat \<Rightarrow> string) \<Rightarrow> cmd_data \<Rightarrow> (telemetry_env, bool \<times> string) py" where
  "channel_commander fr cmd =
     (if missing_key [''operation''] cmd then ret (False, key_list_text fr [''operation''])
      else if missing_key [''channel_name'', ''channel_id''] cmd
      then ret (False, key_list_text fr [''channel_name'', ''channel_id''])
      else
        bindp (command_channel_key fr cmd) (\<lambda>key.
        case key of
          Inl msg \<Rightarrow> ret (False, msg)
        | Inr chan_id \<Rightarrow>
            bindp (find_channel chan_id) (\<lambda>chan.
            case chan of
              None \<Rightarrow> ret (False, ''no channel with id '' @ quoted (py_str fr chan_id))
            | Some c \<Rightarrow> bindp (lift_res (dict_item cmd ''operation'')) (\<lambda>operation. channel_operation fr operation c cmd))))"

definition channel_help :: string where
  "channel_help = py_join '', '' (map quoted [''set'', ''get'', ''increment'', ''decrement'']) @ '' channels''"

definition create_channel_commander :: "'h \<Rightarrow> 'c option \<Rightarrow> string \<Rightarrow> (('h, 'c, 'w) command_daemon, unit) py" where
  "create_channel_commander h result_cb command_name =
     register_consumer command_name (Consumer h, result_cb, channel_help)"

section \<open>The daemon commander\<close>

text \<open>\<open>manager.perform_str(daemon_name, oper)\<close> for any value: only strings name daemons.\<close>

definition perform_named :: "injects \<Rightarrow> waits \<Rightarrow> string \<Rightarrow> pyval \<Rightarrow> (manager \<times> bool val_dict \<times> bool list, unit) py" where
  "perform_named inject wait oper daemon_name =
     bindp (case daemon_name of
              VStr name \<Rightarrow> zoom fst (\<lambda>m s. (m, snd s)) (m_perform_str inject wait name oper)
            | _ \<Rightarrow> if hashable daemon_name then ret False else raise TypeError) (\<lambda>result.
     modify (\<lambda>(m, results, bools). (m, val_set daemon_name result results, bools @ [result])))"

definition perform_targets :: "injects \<Rightarrow> waits \<Rightarrow> string \<Rightarrow> pyval list \<Rightarrow> (manager, bool val_dict \<times> bool list) py" where
  "perform_targets inject wait oper targets m =
     (case for_each (perform_named inject wait oper) targets (m, [], []) of
        (Inl err, (m', _)) \<Rightarrow> (Inl err, m')
      | (Inr _, (m', results)) \<Rightarrow> (Inr results, m'))"

definition states_doc :: "(string, string) dict \<Rightarrow> (string, pyval) dict" where
  "states_doc states = map (\<lambda>(n, s). (n, VStr s)) states"

definition results_doc :: "(pyfloat \<Rightarrow> string) \<Rightarrow> bool val_dict \<Rightarrow> pyval" where
  "results_doc fr results = VDict (map (\<lambda>(n, b). (json_key fr n, VBool b)) results)"

definition daemon_commander :: "(pyfloat \<Rightarrow> string) \<Rightarrow> injects \<Rightarrow> waits \<Rightarrow> cmd_data \<Rightarrow> (manager, bool \<times> string) py" where
  "daemon_commander fr inject wait cmd =
     (case dict_get cmd ''operation'' of
        None \<Rightarrow> ret (False, ''no command '' @ quoted ''operation'' @ '' provided'')
      | Some (VStr operation) \<Rightarrow>
          (let oper = str_lower operation
           in if is_operation oper
              then (case dict_get cmd ''daemons'' of
                      Some (VList daemons) \<Rightarrow>
                        bindp (if VStr ''all'' \<in> set daemons
                               then bindp daemon_states (\<lambda>st. ret (map VStr (dict_keys st))) else ret daemons) (\<lambda>targets.
                        bindp (perform_targets inject wait oper targets) (\<lambda>(results, bool_results).
                        bindp daemon_states (\<lambda>st.
                        ret (list_all (\<lambda>b. b) bool_results,
                          dumps fr None (VDict (dict_set ''results'' (results_doc fr results) (states_doc st)))))))
                    | _ \<Rightarrow> ret (False, quoted ''daemons'' @ '' not provided as a list for '' @ quoted oper))
              else if oper = ''states'' then bindp daemon_states (\<lambda>st. ret (True, dumps fr None (VDict (states_doc st))))
              else ret (False, ''unknown '' @ quoted ''operation'' @ '' '' @ quoted oper))
      | Some _ \<Rightarrow> raise AttributeError)"

definition daemon_help :: string where
  "daemon_help = py_join '', '' (map (\<lambda>op. quoted (operation_str op)) all_operations) @ '' daemons''"

definition create_daemon_manager_commander :: "'h \<Rightarrow> 'c option \<Rightarrow> string \<Rightarrow> (('h, 'c, 'w) command_daemon, unit) py" where
  "create_daemon_manager_commander h result_cb command_name =
     register_consumer command_name (Consumer h, result_cb, daemon_help)"

section \<open>An application with both commanders\<close>

datatype app_consumer = ChannelCommander | DaemonCommander

text \<open>
  The environment and the manager the commands work on, and the answers the callbacks got.
\<close>

record app_world =
  aw_env :: telemetry_env
  aw_manager :: manager
  aw_answers :: "(nat \<times> bool \<times> string) list"

definition app_call :: "(pyfloat \<Rightarrow> string) \<Rightarrow> injects \<Rightarrow> waits \<Rightarrow> (app_consumer, app_world) consumer_calls" where
  "app_call fr inject wait h = (\<lambda>(cmd, d, w).
     case h of
       ChannelCommander \<Rightarrow> (case channel_commander fr cmd (aw_env w) of (r, t) \<Rightarrow> (r, (cmd, d, w\<lparr>aw_env := t\<rparr>)))
     | DaemonCommander \<Rightarrow> (case daemon_commander fr inject wait cmd (aw_manager w) of (r, m) \<Rightarrow> (r, (cmd, d, w\<lparr>aw_manager := m\<rparr>))))"

definition app_answer :: "(nat, app_world) answer_calls" where
  "app_answer c result = modify (\<lambda>(d, w). (d, w\<lparr>aw_answers := aw_answers w @ [(c, result)]\<rparr>))"

interpretation app: answering "app_call fr inject wait" app_answer aw_answers for fr inject wait
proof unfold_locales
  fix h data d w r data' d' w'
  assume "app_call fr inject wait h (data, d, w) = (r, (data', d', w'))"
  then show "d' = d \<and> aw_answers w' = aw_answers w"
    by (cases h) (auto simp: app_call_def split: prod.splits)
next
  fix c res d w
  show "\<exists>w'. app_answer c res (d, w) = (Inr (), (d, w')) \<and> aw_answers w' = aw_answers w @ [(c, res)]"
    by (simp add: app_answer_def)
qed

section \<open>Channel commands\<close>

text \<open>A command that names a registered channel reaches its operation.\<close>

lemma commander_reaches:
  assumes "dict_get (reg_mappings (env_registry (te_chan t))) n = Some (Some i)"
    and "chan_ref (te_chan t) i = Some r"
    and "dict_get cmd ''channel_name'' = Some (VStr n)" and "dict_get cmd ''channel_id'' \<in> {None, Some (VInt i)}"
    and "dict_get cmd ''operation'' = Some operation"
  shows "channel_commander fr cmd t = channel_operation fr operation (r, i) cmd t"
proof -
  have "get_id n (env_registry (te_chan t)) = (Inr (Some i), env_registry (te_chan t))"
    using assms(1) by (simp add: get_id_def)
  then have "command_channel_key fr cmd t = (Inr (Inr (VInt i)), t)"
    using assms(3,4) by (auto simp: command_channel_key_def has_channel_def)
  moreover have "find_channel (VInt i) t = (Inr (Some (r, i)), t)"
    using get_item_ref [OF assms(2)] by (simp add: find_channel_def id_key_def)
  ultimately show ?thesis
    using assms(3,5) by (simp add: channel_commander_def missing_key_def dict_item_def)
qed

lemma plain_channel:
  assumes "dict_get (te_enum_channels t) i \<in> {None, Some (-1)}"
  obtains t' where "is_enum_channel i t = (Inr False, t')" and "te_chan t' = te_chan t"
    and "dict_get (te_enum_channels t') i = Some (-1)"
proof (cases "dict_get (te_enum_channels t) i")
  case None
  show thesis
    by (rule that [of "t\<lparr>te_enum_channels := dict_set i (-1) (te_enum_channels t)\<rparr>"])
      (use None in \<open>simp_all add: is_enum_channel_def enum_channel_type_def\<close>)
next
  case (Some ty)
  then show thesis using assms by (intro that [of t]) (auto simp: is_enum_channel_def enum_channel_type_def)
qed

text \<open>What a command makes of a channel's value, when it sets the channel to a new value.\<close>

definition commanded :: "channel \<Rightarrow> pyval \<Rightarrow> pyval" where
  "commanded c v =
     (if ch_commandable c \<and> accepts (tp_type c) v then convert (py_type_of (prim_value (tp_type c))) v else tp_data c)"

lemma command_run:
  assumes "env_good e" and "chan_ref e i = Some r" and "c = chan_at e r"
  obtains e' c' where "on_channel r (ch_command v (Some time) False) e = (Inr (ch_commandable c \<and> accepts (tp_type c) v), e')"
    and "env_good e'" and "env_registry e' = env_registry e" and "chan_of e' = (chan_of e)(i \<mapsto> c')"
    and "tp_data c' = commanded c v" and "tp_type c' = tp_type c"
proof -
  let ?ok = "ch_commandable c \<and> accepts (tp_type c) v"
  have "\<exists>c' q. ch_command v (Some time) False (c, env_events e) = (Inr ?ok, (c', q)) \<and>
      tp_data c' = commanded c v \<and> tp_type c' = tp_type c"
    by (simp add: ch_command_def ch_set_def tp_set_run commanded_def)
  then obtain c' q where run: "ch_command v (Some time) False (c, env_events e) = (Inr ?ok, (c', q))"
      "tp_data c' = commanded c v" "tp_type c' = tp_type c"
    by blast
  let ?e = "e\<lparr>env_objects := (env_objects e)[r := c'], env_events := q\<rparr>"
  have "on_channel r (ch_command v (Some time) False) e = (Inr ?ok, ?e)"
    using run(1) assms(3) by (simp add: on_channel_def zoom_def)
  then show thesis using chan_of_update [OF assms(1,2), where c = c' and q = q] run(2,3) by (intro that [of ?e c']) simp_all
qed

lemma get_command:
  assumes "dict_get (reg_mappings (env_registry (te_chan t))) n = Some (Some i)"
    and "chan_of (te_chan t) i = Some c" and "dict_get (te_enum_channels t) i \<in> {None, Some (-1)}"
  shows "fst (channel_commander fr [(''operation'', VStr ''get''), (''channel_name'', VStr n)] t) = Inr (True, py_str fr (tp_data c))"
proof -
  obtain r where r: "chan_ref (te_chan t) i = Some r" "c = chan_at (te_chan t) r" by (rule chan_ofE [OF assms(2)])
  obtain t' where t': "is_enum_channel i t = (Inr False, t')" "te_chan t' = te_chan t" by (rule plain_channel [OF assms(3)])
  have "channel_commander fr [(''operation'', VStr ''get''), (''channel_name'', VStr n)] t =
      channel_operation fr (VStr ''get'') (r, i) [(''operation'', VStr ''get''), (''channel_name'', VStr n)] t"
    by (rule commander_reaches [OF assms(1) r(1)]) simp_all
  also have "\<dots> = (Inr (True, py_str fr (tp_data c)), t')"
    using t' r by (simp add: channel_operation_def channel_get_def tp_get_def bindp_def)
  finally show ?thesis by simp
qed

lemma set_command_run:
  assumes "env_good (te_chan t)"
    and "dict_get (reg_mappings (env_registry (te_chan t))) n = Some (Some i)"
    and "chan_of (te_chan t) i = Some c" and "dict_get (te_enum_channels t) i \<in> {None, Some (-1)}"
    and "dict_get cmd ''operation'' = Some (VStr ''set'')" and "dict_get cmd ''channel_name'' = Some (VStr n)"
    and "dict_get cmd ''channel_id'' \<in> {None, Some (VInt i)}" and "dict_get cmd ''value'' = Some v"
  shows "\<exists>msg t' c'. channel_commander fr cmd t = (Inr (ch_commandable c \<and> accepts (tp_type c) v, msg), t') \<and>
    env_good (te_chan t') \<and> chan_of (te_chan t') = (chan_of (te_chan t))(i \<mapsto> c') \<and>
    tp_type c' = tp_type c \<and> tp_data c' = commanded c v \<and>
    fst (channel_commander fr [(''operation'', VStr ''get''), (''channel_name'', VStr n)] t') =
      Inr (True, py_str fr (commanded c v))"
proof -
  obtain r where r: "chan_ref (te_chan t) i = Some r" "c = chan_at (te_chan t) r" by (rule chan_ofE [OF assms(3)])
  obtain t1 where t1: "is_enum_channel i t = (Inr False, t1)" "te_chan t1 = te_chan t"
      "dict_get (te_enum_channels t1) i = Some (-1)"
    by (rule plain_channel [OF assms(4)])
  obtain e' c' where e': "on_channel r (ch_command v (Some (get_time (te_chan t))) False) (te_chan t) =
        (Inr (ch_commandable c \<and> accepts (tp_type c) v), e')"
      "env_good e'" "env_registry e' = env_registry (te_chan t)" "chan_of e' = (chan_of (te_chan t))(i \<mapsto> c')"
      "tp_data c' = commanded c v" "tp_type c' = tp_type c"
    by (rule command_run [OF assms(1) r])
  let ?t = "t1\<lparr>te_chan := e'\<rparr>"
  have "channel_commander fr cmd t = channel_operation fr (VStr ''set'') (r, i) cmd t"
    by (rule commander_reaches [OF assms(2) r(1) assms(6,7,5)])
  then have "\<exists>msg. channel_commander fr cmd t = (Inr (ch_commandable c \<and> accepts (tp_type c) v, msg), ?t)"
    using t1 e'(1) assms(8) by (simp add: channel_operation_def channel_set_def zoom_def bindp_def)
  moreover have "fst (channel_commander fr [(''operation'', VStr ''get''), (''channel_name'', VStr n)] ?t) =
      Inr (True, py_str fr (tp_data c'))"
    by (rule get_command [where i = i]) (use e' t1 assms(2) in simp_all)
  ultimately show ?thesis using e' by auto
qed

text \<open>An enumeration channel commanded to a name its enumeration does not have.\<close>

lemma unknown_name_raises:
  assumes "dict_get (reg_mappings (env_registry (te_chan t))) n = Some (Some i)"
    and "chan_ref (te_chan t) i = Some r"
    and "dict_get (te_enum_channels t) i = Some ty" and "ty \<noteq> -1"
    and "dict_get (reg_items (er_reg (te_enums t))) ty = Some (Some u)"
    and "dict_get (ue_strings u) (str_lower name) \<in> {None, Some None}"
    and "dict_get cmd ''operation'' = Some (VStr ''set'')" and "dict_get cmd ''channel_name'' = Some (VStr n)"
    and "dict_get cmd ''channel_id'' = None" and "dict_get cmd ''value'' = Some (VStr name)"
  shows "fst (channel_commander fr cmd t) = Inl AssertionError"
proof -
  have is_enum: "is_enum_channel i t = (Inr True, t)" "enum_channel_type i t = (Inr ty, t)"
    using assms(3,4) by (simp_all add: is_enum_channel_def enum_channel_type_def)
  have item: "get_item ty (er_reg (te_enums t)) = (Inr (Some u), er_reg (te_enums t))"
    using assms(5) by (simp add: get_item_def)
  have "fst (get_value name u) = Inl AssertionError"
    using assms(6) by (auto simp: get_value_def lookup_string_def bindp_def split: option.splits)
  then obtain u' where "get_value name u = (Inl AssertionError, u')" by (metis prod.collapse)
  with is_enum item have "fst (command_enum_channel_id i name t) = Inl AssertionError"
    by (simp add: command_enum_channel_id_def on_enum_def zoom_def bindp_def)
  then obtain t' where "command_enum_channel_id i name t = (Inl AssertionError, t')" by (metis prod.collapse)
  moreover have "channel_commander fr cmd t = channel_operation fr (VStr ''set'') (r, i) cmd t"
    by (rule commander_reaches [OF assms(1,2,8) _ assms(7)]) (simp add: assms(9))
  ultimately show ?thesis
    using is_enum assms(10) by (simp add: channel_operation_def channel_set_def bindp_def)
qed

text \<open>The exception of a consumer ends the daemon's \<open>run\<close>.\<close>

lemma run_raises:
  assumes "quiet (cd_daemon s)" and "qo_meter (cd_queue s) = None"
    and "qo_items (cd_queue s) = Some (VDict items, cb) # rest"
    and "dict_get items ''command'' = Some (VStr name)" and "dict_get items ''data'' = Some (VDict cmd)"
    and "val_get (cd_handlers s) (VStr name) = Some ((Consumer h, rcb, msg) # entries)"
    and "\<And>d. fst (call h (dict_update [] cmd, d, cd_world s)) = Inl err"
  shows "fst (cd_run fr call answer s) = Inl err"
proof -
  obtain d where d: "increment_metric ''command_count'' (VInt 1) (cd_daemon s) = (Inr (), d)"
    by (rule quiet_increment_run [OF assms(1)])
  obtain p where "call h (dict_update [] cmd, d, cd_world s) = (Inl err, p)" using assms(7) [of d] by (metis prod.collapse)
  then have "fst (elem_handle fr call answer (VDict items, cb) s) = Inl err"
    using d assms(4-6)
    by (simp add: elem_handle_def handlers_at_def run_consumer_def call_consumer_def zoom_def bindp_def split: prod.split)
  then obtain s' where "elem_handle fr call answer (VDict items, cb) s = (Inl err, s')" by (metis prod.collapse)
  moreover have "cd_on_get s = (Inr (), s)" using assms(2) by (simp add: cd_on_get_def meter_get_def zoom_def)
  ultimately show ?thesis using assms(3) by (simp add: cd_run_def)
qed

section \<open>Properties\<close>


text \<open>A command daemon with the help command and the channel commander over the environment of the groups.\<close>

definition sample_commands :: "(app_consumer, nat, app_world) command_daemon" where
  "sample_commands =
     \<lparr>cd_daemon = blank_daemon ''commands'' None,
      cd_handlers = [(VStr ''help'', [(HelpHandler, None, ''inquire about available command usages'')]),
        (VStr ''channel'', [(Consumer ChannelCommander, None, channel_help)])],
      cd_queue = \<lparr>qo_items = [], qo_maxsize = 256, qo_meter = None\<rparr>,
      cd_world = \<lparr>aw_env = sample_env, aw_manager = new_manager, aw_answers = []\<rparr>\<rparr>"

lemma sample_commands_quiet: "quiet (cd_daemon sample_commands)"
  by (simp add: sample_commands_def quiet_def blank_daemon_def)


text \<open>
  Property C23: the channel commander sets the channel that a command names. The command succeeds
  exactly when the channel can be commanded and accepts the value; then the channel holds the value,
  converted to its type, and otherwise what it held before. No other channel changes, and a
  command to get the channel answers with what it holds.
\<close>

theorem channel_commanded:
  assumes "env_good (te_chan t)"
    and "dict_get (reg_mappings (env_registry (te_chan t))) n = Some (Some i)"
    and "chan_of (te_chan t) i = Some c" and "dict_get (te_enum_channels t) i \<in> {None, Some (-1)}"
    and "dict_get cmd ''operation'' = Some (VStr ''set'')" and "dict_get cmd ''channel_name'' = Some (VStr n)"
    and "dict_get cmd ''channel_id'' \<in> {None, Some (VInt i)}" and "dict_get cmd ''value'' = Some v"
  shows "\<exists>msg t' c'. channel_commander fr cmd t = (Inr (ch_commandable c \<and> accepts (tp_type c) v, msg), t') \<and>
    env_good (te_chan t') \<and> chan_of (te_chan t') = (chan_of (te_chan t))(i \<mapsto> c') \<and>
    tp_type c' = tp_type c \<and> tp_data c' = commanded c v \<and>
    fst (channel_commander fr [(''operation'', VStr ''get''), (''channel_name'', VStr n)] t') =
      Inr (True, py_str fr (commanded c v))"
  by (rule set_command_run [OF assms])

theorem channel_commanded_witness:
  "\<exists>msg t'. channel_commander (\<lambda>_. []) [(''operation'', VStr ''set''), (''channel_name'', VStr ''g.level''), (''value'', VInt 7)] sample_env =
     (Inr (True, msg), t') \<and>
   fst (channel_commander (\<lambda>_. []) [(''operation'', VStr ''get''), (''channel_name'', VStr ''g.level'')] t') = Inr (True, ''7'')"
proof -
  let ?c = "new_channel ''g.level'' INT16 0 True True False"
  have good: "env_good (te_chan sample_env)" using sample_group_ok by (simp add: group_ok_def t_good_def)
  have name: "dict_get (reg_mappings (env_registry (te_chan sample_env))) ''g.level'' = Some (Some 0)"
    and plain: "dict_get (te_enum_channels sample_env) 0 \<in> {None, Some (-1)}"
    by (simp_all add: sample_env_def)
  have ok: "ch_commandable ?c" "accepts (tp_type ?c) (VInt 7)" "commanded ?c (VInt 7) = VInt 7"
    by (simp_all add: commanded_def accepts_def new_channel_def new_type_primitive_def type_primitive.defs channel.defs
        py_validate_def prim_validate_int INTEGER_PRIMITIVES_def integer_can_hold_def integer_bounds_def int_primitive_def)
  have "py_str (\<lambda>_. []) (VInt 7) = ''7''" by code_simp
  with channel_commanded [OF good name sample_views(3) plain,
      of "[(''operation'', VStr ''set''), (''channel_name'', VStr ''g.level''), (''value'', VInt 7)]" "VInt 7" "\<lambda>_. []"] ok
  show ?thesis by auto
qed

text \<open>
  A command that sets an enumeration channel to a name its enumeration does not have
  raises out of the commander, and the exception ends the run of the command daemon: the commands
  behind it stay in the queue.
\<close>

theorem bad_enum_command_ends_run:
  fixes s :: "(app_consumer, nat, app_world) command_daemon"
  assumes "quiet (cd_daemon s)" and "qo_meter (cd_queue s) = None"
    and "qo_items (cd_queue s) = Some (VDict [(''command'', VStr ''channel''), (''data'', VDict cmd)], cb) # rest"
    and "cmd = [(''operation'', VStr ''set''), (''channel_name'', VStr n), (''value'', VStr name)]"
    and "val_get (cd_handlers s) (VStr ''channel'') = Some ((Consumer ChannelCommander, rcb, msg) # entries)"
    and "t = aw_env (cd_world s)" and "dict_get (reg_mappings (env_registry (te_chan t))) n = Some (Some i)"
    and "chan_ref (te_chan t) i = Some r" and "dict_get (te_enum_channels t) i = Some ty" and "ty \<noteq> -1"
    and "dict_get (reg_items (er_reg (te_enums t))) ty = Some (Some u)"
    and "dict_get (ue_strings u) (str_lower name) = None"
  shows "fst (cd_run fr (app_call fr inject wait) app_answer s) = Inl AssertionError"
proof (rule run_raises [OF assms(1-3) _ _ assms(5)])
  fix d
  have cmd: "dict_update [] cmd = cmd" using assms(4) by simp
  have "fst (channel_commander fr cmd t) = Inl AssertionError"
    by (rule unknown_name_raises [OF assms(7-11)]) (use assms(4,12) in simp_all)
  then show "fst (app_call fr inject wait ChannelCommander (dict_update [] cmd, d, cd_world s)) = Inl AssertionError"
    using assms(6) by (simp add: cmd app_call_def case_prod_unfold)
qed simp_all

theorem bad_enum_command_ends_run_witness:
  "fst (cd_run (\<lambda>_. []) (app_call (\<lambda>_. []) (\<lambda>_. None) (\<lambda>_. ret ())) app_answer
     (sample_commands\<lparr>cd_queue := \<lparr>qo_items = [Some (VDict [(''command'', VStr ''channel''), (''data'', VDict
        [(''operation'', VStr ''set''), (''channel_name'', VStr ''g.mode''), (''value'', VStr ''idle'')])], None), None],
        qo_maxsize = 256, qo_meter = None\<rparr>\<rparr>)) = Inl AssertionError"
proof -
  have low: "str_lower ''idle'' = ''idle''" by (simp add: str_lower_def char_lower_def is_upper_def)
  show ?thesis
    by (rule bad_enum_command_ends_run [where n = "''g.mode''" and i = 1 and ty = 0 and r = 1 and name = "''idle''"
        and u = "\<lparr>ue_name = ''mode'', ue_mappings = [(0, ''off''), (1, ''on'')], ue_default = ''off'',
          ue_strings = [(''off'', Some 0), (''on'', Some 1)]\<rparr>", OF _ _ _ refl _ refl])
      (use sample_commands_quiet low in \<open>simp_all add: sample_commands_def sample_env_def chan_ref_def val_get_def\<close>)
qed

end
