(* ===== verification/Message_Framer.thy ===== *)
theory Message_Framer
  imports Decoding
begin

text \<open>
  The message framer (\<open>vtelem/message/framer.py\<close>): a message of any length is cut into fragments
  that fit the maximum frame size, each in a message frame that carries the message's type,
  number and checksum, the fragment's index and the number of fragments.
\<close>

section \<open>Serialization\<close>

record message_framer =
  mf_framer :: framer
  mf_message_numbers :: "(message_type, int) dict"

definition all_message_types :: "message_type list" where
  "all_message_types = [AGNOSTIC, TEXT, JSON, ENUM, ENUM_REGISTRY, PRIMITIVE]"

definition new_message_framer :: "int \<Rightarrow> pyfloat option \<Rightarrow> int \<Rightarrow> bool \<Rightarrow> py_error + message_framer" where
  "new_message_framer mtu app_id_basis rnd use_crc =
     (case new_framer mtu app_id_basis rnd use_crc of
        Inl e \<Rightarrow> Inl e
      | Inr fr \<Rightarrow> Inr \<lparr>mf_framer = fr, mf_message_numbers = map (\<lambda>t. (t, 0)) all_message_types\<rparr>)"

definition message_frame :: "pyfloat option \<Rightarrow> (message_framer, frame) py" where
  "message_frame time =
     bindp (zoom mf_framer (\<lambda>fr m. m\<lparr>mf_framer := fr\<rparr>) (new_frame ''message'' time)) (\<lambda>f.
     bindp (assertp (fr_class f = MessageFrame)) (\<lambda>_. ret f))"

text \<open>Storing the fragment index in the shared field primitives.\<close>

definition set_index :: "int \<Rightarrow> field_data \<Rightarrow> py_error + field_data" where
  "set_index idx fd =
     (case dict_item fd ''fragment_index'' of
        Inl e \<Rightarrow> Inl e
      | Inr tp \<Rightarrow> Inr (dict_set ''fragment_index'' (fst (snd (tp_set (VInt idx) None tp))) fd))"

definition fill_message_frame :: "field_data \<Rightarrow> byte list \<Rightarrow> bool \<Rightarrow> int \<Rightarrow> frame \<Rightarrow> py_error + int \<times> frame" where
  "fill_message_frame fd fragment use_crc rnd f =
     (case bindp (initialize fd fragment) (\<lambda>_. finalize use_crc rnd) f of
        (Inl e, _) \<Rightarrow> Inl e
      | (Inr n, f') \<Rightarrow> Inr (n, f'))"

fun serialize_loop :: "int list \<Rightarrow> byte list \<Rightarrow> pyfloat option \<Rightarrow> int \<Rightarrow> int \<Rightarrow> frame \<Rightarrow> field_data \<Rightarrow> int \<Rightarrow> int \<Rightarrow>
    frame list \<Rightarrow> int \<Rightarrow> (message_framer, frame list \<times> int) py" where
  "serialize_loop [] message time per_frame rnd frame base_params to_frame frame_start frames total_bytes =
     ret (frames, total_bytes)"
| "serialize_loop (idx # idxs) message time per_frame rnd frame base_params to_frame frame_start frames total_bytes =
     bindp (assertp (to_frame \<noteq> 0)) (\<lambda>_.
     bindp (lift_res (set_index idx base_params)) (\<lambda>params.
     bindp (gets (\<lambda>m. frm_use_crc (mf_framer m))) (\<lambda>use_crc.
     let fsize = min to_frame per_frame
     in bindp (lift_res (fill_message_frame params (py_slice message frame_start (frame_start + fsize))
                 use_crc rnd frame)) (\<lambda>(n, frame').
        bindp (if to_frame - fsize \<noteq> 0 then message_frame time else ret frame') (\<lambda>next_frame.
        serialize_loop idxs message time per_frame rnd next_frame params (to_frame - fsize)
          (frame_start + fsize) (frames @ [frame']) (total_bytes + n))))))"

definition serialize_message :: "byte list \<Rightarrow> pyfloat option \<Rightarrow> message_type \<Rightarrow> int \<Rightarrow>
    (message_framer, frame list \<times> int) py" where
  "serialize_message message time mtype rnd =
     bindp (message_frame time) (\<lambda>frame.
     bindp (lift_res (frames_required frame (int (length message)))) (\<lambda>(total_frames, per_frame).
     bindp (gets (\<lambda>m. dict_item (mf_message_numbers m) mtype)) (\<lambda>r. bindp (lift_res r) (\<lambda>number.
     let base_params = create_fields
           [(''message_type'', VInt (message_type_value mtype)), (''message_number'', VInt number),
            (''message_crc'', VInt (messag_crc message)), (''fragment_index'', VInt 0),
            (''total_fragments'', VInt total_frames)]
     in bindp (modify (\<lambda>m. m\<lparr>mf_message_numbers := dict_set mtype (number + 1) (mf_message_numbers m)\<rparr>)) (\<lambda>_.
        serialize_loop (map int [0..<nat total_frames]) message time per_frame rnd frame base_params
          (int (length message)) 0 [] 0)))))"

section \<open>The fields of a fragment\<close>

lemma messag_crc_range: "0 \<le> messag_crc m \<and> messag_crc m < 2 ^ 32"
  using crc_range by (simp add: messag_crc_def)

lemma created_field:
  assumes "tp_type tp = p" and "accepts p (VInt n)"
  shows "holds_uint p n (fst (snd (tp_set (VInt n) None tp)))"
  using tp_set_uint [of tp n] assms by (auto simp: holds_uint_def)

lemma create_fields_hold:
  assumes "fields_ok ty num c idx tot"
  shows "fields_hold (create_fields
      [(''message_type'', VInt ty), (''message_number'', VInt num), (''message_crc'', VInt c),
       (''fragment_index'', VInt idx), (''total_fragments'', VInt tot)]) ty num c idx tot"
  using assms unfolding fields_hold_def
  by (simp add: create_fields_def MESSAGE_FIELDS_def fields_ok_def created_field accepts_uint
      new_type_primitive_def)

lemma set_index_hold:
  assumes "fields_hold fd ty num c idx tot" and "0 \<le> k" and "k < 2 ^ 16"
  obtains fd' where "set_index k fd = Inr fd'" and "fields_hold fd' ty num c k tot"
proof -
  obtain p where p: "dict_get fd ''fragment_index'' = Some p" "holds_uint UINT16 idx p"
    using assms(1) unfolding fields_hold_def by blast
  let ?p = "fst (snd (tp_set (VInt k) None p))"
  have h: "holds_uint UINT16 k ?p"
    using created_field [of p UINT16 k] p(2) assms(2,3) by (simp add: holds_uint_def accepts_uint)
  have "set_index k fd = Inr (dict_set ''fragment_index'' ?p fd)"
    using p(1) by (simp add: set_index_def)
  moreover have "fields_hold (dict_set ''fragment_index'' ?p fd) ty num c k tot"
    using assms(1) h unfolding fields_hold_def by simp
  ultimately show thesis using that by blast
qed

section \<open>The bytes of the fragments\<close>

text \<open>A finished frame with these bytes and this size.\<close>

definition frame_done :: "frame \<Rightarrow> byte list \<Rightarrow> bool" where
  "frame_done f bs \<longleftrightarrow> raw f = Inr (bs, int (length bs))"

lemma fill_message_frame_run:
  assumes "frame_open f a t s [] []" and "\<not> fr_initialized f" and "fr_class f = MessageFrame"
    and "fr_count_value f = 0" and "(fr_crc f \<noteq> None) = use_crc"
    and "fields_hold fd ty num c idx tot" and "fields_ok ty num c idx tot"
    and "frame_overhead f + int (length frag) \<le> fr_mtu f" and "length frag < 2 ^ 32"
  obtains f' where "fill_message_frame fd frag use_crc rnd f = Inr (int (length (frame_image use_crc a t s
      (int (length frag)) (message_header ty num c idx tot @ frag))), f')"
    and "frame_done f' (frame_image use_crc a t s (int (length frag)) (message_header ty num c idx tot @ frag))"
proof -
  let ?body = "message_header ty num c idx tot @ frag"
  let ?n = "int (length frag)"
  let ?img = "frame_image use_crc a t s ?n ?body"
  obtain f1 where f1: "initialize fd frag f = (Inr (), f1)" "frame_open f1 a t s ?body []"
      "fr_count_value f1 = fr_count_value f + ?n" "fr_initialized f1" "fr_class f1 = fr_class f"
      "fr_mtu f1 = fr_mtu f" "fr_crc f1 = fr_crc f" "bb_tight (fr_buffer f1)"
    by (rule initialize_run [OF assms(1,2,6-8)])
  have cls: "fr_class f1 = MessageFrame" and cnt: "fr_count_value f1 = ?n"
    using f1(3,5) assms(3,4) by simp_all
  have n32: "?n < 2 ^ 32" using assms(9) by simp
  obtain f2 where f2: "finalize use_crc rnd f1 = (Inr (fr_used f1), f2)" "fr_finalized f2"
      "fr_used f2 = fr_used f1" "fr_mtu f2 = fr_mtu f1"
      "bb_data (fr_buffer f2) = sealed f1 use_crc rnd (frame_header a t s ?n @ ?body)"
    by (rule finalize_message_frame [OF f1(2) cls f1(4,8) cnt _ n32, of use_crc rnd]) simp_all
  have img: "sealed f1 use_crc rnd (frame_header a t s ?n @ ?body) = ?img"
    using f1(7) assms(5) by (cases use_crc) (auto simp: sealed_def frame_image_def Let_def)
  have used: "fr_used f1 = int (length ?img)"
    using f1(2,7) assms(5) by (auto simp: frame_open_def crc_len_def split: option.splits)
  have "fill_message_frame fd frag use_crc rnd f = Inr (int (length ?img), f2)"
    using f1(1) f2(1) used by (simp add: fill_message_frame_def)
  moreover have "frame_done f2 ?img"
    using f2(2,3,5) img used by (simp add: frame_done_def raw_def)
  ultimately show thesis using that by blast
qed

definition time_ok :: "pyfloat option \<Rightarrow> bool" where
  "time_ok time = (case time of None \<Rightarrow> True
     | Some x \<Rightarrow> (\<exists>n. time_to_int x 1000 = Inr n \<and> 0 \<le> n \<and> n < 2 ^ 64))"

definition fresh_frame :: "frame \<Rightarrow> int \<Rightarrow> bool \<Rightarrow> int \<Rightarrow> pyfloat option \<Rightarrow> int \<Rightarrow> bool" where
  "fresh_frame f a use_crc mtu time s \<longleftrightarrow>
     frame_open f a (frame_type_value MESSAGE) s [] [] \<and> header_ok a (frame_type_value MESSAGE) s \<and>
     \<not> fr_initialized f \<and> fr_class f = MessageFrame \<and> fr_count_value f = 0 \<and>
     (fr_crc f \<noteq> None) = use_crc \<and> fr_mtu f = mtu \<and>
     (\<forall>x. time = Some x \<longrightarrow> time_to_int x 1000 = Inr s)"

text \<open>A message framer of an application, a maximum size and a checksum setting.\<close>

definition mf_ok :: "message_framer \<Rightarrow> int \<Rightarrow> int \<Rightarrow> bool \<Rightarrow> bool" where
  "mf_ok m a mtu use_crc \<longleftrightarrow> framer_ok (mf_framer m) a \<and> frm_mtu (mf_framer m) = mtu \<and>
     frm_use_crc (mf_framer m) = use_crc"

lemma message_frame_run:
  assumes "mf_ok m a mtu use_crc" and "time_ok time" and "15 + (if use_crc then 4 else 0) < mtu"
  obtains f m' s where "message_frame time m = (Inr f, m')" and "fresh_frame f a use_crc mtu time s"
    and "mf_ok m' a mtu use_crc" and "mf_message_numbers m' = mf_message_numbers m"
proof -
  have ok: "framer_ok (mf_framer m) a" and mtu: "frm_mtu (mf_framer m) = mtu"
    and uc: "frm_use_crc (mf_framer m) = use_crc"
    using assms(1) by (simp_all add: mf_ok_def)
  have room: "15 + (if frm_use_crc (mf_framer m) then 4 else 0) < frm_mtu (mf_framer m)"
    using assms(3) mtu uc by simp
  have name: "frame_type_name MESSAGE = ''message''" by simp
  obtain f fr' s where f: "new_frame ''message'' time (mf_framer m) = (Inr f, fr')"
      "frame_open f a (frame_type_value MESSAGE) s [] []" "header_ok a (frame_type_value MESSAGE) s"
      "framer_ok fr' a" "frm_mtu fr' = frm_mtu (mf_framer m)"
      "frm_use_crc fr' = frm_use_crc (mf_framer m)" "fr_class f = FRAME_CLASS_MAP ''message''"
      "fr_mtu f = frm_mtu (mf_framer m)" "fr_count_value f = 0" "\<not> fr_initialized f"
      "(fr_crc f \<noteq> None) = frm_use_crc (mf_framer m)"
      "\<forall>x. time = Some x \<longrightarrow> time_to_int x 1000 = Inr s"
    by (rule new_frame_run [OF ok _ room, of time MESSAGE, unfolded name])
      (use assms(2) in \<open>simp add: time_ok_def\<close>)
  have cls: "fr_class f = MessageFrame" using f(7) by (simp add: FRAME_CLASS_MAP_def)
  have "message_frame time m = (Inr f, m\<lparr>mf_framer := fr'\<rparr>)"
    using f(1) cls by (simp add: message_frame_def)
  moreover have "fresh_frame f a use_crc mtu time s"
    using f cls mtu uc by (simp add: fresh_frame_def)
  ultimately show thesis using that f(4-6) mtu uc by (simp add: mf_ok_def)
qed

text \<open>The i-th fragment of a message, and the frame that carries it.\<close>

definition fragment :: "nat \<Rightarrow> byte list \<Rightarrow> nat \<Rightarrow> byte list" where
  "fragment per message i = take per (drop (i * per) message)"

definition carries :: "byte list \<Rightarrow> bool \<Rightarrow> int \<Rightarrow> pyfloat option \<Rightarrow> int \<Rightarrow> int \<Rightarrow> int \<Rightarrow> int \<Rightarrow> int \<Rightarrow>
    byte list \<Rightarrow> bool" where
  "carries bs use_crc a time ty num c idx tot frag \<longleftrightarrow>
     (\<exists>s. header_ok a (frame_type_value MESSAGE) s \<and>
        (\<forall>x. time = Some x \<longrightarrow> time_to_int x 1000 = Inr s) \<and>
        bs = frame_image use_crc a (frame_type_value MESSAGE) s (int (length frag))
          (message_header ty num c idx tot @ frag))"

text \<open>The setting of one serialization: what stays the same over its fragments.\<close>

definition ser_ok :: "bool \<Rightarrow> int \<Rightarrow> nat \<Rightarrow> byte list \<Rightarrow> nat \<Rightarrow> bool" where
  "ser_ok use_crc mtu per message n \<longleftrightarrow>
     0 < per \<and> int per = mtu - (11 + 15 + (if use_crc then 4 else 0)) \<and> per < 2 ^ 32 \<and> n < 2 ^ 16 \<and>
     length message \<le> n * per \<and> (\<forall>i < n. i * per < length message)"

lemma fragment_length: "length (fragment per message i) = min (length message - i * per) per"
  by (simp add: fragment_def)

lemma serialize_step:
  assumes "fresh_frame f a use_crc mtu time s" and "ser_ok use_crc mtu per message n" and "i < n"
    and "fields_hold fd ty num c k (int n)" and "fields_ok ty num c 0 (int n)"
  obtains fd' f' bs where "set_index (int i) fd = Inr fd'"
    and "fields_hold fd' ty num c (int i) (int n)"
    and "fill_message_frame fd' (py_slice message (int (i * per))
           (int (i * per) + min (int (length message - i * per)) (int per))) use_crc rnd f =
         Inr (int (length bs), f')"
    and "frame_done f' bs"
    and "carries bs use_crc a time ty num c (int i) (int n) (fragment per message i)"
proof -
  let ?frag = "fragment per message i"
  have ok: "0 < per" "int per = mtu - (11 + 15 + (if use_crc then 4 else 0))" "per < 2 ^ 32" "n < 2 ^ 16"
      "i * per < length message"
    using assms(2,3) by (simp_all add: ser_ok_def)
  have idx: "(0 :: int) \<le> int i" "int i < 2 ^ 16" using assms(3) ok(4) by simp_all
  obtain fd' where fd': "set_index (int i) fd = Inr fd'" "fields_hold fd' ty num c (int i) (int n)"
    by (rule set_index_hold [OF assms(4) idx])
  have fok: "fields_ok ty num c (int i) (int n)" using assms(5) idx by (simp add: fields_ok_def)
  have len: "length ?frag = min (length message - i * per) per" by (rule fragment_length)
  have end_eq: "int (i * per) + min (int (length message - i * per)) (int per) =
      int (i * per + length ?frag)"
    using len by simp
  have "i * per + length ?frag \<le> length message" using len ok(5) by linarith
  then have "py_slice message (int (i * per)) (int (i * per + length ?frag)) =
      take (length ?frag) (drop (i * per) message)"
    by (rule py_slice_int)
  then have slice: "py_slice message (int (i * per)) (int (i * per + length ?frag)) = ?frag"
    by (simp add: fragment_def min_def)
  have f: "frame_open f a (frame_type_value MESSAGE) s [] []" "\<not> fr_initialized f"
      "fr_class f = MessageFrame" "fr_count_value f = 0" "(fr_crc f \<noteq> None) = use_crc" "fr_mtu f = mtu"
    using assms(1) by (simp_all add: fresh_frame_def)
  have "fr_overhead f = 15 + (if use_crc then 4 else 0)"
    using f(1,5) by (auto simp: frame_open_def crc_len_def split: option.splits)
  then have "frame_overhead f = 11 + 15 + (if use_crc then 4 else 0)"
    by (simp add: frame_overhead_def HEADER_SIZE_def MESSAGE_FIELDS_def int_primitive_def)
  then have fits: "frame_overhead f + int (length ?frag) \<le> fr_mtu f"
    using len ok(2) f(6) by simp
  have l32: "length ?frag < 2 ^ 32" using len ok(3) by simp
  obtain f' where f': "fill_message_frame fd' ?frag use_crc rnd f = Inr (int (length (frame_image use_crc a
        (frame_type_value MESSAGE) s (int (length ?frag))
        (message_header ty num c (int i) (int n) @ ?frag))), f')"
      "frame_done f' (frame_image use_crc a (frame_type_value MESSAGE) s (int (length ?frag))
        (message_header ty num c (int i) (int n) @ ?frag))"
    by (rule fill_message_frame_run [OF f(1-5) fd'(2) fok fits l32])
  have "carries (frame_image use_crc a (frame_type_value MESSAGE) s (int (length ?frag))
        (message_header ty num c (int i) (int n) @ ?frag)) use_crc a time ty num c (int i) (int n) ?frag"
    using assms(1) by (auto simp: carries_def fresh_frame_def)
  with that [OF fd' _ f'(2)] f'(1) slice end_eq show thesis by simp
qed

lemma serialize_loop_step:
  assumes "to \<noteq> 0" and "set_index idx fd = Inr fd'" and "frm_use_crc (mf_framer m) = use_crc"
    and "fill_message_frame fd' (py_slice message start (start + min to per)) use_crc rnd f = Inr (k, f')"
    and "(if to - min to per \<noteq> 0 then message_frame time else ret f') m = (Inr nf, m1)"
  shows "serialize_loop (idx # idxs) message time per rnd f fd to start frames tb m =
    serialize_loop idxs message time per rnd nf fd' (to - min to per) (start + min to per)
      (frames @ [f']) (tb + k) m1"
proof -
  have "serialize_loop (idx # idxs) message time per rnd f fd to start frames tb m =
    bindp (if to - min to per \<noteq> 0 then message_frame time else ret f') (\<lambda>next_frame.
        serialize_loop idxs message time per rnd next_frame fd' (to - min to per)
          (start + min to per) (frames @ [f']) (tb + k)) m"
    using assms(1-4) by (simp add: Let_def)
  also have "\<dots> = serialize_loop idxs message time per rnd nf fd' (to - min to per) (start + min to per)
      (frames @ [f']) (tb + k) m1"
    by (rule bindp_Inr) (rule assms(5))
  finally show ?thesis .
qed

lemma serialize_loop_run:
  assumes "ser_ok use_crc mtu per message n" and "fields_ok ty num c 0 (int n)" and "time_ok time"
  shows "\<lbrakk>i \<le> n; mf_ok m a mtu use_crc; i < n \<Longrightarrow> fresh_frame f a use_crc mtu time s;
      fields_hold fd ty num c k (int n); i < n \<Longrightarrow> start = int (i * per)\<rbrakk> \<Longrightarrow>
    \<exists>fs bss m'. serialize_loop (map int [i..<n]) message time (int per) rnd f fd
        (int (length message - i * per)) start frames tb m =
      (Inr (frames @ fs, tb + int (length (concat bss))), m') \<and>
      list_all2 frame_done fs bss \<and>
      list_all2 (\<lambda>j bs. carries bs use_crc a time ty num c (int j) (int n) (fragment per message j)) [i..<n] bss \<and>
      mf_ok m' a mtu use_crc \<and> mf_message_numbers m' = mf_message_numbers m"
proof (induction "n - i" arbitrary: i m f fd k s start frames tb)
  case 0
  then have "i = n" by simp
  with "0.prems"(2) show ?case
    by (intro exI [of _ "[]"] exI [of _ m]) simp
next
  case (Suc d)
  have lt: "i < n" using Suc.hyps(2) by simp
  have f: "fresh_frame f a use_crc mtu time s" and st: "start = int (i * per)"
    using Suc.prems(3,5) lt by simp_all
  have ok: "0 < per" "int per = mtu - (11 + 15 + (if use_crc then 4 else 0))"
      "i * per < length message" "length message \<le> n * per" "\<And>j. j < n \<Longrightarrow> j * per < length message"
    using assms(1) lt by (simp_all add: ser_ok_def)
  have room: "15 + (if use_crc then 4 else 0) < mtu" using ok(1,2) by linarith
  obtain fd' f' bs where stp: "set_index (int i) fd = Inr fd'"
      "fields_hold fd' ty num c (int i) (int n)"
      "fill_message_frame fd' (py_slice message (int (i * per))
           (int (i * per) + min (int (length message - i * per)) (int per))) use_crc rnd f =
         Inr (int (length bs), f')"
      "frame_done f' bs"
      "carries bs use_crc a time ty num c (int i) (int n) (fragment per message i)"
    by (rule serialize_step [OF f assms(1) lt Suc.prems(4) assms(2)])
  have uc: "frm_use_crc (mf_framer m) = use_crc" using Suc.prems(2) by (simp add: mf_ok_def)
  define to' where "to' = int (length message - i * per) - min (int (length message - i * per)) (int per)"
  have to': "to' = int (length message - Suc i * per)" by (simp add: to'_def min_def)
  have next_iff: "to' \<noteq> 0 \<longleftrightarrow> Suc i < n"
  proof
    assume "to' \<noteq> 0"
    then have "Suc i * per < length message" using to' by simp
    also have "\<dots> \<le> n * per" by (rule ok(4))
    finally show "Suc i < n" by (simp only: mult_less_cancel2)
  next
    assume "Suc i < n"
    then have "length message - Suc i * per \<noteq> 0" using ok(5) [of "Suc i"] by linarith
    then show "to' \<noteq> 0" unfolding to' by (simp only: of_nat_eq_0_iff not_False_eq_True)
  qed
  obtain nf m1 s1 where nf: "(if to' \<noteq> 0 then message_frame time else ret f') m = (Inr nf, m1)"
      "Suc i < n \<longrightarrow> fresh_frame nf a use_crc mtu time s1" "mf_ok m1 a mtu use_crc"
      "mf_message_numbers m1 = mf_message_numbers m"
  proof (cases "to' \<noteq> 0")
    case True
    obtain g mg sg where g: "message_frame time m = (Inr g, mg)" "fresh_frame g a use_crc mtu time sg"
        "mf_ok mg a mtu use_crc" "mf_message_numbers mg = mf_message_numbers m"
      by (rule message_frame_run [OF Suc.prems(2) assms(3) room])
    show thesis by (rule that [of g mg sg]) (use True g in simp_all)
  next
    case False
    with next_iff that [of f' m s] Suc.prems(2) show thesis by simp
  qed
  have start': "int (i * per) + min (int (length message - i * per)) (int per) = int (Suc i * per)"
    if "Suc i < n"
  proof -
    have "per + i * per < length message" using ok(5) [OF that] by simp
    then have "per \<le> length message - i * per" by linarith
    then have "int per \<le> int (length message - i * per)" by (simp only: of_nat_le_iff)
    then have "min (int (length message - i * per)) (int per) = int per" by (rule min_absorb2)
    then show ?thesis by simp
  qed
  have upt: "[i..<n] = i # [Suc i..<n]" using lt by (rule upt_conv_Cons)
  let ?st = "int (i * per) + min (int (length message - i * per)) (int per)"
  have "length message - i * per \<noteq> 0" using ok(3) by linarith
  then have ne: "int (length message - i * per) \<noteq> 0" by (simp only: of_nat_eq_0_iff not_False_eq_True)
  have run: "serialize_loop (map int [i..<n]) message time (int per) rnd f fd
        (int (length message - i * per)) start frames tb m =
      serialize_loop (map int [Suc i..<n]) message time (int per) rnd nf fd'
        (int (length message - Suc i * per)) ?st (frames @ [f']) (tb + int (length bs)) m1"
    unfolding upt list.map st
    using serialize_loop_step [OF ne stp(1) uc stp(3) nf(1) [unfolded to'_def]]
    unfolding to'_def [symmetric] to' .
  have d: "d = n - Suc i" using Suc.hyps(2) by simp
  have le: "Suc i \<le> n" using lt by simp
  have nf': "Suc i < n \<Longrightarrow> fresh_frame nf a use_crc mtu time s1" using nf(2) by simp
  obtain fs bss m' where ih: "serialize_loop (map int [Suc i..<n]) message time (int per) rnd nf fd'
        (int (length message - Suc i * per)) ?st (frames @ [f']) (tb + int (length bs)) m1 =
      (Inr ((frames @ [f']) @ fs, tb + int (length bs) + int (length (concat bss))), m')"
      "list_all2 frame_done fs bss"
      "list_all2 (\<lambda>j bs. carries bs use_crc a time ty num c (int j) (int n) (fragment per message j)) [Suc i..<n] bss"
      "mf_ok m' a mtu use_crc" "mf_message_numbers m' = mf_message_numbers m1"
    using Suc.hyps(1) [OF d le nf(3) nf' stp(2) start'] by blast
  show ?case
    using run ih stp(4,5) nf(4) upt
    by (intro exI [of _ "f' # fs"] exI [of _ "bs # bss"] exI [of _ m']) simp
qed

text \<open>The number of fragments: the least number of pieces that hold the message.\<close>

definition fragment_count :: "nat \<Rightarrow> nat \<Rightarrow> nat" where
  "fragment_count per len = (len + per - 1) div per"

lemma fragment_count_less:
  assumes "0 < per"
  shows "i < fragment_count per len \<longleftrightarrow> i * per < len"
proof -
  have "i < fragment_count per len \<longleftrightarrow> Suc i \<le> (len + per - 1) div per"
    by (simp add: fragment_count_def Suc_le_eq)
  also have "\<dots> \<longleftrightarrow> Suc i * per \<le> len + per - 1"
    using assms by (simp add: less_eq_div_iff_mult_less_eq)
  also have "\<dots> \<longleftrightarrow> i * per < len" using assms by auto
  finally show ?thesis .
qed

lemma fragment_count_covers: "0 < per \<Longrightarrow> len \<le> fragment_count per len * per"
  using fragment_count_less [of per "fragment_count per len" len] by simp

lemma fragment_count_ceiling:
  assumes "0 < per"
  shows "\<lceil>rat_of_int (int len) / rat_of_int (int per)\<rceil> = int (fragment_count per len)"
proof -
  let ?q = "rat_of_int (int len) / rat_of_int (int per)"
  let ?n = "fragment_count per len"
  have p: "(0 :: rat) < rat_of_int (int per)" using assms by simp
  have "len \<le> ?n * per" by (rule fragment_count_covers [OF assms])
  then have "rat_of_int (int len) \<le> rat_of_int (int (?n * per))" by (simp only: of_int_le_iff of_nat_le_iff)
  then have up: "?q \<le> rat_of_int (int ?n)" using p by (simp add: divide_le_eq)
  have lo: "rat_of_int (int ?n) - 1 < ?q"
  proof (cases "?n = 0")
    case True
    have "0 \<le> ?q" by simp
    then have "- 1 < ?q" by linarith
    with True show ?thesis by simp
  next
    case False
    then obtain k where k: "?n = Suc k" by (cases ?n) auto
    then have "k * per < len" using fragment_count_less [OF assms, of k len] by simp
    then have "rat_of_int (int (k * per)) < rat_of_int (int len)" by (simp only: of_int_less_iff of_nat_less_iff)
    then have "rat_of_int (int k) < ?q" using p by (simp add: less_divide_eq)
    with k show ?thesis by simp
  qed
  show ?thesis using up lo by (intro ceiling_unique) simp_all
qed

lemma concat_fragments:
  assumes "0 < per"
  shows "concat (map (fragment per message) [0..<fragment_count per (length message)]) = message"
proof -
  have "concat (map (fragment per message) [0..<n]) = take (n * per) message" for n
  proof (induction n)
    case 0
    then show ?case by simp
  next
    case (Suc n)
    have "Suc n * per = n * per + per" by simp
    then have "take (Suc n * per) message = take (n * per) message @ fragment per message n"
      by (simp only: fragment_def take_add)
    with Suc show ?case by simp
  qed
  moreover have "length message \<le> fragment_count per (length message) * per"
    by (rule fragment_count_covers [OF assms])
  ultimately show ?thesis by simp
qed

lemma frames_required_run:
  assumes "fr_mtu f - frame_overhead f = int per" and "0 < per" and "per < 2 ^ 32" and "len < 2 ^ 53"
  shows "frames_required f (int len) = Inr (int (fragment_count per len), int per)"
proof -
  have "\<lceil>fval (fl (of_int (int len) / of_int (int per)))\<rceil> = \<lceil>rat_of_int (int len) / rat_of_int (int per)\<rceil>"
    by (rule fl_ceiling) (use assms in simp_all)
  then have "\<lceil>fval (fl (of_int (int len) / of_int (int per)))\<rceil> = int (fragment_count per len)"
    unfolding fragment_count_ceiling [OF assms(2)] .
  then show ?thesis using assms(1,2) by (simp add: frames_required_def Let_def)
qed

lemma serialize_message_run:
  assumes "mf_ok m a mtu use_crc" and "time_ok time"
    and "int per = mtu - (26 + (if use_crc then 4 else 0))" and "0 < per" and "per < 2 ^ 32"
    and "fragment_count per (length message) < 2 ^ 16"
    and "dict_get (mf_message_numbers m) mt = Some num" and "0 \<le> num" and "num < 2 ^ 16"
  obtains fs bss m' where "serialize_message message time mt rnd m = (Inr (fs, int (length (concat bss))), m')"
    and "list_all2 frame_done fs bss"
    and "list_all2 (\<lambda>j bs. carries bs use_crc a time (message_type_value mt) num (messag_crc message) (int j)
           (int (fragment_count per (length message))) (fragment per message j))
           [0..<fragment_count per (length message)] bss"
    and "mf_ok m' a mtu use_crc" and "mf_message_numbers m' = dict_set mt (num + 1) (mf_message_numbers m)"
proof -
  let ?n = "fragment_count per (length message)"
  let ?c = "messag_crc message"
  let ?ty = "message_type_value mt"
  have room: "15 + (if use_crc then 4 else 0) < mtu" using assms(3,4) by linarith
  obtain f m1 s where f: "message_frame time m = (Inr f, m1)" "fresh_frame f a use_crc mtu time s"
      "mf_ok m1 a mtu use_crc" "mf_message_numbers m1 = mf_message_numbers m"
    by (rule message_frame_run [OF assms(1,2) room])
  have "fr_overhead f = 15 + (if use_crc then 4 else 0)" "fr_mtu f = mtu"
    using f(2) by (auto simp: fresh_frame_def frame_open_def crc_len_def split: option.splits)
  then have per: "fr_mtu f - frame_overhead f = int per"
    using assms(3) by (simp add: frame_overhead_def HEADER_SIZE_def MESSAGE_FIELDS_def int_primitive_def)
  have le: "length message \<le> ?n * per"
    by (rule fragment_count_covers [OF assms(4)])
  also have "\<dots> \<le> 2 ^ 16 * 2 ^ 32" using assms(5,6) by (intro mult_le_mono) simp_all
  finally have "length message < 2 ^ 53" by simp
  then have req: "frames_required f (int (length message)) = Inr (int ?n, int per)"
    by (rule frames_required_run [OF per assms(4,5)])
  have ser: "ser_ok use_crc mtu per message ?n"
    using assms(3-6) le fragment_count_less [OF assms(4)] by (simp add: ser_ok_def)
  have fok: "fields_ok ?ty num ?c 0 (int ?n)"
    using message_type_value_bounds [of mt] messag_crc_range [of message] assms(6,8,9)
    by (simp add: fields_ok_def)
  let ?fd = "create_fields
           [(''message_type'', VInt ?ty), (''message_number'', VInt num),
            (''message_crc'', VInt ?c), (''fragment_index'', VInt 0), (''total_fragments'', VInt (int ?n))]"
  let ?m2 = "m1\<lparr>mf_message_numbers := dict_set mt (num + 1) (mf_message_numbers m1)\<rparr>"
  have ok2: "mf_ok ?m2 a mtu use_crc" using f(3) by (simp add: mf_ok_def)
  obtain fs bss m' where loop: "serialize_loop (map int [0..<?n]) message time (int per) rnd f ?fd
        (int (length message)) 0 [] 0 ?m2 = (Inr ([] @ fs, 0 + int (length (concat bss))), m')"
      "list_all2 frame_done fs bss"
      "list_all2 (\<lambda>j bs. carries bs use_crc a time ?ty num ?c (int j) (int ?n) (fragment per message j)) [0..<?n] bss"
      "mf_ok m' a mtu use_crc" "mf_message_numbers m' = mf_message_numbers ?m2"
    using serialize_loop_run [OF ser fok assms(2) le0 ok2 f(2) create_fields_hold [OF fok],
        where start = 0 and frames = "[]" and tb = 0 and rnd = rnd]
    by auto
  have "serialize_message message time mt rnd m = (Inr (fs, int (length (concat bss))), m')"
    using f(1,4) req assms(7) loop(1) by (simp add: serialize_message_def)
  with that loop(2-5) f(4) show thesis by simp
qed

section \<open>Properties\<close>

text \<open>
  Property C36: although it is computed with a floating-point division, the number of fragments is
  the least number of frames whose payloads together hold the message, for every message below
  \<open>2^53\<close> bytes.
\<close>

theorem fragments_exact:
  assumes "fr_mtu f - frame_overhead f = int per" and "0 < per" and "per < 2 ^ 32" and "len < 2 ^ 53"
  shows "\<exists>n. frames_required f (int len) = Inr (int n, int per) \<and> len \<le> n * per \<and>
    (\<forall>k. len \<le> k * per \<longrightarrow> n \<le> k)"
proof -
  have "\<forall>k. len \<le> k * per \<longrightarrow> fragment_count per len \<le> k"
    using fragment_count_less [OF assms(2), of _ len] by (meson not_le)
  with frames_required_run [OF assms] fragment_count_covers [OF assms(2)] show ?thesis by blast
qed

theorem fragments_exact_witness:
  "\<exists>n. frames_required ((blank_frame MessageFrame 100 (new_type_primitive UINT16 False)
      (new_type_primitive UINT32 False))\<lparr>fr_overhead := 19\<rparr>) 141 = Inr (n, 70) \<and> n * 70 < 141 + 70"
proof -
  let ?f = "(blank_frame MessageFrame 100 (new_type_primitive UINT16 False)
      (new_type_primitive UINT32 False))\<lparr>fr_overhead := 19\<rparr>"
  have "fr_mtu ?f - frame_overhead ?f = int 70" by code_simp
  from fragments_exact [OF this, of 141] obtain n :: nat where n:
      "frames_required ?f (int 141) = Inr (int n, int 70)" "\<forall>k. 141 \<le> k * 70 \<longrightarrow> n \<le> k"
    by auto
  from n(2) have "n \<le> 3" by simp
  with n(1) show ?thesis by (intro exI [of _ "int n"]) simp
qed

end
