(* ===== verification/Stream_Writer.thy ===== *)
theory Stream_Writer
  imports Queue_Daemon Processor Message_Framer
begin

text \<open>
  The stream writer (\<open>vtelem/stream/writer.py\<close>): a queue daemon that writes every frame, behind its
  length, to all registered streams and puts it into all registered queues. Streams and queues are
  objects that the writer refers to; what writing and flushing a stream does is a parameter, the
  file interface of the operating system. Callbacks (closers and the error handler) are recorded
  in the order they are called.
\<close>

section \<open>State\<close>

datatype 'c writer_call = Called_Closer 'c | Called_Error int

record ('s, 'c) writer =
  w_daemon :: daemon
  w_curr_id :: int
  w_queue_id :: int
  w_streams :: "(int, nat) dict"
  w_stream_attrs :: "(int, bool) dict"
  w_stream_closers :: "(int, 'c option) dict"
  w_queues :: "(int, nat) dict"
  w_error_handle :: bool
  w_frame_size :: type_primitive
  w_files :: "nat \<Rightarrow> 's"
  w_queue_objs :: "nat \<Rightarrow> frame option queue_obj"
  w_calls :: "'c writer_call list"

abbreviation in_daemon :: "(daemon, 'a) py \<Rightarrow> (('s, 'c) writer, 'a) py" where
  "in_daemon m \<equiv> zoom w_daemon (\<lambda>d w. w\<lparr>w_daemon := d\<rparr>) m"

definition w_with_lock :: "(('s, 'c) writer, 'a) py \<Rightarrow> (('s, 'c) writer, 'a) py" where
  "w_with_lock body =
     bindp (in_daemon (modify (\<lambda>d. d\<lparr>d_lock := d_lock d + 1\<rparr>))) (\<lambda>_.
     bindp body (\<lambda>r.
     bindp (in_daemon (modify (\<lambda>d. d\<lparr>d_lock := d_lock d - 1\<rparr>))) (\<lambda>_. ret r)))"

definition put_frame :: "frame option \<Rightarrow> nat \<Rightarrow> (('s, 'c) writer, unit) py" where
  "put_frame item r =
     zoom (\<lambda>w. (w_daemon w, w_queue_objs w r))
       (\<lambda>(d, q) w. w\<lparr>w_daemon := d, w_queue_objs := (w_queue_objs w)(r := q)\<rparr>) (qput item)"

definition call_back :: "'c writer_call \<Rightarrow> (('s, 'c) writer, unit) py" where
  "call_back c = modify (\<lambda>w. w\<lparr>w_calls := w_calls w @ [c]\<rparr>)"

section \<open>Registration\<close>

definition add_queue :: "nat \<Rightarrow> (('s, 'c) writer, int) py" where
  "add_queue q =
     bindp (w_with_lock (
       bindp (gets w_queue_id) (\<lambda>result.
       bindp (modify (\<lambda>w. w\<lparr>w_queues := dict_set result q (w_queues w)\<rparr>)) (\<lambda>_.
       bindp (modify (\<lambda>w. w\<lparr>w_queue_id := w_queue_id w + 1\<rparr>)) (\<lambda>_. ret result))))) (\<lambda>result.
     bindp (in_daemon (increment_metric ''queue_count'' (VInt 1))) (\<lambda>_. ret result))"

text \<open>A queue made for a name is metered by the writer's environment, one without a name is not.\<close>

definition get_queue :: "string option \<Rightarrow> int \<Rightarrow> (('s, 'c) writer, frame option queue_obj) py" where
  "get_queue name maxsize = in_daemon (create_queue name (name \<noteq> None) maxsize)"

text \<open>\<open>r\<close> is the reference of the new queue object.\<close>

definition registered_queue :: "nat \<Rightarrow> string option \<Rightarrow> int \<Rightarrow> (('s, 'c) writer, int \<times> nat) py" where
  "registered_queue r name maxsize =
     bindp (get_queue name maxsize) (\<lambda>q.
     bindp (modify (\<lambda>w. w\<lparr>w_queue_objs := (w_queue_objs w)(r := q)\<rparr>)) (\<lambda>_.
     bindp (add_queue r) (\<lambda>i. ret (i, r))))"

definition add_stream :: "nat \<Rightarrow> 'c option \<Rightarrow> bool \<Rightarrow> (('s, 'c) writer, int) py" where
  "add_stream stream stream_closer flush =
     bindp (w_with_lock (
       bindp (gets w_curr_id) (\<lambda>result.
       bindp (modify (\<lambda>w. w\<lparr>w_streams := dict_set result stream (w_streams w)\<rparr>)) (\<lambda>_.
       bindp (modify (\<lambda>w. w\<lparr>w_stream_closers := dict_set result stream_closer (w_stream_closers w)\<rparr>)) (\<lambda>_.
       bindp (modify (\<lambda>w. w\<lparr>w_stream_attrs := dict_set result flush (w_stream_attrs w)\<rparr>)) (\<lambda>_.
       bindp (modify (\<lambda>w. w\<lparr>w_curr_id := w_curr_id w + 1\<rparr>)) (\<lambda>_. ret result))))))) (\<lambda>result.
     bindp (in_daemon (increment_metric ''stream_count'' (VInt 1))) (\<lambda>_. ret result))"

definition remove_stream :: "int \<Rightarrow> bool \<Rightarrow> (('s, 'c) writer, bool) py" where
  "remove_stream stream_id call_closer =
     bindp (w_with_lock (
       bindp (gets (\<lambda>w. stream_id \<in> set (dict_keys (w_streams w)))) (\<lambda>result.
       if result then
         bindp (modify (\<lambda>w. w\<lparr>w_streams := dict_del stream_id (w_streams w)\<rparr>)) (\<lambda>_.
         bindp (gets (\<lambda>w. dict_item (w_stream_closers w) stream_id)) (\<lambda>c.
         bindp (lift_res c) (\<lambda>closer.
         bindp (modify (\<lambda>w. w\<lparr>w_stream_closers := dict_del stream_id (w_stream_closers w)\<rparr>)) (\<lambda>_.
         ret (result, closer)))))
       else ret (result, None)))) (\<lambda>(result, closer).
     bindp (case closer of
              None \<Rightarrow> ret ()
            | Some c \<Rightarrow> if call_closer then call_back (Called_Closer c) else ret ()) (\<lambda>_.
     bindp (if result then in_daemon (decrement_metric ''stream_count'' (VInt 1)) else ret ()) (\<lambda>_.
     ret result)))"

definition remove_queue :: "int \<Rightarrow> bool \<Rightarrow> (('s, 'c) writer, bool) py" where
  "remove_queue queue_id inject_none =
     bindp (w_with_lock (
       bindp (gets (\<lambda>w. dict_get (w_queues w) queue_id)) (\<lambda>q.
       bindp (if q \<noteq> None then modify (\<lambda>w. w\<lparr>w_queues := dict_del queue_id (w_queues w)\<rparr>) else ret ()) (\<lambda>_.
       ret q)))) (\<lambda>q.
     case q of
       None \<Rightarrow> ret False
     | Some r \<Rightarrow>
         bindp (if inject_none then put_frame None r else ret ()) (\<lambda>_.
         bindp (in_daemon (decrement_metric ''queue_count'' (VInt 1))) (\<lambda>_. ret True)))"

text \<open>The context manager: the stream is removed also when the body raises.\<close>

definition stream_added :: "nat \<Rightarrow> 'c option \<Rightarrow> bool \<Rightarrow> (('s, 'c) writer, 'a) py \<Rightarrow> (('s, 'c) writer, 'a) py" where
  "stream_added stream stream_closer flush body =
     bindp (add_stream stream stream_closer flush) (\<lambda>stream_id.
     finallyp body (bindp (remove_stream stream_id (stream_closer \<noteq> None)) (\<lambda>_. ret ())))"

definition overhead :: int where
  "overhead = get_size UINT32"

section \<open>Writing a frame\<close>

text \<open>
  \<open>wr\<close> writes bytes to a stream and gives the number written, or \<open>None\<close> for an \<open>OSError\<close>; \<open>fls\<close>
  flushes it and tells whether that worked. The result of one write is whether the stream failed.
\<close>

definition stream_flush :: "int \<Rightarrow> (('s, 'c) writer, bool) py" where
  "stream_flush stream_id w =
     (case dict_get (w_stream_attrs w) stream_id of
        Some b \<Rightarrow> (Inr b, w)
      | None \<Rightarrow> (Inr False, w\<lparr>w_stream_attrs := dict_set stream_id False (w_stream_attrs w)\<rparr>))"

definition write_stream :: "('s \<Rightarrow> byte list \<Rightarrow> int option \<times> 's) \<Rightarrow> ('s \<Rightarrow> bool \<times> 's) \<Rightarrow> byte list \<Rightarrow> int \<Rightarrow>
    int \<times> nat \<Rightarrow> (('s, 'c) writer, bool) py" where
  "write_stream wr fls bytes n = (\<lambda>(stream_id, r).
     bindp (gets (\<lambda>w. wr (w_files w r) bytes)) (\<lambda>(count, s).
     bindp (modify (\<lambda>w. w\<lparr>w_files := (w_files w)(r := s)\<rparr>)) (\<lambda>_.
     case count of
       None \<Rightarrow> ret True
     | Some k \<Rightarrow>
         bindp (assertp (k = n)) (\<lambda>_.
         bindp (stream_flush stream_id) (\<lambda>must_flush.
         bindp (if must_flush
                then bindp (gets (\<lambda>w. fls (w_files w r))) (\<lambda>(ok, s').
                     bindp (modify (\<lambda>w. w\<lparr>w_files := (w_files w)(r := s')\<rparr>)) (\<lambda>_. ret ok))
                else ret True) (\<lambda>ok.
         if \<not> ok then ret True
         else
           bindp (in_daemon (increment_metric ''stream_writes'' (VInt 1))) (\<lambda>_.
           bindp (in_daemon (increment_metric ''bytes_written'' (VInt n))) (\<lambda>_. ret False))))))))"

definition drop_stream :: "int \<times> nat \<Rightarrow> (('s, 'c) writer, unit) py" where
  "drop_stream = (\<lambda>(stream_id, r).
     bindp (gets w_error_handle) (\<lambda>handled.
     bindp (if handled then call_back (Called_Error stream_id) else ret ()) (\<lambda>_.
     bindp (remove_stream stream_id True) assertp)))"

definition frame_handle :: "('s \<Rightarrow> byte list \<Rightarrow> int option \<times> 's) \<Rightarrow> ('s \<Rightarrow> bool \<times> 's) \<Rightarrow> frame option \<Rightarrow>
    (('s, 'c) writer, unit) py" where
  "frame_handle wr fls frame =
     (case frame of
        None \<Rightarrow> raise UnboundLocalError
      | Some f \<Rightarrow>
          bindp (zoom w_frame_size (\<lambda>p w. w\<lparr>w_frame_size := p\<rparr>) (with_size_header f)) (\<lambda>(bytes, n).
          bindp (w_with_lock (gets (\<lambda>w. (map snd (w_queues w), w_streams w)))) (\<lambda>(queues, streams).
          bindp (map_each (write_stream wr fls bytes n) streams) (\<lambda>failed.
          bindp (for_each drop_stream (map fst (filter snd (zip streams failed)))) (\<lambda>_.
          bindp (for_each (put_frame frame) queues) (\<lambda>_.
          in_daemon (increment_metric ''queue_writes'' (VInt (int (length queues))))))))))"

section \<open>Construction\<close>

definition writer_init :: "(('s, 'c) writer, unit) py" where
  "writer_init =
     for_each (\<lambda>n. in_daemon (reset_metric n 0)) [''stream_writes'', ''stream_count'', ''queue_writes'', ''queue_count'']"

definition new_writer :: "string \<Rightarrow> bool \<Rightarrow> telemetry_env option \<Rightarrow> (nat \<Rightarrow> 's) \<Rightarrow>
    (nat \<Rightarrow> frame option queue_obj) \<Rightarrow> py_error + ('s, 'c) writer" where
  "new_writer name error_handle env files queues =
     (case new_default ''count'' False of
        Inl err \<Rightarrow> Inl err
      | Inr size_prim \<Rightarrow>
          (case new_daemon name env of
             Inl err \<Rightarrow> Inl err
           | Inr d \<Rightarrow>
               (case writer_init \<lparr>w_daemon = d, w_curr_id = 0, w_queue_id = 0, w_streams = [], w_stream_attrs = [],
                       w_stream_closers = [], w_queues = [], w_error_handle = error_handle,
                       w_frame_size = size_prim, w_files = files, w_queue_objs = queues, w_calls = []\<rparr> of
                  (Inl err, _) \<Rightarrow> Inl err
                | (Inr _, w) \<Rightarrow> Inr w)))"

section \<open>Clients\<close>

record client_manager =
  qm_name :: string
  qm_active :: "int list"

text \<open>A queue for a connected client, metered under the client's address when it is known.\<close>

definition add_client_queue :: "nat \<Rightarrow> (string \<times> string) option \<Rightarrow>
    (client_manager \<times> ('s, 'c) writer, int \<times> nat) py" where
  "add_client_queue r addr =
     bindp (gets (\<lambda>s. case addr of
              None \<Rightarrow> None
            | Some (host, port) \<Rightarrow> Some (qm_name (fst s) @ ''.'' @ host @ '':'' @ port))) (\<lambda>name.
     bindp (zoom snd (\<lambda>w s. (fst s, w)) (registered_queue r name MAX_SIZE)) (\<lambda>(queue_id, q).
     bindp (modify (\<lambda>(m, w). (m\<lparr>qm_active := qm_active m @ [queue_id]\<rparr>, w))) (\<lambda>_. ret (queue_id, q))))"

definition close_clients :: "(client_manager \<times> ('s, 'c) writer, int) py" where
  "close_clients =
     bindp (gets (\<lambda>s. qm_active (fst s))) (\<lambda>ids.
     bindp (map_each (\<lambda>i. zoom snd (\<lambda>w s. (fst s, w)) (remove_queue i True)) ids) (\<lambda>closed.
     ret (int (length (filter id closed)))))"

section \<open>Quiet writers\<close>

text \<open>A writer without an environment counts its metrics and never fails over them.\<close>

lemma quiet_decrement:
  assumes "quiet d"
  obtains k where "decrement_metric n (VInt j) d = (Inr (), d\<lparr>d_metrics := dict_set n (VInt k) (d_metrics d)\<rparr>)"
proof -
  obtain v where "as_int (metric_value n d) = Some v"
    using assms by (cases "dict_get (d_metrics d) n") (fastforce simp: quiet_def metric_value_def)+
  then have "num_sub (metric_value n (d\<lparr>d_lock := d_lock d + 1\<rparr>)) (VInt j) = Inr (VInt (v - j))"
    by (simp add: metric_value_def num_sub_def)
  then have "decrement_metric n (VInt j) d =
      set_env_metric n (VInt (v - j)) UINT32 (d\<lparr>d_metrics := dict_set n (VInt (v - j)) (d_metrics d)\<rparr>)"
    by (simp add: decrement_metric_def update_metric_def d_with_lock_def)
  with quiet_set_env_metric [OF quiet_metric [OF assms]] that show thesis by simp
qed

lemma in_daemon_increment:
  assumes "quiet (w_daemon w)"
  obtains d where "in_daemon (increment_metric n (VInt j)) w = (Inr (), w\<lparr>w_daemon := d\<rparr>)" and "quiet d"
proof -
  obtain d where "increment_metric n (VInt j) (w_daemon w) = (Inr (), d)" "quiet d"
    by (rule quiet_increment_run [OF assms])
  then show thesis by (intro that [of d]) simp_all
qed

lemma in_daemon_decrement:
  assumes "quiet (w_daemon w)"
  obtains d where "in_daemon (decrement_metric n (VInt j)) w = (Inr (), w\<lparr>w_daemon := d\<rparr>)" and "quiet d"
proof -
  obtain k where k: "decrement_metric n (VInt j) (w_daemon w) =
      (Inr (), (w_daemon w)\<lparr>d_metrics := dict_set n (VInt k) (d_metrics (w_daemon w))\<rparr>)"
    by (rule quiet_decrement [OF assms])
  show thesis
    by (rule that [OF zoom_run]) (rule k, rule quiet_metric [OF assms])
qed

lemma w_with_lock_run:
  assumes "body (w\<lparr>w_daemon := (w_daemon w)\<lparr>d_lock := d_lock (w_daemon w) + 1\<rparr>\<rparr>) = (Inr a, w')"
  shows "w_with_lock body w = (Inr a, w'\<lparr>w_daemon := (w_daemon w')\<lparr>d_lock := d_lock (w_daemon w') - 1\<rparr>\<rparr>)"
  using assms by (simp add: w_with_lock_def)

section \<open>What a stream is\<close>

text \<open>
  The file interface: writing to a working stream appends all bytes and returns their number,
  flushing it changes nothing of what was written; writing to a broken stream is an \<open>OSError\<close>.
\<close>

definition file_spec :: "('s \<Rightarrow> bool) \<Rightarrow> ('s \<Rightarrow> byte list) \<Rightarrow> ('s \<Rightarrow> byte list \<Rightarrow> int option \<times> 's) \<Rightarrow>
    ('s \<Rightarrow> bool \<times> 's) \<Rightarrow> bool" where
  "file_spec ok written wr fls \<longleftrightarrow>
     (\<forall>s bs. ok s \<longrightarrow> (\<exists>s'. wr s bs = (Some (int (length bs)), s') \<and> ok s' \<and> written s' = written s @ bs)) \<and>
     (\<forall>s. ok s \<longrightarrow> (\<exists>s'. fls s = (True, s') \<and> ok s' \<and> written s' = written s)) \<and>
     (\<forall>s bs. \<not> ok s \<longrightarrow> (\<exists>s'. wr s bs = (None, s') \<and> \<not> ok s'))"

lemma file_specD:
  assumes "file_spec ok written wr fls"
  shows "ok s \<Longrightarrow> \<exists>s'. wr s bs = (Some (int (length bs)), s') \<and> ok s' \<and> written s' = written s @ bs"
    and "ok s \<Longrightarrow> \<exists>s'. fls s = (True, s') \<and> ok s' \<and> written s' = written s"
    and "\<not> ok s \<Longrightarrow> \<exists>s'. wr s bs = (None, s') \<and> \<not> ok s'"
  using assms by (simp_all add: file_spec_def)

lemma size_header_done:
  assumes "frame_done f bs" and "length bs < 2 ^ 32" and "tp_type tp = UINT32"
  obtains tp' where "with_size_header f tp = (Inr (size_framed bs, int (length (size_framed bs))), tp')"
    and "tp_type tp' = UINT32"
proof -
  have sz: "0 \<le> int (length bs)" "int (length bs) < 2 ^ 32" using assms(2) by simp_all
  have pk: "prim_pack ''!'' UINT32 (VInt (int (length bs))) = Inr (be_bytes 4 (int (length bs)))"
    using net_pack_uint(3) [OF sz] by simp
  have "accepts (tp_type tp) (VInt (int (length bs)))" using sz assms(3) by (simp add: accepts_uint)
  then obtain c where "tp_set (VInt (int (length bs))) None tp =
      (True, tp\<lparr>tp_data := VInt (int (length bs)), tp_last_set := 0\<rparr>, c)"
    using tp_set_uint by blast
  then show thesis
    using assms pk
    by (intro that [of "tp\<lparr>tp_data := VInt (int (length bs)), tp_last_set := 0\<rparr>"])
      (simp_all add: with_size_header_def frame_done_def tp_buffer_pack size_framed_def tp_size_def)
qed

section \<open>One frame\<close>

lemma stream_flush_run:
  obtains b attrs where "stream_flush i w = (Inr b, w\<lparr>w_stream_attrs := attrs\<rparr>)"
proof (cases "dict_get (w_stream_attrs w) i")
  case None
  then show thesis
    by (intro that [of False "dict_set i False (w_stream_attrs w)"]) (simp add: stream_flush_def)
next
  case (Some b)
  then show thesis by (intro that [of b "w_stream_attrs w"]) (simp add: stream_flush_def)
qed

lemma write_stream_run:
  assumes "file_spec ok written wr fls" and "quiet (w_daemon w)"
  obtains d attrs s where "write_stream wr fls bs (int (length bs)) (i, r) w =
      (Inr (\<not> ok (w_files w r)),
       w\<lparr>w_daemon := d, w_stream_attrs := attrs, w_files := (w_files w)(r := s)\<rparr>)"
    and "quiet d" and "ok s \<longleftrightarrow> ok (w_files w r)"
    and "ok s \<longrightarrow> written s = written (w_files w r) @ bs"
proof (cases "ok (w_files w r)")
  case False
  then obtain s where "wr (w_files w r) bs = (None, s)" "\<not> ok s" using file_specD(3) [OF assms(1)] by blast
  then show thesis using False assms(2)
    by (intro that [where d = "w_daemon w" and attrs = "w_stream_attrs w" and s = s]) (simp_all add: write_stream_def)
next
  case True
  then obtain s where s: "wr (w_files w r) bs = (Some (int (length bs)), s)" "ok s"
      "written s = written (w_files w r) @ bs"
    using file_specD(1) [OF assms(1)] by blast
  obtain s2 where s2: "fls s = (True, s2)" "ok s2" "written s2 = written s"
    using file_specD(2) [OF assms(1) s(2)] by blast
  let ?w1 = "w\<lparr>w_files := (w_files w)(r := s)\<rparr>"
  obtain b attrs where fl: "stream_flush i ?w1 = (Inr b, ?w1\<lparr>w_stream_attrs := attrs\<rparr>)"
    by (rule stream_flush_run)
  have comm: "w\<lparr>w_stream_attrs := a, w_files := f\<rparr> = w\<lparr>w_files := f, w_stream_attrs := a\<rparr>" for a f by simp
  define s3 where "s3 = (if b then s2 else s)"
  let ?w2 = "w\<lparr>w_files := (w_files w)(r := s3), w_stream_attrs := attrs\<rparr>"
  have "quiet (w_daemon ?w2)" using assms(2) by simp
  then obtain d where d: "in_daemon (increment_metric ''stream_writes'' (VInt 1)) ?w2 = (Inr (), ?w2\<lparr>w_daemon := d\<rparr>)"
      "quiet d"
    by (rule in_daemon_increment)
  have "quiet (w_daemon (?w2\<lparr>w_daemon := d\<rparr>))" using d(2) by simp
  then obtain d' where d': "in_daemon (increment_metric ''bytes_written'' (VInt (int (length bs)))) (?w2\<lparr>w_daemon := d\<rparr>) =
      (Inr (), ?w2\<lparr>w_daemon := d\<rparr>\<lparr>w_daemon := d'\<rparr>)" "quiet d'"
    by (rule in_daemon_increment)
  have "write_stream wr fls bs (int (length bs)) (i, r) w = (Inr False, ?w2\<lparr>w_daemon := d'\<rparr>)"
    using s(1) fl s2(1) d(1) d'(1) by (cases b) (simp_all add: write_stream_def s3_def comm)
  then show thesis
    using True d'(2) s s2 by (intro that [where d = d' and attrs = attrs and s = s3]) (simp_all add: s3_def)
qed

lemma write_streams_run:
  assumes "file_spec ok written wr fls" and "quiet (w_daemon w)" and "distinct (map snd streams)"
  obtains d attrs files where "map_each (write_stream wr fls bs (int (length bs))) streams w =
      (Inr (map (\<lambda>(i, r). \<not> ok (w_files w r)) streams), w\<lparr>w_daemon := d, w_stream_attrs := attrs, w_files := files\<rparr>)"
    and "quiet d" and "\<forall>r. r \<notin> snd ` set streams \<longrightarrow> files r = w_files w r"
    and "\<forall>r \<in> snd ` set streams. (ok (files r) \<longleftrightarrow> ok (w_files w r)) \<and>
      (ok (files r) \<longrightarrow> written (files r) = written (w_files w r) @ bs)"
  using assms(2,3)
proof (induction streams arbitrary: w thesis)
  case Nil
  show ?case
    by (rule Nil(1) [where d = "w_daemon w" and attrs = "w_stream_attrs w" and files = "w_files w"]) (use Nil(2) in simp_all)
next
  case (Cons x streams)
  obtain i r where x: "x = (i, r)" by (cases x)
  obtain d attrs s where step: "write_stream wr fls bs (int (length bs)) (i, r) w =
      (Inr (\<not> ok (w_files w r)), w\<lparr>w_daemon := d, w_stream_attrs := attrs, w_files := (w_files w)(r := s)\<rparr>)"
    "quiet d" "ok s \<longleftrightarrow> ok (w_files w r)" "ok s \<longrightarrow> written s = written (w_files w r) @ bs"
    by (rule write_stream_run [OF assms(1) Cons.prems(2)])
  let ?w1 = "w\<lparr>w_daemon := d, w_stream_attrs := attrs, w_files := (w_files w)(r := s)\<rparr>"
  have new: "r \<notin> snd ` set streams" using Cons.prems(3) x by auto
  obtain d' attrs' files where rest: "map_each (write_stream wr fls bs (int (length bs))) streams ?w1 =
      (Inr (map (\<lambda>(i, r). \<not> ok (w_files ?w1 r)) streams), ?w1\<lparr>w_daemon := d', w_stream_attrs := attrs', w_files := files\<rparr>)"
    "quiet d'" "\<forall>q. q \<notin> snd ` set streams \<longrightarrow> files q = w_files ?w1 q"
    "\<forall>q \<in> snd ` set streams. (ok (files q) \<longleftrightarrow> ok (w_files ?w1 q)) \<and>
      (ok (files q) \<longrightarrow> written (files q) = written (w_files ?w1 q) @ bs)"
    by (rule Cons.IH [where w = ?w1]) (use step(2) Cons.prems(3) in auto)
  have same: "map (\<lambda>(i, r). \<not> ok (w_files ?w1 r)) streams = map (\<lambda>(i, r). \<not> ok (w_files w r)) streams"
    using new by (force intro: map_cong)
  show ?case
  proof (rule Cons.prems(1) [where d = d' and attrs = attrs' and files = files])
    show "map_each (write_stream wr fls bs (int (length bs))) (x # streams) w =
        (Inr (map (\<lambda>(i, r). \<not> ok (w_files w r)) (x # streams)), w\<lparr>w_daemon := d', w_stream_attrs := attrs', w_files := files\<rparr>)"
      using step(1) rest(1) same x by simp
    show "\<forall>q. q \<notin> snd ` set (x # streams) \<longrightarrow> files q = w_files w q"
      using rest(3) x by auto
    show "\<forall>q \<in> snd ` set (x # streams). (ok (files q) \<longleftrightarrow> ok (w_files w q)) \<and>
        (ok (files q) \<longrightarrow> written (files q) = written (w_files w q) @ bs)"
      using rest(3,4) step(3,4) new x by (auto split: if_splits)
  qed (rule rest(2))
qed

lemma dict_del_filter: "dict_del k d = filter (\<lambda>x. fst x \<noteq> k) d"
  by (induction d) auto

lemma dict_keys_del: "set (dict_keys (dict_del k d)) = set (dict_keys d) - {k}"
  by (auto simp: dict_del_filter)

lemma dict_get_del: "dict_get (dict_del k d) j = (if j = k then None else dict_get d j)"
  by (simp add: delete_conv')

text \<open>Every stream has a closer entry, and identifiers are below the next one.\<close>

definition writer_inv :: "('s, 'c) writer \<Rightarrow> bool" where
  "writer_inv w \<longleftrightarrow> distinct (dict_keys (w_streams w)) \<and> distinct (dict_keys (w_queues w)) \<and>
     set (dict_keys (w_stream_closers w)) = set (dict_keys (w_streams w)) \<and>
     (\<forall>i \<in> set (dict_keys (w_streams w)). i < w_curr_id w) \<and>
     (\<forall>i \<in> set (dict_keys (w_queues w)). i < w_queue_id w)"

text \<open>The calls made when a stream is dropped.\<close>

definition drop_calls :: "bool \<Rightarrow> (int, 'c option) dict \<Rightarrow> int \<Rightarrow> 'c writer_call list" where
  "drop_calls handled closers i =
     (if handled then [Called_Error i] else []) @
     (case dict_get closers i of Some (Some c) \<Rightarrow> [Called_Closer c] | _ \<Rightarrow> [])"

lemma drop_calls_del:
  "i \<notin> set js \<Longrightarrow> map (drop_calls h (dict_del i cs)) js = map (drop_calls h cs) js"
  by (induction js) (auto simp: drop_calls_def dict_get_del)

lemma filter_del:
  "filter (\<lambda>x. fst x \<notin> A) (dict_del i d) = filter (\<lambda>x. fst x \<notin> insert i A) d"
  by (simp add: dict_del_filter conj_commute)

lemma remove_stream_run:
  assumes "quiet (w_daemon w)" and "i \<in> set (dict_keys (w_streams w))"
    and "dict_get (w_stream_closers w) i = Some c"
  obtains d where "remove_stream i call_closer w = (Inr True, w\<lparr>w_daemon := d,
      w_streams := dict_del i (w_streams w), w_stream_closers := dict_del i (w_stream_closers w),
      w_calls := w_calls w @ (case c of Some x \<Rightarrow> if call_closer then [Called_Closer x] else [] | None \<Rightarrow> [])\<rparr>)"
    and "quiet d"
proof -
  let ?w = "w\<lparr>w_streams := dict_del i (w_streams w), w_stream_closers := dict_del i (w_stream_closers w),
      w_calls := w_calls w @ (case c of Some x \<Rightarrow> if call_closer then [Called_Closer x] else [] | None \<Rightarrow> [])\<rparr>"
  have "quiet (w_daemon ?w)" using assms(1) by simp
  then obtain d where d: "in_daemon (decrement_metric ''stream_count'' (VInt 1)) ?w = (Inr (), ?w\<lparr>w_daemon := d\<rparr>)"
      "quiet d"
    by (rule in_daemon_decrement)
  show thesis
  proof (rule that [OF _ d(2)])
    show "remove_stream i call_closer w = (Inr True, w\<lparr>w_daemon := d,
      w_streams := dict_del i (w_streams w), w_stream_closers := dict_del i (w_stream_closers w),
      w_calls := w_calls w @ (case c of Some x \<Rightarrow> if call_closer then [Called_Closer x] else [] | None \<Rightarrow> [])\<rparr>)"
      using assms(2,3) d(1)
      by (cases c) (auto simp: remove_stream_def w_with_lock_def call_back_def zoom_def bindp_def dict_item_def
          split: prod.splits sum.splits)
  qed
qed

lemma drop_streams_run:
  assumes "quiet (w_daemon w)" and "distinct (map fst xs)"
    and "\<forall>i \<in> set (map fst xs). i \<in> set (dict_keys (w_streams w)) \<and> dict_get (w_stream_closers w) i \<noteq> None"
  obtains d where "for_each drop_stream xs w = (Inr (), w\<lparr>w_daemon := d,
      w_streams := filter (\<lambda>x. fst x \<notin> set (map fst xs)) (w_streams w),
      w_stream_closers := filter (\<lambda>x. fst x \<notin> set (map fst xs)) (w_stream_closers w),
      w_calls := w_calls w @ concat (map (drop_calls (w_error_handle w) (w_stream_closers w)) (map fst xs))\<rparr>)"
    and "quiet d"
  using assms
proof (induction xs arbitrary: w thesis)
  case Nil
  then show ?case by (intro Nil(1) [where d = "w_daemon w"]) simp_all
next
  case (Cons x xs)
  obtain i r where x: "x = (i, r)" by (cases x)
  let ?w0 = "w\<lparr>w_calls := w_calls w @ (if w_error_handle w then [Called_Error i] else [])\<rparr>"
  obtain c where c: "dict_get (w_stream_closers w) i = Some c" using Cons.prems(4) x by auto
  obtain d where d: "remove_stream i True ?w0 = (Inr True, ?w0\<lparr>w_daemon := d,
      w_streams := dict_del i (w_streams ?w0), w_stream_closers := dict_del i (w_stream_closers ?w0),
      w_calls := w_calls ?w0 @ (case c of Some x \<Rightarrow> if True then [Called_Closer x] else [] | None \<Rightarrow> [])\<rparr>)" "quiet d"
    by (rule remove_stream_run [where w = ?w0 and i = i and c = c and call_closer = True]) (use Cons.prems x c in auto)
  let ?w1 = "w\<lparr>w_daemon := d, w_streams := dict_del i (w_streams w), w_stream_closers := dict_del i (w_stream_closers w),
      w_calls := w_calls w @ drop_calls (w_error_handle w) (w_stream_closers w) i\<rparr>"
  have step: "drop_stream x w = (Inr (), ?w1)"
    using d(1) c x by (cases c; cases "w_error_handle w") (simp_all add: drop_stream_def call_back_def drop_calls_def)
  have i: "i \<notin> set (map fst xs)" "distinct (map fst xs)" using Cons.prems(3) x by simp_all
  obtain d' where d': "for_each drop_stream xs ?w1 = (Inr (), ?w1\<lparr>w_daemon := d',
      w_streams := filter (\<lambda>x. fst x \<notin> set (map fst xs)) (w_streams ?w1),
      w_stream_closers := filter (\<lambda>x. fst x \<notin> set (map fst xs)) (w_stream_closers ?w1),
      w_calls := w_calls ?w1 @ concat (map (drop_calls (w_error_handle ?w1) (w_stream_closers ?w1)) (map fst xs))\<rparr>)"
    "quiet d'"
  proof (rule Cons.IH [where w = ?w1])
    show "\<forall>j \<in> set (map fst xs). j \<in> set (dict_keys (w_streams ?w1)) \<and> dict_get (w_stream_closers ?w1) j \<noteq> None"
    proof
      fix j assume j: "j \<in> set (map fst xs)"
      then have "j \<noteq> i" using i(1) by blast
      then show "j \<in> set (dict_keys (w_streams ?w1)) \<and> dict_get (w_stream_closers ?w1) j \<noteq> None"
        using bspec [OF Cons.prems(4), of j] j dict_keys_del [of i "w_streams w"] by (simp add: dict_get_del)
    qed
  qed (use d(2) i(2) in simp_all)
  note drop_calls_del [OF i(1), simp]
  from step d' x show ?case
    by (intro Cons.prems(1) [where d = d']) (simp_all add: filter_del del: map_map)
qed

lemma put_frames_run:
  assumes "distinct rs" and "\<forall>r \<in> set rs. qo_meter (w_queue_objs w r) = None \<and> \<not> full (w_queue_objs w r)"
  shows "for_each (put_frame item) rs w = (Inr (), w\<lparr>w_queue_objs := (\<lambda>r. if r \<in> set rs
      then (w_queue_objs w r)\<lparr>qo_items := qo_items (w_queue_objs w r) @ [item]\<rparr> else w_queue_objs w r)\<rparr>)"
  using assms
proof (induction rs arbitrary: w)
  case (Cons r rs)
  let ?q = "(w_queue_objs w r)\<lparr>qo_items := qo_items (w_queue_objs w r) @ [item]\<rparr>"
  have step: "put_frame item r w = (Inr (), w\<lparr>w_queue_objs := (w_queue_objs w)(r := ?q)\<rparr>)"
    using Cons.prems(2) by (simp add: put_frame_def zoom_def qput_plain)
  let ?w1 = "w\<lparr>w_queue_objs := (w_queue_objs w)(r := ?q)\<rparr>"
  have eq: "(\<lambda>q. if q \<in> set rs then (w_queue_objs ?w1 q)\<lparr>qo_items := qo_items (w_queue_objs ?w1 q) @ [item]\<rparr>
        else w_queue_objs ?w1 q) =
      (\<lambda>q. if q \<in> set (r # rs) then (w_queue_objs w q)\<lparr>qo_items := qo_items (w_queue_objs w q) @ [item]\<rparr> else w_queue_objs w q)"
    using Cons.prems(1) by (intro ext) auto
  have "for_each (put_frame item) (r # rs) w = for_each (put_frame item) rs ?w1"
    using step by simp
  also have "\<dots> = (Inr (), ?w1\<lparr>w_queue_objs := (\<lambda>q. if q \<in> set rs
      then (w_queue_objs ?w1 q)\<lparr>qo_items := qo_items (w_queue_objs ?w1 q) @ [item]\<rparr> else w_queue_objs ?w1 q)\<rparr>)"
    by (rule Cons.IH) (use Cons.prems in auto)
  finally show ?case unfolding eq by simp
qed simp

lemma filter_zip_map: "map fst (filter snd (zip xs (map P xs))) = filter P xs"
  by (induction xs) auto

lemma filter_other_keys:
  assumes "distinct (map fst xs)"
  shows "filter (\<lambda>x. fst x \<notin> set (map fst (filter P xs))) xs = filter (\<lambda>x. \<not> P x) xs"
proof (rule filter_cong [OF refl])
  fix x assume x: "x \<in> set xs"
  have "fst x \<in> set (map fst (filter P xs)) \<longleftrightarrow> P x"
  proof
    assume "fst x \<in> set (map fst (filter P xs))"
    then obtain y where "y \<in> set xs" "P y" "fst y = fst x" by auto
    with x assms show "P x" by (metis distinct_map inj_onD)
  qed (use x in auto)
  then show "(fst x \<notin> set (map fst (filter P xs))) \<longleftrightarrow> \<not> P x" by simp
qed

text \<open>A writer that can take frames: no environment, every stream and queue registered once.\<close>

definition writer_ready :: "('s, 'c) writer \<Rightarrow> bool" where
  "writer_ready w \<longleftrightarrow> quiet (w_daemon w) \<and> writer_inv w \<and> tp_type (w_frame_size w) = UINT32 \<and>
     distinct (map snd (w_streams w)) \<and> distinct (map snd (w_queues w)) \<and>
     (\<forall>r \<in> snd ` set (w_queues w). qo_meter (w_queue_objs w r) = None)"

definition room :: "nat \<Rightarrow> 'a queue_obj \<Rightarrow> bool" where
  "room n q \<longleftrightarrow> qo_maxsize q \<le> 0 \<or> int (length (qo_items q) + n) \<le> qo_maxsize q"

lemma room_not_full: "room (Suc n) q \<Longrightarrow> \<not> full q"
  by (auto simp: room_def full_def)

lemma room_put: "room (Suc n) q \<Longrightarrow> room n (q\<lparr>qo_items := qo_items q @ [x]\<rparr>)"
  by (auto simp: room_def)

definition queue_all :: "frame list \<Rightarrow> ('s, 'c) writer \<Rightarrow> nat \<Rightarrow> frame option queue_obj" where
  "queue_all fs w r = (if r \<in> snd ` set (w_queues w)
     then (w_queue_objs w r)\<lparr>qo_items := qo_items (w_queue_objs w r) @ map Some fs\<rparr> else w_queue_objs w r)"

lemma frame_handle_run:
  assumes spec: "file_spec ok written wr fls" and ready: "writer_ready w"
    and bs: "frame_done f bs" "length bs < 2 ^ 32"
    and rm: "\<forall>r \<in> snd ` set (w_queues w). room (Suc 0) (w_queue_objs w r)"
  obtains d attrs files tp where "frame_handle wr fls (Some f) w = (Inr (), w\<lparr>w_daemon := d,
      w_streams := filter (\<lambda>(i, r). ok (w_files w r)) (w_streams w), w_stream_attrs := attrs,
      w_stream_closers := filter (\<lambda>x. fst x \<notin> fst ` set (filter (\<lambda>(i, r). \<not> ok (w_files w r)) (w_streams w)))
        (w_stream_closers w),
      w_frame_size := tp, w_files := files, w_queue_objs := queue_all [f] w,
      w_calls := w_calls w @ concat (map (drop_calls (w_error_handle w) (w_stream_closers w))
        (map fst (filter (\<lambda>(i, r). \<not> ok (w_files w r)) (w_streams w))))\<rparr>)"
    and "quiet d" and "tp_type tp = UINT32"
    and "\<forall>r \<in> snd ` set (w_streams w). (ok (files r) \<longleftrightarrow> ok (w_files w r)) \<and>
      (ok (files r) \<longrightarrow> written (files r) = written (w_files w r) @ size_framed bs)"
proof -
  let ?bytes = "size_framed bs" let ?n = "int (length (size_framed bs))"
  let ?S = "w_streams w" let ?bad = "filter (\<lambda>(i, r). \<not> ok (w_files w r)) ?S"
  have q: "quiet (w_daemon w)" and inv: "writer_inv w" and sz: "tp_type (w_frame_size w) = UINT32"
    and ds: "distinct (map snd ?S)" and dq: "distinct (map snd (w_queues w))"
    and um: "\<forall>r \<in> snd ` set (w_queues w). qo_meter (w_queue_objs w r) = None"
    using ready by (simp_all add: writer_ready_def)
  obtain tp where hdr: "with_size_header f (w_frame_size w) = (Inr (?bytes, ?n), tp)" "tp_type tp = UINT32"
    by (rule size_header_done [OF bs sz])
  let ?w1 = "w\<lparr>w_frame_size := tp\<rparr>"
  obtain d1 attrs files where wrote: "map_each (write_stream wr fls ?bytes ?n) ?S ?w1 =
      (Inr (map (\<lambda>(i, r). \<not> ok (w_files ?w1 r)) ?S), ?w1\<lparr>w_daemon := d1, w_stream_attrs := attrs, w_files := files\<rparr>)"
    "quiet d1" "\<forall>r. r \<notin> snd ` set ?S \<longrightarrow> files r = w_files ?w1 r"
    "\<forall>r \<in> snd ` set ?S. (ok (files r) \<longleftrightarrow> ok (w_files ?w1 r)) \<and>
      (ok (files r) \<longrightarrow> written (files r) = written (w_files ?w1 r) @ ?bytes)"
    by (rule write_streams_run [where w = ?w1 and bs = ?bytes, OF spec _ ds]) (simp_all add: q)
  let ?w2 = "?w1\<lparr>w_daemon := d1, w_stream_attrs := attrs, w_files := files\<rparr>"
  have dk: "distinct (map fst ?S)" using inv by (simp add: writer_inv_def)
  obtain d2 where dropped: "for_each drop_stream ?bad ?w2 = (Inr (), ?w2\<lparr>w_daemon := d2,
      w_streams := filter (\<lambda>x. fst x \<notin> set (map fst ?bad)) (w_streams ?w2),
      w_stream_closers := filter (\<lambda>x. fst x \<notin> set (map fst ?bad)) (w_stream_closers ?w2),
      w_calls := w_calls ?w2 @ concat (map (drop_calls (w_error_handle ?w2) (w_stream_closers ?w2)) (map fst ?bad))\<rparr>)"
    "quiet d2"
  proof (rule drop_streams_run [where w = ?w2 and xs = ?bad])
    show "distinct (map fst ?bad)" using dk by (rule distinct_map_filter)
    show "\<forall>i \<in> set (map fst ?bad). i \<in> set (dict_keys (w_streams ?w2)) \<and> dict_get (w_stream_closers ?w2) i \<noteq> None"
      using inv by (auto simp: writer_inv_def map_of_eq_None_iff)
  qed (simp add: wrote(2))
  let ?w3 = "?w2\<lparr>w_daemon := d2, w_streams := filter (\<lambda>(i, r). ok (w_files w r)) ?S,
      w_stream_closers := filter (\<lambda>x. fst x \<notin> fst ` set ?bad) (w_stream_closers w),
      w_calls := w_calls w @ concat (map (drop_calls (w_error_handle w) (w_stream_closers w)) (map fst ?bad))\<rparr>"
  have good: "filter (\<lambda>x. fst x \<notin> set (map fst ?bad)) ?S = filter (\<lambda>(i, r). ok (w_files w r)) ?S"
    using filter_other_keys [OF dk, of "\<lambda>(i, r). \<not> ok (w_files w r)"] by (simp add: case_prod_unfold)
  have put: "for_each (put_frame (Some f)) (map snd (w_queues w)) ?w3 = (Inr (), ?w3\<lparr>w_queue_objs := queue_all [f] w\<rparr>)"
    by (subst put_frames_run [OF dq])
      (use um rm room_not_full in \<open>auto simp: queue_all_def fun_eq_iff\<close>)
  have "quiet (w_daemon (?w3\<lparr>w_queue_objs := queue_all [f] w\<rparr>))" by (simp add: dropped(2))
  then obtain d3 where d3: "in_daemon (increment_metric ''queue_writes'' (VInt (int (length (map snd (w_queues w))))))
      (?w3\<lparr>w_queue_objs := queue_all [f] w\<rparr>) = (Inr (), ?w3\<lparr>w_queue_objs := queue_all [f] w\<rparr>\<lparr>w_daemon := d3\<rparr>)" "quiet d3"
    by (rule in_daemon_increment)
  have zips: "map fst (filter snd (zip ?S (map (\<lambda>(i, r). \<not> ok (w_files ?w1 r)) ?S))) = ?bad"
    by (subst filter_zip_map) simp
  have "w_with_lock (gets (\<lambda>w. (map snd (w_queues w), w_streams w))) ?w1 = (Inr (map snd (w_queues w), ?S), ?w1)"
    by (simp add: w_with_lock_def)
  then have "frame_handle wr fls (Some f) w = (Inr (), ?w3\<lparr>w_queue_objs := queue_all [f] w\<rparr>\<lparr>w_daemon := d3\<rparr>)"
    using hdr(1) wrote(1) dropped(1) put d3(1) zips good by (simp add: frame_handle_def)
  then show thesis
    using d3(2) hdr(2) wrote(4) by (intro that [where d = d3 and attrs = attrs and files = files and tp = tp]) simp_all
qed

section \<open>Many frames\<close>

lemma set_keys_filter: "set (map fst (filter (\<lambda>x. fst x \<notin> A) xs)) = set (map fst xs) - A"
  by auto

lemma inv_after_drop:
  assumes "writer_inv w" and "w_curr_id w' = w_curr_id w" and "w_queue_id w' = w_queue_id w"
    and "w_queues w' = w_queues w" and "w_streams w' = filter (\<lambda>x. \<not> P x) (w_streams w)"
    and "w_stream_closers w' = filter (\<lambda>x. fst x \<notin> fst ` set (filter P (w_streams w))) (w_stream_closers w)"
  shows "writer_inv w'"
proof -
  have dk: "distinct (map fst (w_streams w))" using assms(1) by (simp add: writer_inv_def)
  have "set (dict_keys (w_stream_closers w')) = set (dict_keys (w_streams w)) - fst ` set (filter P (w_streams w))"
    unfolding assms(6) set_keys_filter using assms(1) by (simp add: writer_inv_def)
  moreover have "set (dict_keys (w_streams w')) = set (dict_keys (w_streams w)) - fst ` set (filter P (w_streams w))"
    unfolding assms(5) filter_other_keys [OF dk, of P, symmetric] set_keys_filter by simp
  moreover have "distinct (dict_keys (w_streams w'))" using dk assms(5) by (simp add: distinct_map_filter)
  moreover have "\<forall>i \<in> set (dict_keys (w_streams w')). i < w_curr_id w"
    using assms(1,5) by (auto simp: writer_inv_def)
  moreover have "distinct (dict_keys (w_queues w)) \<and> (\<forall>i \<in> set (dict_keys (w_queues w)). i < w_queue_id w)"
    using assms(1) by (simp add: writer_inv_def)
  ultimately show ?thesis using assms(2-4) unfolding writer_inv_def by metis
qed

lemma frame_handle_ready:
  assumes "file_spec ok written wr fls" and "writer_ready w" and "frame_done f bs" and "length bs < 2 ^ 32"
    and "\<forall>r \<in> snd ` set (w_queues w). room (Suc n) (w_queue_objs w r)"
  obtains w' where "frame_handle wr fls (Some f) w = (Inr (), w')" and "writer_ready w'"
    and "w_streams w' = filter (\<lambda>(i, r). ok (w_files w r)) (w_streams w)"
    and "w_queues w' = w_queues w" and "w_queue_objs w' = queue_all [f] w"
    and "\<forall>r \<in> snd ` set (w_streams w). (ok (w_files w' r) \<longleftrightarrow> ok (w_files w r)) \<and>
      (ok (w_files w' r) \<longrightarrow> written (w_files w' r) = written (w_files w r) @ size_framed bs)"
    and "w_calls w' = w_calls w @ concat (map (drop_calls (w_error_handle w) (w_stream_closers w))
        (map fst (filter (\<lambda>(i, r). \<not> ok (w_files w r)) (w_streams w))))"
proof -
  let ?bad = "filter (\<lambda>(i, r). \<not> ok (w_files w r)) (w_streams w)"
  have rm: "\<forall>r \<in> snd ` set (w_queues w). room (Suc 0) (w_queue_objs w r)"
    using assms(5) by (auto simp: room_def)
  obtain d attrs files tp where run: "frame_handle wr fls (Some f) w = (Inr (), w\<lparr>w_daemon := d,
      w_streams := filter (\<lambda>(i, r). ok (w_files w r)) (w_streams w), w_stream_attrs := attrs,
      w_stream_closers := filter (\<lambda>x. fst x \<notin> fst ` set ?bad) (w_stream_closers w),
      w_frame_size := tp, w_files := files, w_queue_objs := queue_all [f] w,
      w_calls := w_calls w @ concat (map (drop_calls (w_error_handle w) (w_stream_closers w)) (map fst ?bad))\<rparr>)"
    (is "_ = (_, ?w')")
    and d: "quiet d" "tp_type tp = UINT32"
    and files: "\<forall>r \<in> snd ` set (w_streams w). (ok (files r) \<longleftrightarrow> ok (w_files w r)) \<and>
      (ok (files r) \<longrightarrow> written (files r) = written (w_files w r) @ size_framed bs)"
    by (rule frame_handle_run [OF assms(1-4) rm])
  have "writer_inv ?w'"
  proof (rule inv_after_drop [where w = w and P = "\<lambda>(i, r). \<not> ok (w_files w r)"])
    show "writer_inv w" using assms(2) by (simp add: writer_ready_def)
    show "w_streams ?w' = filter (\<lambda>x. \<not> (case x of (i, r) \<Rightarrow> \<not> ok (w_files w r))) (w_streams w)"
      by (simp add: case_prod_unfold)
  qed simp_all
  moreover have "qo_meter (queue_all [f] w r) = qo_meter (w_queue_objs w r)" for r
    by (simp add: queue_all_def)
  ultimately have "writer_ready ?w'"
    using d assms(2) by (simp add: writer_ready_def distinct_map_filter)
  with run files show thesis by (intro that [of ?w']) simp_all
qed

lemma queue_all_room:
  "room (Suc n) (w_queue_objs w r) \<Longrightarrow> r \<in> snd ` set (w_queues w) \<Longrightarrow> room n (queue_all [f] w r)"
  using room_put by (simp add: queue_all_def)

lemma frames_handled:
  assumes "file_spec ok written wr fls" and "writer_ready w"
    and "list_all2 (\<lambda>f bs. frame_done f bs \<and> length bs < 2 ^ 32) fs bss"
    and "\<forall>r \<in> snd ` set (w_queues w). room (length fs) (w_queue_objs w r)"
  obtains w' where "for_each (\<lambda>f. frame_handle wr fls (Some f)) fs w = (Inr (), w')"
    and "\<forall>(i, r) \<in> set (w_streams w). ok (w_files w r) \<longrightarrow> (i, r) \<in> set (w_streams w') \<and>
      written (w_files w' r) = written (w_files w r) @ concat (map size_framed bss)"
    and "w_queue_objs w' = queue_all fs w"
  using assms(3,2,4)
proof (induction fs bss arbitrary: w thesis rule: list_all2_induct)
  case Nil
  show ?case by (rule Nil(1) [of w]) (auto simp: queue_all_def)
next
  case (Cons f fs bs bss)
  have rm: "\<forall>r \<in> snd ` set (w_queues w). room (Suc (length fs)) (w_queue_objs w r)"
    using Cons.prems(3) by simp
  obtain w1 where w1: "frame_handle wr fls (Some f) w = (Inr (), w1)" "writer_ready w1"
      "w_streams w1 = filter (\<lambda>(i, r). ok (w_files w r)) (w_streams w)"
      "w_queues w1 = w_queues w" "w_queue_objs w1 = queue_all [f] w"
      "\<forall>r \<in> snd ` set (w_streams w). (ok (w_files w1 r) \<longleftrightarrow> ok (w_files w r)) \<and>
        (ok (w_files w1 r) \<longrightarrow> written (w_files w1 r) = written (w_files w r) @ size_framed bs)"
    by (rule frame_handle_ready [OF assms(1) Cons.prems(2) _ _ rm]) (use Cons.hyps(1) in auto)
  have "\<forall>r \<in> snd ` set (w_queues w1). room (length fs) (w_queue_objs w1 r)"
  proof
    fix r assume "r \<in> snd ` set (w_queues w1)"
    then show "room (length fs) (w_queue_objs w1 r)"
      using queue_all_room [of "length fs" w r f] bspec [OF rm, of r] w1(4,5) by simp
  qed
  then obtain w2 where w2: "for_each (\<lambda>f. frame_handle wr fls (Some f)) fs w1 = (Inr (), w2)"
      "\<forall>(i, r) \<in> set (w_streams w1). ok (w_files w1 r) \<longrightarrow> (i, r) \<in> set (w_streams w2) \<and>
        written (w_files w2 r) = written (w_files w1 r) @ concat (map size_framed bss)"
      "w_queue_objs w2 = queue_all fs w1"
    using Cons.IH [of w1] w1(2) by blast
  have "queue_all fs w1 = queue_all (f # fs) w"
    using w1(4,5) by (auto simp: queue_all_def fun_eq_iff)
  moreover have "\<forall>(i, r) \<in> set (w_streams w). ok (w_files w r) \<longrightarrow> (i, r) \<in> set (w_streams w2) \<and>
      written (w_files w2 r) = written (w_files w r) @ concat (map size_framed (bs # bss))"
    using w1(3,6) w2(2) by fastforce
  ultimately show ?case using w1(1) w2(1,3) by (intro Cons.prems(1) [of w2]) simp_all
qed

section \<open>Properties\<close>

text \<open>
  Property C8: a writer that is handed frames through its queue writes them to every working stream
  so that a reader of that stream, however the bytes reach it in pieces, recovers exactly these
  frames in order; every registered queue receives the same frames in order; the writer then stops
  and leaves what came after the stop request in its queue.
\<close>

theorem writer_delivers_frames:
  assumes "file_spec ok written wr fls" and "writer_ready w"
    and "list_all2 (\<lambda>f bs. frame_done f bs \<and> length bs < 2 ^ 32) fs bss"
    and "\<forall>r \<in> snd ` set (w_queues w). room (length fs) (w_queue_objs w r)"
    and "(i, r) \<in> set (w_streams w)" and "ok (w_files w r)" and "written (w_files w r) = []"
    and "0 \<le> mtu" and "\<forall>bs \<in> set bss. int (length bs) \<le> mtu" and "tp_type tp = UINT32"
  shows "\<exists>w'. queue_run (ret ()) (\<lambda>f. frame_handle wr fls (Some f)) (map Some fs @ None # rest) w = (Inr rest, w') \<and>
    (\<forall>pieces. concat pieces = written (w_files w' r) \<longrightarrow>
      (\<exists>s. process_all pieces mtu (new_processor, tp) = (Inr bss, s))) \<and>
    (\<forall>q \<in> snd ` set (w_queues w). qo_items (w_queue_objs w' q) = qo_items (w_queue_objs w q) @ map Some fs)"
proof -
  obtain w' where w': "for_each (\<lambda>f. frame_handle wr fls (Some f)) fs w = (Inr (), w')"
      "\<forall>(i, r) \<in> set (w_streams w). ok (w_files w r) \<longrightarrow> (i, r) \<in> set (w_streams w') \<and>
        written (w_files w' r) = written (w_files w r) @ concat (map size_framed bss)"
      "w_queue_objs w' = queue_all fs w"
    by (rule frames_handled [OF assms(1-4)])
  have out: "written (w_files w' r) = concat (map size_framed bss)" using w'(2) assms(5-7) by fastforce
  have small: "\<forall>bs \<in> set bss. length bs < 2 ^ 32 \<and> int (length bs) \<le> mtu"
    using assms(3,9) by (auto simp: list_all2_conv_all_nth in_set_conv_nth)
  have "\<exists>s. process_all pieces mtu (new_processor, tp) = (Inr bss, s)"
    if "concat pieces = written (w_files w' r)" for pieces
    using process_whole_stream [OF assms(8,10) small] that out by (metis (no_types, lifting))
  with w' show ?thesis by (auto simp: queue_run_until_stop queue_all_def)
qed

text \<open>A byte file in memory: it takes everything.\<close>

definition memory_write :: "byte list \<Rightarrow> byte list \<Rightarrow> int option \<times> byte list" where
  "memory_write s bs = (Some (int (length bs)), s @ bs)"

lemma memory_spec: "file_spec (\<lambda>_. True) (\<lambda>s. s) memory_write (\<lambda>s. (True, s))"
  by (simp add: file_spec_def memory_write_def)

text \<open>A writer with one stream and one unbounded queue, and a finished frame of three bytes.\<close>

definition sample_writer :: "(byte list, unit) writer" where
  "sample_writer =
     \<lparr>w_daemon = blank_daemon ''writer'' None, w_curr_id = 1, w_queue_id = 1, w_streams = [(0, 0)],
      w_stream_attrs = [(0, True)], w_stream_closers = [(0, Some ())], w_queues = [(0, 0)],
      w_error_handle = True, w_frame_size = new_type_primitive UINT32 False, w_files = (\<lambda>_. []),
      w_queue_objs = (\<lambda>_. \<lparr>qo_items = [], qo_maxsize = 0, qo_meter = None\<rparr>), w_calls = []\<rparr>"

definition sample_frame :: frame where
  "sample_frame = (blank_frame ChannelFrame 3 (new_type_primitive UINT16 False) (new_type_primitive UINT32 False))
     \<lparr>fr_finalized := True, fr_used := 3, fr_buffer := new_buffer [1, 2, 3] True 3 ''!''\<rparr>"

lemma sample_done: "frame_done sample_frame [1, 2, 3]"
  by (simp add: frame_done_def raw_def sample_frame_def new_buffer_def)

lemma sample_ready: "writer_ready sample_writer"
  by (simp add: writer_ready_def writer_inv_def sample_writer_def quiet_def blank_daemon_def new_type_primitive_def)

theorem writer_delivers_frames_witness:
  "\<exists>w'. queue_run (ret ()) (\<lambda>f. frame_handle memory_write (\<lambda>s. (True, s)) (Some f))
      (map Some [sample_frame] @ None # []) sample_writer = (Inr [], w') \<and>
    (\<forall>pieces. concat pieces = w_files w' 0 \<longrightarrow>
      (\<exists>s. process_all pieces 10 (new_processor, new_type_primitive UINT32 False) = (Inr [[1, 2, 3]], s)))"
  using writer_delivers_frames [OF memory_spec sample_ready, of "[sample_frame]" "[[1, 2, 3]]" 0 0 10
      "new_type_primitive UINT32 False" "[]"] sample_done
  by (fastforce simp: sample_writer_def room_def new_type_primitive_def)

text \<open>
  Property C15: when some of the streams of a writer are broken, a frame still reaches all others;
  exactly the broken streams are removed, and for each of them, in order, first the error handler
  (if there is one) and then the closer the stream was added with (if any) is called, once.
\<close>

theorem broken_streams_dropped:
  assumes "file_spec ok written wr fls" and "writer_ready w" and "frame_done f bs" and "length bs < 2 ^ 32"
    and "\<forall>r \<in> snd ` set (w_queues w). room 1 (w_queue_objs w r)"
  shows "\<exists>w'. frame_handle wr fls (Some f) w = (Inr (), w') \<and> writer_ready w' \<and>
    w_streams w' = filter (\<lambda>(i, r). ok (w_files w r)) (w_streams w) \<and>
    (\<forall>(i, r) \<in> set (w_streams w'). written (w_files w' r) = written (w_files w r) @ size_framed bs) \<and>
    w_calls w' = w_calls w @ concat (map (drop_calls (w_error_handle w) (w_stream_closers w))
      (map fst (filter (\<lambda>(i, r). \<not> ok (w_files w r)) (w_streams w))))"
proof -
  have rm: "\<forall>r \<in> snd ` set (w_queues w). room (Suc 0) (w_queue_objs w r)" using assms(5) by simp
  obtain w' where w': "frame_handle wr fls (Some f) w = (Inr (), w')" "writer_ready w'"
      "w_streams w' = filter (\<lambda>(i, r). ok (w_files w r)) (w_streams w)"
      "\<forall>r \<in> snd ` set (w_streams w). (ok (w_files w' r) \<longleftrightarrow> ok (w_files w r)) \<and>
        (ok (w_files w' r) \<longrightarrow> written (w_files w' r) = written (w_files w r) @ size_framed bs)"
      "w_calls w' = w_calls w @ concat (map (drop_calls (w_error_handle w) (w_stream_closers w))
        (map fst (filter (\<lambda>(i, r). \<not> ok (w_files w r)) (w_streams w))))"
    by (rule frame_handle_ready [OF assms(1-4) rm])
  have "\<forall>(i, r) \<in> set (w_streams w'). written (w_files w' r) = written (w_files w r) @ size_framed bs"
    using w'(3,4) by fastforce
  with w' show ?thesis by (intro exI [of _ w']) simp
qed

theorem broken_streams_dropped_witness:
  "\<exists>w'. frame_handle (\<lambda>s bs. (None, s)) (\<lambda>s. (True, s)) (Some sample_frame) sample_writer = (Inr (), w') \<and>
     w_streams w' = [] \<and> w_calls w' = [Called_Error 0, Called_Closer ()]"
proof -
  have spec: "file_spec (\<lambda>_. False) (\<lambda>s. s) (\<lambda>s bs. (None, s)) (\<lambda>s :: byte list. (True, s))"
    by (simp add: file_spec_def)
  show ?thesis
    using broken_streams_dropped [OF spec sample_ready sample_done]
    by (fastforce simp: sample_writer_def room_def drop_calls_def)
qed

section \<open>Identifiers\<close>

lemma in_daemon_inv [simp]: "writer_inv (snd (in_daemon m w)) = writer_inv w"
  by (simp add: zoom_def writer_inv_def split: prod.split)

lemma daemon_field_inv [simp]: "writer_inv (w\<lparr>w_daemon := d\<rparr>) = writer_inv w"
  by (simp add: writer_inv_def)

lemma put_frame_inv [simp]: "writer_inv (snd (put_frame x r w)) = writer_inv w"
  by (simp add: put_frame_def zoom_def writer_inv_def split: prod.split)

lemma dict_set_new: "k \<notin> set (dict_keys d) \<Longrightarrow> dict_keys (dict_set k v d) = dict_keys d @ [k]"
  by (simp add: dict_keys_set)

lemma writer_inv_add:
  assumes "writer_inv w"
  shows "writer_inv (w\<lparr>w_streams := dict_set (w_curr_id w) s (w_streams w),
      w_stream_closers := dict_set (w_curr_id w) c (w_stream_closers w), w_stream_attrs := attrs,
      w_curr_id := w_curr_id w + 1, w_daemon := d\<rparr>)"
    and "writer_inv (w\<lparr>w_queues := dict_set (w_queue_id w) q (w_queues w), w_queue_id := w_queue_id w + 1, w_daemon := d\<rparr>)"
proof -
  have new: "w_curr_id w \<notin> set (dict_keys (w_streams w))" "w_curr_id w \<notin> set (dict_keys (w_stream_closers w))"
      "w_queue_id w \<notin> set (dict_keys (w_queues w))"
    using assms by (fastforce simp: writer_inv_def)+
  show "writer_inv (w\<lparr>w_streams := dict_set (w_curr_id w) s (w_streams w),
      w_stream_closers := dict_set (w_curr_id w) c (w_stream_closers w), w_stream_attrs := attrs,
      w_curr_id := w_curr_id w + 1, w_daemon := d\<rparr>)"
    using assms new(1,2) by (auto simp: writer_inv_def dict_set_new)
  show "writer_inv (w\<lparr>w_queues := dict_set (w_queue_id w) q (w_queues w), w_queue_id := w_queue_id w + 1, w_daemon := d\<rparr>)"
    using assms new(3) by (auto simp: writer_inv_def dict_set_new)
qed

lemma writer_inv_remove:
  assumes "writer_inv w"
  shows "writer_inv (w\<lparr>w_streams := dict_del i (w_streams w), w_stream_closers := dict_del i (w_stream_closers w),
      w_calls := calls, w_daemon := d\<rparr>)"
    and "writer_inv (w\<lparr>w_queues := dict_del i (w_queues w), w_daemon := d\<rparr>)"
proof -
  have "set (dict_keys (dict_del i (w_stream_closers w))) = set (dict_keys (dict_del i (w_streams w)))"
    unfolding dict_keys_del using assms by (simp add: writer_inv_def)
  then show "writer_inv (w\<lparr>w_streams := dict_del i (w_streams w), w_stream_closers := dict_del i (w_stream_closers w),
      w_calls := calls, w_daemon := d\<rparr>)"
    using assms by (auto simp: writer_inv_def dict_del_filter distinct_map_filter)
  show "writer_inv (w\<lparr>w_queues := dict_del i (w_queues w), w_daemon := d\<rparr>)"
    using assms by (auto simp: writer_inv_def dict_del_filter distinct_map_filter)
qed

lemma add_stream_run:
  "add_stream s c b w =
    bindp (in_daemon (increment_metric ''stream_count'' (VInt 1))) (\<lambda>_. ret (w_curr_id w))
      (w\<lparr>w_streams := dict_set (w_curr_id w) s (w_streams w),
         w_stream_closers := dict_set (w_curr_id w) c (w_stream_closers w),
         w_stream_attrs := dict_set (w_curr_id w) b (w_stream_attrs w), w_curr_id := w_curr_id w + 1,
         w_daemon := w_daemon w\<rparr>)"
  by (simp add: add_stream_def w_with_lock_def)

lemma add_queue_run:
  "add_queue q w =
    bindp (in_daemon (increment_metric ''queue_count'' (VInt 1))) (\<lambda>_. ret (w_queue_id w))
      (w\<lparr>w_queues := dict_set (w_queue_id w) q (w_queues w), w_queue_id := w_queue_id w + 1, w_daemon := w_daemon w\<rparr>)"
  by (simp add: add_queue_def w_with_lock_def)

lemma bindp_ret_state [simp]: "snd (bindp m (\<lambda>_. ret a) w) = snd (m w)"
  by (simp add: bindp_def split: prod.split sum.split)

lemma remove_stream_inv:
  assumes "writer_inv w"
  shows "writer_inv (snd (remove_stream i call w))"
proof (cases "i \<in> set (dict_keys (w_streams w))")
  case True
  then have "dict_get (w_stream_closers w) i \<noteq> None"
    using assms by (simp add: writer_inv_def map_of_eq_None_iff)
  then obtain c where c: "dict_get (w_stream_closers w) i = Some c" by blast
  have "remove_stream i call w = bindp (in_daemon (decrement_metric ''stream_count'' (VInt 1))) (\<lambda>_. ret True)
      (w\<lparr>w_streams := dict_del i (w_streams w), w_stream_closers := dict_del i (w_stream_closers w),
         w_calls := w_calls w @ (case c of None \<Rightarrow> [] | Some x \<Rightarrow> if call then [Called_Closer x] else []),
         w_daemon := w_daemon w\<rparr>)"
    using True c by (cases c; cases call) (simp_all add: remove_stream_def w_with_lock_def call_back_def)
  with writer_inv_remove(1) [OF assms] show ?thesis by simp
next
  case False
  then have "remove_stream i call w = (Inr False, w)" by (simp add: remove_stream_def w_with_lock_def)
  with assms show ?thesis by simp
qed

lemma bind_daemon_inv:
  "writer_inv (snd (m v)) \<Longrightarrow> writer_inv (snd (bindp m (\<lambda>_. bindp (in_daemon n) (\<lambda>_. ret a)) v))"
  by (auto simp: bindp_def zoom_def split: prod.splits sum.splits)

lemma remove_queue_inv:
  assumes "writer_inv w"
  shows "writer_inv (snd (remove_queue i inject w))"
proof (cases "dict_get (w_queues w) i")
  case None
  then have "remove_queue i inject w = (Inr False, w)" by (simp add: remove_queue_def w_with_lock_def)
  with assms show ?thesis by simp
next
  case (Some r)
  let ?w = "w\<lparr>w_queues := dict_del i (w_queues w), w_daemon := w_daemon w\<rparr>"
  have "remove_queue i inject w = bindp (if inject then put_frame None r else ret ())
      (\<lambda>_. bindp (in_daemon (decrement_metric ''queue_count'' (VInt 1))) (\<lambda>_. ret True)) ?w"
    using Some by (simp add: remove_queue_def w_with_lock_def)
  moreover have "writer_inv (snd ((if inject then put_frame None r else ret ()) ?w))"
    using writer_inv_remove(2) [OF assms] by simp
  ultimately show ?thesis by (simp add: bind_daemon_inv)
qed

lemma in_daemon_keeps: "in_daemon m w = (r, w') \<Longrightarrow> w_streams w' = w_streams w \<and> w_queues w' = w_queues w"
  by (auto simp: zoom_def split: prod.splits)

lemma add_inv:
  assumes "writer_inv w"
  shows "writer_inv (snd (add_stream s c b w))" and "writer_inv (snd (add_queue q w))"
  unfolding add_stream_run add_queue_run bindp_ret_state in_daemon_inv
  by (rule writer_inv_add [OF assms])+

lemma add_stream_new:
  assumes "add_stream s c b w = (Inr j, w')" and "w_curr_id w \<notin> set (dict_keys (w_streams w))"
  shows "j = w_curr_id w \<and> w_streams w' = w_streams w @ [(w_curr_id w, s)]"
  using assms in_daemon_keeps dict_set_fresh [OF assms(2), of s]
  unfolding add_stream_run by (elim bindp_InrE) fastforce

lemma add_queue_new:
  assumes "add_queue q w = (Inr j, w')" and "w_queue_id w \<notin> set (dict_keys (w_queues w))"
  shows "j = w_queue_id w \<and> w_queues w' = w_queues w @ [(w_queue_id w, q)]"
  using assms in_daemon_keeps dict_set_fresh [OF assms(2), of q]
  unfolding add_queue_run by (elim bindp_InrE) fastforce

text \<open>
  Whatever is registered and removed, and whether or not the metrics fail, every stream of
  a writer has an identifier of its own and a closer entry, every queue an identifier of its own,
  and a new stream or queue gets an identifier that none of the registered ones has.
\<close>

theorem writer_identifiers:
  assumes "writer_inv w"
  shows "writer_inv (snd (add_stream s c b w)) \<and> writer_inv (snd (add_queue q w)) \<and>
    writer_inv (snd (remove_stream i call w)) \<and> writer_inv (snd (remove_queue i inject w)) \<and>
    (\<forall>j w'. add_stream s c b w = (Inr j, w') \<longrightarrow>
       j \<notin> set (dict_keys (w_streams w)) \<and> w_streams w' = w_streams w @ [(j, s)]) \<and>
    (\<forall>j w'. add_queue q w = (Inr j, w') \<longrightarrow>
       j \<notin> set (dict_keys (w_queues w)) \<and> w_queues w' = w_queues w @ [(j, q)])"
proof -
  have new: "w_curr_id w \<notin> set (dict_keys (w_streams w))" "w_queue_id w \<notin> set (dict_keys (w_queues w))"
    using assms by (fastforce simp: writer_inv_def)+
  show ?thesis
    using new add_inv [OF assms] remove_stream_inv [OF assms] remove_queue_inv [OF assms]
      add_stream_new [OF _ new(1)] add_queue_new [OF _ new(2)] by blast
qed

theorem writer_identifiers_witness:
  "writer_inv (snd (add_stream 7 None False sample_writer)) \<and> writer_inv (snd (remove_stream 0 True sample_writer))"
proof -
  have "writer_inv sample_writer" using sample_ready by (simp add: writer_ready_def)
  from writer_identifiers [OF this, of 7 None False 0 0 True True] show ?thesis by blast
qed

end
