(* ===== verification/Telemetry_Client.thy ===== *)
theory Telemetry_Client
  imports Decoding Stream_Writer
begin

text \<open>
  Receivers of telemetry: the frame handling all clients share (\<open>vtelem/client/__init__.py\<close>), the client
  that reads a file (\<open>vtelem/client/file.py\<close>) and the loop of the clients that read a socket
  (\<open>vtelem/client/socket.py\<close>). The queue for the decoded frames is the list of what was put into it.
  Whether the daemon is asked to stop is a question put to the environment before every round, and
  what a socket delivers is a list of events.
\<close>

section \<open>Clients\<close>

record telemetry_client =
  tc_mtu :: int
  tc_registry :: channel_registry
  tc_frames :: "parsed_frame option list"
  tc_expected_id :: "type_primitive option"
  tc_processor :: processor

definition new_client :: "channel_registry \<Rightarrow> type_primitive option \<Rightarrow> int \<Rightarrow> telemetry_client" where
  "new_client reg app_id mtu =
     \<lparr>tc_mtu = mtu, tc_registry = reg, tc_frames = [], tc_expected_id = app_id, tc_processor = new_processor\<rparr>"

definition update_mtu :: "int \<Rightarrow> ('x telemetry_client_scheme, unit) py" where
  "update_mtu new_mtu = modify (\<lambda>c. c\<lparr>tc_mtu := new_mtu\<rparr>)"

definition put_result :: "parsed_frame option \<Rightarrow> ('x telemetry_client_scheme, unit) py" where
  "put_result f = modify (\<lambda>c. c\<lparr>tc_frames := tc_frames c @ [f]\<rparr>)"

abbreviation in_registry :: "(channel_registry, 'a) py \<Rightarrow> ('x telemetry_client_scheme, 'a) py" where
  "in_registry m \<equiv> zoom tc_registry (\<lambda>r c. c\<lparr>tc_registry := r\<rparr>) m"

fun handle_frames :: "byte list list \<Rightarrow> ('x telemetry_client_scheme, int) py" where
  "handle_frames [] = ret 0"
| "handle_frames (frame # new_frames) =
     bindp (gets tc_expected_id) (\<lambda>expected_id.
     bindp (in_registry (decode_frame frame (int (length frame)) expected_id)) (\<lambda>new_frame.
     bindp (case new_frame of None \<Rightarrow> ret 0 | Some p \<Rightarrow> bindp (put_result (Some p)) (\<lambda>_. ret 1)) (\<lambda>n.
     bindp (handle_frames new_frames) (\<lambda>count. ret (n + count)))))"

text \<open>\<open>self.processor.process(data, frame_size, self.mtu)\<close> with the local \<open>frame_size\<close>.\<close>

definition client_process :: "byte list \<Rightarrow> ('x telemetry_client_scheme \<times> type_primitive, byte list list) py" where
  "client_process data =
     bindp (gets (\<lambda>s. tc_mtu (fst s))) (\<lambda>mtu.
     zoom (\<lambda>(c, tp). (tc_processor c, tp)) (\<lambda>(p, tp) (c, _). (c\<lparr>tc_processor := p\<rparr>, tp)) (process data mtu))"

section \<open>Files\<close>

record file_client = telemetry_client +
  fc_env :: bool
  fc_byte_index :: nat
  fc_max_frames :: "int option"
  fc_frame_count :: int
  fc_to_process :: "byte list list"

definition new_file_client :: "nat \<Rightarrow> int option \<Rightarrow> channel_registry \<Rightarrow> type_primitive option \<Rightarrow> bool \<Rightarrow> int \<Rightarrow> file_client" where
  "new_file_client byte_index max_frames reg app_id env mtu =
     telemetry_client.extend (new_client reg app_id mtu)
       \<lparr>fc_env = env, fc_byte_index = byte_index, fc_max_frames = max_frames, fc_frame_count = 0, fc_to_process = []\<rparr>"

definition process_raw_frames :: "(file_client, bool) py" where
  "process_raw_frames =
     bindp (gets (\<lambda>c. (int (length (fc_to_process c)), fc_max_frames c, fc_frame_count c))) (\<lambda>(staged, max_frames, frame_count).
     let process_count = (case max_frames of None \<Rightarrow> staged | Some m \<Rightarrow> min staged (m - frame_count))
     in bindp (if process_count = 0 then ret ()
               else
                 bindp (gets (\<lambda>c. take (nat process_count) (fc_to_process c))) (\<lambda>to_process.
                 bindp (modify (\<lambda>c. c\<lparr>fc_to_process := drop (nat process_count) (fc_to_process c)\<rparr>)) (\<lambda>_.
                 bindp (handle_frames to_process) (\<lambda>count.
                 modify (\<lambda>c. c\<lparr>fc_frame_count := fc_frame_count c + count\<rparr>))))) (\<lambda>_.
        gets (\<lambda>c. case max_frames of None \<Rightarrow> True | Some m \<Rightarrow> fc_frame_count c < m)))"

text \<open>\<open>stream.read(n)\<close> on the bytes from the current position: a negative number reads all of them.\<close>

definition read_chunk :: "int \<Rightarrow> byte list \<Rightarrow> byte list \<times> byte list" where
  "read_chunk n bs = (if n < 0 then (bs, []) else (take (nat n) bs, drop (nat n) bs))"

text \<open>
  The loop of \<open>run\<close>: \<open>stopping k\<close> says whether round \<open>k\<close> finds the daemon asked to stop, the bytes are
  what the file holds from the current position. It returns the bytes that were not read.
\<close>

function file_loop :: "(nat \<Rightarrow> bool) \<Rightarrow> nat \<Rightarrow> int \<Rightarrow> byte list \<Rightarrow> (file_client \<times> type_primitive, byte list) py" where
  "file_loop stopping k chunk bs =
     (if stopping k then ret bs
      else if fst (read_chunk chunk bs) = []
      then bindp (zoom fst (\<lambda>c s. (c, snd s)) (put_result None)) (\<lambda>_. ret (snd (read_chunk chunk bs)))
      else
        bindp (client_process (fst (read_chunk chunk bs))) (\<lambda>new.
        bindp (modify (\<lambda>(c, tp). (c\<lparr>fc_to_process := fc_to_process c @ new\<rparr>, tp))) (\<lambda>_.
        bindp (zoom fst (\<lambda>c s. (c, snd s)) process_raw_frames) (\<lambda>keep_reading.
        if keep_reading then file_loop stopping (Suc k) chunk (snd (read_chunk chunk bs))
        else ret (snd (read_chunk chunk bs))))))"
  by pat_completeness auto
termination
  by (relation "measure (\<lambda>(_, _, _, bs). length bs)") (auto simp: read_chunk_def split: if_splits)

declare file_loop.simps [simp del]

definition file_run :: "(nat \<Rightarrow> bool) \<Rightarrow> byte list option \<Rightarrow> (file_client, unit) py" where
  "file_run stopping file c =
     (case file of
        None \<Rightarrow> (Inl FileNotFoundError, c)
      | Some content \<Rightarrow>
          (case new_default ''count'' False of
             Inl err \<Rightarrow> (Inl err, c)
           | Inr size_prim \<Rightarrow>
               if \<not> fc_env c then (Inl AssertionError, c)
               else case file_loop stopping 0 (tc_mtu c + get_size (tp_type size_prim)) (drop (fc_byte_index c) content) (c, size_prim) of
                 (Inl err, (c', _)) \<Rightarrow> (Inl err, c')
               | (Inr rest, (c', _)) \<Rightarrow>
                   (Inr (), c'\<lparr>fc_byte_index := fc_byte_index c + (length (drop (fc_byte_index c) content) - length rest)\<rparr>)))"

section \<open>Sockets\<close>

text \<open>What \<open>recv\<close> does: it delivers bytes (none when the stream has ended), times out or fails.\<close>

datatype recv_event = Received "byte list" | TimedOut | SocketError

fun socket_loop :: "(nat \<Rightarrow> bool) \<Rightarrow> nat \<Rightarrow> recv_event list \<Rightarrow> (telemetry_client \<times> type_primitive, unit) py" where
  "socket_loop stopping k events =
     (if stopping k then ret ()
      else case events of
        [] \<Rightarrow> raise Blocks
      | TimedOut # rest \<Rightarrow> socket_loop stopping (Suc k) rest
      | SocketError # rest \<Rightarrow> ret ()
      | Received raw_data # rest \<Rightarrow>
          if raw_data = [] then ret ()
          else
            bindp (client_process raw_data) (\<lambda>new.
            bindp (zoom fst (\<lambda>c s. (c, snd s)) (handle_frames new)) (\<lambda>_.
            socket_loop stopping (Suc k) rest)))"

declare socket_loop.simps [simp del]

definition socket_run :: "(nat \<Rightarrow> bool) \<Rightarrow> bool \<Rightarrow> recv_event list \<Rightarrow> (telemetry_client, unit) py" where
  "socket_run stopping env events c =
     (case new_default ''count'' False of
        Inl err \<Rightarrow> (Inl err, c)
      | Inr size_prim \<Rightarrow>
          if \<not> env then (Inl AssertionError, c)
          else (case socket_loop stopping 0 events (c, size_prim) of (r, (c', _)) \<Rightarrow> (r, c')))"

section \<open>Decoding\<close>

text \<open>What the frames decode to, in order, without the ones that are refused.\<close>

definition decodes_to :: "channel_registry \<Rightarrow> type_primitive option \<Rightarrow> byte list \<Rightarrow> parsed_frame option \<Rightarrow> bool" where
  "decodes_to reg eid bs p \<longleftrightarrow> decode_frame bs (int (length bs)) eid reg = (Inr p, reg)"

definition delivered :: "parsed_frame option list \<Rightarrow> parsed_frame list" where
  "delivered ps = map the (filter (\<lambda>p. p \<noteq> None) ps)"

lemma delivered_simps [simp]:
  "delivered [] = []" "delivered (None # ps) = delivered ps" "delivered (Some p # ps) = p # delivered ps"
  "delivered (ps @ qs) = delivered ps @ delivered qs"
  by (simp_all add: delivered_def)

lemma handle_frames_run:
  assumes "list_all2 (decodes_to (tc_registry c) (tc_expected_id c)) bss ps"
  shows "handle_frames bss c = (Inr (int (length (delivered ps))),
    c\<lparr>tc_frames := tc_frames c @ map Some (delivered ps)\<rparr>)"
  using assms
proof (induction bss arbitrary: ps c)
  case Nil
  then show ?case by simp
next
  case (Cons bs bss)
  then obtain p ps' where ps: "ps = p # ps'" "decodes_to (tc_registry c) (tc_expected_id c) bs p"
      "list_all2 (decodes_to (tc_registry c) (tc_expected_id c)) bss ps'"
    by (auto simp: list_all2_Cons1)
  let ?c = "c\<lparr>tc_frames := tc_frames c @ map Some (delivered [p])\<rparr>"
  have rest: "list_all2 (decodes_to (tc_registry ?c) (tc_expected_id ?c)) bss ps'" using ps(3) by simp
  show ?case
    using ps(1,2) Cons.IH [OF rest]
    by (cases p) (simp_all add: decodes_to_def put_result_def zoom_def bindp_def)
qed

section \<open>Reading a file to its end\<close>

definition proc_of :: "'x telemetry_client_scheme \<times> type_primitive \<Rightarrow> proc_state" where
  "proc_of = (\<lambda>(c, tp). (tc_processor c, tp))"

lemma client_process_run:
  assumes "proc_ok mtu (proc_of s)" and "settled (proc_of s)" and "sizes_ok mtu (pending (proc_of s) @ data)"
    and "tc_mtu (fst s) = mtu"
  obtains p tp where "client_process data s = (Inr (fst (deframe (pending (proc_of s) @ data))), ((fst s)\<lparr>tc_processor := p\<rparr>, tp))"
    and "proc_ok mtu (p, tp)" and "settled (p, tp)" and "pending (p, tp) = snd (deframe (pending (proc_of s) @ data))"
proof -
  obtain c tp0 where s: "s = (c, tp0)" by (cases s)
  obtain p tp where "process data mtu (proc_of s) = (Inr (fst (deframe (pending (proc_of s) @ data))), (p, tp))"
      "proc_ok mtu (p, tp)" "settled (p, tp)" "pending (p, tp) = snd (deframe (pending (proc_of s) @ data))"
    using process_run [OF assms(1-3)] by auto
  then show thesis using assms(4) s by (intro that [of p tp]) (simp_all add: client_process_def proc_of_def zoom_def)
qed

lemma process_raw_all:
  assumes "fc_max_frames c = None" and "list_all2 (decodes_to (tc_registry c) (tc_expected_id c)) (fc_to_process c) ps"
  shows "process_raw_frames c = (Inr True, c\<lparr>fc_to_process := [], tc_frames := tc_frames c @ map Some (delivered ps),
    fc_frame_count := fc_frame_count c + int (length (delivered ps))\<rparr>)"
proof (cases "fc_to_process c")
  case Nil
  then show ?thesis using assms by (simp add: process_raw_frames_def Let_def)
next
  case (Cons b bs)
  have "list_all2 (decodes_to (tc_registry (c\<lparr>fc_to_process := []\<rparr>)) (tc_expected_id (c\<lparr>fc_to_process := []\<rparr>))) (fc_to_process c) ps"
    using assms(2) by simp
  from handle_frames_run [OF this] show ?thesis
    using assms(1) Cons by (simp add: process_raw_frames_def Let_def)
qed

lemma file_loop_end:
  assumes "\<not> stopping k"
  shows "file_loop stopping k chunk [] (c, tp) = (Inr [], (c\<lparr>tc_frames := tc_frames c @ [None]\<rparr>, tp))"
  using assms by (simp add: file_loop.simps [of stopping k chunk "[]"] read_chunk_def put_result_def zoom_def)

lemma file_loop_step:
  assumes "\<not> stopping k" and "0 < chunk" and "bs \<noteq> []"
    and "client_process (take (nat chunk) bs) (c, tp) = (Inr new, (c1, tp1))"
    and "process_raw_frames (c1\<lparr>fc_to_process := fc_to_process c1 @ new\<rparr>) = (Inr True, c2)"
  shows "file_loop stopping k chunk bs (c, tp) = file_loop stopping (Suc k) chunk (drop (nat chunk) bs) (c2, tp1)"
proof -
  have "read_chunk chunk bs = (take (nat chunk) bs, drop (nat chunk) bs)" "take (nat chunk) bs \<noteq> []"
    using assms(2,3) by (auto simp: read_chunk_def)
  with assms(1,4,5) show ?thesis
    by (subst file_loop.simps) (simp add: zoom_def)
qed

lemma file_loop_run:
  assumes "\<forall>k. \<not> stopping k" and "0 < chunk" and "fc_max_frames c = None" and "fc_to_process c = []" and "tc_mtu c = mtu"
    and "proc_ok mtu (proc_of (c, tp))" and "settled (proc_of (c, tp))" and "sizes_ok mtu (pending (proc_of (c, tp)) @ bs)"
    and "list_all2 (decodes_to (tc_registry c) (tc_expected_id c)) (fst (deframe (pending (proc_of (c, tp)) @ bs))) ps"
  shows "\<exists>c' tp'. file_loop stopping k chunk bs (c, tp) = (Inr [], (c', tp')) \<and>
    tc_frames c' = tc_frames c @ map Some (delivered ps) @ [None] \<and>
    fc_frame_count c' = fc_frame_count c + int (length (delivered ps)) \<and> fc_to_process c' = []"
  using assms(3-)
proof (induction bs arbitrary: k c tp ps rule: length_induct)
  case (1 bs)
  show ?case
  proof (cases "bs = []")
    case True
    have "ps = []" using deframe_wait [OF 1(6,5)] 1(8) True by simp
    moreover have "file_loop stopping k chunk [] (c, tp) = (Inr [], (c\<lparr>tc_frames := tc_frames c @ [None]\<rparr>, tp))"
      using assms(1) by (intro file_loop_end) blast
    ultimately show ?thesis using True 1(3) by simp
  next
    case False
    let ?data = "take (nat chunk) bs" and ?rest = "drop (nat chunk) bs" and ?pend = "pending (proc_of (c, tp))"
    have so: "sizes_ok mtu (?pend @ ?data)" "sizes_ok mtu (snd (deframe (?pend @ ?data)) @ ?rest)"
      using sizes_ok_append [of mtu "?pend @ ?data" ?rest] 1(7) by simp_all
    obtain p tp1 where run: "client_process ?data (c, tp) = (Inr (fst (deframe (?pend @ ?data))), (c\<lparr>tc_processor := p\<rparr>, tp1))"
        "proc_ok mtu (p, tp1)" "settled (p, tp1)" "pending (p, tp1) = snd (deframe (?pend @ ?data))"
      using client_process_run [OF 1(5,6) so(1)] 1(4) by auto
    have "fst (deframe (?pend @ bs)) = fst (deframe (?pend @ ?data)) @ fst (deframe (pending (p, tp1) @ ?rest))"
      using deframe_append [of "?pend @ ?data" ?rest] run(4) by simp
    then obtain ps1 ps2 where ps: "ps = ps1 @ ps2"
        "list_all2 (decodes_to (tc_registry c) (tc_expected_id c)) (fst (deframe (?pend @ ?data))) ps1"
        "list_all2 (decodes_to (tc_registry c) (tc_expected_id c)) (fst (deframe (pending (p, tp1) @ ?rest))) ps2"
      using 1(8) by (auto simp: list_all2_append1)
    let ?c1 = "c\<lparr>tc_processor := p\<rparr>"
    let ?c2 = "?c1\<lparr>fc_to_process := fst (deframe (?pend @ ?data))\<rparr>"
    let ?c3 = "?c2\<lparr>fc_to_process := [], tc_frames := tc_frames c @ map Some (delivered ps1),
        fc_frame_count := fc_frame_count c + int (length (delivered ps1))\<rparr>"
    have staged: "?c1\<lparr>fc_to_process := fc_to_process ?c1 @ fst (deframe (?pend @ ?data))\<rparr> = ?c2"
      using 1(3) by (cases c) simp
    have "process_raw_frames ?c2 = (Inr True, ?c3)"
      using process_raw_all [of ?c2 ps1] 1(2) ps(2) by simp
    then have raw: "process_raw_frames (?c1\<lparr>fc_to_process := fc_to_process ?c1 @ fst (deframe (?pend @ ?data))\<rparr>) = (Inr True, ?c3)"
      unfolding staged .
    have step: "file_loop stopping k chunk bs (c, tp) = file_loop stopping (Suc k) chunk ?rest (?c3, tp1)"
      by (rule file_loop_step [OF _ assms(2) False run(1) raw]) (use assms(1) in blast)
    have "length ?rest < length bs" using False assms(2) by simp
    then have "\<exists>c' tp'. file_loop stopping (Suc k) chunk ?rest (?c3, tp1) = (Inr [], (c', tp')) \<and>
        tc_frames c' = tc_frames ?c3 @ map Some (delivered ps2) @ [None] \<and>
        fc_frame_count c' = fc_frame_count ?c3 + int (length (delivered ps2)) \<and> fc_to_process c' = []"
      using 1(2,4) run(2-4) so(2) ps(3) by (intro 1(1) [rule_format]) (simp_all add: proc_of_def)
    then show ?thesis using step ps(1) by auto
  qed
qed

lemma count_prim: "\<exists>tp. new_default ''count'' False = Inr tp \<and> tp_type tp = UINT32"
  by (simp add: new_default_uint32 new_type_primitive_def)

lemma file_run_all:
  assumes "\<forall>k. \<not> stopping k" and "0 \<le> mtu" and "\<forall>bs \<in> set bss. length bs < 2 ^ 32 \<and> int (length bs) \<le> mtu"
    and "list_all2 (decodes_to reg eid) bss ps"
  shows "\<exists>c. file_run stopping (Some (concat (map size_framed bss))) (new_file_client 0 None reg eid True mtu) = (Inr (), c) \<and>
    tc_frames c = map Some (delivered ps) @ [None] \<and> fc_frame_count c = int (length (delivered ps)) \<and>
    fc_byte_index c = length (concat (map size_framed bss))"
proof -
  let ?c = "new_file_client 0 None reg eid True mtu" and ?bs = "concat (map size_framed bss)"
  obtain tp where tp: "new_default ''count'' False = Inr tp" "tp_type tp = UINT32" using count_prim by blast
  have c: "fc_max_frames ?c = None" "fc_to_process ?c = []" "tc_mtu ?c = mtu" "tc_processor ?c = new_processor"
      "tc_registry ?c = reg" "tc_expected_id ?c = eid" "tc_frames ?c = []" "fc_frame_count ?c = 0" "fc_env ?c" "fc_byte_index ?c = 0"
    by (simp_all add: new_file_client_def new_client_def telemetry_client.defs)
  have new: "proc_ok mtu (proc_of (?c, tp))" "settled (proc_of (?c, tp))" "pending (proc_of (?c, tp)) = []"
    using new_processor_ok [OF assms(2) tp(2)] c(4) by (simp_all add: proc_of_def)
  have so: "sizes_ok mtu (pending (proc_of (?c, tp)) @ ?bs)"
    using sizes_ok_all [OF assms(3), of "[]"] new(3) by (simp add: sizes_ok.simps [of mtu "[]"])
  have "deframe ?bs = (bss, [])"
    using deframe_all [of bss "[]"] assms(3) by (simp add: deframe.simps [of "[]"])
  then have dec: "list_all2 (decodes_to (tc_registry ?c) (tc_expected_id ?c)) (fst (deframe (pending (proc_of (?c, tp)) @ ?bs))) ps"
    using assms(4) c(5,6) new(3) by simp
  have chunk: "0 < mtu + get_size UINT32" using assms(2) by simp
  obtain c' tp' where "file_loop stopping 0 (mtu + get_size UINT32) ?bs (?c, tp) = (Inr [], (c', tp'))"
      "tc_frames c' = map Some (delivered ps) @ [None]" "fc_frame_count c' = int (length (delivered ps))"
    using file_loop_run [OF assms(1) chunk c(1-3) new(1,2) so dec, of 0] c(7,8) by auto
  then show ?thesis using tp c(3,9,10) by (simp add: file_run_def)
qed

section \<open>The limit on the number of frames\<close>

definition exported :: "'x telemetry_client_scheme \<Rightarrow> nat" where
  "exported c = length (filter (\<lambda>f. f \<noteq> None) (tc_frames c))"

lemma handle_frames_count:
  obtains fs reg n where "snd (handle_frames bss c) = c\<lparr>tc_registry := reg, tc_frames := fs\<rparr>"
    and "exported (c\<lparr>tc_registry := reg, tc_frames := fs\<rparr>) = exported c + n" and "n \<le> length bss"
    and "\<forall>k. fst (handle_frames bss c) = Inr k \<longrightarrow> k = int n"
proof (induction bss arbitrary: c thesis)
  case Nil
  show ?case by (rule Nil [of "tc_frames c" "tc_registry c" 0]) simp_all
next
  case (Cons bs bss)
  obtain r reg where dec: "decode_frame bs (int (length bs)) (tc_expected_id c) (tc_registry c) = (r, reg)" by (metis prod.exhaust)
  show ?case
  proof (cases r)
    case (Inl err)
    show ?thesis by (rule Cons.prems [of "tc_frames c" reg 0]) (use dec Inl in \<open>simp_all add: zoom_def bindp_def exported_def\<close>)
  next
    case (Inr p)
    let ?new = "case p of None \<Rightarrow> [] | Some q \<Rightarrow> [Some q]"
    let ?c = "c\<lparr>tc_registry := reg, tc_frames := tc_frames c @ ?new\<rparr>"
    obtain fs reg' n where rest: "snd (handle_frames bss ?c) = ?c\<lparr>tc_registry := reg', tc_frames := fs\<rparr>"
        "exported (?c\<lparr>tc_registry := reg', tc_frames := fs\<rparr>) = exported ?c + n" "n \<le> length bss"
        "\<forall>k. fst (handle_frames bss ?c) = Inr k \<longrightarrow> k = int n"
      by (rule Cons.IH)
    have run: "handle_frames (bs # bss) c = bindp (handle_frames bss) (\<lambda>count. ret (int (length ?new) + count)) ?c"
      using dec Inr by (cases p) (simp_all add: zoom_def put_result_def bindp_def split: prod.split sum.split)
    show ?thesis
    proof (rule Cons.prems [of fs reg' "length ?new + n"])
      show "snd (handle_frames (bs # bss) c) = c\<lparr>tc_registry := reg', tc_frames := fs\<rparr>"
        unfolding run using rest(1) by (cases "handle_frames bss ?c") (auto simp: bindp_def split: sum.split)
      show "exported (c\<lparr>tc_registry := reg', tc_frames := fs\<rparr>) = exported c + (length ?new + n)"
        using rest(2) by (cases p) (simp_all add: exported_def)
      show "length ?new + n \<le> length (bs # bss)" using rest(3) by (cases p) simp_all
      show "\<forall>k. fst (handle_frames (bs # bss) c) = Inr k \<longrightarrow> k = int (length ?new + n)"
        unfolding run using rest(4) by (cases "handle_frames bss ?c") (auto simp: bindp_def split: sum.splits)
    qed
  qed
qed

text \<open>What the rounds keep: the exported frames are counted, and there are not too many of them.\<close>

definition counted :: "int \<Rightarrow> file_client \<Rightarrow> bool" where
  "counted m c \<longleftrightarrow> fc_max_frames c = Some m \<and> fc_frame_count c = int (exported c) \<and> int (exported c) \<le> m"

lemma process_raw_counted:
  assumes "counted m c"
  shows "int (exported (snd (process_raw_frames c))) \<le> m"
    and "process_raw_frames c = (Inr keep, c') \<Longrightarrow> counted m c'"
proof -
  define pc where "pc = min (int (length (fc_to_process c))) (m - fc_frame_count c)"
  let ?c1 = "c\<lparr>fc_to_process := drop (nat pc) (fc_to_process c)\<rparr>"
  have m: "fc_max_frames c = Some m" "fc_frame_count c = int (exported c)" "int (exported c) \<le> m"
    using assms by (simp_all add: counted_def)
  obtain fs reg n where h: "snd (handle_frames (take (nat pc) (fc_to_process c)) ?c1) = ?c1\<lparr>tc_registry := reg, tc_frames := fs\<rparr>"
      "exported (?c1\<lparr>tc_registry := reg, tc_frames := fs\<rparr>) = exported ?c1 + n" "n \<le> length (take (nat pc) (fc_to_process c))"
      "\<forall>k. fst (handle_frames (take (nat pc) (fc_to_process c)) ?c1) = Inr k \<longrightarrow> k = int n"
    by (rule handle_frames_count)
  have n: "int (exported c) + int n \<le> m" using h(3) m by (auto simp: pc_def)
  have e: "exported (?c1\<lparr>tc_registry := reg, tc_frames := fs\<rparr>) = exported c + n" using h(2) by (simp add: exported_def)
  have run: "process_raw_frames c =
      (if pc = 0 then (Inr (fc_frame_count c < m), c)
       else bindp (handle_frames (take (nat pc) (fc_to_process c))) (\<lambda>count.
         bindp (modify (\<lambda>c. c\<lparr>fc_frame_count := fc_frame_count c + count\<rparr>)) (\<lambda>_. gets (\<lambda>c. fc_frame_count c < m))) ?c1)"
    using m(1) by (simp add: process_raw_frames_def Let_def pc_def bindp_assoc)
  show "int (exported (snd (process_raw_frames c))) \<le> m"
    using run h(1) e n m(3) by (auto simp: bindp_def exported_def split: prod.splits sum.splits)
  show "counted m c'" if "process_raw_frames c = (Inr keep, c')"
    using that run h(1,4) e n m by (auto simp: bindp_def counted_def exported_def split: prod.splits sum.splits if_splits)
qed

lemma client_process_fields:
  obtains p tp' where "snd (client_process data (c, tp)) = (c\<lparr>tc_processor := p\<rparr>, tp')"
  by (cases "process data (tc_mtu c) (tc_processor c, tp)") (auto simp: client_process_def zoom_def)

lemma counted_staged: "counted m (c\<lparr>tc_processor := p, fc_to_process := xs\<rparr>) = counted m c"
  by (cases c) (simp add: counted_def exported_def)

lemma file_loop_counted:
  assumes "counted m c"
  shows "int (exported (fst (snd (file_loop stopping k chunk bs (c, tp))))) \<le> m"
  using assms
proof (induction bs arbitrary: k c tp rule: length_induct)
  case (1 bs)
  have few: "int (exported c) \<le> m" using 1(2) by (simp add: counted_def)
  let ?data = "fst (read_chunk chunk bs)" and ?rest = "snd (read_chunk chunk bs)"
  show ?case
  proof (cases "stopping k \<or> ?data = []")
    case True
    then show ?thesis using few by (subst file_loop.simps) (auto simp: put_result_def zoom_def exported_def)
  next
    case False
    then have shorter: "length ?rest < length bs" by (auto simp: read_chunk_def split: if_splits)
    obtain p tp' where fields: "snd (client_process ?data (c, tp)) = (c\<lparr>tc_processor := p\<rparr>, tp')"
      by (rule client_process_fields)
    show ?thesis
    proof (cases "fst (client_process ?data (c, tp))")
      case (Inl err)
      then have "client_process ?data (c, tp) = (Inl err, (c\<lparr>tc_processor := p\<rparr>, tp'))" using fields by (metis prod.collapse)
      then show ?thesis using False few by (subst file_loop.simps) (simp add: exported_def)
    next
      case (Inr new)
      then have run: "client_process ?data (c, tp) = (Inr new, (c\<lparr>tc_processor := p\<rparr>, tp'))" using fields by (metis prod.collapse)
      define c1 where "c1 = c\<lparr>tc_processor := p, fc_to_process := fc_to_process (c\<lparr>tc_processor := p\<rparr>) @ new\<rparr>"
      have c1: "counted m c1" unfolding c1_def using 1(2) by (simp only: counted_staged)
      have eq: "file_loop stopping k chunk bs (c, tp) =
          bindp (zoom fst (\<lambda>c s. (c, snd s)) process_raw_frames) (\<lambda>keep_reading.
            if keep_reading then file_loop stopping (Suc k) chunk ?rest else ret ?rest) (c1, tp')"
        using False run by (subst file_loop.simps) (simp add: c1_def)
      obtain r c2 where raw: "process_raw_frames c1 = (r, c2)" by (metis prod.exhaust)
      have few2: "int (exported c2) \<le> m" using process_raw_counted(1) [OF c1] raw by simp
      show ?thesis
      proof (cases r)
        case (Inl err)
        then show ?thesis using raw few2 by (simp add: eq zoom_def bindp_def)
      next
        case (Inr keep)
        then have "counted m c2" using process_raw_counted(2) [OF c1] raw by simp
        then have "int (exported (fst (snd (file_loop stopping (Suc k) chunk ?rest (c2, tp'))))) \<le> m"
          using 1(1) shorter by blast
        then show ?thesis using raw Inr few2 by (simp add: eq zoom_def bindp_def)
      qed
    qed
  qed
qed

section \<open>Reading a socket\<close>

text \<open>The bytes that a list of events delivers, when none of them ends the stream.\<close>

fun received :: "recv_event list \<Rightarrow> byte list" where
  "received [] = []"
| "received (Received bs # events) = bs @ received events"
| "received (_ # events) = received events"

lemma socket_loop_run:
  assumes "\<forall>k. \<not> stopping k" and "\<forall>e \<in> set events. e \<noteq> SocketError \<and> e \<noteq> Received []" and "tc_mtu c = mtu"
    and "proc_ok mtu (proc_of (c, tp))" and "settled (proc_of (c, tp))"
    and "sizes_ok mtu (pending (proc_of (c, tp)) @ received events)"
    and "list_all2 (decodes_to (tc_registry c) (tc_expected_id c)) (fst (deframe (pending (proc_of (c, tp)) @ received events))) ps"
    and "final = Received [] \<or> final = SocketError"
  shows "\<exists>c' tp'. socket_loop stopping k (events @ final # later) (c, tp) = (Inr (), (c', tp')) \<and>
    tc_frames c' = tc_frames c @ map Some (delivered ps)"
  using assms(2-7)
proof (induction events arbitrary: k c tp ps)
  case Nil
  have "ps = []" using deframe_wait [OF Nil(4,3)] Nil(6) by simp
  moreover have "\<not> stopping k" using assms(1) by blast
  then have "socket_loop stopping k (final # later) (c, tp) = (Inr (), (c, tp))"
    using assms(8) by (subst socket_loop.simps) auto
  ultimately show ?case by simp
next
  case (Cons e events)
  have go: "\<not> stopping k" using assms(1) by blast
  show ?case
  proof (cases e)
    case TimedOut
    then have "socket_loop stopping k ((e # events) @ final # later) (c, tp) = socket_loop stopping (Suc k) (events @ final # later) (c, tp)"
      using go by (subst socket_loop.simps) simp
    then show ?thesis using Cons.IH [of c tp ps "Suc k"] Cons.prems TimedOut by simp
  next
    case (Received data)
    let ?pend = "pending (proc_of (c, tp))"
    have so: "sizes_ok mtu (?pend @ data)" "sizes_ok mtu (snd (deframe (?pend @ data)) @ received events)"
      using sizes_ok_append [of mtu "?pend @ data" "received events"] Cons.prems(5) Received by simp_all
    obtain p tp1 where run: "client_process data (c, tp) = (Inr (fst (deframe (?pend @ data))), (c\<lparr>tc_processor := p\<rparr>, tp1))"
        "proc_ok mtu (p, tp1)" "settled (p, tp1)" "pending (p, tp1) = snd (deframe (?pend @ data))"
      using client_process_run [OF Cons.prems(3,4) so(1)] Cons.prems(2) by auto
    have "fst (deframe (?pend @ received (e # events))) = fst (deframe (?pend @ data)) @ fst (deframe (pending (p, tp1) @ received events))"
      using deframe_append [of "?pend @ data" "received events"] run(4) Received by simp
    then obtain ps1 ps2 where ps: "ps = ps1 @ ps2"
        "list_all2 (decodes_to (tc_registry c) (tc_expected_id c)) (fst (deframe (?pend @ data))) ps1"
        "list_all2 (decodes_to (tc_registry c) (tc_expected_id c)) (fst (deframe (pending (p, tp1) @ received events))) ps2"
      using Cons.prems(6) by (auto simp: list_all2_append1)
    let ?c1 = "c\<lparr>tc_processor := p\<rparr>"
    let ?c2 = "?c1\<lparr>tc_frames := tc_frames c @ map Some (delivered ps1)\<rparr>"
    have "\<exists>n. handle_frames (fst (deframe (?pend @ data))) ?c1 = (Inr n, ?c2)"
      using handle_frames_run [of ?c1 _ ps1] ps(2) by simp
    then have step: "socket_loop stopping k ((e # events) @ final # later) (c, tp) = socket_loop stopping (Suc k) (events @ final # later) (?c2, tp1)"
      using go run(1) Received Cons.prems(1) by (subst socket_loop.simps) (auto simp: zoom_def)
    have "\<exists>c' tp'. socket_loop stopping (Suc k) (events @ final # later) (?c2, tp1) = (Inr (), (c', tp')) \<and>
        tc_frames c' = tc_frames ?c2 @ map Some (delivered ps2)"
      using Cons.prems(1,2) run(2-4) so(2) ps(3) by (intro Cons.IH) (simp_all add: proc_of_def)
    then show ?thesis using step ps(1) by auto
  qed (use Cons.prems(1) in simp)
qed

section \<open>Properties\<close>


text \<open>An empty data frame of application 7, as bytes and as a finished frame.\<close>

definition sample_bytes :: "byte list" where
  "sample_bytes = frame_image False 7 (frame_type_value DATA) 0 0 []"

definition recorded_frame :: frame where
  "recorded_frame = sample_frame\<lparr>fr_used := int (length sample_bytes), fr_buffer := new_buffer sample_bytes True (int (length sample_bytes)) ''!''\<rparr>"

lemma sample_bytes_decode: "\<exists>p. decodes_to (new_channel_registry []) None sample_bytes (Some p)"
proof -
  have "reg_rel (new_channel_registry []) []" using new_channel_registry_rel [of "[]"] by simp
  then have "body_reads DATA 0 (new_channel_registry []) [] (DataBody [])"
    using data_body_reads [of _ "[]" "[]" "[]"] by (simp add: data_elements_def id_bytes_def)
  then show ?thesis
    unfolding decodes_to_def sample_bytes_def
    using decode_image [of 7 DATA 0 0 None _ "[]" _ sample_bytes False] by (auto simp: header_ok_def expected_ok_def sample_bytes_def)
qed

lemma sample_bytes_length: "length sample_bytes = 15"
  by (simp add: sample_bytes_def frame_image_def frame_header_def)


text \<open>
  A file client that was given a maximum number of frames never puts more than that many
  frames into its queue, whatever the file holds, whenever it is asked to stop, and also when it
  ends with an exception.
\<close>

theorem file_client_limit:
  assumes "0 \<le> m"
  shows "int (exported (snd (file_run stopping file (new_file_client index (Some m) reg eid env mtu)))) \<le> m"
proof -
  let ?c = "new_file_client index (Some m) reg eid env mtu"
  have c: "counted m ?c" "int (exported ?c) \<le> m"
    using assms by (simp_all add: counted_def exported_def new_file_client_def new_client_def telemetry_client.defs)
  obtain tp where tp: "new_default ''count'' False = Inr tp" using count_prim by blast
  have "int (exported (fst (snd (file_loop stopping 0 chunk bs (?c, tp))))) \<le> m" for chunk bs
    by (rule file_loop_counted [OF c(1)])
  then show ?thesis
    using c(2) tp by (auto simp: file_run_def exported_def split: option.split prod.splits sum.splits) (metis fst_conv snd_conv)+
qed

theorem file_client_limit_witness:
  "int (exported (snd (file_run (\<lambda>_. False) (Some (size_framed sample_bytes)) (new_file_client 0 (Some 0) (new_channel_registry []) None True 100)))) \<le> 0"
  by (rule file_client_limit) simp

text \<open>
  A client that reads frames from a socket, in pieces of any size and with any number of
  timeouts between them, has put exactly what the frames decode to into its queue when the stream
  ends or the socket fails.
\<close>

lemma socket_frames_received:
  assumes "\<forall>k. \<not> stopping k" and "\<forall>e \<in> set events. e \<noteq> SocketError \<and> e \<noteq> Received []"
    and "received events = concat (map size_framed bss)"
    and "0 \<le> mtu" and "\<forall>bs \<in> set bss. length bs < 2 ^ 32 \<and> int (length bs) \<le> mtu"
    and "list_all2 (decodes_to reg eid) bss ps" and "final = Received [] \<or> final = SocketError"
  shows "\<exists>c. socket_run stopping True (events @ final # later) (new_client reg eid mtu) = (Inr (), c) \<and>
    tc_frames c = map Some (delivered ps)"
proof -
  let ?c = "new_client reg eid mtu"
  obtain tp where tp: "new_default ''count'' False = Inr tp" "tp_type tp = UINT32" using count_prim by blast
  have c: "tc_mtu ?c = mtu" "tc_registry ?c = reg" "tc_expected_id ?c = eid" "tc_frames ?c = []"
      "proc_of (?c, tp) = (new_processor, tp)"
    by (simp_all add: new_client_def proc_of_def)
  have new: "proc_ok mtu (proc_of (?c, tp))" "settled (proc_of (?c, tp))" "pending (proc_of (?c, tp)) = []"
    using new_processor_ok [OF assms(4) tp(2)] c(5) by simp_all
  have so: "sizes_ok mtu (pending (proc_of (?c, tp)) @ received events)"
    using sizes_ok_all [OF assms(5), of "[]"] new(3) assms(3) by (simp add: sizes_ok.simps [of mtu "[]"])
  have "deframe (received events) = (bss, [])"
    using deframe_all [of bss "[]"] assms(3,5) by (simp add: deframe.simps [of "[]"])
  then have dec: "list_all2 (decodes_to (tc_registry ?c) (tc_expected_id ?c)) (fst (deframe (pending (proc_of (?c, tp)) @ received events))) ps"
    using assms(6) c(2,3) new(3) by simp
  from socket_loop_run [OF assms(1,2) c(1) new(1,2) so dec assms(7), of 0 later] tp(1) c(4) show ?thesis
    by (auto simp: socket_run_def)
qed

end
