(* ===== verification/Udp_Clients.thy ===== *)
theory Udp_Clients
  imports Commanders Telemetry_Client
begin

text \<open>
  Outgoing UDP streams: the manager of the clients (\<open>vtelem/classes/udp_client_manager.py\<close>), the discovery
  of the path's transmission unit (\<open>vtelem/mtu.py\<close>) and the commands for clients
  (\<open>vtelem/factories/udp_client_manager.py\<close>). The sockets of the operating system are a parameter: how a
  connection is made and bound, what sending a datagram does to a socket, the file made from a
  socket, and whether closing that file works. The random numbers of the probes are arguments.
\<close>

section \<open>Transmission units\<close>

definition mtu_to_usable :: "int \<Rightarrow> int \<Rightarrow> int" where
  "mtu_to_usable mtu medium_overhead = mtu - (medium_overhead + FRAME_OVERHEAD)"

definition DEFAULT_MTU :: int where
  "DEFAULT_MTU = mtu_to_usable 1500 (60 + 8)"

type_synonym host = "pyval \<times> pyval"

record udp_socket =
  us_name :: "string \<times> int"
  us_discover :: int
  us_mtu :: int
  us_reuse :: bool

datatype connect_error = UnknownName | Failed py_error

datatype close_result = Closed | Refused | CloseFails

record 's sockets =
  os_connect :: "host \<Rightarrow> connect_error + udp_socket"
  os_bind :: "host \<Rightarrow> py_error + udp_socket"
  os_send :: "byte list \<Rightarrow> udp_socket \<Rightarrow> bool \<times> udp_socket"
  os_makefile :: "udp_socket \<Rightarrow> 's"
  os_close :: "'s \<Rightarrow> close_result"

definition connect_or_local :: "'s sockets \<Rightarrow> host \<Rightarrow> py_error + udp_socket" where
  "connect_or_local os h =
     (case os_connect os h of
        Inr sock \<Rightarrow> Inr sock
      | Inl (Failed err) \<Rightarrow> Inl err
      | Inl UnknownName \<Rightarrow>
          (case os_connect os (VStr ''localhost'', snd h) of
             Inr sock \<Rightarrow> Inr sock
           | Inl (Failed err) \<Rightarrow> Inl err
           | Inl UnknownName \<Rightarrow> Inl OSError))"

definition create_udp_socket :: "'s sockets \<Rightarrow> host \<Rightarrow> bool \<Rightarrow> bool \<Rightarrow> py_error + udp_socket" where
  "create_udp_socket os h is_client reuse =
     (case (if is_client then connect_or_local os h else os_bind os h) of
        Inl err \<Rightarrow> Inl err
      | Inr sock \<Rightarrow> Inr (if reuse then sock\<lparr>us_reuse := True\<rparr> else sock))"

definition IP_PMTUDISC_DO :: int where
  "IP_PMTUDISC_DO = 2"

text \<open>The datagram that is sent to find the transmission unit.\<close>

definition mtu_probe :: "int \<Rightarrow> pyfloat option \<Rightarrow> int \<Rightarrow> py_error + byte list" where
  "mtu_probe probe_size app_id_basis rnd =
     (case build_channel_dummy_frame probe_size app_id_basis False rnd of
        Inl err \<Rightarrow> Inl err
      | Inr f \<Rightarrow>
          (case new_default ''count'' False of
             Inl err \<Rightarrow> Inl err
           | Inr size_prim \<Rightarrow>
               (case with_size_header f size_prim of
                  (Inl err, _) \<Rightarrow> Inl err
                | (Inr (bytes, _), _) \<Rightarrow> Inr bytes)))"

definition discover_mtu :: "'s sockets \<Rightarrow> int \<Rightarrow> pyfloat option \<Rightarrow> int \<Rightarrow> (udp_socket, int) py" where
  "discover_mtu os probe_size app_id_basis rnd =
     bindp (gets us_discover) (\<lambda>orig_val.
     bindp (modify (\<lambda>s. s\<lparr>us_discover := IP_PMTUDISC_DO\<rparr>)) (\<lambda>_.
     bindp (lift_res (mtu_probe probe_size app_id_basis rnd)) (\<lambda>bytes.
     bindp (modify (\<lambda>s. snd (os_send os bytes s))) (\<lambda>_.
     bindp (modify (\<lambda>s. s\<lparr>us_discover := orig_val\<rparr>)) (\<lambda>_. gets us_mtu)))))"

definition discover_ipv4_mtu :: "'s sockets \<Rightarrow> host \<Rightarrow> int \<Rightarrow> int \<Rightarrow> py_error + int" where
  "discover_ipv4_mtu os h probe_size rnd =
     (case create_udp_socket os h True True of
        Inl err \<Rightarrow> Inl err
      | Inr sock \<Rightarrow> fst (discover_mtu os probe_size None rnd sock))"

section \<open>The client manager\<close>

text \<open>
  Sockets and their files are objects with references; a client is the reference of both. The
  sockets that were closed are listed in order.
\<close>

record ('s, 'c) udp_manager =
  um_writer :: "('s, 'c) writer"
  um_lock :: int
  um_clients :: "(int, nat) dict"
  um_sockets :: "nat \<Rightarrow> udp_socket"
  um_next :: nat
  um_closed :: "nat list"

abbreviation in_writer :: "(('s, 'c) writer, 'a) py \<Rightarrow> (('s, 'c) udp_manager, 'a) py" where
  "in_writer m \<equiv> zoom um_writer (\<lambda>w u. u\<lparr>um_writer := w\<rparr>) m"

definition um_with_lock :: "(('s, 'c) udp_manager, 'a) py \<Rightarrow> (('s, 'c) udp_manager, 'a) py" where
  "um_with_lock body =
     bindp (modify (\<lambda>u. u\<lparr>um_lock := um_lock u + 1\<rparr>)) (\<lambda>_.
     bindp body (\<lambda>r.
     bindp (modify (\<lambda>u. u\<lparr>um_lock := um_lock u - 1\<rparr>)) (\<lambda>_. ret r)))"

text \<open>The manager's \<open>closer\<close> becomes the error handler of the writer, which must not have one.\<close>

definition new_udp_manager :: "('s, 'c) writer \<Rightarrow> nat \<Rightarrow> (nat \<Rightarrow> udp_socket) \<Rightarrow> py_error + ('s, 'c) udp_manager" where
  "new_udp_manager w n socks =
     (if w_error_handle w then Inl AssertionError
      else Inr \<lparr>um_writer = w\<lparr>w_error_handle := True\<rparr>, um_lock = 0, um_clients = [], um_sockets = socks, um_next = n, um_closed = []\<rparr>)"

definition close_client :: "'s sockets \<Rightarrow> nat \<Rightarrow> (('s, 'c) udp_manager, unit) py" where
  "close_client os r =
     bindp (gets (\<lambda>u. os_close os (w_files (um_writer u) r))) (\<lambda>result.
     bindp (modify (\<lambda>u. u\<lparr>um_closed := um_closed u @ [r]\<rparr>)) (\<lambda>_.
     case result of CloseFails \<Rightarrow> raise OSError | _ \<Rightarrow> ret ()))"

definition um_closer :: "'s sockets \<Rightarrow> int \<Rightarrow> (('s, 'c) udp_manager, unit) py" where
  "um_closer os stream_id =
     bindp (um_with_lock (
       bindp (gets (\<lambda>u. dict_item (um_clients u) stream_id)) (\<lambda>c.
       bindp (lift_res c) (\<lambda>r.
       bindp (modify (\<lambda>u. u\<lparr>um_clients := dict_del stream_id (um_clients u)\<rparr>)) (\<lambda>_. ret r))))) (\<lambda>r.
     close_client os r)"

definition client_name :: "int \<Rightarrow> (('s, 'c) udp_manager, string \<times> int) py" where
  "client_name sock_id = bindp (gets (\<lambda>u. dict_get (um_clients u) sock_id)) (\<lambda>c.
     case c of None \<Rightarrow> raise AssertionError | Some r \<Rightarrow> gets (\<lambda>u. us_name (um_sockets u r)))"

text \<open>A new socket with its file, under the next reference, and the unit discovered for it.\<close>

definition open_client :: "'s sockets \<Rightarrow> host \<Rightarrow> int \<Rightarrow> (('s, 'c) udp_manager, nat \<times> int) py" where
  "open_client os h rnd =
     bindp (lift_res (create_udp_socket os h True True)) (\<lambda>sock.
     case discover_mtu os DEFAULT_MTU None rnd sock of
       (Inl err, _) \<Rightarrow> raise err
     | (Inr mtu, sock') \<Rightarrow>
         bindp (gets um_next) (\<lambda>r.
         bindp (modify (\<lambda>u. u\<lparr>um_next := r + 1, um_sockets := (um_sockets u)(r := sock'),
           um_writer := (um_writer u)\<lparr>w_files := (w_files (um_writer u))(r := os_makefile os sock')\<rparr>\<rparr>)) (\<lambda>_.
         ret (r, mtu - (60 + 8)))))"

definition um_add_client :: "'s sockets \<Rightarrow> host \<Rightarrow> bool \<Rightarrow> int \<Rightarrow> (('s, 'c) udp_manager, int \<times> int) py" where
  "um_add_client os h flush rnd =
     bindp (open_client os h rnd) (\<lambda>(r, mtu).
     bindp (um_with_lock (
       bindp (in_writer (add_stream r None flush)) (\<lambda>sock_id.
       bindp (modify (\<lambda>u. u\<lparr>um_clients := dict_set sock_id r (um_clients u)\<rparr>)) (\<lambda>_. ret sock_id)))) (\<lambda>sock_id.
     ret (sock_id, mtu)))"

definition um_add_clients :: "'s sockets \<Rightarrow> host list \<Rightarrow> (nat \<Rightarrow> int) \<Rightarrow> (('s, 'c) udp_manager, (host, int \<times> int) dict) py" where
  "um_add_clients os hosts rnd =
     bindp (map_each (\<lambda>(i, h). um_add_client os h False (rnd i)) (List.enumerate 0 hosts)) (\<lambda>rs.
     ret (foldl (\<lambda>d (h, r). dict_set h r d) [] (zip hosts rs)))"

definition um_remove_client :: "'s sockets \<Rightarrow> int \<Rightarrow> (('s, 'c) udp_manager, unit) py" where
  "um_remove_client os sock_id =
     um_with_lock (bindp (in_writer (remove_stream sock_id True)) (\<lambda>removed.
       if removed then um_closer os sock_id else ret ()))"

definition um_remove_all :: "'s sockets \<Rightarrow> (('s, 'c) udp_manager, unit) py" where
  "um_remove_all os = um_with_lock (bindp (gets (\<lambda>u. dict_keys (um_clients u))) (for_each (um_remove_client os)))"

section \<open>The writer with its error handler\<close>

text \<open>
  \<open>frame_handle\<close> of the writer in three parts: it writes the frame and finds the broken streams, drops
  them, and fills the queues. The manager's handler is called in the middle one.
\<close>

definition write_frame :: "('s \<Rightarrow> byte list \<Rightarrow> int option \<times> 's) \<Rightarrow> ('s \<Rightarrow> bool \<times> 's) \<Rightarrow> frame \<Rightarrow>
    (('s, 'c) writer, nat list \<times> (int \<times> nat) list) py" where
  "write_frame wr fls f =
     bindp (zoom w_frame_size (\<lambda>p w. w\<lparr>w_frame_size := p\<rparr>) (with_size_header f)) (\<lambda>(bytes, n).
     bindp (w_with_lock (gets (\<lambda>w. (map snd (w_queues w), w_streams w)))) (\<lambda>(queues, streams).
     bindp (map_each (write_stream wr fls bytes n) streams) (\<lambda>failed.
     ret (queues, map fst (filter snd (zip streams failed))))))"

definition frame_queue :: "frame \<Rightarrow> nat list \<Rightarrow> (('s, 'c) writer, unit) py" where
  "frame_queue f queues =
     bindp (for_each (put_frame (Some f)) queues) (\<lambda>_.
     in_daemon (increment_metric ''queue_writes'' (VInt (int (length queues)))))"

lemma frame_handle_parts:
  "frame_handle wr fls (Some f) = bindp (write_frame wr fls f) (\<lambda>(queues, broken).
     bindp (for_each drop_stream broken) (\<lambda>_. frame_queue f queues))"
  by (rule ext) (simp add: frame_handle_def write_frame_def frame_queue_def bindp_def split: prod.split sum.split)

definition um_drop_stream :: "'s sockets \<Rightarrow> int \<times> nat \<Rightarrow> (('s, 'c) udp_manager, unit) py" where
  "um_drop_stream os = (\<lambda>(stream_id, r).
     bindp (um_closer os stream_id) (\<lambda>_.
     bindp (in_writer (remove_stream stream_id True)) assertp))"

definition um_frame_handle :: "'s sockets \<Rightarrow> ('s \<Rightarrow> byte list \<Rightarrow> int option \<times> 's) \<Rightarrow> ('s \<Rightarrow> bool \<times> 's) \<Rightarrow> frame \<Rightarrow>
    (('s, 'c) udp_manager, unit) py" where
  "um_frame_handle os wr fls f =
     bindp (in_writer (write_frame wr fls f)) (\<lambda>(queues, broken).
     bindp (for_each (um_drop_stream os) broken) (\<lambda>_. in_writer (frame_queue f queues)))"

section \<open>Commands\<close>

text \<open>\<open>data["id"] in manager.clients\<close>, with the identifier found.\<close>

definition find_client :: "pyval \<Rightarrow> ('s, 'c) udp_manager \<Rightarrow> py_error + int option" where
  "find_client v u =
     (if hashable v then Inr (find (\<lambda>i. key_eq (VInt i) v) (dict_keys (um_clients u))) else Inl TypeError)"

definition name_text :: "string \<times> int \<Rightarrow> string" where
  "name_text = (\<lambda>(address, port). address @ '':'' @ int_str port)"

definition cmd_add_client :: "(pyfloat \<Rightarrow> string) \<Rightarrow> 's sockets \<Rightarrow> int \<Rightarrow> cmd_data \<Rightarrow> (('s, 'c) udp_manager, bool \<times> string) py" where
  "cmd_add_client fr os rnd data =
     (if dict_get data ''host'' = None \<and> dict_get data ''port'' = None
      then ret (False, ''must provide '' @ quoted ''host'' @ '' and '' @ quoted ''port'')
      else
        bindp (lift_res (dict_item data ''host'')) (\<lambda>address.
        bindp (lift_res (dict_item data ''port'')) (\<lambda>port.
        bindp (um_add_client os (address, port) False rnd) (\<lambda>(sock_id, mtu).
        bindp (client_name sock_id) (\<lambda>nm.
        ret (True, ''client '' @ quoted (int_str sock_id) @ '' ('' @ name_text nm @ '') added with mtu '' @ quoted (int_str mtu)))))))"

definition cmd_remove_client :: "(pyfloat \<Rightarrow> string) \<Rightarrow> 's sockets \<Rightarrow> cmd_data \<Rightarrow> (('s, 'c) udp_manager, bool \<times> string) py" where
  "cmd_remove_client fr os data =
     um_with_lock (
       case dict_get data ''id'' of
         None \<Rightarrow> ret (False, ''client identifier not provided'')
       | Some v \<Rightarrow>
           bindp (gets (find_client v)) (\<lambda>found. bindp (lift_res found) (\<lambda>sock_id.
           case sock_id of
             None \<Rightarrow> ret (False, ''unknown client identifier '' @ quoted (py_str fr v))
           | Some i \<Rightarrow> bindp (um_remove_client os i) (\<lambda>_. ret (True, ''client '' @ quoted (py_str fr v) @ '' removed'')))))"

definition client_entries :: "(pyfloat \<Rightarrow> string) \<Rightarrow> (pyval \<times> int) list \<Rightarrow> (('s, 'c) udp_manager, (string \<times> pyval) list) py" where
  "client_entries fr = map_each (\<lambda>(shown, i). bindp (client_name i) (\<lambda>nm. ret (json_key fr shown, VStr (name_text nm))))"

definition cmd_list_client :: "(pyfloat \<Rightarrow> string) \<Rightarrow> cmd_data \<Rightarrow> (('s, 'c) udp_manager, bool \<times> string) py" where
  "cmd_list_client fr data =
     um_with_lock (
       bindp (gets (\<lambda>u. map (\<lambda>i. (VInt i, i)) (dict_keys (um_clients u)))) (\<lambda>all_ids.
       bindp (case dict_get data ''id'' of
                None \<Rightarrow> ret (Inr all_ids)
              | Some v \<Rightarrow> bindp (gets (find_client v)) (\<lambda>found. bindp (lift_res found) (\<lambda>sock_id.
                  ret (case sock_id of None \<Rightarrow> Inl (False, ''unknown client identifier '' @ quoted (py_str fr v))
                                     | Some i \<Rightarrow> Inr [(v, i)])))) (\<lambda>r.
       case r of
         Inl refusal \<Rightarrow> ret refusal
       | Inr ids \<Rightarrow> bindp (client_entries fr ids) (\<lambda>entries. ret (True, dumps fr None (VDict entries))))))"

definition udp_commander :: "(pyfloat \<Rightarrow> string) \<Rightarrow> 's sockets \<Rightarrow> int \<Rightarrow> cmd_data \<Rightarrow> (('s, 'c) udp_manager, bool \<times> string) py" where
  "udp_commander fr os rnd cmd =
     (case dict_get cmd ''operation'' of
        None \<Rightarrow> ret (False, ''no '' @ quoted ''operation'' @ '' specified'')
      | Some v \<Rightarrow>
          if \<not> hashable v then raise TypeError
          else if v = VStr ''add'' then cmd_add_client fr os rnd cmd
          else if v = VStr ''remove'' then cmd_remove_client fr os cmd
          else if v = VStr ''list'' then cmd_list_client fr cmd
          else ret (False, quoted (py_str fr v) @ '' not supported''))"

definition udp_help :: string where
  "udp_help = py_join '', '' (map quoted [''add'', ''remove'', ''list'']) @ '' udp clients''"

definition create_udp_client_commander :: "'h \<Rightarrow> 'c option \<Rightarrow> string \<Rightarrow> (('h, 'c, 'w) command_daemon, unit) py" where
  "create_udp_client_commander h result_cb command_name =
     register_consumer command_name (Consumer h, result_cb, udp_help)"

section \<open>What writing a frame leaves alone\<close>

text \<open>Writing and queueing a frame keeps the registered streams and queues, also when it ends with an exception.\<close>

definition keeps_streams :: "('s, 'c) writer \<Rightarrow> ('s, 'c) writer \<Rightarrow> bool" where
  "keeps_streams w w' \<longleftrightarrow> (quiet (w_daemon w) \<longrightarrow> quiet (w_daemon w')) \<and> w_streams w' = w_streams w \<and>
     w_stream_closers w' = w_stream_closers w \<and> w_curr_id w' = w_curr_id w \<and> w_queues w' = w_queues w \<and> w_queue_id w' = w_queue_id w"

definition keeping :: "(('s, 'c) writer, 'a) py \<Rightarrow> bool" where
  "keeping m \<longleftrightarrow> (\<forall>w. keeps_streams w (snd (m w)))"

lemma keeping_bind:
  assumes "keeping m" and "\<And>a. keeping (k a)"
  shows "keeping (bindp m k)"
  unfolding keeping_def
proof
  fix w
  have m: "keeps_streams w (snd (m w))" using assms(1) by (simp add: keeping_def)
  show "keeps_streams w (snd (bindp m k w))"
  proof (cases "m w")
    case (Pair r w1)
    have "keeps_streams w1 (snd (k a w1))" for a using assms(2) by (simp add: keeping_def)
    then show ?thesis using m Pair unfolding keeps_streams_def by (cases r) (auto simp: bindp_def)
  qed
qed

lemma keeping_basic [simp]: "keeping (ret a)" "keeping (raise e)" "keeping (gets g)" "keeping (lift_res x)" "keeping (assertp b)"
  by (auto simp: keeping_def keeps_streams_def lift_res_def assertp_def split: sum.split)

lemma keeping_map_each: "(\<And>x. keeping (m x)) \<Longrightarrow> keeping (map_each m xs)"
  by (induction xs) (auto intro!: keeping_bind)

lemma keeping_for_each: "(\<And>x. keeping (m x)) \<Longrightarrow> keeping (for_each m xs)"
  by (induction xs) (auto intro!: keeping_bind)

lemma keeping_increment: "keeping (in_daemon (increment_metric n (VInt k)))"
  unfolding keeping_def
proof
  fix w :: "('s, 'c) writer"
  have "quiet (snd (increment_metric n (VInt k) d))" if "quiet d" for d
    by (rule quiet_increment_run [OF that, of n k]) simp
  then show "keeps_streams w (snd (in_daemon (increment_metric n (VInt k)) w))"
    by (simp add: keeps_streams_def zoom_def split: prod.split) (metis snd_conv)
qed

lemma keeping_locked: "keeping (w_with_lock (gets g))"
  by (simp add: keeping_def keeps_streams_def w_with_lock_def)

lemma keeping_write: "keeping (write_stream wr fls bytes n x)"
proof -
  have "keeping (modify (\<lambda>w. w\<lparr>w_files := h (w_files w)\<rparr>))" for h :: "(nat \<Rightarrow> 's) \<Rightarrow> nat \<Rightarrow> 's"
    by (simp add: keeping_def keeps_streams_def)
  moreover have "keeping (stream_flush i)" for i :: int
    by (auto simp: keeping_def keeps_streams_def stream_flush_def split: option.split)
  ultimately show ?thesis
    unfolding write_stream_def by (auto intro!: keeping_bind keeping_increment split: prod.split option.split)
qed

lemma keeping_write_frame: "keeping (write_frame wr fls f)"
proof -
  have "keeping (zoom w_frame_size (\<lambda>p w. w\<lparr>w_frame_size := p\<rparr>) m)" for m :: "(type_primitive, 'x) py"
    by (auto simp: keeping_def keeps_streams_def zoom_def split: prod.split)
  then show ?thesis
    unfolding write_frame_def by (auto intro!: keeping_bind keeping_locked keeping_map_each keeping_write split: prod.split)
qed

lemma keeping_put: "keeping (put_frame (Some f) r)"
  unfolding keeping_def
proof
  fix w
  have meter: "quiet d \<Longrightarrow> meter_put q d = (Inr (), d)" for d and q :: "frame option queue_obj"
    by (simp add: meter_put_def quiet_on_env split: option.split)
  have "quiet d'" if "quiet d" and "qput (Some f) (d, q) = (x, d', q')" for d q x d' q'
    using that meter [OF that(1)] by (auto simp: qput_def zoom_def bindp_def split: if_splits)
  then show "keeps_streams w (snd (put_frame (Some f) r w))"
    by (auto simp: keeps_streams_def put_frame_def zoom_def split: prod.split)
qed

lemma keeping_frame_queue: "keeping (frame_queue f queues)"
  unfolding frame_queue_def by (auto intro!: keeping_bind keeping_for_each keeping_increment keeping_put)

text \<open>The streams that \<open>write_frame\<close> finds broken are registered ones, each named once.\<close>

lemma filter_zip_subset: "set (map fst (filter snd (zip xs bs))) \<subseteq> set xs"
  by (auto dest: set_zip_leftD)

lemma filter_zip_distinct: "distinct (map g xs) \<Longrightarrow> distinct (map g (map fst (filter snd (zip xs bs))))"
proof (induction xs arbitrary: bs)
  case (Cons x xs)
  show ?case
  proof (cases bs)
    case bs: (Cons b bs')
    have "g x \<notin> set (map g (map fst (filter snd (zip xs bs'))))" using Cons.prems filter_zip_subset [of xs bs'] by auto
    with bs Cons show ?thesis by simp
  qed simp
qed simp

lemma write_frame_broken:
  assumes "write_frame wr fls f w = (Inr (queues, broken), w')" and "distinct (dict_keys (w_streams w))"
  shows "set broken \<subseteq> set (w_streams w) \<and> distinct (map fst broken)"
proof -
  obtain failed where "broken = map fst (filter snd (zip (w_streams w) failed))"
    using assms(1) unfolding write_frame_def
    by (auto elim!: bindp_InrE simp: w_with_lock_def zoom_def split: prod.splits)
  then show ?thesis
    using filter_zip_subset [of "w_streams w" failed] filter_zip_distinct [of fst "w_streams w" failed] assms(2) by simp
qed

section \<open>Clients and streams\<close>

text \<open>
  The clients of a manager are the streams of its writer, with the same references. Every socket
  that was opened, from reference \<open>base\<close> on, either belongs to a client or was closed, once.
\<close>

definition accounted :: "nat \<Rightarrow> (int, nat) dict \<Rightarrow> nat list \<Rightarrow> nat \<Rightarrow> bool" where
  "accounted base clients gone n \<longleftrightarrow> distinct (map snd clients @ gone) \<and> set (map snd clients @ gone) = {base..<n} \<and> base \<le> n"

definition um_good :: "nat \<Rightarrow> ('s, 'c) udp_manager \<Rightarrow> bool" where
  "um_good base u \<longleftrightarrow> quiet (w_daemon (um_writer u)) \<and> writer_inv (um_writer u) \<and> um_clients u = w_streams (um_writer u) \<and>
     accounted base (um_clients u) (um_closed u) (um_next u)"

lemma del_values:
  assumes "distinct (dict_keys d)" and "distinct (map snd d)" and "dict_get d i = Some r"
  shows "distinct (map snd (dict_del i d))" and "set (map snd (dict_del i d)) = set (map snd d) - {r}"
proof -
  show "distinct (map snd (dict_del i d))" unfolding dict_del_filter by (rule distinct_map_filter [OF assms(2)])
  have inj: "inj_on snd (set d)" using assms(2) by (simp add: distinct_map)
  have "x = i" if "(x, r) \<in> set d" for x
    using inj_onD [OF inj, of "(x, r)" "(i, r)"] that map_of_SomeD [OF assms(3)] by simp
  moreover have "y = r" if "(i, y) \<in> set d" for y using that assms(1,3) by (simp add: map_of_is_SomeI)
  ultimately have iff: "(x, y) \<in> set d \<Longrightarrow> x = i \<longleftrightarrow> y = r" for x y by blast
  show "set (map snd (dict_del i d)) = set (map snd d) - {r}"
  proof (intro equalityI subsetI)
    fix y assume "y \<in> set (map snd (dict_del i d))"
    then obtain x where "(x, y) \<in> set d" "x \<noteq> i" by (auto simp: dict_del_filter)
    then show "y \<in> set (map snd d) - {r}" using iff [of x y] by force
  next
    fix y assume "y \<in> set (map snd d) - {r}"
    then obtain x where "(x, y) \<in> set d" "x \<noteq> i" using iff by fastforce
    then show "y \<in> set (map snd (dict_del i d))" unfolding dict_del_filter by force
  qed
qed

lemma um_good_del:
  assumes "um_good base u" and "dict_get (um_clients u) i = Some r" and "quiet d"
  shows "um_good base (u\<lparr>um_writer := (um_writer u)\<lparr>w_daemon := d, w_streams := dict_del i (w_streams (um_writer u)),
      w_stream_closers := dict_del i (w_stream_closers (um_writer u)), w_calls := calls\<rparr>,
    um_clients := dict_del i (um_clients u), um_closed := um_closed u @ [r]\<rparr>)"
proof -
  let ?w = "(um_writer u)\<lparr>w_daemon := d, w_streams := dict_del i (w_streams (um_writer u)),
      w_stream_closers := dict_del i (w_stream_closers (um_writer u)), w_calls := calls\<rparr>"
  have inv: "writer_inv ?w" using assms(1) writer_inv_remove(1) [where w = "um_writer u" and i = i and calls = calls and d = d]
    by (simp add: um_good_def writer_inv_def)
  have d: "distinct (dict_keys (um_clients u))" "distinct (map snd (um_clients u))"
    using assms(1) by (auto simp: um_good_def writer_inv_def accounted_def)
  have r: "r \<in> set (map snd (um_clients u))" using map_of_SomeD [OF assms(2)] by force
  note del = del_values [OF d assms(2)]
  have dc: "distinct (um_closed u)" "set (map snd (um_clients u)) \<inter> set (um_closed u) = {}"
      "set (map snd (um_clients u)) \<union> set (um_closed u) = {base..<um_next u}"
    using assms(1) unfolding um_good_def accounted_def distinct_append set_append by blast+
  have "distinct (map snd (dict_del i (um_clients u)) @ um_closed u @ [r])"
    unfolding distinct_append del(2) using del(1) dc(1,2) r by (simp only: list.set set_append distinct.simps) blast
  moreover have "set (map snd (dict_del i (um_clients u)) @ um_closed u @ [r]) = {base..<um_next u}"
    unfolding set_append del(2) using dc(3) r by (simp only: list.set) blast
  moreover have "base \<le> um_next u" using assms(1) by (simp add: um_good_def accounted_def)
  ultimately have "accounted base (dict_del i (um_clients u)) (um_closed u @ [r]) (um_next u)" by (simp add: accounted_def)
  then show ?thesis using assms(1,3) inv by (auto simp: um_good_def)
qed

lemma um_closer_run:
  assumes "dict_get (um_clients u) i = Some r" and "\<forall>s. os_close os s \<noteq> CloseFails"
  shows "um_closer os i u = (Inr (), u\<lparr>um_clients := dict_del i (um_clients u), um_closed := um_closed u @ [r]\<rparr>)"
proof -
  have "os_close os (w_files (um_writer u) r) \<noteq> CloseFails" using assms(2) by blast
  then show ?thesis
    using assms(1) by (cases "os_close os (w_files (um_writer u) r)")
      (simp_all add: um_closer_def close_client_def um_with_lock_def dict_item_def)
qed

lemma registered_closer:
  assumes "um_good base u" and "dict_get (um_clients u) i = Some r"
  obtains c where "i \<in> set (dict_keys (w_streams (um_writer u)))" and "dict_get (w_stream_closers (um_writer u)) i = Some c"
proof -
  have i: "i \<in> set (dict_keys (w_streams (um_writer u)))"
    using assms by (metis um_good_def dict_get_None_iff option.distinct(1))
  then have "i \<in> set (dict_keys (w_stream_closers (um_writer u)))" using assms(1) by (simp add: um_good_def writer_inv_def)
  then obtain c where "dict_get (w_stream_closers (um_writer u)) i = Some c" by (metis dict_get_None_iff not_None_eq)
  with i show thesis by (rule that)
qed

text \<open>Both ways in which a client goes: its stream breaks, or it is removed.\<close>

lemma client_gone:
  assumes "um_good base u" and "dict_get (um_clients u) i = Some r" and "\<forall>s. os_close os s \<noteq> CloseFails"
  shows "\<exists>u'. um_drop_stream os (i, q) u = (Inr (), u') \<and> um_good base u' \<and>
      um_clients u' = dict_del i (um_clients u) \<and> um_closed u' = um_closed u @ [r]"
    and "\<exists>u'. um_remove_client os i u = (Inr (), u') \<and> um_good base u' \<and>
      um_clients u' = dict_del i (um_clients u) \<and> um_closed u' = um_closed u @ [r]"
proof -
  obtain c where c: "i \<in> set (dict_keys (w_streams (um_writer u)))" "dict_get (w_stream_closers (um_writer u)) i = Some c"
    by (rule registered_closer [OF assms(1,2)])
  have q: "quiet (w_daemon (um_writer u))" using assms(1) by (simp add: um_good_def)
  obtain d calls where d: "remove_stream i True (um_writer u) = (Inr True, (um_writer u)\<lparr>w_daemon := d, w_streams := dict_del i (w_streams (um_writer u)),
      w_stream_closers := dict_del i (w_stream_closers (um_writer u)), w_calls := calls\<rparr>)" "quiet d"
    by (rule remove_stream_run [OF q c, of True]) blast
  let ?u = "u\<lparr>um_writer := (um_writer u)\<lparr>w_daemon := d, w_streams := dict_del i (w_streams (um_writer u)),
      w_stream_closers := dict_del i (w_stream_closers (um_writer u)), w_calls := calls\<rparr>,
    um_clients := dict_del i (um_clients u), um_closed := um_closed u @ [r]\<rparr>"
  have good: "um_good base ?u" by (rule um_good_del [OF assms(1,2) d(2)])
  have "um_drop_stream os (i, q) u = (Inr (), ?u)"
    using um_closer_run [OF assms(2,3)] d(1) by (simp add: um_drop_stream_def zoom_def)
  with good show "\<exists>u'. um_drop_stream os (i, q) u = (Inr (), u') \<and> um_good base u' \<and>
      um_clients u' = dict_del i (um_clients u) \<and> um_closed u' = um_closed u @ [r]" by auto
  let ?u1 = "u\<lparr>um_lock := um_lock u + 1, um_writer := um_writer ?u\<rparr>"
  have "um_closer os i ?u1 = (Inr (), ?u1\<lparr>um_clients := dict_del i (um_clients ?u1), um_closed := um_closed ?u1 @ [r]\<rparr>)"
    by (rule um_closer_run) (use assms(2,3) in simp_all)
  then have "um_remove_client os i u = (Inr (), ?u)"
    using d(1) by (simp add: um_remove_client_def um_with_lock_def zoom_def)
  with good show "\<exists>u'. um_remove_client os i u = (Inr (), u') \<and> um_good base u' \<and>
      um_clients u' = dict_del i (um_clients u) \<and> um_closed u' = um_closed u @ [r]" by auto
qed

text \<open>A program that removes one client, run for several.\<close>

lemma clients_gone:
  assumes step: "\<And>u x r. um_good base u \<Longrightarrow> dict_get (um_clients u) (key x) = Some r \<Longrightarrow>
      \<exists>u'. step x u = (Inr (), u') \<and> um_good base u' \<and> um_clients u' = dict_del (key x) (um_clients u)"
    and "um_good base u" and "distinct (map key xs)" and "\<forall>i \<in> set (map key xs). dict_get (um_clients u) i \<noteq> None"
  shows "\<exists>u'. for_each step xs u = (Inr (), u') \<and> um_good base u' \<and>
    um_clients u' = filter (\<lambda>c. fst c \<notin> set (map key xs)) (um_clients u)"
  using assms(2-)
proof (induction xs arbitrary: u)
  case (Cons x xs)
  obtain r where r: "dict_get (um_clients u) (key x) = Some r" using Cons.prems(3) by auto
  obtain u1 where u1: "step x u = (Inr (), u1)" "um_good base u1" "um_clients u1 = dict_del (key x) (um_clients u)"
    using step [OF Cons.prems(1) r] by blast
  have "\<forall>j \<in> set (map key xs). dict_get (um_clients u1) j \<noteq> None"
    using Cons.prems(2,3) unfolding u1(3) dict_get_del by (auto simp: image_iff)
  with Cons.IH [OF u1(2)] Cons.prems(2) obtain u2 where u2: "for_each step xs u1 = (Inr (), u2)" "um_good base u2"
      "um_clients u2 = filter (\<lambda>c. fst c \<notin> set (map key xs)) (um_clients u1)"
    by auto
  then have "um_clients u2 = filter (\<lambda>c. fst c \<notin> set (map key (x # xs))) (um_clients u)"
    unfolding u1(3) by (simp add: filter_del)
  with u1(1) u2 show ?case by auto
qed simp

lemma um_good_keep:
  assumes "um_good base u" and "keeping m" and "in_writer m u = (r, u')"
  shows "um_good base u'" and "um_clients u' = um_clients u"
proof -
  obtain w' where w': "m (um_writer u) = (r, w')" "u' = u\<lparr>um_writer := w'\<rparr>"
    using assms(3) by (auto simp: zoom_def split: prod.splits)
  have "keeps_streams (um_writer u) w'" using assms(2) w'(1) by (metis keeping_def snd_conv)
  with assms(1) w'(2) show "um_good base u'" unfolding um_good_def keeps_streams_def writer_inv_def by auto
  show "um_clients u' = um_clients u" using w'(2) by simp
qed

lemma um_frame_good:
  assumes "um_good base u" and "\<forall>s. os_close os s \<noteq> CloseFails"
  shows "um_good base (snd (um_frame_handle os wr fls f u))"
proof -
  obtain r u1 where u1: "in_writer (write_frame wr fls f) u = (r, u1)" by (cases "in_writer (write_frame wr fls f) u")
  have g1: "um_good base u1" "um_clients u1 = um_clients u" by (rule um_good_keep [OF assms(1) keeping_write_frame u1])+
  show ?thesis
  proof (cases r)
    case (Inl e)
    then show ?thesis using u1 g1 by (simp add: um_frame_handle_def bindp_def)
  next
    case (Inr qb)
    obtain queues broken where qb: "qb = (queues, broken)" by (cases qb)
    have "write_frame wr fls f (um_writer u) = (Inr (queues, broken), um_writer u1)"
      using u1 Inr qb by (auto simp: zoom_def split: prod.splits)
    moreover have ds: "distinct (dict_keys (w_streams (um_writer u)))" using assms(1) by (simp add: um_good_def writer_inv_def)
    ultimately have br: "set broken \<subseteq> set (w_streams (um_writer u))" "distinct (map fst broken)"
      using write_frame_broken by blast+
    then have "\<forall>i \<in> set (map fst broken). dict_get (um_clients u1) i \<noteq> None"
      using assms(1) g1(2) by (auto simp: um_good_def dict_get_None_iff)
    then obtain u2 where u2: "for_each (um_drop_stream os) broken u1 = (Inr (), u2)" "um_good base u2"
      using clients_gone [where key = fst, OF _ g1(1) br(2)] client_gone(1) [OF _ _ assms(2)] by (metis prod.collapse)
    obtain r3 u3 where u3: "in_writer (frame_queue f queues) u2 = (r3, u3)" by (cases "in_writer (frame_queue f queues) u2")
    have "um_good base u3" by (rule um_good_keep(1) [OF u2(2) keeping_frame_queue u3])
    then show ?thesis using u1 Inr qb u2(1) u3 by (simp add: um_frame_handle_def)
  qed
qed

lemma um_remove_all_good:
  assumes "um_good base u" and "\<forall>s. os_close os s \<noteq> CloseFails"
  shows "\<exists>u'. um_remove_all os u = (Inr (), u') \<and> um_good base u' \<and> um_clients u' = []"
proof -
  let ?u = "u\<lparr>um_lock := um_lock u + 1\<rparr>"
  have good: "um_good base ?u" using assms(1) by (auto simp: um_good_def)
  have ds: "distinct (map (\<lambda>i. i) (dict_keys (um_clients ?u)))" using assms(1) by (auto simp: um_good_def writer_inv_def)
  have known: "\<forall>i \<in> set (map (\<lambda>i. i) (dict_keys (um_clients ?u))). dict_get (um_clients ?u) i \<noteq> None" by (auto simp: dict_get_None_iff)
  have "\<exists>u'. for_each (um_remove_client os) (dict_keys (um_clients ?u)) ?u = (Inr (), u') \<and> um_good base u' \<and>
      um_clients u' = filter (\<lambda>c. fst c \<notin> set (map (\<lambda>i. i) (dict_keys (um_clients ?u)))) (um_clients ?u)"
    by (rule clients_gone [OF _ good ds known]) (use client_gone(2) [OF _ _ assms(2)] in blast)
  then obtain u' where u': "for_each (um_remove_client os) (dict_keys (um_clients u)) ?u = (Inr (), u')" "um_good base u'" "um_clients u' = []"
    by (auto simp: filter_empty_conv)
  then have "um_remove_all os u = (Inr (), u'\<lparr>um_lock := um_lock u' - 1\<rparr>)" by (simp add: um_remove_all_def um_with_lock_def)
  moreover have "um_good base (u'\<lparr>um_lock := um_lock u' - 1\<rparr>)" using u'(2) by (auto simp: um_good_def)
  ultimately show ?thesis using u'(3) by auto
qed

lemma accounted_next:
  assumes "accounted base cs gone n"
  shows "accounted base (cs @ [(i, n)]) gone (n + 1)"
proof -
  have "n \<notin> set (map snd cs @ gone)" using assms unfolding accounted_def by simp
  with assms show ?thesis by (auto simp: accounted_def)
qed

lemma um_add_good:
  assumes "um_good base u"
  shows "um_good base (snd (um_add_client os h flush rnd u))"
proof (cases "open_client os h rnd u")
  case (Pair res u1)
  show ?thesis
  proof (cases res)
    case (Inl e)
    then have "u1 = u" using Pair
      by (auto simp: open_client_def lift_res_def bindp_def split: sum.splits prod.splits)
    then show ?thesis using Pair Inl assms by (simp add: um_add_client_def bindp_def)
  next
    case (Inr rm)
    then obtain sock' mtu where u1: "rm = (um_next u, mtu)" "u1 = u\<lparr>um_next := um_next u + 1, um_sockets := (um_sockets u)(um_next u := sock'),
        um_writer := (um_writer u)\<lparr>w_files := (w_files (um_writer u))(um_next u := os_makefile os sock')\<rparr>\<rparr>"
      using Pair by (auto simp: open_client_def lift_res_def bindp_def split: sum.splits prod.splits)
    let ?w = "um_writer u1" and ?i = "w_curr_id (um_writer u)" and ?r = "um_next u"
    have q: "quiet (w_daemon (um_writer u))" and inv: "writer_inv (um_writer u)" and eq: "um_clients u = w_streams (um_writer u)"
      using assms(1) by (simp_all add: um_good_def)
    have new: "?i \<notin> set (dict_keys (w_streams (um_writer u)))" using inv by (fastforce simp: writer_inv_def)
    let ?w1 = "?w\<lparr>w_streams := dict_set ?i ?r (w_streams ?w), w_stream_closers := dict_set ?i None (w_stream_closers ?w),
      w_stream_attrs := dict_set ?i flush (w_stream_attrs ?w), w_curr_id := w_curr_id ?w + 1, w_daemon := w_daemon ?w\<rparr>"
    have "quiet (w_daemon ?w1)" using q u1(2) by simp
    then obtain d where d: "in_daemon (increment_metric ''stream_count'' (VInt 1)) ?w1 = (Inr (), ?w1\<lparr>w_daemon := d\<rparr>)" "quiet d"
      by (rule in_daemon_increment)
    have add: "add_stream ?r None flush ?w = (Inr ?i, ?w1\<lparr>w_daemon := d\<rparr>)"
      using d(1) u1(2) unfolding add_stream_run by simp
    have run: "um_add_client os h flush rnd u = (Inr (?i, mtu), u1\<lparr>um_writer := ?w1\<lparr>w_daemon := d\<rparr>, um_clients := dict_set ?i ?r (um_clients u)\<rparr>)"
      using Pair Inr u1(1) add u1(2) by (simp add: um_add_client_def um_with_lock_def zoom_def)
    have "writer_inv (?w1\<lparr>w_daemon := d\<rparr>)"
      using writer_inv_add(1) [of ?w] inv u1(2) by (simp add: writer_inv_def)
    moreover have "dict_set ?i ?r (um_clients u) = um_clients u @ [(?i, ?r)]" unfolding eq by (rule dict_set_fresh [OF new])
    moreover have "accounted base (um_clients u @ [(?i, ?r)]) (um_closed u) (?r + 1)"
      using assms by (intro accounted_next) (auto simp: um_good_def)
    ultimately show ?thesis unfolding run using d(2) u1(2) eq by (auto simp: um_good_def)
  qed
qed

lemma um_remove_good:
  assumes "um_good base u" and "\<forall>s. os_close os s \<noteq> CloseFails"
  shows "\<exists>u'. um_remove_client os i u = (Inr (), u') \<and> um_good base u' \<and> dict_get (um_clients u') i = None"
proof (cases "dict_get (um_clients u) i")
  case None
  then have "i \<notin> set (dict_keys (w_streams (um_writer u)))" using assms(1) by (simp add: um_good_def dict_get_None_iff)
  then have "um_remove_client os i u = (Inr (), u)"
    by (simp add: um_remove_client_def um_with_lock_def remove_stream_def w_with_lock_def zoom_def)
  with None assms(1) show ?thesis by blast
next
  case (Some r)
  from client_gone(2) [OF assms(1) Some assms(2)] show ?thesis by (auto simp: dict_get_del)
qed

section \<open>Properties\<close>

text \<open>What can happen to a manager whose writer has no other streams; an operation may also end with an exception.\<close>

inductive udp_reachable :: "'s sockets \<Rightarrow> ('s \<Rightarrow> byte list \<Rightarrow> int option \<times> 's) \<Rightarrow> ('s \<Rightarrow> bool \<times> 's) \<Rightarrow> nat \<Rightarrow> ('s, 'c) udp_manager \<Rightarrow> bool"
    for os wr fls base where
  udp_start: "new_udp_manager w base socks = Inr u \<Longrightarrow> quiet (w_daemon w) \<Longrightarrow> writer_inv w \<Longrightarrow> w_streams w = [] \<Longrightarrow>
    udp_reachable os wr fls base u"
| udp_add: "udp_reachable os wr fls base u \<Longrightarrow> udp_reachable os wr fls base (snd (um_add_client os h flush rnd u))"
| udp_remove: "udp_reachable os wr fls base u \<Longrightarrow> udp_reachable os wr fls base (snd (um_remove_client os i u))"
| udp_remove_all: "udp_reachable os wr fls base u \<Longrightarrow> udp_reachable os wr fls base (snd (um_remove_all os u))"
| udp_frame: "udp_reachable os wr fls base u \<Longrightarrow> udp_reachable os wr fls base (snd (um_frame_handle os wr fls f u))"

lemma reachable_good:
  assumes "udp_reachable os wr fls base u" and "\<forall>s. os_close os s \<noteq> CloseFails"
  shows "um_good base u"
  using assms(1)
proof (induction rule: udp_reachable.induct)
  case (udp_start w socks u)
  then have "u = \<lparr>um_writer = w\<lparr>w_error_handle := True\<rparr>, um_lock = 0, um_clients = [], um_sockets = socks, um_next = base, um_closed = []\<rparr>"
    by (simp add: new_udp_manager_def split: if_splits)
  with udp_start show ?case by (simp add: um_good_def accounted_def writer_inv_def)
next
  case (udp_remove u i)
  from um_remove_good [OF udp_remove.IH assms(2), of i] show ?case by auto
next
  case (udp_remove_all u)
  from um_remove_all_good [OF udp_remove_all.IH assms(2)] show ?case by auto
qed (use assms(2) in \<open>auto intro: um_add_good um_frame_good\<close>)


definition sample_sockets :: "byte list sockets" where
  "sample_sockets = \<lparr>os_connect = (\<lambda>h. Inr \<lparr>us_name = (''127.0.0.1'', 5000), us_discover = 0, us_mtu = 1500, us_reuse = False\<rparr>),
     os_bind = (\<lambda>h. Inl OSError), os_send = (\<lambda>bytes s. (True, s)), os_makefile = (\<lambda>s. []), os_close = (\<lambda>s. Refused)\<rparr>"

definition sample_manager :: "(byte list, unit) udp_manager" where
  "sample_manager = \<lparr>um_writer = sample_writer\<lparr>w_streams := [], w_stream_closers := []\<rparr>, um_lock = 0, um_clients = [],
     um_sockets = (\<lambda>_. \<lparr>us_name = ([], 0), us_discover = 0, us_mtu = 0, us_reuse = False\<rparr>), um_next = 0, um_closed = []\<rparr>"


text \<open>
  Property C31: a stream of another kind in the writer of a manager, a file or a TCP connection, takes
  the writer down when it breaks. The manager's error handler, which is called for every stream,
  raises because it does not know the stream: handling the frame ends with that exception, with
  the manager's lock held and without the frame in any queue.
\<close>

theorem foreign_stream_breaks_writer:
  assumes "file_spec ok written wr fls" and "writer_ready (um_writer u)" and "frame_done f bs" and "length bs < 2 ^ 32"
    and "(i, r) \<in> set (w_streams (um_writer u))" and "\<not> ok (w_files (um_writer u) r)"
    and "\<forall>(j, q) \<in> set (w_streams (um_writer u)). \<not> ok (w_files (um_writer u) q) \<longrightarrow> dict_get (um_clients u) j = None"
  shows "\<exists>u'. um_frame_handle os wr fls f u = (Inl KeyError, u') \<and> um_lock u' = um_lock u + 1 \<and>
    w_queue_objs (um_writer u') = w_queue_objs (um_writer u) \<and> w_streams (um_writer u') = w_streams (um_writer u)"
proof -
  let ?w = "um_writer u" let ?S = "w_streams ?w" let ?bs = "size_framed bs"
  let ?bad = "filter (\<lambda>(i, r). \<not> ok (w_files ?w r)) ?S"
  have q: "quiet (w_daemon ?w)" "tp_type (w_frame_size ?w) = UINT32" "distinct (map snd ?S)" using assms(2) by (simp_all add: writer_ready_def)
  obtain tp where hdr: "with_size_header f (w_frame_size ?w) = (Inr (?bs, int (length ?bs)), tp)"
    by (rule size_header_done [OF assms(3,4) q(2)])
  let ?w1 = "?w\<lparr>w_frame_size := tp\<rparr>"
  obtain d attrs files where wrote: "map_each (write_stream wr fls ?bs (int (length ?bs))) ?S ?w1 =
      (Inr (map (\<lambda>(i, r). \<not> ok (w_files ?w1 r)) ?S), ?w1\<lparr>w_daemon := d, w_stream_attrs := attrs, w_files := files\<rparr>)"
    by (rule write_streams_run [where w = ?w1 and bs = ?bs, OF assms(1) _ q(3)]) (simp_all add: q(1))
  let ?w2 = "?w1\<lparr>w_daemon := d, w_stream_attrs := attrs, w_files := files\<rparr>"
  have "map fst (filter snd (zip ?S (map (\<lambda>(i, r). \<not> ok (w_files ?w1 r)) ?S))) = ?bad" by (subst filter_zip_map) simp
  then have fw: "write_frame wr fls f ?w = (Inr (map snd (w_queues ?w), ?bad), ?w2)"
    using hdr wrote by (simp add: write_frame_def w_with_lock_def zoom_def)
  have "(i, r) \<in> set ?bad" using assms(5,6) by simp
  then obtain j p rest where bad: "?bad = (j, p) # rest" by (cases ?bad) (auto simp: prod_eq_iff)
  then have "(j, p) \<in> set ?bad" by simp
  then have "dict_get (um_clients u) j = None" using assms(7) by auto
  then have "um_drop_stream os (j, p) (u\<lparr>um_writer := ?w2\<rparr>) = (Inl KeyError, u\<lparr>um_writer := ?w2, um_lock := um_lock u + 1\<rparr>)"
    by (simp add: um_drop_stream_def um_closer_def um_with_lock_def dict_item_def bindp_def)
  then have "um_frame_handle os wr fls f u = (Inl KeyError, u\<lparr>um_writer := ?w2, um_lock := um_lock u + 1\<rparr>)"
    using fw bad by (simp add: um_frame_handle_def zoom_def)
  then show ?thesis by auto
qed

theorem foreign_stream_breaks_writer_witness:
  "\<exists>u'. um_frame_handle sample_sockets (\<lambda>s bs. (None, s)) (\<lambda>s. (True, s)) sample_frame (sample_manager\<lparr>um_writer := sample_writer\<rparr>) =
     (Inl KeyError, u') \<and> um_lock u' = 1"
proof -
  let ?u = "sample_manager\<lparr>um_writer := sample_writer\<rparr>"
  have spec: "file_spec (\<lambda>_. False) (\<lambda>s. s) (\<lambda>s bs. (None, s)) (\<lambda>s :: byte list. (True, s))"
    by (simp add: file_spec_def)
  have "\<exists>u'. um_frame_handle sample_sockets (\<lambda>s bs. (None, s)) (\<lambda>s. (True, s)) sample_frame ?u = (Inl KeyError, u') \<and>
      um_lock u' = um_lock ?u + 1 \<and> w_queue_objs (um_writer u') = w_queue_objs (um_writer ?u) \<and> w_streams (um_writer u') = w_streams (um_writer ?u)"
    by (rule foreign_stream_breaks_writer [OF spec _ sample_done, where i = 0 and r = 0])
      (use sample_ready in \<open>simp_all add: sample_manager_def\<close>, simp_all add: sample_writer_def)
  then show ?thesis by (auto simp: sample_manager_def)
qed

text \<open>
  The datagram with which the transmission unit of a path is discovered is exactly four
  bytes longer than the frame size it probes. Whatever becomes of the datagram, the discovery
  answers with what the socket then knows and leaves the socket's discovery option as it was. A
  probe of the default size fills an Ethernet frame of 1500 bytes with its headers.
\<close>

theorem mtu_discovery:
  assumes "create_app_id basis rnd = Inr p" and "19 < probe_size" and "probe_size < 2 ^ 32"
  shows "\<exists>bytes s'. mtu_probe probe_size basis rnd = Inr bytes \<and> int (length bytes) = probe_size + 4 \<and>
    discover_mtu os probe_size basis rnd s = (Inr (us_mtu (snd (os_send os bytes (s\<lparr>us_discover := IP_PMTUDISC_DO\<rparr>)))), s') \<and>
    us_discover s' = us_discover s \<and> DEFAULT_MTU + 4 + (60 + 8) = 1500"
proof -
  obtain f where f: "build_channel_dummy_frame probe_size basis False rnd = Inr f" "raw f = Inr (bb_data (fr_buffer f), probe_size)"
      "int (length (bb_data (fr_buffer f))) = probe_size"
    using dummy_frame_run [OF assms(1,2)] by blast
  obtain tp where tp: "new_default ''count'' False = Inr tp" "tp_type tp = UINT32" using count_prim by blast
  have "frame_done f (bb_data (fr_buffer f))" using f by (simp add: frame_done_def)
  then obtain tp' where "with_size_header f tp = (Inr (size_framed (bb_data (fr_buffer f)), int (length (size_framed (bb_data (fr_buffer f))))), tp')"
    by (rule size_header_done [OF _ _ tp(2)]) (use f(3) assms(3) in simp)
  then have "mtu_probe probe_size basis rnd = Inr (size_framed (bb_data (fr_buffer f)))"
    using f(1) tp(1) by (simp add: mtu_probe_def)
  moreover have "int (length (size_framed (bb_data (fr_buffer f)))) = probe_size + 4" using f(3) by (simp add: size_framed_def)
  ultimately show ?thesis by (simp add: discover_mtu_def DEFAULT_MTU_def mtu_to_usable_def FRAME_OVERHEAD_def)
qed

theorem mtu_discovery_witness:
  "\<exists>s. discover_mtu sample_sockets DEFAULT_MTU None 7 \<lparr>us_name = ([], 0), us_discover = 1, us_mtu = 900, us_reuse = False\<rparr> = (Inr 900, s) \<and>
    us_discover s = 1"
proof -
  obtain p where "create_app_id None 7 = Inr p" using create_app_id_random [of 7] by blast
  from mtu_discovery [OF this, of DEFAULT_MTU sample_sockets "\<lparr>us_name = ([], 0), us_discover = 1, us_mtu = 900, us_reuse = False\<rparr>"]
  show ?thesis by (auto simp: DEFAULT_MTU_def mtu_to_usable_def FRAME_OVERHEAD_def sample_sockets_def)
qed

end
