(* ===== verification/Synchronous.thy ===== *)
theory Synchronous
  imports Daemon
begin

text \<open>
  Daemons that run a task at a rate (\<open>vtelem/daemon/synchronous.py\<close>), the telemetry daemon
  (\<open>vtelem/daemon/telemetry.py\<close>) and the time keeper (\<open>vtelem/classes/time_keeper.py\<close>), which gives many
  objects a common time. What other threads do to a daemon shows in the rounds of its loop: whether
  a round finds the daemon asked to stop or paused, and what time it is at the points where the
  loop asks for it. Calls of the sleep function are recorded.
\<close>

section \<open>The synchronous daemon\<close>

record sync_daemon =
  sd_daemon :: daemon
  sd_rate :: pyfloat
  sd_default_overrun :: bool
  sd_sleeps :: "pyfloat list"

abbreviation in_sd :: "(daemon, 'a) py \<Rightarrow> (sync_daemon, 'a) py" where
  "in_sd m \<equiv> zoom sd_daemon (\<lambda>d s. s\<lparr>sd_daemon := d\<rparr>) m"

definition set_data :: "string \<Rightarrow> pyval \<Rightarrow> (daemon, unit) py" where
  "set_data name v = modify (\<lambda>d. d\<lparr>d_metrics := dict_set name v (d_metrics d)\<rparr>)"

text \<open>The default handler of overruns; what it writes to the log is left out.\<close>

definition default_overrun :: "pyfloat \<Rightarrow> (daemon, unit) py" where
  "default_overrun end_time =
     bindp (gets (\<lambda>d. (metric_value ''last_overrun_time'' d, metric_value ''overrun_throttle'' d))) (\<lambda>(last_time, throttle).
     bindp (lift_res (as_float last_time)) (\<lambda>_.
     set_data ''last_overrun_time'' (VFloat end_time)))"

definition init_sync :: "(sync_daemon, unit) py" where
  "init_sync =
     bindp (in_sd init_daemon) (\<lambda>_.
     bindp (gets sd_default_overrun) (\<lambda>dflt.
     bindp (if dflt then in_sd (set_data ''overrun_throttle'' (VFloat LOG_PERIOD)) else ret ()) (\<lambda>_.
     in_sd (
       bindp (reset_metric ''overruns'' 0) (\<lambda>_.
       bindp (set_env_metric ''uptime'' (VFloat 0) FLOAT) (\<lambda>_.
       set_env_metric ''cycle_time'' (VFloat 0) FLOAT))))))"

definition new_sync :: "string \<Rightarrow> pyfloat \<Rightarrow> bool \<Rightarrow> telemetry_env option \<Rightarrow> py_error + sync_daemon" where
  "new_sync name rate dflt env =
     (case init_sync \<lparr>sd_daemon = blank_daemon name env, sd_rate = rate, sd_default_overrun = dflt, sd_sleeps = []\<rparr> of
        (Inl err, _) \<Rightarrow> Inl err
      | (Inr _, s) \<Rightarrow> Inr s)"

definition get_rate :: "sync_daemon \<Rightarrow> pyfloat" where
  "get_rate s = sd_rate s"

definition set_sync_rate :: "pyfloat \<Rightarrow> (sync_daemon, unit) py" where
  "set_sync_rate rate =
     (if flt 0 rate
      then zoom (\<lambda>s. (sd_daemon s, s)) (\<lambda>(d, s') s. s'\<lparr>sd_daemon := d\<rparr>)
             (\<lambda>(d, s). case d_with_lock (ret ()) d of (r, d') \<Rightarrow> (r, (d', s\<lparr>sd_rate := rate\<rparr>)))
      else ret ())"

section \<open>The loop\<close>

text \<open>
  A round of the loop: the daemon is asked to stop, it is paused, or it iterates, and the time is
  \<open>start\<close> before and \<open>end\<close> after the task, and \<open>now\<close> when the rest of the round is computed.
\<close>

datatype sync_round = Stopping | Paused | Iterates pyfloat pyfloat pyfloat

definition sd_sleep :: "(pyfloat \<Rightarrow> py_error + pyfloat) \<Rightarrow> pyfloat \<Rightarrow> (sync_daemon, unit) py" where
  "sd_sleep scaled amount =
     bindp (lift_res (scaled amount)) (\<lambda>x. modify (\<lambda>s. s\<lparr>sd_sleeps := sd_sleeps s @ [x]\<rparr>))"

definition after_task :: "(pyfloat \<Rightarrow> py_error + pyfloat) \<Rightarrow> (pyfloat \<Rightarrow> pyfloat \<Rightarrow> pyfloat \<Rightarrow> (daemon, unit) py) \<Rightarrow>
    pyfloat \<Rightarrow> pyfloat \<Rightarrow> pyfloat \<Rightarrow> pyfloat \<Rightarrow> (sync_daemon, unit) py" where
  "after_task scaled overrun rate began end_time now =
     bindp (in_sd (increment_metric ''uptime'' (VFloat (fsub end_time began)))) (\<lambda>_.
     bindp (in_sd (set_env_metric ''cycle_time'' (VFloat (fsub end_time began)) FLOAT)) (\<lambda>_.
     let sleep_amount = fsub rate (fsub now began)
     in if flt 0 sleep_amount then sd_sleep scaled sleep_amount
        else
          bindp (in_sd (increment_metric ''overruns'' (VInt 1))) (\<lambda>_.
          bindp (gets sd_default_overrun) (\<lambda>dflt.
          in_sd (if dflt then default_overrun end_time else overrun began end_time rate)))))"

text \<open>
  \<open>run\<close> over the rounds that come: the task works on the daemon and the rest of the program. A loop
  that is never asked to stop does not come to an end.
\<close>

fun sync_loop :: "(pyfloat \<Rightarrow> py_error + pyfloat) \<Rightarrow> (pyfloat \<Rightarrow> pyfloat \<Rightarrow> pyfloat \<Rightarrow> (daemon, unit) py) \<Rightarrow>
    (daemon \<times> 'w, unit) py \<Rightarrow> sync_round list \<Rightarrow> (sync_daemon \<times> 'w, unit) py" where
  "sync_loop scaled overrun task [] = raise Blocks"
| "sync_loop scaled overrun task (Stopping # rounds) = ret ()"
| "sync_loop scaled overrun task (Paused # rounds) =
     bindp (gets (\<lambda>s. sd_rate (fst s))) (\<lambda>rate.
     bindp (zoom fst (\<lambda>d s. (d, snd s)) (sd_sleep scaled rate)) (\<lambda>_.
     sync_loop scaled overrun task rounds))"
| "sync_loop scaled overrun task (Iterates began end_time now # rounds) =
     bindp (gets (\<lambda>s. sd_rate (fst s))) (\<lambda>rate.
     bindp (zoom (\<lambda>(s, w). (sd_daemon s, w)) (\<lambda>(d, w) (s, _). (s\<lparr>sd_daemon := d\<rparr>, w)) task) (\<lambda>_.
     bindp (zoom fst (\<lambda>d s. (d, snd s)) (after_task scaled overrun rate began end_time now)) (\<lambda>_.
     sync_loop scaled overrun task rounds)))"

definition sync_run :: "(pyfloat \<Rightarrow> py_error + pyfloat) \<Rightarrow> (pyfloat \<Rightarrow> pyfloat \<Rightarrow> pyfloat \<Rightarrow> (daemon, unit) py) \<Rightarrow>
    (daemon \<times> 'w, unit) py option \<Rightarrow> (daemon \<times> 'w, unit) py \<Rightarrow> sync_round list \<Rightarrow> (sync_daemon \<times> 'w, unit) py" where
  "sync_run scaled overrun init task rounds =
     bindp (case init of
              None \<Rightarrow> ret ()
            | Some f \<Rightarrow> zoom (\<lambda>(s, w). (sd_daemon s, w)) (\<lambda>(d, w) (s, _). (s\<lparr>sd_daemon := d\<rparr>, w)) f) (\<lambda>_.
     sync_loop scaled overrun task rounds)"

section \<open>The time keeper\<close>

text \<open>The times of the slaves are kept in the order in which they were added.\<close>

record time_keeper =
  tk_sync :: sync_daemon
  tk_scalar :: pyfloat
  tk_last_time_eval :: pyfloat
  tk_slaves :: "pyfloat list"

abbreviation tk_time :: "time_keeper \<Rightarrow> pyfloat" where
  "tk_time k \<equiv> d_time (sd_daemon (tk_sync k))"

abbreviation set_tk_time :: "pyfloat \<Rightarrow> time_keeper \<Rightarrow> time_keeper" where
  "set_tk_time t k \<equiv> k\<lparr>tk_sync := (tk_sync k)\<lparr>sd_daemon := (sd_daemon (tk_sync k))\<lparr>d_time := t\<rparr>\<rparr>\<rparr>"

definition tk_lock_by :: "int \<Rightarrow> time_keeper \<Rightarrow> time_keeper" where
  "tk_lock_by n k = k\<lparr>tk_sync := (tk_sync k)\<lparr>sd_daemon := (sd_daemon (tk_sync k))\<lparr>d_lock := d_lock (sd_daemon (tk_sync k)) + n\<rparr>\<rparr>\<rparr>"

definition tk_with_lock :: "(time_keeper, 'a) py \<Rightarrow> (time_keeper, 'a) py" where
  "tk_with_lock body =
     bindp (modify (tk_lock_by 1)) (\<lambda>_. bindp body (\<lambda>r. bindp (modify (tk_lock_by (-1))) (\<lambda>_. ret r)))"

definition tk_advance_time :: "pyfloat \<Rightarrow> (time_keeper, unit) py" where
  "tk_advance_time amount = tk_with_lock (modify (\<lambda>k. set_tk_time (fadd (tk_time k) amount) k))"

definition set_slaves :: "(time_keeper, unit) py" where
  "set_slaves = tk_with_lock (modify (\<lambda>k. k\<lparr>tk_slaves := map (\<lambda>_. tk_time k) (tk_slaves k)\<rparr>))"

definition iteration :: "pyfloat \<Rightarrow> (time_keeper, unit) py" where
  "iteration now =
     bindp (tk_with_lock (
       bindp (gets (\<lambda>k. fmul (fsub now (tk_last_time_eval k)) (tk_scalar k))) (\<lambda>amount.
       bindp (tk_advance_time amount) (\<lambda>_.
       modify (\<lambda>k. k\<lparr>tk_last_time_eval := now\<rparr>))))) (\<lambda>_.
     set_slaves)"

definition add_slave :: "(time_keeper, unit) py" where
  "add_slave = tk_with_lock (modify (\<lambda>k. k\<lparr>tk_slaves := tk_slaves k @ [tk_time k]\<rparr>))"

definition scale :: "pyfloat \<Rightarrow> (time_keeper, unit) py" where
  "scale scalar = (if fle 0 scalar then tk_with_lock (modify (\<lambda>k. k\<lparr>tk_scalar := scalar\<rparr>)) else ret ())"

text \<open>How long a slave that wants to sleep really sleeps.\<close>

definition tk_sleep :: "time_keeper \<Rightarrow> pyfloat \<Rightarrow> py_error + pyfloat" where
  "tk_sleep k amount = fdiv amount (tk_scalar k)"

definition new_time_keeper :: "string \<Rightarrow> pyfloat \<Rightarrow> pyfloat \<Rightarrow> pyfloat \<Rightarrow> py_error + time_keeper" where
  "new_time_keeper name rate real_scalar now =
     (if \<not> fle 0 real_scalar then Inl AssertionError
      else case new_sync name rate True None of
        Inl err \<Rightarrow> Inl err
      | Inr s \<Rightarrow> Inr (set_tk_time now \<lparr>tk_sync = s, tk_scalar = real_scalar, tk_last_time_eval = now, tk_slaves = []\<rparr>))"

section \<open>The telemetry daemon\<close>

text \<open>The environment is the daemon's own, and its task is to dispatch with the current time.\<close>

definition telemetry_task :: "bool \<Rightarrow> int \<Rightarrow> (daemon \<times> 'w, unit) py" where
  "telemetry_task should_log rnd =
     zoom fst (\<lambda>d s. (d, snd s)) (on_env (bindp (in_chan (dispatch_now should_log rnd)) (\<lambda>_. ret ())))"

section \<open>What a loop does\<close>

text \<open>How a round that iterates ends: with a rest to sleep, or late.\<close>

definition rest_of :: "pyfloat \<Rightarrow> pyfloat \<Rightarrow> pyfloat \<Rightarrow> pyfloat" where
  "rest_of rate began now = fsub rate (fsub now began)"

fun slept :: "pyfloat \<Rightarrow> sync_round \<Rightarrow> pyfloat list" where
  "slept rate Stopping = []"
| "slept rate Paused = [rate]"
| "slept rate (Iterates began end_time now) = (if flt 0 (rest_of rate began now) then [rest_of rate began now] else [])"

fun late :: "pyfloat \<Rightarrow> sync_round \<Rightarrow> bool" where
  "late rate (Iterates began end_time now) = (\<not> flt 0 (rest_of rate began now))"
| "late rate _ = False"

fun iterates :: "sync_round \<Rightarrow> bool" where
  "iterates (Iterates _ _ _) = True"
| "iterates _ = False"

text \<open>A daemon without environment whose metrics have the types the loop gives them.\<close>

definition metrics_fit :: "int \<Rightarrow> daemon \<Rightarrow> bool" where
  "metrics_fit k d \<longleftrightarrow> d_env d = None \<and> metric_value ''overruns'' d = VInt k \<and>
     (\<exists>x. as_float (metric_value ''uptime'' d) = Inr x) \<and> (\<exists>x. as_float (metric_value ''last_overrun_time'' d) = Inr x)"

lemma increment_plain:
  assumes "d_env d = None" and "num_add (metric_value n d) v = Inr v'"
  shows "increment_metric n v d = (Inr (), d\<lparr>d_metrics := dict_set n v' (d_metrics d)\<rparr>)"
proof -
  have "num_add (metric_value n (d\<lparr>d_lock := d_lock d + 1\<rparr>)) v = Inr v'" using assms(2) by (simp add: metric_value_def)
  then have "increment_metric n v d = set_env_metric n v' UINT32 (d\<lparr>d_metrics := dict_set n v' (d_metrics d)\<rparr>)"
    by (simp add: increment_metric_def update_metric_def d_with_lock_def del: num_add.simps)
  then show ?thesis using assms(1) by (simp add: set_env_metric_def on_env_def)
qed

lemma metric_value_set: "metric_value n (d\<lparr>d_metrics := dict_set m v ms\<rparr>) = (if n = m then v else metric_value n (d\<lparr>d_metrics := ms\<rparr>))"
  by (simp add: metric_value_def)

text \<open>What comes after the metrics of a round: the rest of the round is slept, or it was late.\<close>

lemma after_task_metrics:
  assumes "metrics_fit k (sd_daemon s)"
  obtains d where "metrics_fit k d" and "after_task scaled overrun rate began end_time now s =
    (if flt 0 (rest_of rate began now) then sd_sleep scaled (rest_of rate began now) (s\<lparr>sd_daemon := d\<rparr>)
     else bindp (in_sd (increment_metric ''overruns'' (VInt 1))) (\<lambda>_.
          bindp (gets sd_default_overrun) (\<lambda>dflt.
          in_sd (if dflt then default_overrun end_time else overrun began end_time rate))) (s\<lparr>sd_daemon := d\<rparr>))"
proof -
  let ?d = "sd_daemon s" and ?used = "fsub end_time began"
  have env: "d_env ?d = None" using assms(1) by (simp add: metrics_fit_def)
  obtain x where x: "as_float (metric_value ''uptime'' ?d) = Inr x" using assms(1) by (auto simp: metrics_fit_def)
  have up: "num_add (metric_value ''uptime'' ?d) (VFloat ?used) = Inr (VFloat (fadd x ?used))"
    using x by (simp split: option.split)
  let ?d1 = "?d\<lparr>d_metrics := dict_set ''uptime'' (VFloat (fadd x ?used)) (d_metrics ?d)\<rparr>"
  have inc: "increment_metric ''uptime'' (VFloat ?used) ?d = (Inr (), ?d1)" by (rule increment_plain [OF env up])
  have cyc: "set_env_metric ''cycle_time'' (VFloat ?used) FLOAT ?d1 = (Inr (), ?d1)"
    using env by (simp add: set_env_metric_def on_env_def)
  have "metrics_fit k ?d1" using assms(1) by (auto simp: metrics_fit_def metric_value_set)
  then show thesis by (rule that) (simp add: after_task_def Let_def rest_of_def inc cyc)
qed

lemma after_task_run:
  assumes "metrics_fit k (sd_daemon s)" and "sd_default_overrun s"
  obtains d where "after_task Inr overrun rate began end_time now s =
      (Inr (), s\<lparr>sd_daemon := d, sd_sleeps := sd_sleeps s @ slept rate (Iterates began end_time now)\<rparr>)"
    and "metrics_fit (k + of_bool (late rate (Iterates began end_time now))) d"
proof -
  obtain d where fit: "metrics_fit k d" and run: "after_task Inr overrun rate began end_time now s =
      (if flt 0 (rest_of rate began now) then sd_sleep Inr (rest_of rate began now) (s\<lparr>sd_daemon := d\<rparr>)
       else bindp (in_sd (increment_metric ''overruns'' (VInt 1))) (\<lambda>_.
            bindp (gets sd_default_overrun) (\<lambda>dflt.
            in_sd (if dflt then default_overrun end_time else overrun began end_time rate))) (s\<lparr>sd_daemon := d\<rparr>))"
    using after_task_metrics [OF assms(1)] .
  show thesis
  proof (cases "flt 0 (rest_of rate began now)")
    case True
    with run fit show thesis by (intro that [of d]) (simp_all add: sd_sleep_def)
  next
    case False
    let ?d1 = "d\<lparr>d_metrics := dict_set ''overruns'' (VInt (k + 1)) (d_metrics d)\<rparr>"
    have inc: "increment_metric ''overruns'' (VInt 1) d = (Inr (), ?d1)"
      using fit by (intro increment_plain) (simp_all add: metrics_fit_def)
    have fit1: "metrics_fit (k + 1) ?d1" using fit by (auto simp: metrics_fit_def metric_value_set)
    let ?d2 = "?d1\<lparr>d_metrics := dict_set ''last_overrun_time'' (VFloat end_time) (d_metrics ?d1)\<rparr>"
    obtain y where "as_float (metric_value ''last_overrun_time'' ?d1) = Inr y" using fit1 by (auto simp: metrics_fit_def)
    then have "default_overrun end_time ?d1 = (Inr (), ?d2)" by (simp add: default_overrun_def set_data_def)
    then have "after_task Inr overrun rate began end_time now s = (Inr (), s\<lparr>sd_daemon := ?d2\<rparr>)"
      using False run inc assms(2) by simp
    moreover have "metrics_fit (k + 1) ?d2" using fit1 by (auto simp: metrics_fit_def metric_value_set)
    ultimately show thesis using False by (intro that) simp_all
  qed
qed

section \<open>Keeping time\<close>

datatype keeper_op = Tick pyfloat | AddSlave | Scale pyfloat

fun keeper_step :: "keeper_op \<Rightarrow> (time_keeper, unit) py" where
  "keeper_step (Tick now) = iteration now"
| "keeper_step AddSlave = add_slave"
| "keeper_step (Scale x) = scale x"

lemma tk_lock_fields [simp]:
  "tk_time (tk_lock_by n k) = tk_time k" "tk_slaves (tk_lock_by n k) = tk_slaves k" "tk_scalar (tk_lock_by n k) = tk_scalar k"
  "tk_last_time_eval (tk_lock_by n k) = tk_last_time_eval k"
  by (simp_all add: tk_lock_by_def)

lemmas keeper_defs = iteration_def add_slave_def scale_def set_slaves_def tk_with_lock_def tk_advance_time_def

lemma keeper_step_runs:
  "\<exists>k'. keeper_step op k = (Inr (), k') \<and>
    ((\<forall>t \<in> set (tk_slaves k). t = tk_time k) \<longrightarrow> (\<forall>t \<in> set (tk_slaves k'). t = tk_time k')) \<and>
    length (tk_slaves k') = length (tk_slaves k) + of_bool (op = AddSlave) \<and>
    (fle 0 (tk_scalar k) \<longrightarrow> fle 0 (tk_scalar k'))"
proof (cases op)
  case (Scale x)
  then show ?thesis by (cases "fle 0 x") (simp_all add: keeper_defs)
qed (auto simp: keeper_defs)

section \<open>Properties\<close>

text \<open>
  Property C32: the loop of a daemon that runs a task at a rate performs the task once in every round
  that is not paused, sleeps for what is left of the round or counts an overrun when nothing is
  left, sleeps for the whole rate while it is paused, and returns when it is asked to stop.
\<close>

theorem sync_loop_rounds:
  fixes w :: 'w
  assumes "\<forall>d w. task (d, w) = (Inr (), (d, step w))" and "\<forall>r \<in> set rounds. r \<noteq> Stopping"
    and "metrics_fit k (sd_daemon s)" and "sd_default_overrun s"
  shows "\<exists>s'. sync_loop Inr overrun task (rounds @ Stopping # later) (s, w) =
      (Inr (), (s', (step ^^ length (filter iterates rounds)) w)) \<and>
    sd_sleeps s' = sd_sleeps s @ concat (map (slept (sd_rate s)) rounds) \<and>
    metric_value ''overruns'' (sd_daemon s') = VInt (k + int (length (filter (late (sd_rate s)) rounds)))"
  using assms(2-4)
proof (induction rounds arbitrary: s w k)
  case Nil
  then show ?case by (simp add: metrics_fit_def)
next
  case (Cons r rounds)
  show ?case
  proof (cases r)
    case (Iterates began end_time now)
    obtain d where d: "after_task Inr overrun (sd_rate s) began end_time now s =
        (Inr (), s\<lparr>sd_daemon := d, sd_sleeps := sd_sleeps s @ slept (sd_rate s) r\<rparr>)"
        "metrics_fit (k + of_bool (late (sd_rate s) r)) d"
      unfolding Iterates by (rule after_task_run [OF Cons.prems(2,3)])
    let ?s = "s\<lparr>sd_daemon := d, sd_sleeps := sd_sleeps s @ slept (sd_rate s) r\<rparr>"
    have "sync_loop Inr overrun task ((r # rounds) @ Stopping # later) (s, w) =
        sync_loop Inr overrun task (rounds @ Stopping # later) (?s, step w)"
      using d(1) Iterates assms(1) by (simp add: zoom_def)
    moreover have "\<exists>s'. sync_loop Inr overrun task (rounds @ Stopping # later) (?s, step w) =
        (Inr (), (s', (step ^^ length (filter iterates rounds)) (step w))) \<and>
      sd_sleeps s' = sd_sleeps ?s @ concat (map (slept (sd_rate ?s)) rounds) \<and>
      metric_value ''overruns'' (sd_daemon s') =
        VInt (k + of_bool (late (sd_rate s) r) + int (length (filter (late (sd_rate ?s)) rounds)))"
      using Cons.prems d(2) by (intro Cons.IH) simp_all
    ultimately show ?thesis using Iterates by (auto simp: funpow_swap1)
  next
    case Paused
    let ?s = "s\<lparr>sd_sleeps := sd_sleeps s @ [sd_rate s]\<rparr>"
    have "sync_loop Inr overrun task ((r # rounds) @ Stopping # later) (s, w) =
        sync_loop Inr overrun task (rounds @ Stopping # later) (?s, w)"
      using Paused by (simp add: sd_sleep_def zoom_def)
    moreover have "\<exists>s'. sync_loop Inr overrun task (rounds @ Stopping # later) (?s, w) =
        (Inr (), (s', (step ^^ length (filter iterates rounds)) w)) \<and>
      sd_sleeps s' = sd_sleeps ?s @ concat (map (slept (sd_rate ?s)) rounds) \<and>
      metric_value ''overruns'' (sd_daemon s') = VInt (k + int (length (filter (late (sd_rate ?s)) rounds)))"
      using Cons.prems by (intro Cons.IH) simp_all
    ultimately show ?thesis using Paused by auto
  qed (use Cons.prems in simp)
qed

definition idle_task :: sync_daemon where
  "idle_task = \<lparr>sd_daemon = blank_daemon ''task'' None, sd_rate = fl 1, sd_default_overrun = True, sd_sleeps = []\<rparr>"

lemma idle_task_fit: "metrics_fit 0 (sd_daemon idle_task)"
proof -
  have "\<exists>x. float_of_int 0 = Inr x" by (simp add: float_of_int_def Let_def) code_simp
  then show ?thesis by (simp add: metrics_fit_def blank_daemon_def metric_value_def idle_task_def)
qed

theorem sync_loop_rounds_witness:
  "\<exists>s'. sync_loop Inr (\<lambda>_ _ _. ret ()) (modify (\<lambda>(d, n). (d, Suc n))) ([Iterates 0 0 0, Paused, Iterates 0 0 0] @ Stopping # [])
     (idle_task, 0) = (Inr (), (s', 2))"
proof -
  have task: "\<forall>d w. modify (\<lambda>(d, n). (d, Suc n)) (d :: daemon, w) = (Inr (), (d, Suc w))" by simp
  let ?rounds = "[Iterates 0 0 0, Paused, Iterates 0 0 0]"
  have n: "(Suc ^^ length (filter iterates ?rounds)) 0 = 2" by simp
  have "\<exists>s'. sync_loop Inr (\<lambda>_ _ _. ret ()) (modify (\<lambda>(d, n). (d, Suc n))) (?rounds @ Stopping # []) (idle_task, 0) =
      (Inr (), (s', (Suc ^^ length (filter iterates ?rounds)) 0)) \<and>
    sd_sleeps s' = sd_sleeps idle_task @ concat (map (slept (sd_rate idle_task)) ?rounds) \<and>
    metric_value ''overruns'' (sd_daemon s') = VInt (0 + int (length (filter (late (sd_rate idle_task)) ?rounds)))"
    by (rule sync_loop_rounds [OF task _ idle_task_fit]) (simp_all add: idle_task_def)
  then show ?thesis unfolding n by blast
qed

text \<open>
  Property C33: whatever the time keeper does (it ticks, gets a new slave, or has its time scaled),
  after every operation all its slaves have the keeper's time, and time is never scaled by a
  negative factor.
\<close>

theorem slaves_in_step:
  assumes "new_time_keeper name rate x now = Inr k0"
  shows "\<exists>k. for_each keeper_step ops k0 = (Inr (), k) \<and> (\<forall>t \<in> set (tk_slaves k). t = tk_time k) \<and>
    length (tk_slaves k) = length (filter (\<lambda>op. op = AddSlave) ops) \<and> fle 0 (tk_scalar k)"
proof -
  have run: "\<exists>k'. for_each keeper_step ops k = (Inr (), k') \<and> (\<forall>t \<in> set (tk_slaves k'). t = tk_time k') \<and>
      length (tk_slaves k') = length (tk_slaves k) + length (filter (\<lambda>op. op = AddSlave) ops) \<and> fle 0 (tk_scalar k')"
    if "\<forall>t \<in> set (tk_slaves k). t = tk_time k" and "fle 0 (tk_scalar k)" for k
    using that
  proof (induction ops arbitrary: k)
    case (Cons op ops)
    obtain k1 where k1: "keeper_step op k = (Inr (), k1)"
        "(\<forall>t \<in> set (tk_slaves k). t = tk_time k) \<longrightarrow> (\<forall>t \<in> set (tk_slaves k1). t = tk_time k1)"
        "length (tk_slaves k1) = length (tk_slaves k) + of_bool (op = AddSlave)"
        "fle 0 (tk_scalar k) \<longrightarrow> fle 0 (tk_scalar k1)"
      using keeper_step_runs [of op k] by blast
    then show ?case using Cons.IH [of k1] Cons.prems by auto
  qed simp
  have "tk_slaves k0 = []" "fle 0 (tk_scalar k0)"
    using assms by (auto simp: new_time_keeper_def split: if_splits sum.splits)
  with run [of k0] show ?thesis by simp
qed

lemma plain_keeper: "\<exists>k0. new_time_keeper ''time'' 0 0 0 = Inr k0"
proof -
  have "\<exists>d. init_daemon (blank_daemon ''time'' None) = (Inr (), d) \<and> d_env d = None"
    by (simp add: init_daemon_def reset_metric_def set_env_metric_def d_with_lock_def on_env_def set_state_def blank_daemon_def)
  then have "\<exists>s. new_sync ''time'' 0 True None = Inr s"
    by (auto simp: new_sync_def init_sync_def zoom_def set_data_def reset_metric_def set_env_metric_def d_with_lock_def on_env_def)
  moreover have "fle 0 0" by code_simp
  ultimately show ?thesis by (auto simp: new_time_keeper_def)
qed

theorem slaves_in_step_witness:
  "\<exists>k0 k. new_time_keeper ''time'' 0 0 0 = Inr k0 \<and> for_each keeper_step [AddSlave, Tick (fl 1), AddSlave] k0 = (Inr (), k) \<and>
     (\<forall>t \<in> set (tk_slaves k). t = tk_time k) \<and> length (tk_slaves k) = 2"
proof -
  obtain k0 where k0: "new_time_keeper ''time'' 0 0 0 = Inr k0" using plain_keeper by blast
  from slaves_in_step [OF k0, of "[AddSlave, Tick (fl 1), AddSlave]"] k0 show ?thesis by fastforce
qed

text \<open>
  A time keeper accepts the scale zero, and from then on every sleep of the daemons it
  manages raises: the loop of a daemon ends in its next round in which it is paused or has time
  left.
\<close>

theorem zero_scale_stops_loops:
  assumes "fmag x = 0" and "metrics_fit n (sd_daemon s)" and "\<forall>d w. task (d, w) = (Inr (), (d, step w))"
    and "r = Paused \<or> (\<exists>began end_time now. r = Iterates began end_time now \<and> flt 0 (rest_of (sd_rate s) began now))"
  shows "\<exists>k'. scale x k = (Inr (), k') \<and>
    fst (sync_loop (tk_sleep k') overrun task (r # rounds) (s, w)) = Inl ZeroDivisionError"
proof -
  have "\<not> fnan 0" by code_simp
  moreover have "fnan x = fnan 0" "fkey x = fkey 0" using assms(1) by (simp_all add: fnan_def fkey_def fmag_def)
  ultimately have x: "fle 0 x" by (simp add: fle_def)
  let ?k = "k\<lparr>tk_scalar := x\<rparr>"
  have scaled: "scale x k = (Inr (), ?k)" using x by (simp add: keeper_defs tk_lock_by_def)
  have sleep: "tk_sleep ?k y = Inl ZeroDivisionError" for y using assms(1) by (simp add: tk_sleep_def fdiv_def)
  have "fst (sync_loop (tk_sleep ?k) overrun task (r # rounds) (s, w)) = Inl ZeroDivisionError"
    using assms(4)
  proof (elim disjE exE conjE)
    assume "r = Paused"
    then show ?thesis using sleep by (simp add: sd_sleep_def bindp_def zoom_def)
  next
    fix began end_time now assume r: "r = Iterates began end_time now" "flt 0 (rest_of (sd_rate s) began now)"
    have "fst (after_task (tk_sleep ?k) overrun (sd_rate s) began end_time now s) = Inl ZeroDivisionError"
      by (rule after_task_metrics [OF assms(2), of "tk_sleep ?k" overrun "sd_rate s" began end_time now])
        (simp add: r(2) sd_sleep_def sleep bindp_def)
    then show ?thesis using r(1) assms(3)
      by (cases "after_task (tk_sleep ?k) overrun (sd_rate s) began end_time now s") (simp add: zoom_def bindp_def)
  qed
  with scaled show ?thesis by blast
qed

theorem zero_scale_stops_loops_witness:
  "\<exists>k k'. new_time_keeper ''time'' 0 0 0 = Inr k \<and> scale 0 k = (Inr (), k') \<and>
    fst (sync_loop (tk_sleep k') (\<lambda>_ _ _. ret ()) (ret ()) [Paused, Stopping] (idle_task, ())) = Inl ZeroDivisionError"
proof -
  obtain k where k: "new_time_keeper ''time'' 0 0 0 = Inr k" using plain_keeper by blast
  have "\<exists>k'. scale 0 k = (Inr (), k') \<and>
      fst (sync_loop (tk_sleep k') (\<lambda>_ _ _. ret ()) (ret ()) (Paused # [Stopping]) (idle_task, ())) = Inl ZeroDivisionError"
    by (rule zero_scale_stops_loops [OF _ idle_task_fit, where step = "\<lambda>w. w"]) (simp_all add: fmag_def)
  with k show ?thesis by blast
qed

end
