(* ===== verification/Http_Request.thy ===== *)
theory Http_Request
  imports Json
begin

text \<open>
  The HTTP side (\<open>vtelem/classes/http_request_mapper.py\<close>): the map from request types and paths to
  handlers, the response to a request, and the parsers of the request fields and of form data.
\<close>

section \<open>Field parsers\<close>

record content_type =
  ct_type :: string
  ct_subtype :: string
  ct_params :: "string list"

definition parse_content_type :: "string \<Rightarrow> content_type option" where
  "parse_content_type value =
     (let params = map py_strip (py_split '';'' value)
      in if 1 \<le> length params \<and> CHR ''/'' \<in> set (params ! 0)
         then let types = map py_strip (py_split ''/'' (params ! 0))
              in if length types = 2 \<and> types ! 0 \<noteq> [] \<and> types ! 1 \<noteq> []
                 then Some \<lparr>ct_type = types ! 0, ct_subtype = types ! 1, ct_params = drop 1 params\<rparr>
                 else None
         else None)"

definition get_multipart_boundary :: "content_type \<Rightarrow> string option" where
  "get_multipart_boundary content_type =
     (if length (ct_params content_type) = 1
      then let boundary_raw = py_split ''='' (ct_params content_type ! 0)
           in if length boundary_raw = 2 \<and> boundary_raw ! 0 = ''boundary''
              then Some (boundary_raw ! 1) else None
      else None)"

definition dequote :: "string \<Rightarrow> string" where
  "dequote s =
     (if 1 < length s \<and> hd s = List.last s \<and> hd s \<in> {CHR 0x27, CHR 0x22}
      then butlast (tl s) else s)"

definition disposition_param :: "(string, string) dict \<Rightarrow> string \<Rightarrow> (string, string) dict" where
  "disposition_param result param =
     (let param_split = py_split ''='' param
      in if length param_split = 2
         then dict_set (str_lower (py_strip (param_split ! 0))) (dequote (py_strip (param_split ! 1))) result
         else result)"

definition parse_content_disposition :: "string \<Rightarrow> (string, string) dict" where
  "parse_content_disposition s =
     (let items = map py_strip (py_split '';'' s)
      in if items = [] then [] else foldl disposition_param [(''type'', items ! 0)] (drop 1 items))"

section \<open>Lines of a part\<close>

datatype header_value = HText string | HDisposition "(string, string) dict"

record part =
  pt_headers :: "(string, header_value) dict"
  pt_body :: "string list"

text \<open>The index of the empty line between headers and body.\<close>

fun blank_line :: "nat \<Rightarrow> nat \<Rightarrow> string list \<Rightarrow> nat option" where
  "blank_line n idx [] = None"
| "blank_line n idx (line # lines) =
     (if line = [] \<and> idx \<noteq> 0 \<and> idx + 1 \<noteq> n then Some idx else blank_line n (Suc idx) lines)"

definition parse_header :: "(string, header_value) dict \<Rightarrow> string \<Rightarrow> (string, header_value) dict" where
  "parse_header headers header =
     (let name_body = py_split '':'' header
      in if length name_body = 2
         then let name = str_lower (py_strip (name_body ! 0)); body = py_strip (name_body ! 1)
              in dict_set name
                   (if name = ''content-disposition'' then HDisposition (parse_content_disposition body)
                    else HText body) headers
         else headers)"

definition parse_request_lines :: "string list \<Rightarrow> part" where
  "parse_request_lines lines =
     (let (headers, body) =
        (case blank_line (length lines) 0 lines of
           None \<Rightarrow> ([], [])
         | Some idx \<Rightarrow> (take idx lines, drop (idx + 1) lines))
      in \<lparr>pt_headers = foldl parse_header [] headers, pt_body = body\<rparr>)"

section \<open>Form data\<close>

definition CRLF :: string where
  "CRLF = [CHR 0x0D, CHR 0x0A]"

definition parse_multipart_data :: "string \<Rightarrow> string \<Rightarrow> part list" where
  "parse_multipart_data boundary text =
     (let delim = ''--'' @ boundary;
          pieces = py_split delim text;
          pieces' = (if pieces \<noteq> [] \<and> hd pieces = [] then tl pieces else pieces);
          parts = map (py_split CRLF) pieces';
          parts' = map (\<lambda>p. if p \<noteq> [] \<and> hd p = [] then tl p else p) parts
      in map parse_request_lines parts')"

definition form_parser :: "string \<Rightarrow> content_type \<Rightarrow> part list" where
  "form_parser text content_type =
     (case get_multipart_boundary content_type of
        None \<Rightarrow> []
      | Some boundary \<Rightarrow>
          filter (\<lambda>p. dict_get (pt_headers p) ''content-disposition'' \<noteq> None)
            (parse_multipart_data boundary text))"

text \<open>
  The request as the parser sees it: its method, the two header fields, and the text that reading
  the given number of bytes of the body and decoding them yields. The result of a form is its list
  of parts, that of URL-encoded data what \<open>urllib.parse.parse_qs\<close> makes of the text.
\<close>

record post_request =
  rq_command :: string
  rq_content_length :: "string option"
  rq_content_type :: "string option"
  rq_read :: "int \<Rightarrow> py_error + string"

datatype post_data = NoData | Parts "part list" | Fields "(string, string list) dict"

definition get_post_request_data ::
  "(string \<Rightarrow> py_error + (string, string list) dict) \<Rightarrow> post_request \<Rightarrow> py_error + post_data" where
  "get_post_request_data parse_qs request =
     (if rq_command request \<noteq> ''POST'' then Inl AssertionError
      else case (rq_content_length request, rq_content_type request) of
        (Some len_text, Some type_text) \<Rightarrow>
          (case py_int len_text of
             Inl err \<Rightarrow> Inl err
           | Inr len \<Rightarrow>
               (case parse_content_type type_text of
                  None \<Rightarrow> Inr NoData
                | Some ct \<Rightarrow>
                    if ct_type ct = ''multipart'' \<and> ct_subtype ct = ''form-data''
                    then (case get_multipart_boundary ct of
                            None \<Rightarrow> Inr (Parts [])
                          | Some _ \<Rightarrow>
                              (case rq_read request len of
                                 Inl err \<Rightarrow> Inl err
                               | Inr text \<Rightarrow> Inr (Parts (form_parser text ct))))
                    else if ct_type ct = ''application'' \<and> ct_subtype ct = ''x-www-form-urlencoded''
                    then (case rq_read request len of
                            Inl err \<Rightarrow> Inl err
                          | Inr text \<Rightarrow> (case parse_qs text of Inl err \<Rightarrow> Inl err | Inr fs \<Rightarrow> Inr (Fields fs)))
                    else Inr NoData))
      | _ \<Rightarrow> Inr NoData)"

section \<open>The request mapper\<close>

text \<open>
  A handler is the mapper's own index of handlers, or one of the application (\<open>'h\<close>). The two tables
  are nested \<open>defaultdict\<close>s: reading a missing entry inserts \<open>None\<close>.
\<close>

datatype 'h handle = Index_Handler | App_Handler 'h

type_synonym 'v table = "(string, (string, 'v option) dict) dict"

record 'h mapper =
  hm_requests :: "'h handle table"
  hm_handle_data :: "(string, string) dict table"

definition table_row :: "'v table \<Rightarrow> string \<Rightarrow> (string, 'v option) dict" where
  "table_row t k = (case dict_get t k of None \<Rightarrow> [] | Some row \<Rightarrow> row)"

definition table_read :: "string \<Rightarrow> string \<Rightarrow> 'v table \<Rightarrow> 'v option \<times> 'v table" where
  "table_read k path t =
     (case dict_get (table_row t k) path of
        None \<Rightarrow> (None, dict_set k (dict_set path None (table_row t k)) t)
      | Some v \<Rightarrow> (v, dict_set k (table_row t k) t))"

definition table_write :: "string \<Rightarrow> string \<Rightarrow> 'v \<Rightarrow> 'v table \<Rightarrow> 'v table" where
  "table_write k path v t = dict_set k (dict_set path (Some v) (table_row t k)) t"

definition get_handle :: "string \<Rightarrow> string \<Rightarrow>
    ('h mapper, 'h handle option \<times> (string, string) dict option) py" where
  "get_handle request_type path =
     bindp (gets (\<lambda>m. table_read request_type path (hm_requests m))) (\<lambda>(h, reqs).
     bindp (modify (\<lambda>m. m\<lparr>hm_requests := reqs\<rparr>)) (\<lambda>_.
     bindp (gets (\<lambda>m. table_read request_type path (hm_handle_data m))) (\<lambda>(hd_opt, datas).
     bindp (modify (\<lambda>m. m\<lparr>hm_handle_data := datas\<rparr>)) (\<lambda>_. ret (h, hd_opt)))))"

definition add_handler :: "string \<Rightarrow> string \<Rightarrow> 'h handle \<Rightarrow> string \<Rightarrow> (string, string) dict option \<Rightarrow>
    string \<Rightarrow> string \<Rightarrow> ('h mapper, unit) py" where
  "add_handler request_type path handle description data response_type charset =
     (let path' = CHR ''/'' # str_lower path;
          handle_data = [(''Description'', description),
                         (''Content-Type'', response_type @ ''; charset='' @ charset)];
          handle_data' = (case data of None \<Rightarrow> handle_data | Some d \<Rightarrow> dict_update handle_data d)
      in bindp (modify (\<lambda>m. m\<lparr>hm_requests := table_write request_type path' handle (hm_requests m)\<rparr>)) (\<lambda>_.
         modify (\<lambda>m. m\<lparr>hm_handle_data := table_write request_type path' handle_data' (hm_handle_data m)\<rparr>)))"

definition new_mapper :: "'h mapper" where
  "new_mapper = snd (add_handler ''GET'' '''' Index_Handler ''request index'' None
     ''application/json'' ''utf-8'' \<lparr>hm_requests = [], hm_handle_data = []\<rparr>)"

text \<open>The index: every request type with every path known to it, described where it has data.\<close>

definition index_path :: "string \<Rightarrow> string \<Rightarrow> ('h mapper, pyval) py" where
  "index_path meth path =
     bindp (gets (\<lambda>m. table_read meth path (hm_handle_data m))) (\<lambda>(handle_inst, datas).
     bindp (modify (\<lambda>m. m\<lparr>hm_handle_data := datas\<rparr>)) (\<lambda>_.
     case handle_inst of
       None \<Rightarrow> ret (VDict [(''path'', VStr path)])
     | Some d \<Rightarrow> (case dict_item d ''Description'' of
         Inl err \<Rightarrow> raise err
       | Inr s \<Rightarrow> ret (VDict [(''path'', VStr path), (''description'', VStr s)]))))"

definition index_handles :: "('h mapper, pyval) py" where
  "index_handles =
     bindp (gets hm_requests) (\<lambda>reqs.
     bindp (map_each (\<lambda>(meth, handlers). bindp (map_each (index_path meth) (dict_keys handlers))
              (\<lambda>ps. ret (meth, VList ps))) reqs) (\<lambda>kvs. ret (VDict kvs)))"

definition index_handler :: "(pyfloat \<Rightarrow> string) \<Rightarrow> ('h mapper, bool \<times> string) py" where
  "index_handler fr = bindp index_handles (\<lambda>handles. ret (True, dumps fr (Some 2) handles))"

section \<open>Responses\<close>

text \<open>
  What is sent back: an error (status and message) after which the connection is closed, or a
  status line with header fields and the bytes of the body.
\<close>

datatype response =
    Error_Response nat string
  | Response nat "(string \<times> string) list" "byte list"

definition utf8_char :: "char \<Rightarrow> byte list" where
  "utf8_char c =
     (let n = (of_char c :: nat)
      in if n < 128 then [of_nat n] else [of_nat (192 + n div 64), of_nat (128 + n mod 64)])"

definition utf8_encode :: "string \<Rightarrow> byte list" where
  "utf8_encode s = concat (map utf8_char s)"



text \<open>
  The handling of a request once its target has been split into path and query: \<open>call\<close> runs a
  handler of the application, which may change the application's own state \<open>'a\<close>.
\<close>

definition run_handle :: "(pyfloat \<Rightarrow> string) \<Rightarrow> ('h \<Rightarrow> 'q \<Rightarrow> ('a, bool \<times> string) py) \<Rightarrow> 'h handle \<Rightarrow> 'q \<Rightarrow>
    ('h mapper \<times> 'a, bool \<times> string) py" where
  "run_handle fr call h data =
     (case h of
        Index_Handler \<Rightarrow> zoom fst (\<lambda>m s. (m, snd s)) (index_handler fr)
      | App_Handler x \<Rightarrow> zoom snd (\<lambda>a s. (fst s, a)) (call x data))"

definition handle_request :: "(pyfloat \<Rightarrow> string) \<Rightarrow> ('h \<Rightarrow> 'q \<Rightarrow> ('a, bool \<times> string) py) \<Rightarrow>
    string \<Rightarrow> string \<Rightarrow> 'q \<Rightarrow> ('h mapper \<times> 'a, response) py" where
  "handle_request fr call command path data =
     (let headers_only = (command = ''HEAD'');
          command' = (if headers_only then ''GET'' else command)
      in bindp (zoom fst (\<lambda>m s. (m, snd s)) (get_handle command' path)) (\<lambda>(handle, handle_data).
         case handle of
           None \<Rightarrow> ret (Error_Response 404
             (''no request-mapper for '' @ [CHR 0x27] @ command' @ [CHR 0x27] @ '' path '' @ [CHR 0x27] @
              path @ [CHR 0x27]))
         | Some h \<Rightarrow>
             bindp (run_handle fr call h data) (\<lambda>(success, content).
             if \<not> success then ret (Error_Response 400 content)
             else ret (Response 200
               ((case handle_data of None \<Rightarrow> [] | Some d \<Rightarrow> d) @
                [(''Content-Length'', int_str (int (length content)))])
               (if headers_only then [] else utf8_encode content)))))"

section \<open>Tables\<close>

lemma table_read_write [simp]:
  "table_read k p (table_write k p v t) = (Some v, table_write k p v t)"
  by (simp add: table_read_def table_write_def table_row_def update_Some_unfold)

lemma table_row_write:
  "table_row (table_write k p v t) k' = (if k' = k then dict_set p (Some v) (table_row t k) else table_row t k')"
  by (simp add: table_row_def table_write_def)

lemma table_read_value: "fst (table_read k p t) = (case dict_get (table_row t k) p of None \<Rightarrow> None | Some v \<Rightarrow> v)"
  by (simp add: table_read_def split: option.split)

lemma table_read_other:
  "k' \<noteq> k \<or> p' \<noteq> p \<Longrightarrow> fst (table_read k' p' (table_write k p v t)) = fst (table_read k' p' t)"
  by (auto simp: table_read_value table_row_write)

lemma table_read_stable:
  "fst (table_read k' p' (snd (table_read k p t))) = fst (table_read k' p' t)"
  by (auto simp: table_read_def table_row_def split: option.split)

section \<open>Form data from end to end\<close>

text \<open>The body a client sends for a list of named values (each a list of lines).\<close>

definition disposition :: "string \<Rightarrow> string" where
  "disposition name = ''Content-Disposition: form-data; name='' @ CHR 0x22 # name @ [CHR 0x22]"

definition form_piece :: "string \<times> string list \<Rightarrow> string" where
  "form_piece f = CRLF @ py_join CRLF (disposition (fst f) # [] # snd f) @ CRLF"

definition form_text :: "string \<Rightarrow> (string \<times> string list) list \<Rightarrow> string" where
  "form_text boundary fs =
     concat (map (\<lambda>f. ''--'' @ boundary @ form_piece f) fs) @ ''--'' @ boundary @ ''--'' @ CRLF"

definition name_ok :: "string \<Rightarrow> bool" where
  "name_ok name \<longleftrightarrow> set name \<inter> {CHR '';'', CHR '':'', CHR ''='', CHR 0x0D} = {}"

definition boundary_ok :: "string \<Rightarrow> bool" where
  "boundary_ok b \<longleftrightarrow> b \<noteq> [] \<and> stripped b \<and> set b \<inter> {CHR '';'', CHR ''='', CHR 0x0D} = {}"

definition field_ok :: "string \<Rightarrow> string \<times> string list \<Rightarrow> bool" where
  "field_ok b f \<longleftrightarrow> name_ok (fst f) \<and> snd f \<noteq> [] \<and> list_all (\<lambda>l. CHR 0x0D \<notin> set l) (snd f) \<and>
     free_of (''--'' @ b) (form_piece f)"

definition field_part :: "string \<times> string list \<Rightarrow> part" where
  "field_part f =
     \<lparr>pt_headers = [(''content-disposition'', HDisposition [(''type'', ''form-data''), (''name'', fst f)])],
      pt_body = snd f @ [[]]\<rparr>"

lemma form_text_join:
  "form_text b fs = py_join (''--'' @ b) ([] # map form_piece fs @ [''--'' @ CRLF])"
proof (induction fs)
  case (Cons f fs)
  have "py_join (''--'' @ b) ([] # map form_piece (f # fs) @ [''--'' @ CRLF]) =
      (''--'' @ b) @ form_piece f @ py_join (''--'' @ b) ([] # map form_piece fs @ [''--'' @ CRLF])"
    by (simp add: py_join_Cons)
  with Cons show ?case by (simp add: form_text_def)
qed (simp add: form_text_def)

lemma closing_free: "boundary_ok b \<Longrightarrow> free_of (''--'' @ b) (''--'' @ CRLF)"
  by (cases b) (auto simp: boundary_ok_def CRLF_def)

lemma split_form_text:
  assumes "boundary_ok b" and "\<forall>f \<in> set fs. field_ok b f"
  shows "py_split (''--'' @ b) (form_text b fs) = [] # map form_piece fs @ [''--'' @ CRLF]"
  unfolding form_text_join
  using assms closing_free [OF assms(1)] by (intro split_join) (auto simp: field_ok_def)

lemma disposition_free: "name_ok n \<Longrightarrow> free_of CRLF (disposition n)"
  unfolding CRLF_def by (rule free_of_head) (auto simp: disposition_def name_ok_def)

lemma split_form_piece:
  assumes "field_ok b f"
  shows "py_split CRLF (form_piece f) = [] # disposition (fst f) # [] # snd f @ [[]]"
proof -
  have "form_piece f = py_join CRLF ([] # disposition (fst f) # [] # snd f @ [[]])"
    using assms by (simp add: form_piece_def field_ok_def py_join_Cons py_join_append)
  moreover have "\<forall>l \<in> set (snd f). free_of CRLF l"
    using assms unfolding CRLF_def by (auto simp: field_ok_def list_all_iff intro: free_of_head)
  moreover have "py_split CRLF (py_join CRLF ([] # disposition (fst f) # [] # snd f @ [[]])) =
      [] # disposition (fst f) # [] # snd f @ [[]]"
    using calculation(2) assms disposition_free [of "fst f"]
    by (intro split_join) (auto simp: field_ok_def CRLF_def)
  ultimately show ?thesis by simp
qed

lemma split_closing: "py_split CRLF (''--'' @ CRLF) = [''--'', []]"
  by (simp add: py_split_def CRLF_def)

lemma parse_disposition:
  assumes "name_ok n"
  shows "parse_content_disposition (''form-data; name='' @ CHR 0x22 # n @ [CHR 0x22]) =
    [(''type'', ''form-data''), (''name'', n)]"
proof -
  let ?v = "CHR 0x22 # n @ [CHR 0x22]"
  have semi: "CHR '';'' \<notin> set ('' name='' @ ?v)" and eq: "CHR ''='' \<notin> set ?v"
    using assms by (auto simp: name_ok_def)
  have "py_split '';'' (''form-data'' @ CHR '';'' # '' name='' @ ?v) = [''form-data'', '' name='' @ ?v]"
    using semi by (subst split_char_through) (simp_all add: split_char_end)
  then have items: "py_split '';'' (''form-data; name='' @ ?v) = [''form-data'', '' name='' @ ?v]"
    by simp
  have "py_split ''='' (''name'' @ CHR ''='' # ?v) = [''name'', ?v]"
    using eq by (subst split_char_through) (simp_all add: split_char_end)
  then have param: "py_split ''='' (''name='' @ ?v) = [''name'', ?v]" by simp
  have str: "stripped ''form-data''" "stripped (''name='' @ ?v)" "stripped ?v" "stripped ''name''"
    by (simp_all add: stripped_def is_space_def)
  have "py_strip ('' name='' @ ?v) = ''name='' @ ?v" using str(2) by simp
  moreover have "dequote ?v = n" by (simp add: dequote_def)
  moreover have "str_lower ''name'' = ''name''" by (simp add: str_lower_def char_lower_def is_upper_def)
  ultimately show ?thesis
    using items param str by (simp add: parse_content_disposition_def disposition_param_def Let_def)
qed

lemma parse_disposition_header:
  assumes "name_ok n"
  shows "parse_header [] (disposition n) =
    [(''content-disposition'', HDisposition [(''type'', ''form-data''), (''name'', n)])]"
proof -
  let ?v = "''form-data; name='' @ CHR 0x22 # n @ [CHR 0x22]"
  have "CHR '':'' \<notin> set ('' '' @ ?v)" using assms by (auto simp: name_ok_def)
  then have "py_split '':'' (''Content-Disposition'' @ CHR '':'' # '' '' @ ?v) = [''Content-Disposition'', '' '' @ ?v]"
    by (subst split_char_through) (simp_all add: split_char_end)
  then have nb: "py_split '':'' (disposition n) = [''Content-Disposition'', '' '' @ ?v]"
    by (simp add: disposition_def)
  have str: "stripped ?v" "stripped ''Content-Disposition''" by (simp_all add: stripped_def is_space_def)
  have "py_strip ('' '' @ ?v) = ?v" using str(1) by simp
  moreover have "str_lower ''Content-Disposition'' = ''content-disposition''"
    by code_simp
  ultimately show ?thesis
    using nb str parse_disposition [OF assms] by (simp add: parse_header_def Let_def)
qed

lemma parse_field_lines:
  assumes "name_ok n" and "ls \<noteq> []"
  shows "parse_request_lines (disposition n # [] # ls @ [[]]) = field_part (n, ls)"
  using assms parse_disposition_header [OF assms(1)]
  by (simp add: parse_request_lines_def field_part_def disposition_def)

lemma parse_form_text:
  assumes "boundary_ok b" and "\<forall>f \<in> set fs. field_ok b f"
  shows "parse_multipart_data b (form_text b fs) = map field_part fs @ [\<lparr>pt_headers = [], pt_body = []\<rparr>]"
proof -
  have "parse_request_lines (tl (py_split CRLF (form_piece f))) = field_part f" if "f \<in> set fs" for f
    using that assms(2) parse_field_lines [of "fst f" "snd f"] split_form_piece [of b f]
    by (simp add: field_ok_def)
  moreover have "py_split CRLF (form_piece f) \<noteq> [] \<and> hd (py_split CRLF (form_piece f)) = []"
    if "f \<in> set fs" for f
    using that assms(2) split_form_piece [of b f] by simp
  ultimately show ?thesis
    using split_form_text [OF assms] split_closing
    by (simp add: parse_multipart_data_def parse_request_lines_def o_def)
qed

lemma parse_form_type:
  assumes "boundary_ok b"
  shows "parse_content_type (''multipart/form-data; boundary='' @ b) =
    Some \<lparr>ct_type = ''multipart'', ct_subtype = ''form-data'', ct_params = [''boundary='' @ b]\<rparr>"
proof -
  have "py_split '';'' (''multipart/form-data'' @ CHR '';'' # '' boundary='' @ b) =
      [''multipart/form-data'', '' boundary='' @ b]"
    using assms by (subst split_char_through) (auto simp: split_char_end boundary_ok_def)
  then have params: "py_split '';'' (''multipart/form-data; boundary='' @ b) =
      [''multipart/form-data'', '' boundary='' @ b]" by simp
  have "stripped (''boundary='' @ b)" and s: "stripped ''multipart/form-data''" "stripped ''multipart''" "stripped ''form-data''"
    using assms by (auto simp: boundary_ok_def stripped_def is_space_def)
  then have b: "py_strip ('' boundary='' @ b) = ''boundary='' @ b" by simp
  have "py_split ''/'' ''multipart/form-data'' = [''multipart'', ''form-data'']"
    by (simp add: py_split_def)
  with params b s show ?thesis by (simp add: parse_content_type_def Let_def)
qed

lemma form_boundary:
  assumes "boundary_ok b" and "ct_params ct = [''boundary='' @ b]"
  shows "get_multipart_boundary ct = Some b"
proof -
  have "py_split ''='' (''boundary'' @ CHR ''='' # b) = [''boundary'', b]"
    using assms by (subst split_char_through) (auto simp: split_char_end boundary_ok_def)
  with assms(2) show ?thesis by (simp add: get_multipart_boundary_def)
qed

text \<open>
  Property C13: form data that a client encodes as multipart text, with a boundary that occurs in none
  of its fields, is parsed to exactly the fields that were sent, in order, each under its name and
  with its lines (followed by one empty line, which the line break before the delimiter leaves).
\<close>

theorem form_roundtrip:
  assumes "boundary_ok b" and "\<forall>f \<in> set fs. field_ok b f"
    and "rq_read rq (int (length (form_text b fs))) = Inr (form_text b fs)"
    and "rq_command rq = ''POST''"
    and "rq_content_length rq = Some (int_str (int (length (form_text b fs))))"
    and "rq_content_type rq = Some (''multipart/form-data; boundary='' @ b)"
  shows "get_post_request_data parse_qs rq = Inr (Parts (map field_part fs))"
proof -
  let ?ct = "\<lparr>ct_type = ''multipart'', ct_subtype = ''form-data'', ct_params = [''boundary='' @ b]\<rparr>"
  have bd: "get_multipart_boundary ?ct = Some b" by (rule form_boundary [OF assms(1)]) simp
  have "filter (\<lambda>p. dict_get (pt_headers p) ''content-disposition'' \<noteq> None) (map field_part fs) = map field_part fs"
    by (rule filter_True) (auto simp: field_part_def)
  then have "form_parser (form_text b fs) ?ct = map field_part fs"
    using bd parse_form_text [OF assms(1,2)] by (simp add: form_parser_def)
  with assms bd parse_form_type [OF assms(1)] show ?thesis
    by (simp add: get_post_request_data_def py_int_int_str)
qed

theorem form_roundtrip_witness:
  "get_post_request_data (\<lambda>_. Inl ValueError)
     \<lparr>rq_command = ''POST'', rq_content_length = Some (int_str (int (length (form_text ''XyZ'' [(''user'', [''a-b'', ''c''])])))),
      rq_content_type = Some (''multipart/form-data; boundary='' @ ''XyZ''),
      rq_read = (\<lambda>_. Inr (form_text ''XyZ'' [(''user'', [''a-b'', ''c''])]))\<rparr> =
   Inr (Parts (map field_part [(''user'', [''a-b'', ''c''])]))"
  by (rule form_roundtrip)
    (simp_all add: boundary_ok_def field_ok_def name_ok_def stripped_def is_space_def form_piece_def
      disposition_def CRLF_def)

section \<open>Responses\<close>

lemma length_utf8_char: "length (utf8_char c) = (if (of_char c :: nat) < 128 then 1 else 2)"
  by (simp add: utf8_char_def Let_def)

lemma length_utf8_ge: "length s \<le> length (utf8_encode s)"
  by (induction s) (simp_all add: utf8_encode_def length_utf8_char)

lemma length_utf8_ascii: "length (utf8_encode s) = length s \<longleftrightarrow> ascii s"
proof (induction s)
  case (Cons c s)
  then show ?case
    using length_utf8_ge [of s] by (auto simp: utf8_encode_def length_utf8_char)
qed (simp add: utf8_encode_def)

lemma get_handle_run:
  "get_handle ty p m = (Inr (fst (table_read ty p (hm_requests m)), fst (table_read ty p (hm_handle_data m))),
     m\<lparr>hm_requests := snd (table_read ty p (hm_requests m)), hm_handle_data := snd (table_read ty p (hm_handle_data m))\<rparr>)"
  by (simp add: get_handle_def split: prod.split)

text \<open>
  Property C16: a handler is called exactly for the requests to the path it was registered under, in
  lower case and behind a slash: its answer is sent with the header fields of the registration and
  its length, which is the number of bytes sent exactly when the answer is ASCII; a request without
  body (HEAD) gets the same fields; a failure is answered with the handler's message.
\<close>

theorem registered_handler_answers:
  assumes "add_handler ''GET'' path (App_Handler h) descr None rtype charset m = (Inr (), m1)"
    and "call h data a = (Inr (ok, content), a')"
  shows "\<exists>m2. handle_request fr call ''GET'' (CHR ''/'' # str_lower path) data (m1, a) =
      (Inr (if ok then Response 200 [(''Description'', descr), (''Content-Type'', rtype @ ''; charset='' @ charset),
              (''Content-Length'', int_str (int (length content)))] (utf8_encode content)
            else Error_Response 400 content), (m2, a')) \<and>
    handle_request fr call ''HEAD'' (CHR ''/'' # str_lower path) data (m1, a) =
      (Inr (if ok then Response 200 [(''Description'', descr), (''Content-Type'', rtype @ ''; charset='' @ charset),
              (''Content-Length'', int_str (int (length content)))] []
            else Error_Response 400 content), (m2, a')) \<and>
    (length (utf8_encode content) = length content \<longleftrightarrow> ascii content)"
proof -
  let ?p = "CHR ''/'' # str_lower path"
  have m1: "m1 = m\<lparr>hm_requests := table_write ''GET'' ?p (App_Handler h) (hm_requests m),
      hm_handle_data := table_write ''GET'' ?p [(''Description'', descr),
        (''Content-Type'', rtype @ ''; charset='' @ charset)] (hm_handle_data m)\<rparr>"
    using assms(1) by (simp add: add_handler_def Let_def)
  have "get_handle ''GET'' ?p m1 = (Inr (Some (App_Handler h), Some [(''Description'', descr),
      (''Content-Type'', rtype @ ''; charset='' @ charset)]), m1)"
    by (simp add: m1 get_handle_run)
  with assms(2) show ?thesis
    by (intro exI [of _ m1]) (simp add: handle_request_def Let_def run_handle_def bindp_def zoom_def length_utf8_ascii)
qed

theorem registered_handler_answers_witness:
  "\<exists>m2. handle_request (\<lambda>_. ''0.0'') (\<lambda>h q a. (Inr (True, h), a)) ''GET'' (CHR ''/'' # str_lower ''ID'') ()
      (snd (add_handler ''GET'' ''ID'' (App_Handler ''42'') ''id'' None ''text/plain'' ''utf-8'' new_mapper), ()) =
      (Inr (if True then Response 200 [(''Description'', ''id''), (''Content-Type'', ''text/plain'' @ ''; charset='' @ ''utf-8''),
              (''Content-Length'', int_str (int (length ''42'')))] (utf8_encode ''42'')
            else Error_Response 400 ''42''), (m2, ()))"
proof -
  have "add_handler ''GET'' ''ID'' (App_Handler ''42'') ''id'' None ''text/plain'' ''utf-8'' new_mapper =
      (Inr (), snd (add_handler ''GET'' ''ID'' (App_Handler ''42'') ''id'' None ''text/plain'' ''utf-8'' new_mapper))"
    by (simp add: add_handler_def Let_def)
  from registered_handler_answers [OF this, of "\<lambda>h q a. (Inr (True, h), a)" "()" "()" True "''42''" "()" "\<lambda>_. ''0.0''"]
  show ?thesis by blast
qed

text \<open>A request for a path nobody serves is answered 404, and adds the path to the mapper's index.\<close>

lemma unknown_path_listed:
  assumes "dict_get (table_row (hm_requests m) ''GET'') path = None"
  shows "\<exists>msg m'. handle_request fr call ''GET'' path data (m, a) = (Inr (Error_Response 404 msg), (m', a)) \<and>
    path \<in> set (dict_keys (table_row (hm_requests m') ''GET''))"
  using assms
  by (simp add: handle_request_def Let_def get_handle_run table_read_def table_row_def bindp_def zoom_def dict_set_key
      split: option.split)

lemma index_length_exact:
  assumes "\<And>x. ascii (fr x)" and "index_handler fr m = (Inr (ok, content), m')"
  shows "length (utf8_encode content) = length content"
  using assms
  by (auto simp: index_handler_def length_utf8_ascii ascii_dumps elim!: bindp_InrE)

end
