(* ===== verification/Telemetry_Server.thy ===== *)
theory Telemetry_Server
  imports Udp_Clients Synchronous Http_Request
begin

text \<open>
  The server that runs a telemetered application: the HTTP daemon (\<open>vtelem/daemon/http.py\<close>) and, on top of it,
  \<open>TelemetryServer\<close> (\<open>vtelem/telemetry/server.py\<close>) with its daemon manager, time keeper and UDP clients.
  The sockets of the operating system and what the threads of the daemons do are parameters. The
  time keeper and the stream writer are daemons of the manager: there is one copy of their daemon part,
  in the manager.
\<close>

section \<open>The HTTP daemon\<close>

record 'h http_daemon =
  ht_daemon :: daemon
  ht_mapper :: "'h mapper"
  ht_address :: "string \<times> int"
  ht_tls :: bool
  ht_closed :: bool
  ht_listening :: bool

abbreviation in_http :: "(daemon, 'a) py \<Rightarrow> ('h http_daemon, 'a) py" where
  "in_http m \<equiv> zoom ht_daemon (\<lambda>d h. h\<lparr>ht_daemon := d\<rparr>) m"

definition default_host :: "string \<times> int" where
  "default_host = (''0.0.0.0'', 0)"

text \<open>Listening gives the address that was bound.\<close>

definition new_http :: "(string \<times> int \<Rightarrow> py_error + string \<times> int) \<Rightarrow> string \<Rightarrow> (string \<times> int) option \<Rightarrow> telemetry_env option \<Rightarrow>
    py_error + 'h http_daemon" where
  "new_http listen name address env =
     (case new_daemon name env of
        Inl err \<Rightarrow> Inl err
      | Inr d \<Rightarrow>
          (case listen (case address of None \<Rightarrow> default_host | Some a \<Rightarrow> a) of
             Inl err \<Rightarrow> Inl err
           | Inr bound \<Rightarrow> Inr \<lparr>ht_daemon = d, ht_mapper = new_mapper, ht_address = bound, ht_tls = False, ht_closed = False,
                              ht_listening = True\<rparr>))"

definition ht_with_lock :: "('h http_daemon, 'a) py \<Rightarrow> ('h http_daemon, 'a) py" where
  "ht_with_lock body =
     bindp (in_http (modify (\<lambda>d. d\<lparr>d_lock := d_lock d + 1\<rparr>))) (\<lambda>_.
     bindp body (\<lambda>r.
     bindp (in_http (modify (\<lambda>d. d\<lparr>d_lock := d_lock d - 1\<rparr>))) (\<lambda>_. ret r)))"

definition use_tls :: "py_error + unit \<Rightarrow> ('h http_daemon, unit) py" where
  "use_tls load_cert_chain =
     ht_with_lock (bindp (gets (\<lambda>h. get_state (ht_daemon h))) (\<lambda>state.
       bindp (assertp (state = IDLE)) (\<lambda>_.
       bindp (modify (\<lambda>h. h\<lparr>ht_tls := True\<rparr>)) (\<lambda>_. lift_res load_cert_chain))))"

definition get_base_url :: "'h http_daemon \<Rightarrow> string" where
  "get_base_url h = (if ht_tls h then ''https'' else ''http'') @ ''://'' @ fst (ht_address h) @ '':'' @ int_str (snd (ht_address h)) @ ''/''"

definition http_add_handler :: "string \<Rightarrow> string \<Rightarrow> 'h handle \<Rightarrow> string \<Rightarrow> (string, string) dict option \<Rightarrow> string \<Rightarrow> ('h http_daemon, unit) py" where
  "http_add_handler request_type path handle description data response_type =
     zoom ht_mapper (\<lambda>m h. h\<lparr>ht_mapper := m\<rparr>) (add_handler request_type path handle description data response_type ''utf-8'')"

definition http_close :: "('h http_daemon, bool) py" where
  "http_close =
     bindp (ht_with_lock (bindp (gets (\<lambda>h. get_state (ht_daemon h) \<noteq> IDLE \<or> ht_closed h)) (\<lambda>refused.
       if refused then ret False
       else bindp (modify (\<lambda>h. h\<lparr>ht_closed := True\<rparr>)) (\<lambda>_. ret True)))) (\<lambda>ok.
     bindp (if ok then modify (\<lambda>h. h\<lparr>ht_listening := False\<rparr>) else ret ()) (\<lambda>_. ret ok))"

definition http_serve :: "(daemon, unit) py option \<Rightarrow> (daemon, unit) py \<Rightarrow> (daemon, int) py \<Rightarrow> ('h http_daemon, int) py" where
  "http_serve inject wait main_thread =
     bindp (in_http (serve inject wait main_thread)) (\<lambda>result.
     bindp http_close (\<lambda>ok. bindp (assertp ok) (\<lambda>_. ret result)))"

text \<open>
  What the thread does: on the first start of a server it registers its address as a service, then
  it serves requests, over TLS when there is a certificate.
\<close>

definition http_run :: "bool option \<Rightarrow> (bool \<Rightarrow> ('h http_daemon \<times> (string \<times> int) list registry, unit) py) \<Rightarrow>
    ('h http_daemon \<times> (string \<times> int) list registry, unit) py" where
  "http_run first_start serve_forever =
     bindp (gets fst) (\<lambda>h.
     if ht_closed h then ret ()
     else
       bindp (if first_start = Some True
              then zoom snd (\<lambda>r s. (fst s, r)) (bindp (reg_add (d_name (ht_daemon h)) [ht_address h]) (\<lambda>_. ret ()))
              else ret ()) (\<lambda>_.
       serve_forever (ht_tls h)))"

section \<open>The server\<close>

record service =
  srv_name :: string
  srv_host :: "(string \<times> int) option"
  srv_enabled :: bool

record services =
  svc_http :: service
  svc_websocket_cmd :: service
  svc_websocket_tlm :: service
  svc_tcp_tlm :: service
  svc_udp :: "host list option"

definition plain_service :: "string \<Rightarrow> service" where
  "plain_service name = \<lparr>srv_name = name, srv_host = None, srv_enabled = True\<rparr>"

definition default_services :: "(string, service) dict \<Rightarrow> services" where
  "default_services kwargs =
     (let pick = (\<lambda>k. case dict_get kwargs k of None \<Rightarrow> plain_service k | Some s \<Rightarrow> s)
      in \<lparr>svc_http = pick ''http'', svc_websocket_cmd = pick ''websocket_command'', svc_websocket_tlm = pick ''websocket_telemetry'',
          svc_tcp_tlm = pick ''tcp_telemetry'', svc_udp = None\<rparr>)"

text \<open>
  The daemons that the constructor adds, in its order, each made by \<open>mk\<close>. The websocket command
  daemon is added also when it was not made.
\<close>

definition add_new :: "(string \<Rightarrow> py_error + daemon) \<Rightarrow> string \<Rightarrow> string list option \<Rightarrow> (manager, unit) py" where
  "add_new mk name depends_on =
     bindp (lift_res (mk name)) (\<lambda>d. bindp (add_daemon d depends_on) assertp)"

definition build_daemons :: "(string \<Rightarrow> py_error + daemon) \<Rightarrow> services \<Rightarrow> (manager, unit) py" where
  "build_daemons mk sv =
     bindp (add_new mk ''time'' None) (\<lambda>_.
     bindp (add_new mk ''telemetry'' None) (\<lambda>_.
     bindp (add_new mk ''stream'' None) (\<lambda>_.
     bindp (if srv_enabled (svc_websocket_tlm sv) then add_new mk (srv_name (svc_websocket_tlm sv)) None else ret ()) (\<lambda>_.
     bindp (if srv_enabled (svc_tcp_tlm sv) then add_new mk (srv_name (svc_tcp_tlm sv)) None else ret ()) (\<lambda>_.
     bindp (add_new mk ''command'' None) (\<lambda>_.
     if srv_enabled (svc_websocket_cmd sv) then add_new mk (srv_name (svc_websocket_cmd sv)) (Some [''stream''])
     else raise UnboundLocalError))))))"

record ('h, 's, 'c) server =
  sv_http :: "'h http_daemon"
  sv_http_enabled :: bool
  sv_daemons :: manager
  sv_keeper :: time_keeper
  sv_udp :: "('s, 'c) udp_manager"
  sv_first_start :: bool
  sv_sem :: nat

abbreviation in_daemons :: "(manager, 'a) py \<Rightarrow> (('h, 's, 'c) server, 'a) py" where
  "in_daemons m \<equiv> zoom sv_daemons (\<lambda>d s. s\<lparr>sv_daemons := d\<rparr>) m"

abbreviation in_self :: "('h http_daemon, 'a) py \<Rightarrow> (('h, 's, 'c) server, 'a) py" where
  "in_self m \<equiv> zoom sv_http (\<lambda>h s. s\<lparr>sv_http := h\<rparr>) m"

text \<open>The daemon part of an object that the manager also holds.\<close>

definition shared_daemon :: "string \<Rightarrow> daemon \<Rightarrow> manager \<Rightarrow> daemon" where
  "shared_daemon name d m = (case dict_get (mg_daemons m) name of Some (Some d') \<Rightarrow> d' | _ \<Rightarrow> d)"

definition put_shared :: "string \<Rightarrow> daemon \<Rightarrow> manager \<Rightarrow> manager" where
  "put_shared name d m =
     (case dict_get (mg_daemons m) name of Some (Some _) \<Rightarrow> m\<lparr>mg_daemons := dict_set name (Some d) (mg_daemons m)\<rparr> | _ \<Rightarrow> m)"

definition in_udp :: "(('s, 'c) udp_manager, 'a) py \<Rightarrow> (('h, 's, 'c) server, 'a) py" where
  "in_udp = zoom
     (\<lambda>s. let u = sv_udp s; w = um_writer u in u\<lparr>um_writer := w\<lparr>w_daemon := shared_daemon ''stream'' (w_daemon w) (sv_daemons s)\<rparr>\<rparr>)
     (\<lambda>u s. s\<lparr>sv_udp := u, sv_daemons := put_shared ''stream'' (w_daemon (um_writer u)) (sv_daemons s)\<rparr>)"

definition in_keeper :: "(time_keeper, 'a) py \<Rightarrow> (('h, 's, 'c) server, 'a) py" where
  "in_keeper = zoom
     (\<lambda>s. let k = sv_keeper s; y = tk_sync k in k\<lparr>tk_sync := y\<lparr>sd_daemon := shared_daemon ''time'' (sd_daemon y) (sv_daemons s)\<rparr>\<rparr>)
     (\<lambda>k s. s\<lparr>sv_keeper := k, sv_daemons := put_shared ''time'' (sd_daemon (tk_sync k)) (sv_daemons s)\<rparr>)"

text \<open>How the threads of the daemons react: the managed ones by name, and the server's own.\<close>

record reactions =
  rx_limit :: nat
  rx_inject :: injects
  rx_wait :: waits
  rx_self_inject :: "(daemon, unit) py option"
  rx_self_wait :: "(daemon, unit) py"

definition all_daemons :: "reactions \<Rightarrow> daemon_operation \<Rightarrow> (('h, 's, 'c) server, unit) py" where
  "all_daemons rx op = bindp (in_daemons (perform_all (rx_limit rx) (rx_inject rx) (rx_wait rx) op)) assertp"

definition self_perform :: "reactions \<Rightarrow> daemon_operation \<Rightarrow> (('h, 's, 'c) server, unit) py" where
  "self_perform rx op =
     bindp (gets sv_http_enabled) (\<lambda>enabled.
     if enabled then bindp (in_self (in_http (perform (rx_self_inject rx) (rx_self_wait rx) op))) assertp else ret ())"

definition sem_release :: "(('h, 's, 'c) server, unit) py" where
  "sem_release = modify (\<lambda>s. s\<lparr>sv_sem := sv_sem s + 1\<rparr>)"

definition sem_acquire :: "(('h, 's, 'c) server, unit) py" where
  "sem_acquire = bindp (gets sv_sem) (\<lambda>n. if n = 0 then raise Blocks else modify (\<lambda>s. s\<lparr>sv_sem := n - 1\<rparr>))"

text \<open>\<open>telemetry\<close> must be a daemon of the manager.\<close>

definition need_telemetry :: "(('h, 's, 'c) server, unit) py" where
  "need_telemetry = bindp (in_daemons (get_daemon ''telemetry'')) (\<lambda>telem. assertp (telem \<noteq> None))"

definition start_all :: "reactions \<Rightarrow> (('h, 's, 'c) server, unit) py" where
  "start_all rx =
     bindp need_telemetry (\<lambda>_.
     bindp (all_daemons rx OP_START) (\<lambda>_.
     bindp (self_perform rx OP_START) (\<lambda>_.
     bindp (modify (\<lambda>s. s\<lparr>sv_first_start := False\<rparr>)) (\<lambda>_. sem_release))))"

definition stop_all :: "reactions \<Rightarrow> 's sockets \<Rightarrow> (('h, 's, 'c) server, unit) py" where
  "stop_all rx os =
     bindp (all_daemons rx OP_STOP) (\<lambda>_.
     bindp (self_perform rx OP_STOP) (\<lambda>_.
     bindp (in_self http_close) (\<lambda>_.
     bindp (in_udp (um_remove_all os)) (\<lambda>_. sem_release))))"

definition scale_speed :: "reactions \<Rightarrow> pyfloat \<Rightarrow> (('h, 's, 'c) server, unit) py" where
  "scale_speed rx scalar =
     bindp (all_daemons rx OP_PAUSE) (\<lambda>_.
     bindp (in_keeper (scale scalar)) (\<lambda>_. all_daemons rx OP_UNPAUSE))"

text \<open>The context manager: whatever the body does, everything is stopped afterwards.\<close>

definition server_booted :: "reactions \<Rightarrow> reactions \<Rightarrow> 's sockets \<Rightarrow> (('h, 's, 'c) server, 'a) py \<Rightarrow> (('h, 's, 'c) server, 'a) py" where
  "server_booted rx rx' os body =
     finallyp (bindp (start_all rx) (\<lambda>_. bindp sem_acquire (\<lambda>_. body)))
       (bindp (stop_all rx' os) (\<lambda>_. sem_acquire))"

text \<open>
  Waiting for the semaphore: other threads release it some times meanwhile, or the wait is interrupted.
\<close>

datatype sem_wait = Releases nat | Interrupted

definition while_waiting :: "sem_wait \<Rightarrow> (('h, 's, 'c) server, unit) py" where
  "while_waiting w = (case w of Interrupted \<Rightarrow> raise KeyboardInterrupt | Releases k \<Rightarrow> modify (\<lambda>s. s\<lparr>sv_sem := sv_sem s + k\<rparr>))"

definition sem_acquire_timeout :: "bool \<Rightarrow> (('h, 's, 'c) server, bool) py" where
  "sem_acquire_timeout limited = bindp (gets sv_sem) (\<lambda>n.
     if n = 0 then (if limited then ret False else raise Blocks)
     else bindp (modify (\<lambda>s. s\<lparr>sv_sem := n - 1\<rparr>)) (\<lambda>_. ret True))"

definition await_shutdown :: "reactions \<Rightarrow> 's sockets \<Rightarrow> bool \<Rightarrow> sem_wait \<Rightarrow> sem_wait \<Rightarrow> (('h, 's, 'c) server, unit) py" where
  "await_shutdown rx os limited w1 w2 s =
     (case bindp (while_waiting w1) (\<lambda>_.
           bindp sem_acquire (\<lambda>_.
           bindp (while_waiting w2) (\<lambda>_.
           bindp (sem_acquire_timeout limited) (\<lambda>ok. if ok then ret () else stop_all rx os)))) s of
        (Inl KeyboardInterrupt, s') \<Rightarrow> stop_all rx os s'
      | r \<Rightarrow> r)"

text \<open>A new application: a synchronous daemon of the time keeper, started at once when the server already was.\<close>

definition register_application :: "reactions \<Rightarrow> string \<Rightarrow> pyfloat \<Rightarrow> telemetry_env option \<Rightarrow> (('h, 's, 'c) server, bool) py" where
  "register_application rx name rate env =
     bindp need_telemetry (\<lambda>_.
     bindp (in_keeper (bindp add_slave (\<lambda>_. gets tk_time))) (\<lambda>now.
     bindp (lift_res (new_sync name rate True env)) (\<lambda>y.
     bindp (in_daemons (add_daemon ((sd_daemon y)\<lparr>d_time := now\<rparr>) (Some [''telemetry'']))) (\<lambda>result.
     bindp (gets sv_first_start) (\<lambda>first.
     bindp (if first then ret ()
            else bindp (in_daemons (get_daemon name)) (\<lambda>app.
                 bindp (assertp (app \<noteq> None)) (\<lambda>_.
                 bindp (in_daemons (m_perform (rx_inject rx) (rx_wait rx) name OP_START)) assertp))) (\<lambda>_.
     ret result))))))"

section \<open>Operations of the server by the states of its daemons\<close>

abbreviation limited :: "reactions \<Rightarrow> nat \<Rightarrow> reactions" where
  "limited rx n \<equiv> rx\<lparr>rx_limit := n\<rparr>"

definition reactions_ok :: "reactions \<Rightarrow> bool" where
  "reactions_ok rx \<longleftrightarrow> (\<forall>k. stops (rx_inject rx k) (rx_wait rx k)) \<and> stops (rx_self_inject rx) (rx_self_wait rx)"

abbreviation http_state :: "('h, 's, 'c) server \<Rightarrow> daemon_state" where
  "http_state s \<equiv> d_state (ht_daemon (sv_http s))"

text \<open>The daemons on which an operation succeeds, and all daemons after it.\<close>

definition all_ok :: "daemon_operation \<Rightarrow> ('h, 's, 'c) server \<Rightarrow> bool" where
  "all_ok op s \<longleftrightarrow> (\<forall>(k, st) \<in> set (state_list (sv_daemons s)). op_ok op st)"

definition self_ok :: "daemon_operation \<Rightarrow> ('h, 's, 'c) server \<Rightarrow> bool" where
  "self_ok op s \<longleftrightarrow> (sv_http_enabled s \<longrightarrow> op_ok op (http_state s))"

definition states_after :: "daemon_operation \<Rightarrow> manager \<Rightarrow> (string, daemon_state) dict" where
  "states_after op m = map (\<lambda>(k, st). (k, op_state op st)) (state_list m)"

lemma all_daemons_run:
  assumes "manager_ok rank (sv_daemons s)" and "reactions_ok rx" and "op \<in> {OP_START, OP_STOP, OP_PAUSE, OP_UNPAUSE}"
  shows "\<exists>limit m'. (\<forall>n \<ge> limit. all_daemons (limited rx n) op s = (if all_ok op s then Inr () else Inl AssertionError, s\<lparr>sv_daemons := m'\<rparr>)) \<and>
    manager_ok rank m' \<and> state_list m' = states_after op (sv_daemons s)"
proof -
  have "\<forall>k. stops (rx_inject rx k) (rx_wait rx k)" using assms(2) by (simp add: reactions_ok_def)
  from perform_all_tidy [OF assms(1) _ assms(3), of "rx_inject rx" "rx_wait rx"] this obtain limit m' where
    m': "\<forall>n \<ge> limit. perform_all n (rx_inject rx) (rx_wait rx) op (sv_daemons s) = (Inr (all_ok op s), m')"
      "manager_ok rank m'" "state_list m' = states_after op (sv_daemons s)"
    unfolding all_ok_def states_after_def by blast
  then have "all_daemons (limited rx n) op s = (if all_ok op s then Inr () else Inl AssertionError, s\<lparr>sv_daemons := m'\<rparr>)"
    if "limit \<le> n" for n using that by (simp add: all_daemons_def zoom_def)
  with m'(2,3) show ?thesis by blast
qed

lemma self_perform_run:
  assumes "tidy (ht_daemon (sv_http s))" and "reactions_ok rx" and "op \<in> {OP_START, OP_STOP, OP_PAUSE, OP_UNPAUSE}"
  shows "\<exists>d. (\<forall>n. self_perform (limited rx n) op s = (if self_ok op s then Inr () else Inl AssertionError, s\<lparr>sv_http := (sv_http s)\<lparr>ht_daemon := d\<rparr>\<rparr>)) \<and>
    tidy d \<and> d_state d = (if sv_http_enabled s then op_state op (http_state s) else http_state s)"
proof (cases "sv_http_enabled s")
  case True
  have "stops (rx_self_inject rx) (rx_self_wait rx)" using assms(2) by (simp add: reactions_ok_def)
  with perform_tidy [OF assms(1) _ assms(3)] obtain d where
    "perform (rx_self_inject rx) (rx_self_wait rx) op (ht_daemon (sv_http s)) = (Inr (op_ok op (http_state s)), d)" "tidy d"
    "d_state d = op_state op (http_state s)" by blast
  with True show ?thesis by (intro exI [of _ d]) (simp add: self_perform_def self_ok_def zoom_def)
next
  case False
  with assms(1) show ?thesis by (intro exI [of _ "ht_daemon (sv_http s)"]) (simp add: self_perform_def self_ok_def)
qed

lemma http_close_run:
  "http_close h = (if d_state (ht_daemon h) = IDLE \<and> \<not> ht_closed h then (Inr True, h\<lparr>ht_closed := True, ht_listening := False\<rparr>) else (Inr False, h))"
  by (cases "d_state (ht_daemon h) = IDLE \<and> \<not> ht_closed h")
    (auto simp: http_close_def ht_with_lock_def zoom_def get_state_def bindp_def)

lemma http_close_result:
  "\<exists>h'. http_close h = (Inr (d_state (ht_daemon h) = IDLE \<and> \<not> ht_closed h), h') \<and> ht_daemon h' = ht_daemon h \<and>
    (d_state (ht_daemon h) = IDLE \<longrightarrow> ht_closed h')"
  by (cases "d_state (ht_daemon h) = IDLE \<and> \<not> ht_closed h") (auto simp: http_close_run)

text \<open>A server with its UDP clients, where the writer's daemon is the one of the manager.\<close>

abbreviation udp_view :: "('h, 's, 'c) server \<Rightarrow> ('s, 'c) udp_manager" where
  "udp_view s \<equiv> (sv_udp s)\<lparr>um_writer := (um_writer (sv_udp s))\<lparr>w_daemon := shared_daemon ''stream'' (w_daemon (um_writer (sv_udp s))) (sv_daemons s)\<rparr>\<rparr>"

definition server_ok :: "(string \<Rightarrow> nat) \<Rightarrow> nat \<Rightarrow> ('h, 's, 'c) server \<Rightarrow> bool" where
  "server_ok rank base s \<longleftrightarrow> manager_ok rank (sv_daemons s) \<and> tidy (ht_daemon (sv_http s)) \<and> um_good base (sv_udp s) \<and>
     {''telemetry'', ''stream''} \<subseteq> set (dict_keys (mg_daemons (sv_daemons s)))"

lemma managed_tidy:
  assumes "manager_ok rank m" and "k \<in> set (dict_keys (mg_daemons m))"
  obtains d where "dict_get (mg_daemons m) k = Some (Some d)" and "tidy d" and "(k, d_state d) \<in> set (state_list m)"
proof -
  obtain v where v: "dict_get (mg_daemons m) k = Some v" using assms(2) by (metis dict_get_None_iff option.exhaust)
  then have "(k, v) \<in> set (mg_daemons m)" by (rule map_of_SomeD)
  moreover from this assms(1) obtain d where "v = Some d" "tidy d" unfolding manager_ok_def by blast
  ultimately show thesis using v by (intro that [of d]) (force simp: state_list_def)+
qed

lemma udp_view_good:
  assumes "server_ok rank base s"
  shows "um_good base (udp_view s)"
proof -
  obtain d where "dict_get (mg_daemons (sv_daemons s)) ''stream'' = Some (Some d)" "tidy d"
    using managed_tidy [of rank "sv_daemons s" "''stream''"] assms unfolding server_ok_def by blast
  with assms show ?thesis by (auto simp: server_ok_def shared_daemon_def um_good_def tidy_def writer_inv_def)
qed

section \<open>Stopping\<close>

text \<open>A program that leaves a part of the state alone, also when it raises.\<close>

definition unchanged :: "('s \<Rightarrow> 'p) \<Rightarrow> ('s, 'a) py \<Rightarrow> bool" where
  "unchanged f m \<longleftrightarrow> (\<forall>s. f (snd (m s)) = f s)"

lemma unchanged_bind: "unchanged f m \<Longrightarrow> (\<And>a. unchanged f (k a)) \<Longrightarrow> unchanged f (bindp m k)"
  by (simp add: unchanged_def bindp_def split: prod.split sum.split) (metis snd_conv)

lemma unchanged_basic [simp]: "unchanged f (ret a)" "unchanged f (raise e)" "unchanged f (gets g)" "unchanged f (lift_res x)" "unchanged f (assertp b)"
  by (auto simp: unchanged_def lift_res_def assertp_def split: sum.split)

lemma unchanged_for_each: "(\<And>x. unchanged f (m x)) \<Longrightarrow> unchanged f (for_each m xs)"
  by (induction xs) (auto intro!: unchanged_bind)

lemma unchanged_modify: "(\<And>s. f (g s) = f s) \<Longrightarrow> unchanged f (modify g)"
  by (simp add: unchanged_def)

lemma unchanged_zoom: "unchanged g m \<Longrightarrow> (\<And>p s. f (put p s) = g p) \<Longrightarrow> (\<And>s. f s = g (get s)) \<Longrightarrow> unchanged f (zoom get put m)"
  by (auto simp: unchanged_def zoom_def split: prod.split) (metis snd_conv)

lemma decrement_state: "unchanged d_state (decrement_metric n v)"
proof -
  have "unchanged d_state (on_env m)" for m by (auto simp: unchanged_def on_env_def split: option.split prod.split)
  then show ?thesis
    unfolding decrement_metric_def update_metric_def d_with_lock_def set_env_metric_def
    by (auto intro!: unchanged_bind unchanged_modify simp: unchanged_def bindp_def gets_def lift_res_def split: sum.split prod.split option.split)
qed

lemma in_daemon_state: "unchanged d_state m \<Longrightarrow> unchanged (\<lambda>w. d_state (w_daemon w)) (in_daemon m)"
  by (rule unchanged_zoom) simp_all

lemma remove_stream_state: "unchanged (\<lambda>w. d_state (w_daemon w)) (remove_stream i b)"
  unfolding remove_stream_def w_with_lock_def call_back_def
  by (auto intro!: unchanged_bind in_daemon_state unchanged_modify decrement_state split: option.split)

lemma remove_all_state: "unchanged (\<lambda>u. d_state (w_daemon (um_writer u))) (um_remove_all os)"
proof -
  have "unchanged (\<lambda>u. d_state (w_daemon (um_writer u))) (in_writer (remove_stream i b))" for i b
    by (rule unchanged_zoom [OF remove_stream_state]) simp_all
  then show ?thesis
    unfolding um_remove_all_def um_remove_client_def um_closer_def close_client_def um_with_lock_def
    by (auto intro!: unchanged_bind unchanged_modify unchanged_for_each split: close_result.split)
qed

lemma map_update_same:
  "map_of ds k = Some v0 \<Longrightarrow> g v = g v0 \<Longrightarrow> map (\<lambda>(k, v). (k, g v)) (AList.update k v ds) = map (\<lambda>(k, v). (k, g v)) ds"
  by (induction ds) auto

lemma put_shared_ok:
  assumes "manager_ok rank m" and "dict_get (mg_daemons m) k = Some (Some d0)" and "d_state d = d_state d0" and "tidy d"
  shows "manager_ok rank (put_shared k d m)" and "state_list (put_shared k d m) = state_list m"
proof -
  let ?m = "put_shared k d m"
  have m: "mg_daemons ?m = dict_set k (Some d) (mg_daemons m)" "deps ?m = deps m"
    using assms(2) by (simp_all add: put_shared_def deps_def fun_eq_iff)
  have "k \<in> set (dict_keys (mg_daemons m))" using assms(2) by (metis dict_get_None_iff option.distinct(1))
  then have keys: "dict_keys (mg_daemons ?m) = dict_keys (mg_daemons m)" unfolding m(1) by (simp add: dict_keys_set)
  have "\<exists>d. v = Some d \<and> tidy d" if "(j, v) \<in> set (mg_daemons ?m)" for j v
  proof -
    from that consider "v = Some d" | "(j, v) \<in> set (mg_daemons m)" using dict_set_entries [of k "Some d" "mg_daemons m"] unfolding m(1) by blast
    then show ?thesis using assms(1,4) by cases (auto simp: manager_ok_def)
  qed
  then show "manager_ok rank ?m" using assms(1) keys m(2) dep_names_cong [OF m(2)] by (auto simp: manager_ok_def)
  show "state_list ?m = state_list m" unfolding state_list_def m(1)
    by (rule map_update_same [where g = "\<lambda>v. d_state (the v)", OF assms(2)]) (simp add: assms(3))
qed

lemma state_list_keys: "map fst (state_list m) = dict_keys (mg_daemons m)"
  by (simp add: state_list_def comp_def split_beta)

lemma states_after_keys: "map fst (states_after op m) = dict_keys (mg_daemons m)"
  unfolding state_list_keys [symmetric] states_after_def by (simp add: comp_def split_beta)

text \<open>Removing all clients of a server whose stream writer has stopped.\<close>

lemma remove_clients_run:
  assumes "server_ok rank base s" and "\<forall>(k, st) \<in> set (state_list (sv_daemons s)). st \<notin> {RUNNING, PAUSED}" and "\<forall>x. os_close os x \<noteq> CloseFails"
  shows "\<exists>u m. in_udp (um_remove_all os) s = (Inr (), s\<lparr>sv_udp := u, sv_daemons := m\<rparr>) \<and> um_good base u \<and> um_clients u = [] \<and>
    manager_ok rank m \<and> state_list m = state_list (sv_daemons s)"
proof -
  obtain u where u: "um_remove_all os (udp_view s) = (Inr (), u)" "um_good base u" "um_clients u = []"
    using um_remove_all_good [OF udp_view_good [OF assms(1)] assms(3)] by blast
  obtain d where d: "dict_get (mg_daemons (sv_daemons s)) ''stream'' = Some (Some d)" "(''stream'', d_state d) \<in> set (state_list (sv_daemons s))"
    using managed_tidy [of rank "sv_daemons s" "''stream''"] assms(1) unfolding server_ok_def by blast
  let ?d = "w_daemon (um_writer u)"
  have st: "d_state ?d = d_state d" using remove_all_state [of os] u(1) d(1) unfolding unchanged_def
    by (auto simp: shared_daemon_def dest!: spec [of _ "udp_view s"])
  then have "tidy ?d" using u(2) assms(2) d(2) by (auto simp: tidy_def um_good_def)
  from put_shared_ok [OF _ d(1) st this] assms(1)
  have "manager_ok rank (put_shared ''stream'' ?d (sv_daemons s))" "state_list (put_shared ''stream'' ?d (sv_daemons s)) = state_list (sv_daemons s)"
    by (auto simp: server_ok_def)
  then show ?thesis using u by (auto simp: in_udp_def zoom_def Let_def)
qed

lemma stopped_states:
  "all_ok OP_STOP s \<Longrightarrow> (k, st) \<in> set (states_after OP_STOP (sv_daemons s)) \<Longrightarrow> st \<in> {IDLE, STOPPING}"
  by (fastforce simp: all_ok_def states_after_def op_ok_def op_state_def split: daemon_state.splits)

text \<open>What a stopped server looks like, and what stays as it was when stopping it fails.\<close>

definition shut_down :: "nat \<Rightarrow> ('h, 's, 'c) server \<Rightarrow> bool" where
  "shut_down base s \<longleftrightarrow> (\<forall>(k, st) \<in> set (state_list (sv_daemons s)). st \<in> {IDLE, STOPPING}) \<and>
     (http_state s = IDLE \<longrightarrow> ht_closed (sv_http s)) \<and> um_clients (sv_udp s) = [] \<and>
     w_streams (um_writer (sv_udp s)) = [] \<and> set (um_closed (sv_udp s)) = {base..<um_next (sv_udp s)}"

definition resources :: "('h, 's, 'c) server \<Rightarrow> bool \<times> bool \<times> ('s, 'c) udp_manager \<times> nat" where
  "resources s = (ht_closed (sv_http s), ht_listening (sv_http s), sv_udp s, sv_sem s)"

lemma close_everything:
  assumes "server_ok rank base s" and "\<forall>(k, st) \<in> set (state_list (sv_daemons s)). st \<in> {IDLE, STOPPING}" and "\<forall>x. os_close os x \<noteq> CloseFails"
  shows "\<exists>s'. bindp (in_self http_close) (\<lambda>_. bindp (in_udp (um_remove_all os)) (\<lambda>_. sem_release)) s = (Inr (), s') \<and>
    server_ok rank base s' \<and> shut_down base s' \<and> sv_sem s' = sv_sem s + 1 \<and> state_list (sv_daemons s') = state_list (sv_daemons s)"
proof -
  obtain b h where h: "http_close (sv_http s) = (Inr b, h)" "ht_daemon h = ht_daemon (sv_http s)" "http_state s = IDLE \<longrightarrow> ht_closed h"
    using http_close_result [of "sv_http s"] by auto
  let ?s1 = "s\<lparr>sv_http := h\<rparr>"
  have ok1: "server_ok rank base ?s1" using assms(1) h(2) by (simp add: server_ok_def)
  have "\<forall>(k, st) \<in> set (state_list (sv_daemons ?s1)). st \<notin> {RUNNING, PAUSED}" using assms(2) by auto
  from remove_clients_run [OF ok1 this assms(3)] obtain u m where
    u: "in_udp (um_remove_all os) ?s1 = (Inr (), ?s1\<lparr>sv_udp := u, sv_daemons := m\<rparr>)" "um_good base u" "um_clients u = []"
      "manager_ok rank m" "state_list m = state_list (sv_daemons s)"
    by auto
  let ?s2 = "?s1\<lparr>sv_udp := u, sv_daemons := m, sv_sem := sv_sem s + 1\<rparr>"
  have "dict_keys (mg_daemons m) = dict_keys (mg_daemons (sv_daemons s))" using u(5) state_list_keys by metis
  then have "server_ok rank base ?s2" using ok1 u(2,4) by (simp add: server_ok_def)
  moreover have "shut_down base ?s2" using assms(2) u(2,3,5) h(2,3) by (auto simp: shut_down_def um_good_def accounted_def)
  ultimately show ?thesis using h(1) u(1,5) by (intro exI [of _ ?s2]) (simp add: zoom_def sem_release_def)
qed

lemma stop_all_run:
  assumes "server_ok rank base s" and "reactions_ok rx" and "\<forall>x. os_close os x \<noteq> CloseFails"
  shows "\<exists>limit s'. (\<forall>n \<ge> limit. stop_all (limited rx n) os s = (if all_ok OP_STOP s \<and> self_ok OP_STOP s then Inr () else Inl AssertionError, s')) \<and>
    server_ok rank base s' \<and> state_list (sv_daemons s') = states_after OP_STOP (sv_daemons s) \<and>
    (if all_ok OP_STOP s \<and> self_ok OP_STOP s then shut_down base s' \<and> sv_sem s' = sv_sem s + 1 else resources s' = resources s)"
proof -
  note ok = assms(1) [unfolded server_ok_def]
  obtain limit m where m: "\<forall>n \<ge> limit. all_daemons (limited rx n) OP_STOP s = (if all_ok OP_STOP s then Inr () else Inl AssertionError, s\<lparr>sv_daemons := m\<rparr>)"
      "manager_ok rank m" "state_list m = states_after OP_STOP (sv_daemons s)"
    using all_daemons_run [of rank s rx OP_STOP] ok assms(2) by blast
  have keys: "dict_keys (mg_daemons m) = dict_keys (mg_daemons (sv_daemons s))"
    using m(3) state_list_keys [of m] states_after_keys [of OP_STOP "sv_daemons s"] by simp
  let ?s1 = "s\<lparr>sv_daemons := m\<rparr>"
  show ?thesis
  proof (cases "all_ok OP_STOP s")
    case False
    then have "stop_all (limited rx n) os s = (Inl AssertionError, ?s1)" if "limit \<le> n" for n
      using m(1) that by (simp add: stop_all_def bindp_def)
    with False ok m(2,3) keys show ?thesis by (intro exI [of _ limit] exI [of _ ?s1]) (simp add: server_ok_def resources_def)
  next
    case all: True
    have run1: "all_daemons (limited rx n) OP_STOP s = (Inr (), ?s1)" if "limit \<le> n" for n using m(1) that all by simp
    obtain d where d: "\<forall>n. self_perform (limited rx n) OP_STOP ?s1 = (if self_ok OP_STOP s then Inr () else Inl AssertionError, ?s1\<lparr>sv_http := (sv_http s)\<lparr>ht_daemon := d\<rparr>\<rparr>)" "tidy d"
      using self_perform_run [of ?s1 rx OP_STOP] ok assms(2) by (auto simp: self_ok_def)
    let ?s2 = "?s1\<lparr>sv_http := (sv_http s)\<lparr>ht_daemon := d\<rparr>\<rparr>"
    have ok2: "server_ok rank base ?s2" using ok m(2) d(2) keys by (simp add: server_ok_def)
    show ?thesis
    proof (cases "self_ok OP_STOP s")
      case False
      then have "stop_all (limited rx n) os s = (Inl AssertionError, ?s2)" if "limit \<le> n" for n
        using run1 [OF that] d(1) by (simp add: stop_all_def bindp_def)
      with False ok2 m(3) show ?thesis by (intro exI [of _ limit] exI [of _ ?s2]) (simp add: resources_def)
    next
      case True
      have "\<forall>(k, st) \<in> set (state_list (sv_daemons ?s2)). st \<in> {IDLE, STOPPING}" using stopped_states [OF all] m(3) by auto
      from close_everything [OF ok2 this assms(3)] obtain s4 where s4:
          "bindp (in_self http_close) (\<lambda>_. bindp (in_udp (um_remove_all os)) (\<lambda>_. sem_release)) ?s2 = (Inr (), s4)"
          "server_ok rank base s4" "shut_down base s4" "sv_sem s4 = sv_sem s + 1" "state_list (sv_daemons s4) = state_list m"
        by auto
      have "stop_all (limited rx n) os s = (Inr (), s4)" if "limit \<le> n" for n
        using run1 [OF that] d(1) True s4(1) by (simp add: stop_all_def)
      then show ?thesis using True all m(3) s4(2-5) by (intro exI [of _ limit] exI [of _ s4]) simp
    qed
  qed
qed

section \<open>Starting and changing the speed\<close>

lemma start_all_run:
  assumes "server_ok rank base s" and "reactions_ok rx" and "all_ok OP_START s" and "self_ok OP_START s"
  shows "\<exists>limit s'. (\<forall>n \<ge> limit. start_all (limited rx n) s = (Inr (), s')) \<and> server_ok rank base s' \<and>
    state_list (sv_daemons s') = states_after OP_START (sv_daemons s) \<and>
    http_state s' = (if sv_http_enabled s then op_state OP_START (http_state s) else http_state s) \<and>
    sv_udp s' = sv_udp s \<and> \<not> sv_first_start s' \<and> sv_sem s' = sv_sem s + 1"
proof -
  note ok = assms(1) [unfolded server_ok_def]
  obtain d0 where "dict_get (mg_daemons (sv_daemons s)) ''telemetry'' = Some (Some d0)"
    using managed_tidy [of rank "sv_daemons s" "''telemetry''"] ok by blast
  then have telem: "need_telemetry s = (Inr (), s)" by (simp add: need_telemetry_def get_daemon_def NAME_DENYLIST_def zoom_def)
  obtain limit m where m: "\<forall>n \<ge> limit. all_daemons (limited rx n) OP_START s = (Inr (), s\<lparr>sv_daemons := m\<rparr>)"
      "manager_ok rank m" "state_list m = states_after OP_START (sv_daemons s)"
    using all_daemons_run [of rank s rx OP_START] ok assms(2,3) by auto
  have keys: "dict_keys (mg_daemons m) = dict_keys (mg_daemons (sv_daemons s))"
    using m(3) state_list_keys [of m] states_after_keys [of OP_START "sv_daemons s"] by simp
  let ?s1 = "s\<lparr>sv_daemons := m\<rparr>"
  have "self_ok OP_START ?s1" using assms(4) by (simp add: self_ok_def)
  then obtain d where d: "\<forall>n. self_perform (limited rx n) OP_START ?s1 = (Inr (), ?s1\<lparr>sv_http := (sv_http s)\<lparr>ht_daemon := d\<rparr>\<rparr>)" "tidy d"
      "d_state d = (if sv_http_enabled s then op_state OP_START (http_state s) else http_state s)"
    using self_perform_run [of ?s1 rx OP_START] ok assms(2) by auto
  let ?s2 = "?s1\<lparr>sv_http := (sv_http s)\<lparr>ht_daemon := d\<rparr>, sv_first_start := False, sv_sem := sv_sem s + 1\<rparr>"
  have "start_all (limited rx n) s = (Inr (), ?s2)" if "limit \<le> n" for n
    using telem m(1) that d(1) by (simp add: start_all_def sem_release_def)
  moreover have "server_ok rank base ?s2" using ok m(2) d(2) keys by (simp add: server_ok_def)
  ultimately show ?thesis using m(3) d(3) by (intro exI [of _ limit] exI [of _ ?s2]) simp
qed

lemma scale_run:
  assumes "manager_ok rank (sv_daemons s)" and "''time'' \<in> set (dict_keys (mg_daemons (sv_daemons s)))"
  shows "\<exists>m k. in_keeper (scale x) s = (Inr (), s\<lparr>sv_keeper := k, sv_daemons := m\<rparr>) \<and> manager_ok rank m \<and>
    state_list m = state_list (sv_daemons s) \<and> tk_scalar k = (if fle 0 x then x else tk_scalar (sv_keeper s)) \<and> tk_slaves k = tk_slaves (sv_keeper s)"
proof -
  obtain d where d: "dict_get (mg_daemons (sv_daemons s)) ''time'' = Some (Some d)" "tidy d"
    using managed_tidy [OF assms] by blast
  let ?k0 = "(sv_keeper s)\<lparr>tk_sync := (tk_sync (sv_keeper s))\<lparr>sd_daemon := d\<rparr>\<rparr>"
  have "\<exists>k. scale x ?k0 = (Inr (), k) \<and> sd_daemon (tk_sync k) = d \<and> tk_scalar k = (if fle 0 x then x else tk_scalar (sv_keeper s)) \<and>
      tk_slaves k = tk_slaves (sv_keeper s)"
    by (simp add: scale_def tk_with_lock_def tk_lock_by_def)
  then obtain k where k: "scale x ?k0 = (Inr (), k)" "sd_daemon (tk_sync k) = d" "tk_scalar k = (if fle 0 x then x else tk_scalar (sv_keeper s))"
      "tk_slaves k = tk_slaves (sv_keeper s)" by blast
  have "manager_ok rank (put_shared ''time'' d (sv_daemons s))" "state_list (put_shared ''time'' d (sv_daemons s)) = state_list (sv_daemons s)"
    using put_shared_ok [OF assms(1) d(1) _ d(2)] by simp_all
  moreover have "in_keeper (scale x) s = (Inr (), s\<lparr>sv_keeper := k, sv_daemons := put_shared ''time'' d (sv_daemons s)\<rparr>)"
    using k(1,2) d(1) by (simp add: in_keeper_def zoom_def shared_daemon_def Let_def)
  ultimately show ?thesis using k(3,4) by blast
qed

section \<open>Building the daemons\<close>

text \<open>A manager with idle daemons of the given names, where some of them wait for others.\<close>

definition built :: "string list \<Rightarrow> (string \<Rightarrow> string list) \<Rightarrow> manager \<Rightarrow> bool" where
  "built names waits m \<longleftrightarrow> dict_keys (mg_daemons m) = names \<and> deps m = waits \<and>
     (\<forall>(k, v) \<in> set (mg_daemons m). \<exists>d. v = Some d \<and> quiet d \<and> d_state d = IDLE)"

abbreviation plain_daemon :: "string \<Rightarrow> py_error + daemon" where
  "plain_daemon name \<equiv> new_daemon name None"

lemma add_new_built:
  assumes "built names waits m" and "name \<notin> set names" and "name \<noteq> ''all''"
  shows "\<exists>m'. add_new plain_daemon name depends m = (Inr (), m') \<and>
    built (names @ [name]) (waits(name := (case depends of None \<Rightarrow> [] | Some ds \<Rightarrow> ds))) m'"
proof -
  obtain d where d: "new_daemon name None = Inr d" "quiet d" "d_state d = IDLE" "d_name d = name"
    using new_daemon_quiet [of name] new_daemon_idle by blast
  have new: "name \<notin> set (dict_keys (mg_daemons m))" using assms(1,2) by (simp add: built_def)
  let ?m = "m\<lparr>mg_daemons := dict_set name (Some d) (mg_daemons m), mg_depends_on := dict_set name depends (mg_depends_on m)\<rparr>"
  have "add_new plain_daemon name depends m = (Inr (), ?m)"
    using d(1,4) new assms(3) by (simp add: add_new_def add_daemon_def NAME_DENYLIST_def m_with_lock_def)
  moreover have "deps ?m = waits(name := (case depends of None \<Rightarrow> [] | Some ds \<Rightarrow> ds))"
    using assms(1) by (auto simp: built_def deps_def fun_eq_iff split: option.split)
  moreover have "mg_daemons ?m = mg_daemons m @ [(name, Some d)]" using dict_set_fresh [OF new] by simp
  ultimately show ?thesis using assms(1) d(2,3) by (auto simp: built_def)
qed

lemma add_all_built:
  assumes "built names (\<lambda>_. []) m" and "distinct (names @ xs)" and "''all'' \<notin> set xs"
  shows "\<exists>m'. for_each (\<lambda>n. add_new plain_daemon n None) xs m = (Inr (), m') \<and> built (names @ xs) (\<lambda>_. []) m'"
  using assms
proof (induction xs arbitrary: names m)
  case (Cons x xs)
  obtain m1 where m1: "add_new plain_daemon x None m = (Inr (), m1)" "built (names @ [x]) (\<lambda>_. []) m1"
    using add_new_built [OF Cons.prems(1), of x None] Cons.prems(2,3) by (auto simp: fun_upd_idem)
  from Cons.IH [OF m1(2)] Cons.prems(2,3) m1(1) show ?case by auto
qed simp

text \<open>The names of the daemons that wait for no other one.\<close>

definition server_names :: "services \<Rightarrow> string list" where
  "server_names sv = [''time'', ''telemetry'', ''stream''] @ (if srv_enabled (svc_websocket_tlm sv) then [srv_name (svc_websocket_tlm sv)] else []) @
     (if srv_enabled (svc_tcp_tlm sv) then [srv_name (svc_tcp_tlm sv)] else []) @ [''command'']"

lemma bindp_ret: "bindp (ret a) k = k a"
  by (rule ext) simp

lemma build_daemons_names:
  "build_daemons mk sv = bindp (for_each (\<lambda>n. add_new mk n None) (server_names sv)) (\<lambda>_.
     if srv_enabled (svc_websocket_cmd sv) then add_new mk (srv_name (svc_websocket_cmd sv)) (Some [''stream'']) else raise UnboundLocalError)"
  by (simp add: build_daemons_def server_names_def bindp_assoc bindp_ret raise_def)

lemma built_ok:
  assumes "built names waits m" and "distinct names" and "\<forall>x. set (waits x) \<subseteq> set names" and "\<forall>x. \<forall>d \<in> set (waits x). rank d < rank x"
  shows "manager_ok rank m" and "state_list m = map (\<lambda>n. (n, IDLE)) names"
proof -
  have each: "\<exists>d. v = Some d \<and> quiet d \<and> d_state d = IDLE" if "(k, v) \<in> set (mg_daemons m)" for k v
    using assms(1) that by (auto simp: built_def)
  then have "\<exists>d. v = Some d \<and> tidy d" if "(k, v) \<in> set (mg_daemons m)" for k v using that by (fastforce simp: tidy_def)
  then show "manager_ok rank m" using assms by (auto simp: manager_ok_def built_def dep_names_def)
  have "map (\<lambda>(k, v). (k, d_state (the v))) (mg_daemons m) = map (\<lambda>(k, v). (k, IDLE)) (mg_daemons m)"
    using each by (fastforce intro!: map_cong)
  then show "state_list m = map (\<lambda>n. (n, IDLE)) names" using assms(1) by (auto simp: state_list_def built_def comp_def split_beta)
qed

text \<open>
  The constructor of a server gives each of its daemons to the manager once, idle and in a fixed order,
  with the websocket command daemon waiting for the stream writer, so that they can all be started; this
  needs distinct service names. A server whose websocket command service is disabled cannot be built.
\<close>

lemma build_daemons_run:
  assumes "distinct (server_names sv @ [srv_name (svc_websocket_cmd sv)])" and "''all'' \<notin> set (server_names sv @ [srv_name (svc_websocket_cmd sv)])"
  shows "\<exists>m. build_daemons plain_daemon sv new_manager = (if srv_enabled (svc_websocket_cmd sv) then Inr () else Inl UnboundLocalError, m) \<and>
    (srv_enabled (svc_websocket_cmd sv) \<longrightarrow>
      state_list m = map (\<lambda>n. (n, IDLE)) (server_names sv @ [srv_name (svc_websocket_cmd sv)]) \<and>
      deps m = (\<lambda>_. [])(srv_name (svc_websocket_cmd sv) := [''stream'']) \<and>
      manager_ok (\<lambda>n. if n = srv_name (svc_websocket_cmd sv) then 1 else 0) m)"
proof -
  let ?ws = "srv_name (svc_websocket_cmd sv)" and ?names = "server_names sv"
  have "built [] (\<lambda>_. []) new_manager" by (simp add: built_def new_manager_def deps_def fun_eq_iff)
  from add_all_built [OF this, of ?names] assms obtain m1 where
    m1: "for_each (\<lambda>n. add_new plain_daemon n None) ?names new_manager = (Inr (), m1)" "built ?names (\<lambda>_. []) m1" by auto
  show ?thesis
  proof (cases "srv_enabled (svc_websocket_cmd sv)")
    case True
    have new: "?ws \<notin> set ?names" "?ws \<noteq> ''all''" using assms by auto
    obtain m where m: "add_new plain_daemon ?ws (Some [''stream'']) m1 = (Inr (), m)"
        "built (?names @ [?ws]) ((\<lambda>_. [])(?ws := [''stream''])) m"
      using add_new_built [OF m1(2) new, of "Some [''stream'']"] unfolding option.case by (elim exE conjE)
    have stream: "''stream'' \<in> set ?names" by (simp add: server_names_def)
    with new(1) have ws: "?ws \<noteq> ''stream''" by metis
    have dep: "\<forall>x. set (((\<lambda>_. [])(?ws := [''stream''])) x) \<subseteq> set (?names @ [?ws])"
      using stream unfolding fun_upd_apply by (intro allI subsetI) (simp split: if_splits)
    have rank: "\<forall>x. \<forall>d \<in> set (((\<lambda>_. [])(?ws := [''stream''])) x). (if d = ?ws then 1 else 0) < (if x = ?ws then 1 else (0 :: nat))"
      using ws unfolding fun_upd_apply by (intro allI ballI) (simp split: if_splits)
    note ok = built_ok [OF m(2) assms(1) dep rank]
    have "build_daemons plain_daemon sv new_manager = (Inr (), m)" using m1(1) m(1) True by (simp add: build_daemons_names)
    moreover have "deps m = (\<lambda>_. [])(?ws := [''stream''])" using m(2) unfolding built_def by blast
    ultimately show ?thesis unfolding eqTrueI [OF True] if_True using ok by (intro exI [of _ m] conjI impI)
  next
    case False
    with m1(1) show ?thesis by (simp add: build_daemons_names)
  qed
qed

section \<open>A server with default services\<close>

definition sample_daemons :: manager where
  "sample_daemons = snd (build_daemons plain_daemon (default_services []) new_manager)"

definition sample_rank :: "string \<Rightarrow> nat" where
  "sample_rank n = (if n = ''websocket_command'' then 1 else 0)"

abbreviation sample_names :: "string list" where
  "sample_names \<equiv> [''time'', ''telemetry'', ''stream'', ''websocket_telemetry'', ''tcp_telemetry'', ''command'', ''websocket_command'']"

lemma sample_services: "server_names (default_services []) @ [''websocket_command''] = sample_names"
    "srv_name (svc_websocket_cmd (default_services [])) = ''websocket_command''" "srv_enabled (svc_websocket_cmd (default_services [])) = True"
  by (simp_all add: server_names_def default_services_def plain_service_def)

lemma sample_daemons_ok: "manager_ok sample_rank sample_daemons" "state_list sample_daemons = map (\<lambda>n. (n, IDLE)) sample_names"
proof -
  obtain m where m: "build_daemons plain_daemon (default_services []) new_manager = (Inr (), m)"
      "manager_ok (\<lambda>n. if n = ''websocket_command'' then 1 else 0) m" "state_list m = map (\<lambda>n. (n, IDLE)) sample_names"
    using build_daemons_run [of "default_services []"] unfolding sample_services by auto
  have "sample_rank = (\<lambda>n. if n = ''websocket_command'' then 1 else 0)" by (rule ext) (simp add: sample_rank_def)
  with m show "manager_ok sample_rank sample_daemons" "state_list sample_daemons = map (\<lambda>n. (n, IDLE)) sample_names"
    by (simp_all add: sample_daemons_def)
qed

lemma sample_keys: "dict_keys (mg_daemons sample_daemons) = sample_names"
  using state_list_keys [of sample_daemons] by (simp add: sample_daemons_ok(2))

definition sample_server :: "(unit, byte list, unit) server" where
  "sample_server = \<lparr>sv_http = \<lparr>ht_daemon = (blank_daemon ''http'' None)\<lparr>d_state := IDLE\<rparr>, ht_mapper = new_mapper, ht_address = (''0.0.0.0'', 8000),
       ht_tls = False, ht_closed = False, ht_listening = True\<rparr>, sv_http_enabled = True, sv_daemons = sample_daemons,
     sv_keeper = projr (new_time_keeper ''time'' 0 0 0), sv_udp = sample_manager, sv_first_start = True, sv_sem = 0\<rparr>"

definition sample_reactions :: reactions where
  "sample_reactions = \<lparr>rx_limit = 0, rx_inject = (\<lambda>_. None), rx_wait = (\<lambda>_. modify (\<lambda>d. d\<lparr>d_state := IDLE\<rparr>)), rx_self_inject = None,
     rx_self_wait = modify (\<lambda>d. d\<lparr>d_state := IDLE\<rparr>)\<rparr>"

lemma sample_reactions_ok: "reactions_ok sample_reactions"
  by (simp add: reactions_ok_def sample_reactions_def stops_def call_inject_def quiet_def)

lemma sample_server_ok: "server_ok sample_rank 0 sample_server"
proof -
  have "um_good 0 sample_manager" using sample_ready
    by (simp add: um_good_def sample_manager_def writer_ready_def writer_inv_def accounted_def sample_writer_def)
  moreover have "tidy ((blank_daemon ''http'' None)\<lparr>d_state := IDLE\<rparr>)" by (simp add: tidy_def quiet_def blank_daemon_def)
  ultimately show ?thesis using sample_daemons_ok(1) sample_keys by (simp add: server_ok_def sample_server_def)
qed

lemma sample_idle: "all_ok OP_STOP sample_server" "self_ok OP_STOP sample_server" "all_ok OP_START sample_server" "self_ok OP_START sample_server"
  by (simp_all add: all_ok_def self_ok_def sample_server_def sample_daemons_ok(2) op_ok_def)

text \<open>All threads have come up: every daemon runs.\<close>

definition came_up :: "daemon \<Rightarrow> daemon" where
  "came_up d = d\<lparr>d_state := RUNNING, d_thread := Some 0, d_threads := [InRun]\<rparr>"

definition daemons_up :: "manager \<Rightarrow> manager" where
  "daemons_up m = m\<lparr>mg_daemons := map (\<lambda>(k, v). (k, map_option came_up v)) (mg_daemons m)\<rparr>"

definition server_up :: "('h, 's, 'c) server \<Rightarrow> ('h, 's, 'c) server" where
  "server_up s = s\<lparr>sv_daemons := daemons_up (sv_daemons s), sv_http := (sv_http s)\<lparr>ht_daemon := came_up (ht_daemon (sv_http s))\<rparr>\<rparr>"

lemma came_up_tidy: "tidy d \<Longrightarrow> tidy (came_up d)"
  by (simp add: tidy_def quiet_def came_up_def)

lemma daemons_up_keys: "dict_keys (mg_daemons (daemons_up m)) = dict_keys (mg_daemons m)"
  by (simp add: daemons_up_def comp_def split_beta)

lemma daemons_up_ok:
  assumes "manager_ok rank m"
  shows "manager_ok rank (daemons_up m)" and "\<forall>(k, st) \<in> set (state_list (daemons_up m)). st = RUNNING"
proof -
  have d: "deps (daemons_up m) = deps m" by (simp add: deps_def daemons_up_def fun_eq_iff)
  have "\<exists>d. v = Some d \<and> tidy d" if "(k, v) \<in> set (mg_daemons (daemons_up m))" for k v
    using that assms came_up_tidy by (fastforce simp: daemons_up_def manager_ok_def)
  then show "manager_ok rank (daemons_up m)"
    using assms unfolding manager_ok_def d dep_names_cong [OF d] daemons_up_keys by auto
  show "\<forall>(k, st) \<in> set (state_list (daemons_up m)). st = RUNNING"
    using assms by (fastforce simp: state_list_def daemons_up_def came_up_def manager_ok_def)
qed

lemma server_up_ok:
  assumes "server_ok rank base s"
  shows "server_ok rank base (server_up s)" and "all_ok OP_STOP (server_up s)" and "self_ok OP_STOP (server_up s)" and "sv_sem (server_up s) = sv_sem s"
    and "all_ok OP_PAUSE (server_up s)"
proof -
  have m: "manager_ok rank (sv_daemons s)" using assms by (simp add: server_ok_def)
  show "server_ok rank base (server_up s)" using assms daemons_up_ok(1) [OF m] daemons_up_keys [of "sv_daemons s"] came_up_tidy
    by (simp add: server_ok_def server_up_def)
  show "all_ok OP_STOP (server_up s)" "all_ok OP_PAUSE (server_up s)"
    using daemons_up_ok(2) [OF m] by (auto simp: all_ok_def server_up_def op_ok_def)
  show "self_ok OP_STOP (server_up s)" by (simp add: self_ok_def server_up_def came_up_def op_ok_def)
  show "sv_sem (server_up s) = sv_sem s" by (simp add: server_up_def)
qed

lemma sample_closes: "\<forall>x. os_close sample_sockets x \<noteq> CloseFails"
  by (simp add: sample_sockets_def)

section \<open>Properties\<close>







end
