(* ===== verification/Json_Parse.thy ===== *)
theory Json_Parse
  imports Json
begin

text \<open>
  \<open>json.loads\<close> of the standard library: a recursive descent over the text, with fuel that the length of
  the text always covers. It gives \<open>None\<close> where Python raises \<open>JSONDecodeError\<close>. Reading the decimal text of a
  floating-point number is a parameter, as writing it is in \<open>Json\<close>. An escape for a character
  above 255, which no text of this development has, is refused. What \<open>json.dumps\<close> wrote is read
  back exactly.
\<close>

section \<open>Strings\<close>

definition json_space :: "char \<Rightarrow> bool" where
  "json_space c \<longleftrightarrow> c \<in> {CHR '' '', CHR 0x0A, CHR 0x0D, CHR 0x09}"

definition skip_space :: "string \<Rightarrow> string" where
  "skip_space s = dropWhile json_space s"

definition hex_digit :: "char \<Rightarrow> nat option" where
  "hex_digit c =
     (let n = (of_char c :: nat)
      in if 48 \<le> n \<and> n \<le> 57 then Some (n - 48)
         else if 97 \<le> n \<and> n \<le> 102 then Some (n - 87)
         else if 65 \<le> n \<and> n \<le> 70 then Some (n - 55)
         else None)"

definition hex_value :: "char \<Rightarrow> char \<Rightarrow> char \<Rightarrow> char \<Rightarrow> nat option" where
  "hex_value a b c d =
     (case (hex_digit a, hex_digit b, hex_digit c, hex_digit d) of
        (Some w, Some x, Some y, Some z) \<Rightarrow> Some (((w * 16 + x) * 16 + y) * 16 + z)
      | _ \<Rightarrow> None)"

text \<open>The character after a backslash.\<close>

definition short_escape :: "char \<Rightarrow> char option" where
  "short_escape c = map_of [(CHR 0x22, CHR 0x22), (CHR 0x5C, CHR 0x5C), (CHR ''/'', CHR ''/''), (CHR ''b'', char_of (8 :: nat)),
     (CHR ''f'', char_of (12 :: nat)), (CHR ''n'', char_of (10 :: nat)), (CHR ''r'', char_of (13 :: nat)), (CHR ''t'', char_of (9 :: nat))] c"

definition push_char :: "char \<Rightarrow> (string \<times> string) option \<Rightarrow> (string \<times> string) option" where
  "push_char c r = map_option (\<lambda>(s, rest). (c # s, rest)) r"

text \<open>The rest of a string literal after its opening quote, and the text behind it.\<close>

fun json_string :: "string \<Rightarrow> (string \<times> string) option" where
  "json_string [] = None"
| "json_string (c # s) =
     (if c = CHR 0x22 then Some ([], s)
      else if c = CHR 0x5C
      then (case s of
              [] \<Rightarrow> None
            | e # s' \<Rightarrow>
                (case short_escape e of
                   Some c' \<Rightarrow> push_char c' (json_string s')
                 | None \<Rightarrow>
                     (if e \<noteq> CHR ''u'' then None
                      else case s' of
                        h1 # h2 # h3 # h4 # s'' \<Rightarrow>
                          (case hex_value h1 h2 h3 h4 of
                             None \<Rightarrow> None
                           | Some n \<Rightarrow> if n < 256 then push_char (char_of n) (json_string s'') else None)
                      | _ \<Rightarrow> None)))
      else if (of_char c :: nat) < 32 then None
      else push_char c (json_string s))"

section \<open>Numbers and names\<close>

text \<open>The integer part with its sign, then fraction and exponent; each is empty when it is not there.\<close>

definition int_part :: "string \<Rightarrow> (string \<times> string) option" where
  "int_part s =
     (let (sign, t) = (if s \<noteq> [] \<and> hd s = CHR ''-'' then (''-'', tl s) else ([], s))
      in case t of
           [] \<Rightarrow> None
         | c # r \<Rightarrow>
             if c = CHR ''0'' then Some (sign @ ''0'', r)
             else if is_digit c then Some (sign @ takeWhile is_digit t, dropWhile is_digit t)
             else None)"

definition frac_part :: "string \<Rightarrow> string \<times> string" where
  "frac_part s =
     (case s of
        c # d # r \<Rightarrow> if c = CHR ''.'' \<and> is_digit d then (c # takeWhile is_digit (d # r), dropWhile is_digit (d # r)) else ([], s)
      | _ \<Rightarrow> ([], s))"

definition exp_part :: "string \<Rightarrow> string \<times> string" where
  "exp_part s =
     (case s of
        c # r \<Rightarrow>
          (let (sign, t) = (if r \<noteq> [] \<and> hd r \<in> {CHR ''+'', CHR ''-''} then ([hd r], tl r) else ([], r))
           in if c \<in> {CHR ''e'', CHR ''E''} \<and> t \<noteq> [] \<and> is_digit (hd t)
              then (c # sign @ takeWhile is_digit t, dropWhile is_digit t) else ([], s))
      | _ \<Rightarrow> ([], s))"

definition json_number :: "(string \<Rightarrow> pyfloat) \<Rightarrow> string \<Rightarrow> (pyval \<times> string) option" where
  "json_number pf s =
     (case int_part s of
        None \<Rightarrow> None
      | Some (i, r) \<Rightarrow>
          (let (f, r1) = frac_part r; (e, r2) = exp_part r1
           in if f = [] \<and> e = []
              then (case py_int i of Inl _ \<Rightarrow> None | Inr n \<Rightarrow> Some (VInt n, r2))
              else Some (VFloat (pf (i @ f @ e)), r2)))"

fun take_prefix :: "string \<Rightarrow> string \<Rightarrow> string option" where
  "take_prefix [] s = Some s"
| "take_prefix (p # ps) [] = None"
| "take_prefix (p # ps) (c # s) = (if c = p then take_prefix ps s else None)"

text \<open>The constants, with the three special floats that \<open>json\<close> allows.\<close>

definition json_names :: "(string \<Rightarrow> pyfloat) \<Rightarrow> (string \<times> pyval) list" where
  "json_names pf = [(''null'', VNone), (''true'', VBool True), (''false'', VBool False), (''NaN'', VFloat (pf ''NaN'')),
     (''Infinity'', VFloat (pf ''Infinity'')), (''-Infinity'', VFloat (pf ''-Infinity''))]"

fun json_name :: "(string \<times> pyval) list \<Rightarrow> string \<Rightarrow> (pyval \<times> string) option" where
  "json_name [] s = None"
| "json_name ((name, v) # names) s = (case take_prefix name s of Some r \<Rightarrow> Some (v, r) | None \<Rightarrow> json_name names s)"

definition json_atom :: "(string \<Rightarrow> pyfloat) \<Rightarrow> string \<Rightarrow> (pyval \<times> string) option" where
  "json_atom pf s = (case json_name (json_names pf) s of Some r \<Rightarrow> Some r | None \<Rightarrow> json_number pf s)"

section \<open>Documents\<close>

text \<open>A value; the items of a list after its opening bracket; the entries of an object after the first quote.\<close>

fun json_value :: "(string \<Rightarrow> pyfloat) \<Rightarrow> nat \<Rightarrow> string \<Rightarrow> (pyval \<times> string) option"
  and json_items :: "(string \<Rightarrow> pyfloat) \<Rightarrow> nat \<Rightarrow> string \<Rightarrow> (pyval list \<times> string) option"
  and json_entries :: "(string \<Rightarrow> pyfloat) \<Rightarrow> nat \<Rightarrow> string \<Rightarrow> ((string \<times> pyval) list \<times> string) option" where
  "json_value pf 0 s = None"
| "json_value pf (Suc n) [] = None"
| "json_value pf (Suc n) (c # s) =
     (if c = CHR 0x22 then map_option (\<lambda>(t, r). (VStr t, r)) (json_string s)
      else if c = CHR ''['' then
        (case skip_space s of
           [] \<Rightarrow> None
         | c' # r \<Rightarrow> if c' = CHR '']'' then Some (VList [], r)
                   else map_option (\<lambda>(vs, r). (VList vs, r)) (json_items pf n (c' # r)))
      else if c = CHR ''{'' then
        (case skip_space s of
           [] \<Rightarrow> None
         | c' # r \<Rightarrow> if c' = CHR ''}'' then Some (VDict [], r)
                   else if c' = CHR 0x22 then map_option (\<lambda>(kvs, r). (VDict (dict_update [] kvs), r)) (json_entries pf n r)
                   else None)
      else json_atom pf (c # s))"
| "json_items pf 0 s = None"
| "json_items pf (Suc n) s =
     (case json_value pf n s of
        None \<Rightarrow> None
      | Some (v, r) \<Rightarrow>
          (case skip_space r of
             [] \<Rightarrow> None
           | c # r' \<Rightarrow>
               if c = CHR '']'' then Some ([v], r')
               else if c = CHR '','' then map_option (\<lambda>(vs, q). (v # vs, q)) (json_items pf n (skip_space r'))
               else None))"
| "json_entries pf 0 s = None"
| "json_entries pf (Suc n) s =
     (case json_string s of
        None \<Rightarrow> None
      | Some (k, r) \<Rightarrow>
          (case skip_space r of
             [] \<Rightarrow> None
           | c # r1 \<Rightarrow>
               if c \<noteq> CHR '':'' then None
               else
                 (case json_value pf n (skip_space r1) of
                    None \<Rightarrow> None
                  | Some (v, r2) \<Rightarrow>
                      (case skip_space r2 of
                         [] \<Rightarrow> None
                       | c' # r3 \<Rightarrow>
                           if c' = CHR ''}'' then Some ([(k, v)], r3)
                           else if c' \<noteq> CHR '','' then None
                           else
                             (case skip_space r3 of
                                [] \<Rightarrow> None
                              | q # r4 \<Rightarrow>
                                  if q = CHR 0x22 then map_option (\<lambda>(kvs, r). ((k, v) # kvs, r)) (json_entries pf n r4)
                                  else None)))))"

definition loads :: "(string \<Rightarrow> pyfloat) \<Rightarrow> string \<Rightarrow> pyval option" where
  "loads pf s =
     (case json_value pf (Suc (length s)) (skip_space s) of
        None \<Rightarrow> None
      | Some (v, r) \<Rightarrow> if skip_space r = [] then Some v else None)"

section \<open>Reading back what was written\<close>

lemma hex_digit_char: "d < 16 \<Longrightarrow> hex_digit (hex_char d) = Some d"
  by (simp add: hex_digit_def hex_char_def of_char_of Let_def)

lemma zero_digit: "hex_digit (CHR ''0'') = Some 0"
  by (simp add: hex_digit_def Let_def)

lemma json_string_char: "json_string (json_char c @ s) = push_char c (json_string s)"
proof -
  let ?n = "of_char c :: nat"
  have n: "?n < 256" by (rule nat_of_char_less_256)
  have c: "char_of ?n = c" by simp
  have same: "c = char_of k" if "?n = k" for k using that c by metis
  have nx: "c = CHR 0x22 \<or> c = CHR 0x5C \<or> ?n = 10 \<or> ?n = 13 \<or> ?n = 9 \<or> ?n = 12 \<or> ?n = 8 \<or> (c \<noteq> CHR 0x22 \<and> c \<noteq> CHR 0x5C \<and> 32 \<le> ?n \<and> ?n \<le> 126) \<or>
      json_char c = CHR 0x5C # ''u00'' @ [hex_char (?n div 16), hex_char (?n mod 16)]"
    by (simp add: json_char_def Let_def)
  then show ?thesis
  proof (elim disjE)
    assume u: "json_char c = CHR 0x5C # ''u00'' @ [hex_char (?n div 16), hex_char (?n mod 16)]"
    have "hex_value CHR ''0'' CHR ''0'' (hex_char (?n div 16)) (hex_char (?n mod 16)) = Some ?n"
    proof -
      have "?n div 16 < 16" using n by (intro less_mult_imp_div_less) simp
      then show ?thesis using n by (simp add: hex_value_def zero_digit hex_digit_char)
    qed
    then show ?thesis using n c by (simp add: u short_escape_def)
  qed (auto simp: json_char_def short_escape_def Let_def dest!: same)
qed

lemma json_string_text: "json_string (concat (map json_char s) @ CHR 0x22 # r) = Some (s, r)"
  by (induction s) (simp_all add: json_string_char push_char_def)

lemma skip_space_simps [simp]:
  "skip_space [] = []" "json_space c \<Longrightarrow> skip_space (c # s) = skip_space s" "\<not> json_space c \<Longrightarrow> skip_space (c # s) = c # s"
  by (simp_all add: skip_space_def)

lemma skip_space_break [simp]: "skip_space (line_break ind l @ s) = skip_space s"
proof -
  have "skip_space (replicate k CHR '' '' @ s) = skip_space s" for k by (induction k) (simp_all add: json_space_def)
  then show ?thesis by (simp add: line_break_def json_space_def split: option.split)
qed

text \<open>The gap after a comma.\<close>

definition item_gap :: "nat option \<Rightarrow> nat \<Rightarrow> string" where
  "item_gap ind level = (case ind of None \<Rightarrow> '' '' | Some _ \<Rightarrow> line_break ind level)"

lemma item_sep_gap: "item_sep ind level = CHR '','' # item_gap ind level"
  by (simp add: item_sep_def item_gap_def split: option.split)

lemma skip_space_gap [simp]: "skip_space (item_gap ind l @ s) = skip_space s"
  by (simp add: item_gap_def json_space_def split: option.split)

text \<open>What may stand behind a value.\<close>

definition value_ends :: "string \<Rightarrow> bool" where
  "value_ends r \<longleftrightarrow> r = [] \<or> hd r \<in> {CHR '','', CHR '']'', CHR ''}'', CHR 0x0A}"

lemma value_ends_break: "value_ends (line_break ind l @ c # r) \<longleftrightarrow> value_ends (c # r) \<or> ind \<noteq> None"
  by (cases ind) (simp_all add: value_ends_def line_break_def)

text \<open>Documents whose floating-point numbers the parameters write and read back.\<close>

definition reads_back :: "(string \<Rightarrow> pyfloat) \<Rightarrow> (pyfloat \<Rightarrow> string) \<Rightarrow> pyfloat \<Rightarrow> bool" where
  "reads_back pf fr x \<longleftrightarrow> fr x \<noteq> [] \<and> \<not> json_space (hd (fr x)) \<and> hd (fr x) \<notin> {CHR 0x22, CHR ''['', CHR ''{'', CHR '']''} \<and>
     (\<forall>r. value_ends r \<longrightarrow> json_atom pf (fr x @ r) = Some (VFloat x, r))"

fun doc_ok :: "(pyfloat \<Rightarrow> bool) \<Rightarrow> pyval \<Rightarrow> bool"
  and docs_ok :: "(pyfloat \<Rightarrow> bool) \<Rightarrow> pyval list \<Rightarrow> bool"
  and entries_ok :: "(pyfloat \<Rightarrow> bool) \<Rightarrow> (string \<times> pyval) list \<Rightarrow> bool" where
  "doc_ok P (VFloat x) = P x"
| "doc_ok P (VList vs) = docs_ok P vs"
| "doc_ok P (VDict kvs) = (distinct (dict_keys kvs) \<and> entries_ok P kvs)"
| "doc_ok P v = True"
| "docs_ok P [] = True"
| "docs_ok P (v # vs) = (doc_ok P v \<and> docs_ok P vs)"
| "entries_ok P [] = True"
| "entries_ok P ((k, v) # kvs) = (doc_ok P v \<and> entries_ok P kvs)"

lemma nat_str_lead: "n \<noteq> 0 \<Longrightarrow> hd (nat_str n) \<noteq> CHR ''0''"
proof (induction n rule: nat_str.induct)
  case (1 n)
  show ?case
  proof (cases "n < 10")
    case True
    have "(of_char (digit_char n) :: nat) \<noteq> of_char CHR ''0''" using of_digit_char [OF True] 1(2) by simp
    then have "digit_char n \<noteq> CHR ''0''" by metis
    then show ?thesis using True by (simp add: nat_str.simps [of n])
  next
    case False
    then show ?thesis using 1 by (simp add: nat_str.simps [of n])
  qed
qed

lemma int_part_nat:
  assumes "value_ends r"
  shows "int_part (nat_str n @ r) = Some (nat_str n, r)" and "int_part (CHR ''-'' # nat_str n @ r) = Some (CHR ''-'' # nat_str n, r)"
proof -
  have stop: "takeWhile is_digit r = []" "dropWhile is_digit r = r"
    using assms by (cases r; auto simp: value_ends_def is_digit_def)+
  have digits: "takeWhile is_digit (nat_str n @ r) = nat_str n" "dropWhile is_digit (nat_str n @ r) = r"
    using nat_str_digits stop by (simp_all add: takeWhile_append2 dropWhile_append2)
  obtain c cs where c: "nat_str n = c # cs" "is_digit c" using nat_str_not_Nil [of n] nat_str_ends(1) [of n] by (cases "nat_str n") auto
  have "c = CHR ''0'' \<longrightarrow> cs = []"
  proof (cases "n = 0")
    case True
    then show ?thesis using c(1) by (simp add: nat_str.simps [of 0])
  next
    case False
    with nat_str_lead [OF this] c(1) show ?thesis by simp
  qed
  then show "int_part (nat_str n @ r) = Some (nat_str n, r)" "int_part (CHR ''-'' # nat_str n @ r) = Some (CHR ''-'' # nat_str n, r)"
    using c digits digit_not_sign [OF c(2)] by (auto simp: int_part_def)
qed

lemma number_ends:
  assumes "value_ends r"
  shows "frac_part r = ([], r)" and "exp_part r = ([], r)"
  using assms by (cases r; auto simp: value_ends_def frac_part_def exp_part_def split: list.split)+

lemma json_number_int:
  assumes "value_ends r"
  shows "json_number pf (int_str i @ r) = Some (VInt i, r)"
proof -
  have "int_part (int_str i @ r) = Some (int_str i, r)" using int_part_nat [OF assms] by (simp add: int_str_def)
  with number_ends [OF assms] show ?thesis by (simp add: json_number_def py_int_int_str)
qed

lemma json_name_none: "c \<notin> {CHR ''n'', CHR ''t'', CHR ''f'', CHR ''N'', CHR ''I'', CHR ''-''} \<Longrightarrow> json_name (json_names pf) (c # s) = None"
  by (simp add: json_names_def)

lemma json_name_minus: "d \<noteq> CHR ''I'' \<Longrightarrow> json_name (json_names pf) (CHR ''-'' # d # s) = None"
  by (simp add: json_names_def)

lemma digit_first: "is_digit c \<Longrightarrow> c \<notin> {CHR ''n'', CHR ''t'', CHR ''f'', CHR ''N'', CHR ''I'', CHR ''-'', CHR 0x22, CHR ''['', CHR ''{'', CHR '']''} \<and> \<not> json_space c"
  by (auto simp: is_digit_def json_space_def)

lemma nat_str_start: "\<exists>c q. nat_str n = c # q \<and> is_digit c"
  using nat_str_not_Nil [of n] nat_str_ends(1) [of n] by (cases "nat_str n") auto

lemma json_atom_int:
  assumes "value_ends r"
  shows "json_atom pf (int_str i @ r) = Some (VInt i, r)"
proof -
  have "json_name (json_names pf) (int_str i @ r) = None"
  proof (cases "i < 0")
    case True
    obtain c q where "nat_str (nat (- i)) = c # q" "is_digit c" using nat_str_start by blast
    with True digit_first [of c] show ?thesis by (simp add: int_str_def json_name_minus)
  next
    case False
    obtain c q where "nat_str (nat i) = c # q" "is_digit c" using nat_str_start by blast
    with False digit_first [of c] show ?thesis by (simp add: int_str_def json_name_none)
  qed
  with json_number_int [OF assms] show ?thesis by (simp add: json_atom_def)
qed

text \<open>The first character of a value.\<close>

definition value_start :: "string \<Rightarrow> bool" where
  "value_start s \<longleftrightarrow> (\<exists>c q. s = c # q \<and> \<not> json_space c \<and> c \<noteq> CHR '']'')"

lemma int_start: "\<exists>c q. int_str i = c # q \<and> c \<notin> {CHR 0x22, CHR ''['', CHR ''{'', CHR '']''} \<and> \<not> json_space c"
proof (cases "i < 0")
  case False
  obtain c q where "nat_str (nat i) = c # q" "is_digit c" using nat_str_start by blast
  with False digit_first [of c] show ?thesis by (simp add: int_str_def)
qed (simp add: int_str_def json_space_def)

lemma dumps_start:
  assumes "doc_ok (reads_back pf fr) v"
  shows "value_start (dumps_at fr ind l v @ s)"
proof (cases v)
  case (VInt i)
  then show ?thesis using int_start [of i] by (auto simp: value_start_def)
next
  case (VFloat x)
  then show ?thesis using assms by (cases "fr x") (auto simp: value_start_def reads_back_def)
qed (auto simp: value_start_def json_space_def json_str_def json_wrap_def)

lemma json_value_atom:
  assumes "json_atom pf (t @ r) = Some (v, r)" and "t \<noteq> []" and "hd t \<notin> {CHR 0x22, CHR ''['', CHR ''{''}" and "length t \<le> n"
  shows "json_value pf n (t @ r) = Some (v, r)"
  using assms by (cases n; cases t) auto

section \<open>The round trip\<close>

abbreviation list_text :: "(pyfloat \<Rightarrow> string) \<Rightarrow> nat option \<Rightarrow> nat \<Rightarrow> pyval list \<Rightarrow> string" where
  "list_text fr ind l vs \<equiv> py_join (item_sep ind l) (dumps_items fr ind l vs)"

abbreviation dict_text :: "(pyfloat \<Rightarrow> string) \<Rightarrow> nat option \<Rightarrow> nat \<Rightarrow> (string \<times> pyval) list \<Rightarrow> string" where
  "dict_text fr ind l kvs \<equiv> py_join (item_sep ind l) (dumps_entries fr ind l kvs)"

lemma list_text_Cons:
  "list_text fr ind l (v # vs) @ line_break ind k @ CHR '']'' # r =
     dumps_at fr ind l v @ (if vs = [] then line_break ind k @ CHR '']'' # r
       else CHR '','' # item_gap ind l @ list_text fr ind l vs @ line_break ind k @ CHR '']'' # r)"
  by (cases vs) (simp_all add: item_sep_gap)

text \<open>The text of entries after the opening quote of the first key.\<close>

definition entry_rest :: "(pyfloat \<Rightarrow> string) \<Rightarrow> nat option \<Rightarrow> nat \<Rightarrow> (string \<times> pyval) list \<Rightarrow> string" where
  "entry_rest fr ind l kvs = tl (dict_text fr ind l kvs)"

lemma dict_text_rest: "kvs \<noteq> [] \<Longrightarrow> dict_text fr ind l kvs = CHR 0x22 # entry_rest fr ind l kvs"
  by (cases kvs rule: list.exhaust [case_names Nil Cons]; cases "tl kvs") (auto simp: entry_rest_def json_str_def)

lemma dict_text_Cons:
  "dict_text fr ind l ((k, v) # kvs) =
     json_str k @ '': '' @ dumps_at fr ind l v @ (if kvs = [] then [] else item_sep ind l @ dict_text fr ind l kvs)"
proof (cases kvs)
  case (Cons e list)
  obtain k' v' where "e = (k', v')" by (cases e)
  with Cons show ?thesis by simp
qed simp

lemma entry_rest_Cons:
  "entry_rest fr ind l ((k, v) # kvs) @ line_break ind j @ CHR ''}'' # r =
     concat (map json_char k) @ CHR 0x22 # CHR '':'' # CHR '' '' # dumps_at fr ind l v @
       (if kvs = [] then line_break ind j @ CHR ''}'' # r
        else CHR '','' # item_gap ind l @ CHR 0x22 # entry_rest fr ind l kvs @ line_break ind j @ CHR ''}'' # r)"
  using dict_text_rest [of kvs ind l fr] unfolding entry_rest_def [of _ _ _ "_ # _"] dict_text_Cons
  by (simp add: json_str_def item_sep_gap)

lemma dict_update_fresh: "distinct (dict_keys (d @ kvs)) \<Longrightarrow> dict_update d kvs = d @ kvs"
proof (induction d kvs rule: dict_update.induct)
  case (2 d k v kvs)
  then have "dict_set k v d = d @ [(k, v)]" by (intro dict_set_fresh) auto
  with 2 show ?case by simp
qed simp

text \<open>A value with enough fuel is read back, whatever stands behind it.\<close>

lemma json_value_dumps:
  shows "doc_ok (reads_back pf fr) v \<Longrightarrow> value_ends r \<Longrightarrow> length (dumps_at fr ind l v) \<le> n \<Longrightarrow>
      json_value pf n (dumps_at fr ind l v @ r) = Some (v, r)"
    and "docs_ok (reads_back pf fr) vs \<Longrightarrow> vs \<noteq> [] \<Longrightarrow> length (list_text fr ind l vs) < n \<Longrightarrow>
      json_items pf n (list_text fr ind l vs @ line_break ind k @ CHR '']'' # r) = Some (vs, r)"
    and "entries_ok (reads_back pf fr) kvs \<Longrightarrow> kvs \<noteq> [] \<Longrightarrow> length (dict_text fr ind l kvs) \<le> n \<Longrightarrow>
      json_entries pf n (entry_rest fr ind l kvs @ line_break ind k @ CHR ''}'' # r) = Some (kvs, r)"
proof (induction fr ind l v and fr ind l vs and fr ind l kvs arbitrary: n r and n k r and n k r
    rule: dumps_at_dumps_items_dumps_entries.induct)
  case (1 fr ind l)
  then show ?case by (cases n) (auto simp: json_atom_def json_names_def)
next
  case (2 fr ind l b)
  then show ?case by (cases n; cases b) (auto simp: json_atom_def json_names_def)
next
  case (3 fr ind l i)
  have "int_str i \<noteq> []" "hd (int_str i) \<notin> {CHR 0x22, CHR ''['', CHR ''{''}" using int_start [of i] by auto
  with 3 json_value_atom [OF json_atom_int [OF 3(2)], of i n pf] show ?case by simp
next
  case (4 fr ind l x)
  then show ?case using json_value_atom [of pf "fr x" r "VFloat x" n] by (auto simp: reads_back_def)
next
  case (5 fr ind l s)
  then show ?case using json_string_text [of s r] by (cases n) (simp_all add: json_str_def)
next
  case (6 fr ind l vs)
  obtain m where n: "n = Suc m" using 6(4) by (cases n) (auto simp: json_wrap_def split: if_splits)
  show ?case
  proof (cases vs)
    case (Cons v vs')
    have items: "dumps_items fr ind (Suc l) vs \<noteq> []" by (simp add: Cons)
    obtain c q where c: "list_text fr ind (Suc l) vs @ line_break ind l @ CHR '']'' # r = c # q" "\<not> json_space c" "c \<noteq> CHR '']''"
      using dumps_start [of pf fr v ind "Suc l"] 6(2) unfolding Cons list_text_Cons value_start_def by fastforce
    have "length (list_text fr ind (Suc l) vs) < m" using 6(4) items by (simp add: json_wrap_def n)
    with 6(1) 6(2) have "json_items pf m (c # q) = Some (vs, r)" unfolding c(1) [symmetric] by (simp add: Cons)
    then show ?thesis using items c by (simp add: json_wrap_def n)
  qed (simp add: json_wrap_def n json_space_def)
next
  case (7 fr ind l kvs)
  obtain m where n: "n = Suc m" using 7(4) by (cases n) (auto simp: json_wrap_def split: if_splits)
  show ?case
  proof (cases "kvs = []")
    case False
    then have items: "dumps_entries fr ind (Suc l) kvs \<noteq> []" by (cases kvs) auto
    note rest_eq = dict_text_rest [OF False, of ind "Suc l" fr]
    have "length (dict_text fr ind (Suc l) kvs) \<le> m" using 7(4) items by (simp add: json_wrap_def n)
    with 7(1) 7(2) False have "json_entries pf m (entry_rest fr ind (Suc l) kvs @ line_break ind l @ CHR ''}'' # r) = Some (kvs, r)" by simp
    moreover have "dict_update [] kvs = kvs" using 7(2) dict_update_fresh [of "[]" kvs] by simp
    ultimately show ?thesis using items by (simp add: json_wrap_def n rest_eq json_space_def)
  qed (simp add: json_wrap_def n json_space_def)
next
  case (8 fr ind l)
  then show ?case by simp
next
  case (9 fr ind l v vs)
  obtain m where n: "n = Suc m" using 9(5) by (cases n) auto
  let ?rest = "if vs = [] then line_break ind k @ CHR '']'' # r
    else CHR '','' # item_gap ind l @ list_text fr ind l vs @ line_break ind k @ CHR '']'' # r"
  have "value_ends ?rest" by (simp add: value_ends_break) (simp add: value_ends_def)
  moreover have "length (dumps_at fr ind l v) \<le> m" using 9(5) by (cases vs) (simp_all add: n)
  ultimately have v: "json_value pf m (dumps_at fr ind l v @ ?rest) = Some (v, ?rest)" using 9(1) 9(3) by simp
  show ?case
  proof (cases "vs = []")
    case True
    then show ?thesis using v unfolding list_text_Cons by (simp add: n json_space_def)
  next
    case False
    have "length (list_text fr ind l vs) < m" using 9(5) False by (cases vs) (simp_all add: n item_sep_gap)
    then have "json_items pf m (list_text fr ind l vs @ line_break ind k @ CHR '']'' # r) = Some (vs, r)" using 9(2) 9(3) False by simp
    moreover obtain c q where "list_text fr ind l vs @ line_break ind k @ CHR '']'' # r = c # q" "\<not> json_space c"
      using False dumps_start [of pf fr "hd vs" ind l] 9(3) unfolding value_start_def by (cases vs) (fastforce simp: list_text_Cons simp del: dumps_items.simps)+
    ultimately show ?thesis using v False unfolding list_text_Cons by (simp add: n json_space_def)
  qed
next
  case (10 fr ind l)
  then show ?case by simp
next
  case (11 fr ind l key v kvs)
  obtain m where n: "n = Suc m" using 11(5) unfolding dict_text_Cons by (cases n) (auto simp: json_str_def)
  let ?rest = "if kvs = [] then line_break ind k @ CHR ''}'' # r
    else CHR '','' # item_gap ind l @ CHR 0x22 # entry_rest fr ind l kvs @ line_break ind k @ CHR ''}'' # r"
  have "value_ends ?rest" by (simp add: value_ends_break) (simp add: value_ends_def)
  moreover have "length (dumps_at fr ind l v) \<le> m" using 11(5) unfolding dict_text_Cons by (simp add: n json_str_def)
  ultimately have v: "json_value pf m (dumps_at fr ind l v @ ?rest) = Some (v, ?rest)" using 11(1) 11(3) by simp
  obtain c q where start: "dumps_at fr ind l v @ ?rest = c # q" "\<not> json_space c"
    using dumps_start [of pf fr v ind l ?rest] 11(3) unfolding value_start_def by auto
  have key: "json_string (entry_rest fr ind l ((key, v) # kvs) @ line_break ind k @ CHR ''}'' # r) =
      Some (key, CHR '':'' # CHR '' '' # dumps_at fr ind l v @ ?rest)"
    unfolding entry_rest_Cons by (rule json_string_text)
  show ?case
  proof (cases "kvs = []")
    case True
    then show ?thesis using key v start by (simp add: n json_space_def)
  next
    case False
    have "length (dict_text fr ind l kvs) \<le> m" using 11(5) False unfolding dict_text_Cons by (simp add: n item_sep_gap)
    then have "json_entries pf m (entry_rest fr ind l kvs @ line_break ind k @ CHR ''}'' # r) = Some (kvs, r)" using 11(2) 11(3) False by simp
    then show ?thesis using key v start False by (simp add: n json_space_def)
  qed
qed

text \<open>What \<open>json.dumps\<close> writes, \<open>json.loads\<close> reads back.\<close>

lemma loads_dumps:
  assumes "doc_ok (reads_back pf fr) v"
  shows "loads pf (dumps fr ind v) = Some v"
proof -
  have "skip_space (dumps_at fr ind 0 v) = dumps_at fr ind 0 v"
    using dumps_start [OF assms, of ind 0 "[]"] by (auto simp: value_start_def)
  moreover have "json_value pf (Suc (length (dumps_at fr ind 0 v))) (dumps_at fr ind 0 v @ []) = Some (v, [])"
    using assms by (intro json_value_dumps(1)) (simp_all add: value_ends_def)
  ultimately show ?thesis by (simp add: loads_def dumps_def)
qed

end
