(* ===== verification/Serializable.thy ===== *)
theory Serializable
  imports Json_Parse Py_Text Type_Registries "HOL-Library.Multiset" "HOL-Library.List_Lexorder" "HOL-Library.Char_ord"
begin

text \<open>
  Objects with a JSON form (\<open>vtelem/classes/serdes.py\<close>, \<open>vtelem/types/serializable.py\<close>), the lookup of their
  schemas (\<open>vtelem/schema/manager.py\<close>; what a validator accepts is a parameter), and the classes made of them:
  runtime enumerations (\<open>vtelem/classes/user_enum.py\<close>) and primitives (\<open>vtelem/serializables/primitive.py\<close>).
  A subclass is its name with its \<open>init\<close>.
\<close>

section \<open>Object data\<close>

text \<open>Keys are integers or strings; an element (\<open>Scalar\<close>) is a number, a string, a Boolean or \<open>None\<close>.\<close>

datatype object_key = KInt int | KStr string

datatype object = Scalar pyval | Items "object list" | Mapping "(object_key \<times> object) list"

type_synonym object_map = "(object_key, object) dict"

fun str_entries :: "(object_key \<times> 'v) list \<Rightarrow> (string \<times> 'v) list option" where
  "str_entries [] = Some []"
| "str_entries ((KStr k, v) # kvs) = map_option ((#) (k, v)) (str_entries kvs)"
| "str_entries ((KInt i, v) # kvs) = None"

fun int_entries :: "(object_key \<times> 'v) list \<Rightarrow> (int \<times> 'v) list option" where
  "int_entries [] = Some []"
| "int_entries ((KInt i, v) # kvs) = map_option ((#) (i, v)) (int_entries kvs)"
| "int_entries ((KStr k, v) # kvs) = None"

text \<open>
  The keys of a dictionary that \<open>json\<close> writes, as strings. With sorted keys those of one kind are put in
  their order first; keys of both kinds cannot be compared.
\<close>

definition sorted_entries :: "(object_key \<times> 'v) list \<Rightarrow> py_error + (string \<times> 'v) list" where
  "sorted_entries kvs =
     (case str_entries kvs of
        Some es \<Rightarrow> Inr (sort_key fst es)
      | None \<Rightarrow>
          (case int_entries kvs of
             Some es \<Rightarrow> Inr (map (\<lambda>(i, v). (int_str i, v)) (sort_key fst es))
           | None \<Rightarrow> Inl TypeError))"

definition key_text :: "object_key \<Rightarrow> string" where
  "key_text k = (case k of KInt i \<Rightarrow> int_str i | KStr s \<Rightarrow> s)"

fun json_view :: "bool \<Rightarrow> object \<Rightarrow> py_error + pyval"
  and json_views :: "bool \<Rightarrow> object list \<Rightarrow> py_error + pyval list"
  and entry_views :: "bool \<Rightarrow> (object_key \<times> object) list \<Rightarrow> py_error + (object_key \<times> pyval) list" where
  "json_view sort_keys (Scalar v) = Inr v"
| "json_view sort_keys (Items os) = (case json_views sort_keys os of Inl err \<Rightarrow> Inl err | Inr vs \<Rightarrow> Inr (VList vs))"
| "json_view sort_keys (Mapping kvs) =
     (case entry_views sort_keys kvs of
        Inl err \<Rightarrow> Inl err
      | Inr es \<Rightarrow>
          (case (if sort_keys then sorted_entries es else Inr (map (\<lambda>(k, v). (key_text k, v)) es)) of
             Inl err \<Rightarrow> Inl err
           | Inr kvs' \<Rightarrow> Inr (VDict kvs')))"
| "json_views sort_keys [] = Inr []"
| "json_views sort_keys (o1 # os) =
     (case json_view sort_keys o1 of
        Inl err \<Rightarrow> Inl err
      | Inr v \<Rightarrow> (case json_views sort_keys os of Inl err \<Rightarrow> Inl err | Inr vs \<Rightarrow> Inr (v # vs)))"
| "entry_views sort_keys [] = Inr []"
| "entry_views sort_keys ((k, o1) # kvs) =
     (case json_view sort_keys o1 of
        Inl err \<Rightarrow> Inl err
      | Inr v \<Rightarrow> (case entry_views sort_keys kvs of Inl err \<Rightarrow> Inl err | Inr es \<Rightarrow> Inr ((k, v) # es)))"

text \<open>What \<open>json.load\<close> builds.\<close>

fun loaded :: "pyval \<Rightarrow> object"
  and loaded_items :: "pyval list \<Rightarrow> object list"
  and loaded_entries :: "(string \<times> pyval) list \<Rightarrow> (object_key \<times> object) list" where
  "loaded (VList vs) = Items (loaded_items vs)"
| "loaded (VDict kvs) = Mapping (loaded_entries kvs)"
| "loaded v = Scalar v"
| "loaded_items [] = []"
| "loaded_items (v # vs) = loaded v # loaded_items vs"
| "loaded_entries [] = []"
| "loaded_entries ((k, v) # kvs) = (KStr k, loaded v) # loaded_entries kvs"

text \<open>\<open>==\<close>: the order of a dictionary does not matter.\<close>

function object_eq :: "object \<Rightarrow> object \<Rightarrow> bool" where
  "object_eq (Scalar a) (Scalar b) = key_eq a b"
| "object_eq (Items as) (Items bs) = (length as = length bs \<and> (\<forall>(a, b) \<in> set (zip as bs). object_eq a b))"
| "object_eq (Mapping as) (Mapping bs) =
     (length as = length bs \<and> (\<forall>(k, a) \<in> set as. case dict_get bs k of Some b \<Rightarrow> object_eq a b | None \<Rightarrow> False))"
| "object_eq (Scalar a) (Items bs) = False"
| "object_eq (Scalar a) (Mapping bs) = False"
| "object_eq (Items as) (Scalar b) = False"
| "object_eq (Items as) (Mapping bs) = False"
| "object_eq (Mapping as) (Scalar b) = False"
| "object_eq (Mapping as) (Items bs) = False"
  by pat_completeness auto
termination
proof (relation "measure (\<lambda>(a, b). size a)", goal_cases)
  case 1
  then show ?case by simp
next
  case (2 as bs ab a b)
  then have "a \<in> set as" by (auto dest: set_zip_leftD)
  then show ?case by (simp add: less_Suc_eq_le size_list_estimation')
next
  case (3 as bs ka k a b)
  then have "(k, a) \<in> set as" by simp
  then have "size_prod (\<lambda>_. 0) size (k, a) \<le> size_list (size_prod (\<lambda>_. 0) size) as"
    by (rule size_list_estimation') simp
  then show ?case by simp
qed

section \<open>Schemas\<close>

type_synonym schema = "object \<Rightarrow> bool"

text \<open>The manager of schemas is a dictionary of validators by class name.\<close>

type_synonym schema_manager = "(string, schema) dict"

definition schema_get :: "string \<Rightarrow> schema_manager \<Rightarrow> py_error + schema" where
  "schema_get class_name schemas = dict_item schemas class_name"

text \<open>Adding a schema under a name, or under the name of its file; \<open>load_schema\<close> reads the file.\<close>

definition schema_add :: "(string \<Rightarrow> py_error + schema) \<Rightarrow> (string \<Rightarrow> string) \<Rightarrow> string \<Rightarrow> string option \<Rightarrow> (schema_manager, schema) py" where
  "schema_add load_schema get_file_name path name =
     (let name' = (case name of None \<Rightarrow> get_file_name path | Some n \<Rightarrow> n)
      in bindp (lift_res (load_schema path)) (\<lambda>result.
         bindp (gets (\<lambda>m. name' \<notin> set (dict_keys m))) (\<lambda>new.
         bindp (assertp new) (\<lambda>_.
         bindp (modify (dict_set name' result)) (\<lambda>_. ret result)))))"

definition schema_load_dir :: "(string \<Rightarrow> py_error + schema_manager) \<Rightarrow> string \<Rightarrow> (schema_manager, schema_manager) py" where
  "schema_load_dir load_schema_dir path =
     bindp (lift_res (load_schema_dir path)) (\<lambda>new.
     bindp (modify (\<lambda>m. dict_update m new)) (\<lambda>_. gets (\<lambda>m. m)))"

section \<open>Serializable objects\<close>

text \<open>A class: its name, and its \<open>init\<close>, which may change the data and computes the rest of the object.\<close>

record 'x object_class =
  oc_name :: string
  oc_init :: "object \<Rightarrow> py_error + object \<times> 'x"

record 'x serializable =
  so_class :: "'x object_class"
  so_data :: object
  so_schema :: "schema option"
  so_manager :: "schema_manager option"
  so_valid :: bool
  so_state :: 'x

text \<open>\<open>"type" in data\<close>, on a dictionary, a list or a string.\<close>

definition has_type :: "object \<Rightarrow> py_error + bool" where
  "has_type data =
     (case data of
        Mapping kvs \<Rightarrow> Inr (KStr ''type'' \<in> set (dict_keys kvs))
      | Items os \<Rightarrow> Inr (\<exists>x \<in> set os. object_eq x (Scalar (VStr ''type'')))
      | Scalar (VStr s) \<Rightarrow> Inr (\<exists>i \<in> {0..length s}. take 4 (drop i s) = ''type'')
      | Scalar _ \<Rightarrow> Inl TypeError)"

definition set_entry :: "string \<Rightarrow> object \<Rightarrow> object \<Rightarrow> py_error + object" where
  "set_entry k v data = (case data of Mapping kvs \<Rightarrow> Inr (Mapping (dict_set (KStr k) v kvs)) | _ \<Rightarrow> Inl TypeError)"

definition with_type :: "string \<Rightarrow> object \<Rightarrow> py_error + object" where
  "with_type class_name data =
     (case has_type data of
        Inl err \<Rightarrow> Inl err
      | Inr True \<Rightarrow> Inr data
      | Inr False \<Rightarrow> set_entry ''type'' (Scalar (VStr (to_snake class_name))) data)"

text \<open>The schema given at construction, or the one that a manager has for the class.\<close>

definition validate :: "string \<Rightarrow> schema option \<Rightarrow> schema_manager option \<Rightarrow> object \<Rightarrow> py_error + bool" where
  "validate class_name schema manager data =
     (case schema of
        Some sc \<Rightarrow> Inr (sc data)
      | None \<Rightarrow>
          (case manager of
             None \<Rightarrow> Inr True
           | Some m \<Rightarrow> (case schema_get class_name m of Inl err \<Rightarrow> Inl err | Inr sc \<Rightarrow> Inr (sc data))))"

definition new_serializable :: "'x object_class \<Rightarrow> schema option \<Rightarrow> schema_manager option \<Rightarrow> object \<Rightarrow> py_error + 'x serializable" where
  "new_serializable cls schema manager data =
     (case with_type (oc_name cls) (if data = Scalar VNone then Mapping [] else data) of
        Inl err \<Rightarrow> Inl err
      | Inr d1 \<Rightarrow>
          (case oc_init cls d1 of
             Inl err \<Rightarrow> Inl err
           | Inr (d2, x) \<Rightarrow>
               (case validate (oc_name cls) schema manager d2 of
                  Inl err \<Rightarrow> Inl err
                | Inr ok \<Rightarrow> Inr \<lparr>so_class = cls, so_data = d2, so_schema = schema, so_manager = manager, so_valid = ok, so_state = x\<rparr>)))"

text \<open>Equality with another serializable object.\<close>

definition serializable_eq :: "'x serializable \<Rightarrow> 'x serializable \<Rightarrow> bool" where
  "serializable_eq s t \<longleftrightarrow> object_eq (so_data s) (so_data t) \<and> oc_name (so_class t) = oc_name (so_class s)"

definition so_name :: "'x serializable \<Rightarrow> py_error + object" where
  "so_name s =
     (case so_data s of
        Mapping kvs \<Rightarrow> Inr (case dict_get kvs (KStr ''name'') of None \<Rightarrow> Scalar (VStr (oc_name (so_class s))) | Some v \<Rightarrow> v)
      | _ \<Rightarrow> Inl AttributeError)"

definition json_text :: "(pyfloat \<Rightarrow> string) \<Rightarrow> nat option \<Rightarrow> 'x serializable \<Rightarrow> py_error + string" where
  "json_text fr indent s = (case json_view True (so_data s) of Inl err \<Rightarrow> Inl err | Inr v \<Rightarrow> Inr (dumps fr indent v))"

text \<open>\<open>load_str\<close>: a new object of the same class and parameters, but without the manager.\<close>

definition load_text :: "(string \<Rightarrow> pyfloat) \<Rightarrow> string \<Rightarrow> 'x serializable \<Rightarrow> py_error + 'x serializable" where
  "load_text pf txt s =
     (case loads pf txt of
        None \<Rightarrow> Inl ValueError
      | Some v \<Rightarrow> new_serializable (so_class s) (so_schema s) None (loaded v))"

section \<open>Integer keys\<close>

definition int_key :: "object_key \<Rightarrow> py_error + int" where
  "int_key k = (case k of KInt i \<Rightarrow> Inr i | KStr s \<Rightarrow> py_int s)"

fun int_keys :: "(object_key \<times> 'v) list \<Rightarrow> (object_key, 'v) dict \<Rightarrow> py_error + (object_key, 'v) dict" where
  "int_keys [] acc = Inr acc"
| "int_keys ((k, v) # kvs) acc = (case int_key k of Inl err \<Rightarrow> Inl err | Inr i \<Rightarrow> int_keys kvs (dict_set (KInt i) v acc))"

text \<open>
  The mapping at the end of a path gets integer keys, in place. A missing mapping on the way is
  replaced by an empty one that nobody else sees.
\<close>

fun coerce_int_keys :: "object_key list \<Rightarrow> object \<Rightarrow> py_error + object" where
  "coerce_int_keys [] data = Inl AssertionError"
| "coerce_int_keys [p] (Mapping kvs) =
     (case (case dict_get kvs p of None \<Rightarrow> Mapping [] | Some v \<Rightarrow> v) of
        Mapping m \<Rightarrow> (case int_keys m [] of Inl err \<Rightarrow> Inl err | Inr m' \<Rightarrow> Inr (Mapping (dict_set p (Mapping m') kvs)))
      | _ \<Rightarrow> Inl AttributeError)"
| "coerce_int_keys (p # q # ps) (Mapping kvs) =
     (case dict_get kvs p of
        None \<Rightarrow> (case coerce_int_keys (q # ps) (Mapping []) of Inl err \<Rightarrow> Inl err | Inr _ \<Rightarrow> Inr (Mapping kvs))
      | Some v \<Rightarrow> (case coerce_int_keys (q # ps) v of Inl err \<Rightarrow> Inl err | Inr v' \<Rightarrow> Inr (Mapping (dict_set p v' kvs))))"
| "coerce_int_keys (p # ps) data = Inl AttributeError"

section \<open>Enumerations\<close>

definition text_object :: "string \<Rightarrow> object" where
  "text_object s = Scalar (VStr s)"

fun reverse_names :: "(object_key \<times> object) list \<Rightarrow> (string, object_key option) dict \<Rightarrow> py_error + (string, object_key option) dict" where
  "reverse_names [] strings = Inr strings"
| "reverse_names ((k, Scalar (VStr s)) # kvs) strings = reverse_names kvs (dict_set (str_lower s) (Some k) strings)"
| "reverse_names ((k, v) # kvs) strings = Inl AttributeError"

definition enum_init :: "object \<Rightarrow> py_error + object \<times> (string, object_key option) dict" where
  "enum_init data =
     (case coerce_int_keys [KStr ''mappings''] data of
        Inr (Mapping kvs) \<Rightarrow>
          (case dict_get kvs (KStr ''mappings'') of
             Some (Mapping m) \<Rightarrow>
               (case reverse_names m [] of
                  Inl err \<Rightarrow> Inl err
                | Inr strings \<Rightarrow>
                    (case (dict_get kvs (KStr ''default''), dict_keys strings) of
                       (None, _) \<Rightarrow> Inl KeyError
                     | (Some d, ks) \<Rightarrow>
                         if d \<noteq> Scalar VNone then Inr (Mapping (dict_set (KStr ''default'') d kvs), strings)
                         else (case ks of
                                 [] \<Rightarrow> Inl IndexError
                               | k # _ \<Rightarrow> Inr (Mapping (dict_set (KStr ''default'') (text_object k) kvs), strings))))
           | _ \<Rightarrow> Inl AttributeError)
      | Inl err \<Rightarrow> Inl err
      | _ \<Rightarrow> Inl AttributeError)"

definition enum_class :: "(string, object_key option) dict object_class" where
  "enum_class = \<lparr>oc_name = ''UserEnum'', oc_init = enum_init\<rparr>"

text \<open>The data that \<open>user_enum_data\<close> makes of the constituents of an enumeration.\<close>

definition names_object :: "(int, string) dict \<Rightarrow> object" where
  "names_object m = Mapping (map (\<lambda>(i, s). (KInt i, text_object s)) m)"

definition enum_object :: "enum_data \<Rightarrow> object" where
  "enum_object d = Mapping [(KStr ''name'', text_object (ed_name d)), (KStr ''mappings'', names_object (ed_mappings d)),
     (KStr ''default'', case ed_default d of None \<Rightarrow> Scalar VNone | Some s \<Rightarrow> text_object s)]"

section \<open>Primitives\<close>

definition primitive_init :: "object \<Rightarrow> py_error + object \<times> primitive" where
  "primitive_init data =
     (case data of
        Mapping kvs \<Rightarrow>
          (case dict_get kvs (KStr ''name'') of
             None \<Rightarrow> Inl KeyError
           | Some v \<Rightarrow>
               (case filter (\<lambda>p. object_eq (text_object (get_name p)) v) all_primitives of
                  [] \<Rightarrow> Inl AssertionError
                | ps \<Rightarrow> Inr (data, List.last ps)))
      | _ \<Rightarrow> Inl TypeError)"

definition primitive_class :: "primitive object_class" where
  "primitive_class = \<lparr>oc_name = ''SerializablePrimitive'', oc_init = primitive_init\<rparr>"

definition from_primitive :: "schema option \<Rightarrow> schema_manager option \<Rightarrow> primitive \<Rightarrow> py_error + primitive serializable" where
  "from_primitive schema manager prim =
     new_serializable primitive_class schema manager (Mapping (map (\<lambda>(k, v). (KStr k, Scalar v)) (prim_to_dict prim)))"

section \<open>Integer keys as text\<close>

lemma int_str_inj: "int_str i = int_str j \<longleftrightarrow> i = j"
  by (metis py_int_int_str sum.inject(2))

lemma int_keys_text:
  assumes "distinct (dict_keys acc @ map (\<lambda>(i, v). KInt i) kvs)"
  shows "int_keys (map (\<lambda>(i, v). (KStr (int_str i), f v)) kvs) acc = Inr (acc @ map (\<lambda>(i, v). (KInt i, f v)) kvs)"
    and "int_keys (map (\<lambda>(i, v). (KInt i, f v)) kvs) acc = Inr (acc @ map (\<lambda>(i, v). (KInt i, f v)) kvs)"
  using assms
proof (induction kvs arbitrary: acc)
  case (Cons kv kvs)
  obtain i v where kv: "kv = (i, v)" by (cases kv)
  { case 1
    then have "dict_set (KInt i) (f v) acc = acc @ [(KInt i, f v)]" by (intro dict_set_fresh) (auto simp: kv)
    then show ?case using Cons.IH(1) [of "acc @ [(KInt i, f v)]"] 1 by (simp add: kv int_key_def py_int_int_str) }
  { case 2
    then have "dict_set (KInt i) (f v) acc = acc @ [(KInt i, f v)]" by (intro dict_set_fresh) (auto simp: kv)
    then show ?case using Cons.IH(2) [of "acc @ [(KInt i, f v)]"] 2 by (simp add: kv int_key_def) }
qed simp_all

lemma reverse_names_map:
  "reverse_names (map (\<lambda>(i, s). (KInt i, text_object s)) m) (map (\<lambda>(s, k). (s, map_option KInt k)) acc) =
     Inr (map (\<lambda>(s, k). (s, map_option KInt k)) (fold (\<lambda>(k, v). dict_set (str_lower v) (Some k)) m acc))"
proof (induction m arbitrary: acc)
  case (Cons kv m)
  have upd: "dict_set x (Some (KInt k)) (map (\<lambda>(s, k). (s, map_option KInt k)) acc) =
      map (\<lambda>(s, k). (s, map_option KInt k)) (dict_set x (Some k) acc)" for x k
    by (induction acc) auto
  show ?case using Cons.IH by (cases kv) (simp add: text_object_def upd)
qed simp

section \<open>Enumerations and their JSON form\<close>

lemma user_enum_name: "to_snake ''UserEnum'' = ''user_enum''" "to_snake ''SerializablePrimitive'' = ''serializable_primitive''"
  by code_simp+

text \<open>The object of an enumeration of the model.\<close>

definition enum_data_object :: "user_enum \<Rightarrow> object" where
  "enum_data_object e = Mapping [(KStr ''name'', text_object (ue_name e)), (KStr ''mappings'', names_object (ue_mappings e)),
     (KStr ''default'', text_object (ue_default e)), (KStr ''type'', text_object ''user_enum'')]"

definition key_strings :: "(string, int option) dict \<Rightarrow> (string, object_key option) dict" where
  "key_strings m = map (\<lambda>(s, k). (s, map_option KInt k)) m"

lemma distinct_int_keys: "distinct (dict_keys m) \<Longrightarrow> distinct (map (\<lambda>(i, v). KInt i) m)"
  by (induction m) (auto, force)

lemma coerce_names:
  assumes "distinct (dict_keys m)" and "dict_get kvs (KStr ''mappings'') = Some (names_object m) \<or>
    dict_get kvs (KStr ''mappings'') = Some (Mapping (map (\<lambda>(i, s). (KStr (int_str i), text_object s)) m))"
  shows "coerce_int_keys [KStr ''mappings''] (Mapping kvs) = Inr (Mapping (dict_set (KStr ''mappings'') (names_object m) kvs))"
  using assms(2) int_keys_text [of "[]" m text_object] distinct_int_keys [OF assms(1)] by (auto simp: names_object_def)

lemma reverse_names_object: "reverse_names (map (\<lambda>(i, s). (KInt i, text_object s)) m) [] = Inr (key_strings (reverse_map m))"
  using reverse_names_map [of m "[]"] by (simp add: reverse_map_def key_strings_def)

text \<open>Constructing the object from its data is \<open>ue_init\<close> of the model.\<close>

lemma enum_object_init:
  assumes "distinct (dict_keys (ed_mappings d))"
  shows "new_serializable enum_class schema manager (enum_object d) =
     (case ue_init d of
        Inl err \<Rightarrow> Inl err
      | Inr e \<Rightarrow>
          (case validate ''UserEnum'' schema manager (enum_data_object e) of
             Inl err \<Rightarrow> Inl err
           | Inr ok \<Rightarrow> Inr \<lparr>so_class = enum_class, so_data = enum_data_object e, so_schema = schema, so_manager = manager, so_valid = ok,
                so_state = key_strings (ue_strings e)\<rparr>))"
proof -
  let ?kvs = "[(KStr ''name'', text_object (ed_name d)), (KStr ''mappings'', names_object (ed_mappings d)),
     (KStr ''default'', case ed_default d of None \<Rightarrow> Scalar VNone | Some s \<Rightarrow> text_object s), (KStr ''type'', text_object ''user_enum'')]"
  have typed: "with_type ''UserEnum'' (enum_object d) = Inr (Mapping ?kvs)"
    by (simp add: with_type_def has_type_def enum_object_def set_entry_def user_enum_name text_object_def)
  have coerced: "coerce_int_keys [KStr ''mappings''] (Mapping ?kvs) = Inr (Mapping ?kvs)"
    using coerce_names [OF assms, of ?kvs] by simp
  have "enum_init (Mapping ?kvs) = (case ue_init d of Inl err \<Rightarrow> Inl err | Inr e \<Rightarrow> Inr (enum_data_object e, key_strings (ue_strings e)))"
    unfolding enum_init_def coerced
    by (cases "ed_default d"; cases "reverse_map (ed_mappings d)")
      (auto simp: names_object_def reverse_names_object ue_init_def enum_data_object_def key_strings_def, simp_all add: text_object_def)
  moreover have "enum_object d \<noteq> Scalar VNone" by (simp add: enum_object_def)
  ultimately show ?thesis by (simp add: new_serializable_def typed enum_class_def split: sum.split)
qed

text \<open>The document that is written: the keys in their order, with the numbers of the names as text.\<close>

definition sorted_names :: "(int, string) dict \<Rightarrow> (int, string) dict" where
  "sorted_names m = sort_key fst m"

definition enum_doc :: "user_enum \<Rightarrow> pyval" where
  "enum_doc e = VDict [(''default'', VStr (ue_default e)), (''mappings'', VDict (map (\<lambda>(i, s). (int_str i, VStr s)) (sorted_names (ue_mappings e)))),
     (''name'', VStr (ue_name e)), (''type'', VStr ''user_enum'')]"

lemma sort_key_map: "(\<And>x. g (f x) = h x) \<Longrightarrow> sort_key g (map f xs) = map f (sort_key h xs)"
proof (induction xs)
  case (Cons x xs)
  have "insort_key g (f x) (map f ys) = map f (insort_key h x ys)" for ys
    using Cons.prems by (induction ys) simp_all
  with Cons show ?case by simp
qed simp

lemma names_views: "entry_views True (map (\<lambda>(i, s). (KInt i, text_object s)) m) = Inr (map (\<lambda>(i, s). (KInt i, VStr s)) m)"
  by (induction m) (auto simp: text_object_def)

lemma names_sorted:
  "sorted_entries (map (\<lambda>(i, s). (KInt i, VStr s)) m) = Inr (map (\<lambda>(i, s). (int_str i, VStr s)) (sorted_names m))"
proof -
  have ints: "int_entries (map (\<lambda>(i, s). (KInt i, VStr s)) m) = Some (map (\<lambda>(i, s). (i, VStr s)) m)" by (induction m) auto
  have sort: "sort_key fst (map (\<lambda>(i, s). (i, VStr s)) m) = map (\<lambda>(i, s). (i, VStr s)) (sorted_names m)"
    unfolding sorted_names_def by (rule sort_key_map) auto
  show ?thesis
  proof (cases m)
    case (Cons kv m')
    then have "str_entries (map (\<lambda>(i, s). (KInt i, VStr s)) m) = None" by (cases kv) simp
    then show ?thesis by (simp add: sorted_entries_def ints sort comp_def split_beta)
  qed (simp add: sorted_entries_def sorted_names_def)
qed

lemma view_text [simp]: "json_view True (text_object s) = Inr (VStr s)"
  by (simp add: text_object_def)

lemma view_names: "json_view True (names_object m) = Inr (VDict (map (\<lambda>(i, s). (int_str i, VStr s)) (sorted_names m)))"
  by (simp add: names_object_def names_views names_sorted)

lemma enum_view: "json_view True (enum_data_object e) = Inr (enum_doc e)"
  by (simp add: enum_data_object_def view_names enum_doc_def sorted_entries_def)

lemma sorted_dict:
  fixes m :: "('k :: linorder, 'v) dict"
  assumes "distinct (dict_keys m)"
  shows "distinct (dict_keys (sort_key fst m))" and "dict_get (sort_key fst m) = dict_get m"
proof -
  have "mset (dict_keys (sort_key fst m)) = mset (dict_keys m)" by (metis mset_map mset_sort)
  then show d: "distinct (dict_keys (sort_key fst m))" using assms mset_eq_imp_distinct_iff by blast
  show "dict_get (sort_key fst m) = dict_get m" using assms d by (intro map_of_inject_set [THEN iffD2]) auto
qed

lemma sorted_names_facts: "set (sorted_names m) = set m" "mset (sorted_names m) = mset m" "length (sorted_names m) = length m"
    "distinct (dict_keys m) \<Longrightarrow> distinct (dict_keys (sorted_names m))"
    "distinct (dict_keys m) \<Longrightarrow> dict_get (sorted_names m) = dict_get m"
  using sorted_dict [of m] by (simp_all add: sorted_names_def)

lemma enum_doc_ok: "distinct (dict_keys (ue_mappings e)) \<Longrightarrow> doc_ok P (enum_doc e)"
proof -
  assume d: "distinct (dict_keys (ue_mappings e))"
  have "entries_ok P (map (\<lambda>(i, s). (int_str i, VStr s)) m)" for m by (induction m) auto
  moreover have "dict_keys (map (\<lambda>(i, s). (int_str i, VStr s)) m) = map int_str (dict_keys m)" for m :: "(int, string) dict" by auto
  then have "distinct (dict_keys (map (\<lambda>(i, s). (int_str i, VStr s)) (sorted_names (ue_mappings e))))"
    using sorted_names_facts(4) [OF d] by (simp add: distinct_map inj_on_def int_str_inj)
  ultimately show ?thesis by (simp add: enum_doc_def)
qed

text \<open>The object that is read back.\<close>

definition read_object :: "user_enum \<Rightarrow> object" where
  "read_object e = Mapping [(KStr ''default'', text_object (ue_default e)), (KStr ''mappings'', names_object (sorted_names (ue_mappings e))),
     (KStr ''name'', text_object (ue_name e)), (KStr ''type'', text_object ''user_enum'')]"

lemma enum_loaded:
  "loaded (enum_doc e) = Mapping [(KStr ''default'', text_object (ue_default e)),
     (KStr ''mappings'', Mapping (map (\<lambda>(i, s). (KStr (int_str i), text_object s)) (sorted_names (ue_mappings e)))),
     (KStr ''name'', text_object (ue_name e)), (KStr ''type'', text_object ''user_enum'')]"
proof -
  have "loaded_entries (map (\<lambda>(i, s). (int_str i, VStr s)) m) = map (\<lambda>(i, s). (KStr (int_str i), text_object s)) m" for m
    by (induction m) (auto simp: text_object_def)
  then show ?thesis by (simp add: enum_doc_def text_object_def)
qed

lemma enum_read:
  assumes "distinct (dict_keys (ue_mappings e))"
  shows "enum_init (loaded (enum_doc e)) = Inr (read_object e, key_strings (reverse_map (sorted_names (ue_mappings e))))"
proof -
  let ?m = "sorted_names (ue_mappings e)"
  let ?kvs = "[(KStr ''default'', text_object (ue_default e)), (KStr ''mappings'', Mapping (map (\<lambda>(i, s). (KStr (int_str i), text_object s)) ?m)),
     (KStr ''name'', text_object (ue_name e)), (KStr ''type'', text_object ''user_enum'')]"
  have coerced: "coerce_int_keys [KStr ''mappings''] (Mapping ?kvs) = Inr (read_object e)"
    using coerce_names [OF sorted_names_facts(4) [OF assms], of ?kvs] by (simp add: read_object_def)
  show ?thesis
    unfolding enum_loaded enum_init_def coerced
    by (simp add: read_object_def names_object_def reverse_names_object) (simp add: text_object_def)
qed

lemma object_eq_text [simp]: "object_eq (text_object s) (text_object t) \<longleftrightarrow> s = t"
  by (simp add: text_object_def)

lemma names_object_eq:
  assumes "distinct (dict_keys m)" and "distinct (dict_keys m')" and "set m = set m'" and "length m = length m'"
  shows "object_eq (names_object m) (names_object m')"
proof -
  have "dict_get (map (\<lambda>(i, s). (KInt i, text_object s)) m') (KInt i) = Some (text_object s)" if "(i, s) \<in> set m" for i s
  proof (rule map_of_is_SomeI)
    show "distinct (dict_keys (map (\<lambda>(i, s). (KInt i, text_object s)) m'))"
      using distinct_int_keys [OF assms(2)] by (simp add: comp_def case_prod_unfold)
    show "(KInt i, text_object s) \<in> set (map (\<lambda>(i, s). (KInt i, text_object s)) m')" using that assms(3) by force
  qed
  with assms(4) show ?thesis by (auto simp: names_object_def)
qed

lemma read_object_eq:
  assumes "distinct (dict_keys (ue_mappings e))"
  shows "object_eq (read_object e) (enum_data_object e)"
  using names_object_eq [OF sorted_names_facts(4) [OF assms] assms] sorted_names_facts(1,3) [of "ue_mappings e"]
  by (simp add: read_object_def enum_data_object_def)

lemma reverse_sorted:
  assumes "distinct (map (str_lower \<circ> snd) m)" and "distinct (dict_keys m)"
  shows "dict_get (reverse_map (sorted_names m)) = dict_get (reverse_map m)"
proof
  fix s
  have d: "distinct (map (str_lower \<circ> snd) (sorted_names m))"
    using assms(1) sorted_names_facts(2) [of m] by (metis mset_map mset_eq_imp_distinct_iff)
  have "find (\<lambda>(k, v). str_lower v = s) (sorted_names m) = find (\<lambda>(k, v). str_lower v = s) m"
    using find_pair_iff [OF d, of s] find_pair_iff [OF assms(1), of s] sorted_names_facts(1) [of m]
    by (cases "find (\<lambda>(k, v). str_lower v = s) (sorted_names m)"; cases "find (\<lambda>(k, v). str_lower v = s) m") auto
  then show "dict_get (reverse_map (sorted_names m)) s = dict_get (reverse_map m) s"
    by (simp add: reverse_map_def reverse_map_fold [OF d] reverse_map_fold [OF assms(1)])
qed

text \<open>Reading the document makes an equal object of the same class and schema.\<close>

lemma enum_load:
  assumes "distinct (dict_keys (ue_mappings e))" and "so_class so = enum_class"
    and "validate ''UserEnum'' (so_schema so) None (read_object e) = Inr ok"
    and "loads pf txt = Some (enum_doc e)"
  shows "load_text pf txt so = Inr \<lparr>so_class = enum_class, so_data = read_object e, so_schema = so_schema so, so_manager = None, so_valid = ok,
    so_state = key_strings (reverse_map (sorted_names (ue_mappings e)))\<rparr>"
proof -
  have "with_type ''UserEnum'' (loaded (enum_doc e)) = Inr (loaded (enum_doc e))" by (simp add: enum_loaded with_type_def has_type_def)
  moreover have "loaded (enum_doc e) \<noteq> Scalar VNone" by (simp add: enum_loaded)
  ultimately show ?thesis using enum_read [OF assms(1)] assms(2-4)
    by (simp add: load_text_def new_serializable_def enum_class_def)
qed

lemma validate_plain: "\<exists>ok. validate n schema None data = Inr ok"
  by (cases schema) (auto simp: validate_def intro: exI [of _ True])

lemma key_strings_get: "dict_get (key_strings m) s = map_option (map_option KInt) (dict_get m s)"
  by (induction m) (auto simp: key_strings_def)

lemma ue_init_fields:
  assumes "ue_init d = Inr e"
  shows "ue_mappings e = ed_mappings d" and "ue_strings e = reverse_map (ed_mappings d)"
  using assms by (auto simp: ue_init_def Let_def split: option.splits list.splits)

lemma new_enum:
  assumes "ue_init d = Inr e" and "distinct (dict_keys (ed_mappings d))" and "new_serializable enum_class schema manager (enum_object d) = Inr so"
  shows "so_class so = enum_class" and "so_data so = enum_data_object e" and "so_schema so = schema" and "so_state so = key_strings (ue_strings e)"
  using assms enum_object_init [OF assms(2), of schema manager] by (auto split: sum.splits)

lemma object_eq_enum_name: "so_data so = enum_data_object e \<Longrightarrow> so_name so = Inr (text_object (ue_name e))"
    "so_data so = read_object e \<Longrightarrow> so_name so = Inr (text_object (ue_name e))"
  by (simp_all add: so_name_def enum_data_object_def read_object_def)

text \<open>The primitives, each found by its name.\<close>

lemma primitive_found:
  assumes "dict_get kvs (KStr ''name'') = Some (text_object (get_name p))"
  shows "primitive_init (Mapping kvs) = Inr (Mapping kvs, p)"
proof -
  have "(get_name q = get_name p) = (q = p)" for q using get_name_inj by blast
  then have "filter (\<lambda>q. object_eq (text_object (get_name q)) (text_object (get_name p))) all_primitives = [p]"
    by (cases p) (simp_all add: all_primitives_def)
  with assms show ?thesis by (simp add: primitive_init_def)
qed

text \<open>Objects whose data is one dictionary of elements.\<close>

definition flat_object :: "(string, pyval) dict \<Rightarrow> object" where
  "flat_object kvs = Mapping (map (\<lambda>(k, v). (KStr k, Scalar v)) kvs)"

definition plain_element :: "pyval \<Rightarrow> bool" where
  "plain_element v \<longleftrightarrow> (case v of VList _ \<Rightarrow> False | VDict _ \<Rightarrow> False | VFloat _ \<Rightarrow> False | _ \<Rightarrow> True)"

lemma flat_view: "json_view True (flat_object kvs) = Inr (VDict (sort_key fst kvs))"
proof -
  have "entry_views True (map (\<lambda>(k, v). (KStr k, Scalar v)) kvs) = Inr (map (\<lambda>(k, v). (KStr k, v)) kvs)" by (induction kvs) auto
  moreover have "str_entries (map (\<lambda>(k, v). (KStr k, v)) kvs) = Some kvs" by (induction kvs) auto
  ultimately show ?thesis by (simp add: flat_object_def sorted_entries_def)
qed

lemma flat_loaded: "\<forall>(k, v) \<in> set kvs. plain_element v \<Longrightarrow> loaded (VDict kvs) = flat_object kvs"
proof -
  assume "\<forall>(k, v) \<in> set kvs. plain_element v"
  then have "loaded_entries kvs = map (\<lambda>(k, v). (KStr k, Scalar v)) kvs"
  proof (induction kvs)
    case (Cons kv kvs)
    obtain k v where "kv = (k, v)" by (cases kv)
    with Cons show ?case by (cases v) (auto simp: plain_element_def)
  qed simp
  then show ?thesis by (simp add: flat_object_def)
qed

lemma flat_ok: "distinct (dict_keys kvs) \<Longrightarrow> \<forall>(k, v) \<in> set kvs. plain_element v \<Longrightarrow> doc_ok P (VDict kvs)"
proof -
  assume "distinct (dict_keys kvs)" and plain: "\<forall>(k, v) \<in> set kvs. plain_element v"
  have "entries_ok P kvs" using plain
  proof (induction kvs)
    case (Cons kv kvs)
    obtain k v where "kv = (k, v)" by (cases kv)
    with Cons show ?case by (cases v) (auto simp: plain_element_def)
  qed simp
  then show ?thesis using \<open>distinct (dict_keys kvs)\<close> by simp
qed

lemma flat_get: "dict_get (map (\<lambda>(k, v). (KStr k, Scalar v)) kvs) (KStr k) = map_option Scalar (dict_get kvs k)"
  by (induction kvs) auto

lemma flat_keys: "KStr k \<in> set (dict_keys (map (\<lambda>(k, v). (KStr k, Scalar v)) kvs)) \<longleftrightarrow> k \<in> set (dict_keys kvs)"
  by (induction kvs) auto

lemma flat_with_type:
  "with_type c (flat_object kvs) =
     Inr (flat_object (if ''type'' \<in> set (dict_keys kvs) then kvs else kvs @ [(''type'', VStr (to_snake c))]))"
proof (cases "''type'' \<in> set (dict_keys kvs)")
  case False
  then have "dict_set (KStr ''type'') (Scalar (VStr (to_snake c))) (map (\<lambda>(k, v). (KStr k, Scalar v)) kvs) =
      map (\<lambda>(k, v). (KStr k, Scalar v)) kvs @ [(KStr ''type'', Scalar (VStr (to_snake c)))]"
    unfolding flat_keys [symmetric] by (rule dict_set_fresh)
  with False flat_keys [of "''type''" kvs] show ?thesis by (simp add: with_type_def has_type_def flat_object_def set_entry_def)
qed (use flat_keys [of "''type''" kvs] in \<open>simp add: with_type_def has_type_def flat_object_def\<close>)

lemma element_eq_refl: "plain_element v \<Longrightarrow> key_eq v v"
  by (cases v) (auto simp: plain_element_def)

lemma flat_eq:
  assumes "distinct (dict_keys b)" and "set a = set b" and "length a = length b" and "\<forall>(k, v) \<in> set b. plain_element v"
  shows "object_eq (flat_object a) (flat_object b)"
proof -
  have "dict_get b k = Some v" "key_eq v v" if "(k, v) \<in> set a" for k v using that assms(1,2,4) element_eq_refl by auto
  with assms(3) show ?thesis by (auto simp: flat_object_def flat_get)
qed

lemma primitive_data: "distinct (dict_keys (prim_to_dict p))" "\<forall>(k, v) \<in> set (prim_to_dict p). plain_element v"
    "dict_get (prim_to_dict p) ''name'' = Some (VStr (get_name p))"
  by (cases p; simp add: prim_to_dict_def get_name_def plain_element_def Let_def)+

lemma enum_json_read:
  assumes "ue_init d = Inr e" and "distinct (dict_keys (ed_mappings d))"
    and "new_serializable enum_class schema manager (enum_object d) = Inr so"
  shows "\<exists>txt so'. json_text fr indent so = Inr txt \<and> txt \<noteq> [] \<and> load_text pf txt so = Inr so' \<and> serializable_eq so' so \<and>
    so_name so' = so_name so \<and> so_schema so' = so_schema so \<and> so_manager so' = None \<and>
    (distinct (map (str_lower \<circ> snd) (ed_mappings d)) \<longrightarrow> dict_get (so_state so') = dict_get (so_state so))"
proof -
  note so = new_enum [OF assms]
  have m: "distinct (dict_keys (ue_mappings e))" using assms(2) ue_init_fields [OF assms(1)] by simp
  let ?txt = "dumps fr indent (enum_doc e)"
  have "json_text fr indent so = Inr ?txt" by (simp add: json_text_def so(2) enum_view)
  moreover obtain ok where ok: "validate ''UserEnum'' (so_schema so) None (read_object e) = Inr ok" using validate_plain by blast
  have "loads pf ?txt = Some (enum_doc e)" by (rule loads_dumps) (rule enum_doc_ok [OF m])
  note load = enum_load [OF m so(1) ok this]
  moreover have "so_name so' = so_name so" if "so_data so' = read_object e" for so' :: "(string, object_key option) dict serializable"
    using object_eq_enum_name(1) [OF so(2)] object_eq_enum_name(2) [OF that] by simp
  moreover have "dict_get (key_strings (reverse_map (sorted_names (ue_mappings e)))) = dict_get (so_state so)"
    if "distinct (map (str_lower \<circ> snd) (ed_mappings d))"
    using reverse_sorted [of "ue_mappings e"] that m ue_init_fields [OF assms(1)] by (simp add: so(4) key_strings_get fun_eq_iff)
  moreover have "?txt \<noteq> []" by (simp add: dumps_def enum_doc_def json_wrap_def)
  ultimately show ?thesis using read_object_eq [OF m] by (auto simp: serializable_eq_def so(1,2))
qed

text \<open>An enumeration with its names out of order.\<close>

definition sample_data :: enum_data where
  "sample_data = \<lparr>ed_name = ''color'', ed_mappings = [(12, ''red''), (3, ''blue'')], ed_default = None\<rparr>"

definition sample_enum :: user_enum where
  "sample_enum = \<lparr>ue_name = ''color'', ue_mappings = [(12, ''red''), (3, ''blue'')], ue_default = ''red'',
     ue_strings = [(''red'', Some 12), (''blue'', Some 3)]\<rparr>"

lemma sample_enum_init: "ue_init sample_data = Inr sample_enum"
  by (simp add: sample_data_def sample_enum_def ue_init_def reverse_map_def str_lower_def char_lower_def is_upper_def)

definition sample_serializable :: "(string, object_key option) dict serializable" where
  "sample_serializable = \<lparr>so_class = enum_class, so_data = enum_data_object sample_enum, so_schema = None, so_manager = None, so_valid = True,
     so_state = key_strings (ue_strings sample_enum)\<rparr>"

lemma sample_object: "new_serializable enum_class None None (enum_object sample_data) = Inr sample_serializable"
  using enum_object_init [of sample_data None None] sample_enum_init
  by (simp add: validate_def sample_serializable_def) (simp add: sample_data_def)

lemma sample_text: "json_text fr indent sample_serializable = Inr (dumps fr indent (enum_doc sample_enum))"
  by (simp add: json_text_def sample_serializable_def enum_view)

section \<open>Properties\<close>

text \<open>
  Property C14: an enumeration object that is written as JSON, with or without indentation, and read
  again by an object of its class is equal to the original, has its name and, when its names are
  distinct, gives every name the same number, although keys are sorted on the way and integer keys
  are written as text. It keeps the schema but not the manager that validated the original.
\<close>

theorem enum_json_roundtrip:
  assumes "ue_init d = Inr e" and "distinct (dict_keys (ed_mappings d))"
    and "new_serializable enum_class schema manager (enum_object d) = Inr so"
  shows "\<exists>txt so'. json_text fr indent so = Inr txt \<and> load_text pf txt so = Inr so' \<and> serializable_eq so' so \<and>
    so_name so' = so_name so \<and> so_schema so' = so_schema so \<and> so_manager so' = None \<and>
    (distinct (map (str_lower \<circ> snd) (ed_mappings d)) \<longrightarrow> dict_get (so_state so') = dict_get (so_state so))"
  using enum_json_read [OF assms] by blast

theorem enum_json_roundtrip_witness:
  "\<exists>so txt so'. new_serializable enum_class None None (enum_object sample_data) = Inr so \<and>
     json_text (\<lambda>_. []) (Some 2) so = Inr txt \<and> load_text (\<lambda>_. 0) txt so = Inr so' \<and> serializable_eq so' so"
  using enum_json_roundtrip [OF sample_enum_init _ sample_object, of "\<lambda>_. []" "Some 2" "\<lambda>_. 0"] sample_object
  by (fastforce simp: sample_data_def)

text \<open>
  A primitive written as JSON and read again is an equal object of the same primitive.
\<close>

theorem primitive_json_roundtrip:
  "\<exists>so txt so'. from_primitive None None p = Inr so \<and> json_text fr indent so = Inr txt \<and> load_text pf txt so = Inr so' \<and>
     serializable_eq so' so \<and> so_state so = p \<and> so_state so' = p"
proof -
  let ?kvs = "prim_to_dict p @ [(''type'', VStr ''serializable_primitive'')]"
  let ?s = "sort_key fst ?kvs"
  have new: "''type'' \<notin> set (dict_keys (prim_to_dict p))" by (cases p) (simp_all add: prim_to_dict_def Let_def)
  have kvs: "distinct (dict_keys ?kvs)" "\<forall>(k, v) \<in> set ?kvs. plain_element v" using primitive_data(1,2) [of p] new by (auto simp: plain_element_def)
  have name: "dict_get ?kvs ''name'' = Some (VStr (get_name p))" using primitive_data(3) [of p] by (simp add: map_add_def)
  have sorted_name: "dict_get ?s ''name'' = Some (VStr (get_name p))" using name sorted_dict(2) [OF kvs(1)] by simp
  have plain: "\<forall>(k, v) \<in> set ?s. plain_element v" using kvs(2) by simp
  have init: "primitive_init (flat_object m) = Inr (flat_object m, p)" if "dict_get m ''name'' = Some (VStr (get_name p))" for m
    using that primitive_found [of "map (\<lambda>(k, v). (KStr k, Scalar v)) m" p] by (simp add: flat_object_def flat_get text_object_def)
  define so where "so = \<lparr>so_class = primitive_class, so_data = flat_object ?kvs, so_schema = None, so_manager = None, so_valid = True, so_state = p\<rparr>"
  have "from_primitive None None p = Inr so"
    using new init [OF name] flat_with_type [of "''SerializablePrimitive''" "prim_to_dict p"]
    by (simp add: from_primitive_def new_serializable_def primitive_class_def validate_def flat_object_def user_enum_name so_def)
  moreover have "json_text fr indent so = Inr (dumps fr indent (VDict ?s))" by (simp add: json_text_def so_def flat_view)
  moreover have "loads pf (dumps fr indent (VDict ?s)) = Some (VDict ?s)"
    by (rule loads_dumps) (rule flat_ok [OF sorted_dict(1) [OF kvs(1)] plain])
  then have "load_text pf (dumps fr indent (VDict ?s)) so = Inr (so\<lparr>so_data := flat_object ?s\<rparr>)"
    using init [OF sorted_name] flat_with_type [of "''SerializablePrimitive''" ?s] flat_loaded [OF plain]
    by (simp add: load_text_def new_serializable_def primitive_class_def validate_def so_def) (simp add: flat_object_def)
  moreover have "object_eq (flat_object ?s) (flat_object ?kvs)" by (rule flat_eq [OF kvs(1) _ _ kvs(2)]) simp_all
  ultimately show ?thesis by (simp add: serializable_eq_def so_def)
qed

end
