(* ===== verification/Message_Cache.thy ===== *)
theory Message_Cache
  imports Message_Framer
begin

text \<open>
  The message cache (\<open>vtelem/message/cache.py\<close>): message frames are ingested in any order, their
  fragments are stored by message type and checksum, and a message whose fragments are all there
  is handed to the callbacks registered for its type. The fragment files are part of the state.
  A callback is a number here and calling it is recorded. What the third-party cache directory
  decodes to is an argument of the constructor.
\<close>

section \<open>State\<close>

record cache_entry =
  ce_fragments :: int
  ce_complete :: bool
  ce_number :: "int option"

type_synonym entries = "(int, cache_entry) dict"

type_synonym fragments = "(int, (int, byte list) dict) dict"

record message_cache =
  mc_data :: "message_type \<Rightarrow> entries"
  mc_fragment_data :: "message_type \<Rightarrow> fragments"
  mc_files :: "(int list, byte list) dict"
  mc_callbacks :: "message_type \<Rightarrow> nat list"
  mc_calls :: "(nat \<times> message_type \<times> int \<times> byte list) list"

section \<open>Callbacks\<close>

definition add_callback :: "message_type \<Rightarrow> nat \<Rightarrow> (message_cache, unit) py" where
  "add_callback mtype callback =
     modify (\<lambda>c. c\<lparr>mc_callbacks := (mc_callbacks c)(mtype := mc_callbacks c mtype @ [callback])\<rparr>)"

definition call :: "message_type \<Rightarrow> int \<Rightarrow> byte list \<Rightarrow> nat \<Rightarrow> (message_cache, unit) py" where
  "call mtype number data callback =
     modify (\<lambda>c. c\<lparr>mc_calls := mc_calls c @ [(callback, mtype, number, data)]\<rparr>)"

definition service_callbacks :: "message_type \<Rightarrow> int \<Rightarrow> byte list \<Rightarrow> (message_cache, unit) py" where
  "service_callbacks mtype number data =
     bindp (gets (\<lambda>c. mc_callbacks c mtype)) (\<lambda>cbs. for_each (call mtype number data) cbs)"

section \<open>Contents\<close>

definition complete :: "message_type \<Rightarrow> message_cache \<Rightarrow> int list" where
  "complete mtype c = map fst (filter (\<lambda>(crc', data). ce_complete data) (mc_data c mtype))"

fun join_fragments :: "(int, byte list) dict \<Rightarrow> int list \<Rightarrow> py_error + byte list" where
  "join_fragments fragments [] = Inr []"
| "join_fragments fragments (i # is) =
     (case dict_item fragments i of
        Inl e \<Rightarrow> Inl e
      | Inr bs \<Rightarrow> (case join_fragments fragments is of Inl e \<Rightarrow> Inl e | Inr rest \<Rightarrow> Inr (bs @ rest)))"

definition content :: "message_type \<Rightarrow> int \<Rightarrow> message_cache \<Rightarrow> py_error + (int \<times> byte list) option" where
  "content mtype crc_key c =
     (case dict_get (mc_data c mtype) crc_key of
        None \<Rightarrow> Inr None
      | Some message \<Rightarrow>
          if \<not> ce_complete message then Inr None
          else case dict_item (mc_fragment_data c mtype) crc_key of
            Inl e \<Rightarrow> Inl e
          | Inr fragments \<Rightarrow>
              (case join_fragments fragments (map int [0..<nat (ce_fragments message)]) of
                 Inl e \<Rightarrow> Inl e
               | Inr data \<Rightarrow> (case ce_number message of
                                None \<Rightarrow> Inl KeyError
                              | Some n \<Rightarrow> Inr (Some (n, data)))))"

definition store_fragment :: "message_type \<Rightarrow> int \<Rightarrow> int \<Rightarrow> byte list \<Rightarrow> (message_cache, unit) py" where
  "store_fragment mtype crc_key fragment_index data =
     bindp (modify (\<lambda>c.
       let to_write = mc_fragment_data c mtype;
           frags = (case dict_get to_write crc_key of None \<Rightarrow> [] | Some d \<Rightarrow> d)
       in c\<lparr>mc_fragment_data := (mc_fragment_data c)
              (mtype := dict_set crc_key (dict_set fragment_index data frags) to_write)\<rparr>)) (\<lambda>_.
     modify (\<lambda>c. c\<lparr>mc_files :=
       dict_set [message_type_value mtype, crc_key, fragment_index] data (mc_files c)\<rparr>))"

section \<open>Ingesting\<close>

text \<open>
  The test \<open>message.fragment_index not in crc_data\<close> looks for the index among the keys
  \<open>fragments\<close>, \<open>complete\<close> and \<open>number\<close> of the entry, which are strings.
\<close>

definition index_in_entry :: "int \<Rightarrow> cache_entry \<Rightarrow> bool" where
  "index_in_entry idx crc_data = False"

definition update_entry :: "message_type \<Rightarrow> int \<Rightarrow> cache_entry \<Rightarrow> (message_cache, unit) py" where
  "update_entry mtype crc_key e =
     modify (\<lambda>c. c\<lparr>mc_data := (mc_data c)(mtype := dict_set crc_key e (mc_data c mtype))\<rparr>)"

definition deliver :: "message_type \<Rightarrow> int \<Rightarrow> (message_cache, unit) py" where
  "deliver mtype crc_key =
     bindp (gets (content mtype crc_key)) (\<lambda>r. bindp (lift_res r) (\<lambda>full_message.
     case full_message of
       None \<Rightarrow> raise AssertionError
     | Some (number, data) \<Rightarrow> service_callbacks mtype number data))"

definition ingest_message :: "parsed_message \<Rightarrow> (message_cache, unit) py" where
  "ingest_message message =
     (let mtype = pm_type message; key = pm_crc message
      in bindp (gets (\<lambda>c. case dict_get (mc_data c mtype) key of
                  None \<Rightarrow> \<lparr>ce_fragments = 0, ce_complete = False, ce_number = None\<rparr>
                | Some e \<Rightarrow> e)) (\<lambda>crc_data.
         bindp (update_entry mtype key crc_data) (\<lambda>_.
         if ce_complete crc_data
         then update_entry mtype key (crc_data\<lparr>ce_number := Some (pm_number message)\<rparr>)
         else if index_in_entry (pm_fragment_index message) crc_data then ret ()
         else
           bindp (store_fragment mtype key (pm_fragment_index message) (pm_data message)) (\<lambda>_.
           let stored = crc_data\<lparr>ce_fragments := ce_fragments crc_data + 1\<rparr>
           in bindp (update_entry mtype key stored) (\<lambda>_.
              if ce_fragments stored = pm_total_fragments message
              then bindp (update_entry mtype key
                          (stored\<lparr>ce_complete := True, ce_number := Some (pm_number message)\<rparr>)) (\<lambda>_.
                   deliver mtype key)
              else ret ())))))"

definition ingest :: "parsed_frame \<Rightarrow> (message_cache, unit) py" where
  "ingest frame =
     bindp (assertp (fh_type (pf_header frame) = MESSAGE)) (\<lambda>_.
     case pf_body frame of
       MessageBody obj bytes \<Rightarrow> bindp (lift_res (to_parsed obj bytes)) ingest_message
     | _ \<Rightarrow> raise AssertionError)"

section \<open>Loading\<close>

definition service_all_callbacks :: "(message_cache, unit) py" where
  "service_all_callbacks = for_each (\<lambda>mtype.
     bindp (gets (\<lambda>c. complete mtype c)) (for_each (\<lambda>key. deliver mtype key))) all_message_types"

text \<open>The directory listing of a path of the fragment directory.\<close>

definition listdir :: "(int list, byte list) dict \<Rightarrow> int list \<Rightarrow> py_error + int list" where
  "listdir files path =
     (let below = filter (\<lambda>p. take (length path) p = path \<and> length path < length p) (map fst files)
      in if path \<in> set (map fst files) then Inl NotADirectoryError
         else if path \<noteq> [] \<and> below = [] then Inl FileNotFoundError
         else Inr (remdups (map (\<lambda>p. p ! length path) below)))"

definition load_fragment :: "int list \<Rightarrow> message_type \<Rightarrow> int \<Rightarrow> int \<Rightarrow> (message_cache, unit) py" where
  "load_fragment path mtype key name =
     bindp (gets (\<lambda>c. dict_get (mc_files c) (path @ [name]))) (\<lambda>r.
     case r of
       None \<Rightarrow> raise FileNotFoundError
     | Some data \<Rightarrow> modify (\<lambda>c.
         let frags = (case dict_get (mc_fragment_data c mtype) key of None \<Rightarrow> [] | Some d \<Rightarrow> d)
         in c\<lparr>mc_fragment_data := (mc_fragment_data c)
                (mtype := dict_set key (dict_set name data frags) (mc_fragment_data c mtype))\<rparr>))"

text \<open>The loop over the checksums extends the same path variable in every round.\<close>

fun load_crcs :: "message_type \<Rightarrow> int list \<Rightarrow> int list \<Rightarrow> (message_cache, unit) py" where
  "load_crcs mtype path [] = ret ()"
| "load_crcs mtype path (key # keys) =
     bindp (modify (\<lambda>c. if dict_get (mc_fragment_data c mtype) key = None
              then c\<lparr>mc_fragment_data := (mc_fragment_data c)
                (mtype := dict_set key [] (mc_fragment_data c mtype))\<rparr> else c)) (\<lambda>_.
     bindp (gets (\<lambda>c. listdir (mc_files c) (path @ [key]))) (\<lambda>r. bindp (lift_res r) (\<lambda>frags.
     bindp (for_each (load_fragment (path @ [key]) mtype key) frags) (\<lambda>_.
     load_crcs mtype (path @ [key]) keys))))"

definition load_type :: "int \<Rightarrow> (message_cache, unit) py" where
  "load_type mtype_int =
     (case MessageType mtype_int of
        Inl _ \<Rightarrow> raise KeyError
      | Inr mtype \<Rightarrow>
          bindp (gets (\<lambda>c. listdir (mc_files c) [mtype_int])) (\<lambda>r. bindp (lift_res r) (\<lambda>keys.
          load_crcs mtype [mtype_int] keys)))"

definition load_fragments :: "(message_cache, unit) py" where
  "load_fragments =
     bindp (gets (\<lambda>c. listdir (mc_files c) [])) (\<lambda>r. bindp (lift_res r) (\<lambda>mtypes.
     for_each load_type mtypes))"

definition new_message_cache :: "(message_type \<Rightarrow> entries) \<Rightarrow> (int list, byte list) dict \<Rightarrow>
    (message_type \<Rightarrow> nat list) \<Rightarrow> py_error + message_cache" where
  "new_message_cache data files callbacks =
     (case bindp load_fragments (\<lambda>_. service_all_callbacks)
          \<lparr>mc_data = data, mc_fragment_data = (\<lambda>_. []), mc_files = files, mc_callbacks = callbacks,
           mc_calls = []\<rparr> of
        (Inl e, _) \<Rightarrow> Inl e
      | (Inr _, c) \<Rightarrow> Inr c)"

section \<open>Reassembly\<close>

lemma service_callbacks_run:
  "service_callbacks mt n d c =
     (Inr (), c\<lparr>mc_calls := mc_calls c @ map (\<lambda>cb. (cb, mt, n, d)) (mc_callbacks c mt)\<rparr>)"
proof -
  have "for_each (call mt n d) cbs c =
      (Inr (), c\<lparr>mc_calls := mc_calls c @ map (\<lambda>cb. (cb, mt, n, d)) cbs\<rparr>)" for cbs
    by (induction cbs arbitrary: c) (simp_all add: call_def)
  then show ?thesis by (simp add: service_callbacks_def)
qed

text \<open>
  A cache that has some fragments of one message: exactly these are stored, their number is in
  the entry, and the entry is not complete.
\<close>

definition holds_fragments :: "message_cache \<Rightarrow> message_type \<Rightarrow> int \<Rightarrow> (nat \<Rightarrow> byte list) \<Rightarrow> nat list \<Rightarrow> bool" where
  "holds_fragments c mt key frag js \<longleftrightarrow>
     distinct js \<and>
     (case dict_get (mc_data c mt) key of
        None \<Rightarrow> js = []
      | Some e \<Rightarrow> ce_fragments e = int (length js) \<and> \<not> ce_complete e) \<and>
     (\<forall>j. (case dict_get (mc_fragment_data c mt) key of None \<Rightarrow> None | Some d \<Rightarrow> dict_get d (int j)) =
        (if j \<in> set js then Some (frag j) else None))"

definition fragment_message :: "message_type \<Rightarrow> int \<Rightarrow> int \<Rightarrow> nat \<Rightarrow> (nat \<Rightarrow> byte list) \<Rightarrow> nat \<Rightarrow> parsed_message" where
  "fragment_message mt num key n frag j =
     \<lparr>pm_type = mt, pm_number = num, pm_crc = key, pm_fragment_index = int j,
      pm_total_fragments = int n, pm_data = frag j\<rparr>"

text \<open>The entry and the cache while a fragment is being stored.\<close>

definition entry_of :: "message_cache \<Rightarrow> message_type \<Rightarrow> int \<Rightarrow> cache_entry" where
  "entry_of c mt key = (case dict_get (mc_data c mt) key of
     None \<Rightarrow> \<lparr>ce_fragments = 0, ce_complete = False, ce_number = None\<rparr> | Some e \<Rightarrow> e)"

lemma store_fragment_holds:
  assumes "holds_fragments c mt key frag js" and "j \<notin> set js"
    and "dict_get (mc_data c' mt) key = Some e" and "ce_fragments e = int (Suc (length js))"
    and "\<not> ce_complete e"
    and "mc_fragment_data c' = mc_fragment_data (snd (store_fragment mt key (int j) (frag j) c))"
  shows "holds_fragments c' mt key frag (js @ [j])"
proof -
  let ?d = "case dict_get (mc_fragment_data c mt) key of None \<Rightarrow> [] | Some d \<Rightarrow> d"
  have old: "dict_get ?d (int i) = (if i \<in> set js then Some (frag i) else None)" for i
  proof -
    have "dict_get ?d (int i) =
        (case dict_get (mc_fragment_data c mt) key of None \<Rightarrow> None | Some d \<Rightarrow> dict_get d (int i))"
      by (simp split: option.splits)
    also have "\<dots> = (if i \<in> set js then Some (frag i) else None)"
      using assms(1) unfolding holds_fragments_def by blast
    finally show ?thesis .
  qed
  have new: "dict_get (mc_fragment_data c' mt) key = Some (dict_set (int j) (frag j) ?d)"
    unfolding assms(6) by (simp add: store_fragment_def Let_def)
  have "distinct (js @ [j])" using assms(1,2) by (simp add: holds_fragments_def)
  then show ?thesis
    using assms(3-5) old unfolding holds_fragments_def by (auto simp: new)
qed

lemma content_calls: "content mt key (c\<lparr>mc_calls := x\<rparr>) = content mt key c"
  by (simp add: content_def split: option.split)

lemma holds_entry:
  assumes "holds_fragments c mt key frag js"
  shows "ce_fragments (entry_of c mt key) = int (length js) \<and> \<not> ce_complete (entry_of c mt key)"
  using assms by (auto simp: holds_fragments_def entry_of_def split: option.splits)

text \<open>A fragment that is not the last one is stored and counted.\<close>

lemma ingest_partial:
  assumes "holds_fragments c mt key frag js" and "j \<notin> set js" and "Suc (length js) \<noteq> n"
  shows "\<exists>c'. ingest_message (fragment_message mt num key n frag j) c = (Inr (), c') \<and>
    holds_fragments c' mt key frag (js @ [j]) \<and> mc_calls c' = mc_calls c \<and>
    mc_callbacks c' = mc_callbacks c"
proof -
  let ?e = "entry_of c mt key"
  let ?e1 = "?e\<lparr>ce_fragments := ce_fragments ?e + 1\<rparr>"
  let ?c1 = "snd (update_entry mt key ?e c)"
  let ?c2 = "snd (store_fragment mt key (int j) (frag j) ?c1)"
  let ?c3 = "snd (update_entry mt key ?e1 ?c2)"
  have e: "ce_fragments ?e = int (length js)" "\<not> ce_complete ?e"
    using holds_entry [OF assms(1)] by simp_all
  have run: "ingest_message (fragment_message mt num key n frag j) c = (Inr (), ?c3)"
    using e assms(3)
    by (simp add: ingest_message_def fragment_message_def Let_def update_entry_def store_fragment_def
        index_in_entry_def flip: entry_of_def)
  have "holds_fragments ?c3 mt key frag (js @ [j])"
    by (rule store_fragment_holds [OF assms(1,2), of _ ?e1])
      (use e in \<open>simp_all add: update_entry_def store_fragment_def Let_def\<close>)
  moreover have "mc_calls ?c3 = mc_calls c" "mc_callbacks ?c3 = mc_callbacks c"
    by (simp_all add: update_entry_def store_fragment_def Let_def)
  ultimately show ?thesis using run by blast
qed

lemma join_fragments_run:
  assumes "\<And>j. j \<in> set js \<Longrightarrow> dict_get d (int j) = Some (frag j)"
  shows "join_fragments d (map int js) = Inr (concat (map frag js))"
  using assms by (induction js) simp_all

lemma ingest_last:
  assumes "holds_fragments c mt key frag js" and "j \<notin> set js" and "Suc (length js) = n"
    and "set (js @ [j]) = {..<n}"
  shows "\<exists>c'. ingest_message (fragment_message mt num key n frag j) c = (Inr (), c') \<and>
    content mt key c' = Inr (Some (num, concat (map frag [0..<n]))) \<and>
    mc_calls c' = mc_calls c @ map (\<lambda>cb. (cb, mt, num, concat (map frag [0..<n]))) (mc_callbacks c mt)"
proof -
  let ?e = "entry_of c mt key"
  let ?e1 = "?e\<lparr>ce_fragments := ce_fragments ?e + 1\<rparr>"
  let ?e2 = "?e1\<lparr>ce_complete := True, ce_number := Some num\<rparr>"
  let ?c1 = "snd (update_entry mt key ?e c)"
  let ?c2 = "snd (store_fragment mt key (int j) (frag j) ?c1)"
  let ?c3 = "snd (update_entry mt key ?e1 ?c2)"
  let ?c4 = "snd (update_entry mt key ?e2 ?c3)"
  let ?msg = "concat (map frag [0..<n])"
  have e: "ce_fragments ?e = int (length js)" "\<not> ce_complete ?e"
    using holds_entry [OF assms(1)] by simp_all
  have "holds_fragments ?c3 mt key frag (js @ [j])"
    by (rule store_fragment_holds [OF assms(1,2), of _ ?e1])
      (use e in \<open>simp_all add: update_entry_def store_fragment_def Let_def\<close>)
  then have all: "(case dict_get (mc_fragment_data ?c3 mt) key of None \<Rightarrow> None | Some d \<Rightarrow> dict_get d (int i)) =
      Some (frag i)" if "i < n" for i
    using that assms(4) by (auto simp: holds_fragments_def)
  have fd: "mc_fragment_data ?c4 = mc_fragment_data ?c3" by (simp add: update_entry_def)
  have "0 < n" using assms(3) by simp
  then obtain d where d: "dict_get (mc_fragment_data ?c4 mt) key = Some d"
    using all [of 0] fd by (auto split: option.splits)
  have "join_fragments d (map int [0..<n]) = Inr ?msg"
    using all d fd by (intro join_fragments_run) simp
  moreover have "nat (ce_fragments ?e1) = n" using e(1) assms(3) by simp
  moreover have "dict_get (mc_data ?c4 mt) key = Some ?e2" by (simp add: update_entry_def)
  ultimately have ct: "content mt key ?c4 = Inr (Some (num, ?msg))"
    using d by (simp add: content_def)
  have same: "mc_calls ?c4 = mc_calls c" "mc_callbacks ?c4 = mc_callbacks c"
    by (simp_all add: update_entry_def store_fragment_def Let_def)
  have dl: "deliver mt key ?c4 =
      (Inr (), ?c4\<lparr>mc_calls := mc_calls c @ map (\<lambda>cb. (cb, mt, num, ?msg)) (mc_callbacks c mt)\<rparr>)"
    using ct same by (simp add: deliver_def service_callbacks_run)
  have "ingest_message (fragment_message mt num key n frag j) c = deliver mt key ?c4"
    using e assms(3)
    by (simp add: ingest_message_def fragment_message_def Let_def update_entry_def store_fragment_def
        index_in_entry_def flip: entry_of_def)
  then show ?thesis using dl ct content_calls [where c = ?c4] by simp
qed

text \<open>Ingesting the fragments one by one, each once and in any order.\<close>

lemma ingest_some:
  assumes "holds_fragments c mt key frag js" and "distinct (js @ ks)" and "length (js @ ks) < n"
  shows "\<exists>c'. for_each (\<lambda>j. ingest_message (fragment_message mt num key n frag j)) ks c = (Inr (), c') \<and>
    holds_fragments c' mt key frag (js @ ks) \<and> mc_calls c' = mc_calls c \<and>
    mc_callbacks c' = mc_callbacks c"
  using assms
proof (induction ks arbitrary: c js)
  case Nil
  then show ?case by simp
next
  case (Cons k ks)
  obtain c1 where c1: "ingest_message (fragment_message mt num key n frag k) c = (Inr (), c1)"
      "holds_fragments c1 mt key frag (js @ [k])" "mc_calls c1 = mc_calls c"
      "mc_callbacks c1 = mc_callbacks c"
    using ingest_partial [OF Cons.prems(1), of k n num] Cons.prems(2,3) by auto
  with Cons.IH [OF c1(2)] Cons.prems(2,3) show ?case by auto
qed

lemma for_each_append: "for_each f (xs @ ys) = bindp (for_each f xs) (\<lambda>_. for_each f ys)"
proof (induction xs)
  case Nil
  show ?case by (rule ext) simp
next
  case (Cons x xs)
  then show ?case by (simp add: bindp_assoc)
qed

lemma ingest_all:
  assumes "holds_fragments c mt key frag []" and "distinct js" and "set js = {..<n}" and "0 < n"
  shows "\<exists>c'. for_each (\<lambda>j. ingest_message (fragment_message mt num key n frag j)) js c = (Inr (), c') \<and>
    content mt key c' = Inr (Some (num, concat (map frag [0..<n]))) \<and>
    mc_calls c' = mc_calls c @ map (\<lambda>cb. (cb, mt, num, concat (map frag [0..<n]))) (mc_callbacks c mt)"
proof -
  have "card (set js) = n" using assms(3) by simp
  then have len: "length js = n" using distinct_card [OF assms(2)] by simp
  then have "js \<noteq> []" using assms(4) by auto
  then obtain ks j where js: "js = ks @ [j]" by (cases js rule: rev_cases) auto
  obtain c1 where c1: "for_each (\<lambda>j. ingest_message (fragment_message mt num key n frag j)) ks c = (Inr (), c1)"
      "holds_fragments c1 mt key frag ([] @ ks)" "mc_calls c1 = mc_calls c"
      "mc_callbacks c1 = mc_callbacks c"
    using ingest_some [OF assms(1), of ks n num] assms(2) len js by auto
  have last: "j \<notin> set ([] @ ks)" "Suc (length ([] @ ks)) = n" "set (([] @ ks) @ [j]) = {..<n}"
    using assms(2,3) len js by auto
  obtain c2 where c2: "ingest_message (fragment_message mt num key n frag j) c1 = (Inr (), c2)"
      "content mt key c2 = Inr (Some (num, concat (map frag [0..<n])))"
      "mc_calls c2 = mc_calls c1 @ map (\<lambda>cb. (cb, mt, num, concat (map frag [0..<n]))) (mc_callbacks c1 mt)"
    using ingest_last [OF c1(2) last, of num] by auto
  have "for_each (\<lambda>j. ingest_message (fragment_message mt num key n frag j)) js c = (Inr (), c2)"
    using c1(1) c2(1) by (simp add: js for_each_append)
  with c2 c1(3,4) show ?thesis by auto
qed

text \<open>A message that is complete only has its number brought up to date.\<close>

lemma ingest_complete:
  assumes "dict_get (mc_data c (pm_type m)) (pm_crc m) = Some e" and "ce_complete e"
  shows "\<exists>c'. ingest_message m c = (Inr (), c') \<and> mc_calls c' = mc_calls c \<and>
    mc_fragment_data c' = mc_fragment_data c \<and>
    dict_get (mc_data c' (pm_type m)) (pm_crc m) = Some (e\<lparr>ce_number := Some (pm_number m)\<rparr>)"
  using assms by (simp add: ingest_message_def Let_def update_entry_def)

section \<open>Properties\<close>

text \<open>A cache over an empty directory, without callbacks.\<close>

definition empty_cache :: message_cache where
  "empty_cache = \<lparr>mc_data = (\<lambda>_. []), mc_fragment_data = (\<lambda>_. []), mc_files = [],
     mc_callbacks = (\<lambda>_. []), mc_calls = []\<rparr>"

text \<open>
  Property C11: the fragments of a message that the cache does not know yet, ingested in any order,
  give exactly the message: its content is available under its type and checksum, and every
  callback of the type has been called once with it.
\<close>

theorem reassembly:
  assumes "dict_get (mc_data c mt) key = None" and "dict_get (mc_fragment_data c mt) key = None"
    and "distinct js" and "set js = {..<n}" and "0 < n"
  shows "\<exists>c'. for_each (\<lambda>j. ingest_message (fragment_message mt num key n frag j)) js c = (Inr (), c') \<and>
    content mt key c' = Inr (Some (num, concat (map frag [0..<n]))) \<and>
    mc_calls c' = mc_calls c @ map (\<lambda>cb. (cb, mt, num, concat (map frag [0..<n]))) (mc_callbacks c mt)"
proof -
  have "holds_fragments c mt key frag []" using assms(1,2) by (simp add: holds_fragments_def)
  from ingest_all [OF this assms(3-5)] show ?thesis .
qed

theorem reassembly_witness:
  "\<exists>c'. for_each (\<lambda>j. ingest_message (fragment_message TEXT 7 9 3 (\<lambda>j. [of_nat j]) j)) [2, 0, 1] empty_cache =
      (Inr (), c') \<and> content TEXT 9 c' = Inr (Some (7, [0, 1, 2]))"
proof -
  have "set [2, 0, 1 :: nat] = {..<3}" by auto
  from reassembly [OF _ _ _ this, of empty_cache TEXT 9 7 "\<lambda>j. [of_nat j]"] show ?thesis
    by (auto simp: empty_cache_def upt_rec)
qed


text \<open>
  A fragment directory with fragments of two different messages of one type cannot be
  loaded again: the path to the second message's fragments is built on the first one's.
\<close>

theorem two_messages_not_loaded:
  assumes "k1 \<noteq> k2" and "k2 \<noteq> 0"
  shows "\<exists>c. bindp (store_fragment mt k1 0 b1) (\<lambda>_. store_fragment mt k2 0 b2) empty_cache = (Inr (), c) \<and>
    new_message_cache (mc_data c) (mc_files c) cbs = Inl FileNotFoundError"
  using assms
  by (simp add: empty_cache_def store_fragment_def Let_def new_message_cache_def load_fragments_def
      listdir_def load_type_def load_fragment_def)

theorem two_messages_not_loaded_witness:
  "\<exists>c. bindp (store_fragment TEXT 11 0 [1]) (\<lambda>_. store_fragment TEXT 12 0 [2]) empty_cache = (Inr (), c) \<and>
    new_message_cache (mc_data c) (mc_files c) (\<lambda>_. []) = Inl FileNotFoundError"
  by (rule two_messages_not_loaded) simp_all

end
