(* ===== verification/Object_Messages.thy ===== *)
theory Object_Messages
  imports Serializable Http_Request Message_Framer Message_Cache
begin

text \<open>
  Texts, documents and objects as messages: the constructors of a message framer that encode them
  (\<open>vtelem/message/framer.py\<close>) and the text of a message in a cache (\<open>vtelem/message/cache.py\<close>).
\<close>

section \<open>Texts and their bytes\<close>

text \<open>
  UTF-8 decoding: bytes that are no encoding fail, and so do those of a character above 255, which no
  text of this development has.
\<close>

fun utf8_decode :: "byte list \<Rightarrow> py_error + string" where
  "utf8_decode [] = Inr []"
| "utf8_decode (b # bs) =
     (if unat b < 128
      then (case utf8_decode bs of Inl err \<Rightarrow> Inl err | Inr s \<Rightarrow> Inr (char_of (unat b) # s))
      else case bs of
             c # cs \<Rightarrow>
               if unat b \<in> {194, 195} \<and> 128 \<le> unat c \<and> unat c < 192
               then (case utf8_decode cs of
                       Inl err \<Rightarrow> Inl err
                     | Inr s \<Rightarrow> Inr (char_of ((unat b - 192) * 64 + (unat c - 128)) # s))
               else Inl ValueError
           | [] \<Rightarrow> Inl ValueError)"

lemma utf8_decode_char: "utf8_decode (utf8_char c @ bs) = (case utf8_decode bs of Inl err \<Rightarrow> Inl err | Inr s \<Rightarrow> Inr (c # s))"
proof -
  let ?n = "of_char c :: nat"
  have n: "?n < 256" by (rule nat_of_char_less_256)
  have small: "unat (of_nat k :: byte) = k" if "k < 256" for k using that by (simp add: unat_of_nat)
  show ?thesis
  proof (cases "?n < 128")
    case True
    then show ?thesis using small [of ?n] by (simp add: utf8_char_def split: sum.split)
  next
    case False
    then have "?n div 64 = 2 \<or> ?n div 64 = 3" using n by linarith
    then have hi: "unat (of_nat (192 + ?n div 64) :: byte) = 192 + ?n div 64" using small by auto
    have lo: "unat (of_nat (128 + ?n mod 64) :: byte) = 128 + ?n mod 64" by (rule small) (use mod_less_divisor [of 64 ?n] in linarith)
    have "utf8_char c = [of_nat (192 + ?n div 64), of_nat (128 + ?n mod 64)]" using False by (simp add: utf8_char_def Let_def)
    moreover have "?n div 64 * 64 + ?n mod 64 = ?n" by simp
    ultimately show ?thesis using \<open>?n div 64 = 2 \<or> ?n div 64 = 3\<close> hi lo by (auto simp del: of_nat_add split: sum.split)
  qed
qed

lemma utf8_decode_encode: "utf8_decode (utf8_encode s) = Inr s"
  by (induction s) (simp_all add: utf8_encode_def utf8_decode_char)

lemma utf8_encode_empty: "utf8_encode s = [] \<longleftrightarrow> s = []"
  by (metis length_utf8_ge le_zero_eq list.size(3) length_0_conv utf8_encode_def concat.simps(1) list.map(1))

section \<open>Message constructors\<close>

definition serialize_message_str :: "string \<Rightarrow> pyfloat option \<Rightarrow> message_type \<Rightarrow> int \<Rightarrow> (message_framer, frame list \<times> int) py" where
  "serialize_message_str message time mtype rnd = serialize_message (utf8_encode message) time mtype rnd"

text \<open>A JSON document, with the keys in the order of the dictionary.\<close>

definition serialize_message_json :: "(pyfloat \<Rightarrow> string) \<Rightarrow> nat option \<Rightarrow> object \<Rightarrow> pyfloat option \<Rightarrow> message_type \<Rightarrow> int \<Rightarrow>
    (message_framer, frame list \<times> int) py" where
  "serialize_message_json fr indent message time mtype rnd =
     bindp (lift_res (json_view False message)) (\<lambda>v. serialize_message_str (dumps fr indent v) time mtype rnd)"

definition serialize_object :: "(pyfloat \<Rightarrow> string) \<Rightarrow> nat option \<Rightarrow> 'x serializable \<Rightarrow> pyfloat option \<Rightarrow> message_type \<Rightarrow> int \<Rightarrow>
    (message_framer, frame list \<times> int) py" where
  "serialize_object fr indent message time mtype rnd =
     bindp (lift_res (json_text fr indent message)) (\<lambda>s. serialize_message_str s time mtype rnd)"

definition content_str :: "message_type \<Rightarrow> int \<Rightarrow> message_cache \<Rightarrow> py_error + (int \<times> string) option" where
  "content_str mtype key c =
     (case content mtype key c of
        Inl err \<Rightarrow> Inl err
      | Inr None \<Rightarrow> Inr None
      | Inr (Some (n, bytes)) \<Rightarrow> (case utf8_decode bytes of Inl err \<Rightarrow> Inl err | Inr s \<Rightarrow> Inr (Some (n, s))))"

lemma content_str_encoded: "content mtype key c = Inr (Some (n, utf8_encode s)) \<Longrightarrow> content_str mtype key c = Inr (Some (n, s))"
  by (simp add: content_str_def utf8_decode_encode)

end
