(* ===== verification/Server_Handlers.thy ===== *)
theory Server_Handlers
  imports Telemetry_Server Object_Messages Commanders Channel_Group
begin

text \<open>
  What a client of the HTTP server reaches: the request as its target and its posted data
  (\<open>_handle\<close> and \<open>do_*\<close> of \<open>vtelem/classes/http_request_mapper.py\<close>), the handlers of a telemetry server
  (\<open>vtelem/factories/telemetry_server.py\<close>) with the JSON form of the registries they serve
  (\<open>describe\<close> in \<open>vtelem/registry\<close> and \<open>vtelem/channel/registry.py\<close>), and commands over a websocket
  (\<open>vtelem/factories/websocket_daemon.py\<close>). Decoding bytes as UTF-8, where what is no encoding is replaced, is a
  parameter.
\<close>

section \<open>Request targets\<close>

text \<open>The text before and from the first of some characters on.\<close>

definition cut_at :: "char set \<Rightarrow> string \<Rightarrow> string \<times> string" where
  "cut_at cs s = (takeWhile (\<lambda>c. c \<notin> cs) s, dropWhile (\<lambda>c. c \<notin> cs) s)"

definition scheme_chars :: "char set" where
  "scheme_chars = set ''abcdefghijklmnopqrstuvwxyzABCDEFGHIJKLMNOPQRSTUVWXYZ0123456789+-.''"

definition uses_params :: "string list" where
  "uses_params = ['''', ''ftp'', ''hdl'', ''prospero'', ''http'', ''https'', ''shttp'', ''rtsp'', ''rtspu'', ''sip'', ''sips'', ''mms'', ''sftp'', ''tel'']"

definition split_scheme :: "string \<Rightarrow> string \<times> string" where
  "split_scheme url =
     (let (s, r) = cut_at {CHR '':''} url
      in if s \<noteq> [] \<and> r \<noteq> [] \<and> (is_upper (hd s) \<or> is_lower (hd s)) \<and> set s \<subseteq> scheme_chars then (str_lower s, tl r) else ([], url))"

text \<open>The parameters of the last segment of a path are not a part of it.\<close>

definition drop_params :: "string \<Rightarrow> string" where
  "drop_params p =
     (let last_seg = rev (takeWhile (\<lambda>c. c \<noteq> CHR ''/'') (rev p)); front = take (length p - length last_seg) p
      in front @ fst (cut_at {CHR '';''} last_seg))"

text \<open>\<open>urllib.parse.urlparse\<close>: path and query.\<close>

definition url_parse :: "string \<Rightarrow> py_error + string \<times> string" where
  "url_parse url =
     (let (scheme, r) = split_scheme url;
          (netloc, r1) = (if take 2 r = ''//'' then cut_at (set ''/?#'') (drop 2 r) else ([], r));
          r2 = fst (cut_at {CHR ''#''} r1);
          (p, q) = cut_at {CHR ''?''} r2
      in if (CHR ''['' \<in> set netloc) \<noteq> (CHR '']'' \<in> set netloc) then Inl ValueError
         else Inr (if scheme \<in> set uses_params then drop_params p else p, drop 1 q))"

section \<open>Queries\<close>

text \<open>\<open>urllib.parse.unquote\<close>: the bytes of every run of ASCII characters are decoded, its escapes being bytes.\<close>

function unquote_run :: "(byte list \<Rightarrow> string) \<Rightarrow> byte list \<Rightarrow> string \<Rightarrow> string" where
  "unquote_run dec acc [] = dec acc"
| "unquote_run dec acc (c # s) =
     (if 128 \<le> (of_char c :: nat) then dec acc @ c # unquote_run dec [] s
      else
        (case (if c = CHR ''%'' \<and> 2 \<le> length s then (hex_digit (s ! 0), hex_digit (s ! 1)) else (None, None)) of
           (Some h, Some l) \<Rightarrow> unquote_run dec (acc @ [of_nat (16 * h + l)]) (drop 2 s)
         | _ \<Rightarrow> unquote_run dec (acc @ [of_nat (of_char c)]) s))"
  by pat_completeness auto
termination by (relation "measure (\<lambda>(_, _, s). length s)") auto

definition unquote :: "(byte list \<Rightarrow> string) \<Rightarrow> string \<Rightarrow> string" where
  "unquote dec s = unquote_run dec [] (map (\<lambda>c. if c = CHR ''+'' then CHR '' '' else c) s)"

text \<open>\<open>urllib.parse.parse_qs\<close>: the values of every name in order; empty values are left out.\<close>

definition parse_field :: "(byte list \<Rightarrow> string) \<Rightarrow> (string, string list) dict \<Rightarrow> string \<Rightarrow> (string, string list) dict" where
  "parse_field dec result field =
     (let (name, r) = cut_at {CHR ''=''} field
      in if length r \<le> 1 then result
         else let k = unquote dec name; v = unquote dec (tl r)
              in dict_set k ((case dict_get result k of None \<Rightarrow> [] | Some vs \<Rightarrow> vs) @ [v]) result)"

definition parse_qs :: "(byte list \<Rightarrow> string) \<Rightarrow> string \<Rightarrow> (string, string list) dict" where
  "parse_qs dec query = foldl (parse_field dec) [] (py_split ''&'' query)"

section \<open>Requests\<close>

text \<open>The data a handler gets: posted values, those of the query instead where both have a name.\<close>

datatype request_value = Texts "string list" | Form "part list"

type_synonym request_data = "(string, request_value) dict"

definition posted_entries :: "post_data \<Rightarrow> request_data" where
  "posted_entries posted =
     (case posted of
        NoData \<Rightarrow> []
      | Parts ps \<Rightarrow> [(''parts'', Form ps)]
      | Fields fs \<Rightarrow> map (\<lambda>(k, vs). (k, Texts vs)) fs)"

definition request_entries :: "(byte list \<Rightarrow> string) \<Rightarrow> post_data \<Rightarrow> string \<Rightarrow> request_data" where
  "request_entries dec posted query =
     dict_update (dict_update [] (posted_entries posted)) (if query = [] then [] else map (\<lambda>(k, vs). (k, Texts vs)) (parse_qs dec query))"

text \<open>\<open>do_GET\<close>, \<open>do_HEAD\<close> and \<open>do_POST\<close>; the base class refuses every other command.\<close>

definition serve_request :: "(pyfloat \<Rightarrow> string) \<Rightarrow> (byte list \<Rightarrow> string) \<Rightarrow> ('h \<Rightarrow> request_data \<Rightarrow> ('a, bool \<times> string) py) \<Rightarrow>
    post_request \<Rightarrow> string \<Rightarrow> ('h mapper \<times> 'a, response) py" where
  "serve_request fr dec run rq target =
    (if rq_command rq \<notin> {''GET'', ''HEAD'', ''POST''} then ret (Error_Response 501 (''Unsupported method ('' @ quoted (rq_command rq) @ '')''))
     else
     bindp (lift_res (if rq_command rq = ''POST'' then get_post_request_data (\<lambda>t. Inr (parse_qs dec t)) rq else Inr NoData)) (\<lambda>posted.
     bindp (lift_res (url_parse target)) (\<lambda>(path, query).
     handle_request fr run (rq_command rq) path (request_entries dec posted query))))"

section \<open>The JSON form of registries\<close>

text \<open>The dictionaries of a registry, with \<open>None\<close> where a failed lookup left it; \<open>enc\<close> is the encoder of the items.\<close>

definition encode_item :: "('a \<Rightarrow> py_error + object) \<Rightarrow> int \<times> 'a option \<Rightarrow> (unit, object_key \<times> object) py" where
  "encode_item enc = (\<lambda>(i, item).
     bindp (lift_res (case item of None \<Rightarrow> Inr (Scalar VNone) | Some x \<Rightarrow> enc x)) (\<lambda>o1. ret (KInt i, o1)))"

definition registry_object :: "('a \<Rightarrow> py_error + object) \<Rightarrow> (object_key \<times> object) list \<Rightarrow> 'a registry \<Rightarrow> py_error + object" where
  "registry_object enc extra r =
     (case fst (map_each (encode_item enc) (reg_items r) ()) of
        Inl err \<Rightarrow> Inl err
      | Inr items \<Rightarrow>
          Inr (Mapping ([(KStr (reg_type_name r), Mapping items),
                 (KStr ''mappings'', Mapping (map (\<lambda>(n, i). (KStr n, Scalar (case i of None \<Rightarrow> VNone | Some k \<Rightarrow> VInt k))) (reg_mappings r)))] @ extra)))"

definition describe :: "(pyfloat \<Rightarrow> string) \<Rightarrow> bool \<Rightarrow> ('a \<Rightarrow> py_error + object) \<Rightarrow> (object_key \<times> object) list \<Rightarrow> 'a registry \<Rightarrow> py_error + string" where
  "describe fr indented enc extra r =
     (case registry_object enc extra r of
        Inl err \<Rightarrow> Inl err
      | Inr o1 \<Rightarrow>
          (case json_view True o1 of
             Inl err \<Rightarrow> Inl err
           | Inr v \<Rightarrow> Inr (dumps fr (if indented then Some DEFAULT_INDENT else None) v)))"

text \<open>The encoders: primitives, channels, enumerations, services; there is none for channel groups.\<close>

definition encode_primitive :: "primitive \<Rightarrow> py_error + object" where
  "encode_primitive p = Inr (flat_object (prim_to_dict p))"

definition encode_channel :: "channel \<Rightarrow> py_error + object" where
  "encode_channel c =
     (let val = prim_value (tp_type c)
      in Inr (Mapping [(KStr ''name'', text_object (ch_name c)), (KStr ''rate'', Scalar (VFloat (ch_rate c))),
           (KStr ''commandable'', Scalar (VBool (ch_commandable c))),
           (KStr ''type'', flat_object [(''name'', VStr (name_of val)), (''signed'', VBool (signed_of val)), (''size'', VInt (size_of val))])]))"

definition encode_enum :: "user_enum \<Rightarrow> py_error + object" where
  "encode_enum e = Inr (enum_data_object e)"

definition encode_service :: "(string \<times> int) list \<Rightarrow> py_error + object" where
  "encode_service addrs = Inr (Items (map (\<lambda>(host, port). Items [text_object host, Scalar (VInt port)]) addrs))"

definition encode_group :: "group \<Rightarrow> py_error + object" where
  "encode_group g = Inl TypeError"

section \<open>The handlers of a telemetry server\<close>

datatype server_handler = AppIdHandler | ShutdownHandler | TypesHandler | RegistriesHandler | CommandHandler

text \<open>What the handlers reach: the server, its telemetry environment and registries, and the command daemon.\<close>

record ('s, 'c, 'w) app =
  ap_server :: "(server_handler, 's, 'c) server"
  ap_telem :: telemetry_env
  ap_groups :: "group registry"
  ap_services :: "(string \<times> int) list registry"
  ap_commands :: 'w

definition app_id_value :: "telemetry_env \<Rightarrow> py_error + pyval" where
  "app_id_value env =
     (case dict_item (frm_primitives (env_framer (te_chan env))) ''app_id'' of Inl err \<Rightarrow> Inl err | Inr tp \<Rightarrow> Inr (tp_get tp))"

text \<open>The first value given under a name; \<open>data\<close> answers \<open>None\<close> for a missing one.\<close>

definition first_value :: "request_value \<Rightarrow> py_error + string" where
  "first_value v = (case v of Texts (t # _) \<Rightarrow> Inr t | Form (_ # _) \<Rightarrow> Inl TypeError | _ \<Rightarrow> Inl IndexError)"

definition shutdown :: "(pyfloat \<Rightarrow> string) \<Rightarrow> reactions \<Rightarrow> 's sockets \<Rightarrow> request_data \<Rightarrow> (('s, 'c, 'w) app, bool \<times> string) py" where
  "shutdown fr rx os data =
     bindp (gets (\<lambda>a. app_id_value (ap_telem a))) (\<lambda>r. bindp (lift_res r) (\<lambda>our_id.
     case dict_get data ''app_id'' of
       None \<Rightarrow> ret (False, ''no '' @ quoted ''app_id'' @ '' argument provided'')
     | Some v \<Rightarrow>
         bindp (lift_res (first_value v)) (\<lambda>provided.
         bindp (lift_res (py_int provided)) (\<lambda>n.
         if \<not> num_eq our_id (VInt n)
         then ret (False, quoted ''app_id'' @ '' mismatch, expected '' @ quoted (py_str fr our_id) @ '' got '' @ quoted (int_str n))
         else bindp (zoom ap_server (\<lambda>s a. a\<lparr>ap_server := s\<rparr>) (stop_all rx os)) (\<lambda>_. ret (True, ''success''))))))"

definition get_types :: "(pyfloat \<Rightarrow> string) \<Rightarrow> request_data \<Rightarrow> (('s, 'c, 'w) app, bool \<times> string) py" where
  "get_types fr data =
     bindp (gets (\<lambda>a. describe fr (dict_get data ''indent'' \<noteq> None) encode_primitive [] (te_types (ap_telem a)))) (\<lambda>r.
     bindp (lift_res r) (\<lambda>s. ret (True, s)))"

text \<open>All registries of the environment, each written and read again.\<close>

definition registry_texts :: "(pyfloat \<Rightarrow> string) \<Rightarrow> ('s, 'c, 'w) app \<Rightarrow> (string \<times> (py_error + string)) list" where
  "registry_texts fr a =
     (let env = te_chan (ap_telem a); er = te_enums (ap_telem a)
      in [(''channel'', describe fr False (\<lambda>r. encode_channel (chan_at env r)) [] (env_registry env)),
          (''enum'', describe fr False encode_enum
             [(KStr ''global_mappings'', Mapping (map (\<lambda>(k, v). (KInt k, Scalar (VInt v))) (er_global er)))] (er_reg er)),
          (''type'', describe fr False encode_primitive [] (te_types (ap_telem a))),
          (''channel_groups'', describe fr False encode_group [] (ap_groups a)),
          (''services'', describe fr False encode_service [] (ap_services a))])"

definition get_registries :: "(pyfloat \<Rightarrow> string) \<Rightarrow> (string \<Rightarrow> pyfloat) \<Rightarrow> request_data \<Rightarrow> (('s, 'c, 'w) app, bool \<times> string) py" where
  "get_registries fr pf data =
     bindp (gets (registry_texts fr)) (\<lambda>texts.
     bindp (map_each (\<lambda>(key, r). bindp (lift_res r) (\<lambda>txt.
              case loads pf txt of None \<Rightarrow> raise ValueError | Some v \<Rightarrow> ret (key, v))) texts) (\<lambda>rdata.
     ret (True, dumps fr (if dict_get data ''indent'' \<noteq> None then Some DEFAULT_INDENT else None) (VDict rdata))))"

text \<open>A command with its arguments: the first value of every name, and all names but the command as its data.\<close>

definition part_document :: "part \<Rightarrow> pyval" where
  "part_document p = VDict [(''headers'', VDict (map (\<lambda>(k, h). (k, case h of HText t \<Rightarrow> VStr t |
     HDisposition d \<Rightarrow> VDict (map (\<lambda>(n, v). (n, VStr v)) d))) (pt_headers p))), (''body'', VList (map VStr (pt_body p)))]"

definition collapse_value :: "request_value \<Rightarrow> py_error + pyval" where
  "collapse_value v =
     (case v of
        Texts (t # _) \<Rightarrow> Inr (VStr t)
      | Form (p # _) \<Rightarrow> Inr (part_document p)
      | _ \<Rightarrow> Inl IndexError)"

fun collapse_entries :: "request_data \<Rightarrow> py_error + (string, pyval) dict" where
  "collapse_entries [] = Inr []"
| "collapse_entries ((k, v) # kvs) =
     (case collapse_value v of
        Inl err \<Rightarrow> Inl err
      | Inr x \<Rightarrow> (case collapse_entries kvs of Inl err \<Rightarrow> Inl err | Inr es \<Rightarrow> Inr ((k, x) # es)))"

definition command_document :: "request_data \<Rightarrow> py_error + pyval" where
  "command_document data =
     (case collapse_entries data of
        Inl err \<Rightarrow> Inl err
      | Inr es \<Rightarrow>
          Inr (VDict (if ''data'' \<in> set (dict_keys es) then es
                 else es @ [(''data'', VDict (filter (\<lambda>(k, v). k \<notin> {''command'', ''data''}) es))])))"

definition run_command :: "(pyval \<Rightarrow> ('w, bool \<times> string) py) \<Rightarrow> request_data \<Rightarrow> (('s, 'c, 'w) app, bool \<times> string) py" where
  "run_command execute data =
     (if ''command'' \<notin> set (dict_keys data) then ret (False, ''no '' @ quoted ''command'' @ '' specified. (try '' @ quoted ''help'' @ '')'')
      else bindp (lift_res (command_document data)) (\<lambda>doc. zoom ap_commands (\<lambda>w a. a\<lparr>ap_commands := w\<rparr>) (execute doc)))"

definition app_id_handler :: "(pyfloat \<Rightarrow> string) \<Rightarrow> (('s, 'c, 'w) app, bool \<times> string) py" where
  "app_id_handler fr = bindp (gets (\<lambda>a. app_id_value (ap_telem a))) (\<lambda>r. bindp (lift_res r) (\<lambda>v. ret (True, py_str fr v)))"

text \<open>
  What the handlers do not compute themselves: the text of floats and back, the reactions of the
  daemons, the sockets and the execution of a command.
\<close>

record ('s, 'w) surroundings =
  su_fr :: "pyfloat \<Rightarrow> string"
  su_pf :: "string \<Rightarrow> pyfloat"
  su_dec :: "byte list \<Rightarrow> string"
  su_reactions :: reactions
  su_sockets :: "'s sockets"
  su_execute :: "pyval \<Rightarrow> ('w, bool \<times> string) py"

definition server_call :: "('s, 'w) surroundings \<Rightarrow> server_handler \<Rightarrow> request_data \<Rightarrow> (('s, 'c, 'w) app, bool \<times> string) py" where
  "server_call su h data =
     (case h of
        AppIdHandler \<Rightarrow> app_id_handler (su_fr su)
      | ShutdownHandler \<Rightarrow> shutdown (su_fr su) (su_reactions su) (su_sockets su) data
      | TypesHandler \<Rightarrow> get_types (su_fr su) data
      | RegistriesHandler \<Rightarrow> get_registries (su_fr su) (su_pf su) data
      | CommandHandler \<Rightarrow> run_command (su_execute su) data)"

definition server_routes :: "(string \<times> string \<times> server_handler \<times> string) list" where
  "server_routes =
     [(''GET'', ''id'', AppIdHandler, ''get this telemetry instance'' @ [CHR 0x27] @ ''s application identifier''),
      (''GET'', ''types'', TypesHandler, ''get the numerical mappings for known types''),
      (''GET'', ''registries'', RegistriesHandler, ''get registry data''),
      (''POST'', ''shutdown'', ShutdownHandler, ''shutdown the server''),
      (''GET'', ''command'', CommandHandler, ''send a command to the server''),
      (''POST'', ''command'', CommandHandler, ''send a command to the server'')]"

definition register_http_handlers :: "((server_handler, 's, 'c) server, unit) py" where
  "register_http_handlers =
     for_each (\<lambda>(request_type, path, h, description).
       in_self (http_add_handler request_type path (App_Handler h) description None ''application/json'')) server_routes"

text \<open>A request to the server; the mapper of the handlers is a part of it.\<close>

definition app_mapper :: "('s, 'c, 'w) app \<Rightarrow> server_handler mapper" where
  "app_mapper a = ht_mapper (sv_http (ap_server a))"

definition put_mapper :: "server_handler mapper \<Rightarrow> ('s, 'c, 'w) app \<Rightarrow> ('s, 'c, 'w) app" where
  "put_mapper m a = a\<lparr>ap_server := (ap_server a)\<lparr>sv_http := (sv_http (ap_server a))\<lparr>ht_mapper := m\<rparr>\<rparr>\<rparr>"

definition serve_app :: "('s, 'w) surroundings \<Rightarrow> post_request \<Rightarrow> string \<Rightarrow> (('s, 'c, 'w) app, response) py" where
  "serve_app su rq target =
     zoom (\<lambda>a. (app_mapper a, a)) (\<lambda>(m, a) _. put_mapper m a) (serve_request (su_fr su) (su_dec su) (server_call su) rq target)"

section \<open>Commands over a websocket\<close>

text \<open>The answer to a message; \<open>err_text\<close> is the text of the decoder's exception.\<close>

definition command_message :: "('s, 'w) surroundings \<Rightarrow> (string \<Rightarrow> string) \<Rightarrow> string \<Rightarrow> ('w, string) py" where
  "command_message su err_text message =
     bindp (case loads (su_pf su) message of
              None \<Rightarrow> ret (False, err_text message)
            | Some command \<Rightarrow> su_execute su command) (\<lambda>(success, msg).
     ret (dumps (su_fr su) None (VDict [(''success'', VBool success), (''message'', VStr msg)])))"

section \<open>Routes\<close>

definition routed :: "server_handler mapper \<Rightarrow> bool" where
  "routed m \<longleftrightarrow> (\<forall>(request_type, path, h, description) \<in> set server_routes.
     fst (table_read request_type (CHR ''/'' # path) (hm_requests m)) = Some (App_Handler h))"

lemma add_handler_requests:
  assumes "str_lower path = path"
  shows "add_handler ty path (App_Handler h) d None rt cs m =
    (Inr (), m\<lparr>hm_requests := table_write ty (CHR ''/'' # path) (App_Handler h) (hm_requests m),
       hm_handle_data := table_write ty (CHR ''/'' # path) [(''Description'', d), (''Content-Type'', rt @ ''; charset='' @ cs)] (hm_handle_data m)\<rparr>)"
  using assms by (simp add: add_handler_def Let_def)

lemma routes_lower: "\<forall>(ty, path, h, d) \<in> set server_routes. str_lower path = path"
  by (simp add: server_routes_def str_lower_def char_lower_def is_upper_def)

text \<open>The handlers are added to the table of the mapper, which is all that changes.\<close>

definition add_route :: "string \<times> string \<times> server_handler \<times> string \<Rightarrow> server_handler handle table \<Rightarrow> server_handler handle table" where
  "add_route route t = (case route of (ty, path, h, d) \<Rightarrow> table_write ty (CHR ''/'' # path) (App_Handler h) t)"

lemma register_routes:
  assumes "\<forall>(ty, path, h, d) \<in> set routes. str_lower path = path"
  shows "\<exists>m. for_each (\<lambda>(ty, path, h, d). in_self (http_add_handler ty path (App_Handler h) d None ''application/json'')) routes s =
      (Inr (), s\<lparr>sv_http := (sv_http s)\<lparr>ht_mapper := m\<rparr>\<rparr>) \<and>
    hm_requests m = fold add_route routes (hm_requests (ht_mapper (sv_http s)))"
  using assms
proof (induction routes arbitrary: s)
  case Nil
  then show ?case by (intro exI [of _ "ht_mapper (sv_http s)"]) simp
next
  case (Cons route routes)
  obtain ty path h d where route: "route = (ty, path, h, d)" by (cases route)
  then have "str_lower path = path" using Cons.prems by simp
  then obtain m1 where m1: "in_self (http_add_handler ty path (App_Handler h) d None ''application/json'') s =
      (Inr (), s\<lparr>sv_http := (sv_http s)\<lparr>ht_mapper := m1\<rparr>\<rparr>)" "hm_requests m1 = add_route route (hm_requests (ht_mapper (sv_http s)))"
    by (simp add: http_add_handler_def zoom_def add_handler_requests add_route_def route)
  from Cons.IH [of "s\<lparr>sv_http := (sv_http s)\<lparr>ht_mapper := m1\<rparr>\<rparr>"] Cons.prems m1 show ?case by (auto simp: route)
qed

lemma registered_routes:
  assumes "register_http_handlers s0 = (Inr (), s)"
  shows "routed (ht_mapper (sv_http s))"
proof -
  obtain m where m: "s = s0\<lparr>sv_http := (sv_http s0)\<lparr>ht_mapper := m\<rparr>\<rparr>" "hm_requests m = fold add_route server_routes (hm_requests (ht_mapper (sv_http s0)))"
    using register_routes [OF routes_lower, of s0] assms by (auto simp: register_http_handlers_def)
  show ?thesis by (simp add: m routed_def server_routes_def add_route_def table_read_other)
qed

text \<open>A request to a route is answered by its handler.\<close>

definition answer_of :: "(string \<times> string) list \<Rightarrow> py_error + bool \<times> string \<Rightarrow> py_error + response" where
  "answer_of headers r =
     (case r of
        Inl err \<Rightarrow> Inl err
      | Inr (ok, answer) \<Rightarrow> Inr (if ok then Response 200 headers (utf8_encode answer) else Error_Response 400 answer))"

lemma serve_route:
  assumes "routed (app_mapper a)" and "(rq_command rq, path, h, d) \<in> set server_routes"
    and "rq_command rq = ''POST'' \<Longrightarrow> get_post_request_data (\<lambda>t. Inr (parse_qs (su_dec su) t)) rq = Inr posted"
    and "rq_command rq \<noteq> ''POST'' \<Longrightarrow> posted = NoData"
    and "url_parse target = Inr (CHR ''/'' # path, query)"
    and "server_call su h (request_entries (su_dec su) posted query) a = (r, a')"
  shows "\<exists>headers m. serve_app su rq target a = (answer_of headers r, put_mapper m a')"
proof -
  let ?data = "request_entries (su_dec su) posted query" and ?p = "CHR ''/'' # path" and ?ty = "rq_command rq"
  have ty: "?ty \<noteq> ''HEAD''" "?ty \<in> {''GET'', ''HEAD'', ''POST''}" using assms(2) by (auto simp: server_routes_def)
  have h: "fst (table_read ?ty ?p (hm_requests (app_mapper a))) = Some (App_Handler h)" using assms(1,2) by (fastforce simp: routed_def)
  have "\<exists>headers m. handle_request (su_fr su) (server_call su) ?ty ?p ?data (app_mapper a, a) = (answer_of headers r, (m, a'))"
  proof (cases r)
    case (Inl err)
    then show ?thesis using h ty assms(6) by (simp add: handle_request_def Let_def get_handle_run zoom_def bindp_def run_handle_def answer_of_def)
  next
    case (Inr okc)
    then show ?thesis using h ty assms(6)
      by (cases okc) (auto simp: handle_request_def Let_def get_handle_run zoom_def bindp_def run_handle_def answer_of_def)
  qed
  then show ?thesis using assms(3-5) ty(2) by (cases "?ty = ''POST''") (auto simp: serve_app_def serve_request_def zoom_def bindp_def)
qed

section \<open>Shutting down over HTTP\<close>

definition authorised :: "int \<Rightarrow> request_data \<Rightarrow> bool" where
  "authorised own data \<longleftrightarrow> (case dict_get data ''app_id'' of Some (Texts (t # _)) \<Rightarrow> py_int t = Inr own | _ \<Rightarrow> False)"

lemma shutdown_run:
  assumes "app_id_value (ap_telem a) = Inr (VInt own)"
  shows "shutdown fr rx os data a =
    (if authorised own data
     then (case stop_all rx os (ap_server a) of
             (Inl err, s) \<Rightarrow> (Inl err, a\<lparr>ap_server := s\<rparr>)
           | (Inr _, s) \<Rightarrow> (Inr (True, ''success''), a\<lparr>ap_server := s\<rparr>))
     else (fst (shutdown fr rx os data a), a)) \<and>
    (\<not> authorised own data \<longrightarrow> (\<forall>ok msg. fst (shutdown fr rx os data a) = Inr (ok, msg) \<longrightarrow> \<not> ok))"
proof (cases "dict_get data ''app_id''")
  case None
  then show ?thesis using assms by (simp add: shutdown_def authorised_def)
next
  case (Some v)
  show ?thesis
  proof (cases "first_value v")
    case (Inl err)
    then have "\<not> authorised own data" using Some by (auto simp: authorised_def first_value_def split: request_value.splits list.splits)
    with Inl Some assms show ?thesis by (simp add: shutdown_def bindp_def)
  next
    case (Inr t)
    then have auth: "authorised own data \<longleftrightarrow> py_int t = Inr own" using Some by (auto simp: authorised_def first_value_def split: request_value.splits list.splits)
    then show ?thesis using Inr Some assms
      by (cases "py_int t") (auto simp: shutdown_def bindp_def zoom_def split: prod.splits sum.splits)
  qed
qed

section \<open>Commands in a query\<close>

text \<open>The text of a query that a client writes: every byte of names and values is escaped.\<close>

definition escape_byte :: "byte \<Rightarrow> string" where
  "escape_byte b = [CHR ''%'', hex_char (unat b div 16), hex_char (unat b mod 16)]"

definition quote :: "string \<Rightarrow> string" where
  "quote s = concat (map escape_byte (utf8_encode s))"

definition query_text :: "(string \<times> string) list \<Rightarrow> string" where
  "query_text kvs = py_join ''&'' (map (\<lambda>(k, v). quote k @ CHR ''='' # quote v) kvs)"

lemma unat_byte: "unat (b :: byte) < 256"
  using unsigned_less [of b, where 'a = nat] by simp

lemma unquote_escaped: "unquote_run dec acc (concat (map escape_byte bs)) = dec (acc @ bs)"
proof (induction bs arbitrary: acc)
  case (Cons b bs)
  have "unat b div 16 < 16" using unat_byte [of b] by (intro less_mult_imp_div_less) simp
  moreover have "16 * (unat b div 16) + unat b mod 16 = unat b" by simp
  ultimately show ?case using Cons by (simp add: escape_byte_def hex_digit_char)
qed simp

definition quoted_chars :: "char set" where
  "quoted_chars = {c. let n = (of_char c :: nat) in n = 37 \<or> 48 \<le> n \<and> n \<le> 57 \<or> 97 \<le> n \<and> n \<le> 102}"

lemma hex_char_range: "d < 16 \<Longrightarrow> hex_char d \<in> quoted_chars"
  by (simp add: hex_char_def quoted_chars_def of_char_of Let_def)

lemma quote_chars: "set (quote s) \<subseteq> quoted_chars"
proof -
  have "set (escape_byte b) \<subseteq> quoted_chars" for b
  proof -
    have "unat b div 16 < 16" using unat_byte [of b] by (intro less_mult_imp_div_less) simp
    then have "hex_char (unat b div 16) \<in> quoted_chars" by (rule hex_char_range)
    moreover have "hex_char (unat b mod 16) \<in> quoted_chars" by (rule hex_char_range) simp
    moreover have "CHR ''%'' \<in> quoted_chars" by (simp add: quoted_chars_def)
    ultimately show ?thesis by (simp add: escape_byte_def)
  qed
  then show ?thesis by (auto simp: quote_def)
qed

lemma quote_free: "c \<notin> quoted_chars \<Longrightarrow> c \<notin> set (quote s)"
  using quote_chars [of s] by blast

lemma quote_free_chars: "CHR ''+'' \<notin> set (quote s)" "CHR ''='' \<notin> set (quote s)" "CHR ''&'' \<notin> set (quote s)"
    "CHR '':'' \<notin> set (quote s)" "CHR ''#'' \<notin> set (quote s)"
  by (rule quote_free, simp add: quoted_chars_def)+

lemma unquote_quote:
  assumes "\<forall>t. dec (utf8_encode t) = t"
  shows "unquote dec (quote s) = s"
proof -
  have "map (\<lambda>c. if c = CHR ''+'' then CHR '' '' else c) (quote s) = quote s"
    using quote_free_chars(1) [of s] by (intro map_idI) auto
  then show ?thesis using assms unquote_escaped [of dec "[]" "utf8_encode s"] by (simp add: unquote_def quote_def)
qed

lemma parse_quoted:
  assumes "\<forall>t. dec (utf8_encode t) = t" and "v \<noteq> []" and "k \<notin> set (dict_keys result)"
  shows "parse_field dec result (quote k @ CHR ''='' # quote v) = result @ [(k, [v])]"
proof -
  have "cut_at {CHR ''=''} (quote k @ CHR ''='' # quote v) = (quote k, CHR ''='' # quote v)"
    using quote_free_chars(2) [of k] unfolding cut_at_def by (subst takeWhile_append2 dropWhile_append2, force)+ simp
  moreover have "quote v \<noteq> []" using assms(2) utf8_encode_empty [of v] by (auto simp: quote_def escape_byte_def)
  moreover have "dict_get result k = None" using assms(3) by (simp add: map_of_eq_None_iff)
  ultimately show ?thesis using dict_set_fresh [OF assms(3)] by (simp add: parse_field_def unquote_quote [OF assms(1)])
qed

lemma parse_query:
  assumes "\<forall>t. dec (utf8_encode t) = t" and "\<forall>(k, v) \<in> set kvs. v \<noteq> []" and "distinct (dict_keys kvs)" and "kvs \<noteq> []"
  shows "parse_qs dec (query_text kvs) = map (\<lambda>(k, v). (k, [v])) kvs"
proof -
  have fold: "foldl (parse_field dec) result (map (\<lambda>(k, v). quote k @ CHR ''='' # quote v) kvs) = result @ map (\<lambda>(k, v). (k, [v])) kvs"
    if "\<forall>(k, v) \<in> set kvs. v \<noteq> []" "distinct (dict_keys result @ dict_keys kvs)" for result kvs
    using that
  proof (induction kvs arbitrary: result)
    case (Cons kv kvs)
    obtain k v where kv: "kv = (k, v)" by (cases kv)
    have "parse_field dec result (quote k @ CHR ''='' # quote v) = result @ [(k, [v])]"
      using Cons.prems by (intro parse_quoted [OF assms(1)]) (auto simp: kv)
    then show ?case using Cons.IH [of "result @ [(k, [v])]"] Cons.prems by (simp add: kv)
  qed simp
  have "py_split ''&'' (query_text kvs) = map (\<lambda>(k, v). quote k @ CHR ''='' # quote v) kvs"
    unfolding query_text_def using assms(4) quote_free_chars(3) by (intro split_join) auto
  then show ?thesis using fold [of kvs "[]"] assms(2,3) by (simp add: parse_qs_def)
qed

lemma cut_at_free: "set s \<inter> cs = {} \<Longrightarrow> cut_at cs s = (s, [])"
  by (auto simp: cut_at_def takeWhile_eq_all_conv dropWhile_eq_Nil_conv)

lemma cut_at_through: "set s \<inter> cs = {} \<Longrightarrow> c \<in> cs \<Longrightarrow> cut_at cs (s @ c # r) = (s, c # r)"
  by (induction s) (auto simp: cut_at_def)

text \<open>A path of one plain segment, with or without a query.\<close>

lemma drop_params_segment:
  assumes "set p \<inter> {CHR ''/'', CHR '':'', CHR ''#'', CHR ''?'', CHR '';''} = {}"
  shows "drop_params (CHR ''/'' # p) = CHR ''/'' # p"
proof -
  have "takeWhile (\<lambda>c. c \<noteq> CHR ''/'') (rev (CHR ''/'' # p)) = rev p" using assms by (subst rev.simps, subst takeWhile_append2) auto
  moreover have "cut_at {CHR '';''} p = (p, [])" using assms by (intro cut_at_free) auto
  ultimately show ?thesis by (simp add: drop_params_def)
qed

lemma url_parse_segment:
  assumes "set p \<inter> {CHR ''/'', CHR '':'', CHR ''#'', CHR ''?'', CHR '';''} = {}" and "set q \<inter> {CHR '':'', CHR ''#''} = {}"
  shows "url_parse (CHR ''/'' # p @ CHR ''?'' # q) = Inr (CHR ''/'' # p, q)"
proof -
  let ?url = "(CHR ''/'' # p) @ CHR ''?'' # q"
  have "split_scheme ?url = ([], ?url)" using assms by (subst split_scheme_def, subst cut_at_free) auto
  moreover have "take 2 ?url \<noteq> ''//''" using assms(1) by (cases p) auto
  moreover have "cut_at {CHR ''#''} ?url = (?url, [])" using assms by (intro cut_at_free) auto
  moreover have "cut_at {CHR ''?''} ?url = (CHR ''/'' # p, CHR ''?'' # q)" using assms by (intro cut_at_through) auto
  moreover have "drop_params (CHR ''/'' # p) = CHR ''/'' # p" by (rule drop_params_segment [OF assms(1)])
  ultimately show ?thesis by (simp add: url_parse_def uses_params_def)
qed

lemma url_parse_plain:
  assumes "set p \<inter> {CHR ''/'', CHR '':'', CHR ''#'', CHR ''?'', CHR '';''} = {}"
  shows "url_parse (CHR ''/'' # p) = Inr (CHR ''/'' # p, [])"
proof -
  let ?url = "CHR ''/'' # p"
  have cut: "cut_at cs ?url = (?url, [])" if "cs \<subseteq> {CHR '':'', CHR ''#'', CHR ''?''}" for cs
    using assms that by (intro cut_at_free) auto
  have "split_scheme ?url = ([], ?url)" by (simp add: split_scheme_def cut)
  moreover have "take 2 ?url \<noteq> ''//''" using assms by (cases p) auto
  ultimately show ?thesis using drop_params_segment [OF assms] by (simp add: url_parse_def uses_params_def cut)
qed

lemma query_text_free: "set (query_text kvs) \<inter> {CHR '':'', CHR ''#''} = {}"
proof -
  have "set (py_join ''&'' xs) \<subseteq> insert (CHR ''&'') (\<Union>(set ` set xs))" for xs
    by (induction "''&'' :: string" xs rule: py_join.induct) auto
  then show ?thesis unfolding query_text_def using quote_free_chars(4,5) by fastforce
qed

lemma text_entries: "dict_keys (map (\<lambda>(k, v). (k, f v)) kvs) = dict_keys kvs"
  by auto

lemma query_entries:
  assumes "\<forall>t. dec (utf8_encode t) = t" and "\<forall>(k, v) \<in> set kvs. v \<noteq> []" and "distinct (dict_keys kvs)" and "kvs \<noteq> []"
  shows "request_entries dec NoData (query_text kvs) = map (\<lambda>(k, v). (k, Texts [v])) kvs"
proof -
  have "query_text kvs \<noteq> []" using parse_query [OF assms] assms(4) by (auto simp: parse_qs_def py_split_def parse_field_def cut_at_def)
  then show ?thesis using parse_query [OF assms] assms(3) dict_update_fresh [of "[]" "map (\<lambda>(k, v). (k, Texts [v])) kvs"]
    by (simp add: request_entries_def posted_entries_def comp_def case_prod_unfold)
qed

lemma collapse_texts: "collapse_entries (map (\<lambda>(k, v). (k, Texts [v])) kvs) = Inr (map (\<lambda>(k, v). (k, VStr v)) kvs)"
  by (induction kvs) (auto simp: collapse_value_def)

section \<open>Documents of objects\<close>

text \<open>Data with a JSON form: the keys of each dictionary are distinct and of one kind.\<close>

definition one_kind :: "(object_key \<times> 'v) list \<Rightarrow> bool" where
  "one_kind kvs \<longleftrightarrow> str_entries kvs \<noteq> None \<or> int_entries kvs \<noteq> None"

fun element_ok :: "(pyfloat \<Rightarrow> bool) \<Rightarrow> pyval \<Rightarrow> bool" where
  "element_ok P (VFloat x) = P x"
| "element_ok P (VList vs) = False"
| "element_ok P (VDict kvs) = False"
| "element_ok P v = True"

fun object_ok :: "(pyfloat \<Rightarrow> bool) \<Rightarrow> object \<Rightarrow> bool"
  and objects_ok :: "(pyfloat \<Rightarrow> bool) \<Rightarrow> object list \<Rightarrow> bool"
  and mapped_ok :: "(pyfloat \<Rightarrow> bool) \<Rightarrow> (object_key \<times> object) list \<Rightarrow> bool" where
  "object_ok P (Scalar v) = element_ok P v"
| "object_ok P (Items os) = objects_ok P os"
| "object_ok P (Mapping kvs) = (distinct (dict_keys kvs) \<and> one_kind kvs \<and> mapped_ok P kvs)"
| "objects_ok P [] = True"
| "objects_ok P (o1 # os) = (object_ok P o1 \<and> objects_ok P os)"
| "mapped_ok P [] = True"
| "mapped_ok P ((k, o1) # kvs) = (object_ok P o1 \<and> mapped_ok P kvs)"

lemma str_entries_map: "str_entries kvs = Some es \<Longrightarrow> kvs = map (\<lambda>(k, v). (KStr k, v)) es"
  by (induction kvs arbitrary: es rule: str_entries.induct) auto

lemma int_entries_map: "int_entries kvs = Some es \<Longrightarrow> kvs = map (\<lambda>(k, v). (KInt k, v)) es"
  by (induction kvs arbitrary: es rule: int_entries.induct) auto

lemma entries_ok_iff: "entries_ok P kvs \<longleftrightarrow> (\<forall>(k, v) \<in> set kvs. doc_ok P v)"
  by (induction kvs) auto

lemma keys_of_map: "dict_keys (map (\<lambda>(k, v). (f k, v)) es) = map f (dict_keys es)"
  by auto

lemma sorted_entries_ok:
  assumes "distinct (dict_keys es)" and "one_kind es" and "\<forall>(k, v) \<in> set es. doc_ok P v"
  shows "\<exists>kvs. sorted_entries es = Inr kvs \<and> doc_ok P (VDict kvs)"
proof (cases "str_entries es")
  case (Some ses)
  note es = str_entries_map [OF Some]
  have d: "distinct (dict_keys ses)" using assms(1) unfolding es keys_of_map by (simp only: distinct_map)
  have "\<forall>(k, v) \<in> set (sort_key fst ses). doc_ok P v" using assms(3) unfolding es by auto
  with sorted_dict(1) [OF d] Some show ?thesis by (simp add: sorted_entries_def entries_ok_iff)
next
  case None
  then obtain ies where ies: "int_entries es = Some ies" using assms(2) by (auto simp: one_kind_def)
  note es = int_entries_map [OF ies]
  let ?s = "sort_key fst ies"
  have d: "distinct (dict_keys ies)" using assms(1) unfolding es keys_of_map by (simp only: distinct_map)
  have "distinct (dict_keys (map (\<lambda>(i, v). (int_str i, v)) ?s))"
    unfolding keys_of_map using sorted_dict(1) [OF d] by (simp only: distinct_map) (simp add: inj_on_def int_str_inj)
  moreover have "\<forall>(k, v) \<in> set (map (\<lambda>(i, v). (int_str i, v)) ?s). doc_ok P v" using assms(3) unfolding es by auto
  ultimately show ?thesis using None ies by (simp add: sorted_entries_def entries_ok_iff)
qed

lemma one_kind_values: "one_kind (map (\<lambda>(k, v). (k, f v)) kvs) \<longleftrightarrow> one_kind kvs"
proof -
  have "str_entries (map (\<lambda>(k, v). (k, f v)) kvs) = map_option (map (\<lambda>(k, v). (k, f v))) (str_entries kvs)"
    by (induction kvs rule: str_entries.induct) (simp_all add: option.map_comp comp_def)
  moreover have "int_entries (map (\<lambda>(k, v). (k, f v)) kvs) = map_option (map (\<lambda>(k, v). (k, f v))) (int_entries kvs)"
    by (induction kvs rule: int_entries.induct) (simp_all add: option.map_comp comp_def)
  ultimately show ?thesis by (simp add: one_kind_def)
qed

lemma entries_same_kind:
  assumes "map fst es = map fst kvs"
  shows "one_kind es \<longleftrightarrow> one_kind kvs"
proof -
  have "map (\<lambda>(k, v). (k, ())) es = map (\<lambda>(k, v). (k, ())) kvs"
    using arg_cong [OF assms, of "map (\<lambda>k. (k, ()))"] by (simp add: comp_def case_prod_unfold)
  then show ?thesis using one_kind_values [of "\<lambda>_. ()" es] one_kind_values [of "\<lambda>_. ()" kvs] by simp
qed

lemma object_document:
  "object_ok P o1 \<Longrightarrow> \<exists>v. json_view True o1 = Inr v \<and> doc_ok P v"
  "objects_ok P os \<Longrightarrow> \<exists>vs. json_views True os = Inr vs \<and> docs_ok P vs"
  "mapped_ok P kvs \<Longrightarrow> \<exists>es. entry_views True kvs = Inr es \<and> map fst es = map fst kvs \<and> (\<forall>(k, v) \<in> set es. doc_ok P v)"
proof (induction P o1 and P os and P kvs rule: object_ok_objects_ok_mapped_ok.induct)
  case (1 P v)
  then show ?case by (cases v) auto
next
  case (3 P kvs)
  then obtain es where es: "entry_views True kvs = Inr es" "map fst es = map fst kvs" "\<forall>(k, v) \<in> set es. doc_ok P v" by auto
  then have "distinct (dict_keys es)" "one_kind es" using 3(2) entries_same_kind [OF es(2)] by simp_all
  with sorted_entries_ok [OF this es(3)] es(1) show ?case by auto
next
  case (7 P k o1 kvs)
  then obtain v es where "json_view True o1 = Inr v" "doc_ok P v" "entry_views True kvs = Inr es" "map fst es = map fst kvs"
      "\<forall>(k, v) \<in> set es. doc_ok P v" by auto
  then show ?case by auto
qed auto

text \<open>A registry whose items all have a document has one itself.\<close>

definition registry_wf :: "'a registry \<Rightarrow> bool" where
  "registry_wf r \<longleftrightarrow> distinct (dict_keys (reg_items r)) \<and> distinct (dict_keys (reg_mappings r))"

lemma encoded_items:
  assumes "\<forall>(i, item) \<in> set items. \<forall>x. item = Some x \<longrightarrow> (\<exists>o1. enc x = Inr o1 \<and> object_ok P o1)"
  shows "\<exists>es. map_each (encode_item enc) items () = (Inr es, ()) \<and> map fst es = map KInt (dict_keys items) \<and> mapped_ok P es"
  using assms
proof (induction items)
  case (Cons it items)
  obtain i item where it: "it = (i, item)" by (cases it)
  obtain es where "map_each (encode_item enc) items () = (Inr es, ())" "map fst es = map KInt (dict_keys items)" "mapped_ok P es"
    using Cons.IH Cons.prems unfolding list.set ball_simps by blast
  moreover obtain o1 where "(case item of None \<Rightarrow> Inr (Scalar VNone) | Some x \<Rightarrow> enc x) = Inr o1" "object_ok P o1"
    using Cons.prems it by (cases item) auto
  then have "encode_item enc it () = (Inr (KInt i, o1), ())" by (simp add: encode_item_def it)
  ultimately show ?case using \<open>object_ok P o1\<close> by (simp add: it)
qed simp

lemma int_kind: "map fst es = map KInt ks \<Longrightarrow> one_kind es"
proof -
  assume "map fst es = map KInt ks"
  moreover have "int_entries (map (\<lambda>k. (KInt k, ())) ks) \<noteq> None" for ks by (induction ks) auto
  then have "one_kind (map (\<lambda>k. (KInt k, ())) ks)" by (simp add: one_kind_def)
  ultimately show ?thesis using entries_same_kind [of es "map (\<lambda>k. (KInt k, ())) ks"] by (simp add: comp_def)
qed

lemma str_kind: "map fst es = map KStr ks \<Longrightarrow> one_kind es"
proof -
  assume "map fst es = map KStr ks"
  moreover have "str_entries (map (\<lambda>k. (KStr k, ())) ks) \<noteq> None" for ks by (induction ks) auto
  then have "one_kind (map (\<lambda>k. (KStr k, ())) ks)" by (simp add: one_kind_def)
  ultimately show ?thesis using entries_same_kind [of es "map (\<lambda>k. (KStr k, ())) ks"] by (simp add: comp_def)
qed

lemma registry_document:
  assumes "registry_wf r" and "\<forall>(i, item) \<in> set (reg_items r). \<forall>x. item = Some x \<longrightarrow> (\<exists>o1. enc x = Inr o1 \<and> object_ok P o1)"
    and "reg_type_name r \<noteq> ''mappings''" and "extra = [] \<or> (\<exists>o1. extra = [(KStr n, o1)] \<and> n \<notin> {reg_type_name r, ''mappings''} \<and> object_ok P o1)"
  shows "\<exists>o1 v. registry_object enc extra r = Inr o1 \<and> json_view True o1 = Inr v \<and> doc_ok P v"
proof -
  obtain es where es: "map_each (encode_item enc) (reg_items r) () = (Inr es, ())" "map fst es = map KInt (dict_keys (reg_items r))" "mapped_ok P es"
    using encoded_items [OF assms(2)] by blast
  have items: "object_ok P (Mapping es)" using es(2,3) assms(1) int_kind [OF es(2)]
    by (simp add: registry_wf_def distinct_map inj_on_def)
  let ?names = "map (\<lambda>(n, i). (KStr n, Scalar (case i of None \<Rightarrow> VNone | Some k \<Rightarrow> VInt k))) (reg_mappings r)"
  have keys: "map fst ?names = map KStr (dict_keys (reg_mappings r))" by auto
  have "mapped_ok P (map (\<lambda>(n, i). (KStr n, Scalar (case i of None \<Rightarrow> VNone | Some k \<Rightarrow> VInt k))) m)" for m by (induction m) (auto split: option.split)
  then have names: "object_ok P (Mapping ?names)" using str_kind [OF keys] assms(1)
    unfolding object_ok.simps keys registry_wf_def by (simp add: distinct_map inj_on_def)
  let ?o = "Mapping ([(KStr (reg_type_name r), Mapping es), (KStr ''mappings'', Mapping ?names)] @ extra)"
  have "object_ok P ?o" using items names assms(3,4) by (auto simp: one_kind_def)
  with object_document(1) [OF this] es(1) show ?thesis by (auto simp: registry_object_def)
qed

lemma flat_object_ok:
  assumes "distinct (dict_keys kvs)" and "\<forall>(k, v) \<in> set kvs. plain_element v"
  shows "object_ok P (flat_object kvs)"
proof -
  have keys: "map fst (map (\<lambda>(k, v). (KStr k, Scalar v)) kvs) = map KStr (dict_keys kvs)" by auto
  have "mapped_ok P (map (\<lambda>(k, v). (KStr k, Scalar v)) kvs)" using assms(2)
  proof (induction kvs)
    case (Cons kv kvs)
    obtain k v where "kv = (k, v)" by (cases kv)
    with Cons show ?case by (cases v) (auto simp: plain_element_def)
  qed simp
  then show ?thesis using str_kind [OF keys] assms(1) unfolding flat_object_def object_ok.simps keys
    by (simp add: distinct_map inj_on_def)
qed

lemma int_mapping_ok:
  assumes "distinct (dict_keys m)" and "\<forall>(i, x) \<in> set m. object_ok P (f x)"
  shows "object_ok P (Mapping (map (\<lambda>(i, x). (KInt i, f x)) m))"
proof -
  have keys: "map fst (map (\<lambda>(i, x). (KInt i, f x)) m) = map KInt (dict_keys m)" by auto
  have "mapped_ok P (map (\<lambda>(i, x). (KInt i, f x)) m)" using assms(2) by (induction m) auto
  then show ?thesis using int_kind [OF keys] assms(1) unfolding object_ok.simps keys by (simp add: distinct_map inj_on_def)
qed

lemma encoders_ok:
  "P (ch_rate c) \<Longrightarrow> \<exists>o1. encode_channel c = Inr o1 \<and> object_ok P o1"
  "distinct (dict_keys (ue_mappings e)) \<Longrightarrow> \<exists>o1. encode_enum e = Inr o1 \<and> object_ok P o1"
  "\<exists>o1. encode_primitive p = Inr o1 \<and> object_ok P o1"
  "\<exists>o1. encode_service addrs = Inr o1 \<and> object_ok P o1"
proof -
  show "\<exists>o1. encode_primitive p = Inr o1 \<and> object_ok P o1"
    using flat_object_ok [OF primitive_data(1,2)] by (simp add: encode_primitive_def)
  have "object_ok P (flat_object [(''name'', VStr n), (''signed'', VBool b), (''size'', VInt k)])" for n b k
    by (rule flat_object_ok) (simp_all add: plain_element_def)
  then show "P (ch_rate c) \<Longrightarrow> \<exists>o1. encode_channel c = Inr o1 \<and> object_ok P o1"
    by (simp add: encode_channel_def Let_def one_kind_def text_object_def)
  show "\<exists>o1. encode_enum e = Inr o1 \<and> object_ok P o1" if "distinct (dict_keys (ue_mappings e))"
    using int_mapping_ok [OF that, of P text_object]
    by (simp add: encode_enum_def enum_data_object_def names_object_def one_kind_def text_object_def)
  have "objects_ok P (map (\<lambda>(host, port). Items [text_object host, Scalar (VInt port)]) addrs)"
    by (induction addrs) (auto simp: text_object_def)
  then show "\<exists>o1. encode_service addrs = Inr o1 \<and> object_ok P o1" by (simp add: encode_service_def)
qed

text \<open>The registries of a server as its operations leave them.\<close>

definition registries_wf :: "(pyfloat \<Rightarrow> bool) \<Rightarrow> ('s, 'c, 'w) app \<Rightarrow> bool" where
  "registries_wf P a \<longleftrightarrow>
     (let env = te_chan (ap_telem a); er = te_enums (ap_telem a)
      in registry_wf (env_registry env) \<and> reg_type_name (env_registry env) = ''channels'' \<and>
         (\<forall>(i, item) \<in> set (reg_items (env_registry env)). \<forall>r. item = Some r \<longrightarrow> P (ch_rate (chan_at env r))) \<and>
         registry_wf (er_reg er) \<and> reg_type_name (er_reg er) = ''enums'' \<and> distinct (dict_keys (er_global er)) \<and>
         (\<forall>(i, item) \<in> set (reg_items (er_reg er)). \<forall>e. item = Some e \<longrightarrow> distinct (dict_keys (ue_mappings e))) \<and>
         registry_wf (te_types (ap_telem a)) \<and> reg_type_name (te_types (ap_telem a)) = ''types'' \<and>
         registry_wf (ap_groups a) \<and> reg_type_name (ap_groups a) = ''channel_groups'' \<and>
         registry_wf (ap_services a) \<and> reg_type_name (ap_services a) = ''services'')"

text \<open>The document of a registry.\<close>

definition registry_doc :: "('a \<Rightarrow> py_error + object) \<Rightarrow> (object_key \<times> object) list \<Rightarrow> 'a registry \<Rightarrow> pyval \<Rightarrow> bool" where
  "registry_doc enc extra r v \<longleftrightarrow> (\<exists>o1. registry_object enc extra r = Inr o1 \<and> json_view True o1 = Inr v)"

abbreviation global_entry :: "enum_registry \<Rightarrow> (object_key \<times> object) list" where
  "global_entry er \<equiv> [(KStr ''global_mappings'', Mapping (map (\<lambda>(k, v). (KInt k, Scalar (VInt v))) (er_global er)))]"

lemma described: "registry_doc enc extra r v \<Longrightarrow> describe fr False enc extra r = Inr (dumps fr None v)"
  by (auto simp: registry_doc_def describe_def)

definition has_group :: "group registry \<Rightarrow> bool" where
  "has_group r \<longleftrightarrow> (\<exists>(i, item) \<in> set (reg_items r). item \<noteq> None)"

lemma groups_fail: "has_group r \<Longrightarrow> describe fr b encode_group extra r = Inl TypeError"
proof -
  have "\<exists>(i, item) \<in> set items. item \<noteq> None \<Longrightarrow> map_each (encode_item encode_group) items () = (Inl TypeError, ())" for items
  proof (induction items)
    case (Cons it items)
    obtain i item where "it = (i, item)" by (cases it)
    with Cons show ?case by (cases item) (auto simp: encode_item_def encode_group_def bindp_def)
  qed simp
  then show "has_group r \<Longrightarrow> ?thesis" by (simp add: has_group_def describe_def registry_object_def)
qed

lemma registries_run:
  assumes "registries_wf (reads_back pf fr) a"
  shows "if has_group (ap_groups a) then get_registries fr pf data a = (Inl TypeError, a)
    else \<exists>vc ve vt vg vs ind. get_registries fr pf data a =
        (Inr (True, dumps fr ind (VDict [(''channel'', vc), (''enum'', ve), (''type'', vt), (''channel_groups'', vg), (''services'', vs)])), a) \<and>
      doc_ok (reads_back pf fr) (VDict [(''channel'', vc), (''enum'', ve), (''type'', vt), (''channel_groups'', vg), (''services'', vs)]) \<and>
      registry_doc (\<lambda>r. encode_channel (chan_at (te_chan (ap_telem a)) r)) [] (env_registry (te_chan (ap_telem a))) vc \<and>
      registry_doc encode_enum (global_entry (te_enums (ap_telem a))) (er_reg (te_enums (ap_telem a))) ve \<and>
      registry_doc encode_primitive [] (te_types (ap_telem a)) vt \<and> registry_doc encode_group [] (ap_groups a) vg \<and>
      registry_doc encode_service [] (ap_services a) vs"
proof -
  let ?P = "reads_back pf fr" and ?env = "te_chan (ap_telem a)" and ?er = "te_enums (ap_telem a)"
  note wf = assms [unfolded registries_wf_def Let_def]
  obtain vc where vc: "registry_doc (\<lambda>r. encode_channel (chan_at ?env r)) [] (env_registry ?env) vc" "doc_ok ?P vc"
    using registry_document [of "env_registry ?env" "\<lambda>r. encode_channel (chan_at ?env r)" ?P "[]"] wf encoders_ok(1)
    unfolding registry_doc_def by fastforce
  have "object_ok ?P (Mapping (map (\<lambda>(k, v). (KInt k, Scalar (VInt v))) (er_global ?er)))"
    using wf int_mapping_ok [of "er_global ?er" ?P "\<lambda>v. Scalar (VInt v)"] by simp
  then obtain ve where ve: "registry_doc encode_enum (global_entry ?er) (er_reg ?er) ve" "doc_ok ?P ve"
    using registry_document [of "er_reg ?er" encode_enum ?P "global_entry ?er" "''global_mappings''"] wf encoders_ok(2)
    unfolding registry_doc_def by fastforce
  obtain vt where vt: "registry_doc encode_primitive [] (te_types (ap_telem a)) vt" "doc_ok ?P vt"
    using registry_document [of "te_types (ap_telem a)" encode_primitive ?P "[]"] wf encoders_ok(3)
    unfolding registry_doc_def by fastforce
  obtain vs where vs: "registry_doc encode_service [] (ap_services a) vs" "doc_ok ?P vs"
    using registry_document [of "ap_services a" encode_service ?P "[]"] wf encoders_ok(4)
    unfolding registry_doc_def by fastforce
  note run = get_registries_def registry_texts_def described [OF vc(1)] described [OF ve(1)] described [OF vt(1)] described [OF vs(1)]
    loads_dumps [OF vc(2)] loads_dumps [OF ve(2)] loads_dumps [OF vt(2)] loads_dumps [OF vs(2)]
  show ?thesis
  proof (cases "has_group (ap_groups a)")
    case True
    then show ?thesis by (simp add: run groups_fail bindp_def)
  next
    case False
    then obtain vg where vg: "registry_doc encode_group [] (ap_groups a) vg" "doc_ok ?P vg"
      using registry_document [of "ap_groups a" encode_group ?P "[]"] wf
      unfolding registry_doc_def has_group_def by fastforce
    define ind where "ind = (if dict_get data ''indent'' \<noteq> None then Some DEFAULT_INDENT else None)"
    have "get_registries fr pf data a = (Inr (True, dumps fr ind
        (VDict [(''channel'', vc), (''enum'', ve), (''type'', vt), (''channel_groups'', vg), (''services'', vs)])), a)"
      by (simp add: run described [OF vg(1)] loads_dumps [OF vg(2)] ind_def)
    moreover have "doc_ok ?P (VDict [(''channel'', vc), (''enum'', ve), (''type'', vt), (''channel_groups'', vg), (''services'', vs)])"
      using vc(2) ve(2) vt(2) vg(2) vs(2) by simp
    ultimately show ?thesis using False vc(1) ve(1) vt(1) vg(1) vs(1) by (subst if_not_P) blast+
  qed
qed

section \<open>A server\<close>

text \<open>A server with its handlers, an environment whose identifier is 77, and commands that are only recorded.\<close>

definition sample_surroundings :: "(byte list, pyval list) surroundings" where
  "sample_surroundings = \<lparr>su_fr = (\<lambda>_. ''0.0''), su_pf = (\<lambda>_. 0), su_dec = (\<lambda>bs. case utf8_decode bs of Inl _ \<Rightarrow> [] | Inr s \<Rightarrow> s),
     su_reactions = sample_reactions, su_sockets = sample_sockets, su_execute = (\<lambda>doc done. (Inr (True, ''received''), done @ [doc]))\<rparr>"

definition bare_server :: "(server_handler, byte list, unit) server" where
  "bare_server = \<lparr>sv_http = \<lparr>ht_daemon = ht_daemon (sv_http sample_server), ht_mapper = new_mapper, ht_address = (''0.0.0.0'', 8000), ht_tls = False,
       ht_closed = False, ht_listening = True\<rparr>, sv_http_enabled = True, sv_daemons = sample_daemons, sv_keeper = sv_keeper sample_server,
     sv_udp = sample_manager, sv_first_start = False, sv_sem = 0\<rparr>"

definition sample_app :: "(byte list, unit, pyval list) app" where
  "sample_app = \<lparr>ap_server = snd (register_http_handlers bare_server),
     ap_telem = sample_env\<lparr>te_chan := (te_chan sample_env)\<lparr>env_framer := (env_framer (te_chan sample_env))
       \<lparr>frm_primitives := [(''app_id'', (new_type_primitive UINT16 False)\<lparr>tp_data := VInt 77\<rparr>)]\<rparr>\<rparr>\<rparr>,
     ap_groups = empty_registry ''channel_groups'',
     ap_services = \<lparr>reg_type_name = ''services'', reg_items = [(0, Some [(''localhost'', 8000)])], reg_mappings = [(''http'', Some 0)], reg_curr_id = 1\<rparr>,
     ap_commands = []\<rparr>"

lemma seventy_seven: "py_int ''77'' = Inr 77"
  by code_simp

lemma sample_app_registered: "register_http_handlers bare_server = (Inr (), ap_server sample_app)"
  using register_routes [OF routes_lower, of bare_server] by (auto simp: sample_app_def register_http_handlers_def)

lemma sample_dec: "\<forall>t. su_dec sample_surroundings (utf8_encode t) = t"
  by (simp add: sample_surroundings_def utf8_decode_encode)

abbreviation get_request :: "string \<Rightarrow> post_request" where
  "get_request command \<equiv> \<lparr>rq_command = command, rq_content_length = None, rq_content_type = None, rq_read = (\<lambda>_. Inl OSError)\<rparr>"

lemma sample_reads_back: "reads_back (\<lambda>_. 0) (\<lambda>_. ''0.0'') 0"
proof -
  have names: "json_name (json_names (\<lambda>_. 0)) (''0.0'' @ r) = None" for r by (simp add: json_names_def)
  have digits: "is_digit CHR ''0''" "\<not> is_digit CHR '',''" "\<not> is_digit CHR '']''" "\<not> is_digit CHR ''}''" "\<not> is_digit CHR 0x0A" "\<not> is_digit CHR ''.''"
    by (simp_all add: is_digit_def)
  have "json_number (\<lambda>_. 0) (''0.0'' @ r) = Some (VFloat 0, r)" if "value_ends r" for r
  proof -
    have frac: "frac_part (''.0'' @ r) = (''.0'', r)" using that digits by (cases r) (auto simp: frac_part_def value_ends_def)
    have "exp_part r = ([], r)" using that by (cases r) (auto simp: exp_part_def value_ends_def)
    with frac show ?thesis by (simp add: json_number_def int_part_def)
  qed
  then have "json_atom (\<lambda>_. 0) (''0.0'' @ r) = Some (VFloat 0, r)" if "value_ends r" for r
    using that names by (simp only: json_atom_def option.case)
  then show ?thesis by (simp add: reads_back_def json_space_def)
qed

lemma sample_registries: "registries_wf (reads_back (su_pf sample_surroundings) (su_fr sample_surroundings)) sample_app"
  using sample_reads_back
  by (simp add: registries_wf_def registry_wf_def sample_app_def sample_surroundings_def sample_defs empty_registry_def)

section \<open>Properties\<close>

text \<open>
  Property C28: a request to shut the server down stops it only when it names the identifier of the
  application. Then the answer is what stopping gives, success or the exception; any other request,
  without the identifier, with another or with a malformed one, is refused with status 400 or raises,
  and nothing but the table of handlers changes.
\<close>

theorem shutdown_guarded:
  assumes "register_http_handlers s0 = (Inr (), ap_server a)" and "rq_command rq = ''POST''"
    and "get_post_request_data (\<lambda>t. Inr (parse_qs (su_dec su) t)) rq = Inr posted" and "url_parse target = Inr (''/shutdown'', query)"
    and "app_id_value (ap_telem a) = Inr (VInt own)"
  shows "\<exists>headers m. if authorised own (request_entries (su_dec su) posted query)
    then (case stop_all (su_reactions su) (su_sockets su) (ap_server a) of
        (Inl err, s) \<Rightarrow> serve_app su rq target a = (Inl err, put_mapper m (a\<lparr>ap_server := s\<rparr>))
      | (Inr _, s) \<Rightarrow> serve_app su rq target a = (Inr (Response 200 headers (utf8_encode ''success'')), put_mapper m (a\<lparr>ap_server := s\<rparr>)))
    else snd (serve_app su rq target a) = put_mapper m a \<and>
      (\<forall>resp. fst (serve_app su rq target a) = Inr resp \<longrightarrow> (\<exists>msg. resp = Error_Response 400 msg))"
proof -
  let ?data = "request_entries (su_dec su) posted query"
  obtain r a' where run: "server_call su ShutdownHandler ?data a = (r, a')" by (metis surj_pair)
  then have sd: "shutdown (su_fr su) (su_reactions su) (su_sockets su) ?data a = (r, a')" by (simp add: server_call_def)
  have routed: "routed (app_mapper a)" using registered_routes [OF assms(1)] by (simp add: app_mapper_def)
  obtain headers m where serve: "serve_app su rq target a = (answer_of headers r, put_mapper m a')"
    using serve_route [OF routed, of rq "''shutdown''" ShutdownHandler _ su posted target query r a'] assms(2-4) run
    by (auto simp: server_routes_def)
  have sh: "(r, a') = (if authorised own ?data
     then (case stop_all (su_reactions su) (su_sockets su) (ap_server a) of
             (Inl err, s) \<Rightarrow> (Inl err, a\<lparr>ap_server := s\<rparr>)
           | (Inr _, s) \<Rightarrow> (Inr (True, ''success''), a\<lparr>ap_server := s\<rparr>))
     else (r, a))" "\<not> authorised own ?data \<Longrightarrow> r = Inr (ok, msg) \<Longrightarrow> \<not> ok" for ok msg
    using shutdown_run [where fr = "su_fr su" and rx = "su_reactions su" and os = "su_sockets su" and data = ?data, OF assms(5)] unfolding sd by auto
  show ?thesis
  proof (cases "authorised own ?data")
    case True
    with sh(1) serve show ?thesis
      by (intro exI [of _ headers] exI [of _ m]) (auto simp: answer_of_def split: prod.splits sum.splits)
  next
    case False
    then have "a' = a" using sh(1) by simp
    with False serve sh(2) show ?thesis
      by (intro exI [of _ headers] exI [of _ m]) (auto simp: answer_of_def split: sum.splits prod.splits)
  qed
qed

theorem shutdown_guarded_witness:
  "\<exists>headers m. case stop_all sample_reactions sample_sockets (ap_server sample_app) of
      (Inl err, s) \<Rightarrow> serve_app sample_surroundings (get_request ''POST'') (''/shutdown?'' @ query_text [(''app_id'', ''77'')]) sample_app =
        (Inl err, put_mapper m (sample_app\<lparr>ap_server := s\<rparr>))
    | (Inr _, s) \<Rightarrow> serve_app sample_surroundings (get_request ''POST'') (''/shutdown?'' @ query_text [(''app_id'', ''77'')]) sample_app =
        (Inr (Response 200 headers (utf8_encode ''success'')), put_mapper m (sample_app\<lparr>ap_server := s\<rparr>))"
proof -
  let ?q = "query_text [(''app_id'', ''77'')]" and ?rq = "get_request ''POST''"
  have entries: "request_entries (su_dec sample_surroundings) NoData ?q = [(''app_id'', Texts [''77''])]"
    using query_entries [OF sample_dec, of "[(''app_id'', ''77'')]"] by simp
  have auth: "authorised 77 (request_entries (su_dec sample_surroundings) NoData ?q)"
    unfolding entries by (simp add: authorised_def seventy_seven)
  have posted: "get_post_request_data (\<lambda>t. Inr (parse_qs (su_dec sample_surroundings) t)) ?rq = Inr NoData"
    by (simp add: get_post_request_data_def)
  have url: "url_parse (''/shutdown?'' @ ?q) = Inr (''/shutdown'', ?q)"
    using url_parse_segment [of "''shutdown''" ?q, OF _ query_text_free] by simp
  have own: "app_id_value (ap_telem sample_app) = Inr (VInt 77)"
    by (simp add: app_id_value_def sample_app_def sample_env_def dict_item_def tp_get_def new_type_primitive_def)
  have command: "rq_command ?rq = ''POST''" by simp
  have parts: "su_reactions sample_surroundings = sample_reactions" "su_sockets sample_surroundings = sample_sockets"
    by (simp_all add: sample_surroundings_def)
  show ?thesis using shutdown_guarded [OF sample_app_registered command posted url own] auth unfolding parts by (simp only: if_True)
qed

text \<open>
  Property C29: a command that a client writes into the query of a target, every byte escaped, reaches
  the command daemon as it was written: its name under \<open>command\<close> and its arguments, in order, once
  beside it and once as its data. The answer is the answer of the command.
\<close>

theorem query_command_received:
  assumes "register_http_handlers s0 = (Inr (), ap_server a)" and "rq_command rq = ''GET''"
    and "\<forall>t. su_dec su (utf8_encode t) = t" and "name \<noteq> []" and "\<forall>(k, v) \<in> set args. v \<noteq> []"
    and "distinct (''command'' # ''data'' # dict_keys args)"
    and "su_execute su (VDict ((''command'', VStr name) # map (\<lambda>(k, v). (k, VStr v)) args @ [(''data'', VDict (map (\<lambda>(k, v). (k, VStr v)) args))]))
      (ap_commands a) = (Inr (ok, answer), w)"
  shows "\<exists>headers m. serve_app su rq (''/command?'' @ query_text ((''command'', name) # args)) a =
    (Inr (if ok then Response 200 headers (utf8_encode answer) else Error_Response 400 answer), put_mapper m (a\<lparr>ap_commands := w\<rparr>))"
proof -
  let ?kvs = "(''command'', name) # args" and ?vs = "map (\<lambda>(k, v). (k, VStr v)) args"
  have entries: "request_entries (su_dec su) NoData (query_text ?kvs) = map (\<lambda>(k, v). (k, Texts [v])) ?kvs"
    using assms(4-6) by (intro query_entries [OF assms(3)]) auto
  have data: "filter (\<lambda>(k, v). k \<notin> {''command'', ''data''}) ((''command'', VStr name) # ?vs) = ?vs"
    using assms(6) by (force simp: filter_id_conv)
  have "''data'' \<notin> set (dict_keys ?vs)" using assms(6) unfolding text_entries by simp
  then have "command_document (map (\<lambda>(k, v). (k, Texts [v])) ?kvs) =
      Inr (VDict ((''command'', VStr name) # ?vs @ [(''data'', VDict ?vs)]))"
    unfolding command_document_def collapse_texts using data by simp
  then have "server_call su CommandHandler (request_entries (su_dec su) NoData (query_text ?kvs)) a = (Inr (ok, answer), a\<lparr>ap_commands := w\<rparr>)"
    using assms(7) unfolding entries by (simp add: server_call_def run_command_def zoom_def)
  moreover have "url_parse (''/command?'' @ query_text ?kvs) = Inr (''/command'', query_text ?kvs)"
    using url_parse_segment [of "''command''" "query_text ?kvs", OF _ query_text_free] by simp
  moreover have "routed (app_mapper a)" using registered_routes [OF assms(1)] by (simp add: app_mapper_def)
  ultimately show ?thesis
    using serve_route [of a rq "''command''" CommandHandler _ su NoData _ "query_text ?kvs"] assms(2)
    by (fastforce simp: answer_of_def server_routes_def)
qed

theorem query_command_received_witness:
  "\<exists>headers m. serve_app sample_surroundings (get_request ''GET'') (''/command?'' @ query_text [(''command'', ''set''), (''value'', ''a&b'')]) sample_app =
    (Inr (Response 200 headers (utf8_encode ''received'')), put_mapper m (sample_app\<lparr>ap_commands :=
      [VDict [(''command'', VStr ''set''), (''value'', VStr ''a&b''), (''data'', VDict [(''value'', VStr ''a&b'')])]]\<rparr>))"
proof -
  have "rq_command (get_request ''GET'') = ''GET''" by simp
  from query_command_received [OF sample_app_registered this sample_dec, of "''set''" "[(''value'', ''a&b'')]" True "''received''"] show ?thesis
    by (simp add: sample_surroundings_def sample_app_def)
qed

text \<open>
  Property C30: the registries that a client asks for are the five of the environment, each in its JSON
  form: read back, the answer is a document with one entry for every registry. As soon as the
  environment has a channel group there is no answer, since groups have no JSON form.
\<close>

theorem registries_answered:
  assumes "register_http_handlers s0 = (Inr (), ap_server a)" and "rq_command rq = ''GET''"
    and "registries_wf (reads_back (su_pf su) (su_fr su)) a"
  shows "\<exists>headers m answer. serve_app su rq ''/registries'' a =
      (if has_group (ap_groups a) then Inl TypeError else Inr (Response 200 headers (utf8_encode answer)), put_mapper m a) \<and>
    (has_group (ap_groups a) \<or> (\<exists>vc ve vt vg vs.
      loads (su_pf su) answer = Some (VDict [(''channel'', vc), (''enum'', ve), (''type'', vt), (''channel_groups'', vg), (''services'', vs)]) \<and>
      registry_doc (\<lambda>r. encode_channel (chan_at (te_chan (ap_telem a)) r)) [] (env_registry (te_chan (ap_telem a))) vc \<and>
      registry_doc encode_enum (global_entry (te_enums (ap_telem a))) (er_reg (te_enums (ap_telem a))) ve \<and>
      registry_doc encode_primitive [] (te_types (ap_telem a)) vt \<and> registry_doc encode_group [] (ap_groups a) vg \<and>
      registry_doc encode_service [] (ap_services a) vs))"
proof -
  let ?data = "request_entries (su_dec su) NoData []"
  have routed: "routed (app_mapper a)" using registered_routes [OF assms(1)] by (simp add: app_mapper_def)
  obtain r a' where run: "server_call su RegistriesHandler ?data a = (r, a')" by (metis surj_pair)
  then have gr: "get_registries (su_fr su) (su_pf su) ?data a = (r, a')" by (simp add: server_call_def)
  obtain headers m where serve: "serve_app su rq ''/registries'' a = (answer_of headers r, put_mapper m a')"
    using serve_route [OF routed, of rq "''registries''" RegistriesHandler _ su NoData "''/registries''" "[]" r a'] assms(2) run
      url_parse_plain [of "''registries''"]
    by (auto simp: server_routes_def)
  note rr = registries_run [OF assms(3), of ?data, unfolded gr]
  show ?thesis
  proof (cases "has_group (ap_groups a)")
    case True
    with rr serve show ?thesis by (auto simp: answer_of_def)
  next
    case False
    with rr obtain vc ve vt vg vs ind where v: "(r, a') = (Inr (True, dumps (su_fr su) ind (VDict [(''channel'', vc), (''enum'', ve), (''type'', vt),
          (''channel_groups'', vg), (''services'', vs)])), a)"
        "doc_ok (reads_back (su_pf su) (su_fr su)) (VDict [(''channel'', vc), (''enum'', ve), (''type'', vt), (''channel_groups'', vg), (''services'', vs)])"
        "registry_doc (\<lambda>r. encode_channel (chan_at (te_chan (ap_telem a)) r)) [] (env_registry (te_chan (ap_telem a))) vc"
        "registry_doc encode_enum (global_entry (te_enums (ap_telem a))) (er_reg (te_enums (ap_telem a))) ve"
        "registry_doc encode_primitive [] (te_types (ap_telem a)) vt" "registry_doc encode_group [] (ap_groups a) vg"
        "registry_doc encode_service [] (ap_services a) vs"
      by (simp only: if_False) blast
    from serve v(1) have "serve_app su rq ''/registries'' a = (Inr (Response 200 headers (utf8_encode (dumps (su_fr su) ind
        (VDict [(''channel'', vc), (''enum'', ve), (''type'', vt), (''channel_groups'', vg), (''services'', vs)])))), put_mapper m a)"
      by (simp add: answer_of_def)
    with False loads_dumps [OF v(2)] v(3-7) show ?thesis by (subst if_not_P) blast+
  qed
qed

theorem registries_answered_witness:
  "\<exists>headers m answer. serve_app sample_surroundings (get_request ''GET'') ''/registries'' sample_app =
      (Inr (Response 200 headers (utf8_encode answer)), put_mapper m sample_app) \<and>
    (\<exists>vc ve vt vg vs. loads (\<lambda>_. 0) answer =
      Some (VDict [(''channel'', vc), (''enum'', ve), (''type'', vt), (''channel_groups'', vg), (''services'', vs)]))"
proof -
  have "rq_command (get_request ''GET'') = ''GET''" by simp
  note answered = registries_answered [OF sample_app_registered this sample_registries]
  have "\<not> has_group (ap_groups sample_app)" by (simp add: has_group_def sample_app_def empty_registry_def)
  moreover have "su_pf sample_surroundings = (\<lambda>_. 0)" by (simp add: sample_surroundings_def)
  ultimately show ?thesis using answered by (simp only: if_False) blast
qed

end
