(* ===== verification/State_Machine.thy ===== *)
theory State_Machine
  imports Channel_Group
begin

text \<open>
  Software states (\<open>vtelem/classes/state.py\<close>) and machines of them (\<open>vtelem/classes/state_machine.py\<close>).
  The functions an application gives to a state (run, entering, leaving) are parameters that work
  on the machine's data; the metrics of a state and of a machine are channel groups in the
  environment, when there is one.
\<close>

section \<open>States\<close>

type_synonym machine_data = "(string, pyval) dict"

record machine_state =
  st_name :: string
  st_run_fn :: "(machine_data, string) py option"
  st_entering_fn :: "(string \<Rightarrow> (machine_data, bool) py) option"
  st_leaving_fn :: "(string \<Rightarrow> (machine_data, bool) py) option"
  st_metrics :: "group option"
  st_is_initial :: bool

text \<open>What the methods of a state work on: the machine's data and the environment.\<close>

type_synonym state_context = "machine_data \<times> telemetry_env option"

abbreviation in_data :: "(machine_data, 'a) py \<Rightarrow> (state_context, 'a) py" where
  "in_data m \<equiv> zoom fst (\<lambda>d s. (d, snd s)) m"

text \<open>\<open>metrics_data[name] += amount\<close>, on the values of a group.\<close>

definition add_to :: "string \<times> int \<Rightarrow> (group_state \<times> (string, pyval) dict, unit) py" where
  "add_to = (\<lambda>(name, amount).
     bindp (gets (\<lambda>s. dict_item (snd s) name)) (\<lambda>r. bindp (lift_res r) (\<lambda>v.
     bindp (lift_res (num_add v (VInt amount))) (\<lambda>v'.
     modify (\<lambda>s. (fst s, dict_set name v' (snd s)))))))"

definition bump :: "group option \<Rightarrow> (string \<times> int) list \<Rightarrow> (telemetry_env option, unit) py" where
  "bump metrics incs env =
     (case (metrics, env) of
        (Some g, Some e) \<Rightarrow> (case group_data (for_each add_to incs) (e, g) of (r, (e', g')) \<Rightarrow> (r, Some e'))
      | _ \<Rightarrow> (Inr (), env))"

abbreviation in_metrics :: "(telemetry_env option, 'a) py \<Rightarrow> (state_context, 'a) py" where
  "in_metrics m \<equiv> zoom snd (\<lambda>e s. (fst s, e)) m"

definition st_entering :: "machine_state \<Rightarrow> string \<Rightarrow> (state_context, bool) py" where
  "st_entering st prev_state_name =
     bindp (case st_entering_fn st of
              None \<Rightarrow> ret True
            | Some fn \<Rightarrow>
                bindp (assertp (st_is_initial st \<or> prev_state_name \<noteq> st_name st)) (\<lambda>_.
                in_data (fn prev_state_name))) (\<lambda>result.
     bindp (in_metrics (bump (st_metrics st) [(''enter_attempts'', 1), (''enter_successes'', of_bool result)])) (\<lambda>_.
     ret result))"

definition st_run :: "machine_state \<Rightarrow> (state_context, string) py" where
  "st_run st =
     bindp (case st_run_fn st of None \<Rightarrow> ret (st_name st) | Some fn \<Rightarrow> in_data fn) (\<lambda>result.
     bindp (in_metrics (bump (st_metrics st) [(''iterations'', 1)])) (\<lambda>_. ret result))"

definition st_leaving :: "machine_state \<Rightarrow> string \<Rightarrow> (state_context, bool) py" where
  "st_leaving st next_state_name =
     bindp (case st_leaving_fn st of
              None \<Rightarrow> ret True
            | Some fn \<Rightarrow>
                bindp (assertp (next_state_name \<noteq> st_name st)) (\<lambda>_.
                in_data (fn next_state_name))) (\<lambda>result.
     bindp (in_metrics (bump (st_metrics st) [(''exit_attempts'', 1), (''exit_successes'', of_bool result)])) (\<lambda>_.
     ret result))"

text \<open>A group of metrics with a given list of counters.\<close>

definition metrics_group :: "string \<Rightarrow> string list \<Rightarrow> pyfloat \<Rightarrow> telemetry_env \<Rightarrow> (py_error + group) \<times> telemetry_env" where
  "metrics_group name counters rate e =
     (case for_each (\<lambda>c. bindp (group_add_channel c UINT32 rate False) (\<lambda>_. ret ())) counters
             (e, \<lparr>g_name = name, g_channels = []\<rparr>) of
        (Inl err, (e', _)) \<Rightarrow> (Inl err, e')
      | (Inr _, (e', g)) \<Rightarrow> (Inr g, e'))"

definition new_state :: "string \<Rightarrow> (machine_data, string) py option \<Rightarrow> (string \<Rightarrow> (machine_data, bool) py) option \<Rightarrow>
    (string \<Rightarrow> (machine_data, bool) py) option \<Rightarrow> pyfloat \<Rightarrow> telemetry_env option \<Rightarrow>
    (py_error + machine_state) \<times> telemetry_env option" where
  "new_state name run entering leaving rate env =
     (let st = \<lparr>st_name = name, st_run_fn = run, st_entering_fn = entering, st_leaving_fn = leaving,
                st_metrics = None, st_is_initial = False\<rparr>
      in case env of
           None \<Rightarrow> (Inr st, None)
         | Some e \<Rightarrow>
             (case metrics_group (''state.'' @ name)
                 [''enter_attempts'', ''enter_successes'', ''exit_attempts'', ''exit_successes'', ''iterations''] rate e of
                (Inl err, e') \<Rightarrow> (Inl err, Some e')
              | (Inr g, e') \<Rightarrow> (Inr (st\<lparr>st_metrics := Some g\<rparr>), Some e')))"

section \<open>Machines\<close>

record machine =
  sm_name :: string
  sm_states :: "(string, machine_state option) dict"
  sm_current_state :: string
  sm_data :: machine_data
  sm_lock :: int
  sm_env :: "telemetry_env option"
  sm_metrics :: "group option"

abbreviation in_context :: "(state_context, 'a) py \<Rightarrow> (machine, 'a) py" where
  "in_context m \<equiv> zoom (\<lambda>s. (sm_data s, sm_env s)) (\<lambda>(d, e) s. s\<lparr>sm_data := d, sm_env := e\<rparr>) m"

definition sm_with_lock :: "(machine, 'a) py \<Rightarrow> (machine, 'a) py" where
  "sm_with_lock body =
     bindp (modify (\<lambda>s. s\<lparr>sm_lock := sm_lock s + 1\<rparr>)) (\<lambda>_.
     bindp body (\<lambda>r.
     bindp (modify (\<lambda>s. s\<lparr>sm_lock := sm_lock s - 1\<rparr>)) (\<lambda>_. ret r)))"

definition machine_data_context :: "(machine_data, 'a) py \<Rightarrow> (machine, 'a) py" where
  "machine_data_context body = sm_with_lock (zoom sm_data (\<lambda>d s. s\<lparr>sm_data := d\<rparr>) body)"

text \<open>\<open>self.states[name]\<close> followed by the assertion that there is one: a missing key gets \<open>None\<close>.\<close>

definition state_at :: "string \<Rightarrow> (machine, machine_state) py" where
  "state_at name m =
     (case dict_get (sm_states m) name of
        None \<Rightarrow> (Inl AssertionError, m\<lparr>sm_states := dict_set name None (sm_states m)\<rparr>)
      | Some None \<Rightarrow> (Inl AssertionError, m)
      | Some (Some st) \<Rightarrow> (Inr st, m))"

text \<open>The outcome of an iteration: whether entering failed, leaving failed, the transition was made.\<close>

definition sm_enter :: "string \<Rightarrow> string \<Rightarrow> machine_state \<Rightarrow> (machine, bool \<times> bool \<times> bool) py" where
  "sm_enter current new candidate =
     bindp (in_context (st_entering candidate current)) (\<lambda>entered.
     if entered
     then bindp (modify (\<lambda>s. s\<lparr>sm_current_state := new\<rparr>)) (\<lambda>_. ret (False, False, True))
     else ret (True, False, False))"

definition sm_edges :: "machine_state \<Rightarrow> string \<Rightarrow> (machine, bool \<times> bool \<times> bool) py" where
  "sm_edges cur_st new =
     bindp (gets sm_current_state) (\<lambda>current.
     if new = current then ret (False, False, False)
     else
       bindp (in_context (st_leaving cur_st new)) (\<lambda>left.
       if \<not> left then ret (False, True, False)
       else bindp (state_at new) (sm_enter current new)))"

definition sm_iterate :: "(machine, machine_state \<times> machine_state) py" where
  "sm_iterate =
     bindp (gets sm_current_state) (\<lambda>current.
     bindp (state_at current) (\<lambda>cur_st.
     bindp (sm_with_lock (
       bindp (in_context (st_run cur_st)) (\<lambda>new.
       bindp (gets (\<lambda>s. new \<in> set (dict_keys (sm_states s)))) (\<lambda>known.
       bindp (assertp known) (\<lambda>_. sm_edges cur_st new))))) (\<lambda>(enter_failed, exit_failed, transitioned).
     bindp (gets sm_metrics) (\<lambda>metrics.
     bindp (zoom sm_env (\<lambda>e s. s\<lparr>sm_env := e\<rparr>)
              (bump metrics [(''enter_fails'', of_bool enter_failed), (''exit_fails'', of_bool exit_failed),
                             (''transitions'', of_bool transitioned), (''iterations'', 1)])) (\<lambda>_.
     bindp (gets sm_current_state) (\<lambda>now.
     bindp (state_at now) (\<lambda>actual_new. ret (cur_st, actual_new))))))))"

definition sm_run :: "machine_data option \<Rightarrow> (machine, machine_state \<times> machine_state) py" where
  "sm_run new_data =
     bindp (case new_data of
              None \<Rightarrow> ret ()
            | Some d \<Rightarrow> sm_with_lock (modify (\<lambda>s. s\<lparr>sm_data := dict_update (sm_data s) d\<rparr>))) (\<lambda>_.
     sm_iterate)"

definition machine_enter :: "(machine, unit) py" where
  "machine_enter =
     bindp (gets sm_current_state) (\<lambda>current.
     bindp (state_at current) (\<lambda>init.
     bindp (modify (\<lambda>s. s\<lparr>sm_states := dict_set current (Some (init\<lparr>st_is_initial := True\<rparr>)) (sm_states s)\<rparr>)) (\<lambda>_.
     bindp (in_context (st_entering (init\<lparr>st_is_initial := True\<rparr>) current)) assertp)))"

definition machine_metrics :: "pyfloat \<Rightarrow> (machine, unit) py" where
  "machine_metrics rate = bindp (gets (\<lambda>s. (sm_env s, sm_name s))) (\<lambda>(env, name).
     case env of
       None \<Rightarrow> ret ()
     | Some e \<Rightarrow>
         (case metrics_group (''machine.'' @ name) [''enter_fails'', ''exit_fails'', ''transitions'', ''iterations''] rate e of
            (Inl err, e') \<Rightarrow> bindp (modify (\<lambda>s. s\<lparr>sm_env := Some e'\<rparr>)) (\<lambda>_. raise err)
          | (Inr g, e') \<Rightarrow> modify (\<lambda>s. s\<lparr>sm_env := Some e', sm_metrics := Some g\<rparr>)))"

definition new_machine :: "string \<Rightarrow> machine_state list \<Rightarrow> machine_state option \<Rightarrow> machine_data \<Rightarrow> telemetry_env option \<Rightarrow>
    pyfloat \<Rightarrow> py_error + machine" where
  "new_machine name states initial_state initial_data env rate =
     (if states = [] then Inl AssertionError
      else
        let init = (case initial_state of None \<Rightarrow> hd states | Some st \<Rightarrow> st);
            table = dict_update [] (map (\<lambda>st. (st_name st, Some st)) states)
        in if st_name init \<notin> set (dict_keys table) then Inl AssertionError
           else
             (case bindp machine_enter (\<lambda>_. machine_metrics rate)
                 \<lparr>sm_name = name, sm_states = table, sm_current_state = st_name init, sm_data = initial_data,
                  sm_lock = 0, sm_env = env, sm_metrics = None\<rparr> of
                (Inl err, _) \<Rightarrow> Inl err
              | (Inr _, m) \<Rightarrow> Inr m))"

section \<open>The current state\<close>

definition sm_inv :: "machine \<Rightarrow> bool" where
  "sm_inv m \<longleftrightarrow> (\<exists>st. dict_get (sm_states m) (sm_current_state m) = Some (Some st))"

lemma bindp_keeps:
  assumes "P (snd (m s))" and "\<And>a s'. m s = (Inr a, s') \<Longrightarrow> P (snd (f a s'))"
  shows "P (snd (bindp m f s))"
  using assms by (auto simp: bindp_def split: prod.splits sum.splits)

text \<open>The methods of a state change the data and the environment only.\<close>

definition frame_of :: "machine \<Rightarrow> (string, machine_state option) dict \<times> string \<times> group option \<times> int" where
  "frame_of m = (sm_states m, sm_current_state m, sm_metrics m, sm_lock m)"

lemma in_context_frame: "in_context k m = (r, m') \<Longrightarrow> frame_of m' = frame_of m"
  by (auto simp: zoom_def frame_of_def split: prod.splits)

lemma in_context_inv [simp]: "sm_inv (snd (in_context k m)) = sm_inv m"
  by (simp add: zoom_def sm_inv_def split: prod.split)

lemma in_env_inv [simp]: "sm_inv (snd (zoom sm_env (\<lambda>e s. s\<lparr>sm_env := e\<rparr>) k m)) = sm_inv m"
  by (simp add: zoom_def sm_inv_def split: prod.split)

lemma state_at_Inr: "state_at n m = (Inr st, m') \<longleftrightarrow> m' = m \<and> dict_get (sm_states m) n = Some (Some st)"
  by (auto simp: state_at_def split: option.splits)

lemma state_at_inv: "sm_inv m \<Longrightarrow> sm_inv (snd (state_at n m))"
  by (auto simp: state_at_def sm_inv_def split: option.split)

definition keeps :: "('s \<Rightarrow> bool) \<Rightarrow> ('s, 'a) py \<Rightarrow> bool" where
  "keeps P m \<longleftrightarrow> (\<forall>s. P s \<longrightarrow> P (snd (m s)))"

lemma keeps_bind [intro]: "keeps P m \<Longrightarrow> (\<And>a. keeps P (f a)) \<Longrightarrow> keeps P (bindp m f)"
  by (fastforce simp: keeps_def bindp_def split: prod.splits sum.splits)

lemma keeps_basic [intro, simp]:
  "keeps P (ret a)" "keeps P (raise e)" "keeps P (gets g)" "keeps P (assertp b)" "keeps P (lift_res r)"
  by (simp_all add: keeps_def assertp_def)

lemma keeps_if: "(b \<Longrightarrow> keeps P m) \<Longrightarrow> (\<not> b \<Longrightarrow> keeps P n) \<Longrightarrow> keeps P (if b then m else n)"
  by simp

lemma keeps_modify: "(\<And>s. P s \<Longrightarrow> P (g s)) \<Longrightarrow> keeps P (modify g)"
  by (simp add: keeps_def)

lemma keeps_context [intro]: "keeps sm_inv (in_context k)"
  by (simp add: keeps_def)

lemma keeps_state_at [intro]: "keeps sm_inv (state_at n)"
  by (simp add: keeps_def state_at_inv)

lemma sm_enter_inv:
  assumes "sm_inv m" and "dict_get (sm_states m) new = Some (Some candidate)"
  shows "sm_inv (snd (sm_enter current new candidate m))"
  unfolding sm_enter_def
proof (rule bindp_keeps)
  fix entered m2 assume run: "in_context (st_entering candidate current) m = (Inr entered, m2)"
  then have "sm_inv m2" using assms(1) in_context_inv [of "st_entering candidate current" m] by simp
  with in_context_frame [OF run] assms(2)
  show "sm_inv (snd ((if entered then bindp (modify (\<lambda>s. s\<lparr>sm_current_state := new\<rparr>)) (\<lambda>_. ret (False, False, True))
      else ret (True, False, False)) m2))"
    by (simp add: sm_inv_def frame_of_def)
qed (use assms(1) in simp)

lemma keeps_edges [intro]: "keeps sm_inv (sm_edges cur_st new)"
proof -
  have entry: "keeps sm_inv (bindp (state_at new) (sm_enter current new))" for current
    unfolding keeps_def
    by (intro allI impI bindp_keeps [where P = sm_inv]) (auto simp: state_at_inv state_at_Inr sm_enter_inv)
  show ?thesis
    unfolding sm_edges_def
    by (rule keeps_bind [OF _ keeps_if [OF _ keeps_bind [OF _ keeps_if [OF _ entry]]]]) auto
qed

lemma keeps_lock [intro]: "keeps sm_inv k \<Longrightarrow> keeps sm_inv (sm_with_lock k)"
  unfolding sm_with_lock_def by (auto intro!: keeps_bind keeps_modify simp: sm_inv_def)

lemma keeps_run: "keeps sm_inv (sm_run new_data)"
proof -
  have "keeps sm_inv (zoom sm_env (\<lambda>e s. s\<lparr>sm_env := e\<rparr>) k)" for k :: "(telemetry_env option, 'a) py"
    by (simp add: keeps_def)
  moreover have "keeps sm_inv (modify (\<lambda>s. s\<lparr>sm_data := d s\<rparr>))" for d
    by (simp add: keeps_def sm_inv_def)
  ultimately show ?thesis
    unfolding sm_run_def sm_iterate_def by (auto split: option.split intro!: keeps_bind keeps_lock)
qed

section \<open>Transitions\<close>

lemma sm_with_lock_Inr:
  assumes "sm_with_lock k m = (Inr a, m')"
  obtains m1 where "k (m\<lparr>sm_lock := sm_lock m + 1\<rparr>) = (Inr a, m1)" and "m' = m1\<lparr>sm_lock := sm_lock m1 - 1\<rparr>"
  using assms by (auto simp: sm_with_lock_def elim!: bindp_InrE)

lemma in_context_Inr:
  assumes "in_context k m = (Inr a, m')"
  obtains ctx where "k (sm_data m, sm_env m) = (Inr a, ctx)" and "m' = m\<lparr>sm_data := fst ctx, sm_env := snd ctx\<rparr>"
  using assms by (auto simp: zoom_def split: prod.splits)

text \<open>The three ways an iteration asked for another state can end.\<close>

lemma sm_edges_Inr:
  assumes "sm_edges cur_st new m = (Inr (ef, xf, tr), m')"
  shows "frame_of (m'\<lparr>sm_current_state := sm_current_state m\<rparr>) = frame_of m \<and>
    (new = sm_current_state m \<longrightarrow> \<not> ef \<and> \<not> xf \<and> \<not> tr \<and> m' = m) \<and>
    (new \<noteq> sm_current_state m \<longrightarrow> of_bool ef + of_bool xf + of_bool tr = (1 :: int)) \<and>
    sm_current_state m' = (if tr then new else sm_current_state m) \<and>
    (tr \<longrightarrow> (\<exists>c ctx1 ctx2. dict_get (sm_states m) new = Some (Some c) \<and>
       st_leaving cur_st new (sm_data m, sm_env m) = (Inr True, ctx1) \<and>
       st_entering c (sm_current_state m) ctx1 = (Inr True, ctx2)))"
proof (cases "new = sm_current_state m")
  case True
  with assms show ?thesis by (auto simp: sm_edges_def)
next
  case False
  then obtain left m1 where left: "in_context (st_leaving cur_st new) m = (Inr left, m1)"
      "(if \<not> left then ret (False, True, False) else bindp (state_at new) (sm_enter (sm_current_state m) new)) m1 =
        (Inr (ef, xf, tr), m')"
    using assms by (auto simp: sm_edges_def elim!: bindp_InrE)
  obtain ctx1 where ctx1: "st_leaving cur_st new (sm_data m, sm_env m) = (Inr left, ctx1)"
      "m1 = m\<lparr>sm_data := fst ctx1, sm_env := snd ctx1\<rparr>"
    by (rule in_context_Inr [OF left(1)])
  show ?thesis
  proof (cases left)
    case lv: True
    with left(2) obtain c m2 where c: "state_at new m1 = (Inr c, m2)"
        "sm_enter (sm_current_state m) new c m2 = (Inr (ef, xf, tr), m')"
      by (auto elim!: bindp_InrE)
    obtain entered m3 where e: "in_context (st_entering c (sm_current_state m)) m1 = (Inr entered, m3)"
        "m' = (if entered then m3\<lparr>sm_current_state := new\<rparr> else m3)" "ef = (\<not> entered)" "\<not> xf" "tr = entered"
      using c by (auto simp: state_at_Inr sm_enter_def split: if_splits elim!: bindp_InrE)
    obtain ctx2 where "st_entering c (sm_current_state m) (sm_data m1, sm_env m1) = (Inr entered, ctx2)"
        "m3 = m1\<lparr>sm_data := fst ctx2, sm_env := snd ctx2\<rparr>"
      by (rule in_context_Inr [OF e(1)])
    with False lv c(1) e ctx1 show ?thesis by (auto simp: frame_of_def state_at_Inr)
  next
    case lv: False
    with left(2) False ctx1(2) show ?thesis by (auto simp: frame_of_def)
  qed
qed

lemma machine_enter_inv: "machine_enter m = (Inr u, m') \<Longrightarrow> sm_inv m'"
  by (auto simp: machine_enter_def state_at_Inr frame_of_def sm_inv_def elim!: bindp_InrE assertp_InrE
      dest!: in_context_frame)

lemma keeps_metrics: "keeps sm_inv (machine_metrics rate)"
  unfolding machine_metrics_def
  by (auto intro!: keeps_bind simp: keeps_def sm_inv_def split: option.split sum.split prod.split)

lemma new_machine_inv: "new_machine name states i d env rate = Inr m \<Longrightarrow> sm_inv m"
  using keeps_metrics
  by (auto simp: new_machine_def Let_def keeps_def split: if_splits prod.splits sum.splits
      elim!: bindp_InrE dest!: machine_enter_inv) (metis snd_conv)

text \<open>The states a machine can be in: it is run any number of times, whether or not a run raises.\<close>

inductive machine_reach :: "machine \<Rightarrow> machine \<Rightarrow> bool" where
  new: "machine_reach m m"
| iterate: "machine_reach m0 m \<Longrightarrow> machine_reach m0 (snd (sm_run new_data m))"

section \<open>Properties\<close>

text \<open>
  Property C18: whatever the functions of its states do, also when they raise, the current state of a
  machine is always one of the machine's states.
\<close>

theorem machine_current_known:
  assumes "new_machine name states init d env rate = Inr m0" and "machine_reach m0 m"
  shows "\<exists>st. dict_get (sm_states m) (sm_current_state m) = Some (Some st)"
proof -
  have "sm_inv m0" using assms(1) by (rule new_machine_inv)
  with assms(2) have "sm_inv m"
    by (induction rule: machine_reach.induct) (use keeps_run in \<open>auto simp: keeps_def\<close>)
  then show ?thesis by (simp add: sm_inv_def)
qed

theorem machine_current_known_witness:
  "\<exists>m0. new_machine ''m'' [\<lparr>st_name = ''a'', st_run_fn = None, st_entering_fn = None, st_leaving_fn = None,
      st_metrics = None, st_is_initial = False\<rparr>] None [] None 0 = Inr m0 \<and>
    (\<exists>st. dict_get (sm_states (snd (sm_run None m0))) (sm_current_state (snd (sm_run None m0))) = Some (Some st))"
proof -
  let ?s = "\<lparr>st_name = ''a'', st_run_fn = None, st_entering_fn = None, st_leaving_fn = None,
      st_metrics = None, st_is_initial = False\<rparr>"
  have "\<exists>m0. new_machine ''m'' [?s] None [] None 0 = Inr m0"
    by (simp add: new_machine_def machine_enter_def state_at_def st_entering_def bump_def machine_metrics_def
        zoom_def bindp_def)
  then obtain m0 where m0: "new_machine ''m'' [?s] None [] None 0 = Inr m0" by blast
  from machine_current_known [OF this machine_reach.iterate [OF machine_reach.new]] m0 show ?thesis by blast
qed

lemma sm_run_Inr:
  assumes "sm_run nd m = (Inr (a, b), m')"
  obtains d m1 new m2 ef xf tr m3 where "m1 = m\<lparr>sm_data := d\<rparr>"
    and "dict_get (sm_states m) (sm_current_state m) = Some (Some a)"
    and "in_context (st_run a) (m1\<lparr>sm_lock := sm_lock m + 1\<rparr>) = (Inr new, m2)"
    and "sm_edges a new m2 = (Inr (ef, xf, tr), m3)"
    and "zoom sm_env (\<lambda>e s. s\<lparr>sm_env := e\<rparr>)
              (bump (sm_metrics m3) [(''enter_fails'', of_bool ef), (''exit_fails'', of_bool xf),
                             (''transitions'', of_bool tr), (''iterations'', 1)])
            (m3\<lparr>sm_lock := sm_lock m3 - 1\<rparr>) = (Inr (), m')"
    and "dict_get (sm_states m') (sm_current_state m') = Some (Some b)"
proof -
  have upd: "\<exists>d. (case nd of None \<Rightarrow> ret () | Some d \<Rightarrow> sm_with_lock (modify (\<lambda>s. s\<lparr>sm_data := dict_update (sm_data s) d\<rparr>))) m =
      (Inr (), m\<lparr>sm_data := d\<rparr>)"
    by (cases nd) (auto simp: sm_with_lock_def intro: exI [of _ "sm_data m"])
  then obtain d where "sm_iterate (m\<lparr>sm_data := d\<rparr>) = (Inr (a, b), m')"
    using assms by (auto simp: sm_run_def)
  then show thesis
    unfolding sm_iterate_def
    by (auto simp: state_at_Inr elim!: bindp_InrE assertp_InrE sm_with_lock_Inr intro!: that [of "m\<lparr>sm_data := d\<rparr>" d])
qed

text \<open>
  Property C19: an iteration that returns leaves the machine's states and its lock as they were and
  returns the state before and the state after it; the two differ only if the first state agreed to
  be left for the second and then the second agreed to be entered from the first.
\<close>

theorem machine_transition_agreed:
  assumes "sm_run nd m = (Inr (a, b), m')"
  shows "dict_get (sm_states m) (sm_current_state m) = Some (Some a) \<and>
    dict_get (sm_states m') (sm_current_state m') = Some (Some b) \<and>
    sm_states m' = sm_states m \<and> sm_lock m' = sm_lock m \<and>
    (sm_current_state m' \<noteq> sm_current_state m \<longrightarrow> (\<exists>ctx ctx1 ctx2.
       st_leaving a (sm_current_state m') ctx = (Inr True, ctx1) \<and>
       st_entering b (sm_current_state m) ctx1 = (Inr True, ctx2)))"
proof (rule sm_run_Inr [OF assms])
  fix d m1 new m2 ef xf tr m3
  assume m1: "m1 = m\<lparr>sm_data := d\<rparr>" and a: "dict_get (sm_states m) (sm_current_state m) = Some (Some a)"
    and run: "in_context (st_run a) (m1\<lparr>sm_lock := sm_lock m + 1\<rparr>) = (Inr new, m2)"
    and edges: "sm_edges a new m2 = (Inr (ef, xf, tr), m3)"
    and counted: "zoom sm_env (\<lambda>e s. s\<lparr>sm_env := e\<rparr>)
              (bump (sm_metrics m3) [(''enter_fails'', of_bool ef), (''exit_fails'', of_bool xf),
                             (''transitions'', of_bool tr), (''iterations'', 1)])
            (m3\<lparr>sm_lock := sm_lock m3 - 1\<rparr>) = (Inr (), m')"
    and b: "dict_get (sm_states m') (sm_current_state m') = Some (Some b)"
  have f2: "frame_of m2 = (sm_states m, sm_current_state m, sm_metrics m, sm_lock m + 1)"
    using in_context_frame [OF run] m1 by (simp add: frame_of_def)
  have f': "frame_of m' = (sm_states m3, sm_current_state m3, sm_metrics m3, sm_lock m3 - 1)"
    using counted by (auto simp: zoom_def frame_of_def split: prod.splits)
  show ?thesis using a b f2 f' sm_edges_Inr [OF edges] by (auto simp: frame_of_def) blast
qed

text \<open>A machine of two states that asks for the second one.\<close>

definition sample_machine :: machine where
  "sample_machine =
     \<lparr>sm_name = ''m'', sm_states =
        [(''idle'', Some \<lparr>st_name = ''idle'', st_run_fn = Some (ret ''busy''), st_entering_fn = None,
            st_leaving_fn = Some (\<lambda>_. ret True), st_metrics = None, st_is_initial = True\<rparr>),
         (''busy'', Some \<lparr>st_name = ''busy'', st_run_fn = None, st_entering_fn = Some (\<lambda>_. ret True),
            st_leaving_fn = None, st_metrics = None, st_is_initial = False\<rparr>)],
      sm_current_state = ''idle'', sm_data = [], sm_lock = 0, sm_env = None, sm_metrics = None\<rparr>"

lemmas run_defs = sm_run_def sm_iterate_def sm_with_lock_def st_run_def sm_edges_def st_leaving_def sm_enter_def
  st_entering_def state_at_def bump_def zoom_def bindp_def

lemma sample_machine_run:
  "\<exists>a b m'. sm_run None sample_machine = (Inr (a, b), m') \<and> sm_current_state m' = ''busy'' \<and>
     sm_current_state sample_machine = ''idle''"
  by (simp add: sample_machine_def run_defs)

theorem machine_transition_agreed_witness:
  "\<exists>a b m' ctx ctx1 ctx2. sm_run None sample_machine = (Inr (a, b), m') \<and>
     st_leaving a ''busy'' ctx = (Inr True, ctx1) \<and> st_entering b ''idle'' ctx1 = (Inr True, ctx2)"
proof -
  obtain a b m' where run: "sm_run None sample_machine = (Inr (a, b), m')" and cur: "sm_current_state m' = ''busy''"
      "sm_current_state sample_machine = ''idle''"
    using sample_machine_run by blast
  have ne: "sm_current_state m' \<noteq> sm_current_state sample_machine" using cur by simp
  from machine_transition_agreed [OF run] ne run cur show ?thesis by metis
qed

section \<open>Counting\<close>

text \<open>A group of 32-bit counters, none of them about to run over.\<close>

definition counter_group :: "telemetry_env \<Rightarrow> group \<Rightarrow> bool" where
  "counter_group t g \<longleftrightarrow> group_ok t g \<and>
     (\<forall>(n, c) \<in> set (g_channels g). \<not> gc_is_enum c \<and> enum_of t (gc_id c) = None \<and>
        (\<exists>ch k. chan_of (te_chan t) (gc_id c) = Some ch \<and> tp_type ch = UINT32 \<and> tp_data ch = VInt k \<and>
           0 \<le> k \<and> k + 1 < 2 ^ 32))"

definition counter :: "telemetry_env \<Rightarrow> group \<Rightarrow> string \<Rightarrow> int" where
  "counter t g n = (case dict_get (group_values t g) n of Some (VInt k) \<Rightarrow> k | _ \<Rightarrow> 0)"

definition increment_of :: "(string \<times> int) list \<Rightarrow> string \<Rightarrow> int" where
  "increment_of incs n = (case map_of incs n of None \<Rightarrow> 0 | Some k \<Rightarrow> k)"

lemma dict_keys_same: "k \<in> set (dict_keys d) \<Longrightarrow> dict_keys (dict_set k v d) = dict_keys d"
  by (simp add: dict_keys_set)

lemma add_to_all:
  assumes "\<forall>n \<in> fst ` set incs. \<exists>k. dict_get data n = Some (VInt k)" and "distinct (map fst incs)"
  obtains data' where "for_each add_to incs (s, data) = (Inr (), (s, data'))" and "dict_keys data' = dict_keys data"
    and "\<forall>n k. dict_get data n = Some (VInt k) \<longrightarrow> dict_get data' n = Some (VInt (k + increment_of incs n))"
  using assms
proof (induction incs arbitrary: data thesis)
  case Nil
  show ?case by (rule Nil(1) [of data]) (simp_all add: increment_of_def)
next
  case (Cons x incs)
  obtain n j where x: "x = (n, j)" by (cases x)
  obtain k where k: "dict_get data n = Some (VInt k)" using Cons.prems(2) x by auto
  let ?d = "dict_set n (VInt (k + j)) data"
  have n: "n \<notin> fst ` set incs" "distinct (map fst incs)" using Cons.prems(3) x by auto
  have ints: "\<forall>m \<in> fst ` set incs. \<exists>k. dict_get ?d m = Some (VInt k)" using Cons.prems(2) by auto
  obtain data' where d': "for_each add_to incs (s, ?d) = (Inr (), (s, data'))" "dict_keys data' = dict_keys ?d"
      "\<forall>n k. dict_get ?d n = Some (VInt k) \<longrightarrow> dict_get data' n = Some (VInt (k + increment_of incs n))"
    by (rule Cons.IH [OF _ ints n(2)])
  have step: "add_to x (s, data) = (Inr (), (s, ?d))" using k x by (simp add: add_to_def)
  have keys: "dict_keys ?d = dict_keys data"
    using k by (intro dict_keys_same) (auto simp: map_of_SomeD intro!: image_eqI dest: map_of_SomeD)
  have "dict_get data' m = Some (VInt (i + increment_of (x # incs) m))" if "dict_get data m = Some (VInt i)" for m i
  proof (cases "m = n")
    case True
    have "dict_get data' n = Some (VInt (k + j + increment_of incs n))" using d'(3) by simp
    moreover have "map_of incs n = None" using n(1) by (simp add: map_of_eq_None_iff)
    then have "increment_of incs n = 0" by (simp add: increment_of_def)
    ultimately show ?thesis using True that k x by (simp add: increment_of_def)
  next
    case False
    then show ?thesis using d'(3) that x by (simp add: increment_of_def)
  qed
  with step d'(1,2) keys show ?case by (intro Cons.prems(1) [of data']) simp_all
qed

lemma counter_values:
  assumes "counter_group t g" and "n \<in> set (dict_keys (g_channels g))"
  obtains c k where "dict_get (g_channels g) n = Some c" and "dict_get (group_values t g) n = Some (VInt k)"
    and "0 \<le> k" and "k + 1 < 2 ^ 32" and "\<And>v. t_fits t (chan_key c) v = holds UINT32 v"
proof -
  have dist: "distinct (dict_keys (g_channels g))" using assms(1) by (simp add: counter_group_def group_ok_def)
  obtain c where c: "(n, c) \<in> set (g_channels g)" using assms(2) by auto
  then obtain ch k where ch: "\<not> gc_is_enum c" "enum_of t (gc_id c) = None" "chan_of (te_chan t) (gc_id c) = Some ch"
      "tp_type ch = UINT32" "tp_data ch = VInt k" "0 \<le> k" "k + 1 < 2 ^ 32"
    using assms(1) by (fastforce simp: counter_group_def)
  have get: "dict_get (g_channels g) n = Some c" using c dist by simp
  have "group_values t g = map (\<lambda>x. (fst x, the (t_val t (chan_key (snd x))))) (g_channels g)"
    by (simp add: group_values_def case_prod_unfold)
  moreover have "dict_get (map (\<lambda>x. (fst x, the (t_val t (chan_key (snd x))))) cs) n =
      map_option (\<lambda>c. the (t_val t (chan_key c))) (dict_get cs n)" for cs
    by (induction cs) auto
  ultimately have "dict_get (group_values t g) n = Some (VInt k)" using get ch by (simp add: chan_key_def)
  then show thesis using get ch by (intro that [of c k]) (simp_all add: chan_key_def)
qed

lemma group_values_keys [simp]: "dict_keys (group_values t g) = dict_keys (g_channels g)"
  by (simp add: group_values_def case_prod_unfold)

lemma holds_counter: "0 \<le> k \<Longrightarrow> k < 2 ^ 32 \<Longrightarrow> holds UINT32 (VInt k)"
  by (simp add: INTEGER_PRIMITIVES_def integer_can_hold_def int_primitive_def integer_bounds_def)

lemma bump_run:
  assumes "counter_group t g" and "distinct (map fst incs)" and "set (map fst incs) \<subseteq> set (dict_keys (g_channels g))"
    and "\<forall>x \<in> set incs. snd x = 0 \<or> snd x = 1"
  obtains t' where "bump (Some g) incs (Some t) = (Inr (), Some t')" and "group_ok t' g"
    and "\<forall>n \<in> set (dict_keys (g_channels g)). counter t' g n = counter t g n + increment_of incs n"
proof -
  let ?data = "group_values t g"
  have ok: "group_ok t g" and dist: "distinct (dict_keys (g_channels g))"
    using assms(1) by (simp_all add: counter_group_def group_ok_def)
  have ints: "\<forall>n \<in> fst ` set incs. \<exists>k. dict_get ?data n = Some (VInt k)"
  proof
    fix n assume "n \<in> fst ` set incs"
    then have "n \<in> set (dict_keys (g_channels g))" using assms(3) by auto
    then show "\<exists>k. dict_get ?data n = Some (VInt k)" by (rule counter_values [OF assms(1)]) blast
  qed
  obtain data' where d': "for_each add_to incs ((t, g), ?data) = (Inr (), ((t, g), data'))"
      "dict_keys data' = dict_keys ?data"
      "\<forall>n k. dict_get ?data n = Some (VInt k) \<longrightarrow> dict_get data' n = Some (VInt (k + increment_of incs n))"
    by (rule add_to_all [OF ints assms(2)])
  have small: "increment_of incs n = 0 \<or> increment_of incs n = 1" for n
    using assms(4) by (fastforce simp: increment_of_def split: option.split dest: map_of_SomeD)
  have new: "\<exists>c k. dict_get (g_channels g) n = Some c \<and> dict_get ?data n = Some (VInt k) \<and>
      dict_get data' n = Some (VInt (k + increment_of incs n)) \<and> t_fits t (chan_key c) (VInt (k + increment_of incs n))"
    if "n \<in> set (dict_keys (g_channels g))" for n
  proof (rule counter_values [OF assms(1) that])
    fix c k assume c: "dict_get (g_channels g) n = Some c" "dict_get ?data n = Some (VInt k)" "0 \<le> k" "k + 1 < 2 ^ 32"
      "\<And>v. t_fits t (chan_key c) v = holds UINT32 v"
    have "holds UINT32 (VInt (k + increment_of incs n))" using c(3,4) small [of n] by (intro holds_counter) auto
    with c d'(3) show ?thesis by metis
  qed
  have names: "dict_keys data' = dict_keys (g_channels g)" using d'(2) by simp
  have fits: "\<forall>(n, v) \<in> set data'. \<exists>c. dict_get (g_channels g) n = Some c \<and> t_fits t (chan_key c) v"
  proof (clarify)
    fix n v assume nv: "(n, v) \<in> set data'"
    have "distinct (dict_keys data')" unfolding names by (rule dist)
    then have "dict_get data' n = Some v" using nv by simp
    moreover have "n \<in> set (dict_keys data')" using nv by force
    then have "n \<in> set (dict_keys (g_channels g))" unfolding names .
    ultimately show "\<exists>c. dict_get (g_channels g) n = Some c \<and> t_fits t (chan_key c) v" using new [of n] by auto
  qed
  obtain t' where t': "group_data (for_each add_to incs) (t, g) = (Inr (), (t', g))" "group_ok t' g"
      "group_read (t', g) = (Inr data', (t', g))"
    using group_data_run [where body = "for_each add_to incs", OF ok d'(1) names fits] by blast
  have "group_values t' g = data'" using t'(3) group_read_run [OF t'(2)] by simp
  then have "\<forall>n \<in> set (dict_keys (g_channels g)). counter t' g n = counter t g n + increment_of incs n"
    using new by (fastforce simp: counter_def)
  with t' show thesis by (intro that [of t']) (simp_all add: bump_def)
qed

text \<open>The methods of a state without metrics leave the environment alone.\<close>

lemma quiet_state:
  assumes "st_metrics st = None"
  shows "snd (snd (st_leaving st n ctx)) = snd ctx" "snd (snd (st_entering st n ctx)) = snd ctx"
    "snd (snd (st_run st ctx)) = snd ctx"
  using assms
  by (auto simp: st_leaving_def st_entering_def st_run_def bump_def zoom_def bindp_def assertp_def
      split: option.splits prod.splits sum.splits if_splits)

lemma edges_env:
  assumes "sm_edges a new m = (Inr r, m')" and "st_metrics a = None"
    and "\<forall>n st. dict_get (sm_states m) n = Some (Some st) \<longrightarrow> st_metrics st = None"
  shows "sm_env m' = sm_env m"
proof -
  have lv: "sm_env m2 = sm_env m1 \<and> sm_states m2 = sm_states m1" if "in_context (st_leaving a new) m1 = (Inr x, m2)" for m1 m2 x
    using that quiet_state(1) [OF assms(2), of new "(sm_data m1, sm_env m1)"] by (auto simp: zoom_def split: prod.splits)
  have en: "sm_env m2 = sm_env m1" if "in_context (st_entering c p) m1 = (Inr x, m2)" "st_metrics c = None" for c p m1 m2 x
    using that quiet_state(2) [OF that(2), of p "(sm_data m1, sm_env m1)"] by (auto simp: zoom_def split: prod.splits)
  show ?thesis
    using assms(1,3)
    by (auto simp: sm_edges_def sm_enter_def state_at_Inr split: if_splits elim!: bindp_InrE dest!: lv en)
qed

text \<open>
  Property C20: the metrics of a machine count what it does: over an iteration that returns, the
  iterations grow by one, the transitions by one exactly when the current state changed, and when
  the state's function asked for another state, exactly one of the transitions, failed exits and
  failed entries grows, by one (none does otherwise).
\<close>

theorem machine_metrics_count:
  assumes "sm_run nd m = (Inr (a, b), m')" and "sm_metrics m = Some g" and "sm_env m = Some t"
    and "counter_group t g"
    and "dict_keys (g_channels g) = [''enter_fails'', ''exit_fails'', ''transitions'', ''iterations'']"
    and "\<forall>n st. dict_get (sm_states m) n = Some (Some st) \<longrightarrow> st_metrics st = None"
  shows "\<exists>t' d new ctx. sm_env m' = Some t' \<and> st_run a (d, Some t) = (Inr new, ctx) \<and>
    counter t' g ''iterations'' = counter t g ''iterations'' + 1 \<and>
    counter t' g ''transitions'' = counter t g ''transitions'' + of_bool (sm_current_state m' \<noteq> sm_current_state m) \<and>
    (counter t' g ''enter_fails'' - counter t g ''enter_fails'') + (counter t' g ''exit_fails'' - counter t g ''exit_fails'') +
      (counter t' g ''transitions'' - counter t g ''transitions'') = of_bool (new \<noteq> sm_current_state m)"
proof (rule sm_run_Inr [OF assms(1)])
  fix d m1 new m2 ef xf tr m3
  assume m1: "m1 = m\<lparr>sm_data := d\<rparr>" and a: "dict_get (sm_states m) (sm_current_state m) = Some (Some a)"
    and run: "in_context (st_run a) (m1\<lparr>sm_lock := sm_lock m + 1\<rparr>) = (Inr new, m2)"
    and edges: "sm_edges a new m2 = (Inr (ef, xf, tr), m3)"
    and counted: "zoom sm_env (\<lambda>e s. s\<lparr>sm_env := e\<rparr>)
              (bump (sm_metrics m3) [(''enter_fails'', of_bool ef), (''exit_fails'', of_bool xf),
                             (''transitions'', of_bool tr), (''iterations'', 1)])
            (m3\<lparr>sm_lock := sm_lock m3 - 1\<rparr>) = (Inr (), m')"
  let ?incs = "[(''enter_fails'', of_bool ef), (''exit_fails'', of_bool xf), (''transitions'', of_bool tr), (''iterations'', 1 :: int)]"
  have m2: "sm_env m2 = Some t" "sm_states m2 = sm_states m" "sm_metrics m2 = Some g" "sm_current_state m2 = sm_current_state m"
    using in_context_frame [OF run] run m1 assms(2,3,6) a
    by (auto simp: frame_of_def zoom_def st_run_def bump_def split: prod.splits option.splits elim!: bindp_InrE)
  have m3: "sm_env m3 = Some t" "sm_metrics m3 = Some g"
    using edges_env [OF edges] sm_edges_Inr [OF edges] m2 assms(6) a by (auto simp: frame_of_def)
  obtain t' where t': "bump (Some g) ?incs (Some t) = (Inr (), Some t')"
      "\<forall>n \<in> set (dict_keys (g_channels g)). counter t' g n = counter t g n + increment_of ?incs n"
    by (rule bump_run [OF assms(4), of ?incs]) (use assms(5) in auto)
  have m': "sm_env m' = Some t'" "sm_current_state m' = sm_current_state m3"
    using counted m3 t'(1) by (auto simp: zoom_def)
  have one: "of_bool ef + of_bool xf + of_bool tr = (of_bool (new \<noteq> sm_current_state m) :: int)"
    using sm_edges_Inr [OF edges] m2(4) by auto
  have moved: "tr \<longleftrightarrow> sm_current_state m' \<noteq> sm_current_state m"
    using sm_edges_Inr [OF edges] m2(4) m'(2) by (cases "new = sm_current_state m") auto
  obtain ctx where "st_run a (d, Some t) = (Inr new, ctx)"
    by (rule in_context_Inr [OF run]) (use m1 assms(3) in auto)
  moreover have "counter t' g n = counter t g n + increment_of ?incs n"
    if "n \<in> {''enter_fails'', ''exit_fails'', ''transitions'', ''iterations''}" for n
    using t'(2) that assms(5) by auto
  ultimately show ?thesis using m'(1) one moved by (intro exI [of _ t'] exI [of _ d] exI [of _ new] exI [of _ ctx]) (simp add: increment_of_def)
qed

text \<open>The machine above with its metrics in an environment.\<close>

definition metric_names :: "string list" where
  "metric_names = [''enter_fails'', ''exit_fails'', ''transitions'', ''iterations'']"

definition counted_env :: telemetry_env where
  "counted_env =
     \<lparr>te_chan = \<lparr>env_time = 0, env_lock = 0,
        env_objects = map (\<lambda>n. new_channel (''machine.m.'' @ n) UINT32 0 False False False) metric_names,
        env_registry = \<lparr>reg_type_name = ''channels'', reg_items = [(0, Some 0), (1, Some 1), (2, Some 2), (3, Some 3)],
          reg_mappings = zip (map (\<lambda>n. ''machine.m.'' @ n) metric_names) [Some 0, Some 1, Some 2, Some 3], reg_curr_id = 4\<rparr>,
        env_framer = \<lparr>frm_mtu = 64, frm_timestamps = [], frm_primitives = [], frm_use_crc = True\<rparr>,
        env_channels = [0, 1, 2, 3], env_write_crc = True, env_metrics = None, env_events = [], env_frames = [],
        env_log = []\<rparr>,
      te_enums = \<lparr>er_reg = empty_registry ''enums'', er_global = []\<rparr>,
      te_types = empty_registry ''types'', te_enum_channels = []\<rparr>"

definition counted_group :: group where
  "counted_group = \<lparr>g_name = ''machine.m'', g_channels =
     map (\<lambda>(n, i). (n, \<lparr>gc_id = i, gc_value = Some (VInt 0), gc_is_enum = False\<rparr>)) (zip metric_names [0, 1, 2, 3])\<rparr>"

definition counted_machine :: machine where
  "counted_machine = sample_machine\<lparr>sm_env := Some counted_env, sm_metrics := Some counted_group\<rparr>"

lemma counted_keys: "dict_keys (g_channels counted_group) = [''enter_fails'', ''exit_fails'', ''transitions'', ''iterations'']"
  by (simp add: counted_group_def metric_names_def)

lemma counted_channels:
  "chan_of (te_chan counted_env) 0 = Some (new_channel ''machine.m.enter_fails'' UINT32 0 False False False)"
  "chan_of (te_chan counted_env) 1 = Some (new_channel ''machine.m.exit_fails'' UINT32 0 False False False)"
  "chan_of (te_chan counted_env) 2 = Some (new_channel ''machine.m.transitions'' UINT32 0 False False False)"
  "chan_of (te_chan counted_env) 3 = Some (new_channel ''machine.m.iterations'' UINT32 0 False False False)"
  by (simp_all add: counted_env_def metric_names_def sample_defs)

lemma counted_ok: "counter_group counted_env counted_group"
proof -
  have enums: "enum_of counted_env i = None" for i by (simp add: counted_env_def enum_of_def)
  have "t_good counted_env"
    by (simp add: t_good_def env_good_def counted_env_def metric_names_def sample_defs default_val_def int_primitive_def)
  with enums show ?thesis
    using counted_channels
    by (simp add: counter_group_def group_ok_def group_keys_def counted_group_def metric_names_def chan_key_def
        new_channel_def new_type_primitive_def type_primitive.defs channel.defs default_val_def int_primitive_def)
qed

lemma bump_none [simp]: "bump None incs env = (Inr (), env)"
  by (simp add: bump_def)

lemma counted_run: "\<exists>a b m'. sm_run None counted_machine = (Inr (a, b), m') \<and> sm_current_state m' = ''busy''"
proof -
  let ?incs = "[(''enter_fails'', 0), (''exit_fails'', 0), (''transitions'', 1), (''iterations'', 1 :: int)]"
  obtain t' where "bump (Some counted_group) ?incs (Some counted_env) = (Inr (), Some t')"
    by (rule bump_run [OF counted_ok, of ?incs]) (auto simp: counted_keys)
  then show ?thesis
    by (simp add: counted_machine_def sample_machine_def sm_run_def sm_iterate_def sm_with_lock_def st_run_def sm_edges_def
        st_leaving_def sm_enter_def st_entering_def state_at_def zoom_def bindp_def)
qed

theorem machine_metrics_count_witness:
  "\<exists>a b m' t'. sm_run None counted_machine = (Inr (a, b), m') \<and> sm_env m' = Some t' \<and>
     counter t' counted_group ''iterations'' = counter counted_env counted_group ''iterations'' + 1 \<and>
     counter t' counted_group ''transitions'' = counter counted_env counted_group ''transitions'' + 1"
proof -
  obtain a b m' where run: "sm_run None counted_machine = (Inr (a, b), m')" and cur: "sm_current_state m' = ''busy''"
    using counted_run by blast
  have plain: "\<forall>n st. dict_get (sm_states counted_machine) n = Some (Some st) \<longrightarrow> st_metrics st = None"
    by (simp add: counted_machine_def sample_machine_def)
  have "sm_metrics counted_machine = Some counted_group" "sm_env counted_machine = Some counted_env"
      "sm_current_state counted_machine = ''idle''"
    by (simp_all add: counted_machine_def sample_machine_def)
  with machine_metrics_count [OF run _ _ counted_ok counted_keys plain] run cur show ?thesis by auto
qed

end
