(* ===== verification/Dispatch.thy ===== *)
theory Dispatch
  imports Channel_Environment Channel_Frames
begin

text \<open>
  A dispatch from end to end: the frames that \<open>build_data_frames\<close> and \<open>build_event_frames\<close> of the channel
  framer (\<open>vtelem/channel/framer.py\<close>) put into the environment's queue, and what the decoder finds in
  them. What the two loops need of the elements they pack is the locale \<open>frame_elements\<close>.
\<close>

section \<open>Frames with the framer's last time\<close>

definition stamped :: "framer \<Rightarrow> frame_type \<Rightarrow> int \<Rightarrow> bool" where
  "stamped fr t s \<longleftrightarrow> (\<exists>p. dict_get (frm_timestamps fr) (frame_type_name t) = Some p \<and> holds_uint UINT64 s p)"

lemma new_frame_stamp:
  assumes "framer_ok fr a" and "time_to_int x 1000 = Inr n" and "0 \<le> n" and "n < 2 ^ 64"
    and "new_frame (frame_type_name t) (Some x) fr = (Inr f, fr')"
  shows "stamped fr' t n"
proof -
  obtain p0 s0 where p0: "dict_get (frm_timestamps fr) (frame_type_name t) = Some p0" "holds_uint UINT64 s0 p0"
    using assms(1) by (rule framer_okE [where t = t])
  have ty: "tp_type p0 = UINT64" using p0(2) by (simp add: holds_uint_def)
  let ?p = "p0\<lparr>tp_data := VInt n, tp_last_set := 0\<rparr>"
  let ?fr = "fr\<lparr>frm_timestamps := dict_set (frame_type_name t) ?p (frm_timestamps fr)\<rparr>"
  obtain c where c: "tp_set (VInt n) None p0 = (True, ?p, c)"
    using tp_set_uint [of p0 n] ty assms(3,4) by (auto simp: accepts_uint)
  have "set_timestamp (frame_type_name t) (Some x) fr = (Inr ?p, ?fr)"
    using p0(1) c assms(2) by (simp add: set_timestamp_def)
  then have "fr' = ?fr"
    using assms(5) by (simp add: new_frame_def lift_res_def bindp_def gets_def split: sum.splits prod.splits)
  then show ?thesis using ty by (simp add: stamped_def holds_uint_def)
qed

lemma new_frame_again:
  assumes "framer_ok fr a" and "stamped fr t s" and "0 \<le> s" and "s < 2 ^ 64"
    and "15 + (if frm_use_crc fr then 4 else 0) < frm_mtu fr"
  obtains f where "new_frame (frame_type_name t) None fr = (Inr f, fr)"
    and "frame_open f a (frame_type_value t) s [] []"
    and "fr_class f = FRAME_CLASS_MAP (frame_type_name t)" and "fr_mtu f = frm_mtu fr"
    and "fr_count_value f = 0" and "(fr_crc f \<noteq> None) = frm_use_crc fr"
proof -
  obtain p where p: "dict_get (frm_timestamps fr) (frame_type_name t) = Some p" "holds_uint UINT64 s p"
    using assms(2) by (auto simp: stamped_def)
  obtain ip tp where ip: "dict_get (frm_primitives fr) ''app_id'' = Some ip" "holds_uint UINT16 a ip"
      "dict_get (frm_primitives fr) (frame_type_name t) = Some tp" "holds_uint UINT8 (frame_type_value t) tp"
    using assms(1) by (rule framer_okE [where t = t])
  have "header_ok a (frame_type_value t) s"
    using assms(1,3,4) frame_type_value_bounds [of t] by (simp add: header_ok_def framer_ok_def)
  from new_frame_open [OF ip(2,4) p(2) this assms(5), of "FRAME_CLASS_MAP (frame_type_name t)"]
  obtain f where f: "new_frame_object (FRAME_CLASS_MAP (frame_type_name t)) (frm_mtu fr) ip tp p (frm_use_crc fr) = Inr f"
      "frame_open f a (frame_type_value t) s [] []" "fr_class f = FRAME_CLASS_MAP (frame_type_name t)"
      "fr_mtu f = frm_mtu fr" "fr_count_value f = 0" "(fr_crc f \<noteq> None) = frm_use_crc fr"
    by metis
  have "new_frame (frame_type_name t) None fr = (Inr f, fr)"
    using p(1) ip(1,3) f(1) by (simp add: new_frame_def set_timestamp_def)
  from that [OF this f(2-6)] show thesis .
qed

section \<open>Decoding a queued frame\<close>

text \<open>A finished frame of the queue, and the decoder on its bytes.\<close>

definition frame_bytes :: "frame \<Rightarrow> byte list" where
  "frame_bytes f = bb_data (fr_buffer f)"

definition decodes_as :: "type_primitive option \<Rightarrow> channel_registry \<Rightarrow> frame_header_tuple \<Rightarrow> parsed_body \<Rightarrow> frame \<Rightarrow> bool" where
  "decodes_as eid reg hdr body f \<longleftrightarrow> raw f = Inr (frame_bytes f, int (length (frame_bytes f))) \<and>
     (\<exists>ft. decode_frame (frame_bytes f) (int (length (frame_bytes f))) eid reg =
     (Inr (Some \<lparr>pf_header = hdr, pf_body = body, pf_footer = ft\<rparr>), reg))"

definition frame_of :: "frame_type \<Rightarrow> int \<Rightarrow> int \<Rightarrow> frame \<Rightarrow> nat \<Rightarrow> frame_header_tuple" where
  "frame_of t a s f n = \<lparr>fh_length = int (length (frame_bytes f)), fh_app_id = a, fh_type = t, fh_timestamp = s, fh_size = int n\<rparr>"

section \<open>Packing elements into frames\<close>

lemma nonempty_count: "list_all2 P fs gs \<Longrightarrow> (\<And>f g. P f g \<Longrightarrow> g \<noteq> []) \<Longrightarrow> length fs \<le> length (concat gs)"
proof (induction rule: list_all2_induct)
  case (Cons f fs g gs)
  then have "g \<noteq> []" by blast
  then have "1 \<le> length g" by (cases g) simp_all
  with Cons show ?case by simp
qed simp

lemma groups_small: "list_all2 P fs gs \<Longrightarrow> length (concat gs) \<le> n \<Longrightarrow> list_all2 (\<lambda>f g. P f g \<and> length g \<le> n) fs gs"
  by (induction rule: list_all2_induct) auto

text \<open>
  Elements of a channel frame of type \<open>t\<close>: adding one succeeds when its \<open>sz\<close> bytes fit and leaves the
  frame alone when they do not, and the parser of the frame type reads the elements back as
  \<open>result\<close>, given a registry that is \<open>fit\<close> for them.
\<close>

locale frame_elements =
  fixes t :: frame_type and adding :: "'e \<Rightarrow> (frame, bool) py" and sz :: "'e \<Rightarrow> int"
    and ident :: "'e \<Rightarrow> byte list" and image :: "'e \<Rightarrow> byte list" and ok :: "'e \<Rightarrow> bool"
    and fit :: "channel_registry \<Rightarrow> bool" and result :: "'e list \<Rightarrow> parsed_body"
  assumes channel_type: "FRAME_CLASS_MAP (frame_type_name t) = ChannelFrame"
    and add_fits: "ok x \<Longrightarrow> frame_open f a (frame_type_value t) s body elems \<Longrightarrow> fr_used f + sz x \<le> fr_mtu f \<Longrightarrow>
      \<exists>f'. adding x f = (Inr True, f') \<and>
        frame_open f' a (frame_type_value t) s (body @ ident x) (elems @ image x) \<and> grown f f' 1 (sz x)"
    and add_full: "ok x \<Longrightarrow> frame_open f a (frame_type_value t) s body elems \<Longrightarrow> fr_mtu f < fr_used f + sz x \<Longrightarrow>
      adding x f = (Inr False, f)"
    and reads: "fit reg \<Longrightarrow> \<forall>x \<in> set es. ok x \<Longrightarrow>
      body_reads t (int (length es)) reg (concat (map ident es) @ concat (map image es)) (result es)"
begin

text \<open>A frame that is being filled and holds the elements \<open>es\<close>, and a finished one that was put into the queue.\<close>

definition filling :: "framer \<Rightarrow> int \<Rightarrow> int \<Rightarrow> 'e list \<Rightarrow> frame \<Rightarrow> bool" where
  "filling fr a s es f \<longleftrightarrow>
     frame_open f a (frame_type_value t) s (concat (map ident es)) (concat (map image es)) \<and>
     fr_class f = ChannelFrame \<and> fr_mtu f = frm_mtu fr \<and> fr_count_value f = int (length es) \<and>
     (fr_crc f \<noteq> None) = frm_use_crc fr \<and> (\<forall>x \<in> set es. ok x)"

definition packed :: "framer \<Rightarrow> int \<Rightarrow> int \<Rightarrow> frame \<Rightarrow> 'e list \<Rightarrow> bool" where
  "packed fr a s f es \<longleftrightarrow> es \<noteq> [] \<and> (\<forall>x \<in> set es. ok x) \<and> raw f = Inr (frame_bytes f, int (length (frame_bytes f))) \<and>
     int (length (bb_data (fr_buffer f))) \<le> frm_mtu fr \<and>
     bb_data (fr_buffer f) = frame_image (frm_use_crc fr) a (frame_type_value t) s (int (length es))
       (concat (map ident es) @ concat (map image es))"

lemma packed_decodes:
  assumes "packed fr a s f es" and "length es < 2 ^ 32" and "header_ok a (frame_type_value t) s"
    and "fit reg" and "expected_ok eid a"
  shows "decodes_as eid reg (frame_of t a s f (length es)) (result es) f"
proof -
  have n: "0 \<le> int (length es)" "int (length es) < 2 ^ 32" using assms(2) by simp_all
  from assms(1) have ok: "\<forall>x \<in> set es. ok x" and img: "bb_data (fr_buffer f) = frame_image (frm_use_crc fr) a
      (frame_type_value t) s (int (length es)) (concat (map ident es) @ concat (map image es))"
    by (simp_all add: packed_def)
  from decode_image [OF assms(3) n assms(5) reads [OF assms(4) ok] img] assms(1) show ?thesis
    unfolding packed_def decodes_as_def frame_of_def frame_bytes_def header_tuple_def by blast
qed

lemma packed_arrive:
  assumes "list_all2 (packed fr a s) fs gs" and "length (concat gs) \<le> n" and "n < 2 ^ 32"
    and "header_ok a (frame_type_value t) s" and "fit reg" and "expected_ok eid a"
  shows "list_all2 (\<lambda>f g. g \<noteq> [] \<and> int (length (frame_bytes f)) \<le> frm_mtu fr \<and>
    decodes_as eid reg (frame_of t a s f (length g)) (result g) f) fs gs"
  using groups_small [OF assms(1,2)]
proof (rule list_all2_mono)
  fix f g assume g: "packed fr a s f g \<and> length g \<le> n"
  then have "decodes_as eid reg (frame_of t a s f (length g)) (result g) f"
    using assms(3) by (intro packed_decodes [of fr, OF _ _ assms(4-6)]) simp_all
  with g show "g \<noteq> [] \<and> int (length (frame_bytes f)) \<le> frm_mtu fr \<and> decodes_as eid reg (frame_of t a s f (length g)) (result g) f"
    unfolding packed_def frame_bytes_def by blast
qed

lemma emit_packed:
  assumes "filling (env_framer e) a s es f" and "es \<noteq> []" and "length es < 2 ^ 32"
    and "env_metrics e = None" and "int (length (env_frames e)) < MAX_SIZE"
  obtains f' where "emit_frame True rnd f e = (Inr (), e\<lparr>env_frames := env_frames e @ [f']\<rparr>)"
    and "packed (env_framer e) a s f' es"
proof -
  let ?c = "frm_use_crc (env_framer e)"
  have f: "frame_open f a (frame_type_value t) s (concat (map ident es)) (concat (map image es))"
      "fr_class f = ChannelFrame" "fr_count_value f = int (length es)" "(fr_crc f \<noteq> None) = ?c"
    using assms(1) by (simp_all add: filling_def)
  have n: "0 \<le> int (length es)" "int (length es) < 2 ^ 32" using assms(3) by simp_all
  obtain f' where f': "finalize ?c rnd f = (Inr (fr_used f), f')" "fr_finalized f'" "fr_used f' = fr_used f"
      "bb_data (fr_buffer f') = sealed f ?c rnd (frame_header a (frame_type_value t) s (int (length es)) @
         concat (map ident es) @ concat (map image es))"
    by (rule finalize_channel_frame [OF f(1-3) n])
  have img: "bb_data (fr_buffer f') = frame_image ?c a (frame_type_value t) s (int (length es))
      (concat (map ident es) @ concat (map image es))"
    using f'(4) f(4) by (auto simp: sealed_def frame_image_def Let_def)
  have used: "fr_used f = 15 + (if ?c then 4 else 0) + int (length (concat (map ident es))) + int (length (concat (map image es)))"
    using f(1,4) by (auto simp: frame_open_def crc_len_def)
  moreover have "fr_used f \<le> frm_mtu (env_framer e)" using f(1) assms(1) by (simp add: frame_open_def filling_def)
  moreover have len: "fr_used f' = int (length (bb_data (fr_buffer f')))" unfolding img f'(3) used by (auto split: if_splits)
  ultimately have "int (length (bb_data (fr_buffer f'))) \<le> frm_mtu (env_framer e)" using f'(3) by simp
  then have "packed (env_framer e) a s f' es"
    using assms(1,2) img len f'(2) by (simp add: packed_def filling_def raw_def frame_bytes_def)
  moreover have "emit_frame True rnd f e = (Inr (), e\<lparr>env_frames := env_frames e @ [f']\<rparr>)"
    using f'(1) assms(4,5) by (simp add: emit_frame_def queue_put_def metric_add_def metric_id_def)
  ultimately show thesis by (rule that [rotated])
qed

lemma filling_add:
  assumes "filling fr a s es f" and "ok x" and "fr_used f + sz x \<le> fr_mtu f"
  obtains f' where "adding x f = (Inr True, f')" and "filling fr a s (es @ [x]) f'"
proof -
  have "frame_open f a (frame_type_value t) s (concat (map ident es)) (concat (map image es))"
    using assms(1) by (simp add: filling_def)
  from add_fits [OF assms(2) this assms(3)] obtain f' where f': "adding x f = (Inr True, f')"
      "frame_open f' a (frame_type_value t) s (concat (map ident es) @ ident x) (concat (map image es) @ image x)" "grown f f' 1 (sz x)"
    by blast
  moreover from f' assms(1,2) have "filling fr a s (es @ [x]) f'" by (auto simp: filling_def grown_def)
  ultimately show thesis by (intro that)
qed

text \<open>
  One step of the loops: the element ends up in the frame being filled, or that frame is queued and
  a new one with the same time takes it.
\<close>

lemma add_or_flush_run:
  assumes "framer_ok (env_framer e) a" and "stamped (env_framer e) t s" and "0 \<le> s" and "s < 2 ^ 64"
    and "filling (env_framer e) a s es f" and "ok x" and "0 < sz x"
    and "15 + (if frm_use_crc (env_framer e) then 4 else 0) + sz x \<le> frm_mtu (env_framer e)"
    and "length es < 2 ^ 32" and "env_metrics e = None" and "int (length (env_frames e)) < MAX_SIZE"
  shows "\<exists>f' fs es' gs. add_or_flush (frame_type_name t) True rnd (adding x) f e =
      (Inr (f', int (length fs)), e\<lparr>env_frames := env_frames e @ fs\<rparr>) \<and>
    list_all2 (packed (env_framer e) a s) fs gs \<and> filling (env_framer e) a s es' f' \<and> es' \<noteq> [] \<and>
    length fs \<le> 1 \<and> concat gs @ es' = es @ [x]"
proof (cases "fr_used f + sz x \<le> fr_mtu f")
  case True
  obtain f' where f': "adding x f = (Inr True, f')" "filling (env_framer e) a s (es @ [x]) f'"
    by (rule filling_add [OF assms(5,6) True])
  then have "add_or_flush (frame_type_name t) True rnd (adding x) f e = (Inr (f', int (length [])), e\<lparr>env_frames := env_frames e @ []\<rparr>)"
    by (simp add: add_or_flush_def)
  with f'(2) show ?thesis by (intro exI [of _ f'] exI [of _ "[]"] exI [of _ "es @ [x]"]) simp
next
  case False
  let ?fr = "env_framer e"
  have open_f: "frame_open f a (frame_type_value t) s (concat (map ident es)) (concat (map image es))"
    using assms(5) by (simp add: filling_def)
  have full: "adding x f = (Inr False, f)" using add_full [OF assms(6) open_f] False by simp
  have "es \<noteq> []"
  proof
    assume "es = []"
    then have "fr_used f = 15 + (if frm_use_crc ?fr then 4 else 0)" "fr_mtu f = frm_mtu ?fr"
      using assms(5) by (auto simp: filling_def frame_open_def crc_len_def)
    with False assms(8) show False by simp
  qed
  then obtain f1 where f1: "emit_frame True rnd f e = (Inr (), e\<lparr>env_frames := env_frames e @ [f1]\<rparr>)" "packed ?fr a s f1 es"
    by (rule emit_packed [OF assms(5) _ assms(9-11)])
  have mtu: "15 + (if frm_use_crc ?fr then 4 else 0) < frm_mtu ?fr" using assms(7,8) by simp
  obtain g where g: "new_frame (frame_type_name t) None ?fr = (Inr g, ?fr)" "frame_open g a (frame_type_value t) s [] []"
      "fr_class g = FRAME_CLASS_MAP (frame_type_name t)" "fr_mtu g = frm_mtu ?fr" "fr_count_value g = 0"
      "(fr_crc g \<noteq> None) = frm_use_crc ?fr"
    by (rule new_frame_again [OF assms(1-4) mtu])
  have new: "filling ?fr a s [] g" using g channel_type by (simp add: filling_def)
  have "fr_used g = 15 + (if frm_use_crc ?fr then 4 else 0)" using g(2,6) by (auto simp: frame_open_def crc_len_def)
  then have "fr_used g + sz x \<le> fr_mtu g" using assms(8) g(4) by simp
  then obtain g' where g': "adding x g = (Inr True, g')" "filling ?fr a s ([] @ [x]) g'"
    by (rule filling_add [OF new assms(6)])
  have "add_or_flush (frame_type_name t) True rnd (adding x) f e = (Inr (g', int (length [f1])), e\<lparr>env_frames := env_frames e @ [f1]\<rparr>)"
    using full f1(1) g(1,3) g'(1) channel_type
    by (simp add: add_or_flush_def new_channel_frame_def zoom_def)
  with f1(2) g'(2) show ?thesis by (intro exI [of _ g'] exI [of _ "[f1]"] exI [of _ "[x]"] exI [of _ "[es]"]) simp
qed

text \<open>
  The state of the loops: \<open>n\<close> frames were queued behind \<open>base\<close>, and together with the frame being filled
  they hold \<open>all\<close> elements.
\<close>

definition staged :: "frame list \<Rightarrow> int \<Rightarrow> int \<Rightarrow> channel_env \<Rightarrow> nat \<Rightarrow> frame \<Rightarrow> 'e list \<Rightarrow> bool" where
  "staged base a s e n f all \<longleftrightarrow>
     (\<exists>fs gs cur. env_frames e = base @ fs \<and> length fs = n \<and> list_all2 (packed (env_framer e) a s) fs gs \<and>
        filling (env_framer e) a s cur f \<and> (cur = [] \<longrightarrow> all = []) \<and> concat gs @ cur = all)"

lemma packed_count: "list_all2 (packed fr a s) fs gs \<Longrightarrow> length fs \<le> length (concat gs)"
  by (erule nonempty_count) (simp add: packed_def)

lemma staged_room:
  assumes "staged base a s e n f all" and "int (length base + length all) < MAX_SIZE"
  shows "int (length (env_frames e)) < MAX_SIZE"
proof -
  from assms(1) obtain fs gs cur where "env_frames e = base @ fs" "list_all2 (packed (env_framer e) a s) fs gs" "concat gs @ cur = all"
    by (auto simp: staged_def)
  with packed_count assms(2) show ?thesis by fastforce
qed

lemma staged_add:
  assumes "framer_ok (env_framer e) a" and "stamped (env_framer e) t s" and "0 \<le> s" and "s < 2 ^ 64"
    and "staged base a s e n f all" and "ok x" and "0 < sz x"
    and "15 + (if frm_use_crc (env_framer e) then 4 else 0) + sz x \<le> frm_mtu (env_framer e)"
    and "env_metrics e = None" and "int (length base + length all) < MAX_SIZE"
  shows "\<exists>f' k fs. add_or_flush (frame_type_name t) True rnd (adding x) f e =
      (Inr (f', int k), e\<lparr>env_frames := env_frames e @ fs\<rparr>) \<and> staged base a s (e\<lparr>env_frames := env_frames e @ fs\<rparr>) (n + k) f' (all @ [x])"
proof -
  from assms(5) obtain fs gs cur where st: "env_frames e = base @ fs" "length fs = n" "list_all2 (packed (env_framer e) a s) fs gs"
      "filling (env_framer e) a s cur f" "concat gs @ cur = all"
    by (auto simp: staged_def)
  have "length cur < 2 ^ 32" using st(5) assms(10) by (auto simp: MAX_SIZE_def)
  from add_or_flush_run [OF assms(1-4) st(4) assms(6-8) this assms(9) staged_room [OF assms(5,10)]]
  obtain f' fs' es' gs' where step: "add_or_flush (frame_type_name t) True rnd (adding x) f e =
        (Inr (f', int (length fs')), e\<lparr>env_frames := env_frames e @ fs'\<rparr>)"
      "list_all2 (packed (env_framer e) a s) fs' gs'" "filling (env_framer e) a s es' f'" "es' \<noteq> []" "concat gs' @ es' = cur @ [x]"
    by blast
  have "staged base a s (e\<lparr>env_frames := env_frames e @ fs'\<rparr>) (n + length fs') f' (all @ [x])"
    unfolding staged_def
  proof (intro exI conjI)
    show "list_all2 (packed (env_framer (e\<lparr>env_frames := env_frames e @ fs'\<rparr>)) a s) (fs @ fs') (gs @ gs')"
      using st(3) step(2) by (simp add: list_all2_appendI)
  qed (use st step in auto)
  with step(1) show ?thesis by blast
qed

lemma staged_finish:
  assumes "staged base a s e n f all" and "env_metrics e = None" and "int (length base + length all) \<le> MAX_SIZE"
  shows "\<exists>fs gs. finish_frames True rnd f (int n) (int (length all)) e =
      (Inr (int (length fs), int (length all)), e\<lparr>env_frames := base @ fs\<rparr>) \<and>
    list_all2 (packed (env_framer e) a s) fs gs \<and> concat gs = all"
proof -
  from assms(1) obtain fs gs cur where st: "env_frames e = base @ fs" "length fs = n" "list_all2 (packed (env_framer e) a s) fs gs"
      "filling (env_framer e) a s cur f" "cur = [] \<longrightarrow> all = []" "concat gs @ cur = all"
    by (auto simp: staged_def)
  show ?thesis
  proof (cases "all = []")
    case True
    then have "length (concat gs) = 0" using st(6) by (metis append_is_Nil_conv length_0_conv)
    then have "fs = []" using packed_count [OF st(3)] by (metis le_zero_eq length_0_conv)
    moreover have "gs = []" using st(3) \<open>fs = []\<close> by simp
    ultimately have "fs = []" "gs = []" .
    with True st show ?thesis by (intro exI [of _ "[]"]) (simp add: finish_frames_def)
  next
    case False
    have "length fs \<le> length (concat gs)" by (rule packed_count [OF st(3)])
    moreover have "0 < length cur" using False st(5) by auto
    moreover have "length all = length (concat gs) + length cur" using st(6) by (metis length_append)
    ultimately have room: "int (length (env_frames e)) < MAX_SIZE" using assms(3) unfolding st(1) length_append by linarith
    have "length cur < 2 ^ 32" using st(6) assms(3) by (auto simp: MAX_SIZE_def)
    then obtain f' where f': "emit_frame True rnd f e = (Inr (), e\<lparr>env_frames := env_frames e @ [f']\<rparr>)"
        "packed (env_framer e) a s f' cur"
      using emit_packed [OF st(4) _ _ assms(2) room] False st(5) by blast
    have "\<not> fr_finalized f" using st(4) by (simp add: filling_def frame_open_def)
    with False f'(1) st(1,2) have "finish_frames True rnd f (int n) (int (length all)) e =
        (Inr (int (length (fs @ [f'])), int (length all)), e\<lparr>env_frames := base @ fs @ [f']\<rparr>)"
      by (simp add: finish_frames_def)
    moreover have "list_all2 (packed (env_framer e) a s) (fs @ [f']) (gs @ [cur])"
      using st(3) f'(2) by (simp add: list_all2_appendI)
    ultimately show ?thesis using st(6) by (intro exI [of _ "fs @ [f']"] exI [of _ "gs @ [cur]"]) simp
  qed
qed

lemma staged_begin:
  assumes "framer_ok (env_framer e) a" and "time_to_int time 1000 = Inr s" and "0 \<le> s" and "s < 2 ^ 64"
    and "15 + (if frm_use_crc (env_framer e) then 4 else 0) < frm_mtu (env_framer e)"
  obtains f fr where "new_channel_frame (frame_type_name t) (Some time) e = (Inr f, e\<lparr>env_framer := fr\<rparr>)"
    and "framer_ok fr a" and "stamped fr t s" and "header_ok a (frame_type_value t) s"
    and "frm_mtu fr = frm_mtu (env_framer e)" and "frm_use_crc fr = frm_use_crc (env_framer e)"
    and "staged (env_frames e) a s (e\<lparr>env_framer := fr\<rparr>) 0 f []"
proof -
  have time: "case Some time of None \<Rightarrow> True | Some x \<Rightarrow> (\<exists>n. time_to_int x 1000 = Inr n \<and> 0 \<le> n \<and> n < 2 ^ 64)"
    using assms(2-4) by simp
  obtain f fr s' where f: "new_frame (frame_type_name t) (Some time) (env_framer e) = (Inr f, fr)"
      "frame_open f a (frame_type_value t) s' [] []" "header_ok a (frame_type_value t) s'"
      "framer_ok fr a" "frm_mtu fr = frm_mtu (env_framer e)" "frm_use_crc fr = frm_use_crc (env_framer e)"
      "fr_class f = FRAME_CLASS_MAP (frame_type_name t)" "fr_mtu f = frm_mtu (env_framer e)"
      "fr_count_value f = 0" "(fr_crc f \<noteq> None) = frm_use_crc (env_framer e)"
      "\<forall>x. Some time = Some x \<longrightarrow> time_to_int x 1000 = Inr s'"
    by (rule new_frame_run [where t = t, OF assms(1) time assms(5)])
  have s: "s' = s" using f(11) assms(2) by simp
  have "filling fr a s [] f" using f s channel_type by (simp add: filling_def)
  then have "staged (env_frames e) a s (e\<lparr>env_framer := fr\<rparr>) 0 f []" by (auto simp: staged_def)
  moreover have "new_channel_frame (frame_type_name t) (Some time) e = (Inr f, e\<lparr>env_framer := fr\<rparr>)"
    using f(1,7) channel_type by (simp add: new_channel_frame_def zoom_def)
  ultimately show thesis
    using that f(3-6) s new_frame_stamp [OF assms(1-4) f(1)] by blast
qed

end

section \<open>Values and events as elements\<close>

definition data_width :: "(string \<times> channel) list \<Rightarrow> nat \<times> pyval \<Rightarrow> int" where
  "data_width xs = (\<lambda>(i, v). 2 + get_size (tp_type (snd (xs ! i))))"

definition data_image :: "(string \<times> channel) list \<Rightarrow> nat \<times> pyval \<Rightarrow> byte list" where
  "data_image xs = (\<lambda>(i, v). projr (net_pack (tp_type (snd (xs ! i))) v))"

definition data_ok :: "(string \<times> channel) list \<Rightarrow> nat \<times> pyval \<Rightarrow> bool" where
  "data_ok xs = (\<lambda>(i, v). registered xs i \<and> \<not> isl (net_pack (tp_type (snd (xs ! i))) v))"

definition data_result :: "(string \<times> channel) list \<Rightarrow> (nat \<times> pyval) list \<Rightarrow> parsed_body" where
  "data_result xs es = DataBody (map (\<lambda>(i, v). (int i, snd (xs ! i), wire (tp_type (snd (xs ! i))) v)) es)"

lemma value_does_not_fit:
  assumes "frame_open f a t s body elems" and "fr_mtu f < fr_used f + (2 + get_size ty)"
  shows "frame_add i ty v f = (Inr False, f)"
  using assms by (simp add: frame_add_def frame_open_def tp_size_def)

interpretation data: frame_elements DATA "add_data xs" "data_width xs" "\<lambda>e. be_bytes 2 (int (fst e))" "data_image xs" "data_ok xs"
    "\<lambda>reg. reg_rel reg xs" "data_result xs"
proof unfold_locales
  fix x f a s body elems
  assume x: "data_ok xs x" and f: "frame_open f a (frame_type_value DATA) s body elems" "fr_used f + data_width xs x \<le> fr_mtu f"
  have "data_elements xs [x] [data_image xs x]"
    using x by (cases x; cases "net_pack (tp_type (snd (xs ! fst x))) (snd x)") (auto simp: data_ok_def data_elements_def data_image_def)
  from add_data_run [OF f(1) this] f(2) show "\<exists>f'. add_data xs x f = (Inr True, f') \<and>
      frame_open f' a (frame_type_value DATA) s (body @ be_bytes 2 (int (fst x))) (elems @ data_image xs x) \<and> grown f f' 1 (data_width xs x)"
    by (auto simp: data_size_def data_width_def id_bytes_def bindp_def split: prod.splits sum.splits)
next
  fix x f a s body elems
  assume "frame_open f a (frame_type_value DATA) s body elems" "fr_mtu f < fr_used f + data_width xs x"
  then show "add_data xs x f = (Inr False, f)"
    by (cases x) (simp add: add_data_def data_width_def value_does_not_fit)
next
  fix reg es assume reg: "reg_rel reg xs" and es: "\<forall>x \<in> set es. data_ok xs x"
  have "data_elements xs es (map (data_image xs) es)"
    using es unfolding data_elements_def by (auto simp: list_all2_map2 data_ok_def data_image_def list.rel_refl_strong split: prod.splits sum.splits intro!: list.rel_refl_strong)
  from data_body_reads [OF reg this]
  show "body_reads DATA (int (length es)) reg (concat (map (\<lambda>e. be_bytes 2 (int (fst e))) es) @ concat (map (data_image xs) es)) (data_result xs es)"
    by (simp add: id_bytes_def comp_def data_result_def)
qed (rule channel_class(1))

definition timed_bytes :: "primitive \<Rightarrow> timed_value \<Rightarrow> byte list" where
  "timed_bytes ty tv = projr (net_pack ty (convert (py_type_of (prim_value ty)) (fst tv))) @ be_bytes 8 (projr (time_to_int (snd tv) 1000))"

definition timed_result :: "primitive \<Rightarrow> timed_value \<Rightarrow> pyval \<times> int" where
  "timed_result ty tv = (wire ty (convert (py_type_of (prim_value ty)) (fst tv)), projr (time_to_int (snd tv) 1000))"

definition timed_ok :: "primitive \<Rightarrow> timed_value \<Rightarrow> bool" where
  "timed_ok ty tv \<longleftrightarrow> accepts ty (fst tv) \<and> \<not> isl (net_pack ty (convert (py_type_of (prim_value ty)) (fst tv))) \<and>
     \<not> isl (time_to_int (snd tv) 1000) \<and> 0 \<le> projr (time_to_int (snd tv) 1000) \<and> projr (time_to_int (snd tv) 1000) < 2 ^ 64"

definition event_width :: "(string \<times> channel) list \<Rightarrow> event_element \<Rightarrow> int" where
  "event_width xs = (\<lambda>(i, _). 18 + 2 * get_size (tp_type (snd (xs ! i))))"

definition event_image :: "(string \<times> channel) list \<Rightarrow> event_element \<Rightarrow> byte list" where
  "event_image xs = (\<lambda>(i, prev, cur). timed_bytes (tp_type (snd (xs ! i))) prev @ timed_bytes (tp_type (snd (xs ! i))) cur)"

definition event_ok :: "(string \<times> channel) list \<Rightarrow> event_element \<Rightarrow> bool" where
  "event_ok xs = (\<lambda>(i, prev, cur). registered xs i \<and> timed_ok (tp_type (snd (xs ! i))) prev \<and> timed_ok (tp_type (snd (xs ! i))) cur)"

definition event_value :: "(string \<times> channel) list \<Rightarrow> event_element \<Rightarrow> parsed_event" where
  "event_value xs = (\<lambda>(i, prev, cur). \<lparr>pe_id = int i, pe_channel = snd (xs ! i),
     pe_previous = timed_result (tp_type (snd (xs ! i))) prev, pe_current = timed_result (tp_type (snd (xs ! i))) cur\<rparr>)"

lemma timed_ok_arrives: "timed_ok ty tv \<Longrightarrow> timed_arrives ty tv (timed_bytes ty tv) (timed_result ty tv)"
  unfolding timed_ok_def timed_arrives_def timed_bytes_def timed_result_def by (auto simp: isl_def sum.case_eq_if)

lemma event_ok_arrives: "event_ok xs x \<Longrightarrow> event_arrives xs x (event_image xs x) (event_value xs x)"
  by (cases x) (auto simp: event_ok_def event_arrives_def event_image_def event_value_def intro: timed_ok_arrives)

lemma event_does_not_fit:
  assumes "frame_open f a t s body elems" and "fr_mtu f < fr_used f + (18 + 2 * get_size ty)"
  shows "add_event i ty prev cur f = (Inr False, f)"
  using assms by (simp add: add_event_def frame_open_def tp_size_def)

interpretation events: frame_elements EVENT "add_change xs" "event_width xs" "\<lambda>e. be_bytes 2 (int (fst e))" "event_image xs" "event_ok xs"
    "\<lambda>reg. reg_rel reg xs" "\<lambda>es. EventBody (map (event_value xs) es)"
proof unfold_locales
  fix x f a s body elems
  assume x: "event_ok xs x" and f: "frame_open f a (frame_type_value EVENT) s body elems" "fr_used f + event_width xs x \<le> fr_mtu f"
  have "list_all2 (\<lambda>(e, r) bs. event_arrives xs e bs r) [(x, event_value xs x)] [event_image xs x]"
    using event_ok_arrives [OF x] by simp
  moreover have "\<forall>er \<in> set [(x, event_value xs x)]. event_accepted xs (fst er)"
    using x by (auto simp: event_ok_def event_accepted_def timed_ok_def simp del: prim_type_simps)
  ultimately show "\<exists>f'. add_change xs x f = (Inr True, f') \<and>
      frame_open f' a (frame_type_value EVENT) s (body @ be_bytes 2 (int (fst x))) (elems @ event_image xs x) \<and> grown f f' 1 (event_width xs x)"
    using add_change_run [OF f(1), of xs "[(x, event_value xs x)]" "[event_image xs x]"] f(2)
    by (auto simp: event_size_def event_width_def id_bytes_def bindp_def split: prod.splits sum.splits)
next
  fix x f a s body elems
  assume "frame_open f a (frame_type_value EVENT) s body elems" "fr_mtu f < fr_used f + event_width xs x"
  then show "add_change xs x f = (Inr False, f)"
    by (cases x) (simp add: add_change_def event_width_def event_does_not_fit)
next
  fix reg es assume reg: "reg_rel reg xs" and es: "\<forall>x \<in> set es. event_ok xs x"
  have "list_all2 (\<lambda>(e, r) bs. event_arrives xs e bs r) (map (\<lambda>e. (e, event_value xs e)) es) (map (event_image xs) es)"
    using es event_ok_arrives by (auto simp: list_all2_map1 list_all2_map2 intro!: list.rel_refl_strong)
  from event_body_reads [OF reg this]
  show "body_reads EVENT (int (length es)) reg (concat (map (\<lambda>e. be_bytes 2 (int (fst e))) es) @ concat (map (event_image xs) es)) (EventBody (map (event_value xs) es))"
    by (simp add: id_bytes_def comp_def)
qed (rule channel_class(2))

section \<open>The channels of an environment\<close>

text \<open>
  The framer's channels are the registered ones, in the order of their identifiers, and each is an
  object of its own.
\<close>

definition env_lists :: "channel_env \<Rightarrow> bool" where
  "env_lists e \<longleftrightarrow> distinct (env_channels e) \<and> (\<forall>r \<in> set (env_channels e). r < length (env_objects e)) \<and>
     reg_rel (env_registry e) (map (\<lambda>r. (ch_name (chan_at e r), r)) (env_channels e))"

definition listing :: "channel_env \<Rightarrow> (string \<times> channel) list" where
  "listing e = map (\<lambda>r. (ch_name (chan_at e r), chan_at e r)) (env_channels e)"

lemma dict_get_map_snd: "dict_get (map (\<lambda>(k, x). (k, g x)) d) k = map_option g (dict_get d k)"
  by (induction d) auto

lemma deref_listing:
  assumes "env_lists e"
  shows "reg_rel (deref e) (listing e)"
proof -
  let ?ys = "map (\<lambda>r. (ch_name (chan_at e r), r)) (env_channels e)"
  have rel: "reg_rel (env_registry e) ?ys" using assms by (simp add: env_lists_def)
  show ?thesis
  proof (rule reg_relI)
    show "reg_curr_id (deref e) = int (length (listing e))"
      using rel by (simp add: reg_rel_def deref_def listing_def Let_def)
    have "map fst (listing e) = map fst ?ys" by (simp add: listing_def)
    then show "distinct (map fst (listing e))" using rel unfolding reg_rel_def by metis
    fix j x
    have "dict_get (reg_items (deref e)) j = Some (Some x) \<longleftrightarrow> (\<exists>r. dict_get (reg_items (env_registry e)) j = Some (Some r) \<and> x = chan_at e r)"
      by (auto simp: deref_def Let_def dict_get_map_snd)
    then show "dict_get (reg_items (deref e)) j = Some (Some x) \<longleftrightarrow> (\<exists>i < length (listing e). j = int i \<and> x = snd (listing e ! i))"
      using reg_rel_item [OF rel] by (auto simp: listing_def)
  next
    fix n j
    show "dict_get (reg_mappings (deref e)) n = Some (Some j) \<longleftrightarrow> (\<exists>i < length (listing e). j = int i \<and> n = fst (listing e ! i))"
      using reg_rel_mapping [OF rel] by (auto simp: deref_def Let_def listing_def)
  qed
qed

lemma listed_id:
  assumes "env_lists e" and "i < length (env_channels e)"
  shows "get_id (ch_name (chan_at e (env_channels e ! i))) (env_registry e) = (Inr (Some (int i)), env_registry e)"
proof -
  have "dict_get (reg_mappings (env_registry e)) (ch_name (chan_at e (env_channels e ! i))) = Some (Some (int i))"
    using assms reg_rel_mapping [of "env_registry e"] unfolding env_lists_def by fastforce
  then show ?thesis by (simp add: get_id_def)
qed

text \<open>The channels an environment is constructed with, and those added to it later, are listed.\<close>

lemma lists_register:
  assumes "env_lists e" and "ch_name c \<notin> fst ` set (listing e)"
  shows "\<exists>reg. reg_add (ch_name c) (length (env_objects e)) (env_registry e) = (Inr (True, int (length (env_channels e))), reg) \<and>
    env_lists (e\<lparr>env_objects := env_objects e @ [c], env_registry := reg, env_channels := env_channels e @ [length (env_objects e)]\<rparr>) \<and>
    listing (e\<lparr>env_objects := env_objects e @ [c], env_registry := reg, env_channels := env_channels e @ [length (env_objects e)]\<rparr>) =
      listing e @ [(ch_name c, c)]"
proof -
  let ?ys = "map (\<lambda>r. (ch_name (chan_at e r), r)) (env_channels e)" and ?r = "length (env_objects e)"
  have rel: "reg_rel (env_registry e) ?ys" using assms(1) by (simp add: env_lists_def)
  have notin: "ch_name c \<notin> fst ` set ?ys" using assms(2) by (auto simp: listing_def image_image)
  from reg_add_new [OF rel notin, of ?r] obtain reg where reg: "reg_add (ch_name c) ?r (env_registry e) = (Inr (True, int (length ?ys)), reg)"
      "reg_rel reg (?ys @ [(ch_name c, ?r)])"
    by blast
  let ?e = "e\<lparr>env_objects := env_objects e @ [c], env_registry := reg, env_channels := env_channels e @ [?r]\<rparr>"
  have at: "chan_at ?e r = chan_at e r" if "r \<in> set (env_channels e)" for r
    using that assms(1) by (simp add: env_lists_def chan_at_def nth_append)
  have new: "chan_at ?e ?r = c" by (simp add: chan_at_def)
  have names: "map (\<lambda>r. (ch_name (chan_at ?e r), r)) (env_channels ?e) = ?ys @ [(ch_name c, ?r)]" using at new by simp
  have "distinct (env_channels ?e)" "\<forall>r \<in> set (env_channels ?e). r < length (env_objects ?e)" "reg_rel (env_registry ?e) (?ys @ [(ch_name c, ?r)])"
    using assms(1) reg(2) by (auto simp: env_lists_def)
  then have "env_lists ?e" unfolding env_lists_def names by blast
  moreover have "listing ?e = listing e @ [(ch_name c, c)]" using at new by (simp add: listing_def)
  ultimately show ?thesis using reg(1) by auto
qed

lemma env_init_lists:
  assumes "env_lists e" and "distinct (map ch_name cs)" and "fst ` set (listing e) \<inter> ch_name ` set cs = {}" and "env_metrics e = None"
  shows "\<exists>e'. env_init cs None e = (Inr (), e') \<and> env_lists e' \<and> listing e' = listing e @ map (\<lambda>c. (ch_name c, c)) cs \<and>
    e' = e\<lparr>env_objects := env_objects e', env_registry := env_registry e', env_channels := env_channels e'\<rparr>"
  using assms
proof (induction cs arbitrary: e)
  case Nil
  then show ?case by (simp add: env_init_def new_metered_queue_def add_metric_def)
next
  case (Cons c cs)
  have "ch_name c \<notin> fst ` set (listing e)" using Cons.prems(3) by auto
  then obtain reg where reg: "reg_add (ch_name c) (length (env_objects e)) (env_registry e) = (Inr (True, int (length (env_channels e))), reg)"
      "env_lists (e\<lparr>env_objects := env_objects e @ [c], env_registry := reg, env_channels := env_channels e @ [length (env_objects e)]\<rparr>)"
      "listing (e\<lparr>env_objects := env_objects e @ [c], env_registry := reg, env_channels := env_channels e @ [length (env_objects e)]\<rparr>) =
        listing e @ [(ch_name c, c)]"
    using lists_register [OF Cons.prems(1)] by blast
  let ?e = "e\<lparr>env_objects := env_objects e @ [c], env_registry := reg, env_channels := env_channels e @ [length (env_objects e)]\<rparr>"
  have step: "env_init (c # cs) None e = env_init cs None ?e"
    using reg(1) by (simp add: env_init_def new_object_def zoom_def bindp_assoc)
  have "\<exists>e'. env_init cs None ?e = (Inr (), e') \<and> env_lists e' \<and> listing e' = listing ?e @ map (\<lambda>c. (ch_name c, c)) cs \<and>
      e' = ?e\<lparr>env_objects := env_objects e', env_registry := env_registry e', env_channels := env_channels e'\<rparr>"
    using Cons.prems reg(2,3) by (intro Cons.IH) auto
  then obtain e' where e': "env_init cs None ?e = (Inr (), e')" "env_lists e'" "listing e' = listing ?e @ map (\<lambda>c. (ch_name c, c)) cs"
      "e' = ?e\<lparr>env_objects := env_objects e', env_registry := env_registry e', env_channels := env_channels e'\<rparr>"
    by blast
  have "e' = e\<lparr>env_objects := env_objects e', env_registry := env_registry e', env_channels := env_channels e'\<rparr>"
    by (subst e'(4)) simp
  then show ?case unfolding step using e'(1-3) reg(3) by auto
qed

lemma new_env_lists:
  assumes "distinct (map ch_name cs)"
  shows "\<exists>e. new_channel_env mtu cs None init_time None rnd use_crc = Inr e \<and> env_lists e \<and> listing e = map (\<lambda>c. (ch_name c, c)) cs \<and>
    env_metrics e = None \<and> env_write_crc e \<and> framer_ok (env_framer e) (rnd mod 2 ^ 16) \<and> frm_mtu (env_framer e) = mtu \<and>
    env_frames e = [] \<and> env_events e = [] \<and> env_log e = []"
proof -
  obtain fr where fr: "new_framer mtu None rnd use_crc = Inr fr" "framer_ok fr (rnd mod 2 ^ 16)" "frm_mtu fr = mtu"
    using new_framer_random by blast
  let ?e0 = "\<lparr>env_time = (case init_time of None \<Rightarrow> 0 | Some t \<Rightarrow> t), env_lock = 0, env_objects = [],
    env_registry = empty_registry ''channels'', env_framer = fr, env_channels = [], env_write_crc = True, env_metrics = None,
    env_events = [], env_frames = [], env_log = []\<rparr> :: channel_env"
  have "env_lists ?e0" "fst ` set (listing ?e0) \<inter> ch_name ` set cs = {}" "env_metrics ?e0 = None" and empty: "listing ?e0 = []"
    by (simp_all add: env_lists_def listing_def reg_rel_empty)
  from env_init_lists [OF this(1) assms this(2,3), unfolded empty append_Nil]
  obtain e where e: "env_init cs None ?e0 = (Inr (), e)" "env_lists e" "listing e = map (\<lambda>c. (ch_name c, c)) cs"
      "e = ?e0\<lparr>env_objects := env_objects e, env_registry := env_registry e, env_channels := env_channels e\<rparr>"
    by (elim exE conjE)
  have "env_metrics e = None" "env_write_crc e" "env_framer e = fr" "env_frames e = []" "env_events e = []" "env_log e = []"
    by (subst e(4), simp)+
  with e(1-3) fr show ?thesis by (simp add: new_channel_env_def)
qed

section \<open>The data loop\<close>

definition is_due :: "pyfloat \<Rightarrow> channel \<Rightarrow> bool" where
  "is_due time c \<longleftrightarrow> fle (fadd (ch_last_emitted c) (ch_rate c)) time"

text \<open>The values of the channels that are due, under their identifiers, and the channels after they were emitted.\<close>

definition due_at :: "pyfloat \<Rightarrow> channel_env \<Rightarrow> nat list \<Rightarrow> (nat \<times> pyval) list" where
  "due_at time e is = map (\<lambda>i. (i, tp_data (snd (listing e ! i)))) (filter (\<lambda>i. is_due time (snd (listing e ! i))) is)"

definition emitted :: "pyfloat \<Rightarrow> channel_env \<Rightarrow> (string \<times> channel) list" where
  "emitted time e = map (\<lambda>(n, c). (n, snd (emit time c))) (listing e)"

lemma emit_due: "emit time c = (if is_due time c then (Some (tp_data c), c\<lparr>ch_last_emitted := time\<rparr>) else (None, c))"
  by (simp add: emit_def is_due_def tp_get_def)

lemma emit_keeps [simp]:
  "ch_name (snd (emit time c)) = ch_name c" "tp_type (snd (emit time c)) = tp_type c" "tp_data (snd (emit time c)) = tp_data c"
  "ch_is_stream (snd (emit time c)) = ch_is_stream c"
  by (simp_all add: emit_def)

lemma listing_nth [simp]:
  "length (listing e) = length (env_channels e)" "length (emitted time e) = length (env_channels e)"
  "i < length (env_channels e) \<Longrightarrow> listing e ! i = (ch_name (chan_at e (env_channels e ! i)), chan_at e (env_channels e ! i))"
  "i < length (env_channels e) \<Longrightarrow> emitted time e ! i =
     (ch_name (chan_at e (env_channels e ! i)), snd (emit time (chan_at e (env_channels e ! i))))"
  by (simp_all add: listing_def emitted_def)

text \<open>What a dispatch needs of the framer and of each channel that may be sent.\<close>

definition framing :: "framer \<Rightarrow> int \<Rightarrow> frame_type \<Rightarrow> int \<Rightarrow> bool" where
  "framing fr a t s \<longleftrightarrow> framer_ok fr a \<and> stamped fr t s \<and> 0 \<le> s \<and> s < 2 ^ 64 \<and> 29 \<le> frm_mtu fr"

lemma get_size_le: "get_size ty \<le> 8"
  by (cases ty) simp_all

lemma data_width_bounds: "0 < data_width xs x \<and> data_width xs x \<le> 10"
  using get_size_le by (cases x) (auto simp: data_width_def intro: add_pos_pos)

text \<open>The channel with identifier \<open>k\<close> in one round of the loop.\<close>

lemma data_loop_step:
  assumes "env_lists e0" and "k < length (env_channels e0)" and "r = env_channels e0 ! k"
    and "\<forall>x \<in> set (due_at time e0 [k]). data_ok (emitted time e0) x"
    and "framing (env_framer e) a DATA s" and "env_metrics e = None"
    and "data.staged (emitted time e0) base a s e n f all"
    and "int (length base + length all + length (due_at time e0 [k])) \<le> MAX_SIZE"
    and "env_registry e = env_registry e0" and "r < length (env_objects e)" and "chan_at e r = chan_at e0 r"
  shows "\<exists>f1 m e1. data_loop time True rnd (r # rs) f (int n) (int (length all)) e =
      data_loop time True rnd rs f1 (int (n + m)) (int (length (all @ due_at time e0 [k]))) e1 \<and>
    data.staged (emitted time e0) base a s e1 (n + m) f1 (all @ due_at time e0 [k]) \<and>
    e1 = e\<lparr>env_objects := env_objects e1, env_frames := env_frames e1\<rparr> \<and> length (env_objects e1) = length (env_objects e) \<and>
    (\<forall>q. chan_at e1 q = (if q = r then snd (emit time (chan_at e r)) else chan_at e q))"
proof (cases "is_due time (chan_at e0 r)")
  case False
  let ?e1 = "e\<lparr>env_objects := (env_objects e)[r := chan_at e0 r]\<rparr>"
  have none: "due_at time e0 [k] = []" using False assms(2,3) by (simp add: due_at_def)
  have "data_loop time True rnd (r # rs) f (int n) (int (length all)) e = data_loop time True rnd rs f (int n) (int (length all)) ?e1"
    using False assms(11) by (simp add: emit_due)
  moreover have "data.staged (emitted time e0) base a s ?e1 n f all" using assms(7) by (simp add: data.staged_def)
  moreover have "chan_at ?e1 q = (if q = r then snd (emit time (chan_at e r)) else chan_at e q)" for q
    using assms(10,11) False by (simp add: emit_due chan_at_def)
  ultimately show ?thesis unfolding none by (intro exI [of _ f] exI [of _ 0] exI [of _ ?e1]) simp
next
  case True
  let ?c = "chan_at e0 r" and ?x = "(k, tp_data (chan_at e0 r))" and ?e1 = "e\<lparr>env_objects := (env_objects e)[r := snd (emit time (chan_at e0 r))]\<rparr>"
  have due: "due_at time e0 [k] = [?x]" using True assms(2,3) by (simp add: due_at_def)
  have get_id: "get_id (ch_name ?c) (env_registry e) = (Inr (Some (int k)), env_registry e)"
    unfolding assms(3,9) by (rule listed_id [OF assms(1,2)])
  have step: "data_loop time True rnd (r # rs) f (int n) (int (length all)) e =
      bindp (add_or_flush ''data'' True rnd (add_data (emitted time e0) ?x) f) (\<lambda>(f, m).
        data_loop time True rnd rs f (int n + m) (int (length all) + 1)) ?e1"
    using True assms(2,3,11) get_id by (simp add: emit_due zoom_def add_data_def)
  have st: "data.staged (emitted time e0) base a s ?e1 n f all" using assms(7) by (simp add: data.staged_def)
  have fr: "framer_ok (env_framer ?e1) a" "stamped (env_framer ?e1) DATA s" "0 \<le> s" "s < 2 ^ 64" "29 \<le> frm_mtu (env_framer ?e1)"
    using assms(5) by (simp_all add: framing_def)
  have x: "data_ok (emitted time e0) ?x" using assms(4) due by simp
  have w: "0 < data_width (emitted time e0) ?x" "data_width (emitted time e0) ?x \<le> 10" using data_width_bounds by blast+
  then have "15 + (if frm_use_crc (env_framer ?e1) then 4 else 0) + data_width (emitted time e0) ?x \<le> frm_mtu (env_framer ?e1)"
    using fr(5) by (auto split: if_splits)
  moreover have "env_metrics ?e1 = None" "int (length base + length all) < MAX_SIZE" using assms(6,8) due by simp_all
  ultimately obtain f1 m fs where add: "add_or_flush ''data'' True rnd (add_data (emitted time e0) ?x) f ?e1 =
        (Inr (f1, int m), ?e1\<lparr>env_frames := env_frames ?e1 @ fs\<rparr>)"
      "data.staged (emitted time e0) base a s (?e1\<lparr>env_frames := env_frames ?e1 @ fs\<rparr>) (n + m) f1 (all @ [?x])"
    using data.staged_add [OF fr(1-4) st x w(1)] by fastforce
  let ?e2 = "?e1\<lparr>env_frames := env_frames ?e1 @ fs\<rparr>"
  have "data_loop time True rnd (r # rs) f (int n) (int (length all)) e =
      data_loop time True rnd rs f1 (int (n + m)) (int (length (all @ [?x]))) ?e2"
    unfolding step using add(1) by (simp add: add.commute)
  moreover have "chan_at ?e2 q = (if q = r then snd (emit time (chan_at e r)) else chan_at e q)" for q
    using assms(10,11) by (simp add: chan_at_def)
  ultimately show ?thesis
    unfolding due using add(2) by (intro exI [of _ f1] exI [of _ m] exI [of _ ?e2]) simp
qed

lemma due_at_Cons: "due_at time e (k # is) = due_at time e [k] @ due_at time e is"
  by (simp add: due_at_def)

lemma data_loop_run:
  assumes "env_lists e0" and "rs = drop k (env_channels e0)" and "ids = [k..<length (env_channels e0)]"
    and "\<forall>x \<in> set (due_at time e0 ids). data_ok (emitted time e0) x"
    and "framing (env_framer e) a DATA s" and "env_metrics e = None"
    and "data.staged (emitted time e0) base a s e n f all"
    and "int (length base + length all + length (due_at time e0 ids)) \<le> MAX_SIZE"
    and "env_registry e = env_registry e0" and "length (env_objects e) = length (env_objects e0)"
    and "\<forall>r \<in> set rs. chan_at e r = chan_at e0 r"
  shows "\<exists>f' n' e'. data_loop time True rnd rs f (int n) (int (length all)) e =
      (Inr (f', int n', int (length (all @ due_at time e0 ids))), e') \<and>
    data.staged (emitted time e0) base a s e' n' f' (all @ due_at time e0 ids) \<and>
    e' = e\<lparr>env_objects := env_objects e', env_frames := env_frames e'\<rparr> \<and> length (env_objects e') = length (env_objects e) \<and>
    (\<forall>r. chan_at e' r = (if r \<in> set rs then snd (emit time (chan_at e r)) else chan_at e r))"
  using assms(2-)
proof (induction rs arbitrary: k ids e n f all)
  case Nil
  then show ?case by (intro exI [of _ f] exI [of _ n] exI [of _ e]) (simp add: due_at_def)
next
  case (Cons r rs)
  have k: "k < length (env_channels e0)" using Cons.prems(1) by (metis drop_eq_Nil2 leI list.distinct(1))
  then have r: "r = env_channels e0 ! k" and rs: "rs = drop (Suc k) (env_channels e0)"
    using Cons.prems(1) by (metis Cons_nth_drop_Suc list.inject)+
  let ?rest = "[Suc k..<length (env_channels e0)]"
  have ids: "ids = k # ?rest" using Cons.prems(2) k by (simp add: upt_conv_Cons)
  have due: "due_at time e0 ids = due_at time e0 [k] @ due_at time e0 ?rest" unfolding ids by (rule due_at_Cons)
  have "distinct (env_channels e0)" using assms(1) by (simp add: env_lists_def)
  then have "distinct (r # rs)" using Cons.prems(1) by (metis distinct_drop)
  then have fresh: "r \<notin> set rs" by simp
  have rlen: "r < length (env_objects e)" using assms(1) k r Cons.prems(9) by (simp add: env_lists_def)
  have "\<forall>x \<in> set (due_at time e0 [k]). data_ok (emitted time e0) x"
      "int (length base + length all + length (due_at time e0 [k])) \<le> MAX_SIZE" "chan_at e r = chan_at e0 r"
    using Cons.prems(3,7,10) due by auto
  from data_loop_step [OF assms(1) k r this(1) Cons.prems(4-6) this(2) Cons.prems(8) rlen this(3), of rnd rs]
  obtain f1 m e1 where step: "data_loop time True rnd (r # rs) f (int n) (int (length all)) e =
        data_loop time True rnd rs f1 (int (n + m)) (int (length (all @ due_at time e0 [k]))) e1"
      "data.staged (emitted time e0) base a s e1 (n + m) f1 (all @ due_at time e0 [k])"
      "e1 = e\<lparr>env_objects := env_objects e1, env_frames := env_frames e1\<rparr>" "length (env_objects e1) = length (env_objects e)"
      "\<forall>q. chan_at e1 q = (if q = r then snd (emit time (chan_at e r)) else chan_at e q)"
    by blast
  have same: "env_framer e1 = env_framer e" "env_metrics e1 = env_metrics e" "env_registry e1 = env_registry e"
    by (subst step(3), simp)+
  have "\<exists>f' n' e'. data_loop time True rnd rs f1 (int (n + m)) (int (length (all @ due_at time e0 [k]))) e1 =
      (Inr (f', int n', int (length ((all @ due_at time e0 [k]) @ due_at time e0 ?rest))), e') \<and>
    data.staged (emitted time e0) base a s e' n' f' ((all @ due_at time e0 [k]) @ due_at time e0 ?rest) \<and>
    e' = e1\<lparr>env_objects := env_objects e', env_frames := env_frames e'\<rparr> \<and> length (env_objects e') = length (env_objects e1) \<and>
    (\<forall>q. chan_at e' q = (if q \<in> set rs then snd (emit time (chan_at e1 q)) else chan_at e1 q))"
    by (rule Cons.IH [OF rs refl _ _ _ step(2)]) (use Cons.prems(3-5,7-) due step(4,5) same fresh in auto)
  then obtain f' n' e' where run: "data_loop time True rnd rs f1 (int (n + m)) (int (length (all @ due_at time e0 [k]))) e1 =
        (Inr (f', int n', int (length (all @ due_at time e0 ids))), e')"
      "data.staged (emitted time e0) base a s e' n' f' (all @ due_at time e0 ids)"
      "e' = e1\<lparr>env_objects := env_objects e', env_frames := env_frames e'\<rparr>" "length (env_objects e') = length (env_objects e1)"
      "\<forall>q. chan_at e' q = (if q \<in> set rs then snd (emit time (chan_at e1 q)) else chan_at e1 q)"
    unfolding due by auto
  have "e' = e\<lparr>env_objects := env_objects e', env_frames := env_frames e'\<rparr>" by (subst run(3), subst step(3)) simp
  then show ?case using step(1,4,5) run fresh by (intro exI [of _ f'] exI [of _ n'] exI [of _ e']) simp
qed

lemma lists_after_emit:
  assumes "env_lists e" and "env_channels e' = env_channels e" and "env_registry e' = env_registry e"
    and "length (env_objects e') = length (env_objects e)"
    and "\<forall>r \<in> set (env_channels e). chan_at e' r = snd (emit time (chan_at e r))"
  shows "env_lists e'" and "listing e' = emitted time e"
proof -
  have names: "map (\<lambda>r. (ch_name (chan_at e' r), r)) (env_channels e) = map (\<lambda>r. (ch_name (chan_at e r), r)) (env_channels e)"
    using assms(5) by simp
  show "env_lists e'" using assms(1,4) unfolding env_lists_def assms(2,3) names by simp
  show "listing e' = emitted time e" using assms(2,5) by (simp add: listing_def emitted_def)
qed

lemma build_data_run:
  assumes "env_lists e" and "framer_ok (env_framer e) a" and "time_to_int time 1000 = Inr s" and "0 \<le> s" and "s < 2 ^ 64"
    and "29 \<le> frm_mtu (env_framer e)" and "env_metrics e = None"
    and "\<forall>x \<in> set (due_at time e [0..<length (env_channels e)]). data_ok (emitted time e) x"
    and "int (length (env_frames e) + length (due_at time e [0..<length (env_channels e)])) \<le> MAX_SIZE"
  shows "\<exists>fs gs fr e'. build_data_frames time True rnd e =
      (Inr (int (length fs), int (length (due_at time e [0..<length (env_channels e)]))), e') \<and>
    e' = e\<lparr>env_framer := fr, env_objects := env_objects e', env_frames := env_frames e @ fs\<rparr> \<and>
    frm_mtu fr = frm_mtu (env_framer e) \<and> frm_use_crc fr = frm_use_crc (env_framer e) \<and> framer_ok fr a \<and> header_ok a (frame_type_value DATA) s \<and>
    list_all2 (data.packed (emitted time e) fr a s) fs gs \<and> concat gs = due_at time e [0..<length (env_channels e)] \<and>
    env_lists e' \<and> listing e' = emitted time e"
proof -
  let ?due = "due_at time e [0..<length (env_channels e)]" and ?xs = "emitted time e"
  have "15 + (if frm_use_crc (env_framer e) then 4 else 0) < frm_mtu (env_framer e)" using assms(6) by simp
  then obtain f fr where f: "new_channel_frame ''data'' (Some time) e = (Inr f, e\<lparr>env_framer := fr\<rparr>)" "framer_ok fr a" "stamped fr DATA s"
      "header_ok a (frame_type_value DATA) s" "frm_mtu fr = frm_mtu (env_framer e)" "frm_use_crc fr = frm_use_crc (env_framer e)"
      "data.staged ?xs (env_frames e) a s (e\<lparr>env_framer := fr\<rparr>) 0 f []"
    using data.staged_begin [OF assms(2-5), of ?xs] by auto
  let ?e1 = "e\<lparr>env_framer := fr, env_lock := env_lock e + 1\<rparr>"
  have "framing (env_framer ?e1) a DATA s" using f assms(4-6) by (simp add: framing_def)
  moreover have "data.staged ?xs (env_frames e) a s ?e1 0 f []" using f(7) by (simp add: data.staged_def)
  ultimately have "\<exists>f' n' e'. data_loop time True rnd (env_channels e) f (int 0) (int (length ([] :: (nat \<times> pyval) list))) ?e1 =
      (Inr (f', int n', int (length ([] @ ?due))), e') \<and>
    data.staged ?xs (env_frames e) a s e' n' f' ([] @ ?due) \<and>
    e' = ?e1\<lparr>env_objects := env_objects e', env_frames := env_frames e'\<rparr> \<and> length (env_objects e') = length (env_objects ?e1) \<and>
    (\<forall>r. chan_at e' r = (if r \<in> set (env_channels e) then snd (emit time (chan_at ?e1 r)) else chan_at ?e1 r))"
    using assms by (intro data_loop_run [where k = 0]) (simp_all add: chan_at_def)
  then obtain f' n' e' where run: "data_loop time True rnd (env_channels e) f 0 0 ?e1 = (Inr (f', int n', int (length ?due)), e')"
      "data.staged ?xs (env_frames e) a s e' n' f' ?due"
      "e' = ?e1\<lparr>env_objects := env_objects e', env_frames := env_frames e'\<rparr>" "length (env_objects e') = length (env_objects e)"
      "\<forall>r \<in> set (env_channels e). chan_at e' r = snd (emit time (chan_at e r))"
    by (auto simp: chan_at_def)
  have e': "env_metrics e' = None" "env_framer e' = fr" "env_lock e' = env_lock e + 1"
    using assms(7) by (subst run(3), simp)+
  let ?e2 = "e'\<lparr>env_lock := env_lock e\<rparr>"
  have "data.staged ?xs (env_frames e) a s ?e2 n' f' ?due" using run(2) by (simp add: data.staged_def)
  from data.staged_finish [OF this _ assms(9), of rnd] e' obtain fs gs where
    fin: "finish_frames True rnd f' (int n') (int (length ?due)) ?e2 = (Inr (int (length fs), int (length ?due)), ?e2\<lparr>env_frames := env_frames e @ fs\<rparr>)"
      "list_all2 (data.packed ?xs fr a s) fs gs" "concat gs = ?due"
    by auto
  let ?e3 = "?e2\<lparr>env_frames := env_frames e @ fs\<rparr>"
  have e3: "?e3 = e\<lparr>env_framer := fr, env_objects := env_objects ?e3, env_frames := env_frames e @ fs\<rparr>"
    by (subst run(3)) simp
  have chans: "env_channels ?e3 = env_channels e" "env_registry ?e3 = env_registry e" by (subst run(3), simp)+
  have "build_data_frames time True rnd e = (Inr (int (length fs), int (length ?due)), ?e3)"
    using f(1) run(1) e'(3) fin(1) by (simp add: build_data_frames_def with_lock_def)
  moreover have "env_lists ?e3" "listing ?e3 = ?xs"
    using lists_after_emit [OF assms(1) chans, of time] run(4,5) by (simp_all add: chan_at_def)
  ultimately show ?thesis using e3 f(2,4-6) fin(2,3)
    by (intro exI [of _ fs] exI [of _ gs] exI [of _ fr] exI [of _ ?e3]) blast
qed

section \<open>The event loop\<close>

definition event_of :: "channel_env \<Rightarrow> event_element \<Rightarrow> event" where
  "event_of e = (\<lambda>(i, prev, cur). (fst (listing e ! i), prev, cur))"

lemma event_width_bounds: "0 < event_width xs x \<and> event_width xs x \<le> 34"
  using get_size_le by (cases x) (auto simp: event_width_def intro: add_pos_pos)

lemma event_channel_run:
  assumes "env_lists e" and "i < length (env_channels e)"
  shows "event_channel (fst (listing e ! i)) e = (Inr (int i, tp_type (snd (listing e ! i))), e)"
proof -
  have "dict_get (reg_items (env_registry e)) (int i) = Some (Some (env_channels e ! i))"
    using assms reg_rel_item [of "env_registry e"] unfolding env_lists_def by fastforce
  then have "get_item (int i) (env_registry e) = (Inr (Some (env_channels e ! i)), env_registry e)"
    by (simp add: get_item_def)
  then show ?thesis using assms(2) listed_id [OF assms]
    by (simp add: event_channel_def get_channel_def zoom_def)
qed

lemma event_loop_run:
  assumes "env_lists e" and "\<forall>x \<in> set es. event_ok (listing e) x"
    and "framer_ok (env_framer e) a" and "stamped (env_framer e) EVENT s" and "0 \<le> s" and "s < 2 ^ 64"
    and "53 \<le> frm_mtu (env_framer e)" and "env_metrics e = None"
    and "events.staged (listing e) base a s e n f all" and "int (length base + length all + length es) \<le> MAX_SIZE"
  shows "\<exists>f' n' fs. event_loop True rnd (map (event_of e) es) f (int n) e =
      (Inr (f', int n'), e\<lparr>env_frames := env_frames e @ fs\<rparr>) \<and>
    events.staged (listing e) base a s (e\<lparr>env_frames := env_frames e @ fs\<rparr>) n' f' (all @ es)"
  using assms
proof (induction es arbitrary: e n f all)
  case Nil
  then show ?case by (intro exI [of _ f] exI [of _ n] exI [of _ "[]"]) simp
next
  case (Cons x es)
  obtain i prev cur where x: "x = (i, prev, cur)" by (cases x)
  have i: "i < length (env_channels e)" using Cons.prems(2) x by (simp add: event_ok_def registered_def)
  let ?ty = "tp_type (snd (listing e ! i))"
  have w: "0 < event_width (listing e) x" "event_width (listing e) x \<le> 34" using event_width_bounds by blast+
  then have fits: "15 + (if frm_use_crc (env_framer e) then 4 else 0) + event_width (listing e) x \<le> frm_mtu (env_framer e)"
    using Cons.prems(7) by (auto split: if_splits)
  have ok: "event_ok (listing e) x" "int (length base + length all) < MAX_SIZE" using Cons.prems(2,10) by simp_all
  from events.staged_add [OF Cons.prems(3-6,9) ok(1) w(1) fits Cons.prems(8) ok(2), of rnd]
  obtain f1 m fs where add: "add_or_flush ''event'' True rnd (add_change (listing e) x) f e = (Inr (f1, int m), e\<lparr>env_frames := env_frames e @ fs\<rparr>)"
      "events.staged (listing e) base a s (e\<lparr>env_frames := env_frames e @ fs\<rparr>) (n + m) f1 (all @ [x])"
    by auto
  let ?e1 = "e\<lparr>env_frames := env_frames e @ fs\<rparr>"
  have same: "listing ?e1 = listing e" "env_lists ?e1 = env_lists e" "event_of ?e1 = event_of e"
    by (simp_all add: listing_def env_lists_def event_of_def chan_at_def)
  have step: "event_loop True rnd (map (event_of e) (x # es)) f (int n) e = event_loop True rnd (map (event_of ?e1) es) f1 (int (n + m)) ?e1"
    unfolding same using event_channel_run [OF Cons.prems(1) i] add(1) by (simp add: event_of_def x add_change_def)
  have "\<exists>f' n' fs'. event_loop True rnd (map (event_of ?e1) es) f1 (int (n + m)) ?e1 =
      (Inr (f', int n'), ?e1\<lparr>env_frames := env_frames ?e1 @ fs'\<rparr>) \<and>
    events.staged (listing ?e1) base a s (?e1\<lparr>env_frames := env_frames ?e1 @ fs'\<rparr>) n' f' ((all @ [x]) @ es)"
    using Cons.prems add(2) by (intro Cons.IH) (simp_all add: same)
  then show ?case unfolding step same by fastforce
qed

lemma build_event_run:
  assumes "env_lists e" and "framer_ok (env_framer e) a" and "time_to_int time 1000 = Inr s" and "0 \<le> s" and "s < 2 ^ 64"
    and "53 \<le> frm_mtu (env_framer e)" and "env_metrics e = None"
    and "env_events e = map (event_of e) es" and "\<forall>x \<in> set es. event_ok (listing e) x"
    and "int (length (env_frames e) + length es) \<le> MAX_SIZE"
  shows "\<exists>fs gs fr e'. build_event_frames time True rnd e = (Inr (int (length fs), int (length es)), e') \<and>
    e' = e\<lparr>env_framer := fr, env_events := [], env_frames := env_frames e @ fs\<rparr> \<and>
    frm_mtu fr = frm_mtu (env_framer e) \<and> framer_ok fr a \<and> header_ok a (frame_type_value EVENT) s \<and>
    list_all2 (events.packed (listing e) fr a s) fs gs \<and> concat gs = es"
proof -
  let ?e0 = "e\<lparr>env_events := []\<rparr>"
  have pre: "15 + (if frm_use_crc (env_framer ?e0) then 4 else 0) < frm_mtu (env_framer ?e0)" "framer_ok (env_framer ?e0) a"
    using assms(2,6) by simp_all
  obtain f fr where f: "new_channel_frame ''event'' (Some time) ?e0 = (Inr f, ?e0\<lparr>env_framer := fr\<rparr>)" "framer_ok fr a" "stamped fr EVENT s"
      "header_ok a (frame_type_value EVENT) s" "frm_mtu fr = frm_mtu (env_framer e)"
      "events.staged (listing e) (env_frames e) a s (?e0\<lparr>env_framer := fr\<rparr>) 0 f []"
    by (rule events.staged_begin [OF pre(2) assms(3-5) pre(1), of "listing e"]) simp
  let ?e1 = "?e0\<lparr>env_framer := fr\<rparr>"
  have same: "listing ?e1 = listing e" "env_lists ?e1 = env_lists e" "event_of ?e1 = event_of e"
    by (simp_all add: listing_def env_lists_def event_of_def chan_at_def)
  have "\<exists>f' n' fs. event_loop True rnd (map (event_of ?e1) es) f (int 0) ?e1 =
      (Inr (f', int n'), ?e1\<lparr>env_frames := env_frames ?e1 @ fs\<rparr>) \<and>
    events.staged (listing ?e1) (env_frames e) a s (?e1\<lparr>env_frames := env_frames ?e1 @ fs\<rparr>) n' f' ([] @ es)"
    using assms f by (intro event_loop_run) (simp_all add: same)
  then obtain f' n' fs where run: "event_loop True rnd (env_events e) f 0 ?e1 = (Inr (f', int n'), ?e1\<lparr>env_frames := env_frames e @ fs\<rparr>)"
      "events.staged (listing e) (env_frames e) a s (?e1\<lparr>env_frames := env_frames e @ fs\<rparr>) n' f' es"
    unfolding same assms(8) by auto
  let ?e2 = "?e1\<lparr>env_frames := env_frames e @ fs\<rparr>"
  from events.staged_finish [OF run(2) _ assms(10), of rnd] assms(7) obtain fs' gs where
    fin: "finish_frames True rnd f' (int n') (int (length es)) ?e2 = (Inr (int (length fs'), int (length es)), ?e2\<lparr>env_frames := env_frames e @ fs'\<rparr>)"
      "list_all2 (events.packed (listing e) fr a s) fs' gs" "concat gs = es"
    by auto
  have len: "length (env_events e) = length es" using assms(8) by simp
  have "build_event_frames time True rnd e = (Inr (int (length fs'), int (length es)), ?e2\<lparr>env_frames := env_frames e @ fs'\<rparr>)"
    using f(1) run(1) fin(1) len by (simp add: build_event_frames_def)
  with f(2,4,5) fin(2,3) show ?thesis
    by (intro exI [of _ fs'] exI [of _ gs] exI [of _ fr] exI [of _ "?e2\<lparr>env_frames := env_frames e @ fs'\<rparr>"]) simp
qed

section \<open>A dispatch\<close>

text \<open>The numbers that a dispatch adds up for the log; a missing one is the float zero.\<close>

definition log_ok :: "channel_env \<Rightarrow> bool" where
  "log_ok e \<longleftrightarrow> (\<exists>x. log_get ''last_log'' e = VFloat x) \<and>
     (\<forall>k \<in> {''emits'', ''events'', ''frames''}. (\<exists>n. log_get k e = VInt n) \<or> (\<exists>x. log_get k e = VFloat x))"

lemma log_get_set [simp]: "log_get k (e\<lparr>env_log := dict_set j v (env_log e)\<rparr>) = (if k = j then v else log_get k e)"
  by (simp add: log_get_def)

lemma log_add_run:
  assumes "log_ok e" and "k \<in> {''emits'', ''events'', ''frames''}" and "0 \<le> n" and "n < 2 ^ 53"
  obtains l where "log_add k n e = (Inr (), e\<lparr>env_log := l\<rparr>)" and "log_ok (e\<lparr>env_log := l\<rparr>)"
proof -
  obtain v where v: "num_add (log_get k e) (VInt n) = Inr v" "(\<exists>n. v = VInt n) \<or> (\<exists>x. v = VFloat x)"
    using assms(1,2) float_of_int_small [OF assms(3,4)] unfolding log_ok_def by (fastforce simp del: insert_iff)
  have "log_ok (e\<lparr>env_log := dict_set k v (env_log e)\<rparr>)"
    using assms(1,2) v(2) unfolding log_ok_def log_get_set by auto
  moreover have "log_add k n e = (Inr (), e\<lparr>env_log := dict_set k v (env_log e)\<rparr>)" using v(1) by (simp add: log_add_def)
  ultimately show thesis using that by blast
qed

lemma log_dispatch_run:
  assumes "log_ok e"
  obtains l where "log_dispatch time e = (Inr (), e\<lparr>env_log := l\<rparr>)" and "log_ok (e\<lparr>env_log := l\<rparr>)"
proof -
  obtain x where x: "log_get ''last_log'' e = VFloat x" using assms by (auto simp: log_ok_def)
  show thesis
  proof (cases "fle LOG_PERIOD (fsub time x)")
    case True
    let ?l = "dict_set ''last_log'' (VFloat time) (dict_set ''frames'' (VInt 0) (dict_set ''events'' (VInt 0) (dict_set ''emits'' (VInt 0) (env_log e))))"
    have "log_ok (e\<lparr>env_log := ?l\<rparr>)" by (simp add: log_ok_def log_get_def)
    moreover have "log_dispatch time e = (Inr (), e\<lparr>env_log := ?l\<rparr>)" using True x by (simp add: log_dispatch_def log_set_def)
    ultimately show thesis using that by blast
  next
    case False
    with x assms show thesis by (intro that [of "env_log e"]) (simp_all add: log_dispatch_def)
  qed
qed

lemma dispatch_log_run:
  assumes "log_ok e" and "0 \<le> m \<and> m < 2 ^ 53" and "0 \<le> n \<and> n < 2 ^ 53" and "0 \<le> k \<and> k < 2 ^ 53"
  obtains l where "bindp (log_add ''emits'' m) (\<lambda>_. bindp (log_add ''events'' n) (\<lambda>_. bindp (log_add ''frames'' k) (\<lambda>_.
      bindp (if should_log then log_dispatch time else ret ()) (\<lambda>_. ret k)))) e = (Inr k, e\<lparr>env_log := l\<rparr>)"
    and "log_ok (e\<lparr>env_log := l\<rparr>)"
proof -
  obtain l1 where l1: "log_add ''emits'' m e = (Inr (), e\<lparr>env_log := l1\<rparr>)" "log_ok (e\<lparr>env_log := l1\<rparr>)"
    using log_add_run [OF assms(1), of "''emits''" m] assms(2) by auto
  obtain l2 where l2: "log_add ''events'' n (e\<lparr>env_log := l1\<rparr>) = (Inr (), e\<lparr>env_log := l2\<rparr>)" "log_ok (e\<lparr>env_log := l2\<rparr>)"
    using log_add_run [OF l1(2), of "''events''" n] assms(3) by auto
  obtain l3 where l3: "log_add ''frames'' k (e\<lparr>env_log := l2\<rparr>) = (Inr (), e\<lparr>env_log := l3\<rparr>)" "log_ok (e\<lparr>env_log := l3\<rparr>)"
    using log_add_run [OF l2(2), of "''frames''" k] assms(4) by auto
  obtain l4 where "(if should_log then log_dispatch time else ret ()) (e\<lparr>env_log := l3\<rparr>) = (Inr (), e\<lparr>env_log := l4\<rparr>)"
      "log_ok (e\<lparr>env_log := l4\<rparr>)"
  proof (cases should_log)
    case True
    then show thesis using that log_dispatch_run [OF l3(2), of time] by auto
  qed (use that l3(2) in auto)
  with l1(1) l2(1) l3(1) show thesis by (intro that [of l4]) (simp_all split del: if_split)
qed

text \<open>
  An environment that can dispatch: without metrics, with a framer for application \<open>a\<close> whose limit holds
  at least one element.
\<close>

definition dispatch_ready :: "int \<Rightarrow> channel_env \<Rightarrow> bool" where
  "dispatch_ready a e \<longleftrightarrow> env_lists e \<and> env_metrics e = None \<and> env_write_crc e \<and> framer_ok (env_framer e) a \<and>
     53 \<le> frm_mtu (env_framer e) \<and> log_ok e"

abbreviation due_values :: "pyfloat \<Rightarrow> channel_env \<Rightarrow> (nat \<times> pyval) list" where
  "due_values time e \<equiv> due_at time e [0..<length (env_channels e)]"

text \<open>The queued frames \<open>fs\<close> carry the elements in \<open>gs\<close>, each frame some of them.\<close>

abbreviation carrying :: "type_primitive option \<Rightarrow> channel_registry \<Rightarrow> int \<Rightarrow> frame_type \<Rightarrow> int \<Rightarrow> int \<Rightarrow>
    ('e list \<Rightarrow> parsed_body) \<Rightarrow> frame list \<Rightarrow> 'e list list \<Rightarrow> bool" where
  "carrying eid reg mtu t a s result \<equiv> list_all2 (\<lambda>f g. g \<noteq> [] \<and> int (length (frame_bytes f)) \<le> mtu \<and>
     decodes_as eid reg (frame_of t a s f (length g)) (result g) f)"

lemma event_ok_emitted: "event_ok (listing e) x \<Longrightarrow> event_ok (emitted time e) x"
  by (auto simp: event_ok_def registered_def split: prod.splits)

lemma emitted_names: "i < length (env_channels e) \<Longrightarrow> fst (emitted time e ! i) = fst (listing e ! i)"
  by simp

text \<open>The two halves of a dispatch, under the lock.\<close>

lemma dispatch_frames_run:
  assumes "dispatch_ready a e" and "time_to_int time 1000 = Inr s" and "0 \<le> s" and "s < 2 ^ 64"
    and "\<forall>x \<in> set (due_values time e). data_ok (emitted time e) x"
    and "env_events e = map (event_of e) es" and "\<forall>x \<in> set es. event_ok (listing e) x"
    and "int (length (env_frames e) + length (due_values time e) + length es) \<le> MAX_SIZE"
  shows "\<exists>fs hs gs ks fr objs e1 e2. dispatch_data time rnd e = (Inr (int (length fs), int (length (due_values time e))), e1) \<and>
    dispatch_events time rnd e1 = (Inr (int (length hs), int (length es)), e2) \<and>
    e2 = e\<lparr>env_framer := fr, env_objects := objs, env_events := [], env_frames := env_frames e @ fs @ hs\<rparr> \<and>
    dispatch_ready a e2 \<and> listing e2 = emitted time e \<and> frm_mtu fr = frm_mtu (env_framer e) \<and>
    header_ok a (frame_type_value DATA) s \<and> header_ok a (frame_type_value EVENT) s \<and>
    (\<exists>fr'. frm_mtu fr' = frm_mtu (env_framer e) \<and> list_all2 (data.packed (listing e2) fr' a s) fs gs) \<and> concat gs = due_values time e \<and>
    list_all2 (events.packed (listing e2) fr a s) hs ks \<and> concat ks = es"
proof -
  note ready = assms(1) [unfolded dispatch_ready_def]
  then have base: "env_lists e" "framer_ok (env_framer e) a" "env_metrics e = None" by simp_all
  have size: "int (length (env_frames e) + length (due_values time e)) \<le> MAX_SIZE" "29 \<le> frm_mtu (env_framer e)" using assms(8) ready by simp_all
  obtain fs gs fr e1 where d: "build_data_frames time True rnd e = (Inr (int (length fs), int (length (due_values time e))), e1)"
      "e1 = e\<lparr>env_framer := fr, env_objects := env_objects e1, env_frames := env_frames e @ fs\<rparr>"
      "frm_mtu fr = frm_mtu (env_framer e)" "framer_ok fr a" "header_ok a (frame_type_value DATA) s"
      "list_all2 (data.packed (emitted time e) fr a s) fs gs" "concat gs = due_values time e" "env_lists e1" "listing e1 = emitted time e"
    using build_data_run [OF base(1,2) assms(2-4) size(2) base(3) assms(5) size(1), of rnd] by (elim exE conjE)
  have e1: "env_metrics e1 = None" "env_framer e1 = fr" "env_events e1 = env_events e" "env_frames e1 = env_frames e @ fs"
      "env_write_crc e1" "env_channels e1 = env_channels e" "env_log e1 = env_log e"
    using ready by (subst d(2), simp)+
  have "event_of e1 x = event_of e x" if "event_ok (listing e) x" for x
    using that by (cases x) (simp add: event_of_def d(9) event_ok_def registered_def)
  then have ev: "env_events e1 = map (event_of e1) es" "\<forall>x \<in> set es. event_ok (listing e1) x"
    unfolding e1(3) assms(6) d(9) using assms(7) event_ok_emitted by simp_all
  have "length fs \<le> length (due_values time e)" using nonempty_count [OF d(6)] d(7) by (simp add: data.packed_def)
  then have sz: "int (length (env_frames e1) + length es) \<le> MAX_SIZE" "framer_ok (env_framer e1) a" "53 \<le> frm_mtu (env_framer e1)"
    using assms(8) e1(2,4) d(3,4) ready by simp_all
  obtain hs ks fr2 e2 where b: "build_event_frames time True rnd e1 = (Inr (int (length hs), int (length es)), e2)"
      "e2 = e1\<lparr>env_framer := fr2, env_events := [], env_frames := env_frames e1 @ hs\<rparr>"
      "frm_mtu fr2 = frm_mtu (env_framer e1)" "framer_ok fr2 a" "header_ok a (frame_type_value EVENT) s"
      "list_all2 (events.packed (listing e1) fr2 a s) hs ks" "concat ks = es"
    using build_event_run [OF d(8) sz(2) assms(2-4) sz(3) e1(1) ev sz(1), of rnd] by (elim exE conjE)
  have same: "listing e2 = listing e1" "env_lists e2 = env_lists e1" "log_ok e2 = log_ok e" "env_metrics e2 = None" "env_write_crc e2" "env_framer e2 = fr2"
    using e1 by (simp_all add: b(2) listing_def env_lists_def chan_at_def log_ok_def log_get_def)
  have "e2 = e\<lparr>env_framer := fr2, env_objects := env_objects e1, env_events := [], env_frames := env_frames e @ fs @ hs\<rparr>"
    unfolding b(2) e1(4) by (subst d(2)) simp
  moreover have "dispatch_ready a e2" using ready same d(8) b(3,4) sz(3) by (simp add: dispatch_ready_def)
  moreover have "dispatch_data time rnd e = (Inr (int (length fs), int (length (due_values time e))), e1)"
    using d(1) ready e1(1) by (simp add: dispatch_data_def metric_add_def metric_id_def)
  moreover have "dispatch_events time rnd e1 = (Inr (int (length hs), int (length es)), e2)"
    using b(1) e1(5) same(4) by (simp add: dispatch_events_def metric_add_def metric_id_def)
  moreover have "frm_mtu fr2 = frm_mtu (env_framer e)" using b(3) e1(2) d(3) by simp
  ultimately show ?thesis using d(3,5-7,9) b(5-7) same(1) by metis
qed

lemma dispatch_run:
  assumes "dispatch_ready a e" and "time_to_int time 1000 = Inr s" and "0 \<le> s" and "s < 2 ^ 64"
    and "\<forall>x \<in> set (due_values time e). data_ok (emitted time e) x"
    and "env_events e = map (event_of e) es" and "\<forall>x \<in> set es. event_ok (listing e) x"
    and "int (length (env_frames e) + length (due_values time e) + length es) \<le> MAX_SIZE" and "expected_ok eid a"
  shows "\<exists>fs hs gs ks e'. dispatch time should_log rnd e = (Inr (int (length (fs @ hs))), e') \<and>
    env_frames e' = env_frames e @ fs @ hs \<and> env_events e' = [] \<and> dispatch_ready a e' \<and> listing e' = emitted time e \<and>
    frm_mtu (env_framer e') = frm_mtu (env_framer e) \<and> concat gs = due_values time e \<and> concat ks = es \<and>
    carrying eid (deref e') (frm_mtu (env_framer e)) DATA a s (data_result (listing e')) fs gs \<and>
    carrying eid (deref e') (frm_mtu (env_framer e)) EVENT a s (\<lambda>g. EventBody (map (event_value (listing e')) g)) hs ks"
proof -
  let ?e0 = "e\<lparr>env_lock := env_lock e + 1\<rparr>"
  have same0: "listing ?e0 = listing e" "due_values time ?e0 = due_values time e" "emitted time ?e0 = emitted time e" "event_of ?e0 = event_of e"
      "dispatch_ready a ?e0 = dispatch_ready a e"
    by (simp_all add: listing_def emitted_def due_at_def event_of_def dispatch_ready_def env_lists_def log_ok_def log_get_def chan_at_def)
  obtain fs hs gs ks fr fr' objs e1 e2 where r: "dispatch_data time rnd ?e0 = (Inr (int (length fs), int (length (due_values time e))), e1)"
      "dispatch_events time rnd e1 = (Inr (int (length hs), int (length es)), e2)"
      "e2 = ?e0\<lparr>env_framer := fr, env_objects := objs, env_events := [], env_frames := env_frames e @ fs @ hs\<rparr>"
      "dispatch_ready a e2" "listing e2 = emitted time e" "frm_mtu fr = frm_mtu (env_framer e)"
      "header_ok a (frame_type_value DATA) s" "header_ok a (frame_type_value EVENT) s" "frm_mtu fr' = frm_mtu (env_framer e)"
      "list_all2 (data.packed (listing e2) fr' a s) fs gs" "concat gs = due_values time e"
      "list_all2 (events.packed (listing e2) fr a s) hs ks" "concat ks = es"
    using dispatch_frames_run [of a ?e0 time s es rnd, unfolded same0, OF assms(1-5)] assms(6-8) by auto
  let ?e3 = "e2\<lparr>env_lock := env_lock e\<rparr>"
  have len: "length fs \<le> 256" "length hs \<le> 256" "length (due_values time e) \<le> 256" "length es \<le> 256"
    using nonempty_count [OF r(10)] nonempty_count [OF r(12)] r(11,13) assms(8) by (simp_all add: MAX_SIZE_def data.packed_def events.packed_def)
  have log3: "log_ok ?e3" using r(4) by (simp add: dispatch_ready_def log_ok_def log_get_def)
  have small: "0 \<le> int (length (due_values time e)) \<and> int (length (due_values time e)) < 2 ^ 53"
      "0 \<le> int (length es) \<and> int (length es) < 2 ^ 53" "0 \<le> int (length fs) + int (length hs) \<and> int (length fs) + int (length hs) < 2 ^ 53"
    using len by auto
  obtain l4 where l4: "bindp (log_add ''emits'' (int (length (due_values time e)))) (\<lambda>_. bindp (log_add ''events'' (int (length es))) (\<lambda>_.
      bindp (log_add ''frames'' (int (length fs) + int (length hs))) (\<lambda>_. bindp (if should_log then log_dispatch time else ret ())
        (\<lambda>_. ret (int (length fs) + int (length hs)))))) ?e3 = (Inr (int (length fs) + int (length hs)), ?e3\<lparr>env_log := l4\<rparr>)"
      "log_ok (?e3\<lparr>env_log := l4\<rparr>)"
    by (rule dispatch_log_run [where should_log = should_log and time = time, OF log3 small]) blast
  let ?e' = "?e3\<lparr>env_log := l4\<rparr>"
  have e2: "env_metrics e2 = None" "env_lock e2 = env_lock e + 1" using r(4) by (simp_all add: dispatch_ready_def) (simp add: r(3))
  have run: "dispatch time should_log rnd e = (Inr (int (length (fs @ hs))), ?e')"
    using r(1,2) l4(1) e2 by (simp add: dispatch_def with_lock_def metric_add_def metric_id_def Let_def)
  have "chan_at ?e' = chan_at e2" by (rule ext) (simp add: chan_at_def)
  then have same: "listing ?e' = listing e2" "deref ?e' = deref e2" "env_lists ?e' = env_lists e2"
    by (simp_all add: listing_def deref_def env_lists_def)
  have ready: "dispatch_ready a ?e'" using r(4) l4(2) same(3) by (simp add: dispatch_ready_def)
  have reg: "reg_rel (deref e2) (listing e2)" using r(4) by (intro deref_listing) (simp add: dispatch_ready_def)
  have few: "length (concat gs) \<le> 256" "length (concat ks) \<le> 256" using len r(11,13) by simp_all
  have "carrying eid (deref e2) (frm_mtu (env_framer e)) DATA a s (data_result (listing e2)) fs gs"
    using data.packed_arrive [OF r(10) few(1) _ r(7) reg assms(9)] r(9) by simp
  moreover have "carrying eid (deref e2) (frm_mtu (env_framer e)) EVENT a s (\<lambda>g. EventBody (map (event_value (listing e2)) g)) hs ks"
    using events.packed_arrive [OF r(12) few(2) _ r(8) reg assms(9)] r(6) by simp
  moreover have "env_frames ?e' = env_frames e @ fs @ hs" "env_events ?e' = []" "frm_mtu (env_framer ?e') = frm_mtu (env_framer e)"
    using r(6) by (simp_all add: r(3))
  ultimately show ?thesis using run ready r(5,11,13) unfolding same [symmetric] by blast
qed

lemma new_env_ready:
  assumes "distinct (map ch_name cs)" and "53 \<le> mtu"
  shows "\<exists>e. new_channel_env mtu cs None init_time None rnd use_crc = Inr e \<and> dispatch_ready (rnd mod 2 ^ 16) e \<and>
    listing e = map (\<lambda>c. (ch_name c, c)) cs \<and> frm_mtu (env_framer e) = mtu \<and> env_frames e = [] \<and> env_events e = []"
proof -
  have "log_ok e" if "env_log e = []" for e using that by (simp add: log_ok_def log_get_def)
  then show ?thesis using new_env_lists [OF assms(1), of mtu init_time rnd use_crc] assms(2) unfolding dispatch_ready_def by metis
qed

end
