(* ===== verification/Telemetry_Delivery.thy ===== *)
theory Telemetry_Delivery
  imports Dispatch Telemetry_Client
begin

text \<open>
  The way of telemetry through the whole program: an environment dispatches, its stream writer sends
  the queued frames, and a client of the other side of the connection decodes what it receives.
\<close>

section \<open>What frames carry\<close>

definition body_values :: "parsed_body \<Rightarrow> (int \<times> channel \<times> pyval) list" where
  "body_values body = (case body of DataBody vs \<Rightarrow> vs | _ \<Rightarrow> [])"

definition body_events :: "parsed_body \<Rightarrow> parsed_event list" where
  "body_events body = (case body of EventBody vs \<Rightarrow> vs | _ \<Rightarrow> [])"

definition carried :: "(parsed_body \<Rightarrow> 'a list) \<Rightarrow> parsed_frame list \<Rightarrow> 'a list" where
  "carried content ps = concat (map (content \<circ> pf_body) ps)"

definition sent_by :: "int \<Rightarrow> int \<Rightarrow> parsed_frame \<Rightarrow> bool" where
  "sent_by a s p \<longleftrightarrow> fh_app_id (pf_header p) = a \<and> fh_timestamp (pf_header p) = s"

lemma carried_append [simp]: "carried content (ps @ qs) = carried content ps @ carried content qs"
  by (simp add: carried_def)

lemma body_contents [simp]:
  "body_values (data_result xs g) = map (\<lambda>(i, v). (int i, snd (xs ! i), wire (tp_type (snd (xs ! i))) v)) g"
  "body_events (data_result xs g) = []" "body_values (EventBody vs) = []" "body_events (EventBody vs) = vs"
  by (simp_all add: body_values_def body_events_def data_result_def)

text \<open>The frames of one dispatch as the client decodes them.\<close>

lemma carrying_decodes:
  assumes "carrying eid reg mtu t a s result fs gs"
  shows "\<exists>ps. list_all2 (decodes_to reg eid) (map frame_bytes fs) (map Some ps) \<and> map pf_body ps = map result gs \<and>
    (\<forall>p \<in> set ps. sent_by a s p) \<and> (\<forall>f \<in> set fs. frame_done f (frame_bytes f) \<and> int (length (frame_bytes f)) \<le> mtu)"
  using assms
proof (induction rule: list_all2_induct)
  case Nil
  show ?case by (intro exI [of _ "[]"]) simp
next
  case (Cons f fs g gs)
  then obtain ps where ps: "list_all2 (decodes_to reg eid) (map frame_bytes fs) (map Some ps)" "map pf_body ps = map result gs"
      "\<forall>p \<in> set ps. sent_by a s p" "\<forall>f \<in> set fs. frame_done f (frame_bytes f) \<and> int (length (frame_bytes f)) \<le> mtu"
    by blast
  obtain ft where f: "raw f = Inr (frame_bytes f, int (length (frame_bytes f)))" "int (length (frame_bytes f)) \<le> mtu"
      "decode_frame (frame_bytes f) (int (length (frame_bytes f))) eid reg =
        (Inr (Some \<lparr>pf_header = frame_of t a s f (length g), pf_body = result g, pf_footer = ft\<rparr>), reg)"
    using Cons.hyps(1) by (auto simp: decodes_as_def)
  let ?p = "\<lparr>pf_header = frame_of t a s f (length g), pf_body = result g, pf_footer = ft\<rparr>"
  have "decodes_to reg eid (frame_bytes f) (Some ?p)" "sent_by a s ?p" "frame_done f (frame_bytes f)"
    using f by (simp_all add: decodes_to_def frame_done_def sent_by_def frame_of_def)
  with ps f(2) show ?case by (intro exI [of _ "?p # ps"]) simp
qed

lemma delivered_Some [simp]: "delivered (map Some ps) = ps"
  by (induction ps) (simp_all add: delivered_def)

lemma carried_bodies: "map pf_body ps = map result gs \<Longrightarrow> carried content ps = concat (map (content \<circ> result) gs)"
  unfolding carried_def by (metis map_map)

lemma room_less: "room n q \<Longrightarrow> m \<le> n \<Longrightarrow> room m q"
  by (auto simp: room_def)

text \<open>The frames that a dispatch queues, decoded one after the other.\<close>

abbreviation shown_value :: "channel_env \<Rightarrow> nat \<times> pyval \<Rightarrow> int \<times> channel \<times> pyval" where
  "shown_value e \<equiv> \<lambda>(i, v). (int i, snd (listing e ! i), wire (tp_type (snd (listing e ! i))) v)"

lemma dispatched_frames:
  assumes "dispatch_ready a e" and "env_frames e = []" and "time_to_int time 1000 = Inr s" and "0 \<le> s" and "s < 2 ^ 64"
    and "\<forall>x \<in> set (due_values time e). data_ok (emitted time e) x"
    and "env_events e = map (event_of e) es" and "\<forall>x \<in> set es. event_ok (listing e) x"
    and "int (length (due_values time e) + length es) \<le> MAX_SIZE" and "expected_ok eid a"
  shows "\<exists>e' ps. dispatch time should_log rnd e = (Inr (int (length (env_frames e'))), e') \<and> dispatch_ready a e' \<and> env_events e' = [] \<and>
    length (env_frames e') \<le> length (due_values time e) + length es \<and>
    list_all2 (decodes_to (deref e') eid) (map frame_bytes (env_frames e')) (map Some ps) \<and>
    (\<forall>f \<in> set (env_frames e'). frame_done f (frame_bytes f) \<and> int (length (frame_bytes f)) \<le> frm_mtu (env_framer e)) \<and>
    (\<forall>p \<in> set ps. sent_by a s p) \<and> carried body_values ps = map (shown_value e') (due_values time e) \<and>
    carried body_events ps = map (event_value (listing e')) es"
proof -
  have size: "int (length (env_frames e) + length (due_values time e) + length es) \<le> MAX_SIZE" using assms(2,9) by simp
  obtain fs hs gs ks e' where d: "dispatch time should_log rnd e = (Inr (int (length (fs @ hs))), e')" "env_frames e' = fs @ hs"
      "env_events e' = []" "dispatch_ready a e'" "concat gs = due_values time e" "concat ks = es"
      "carrying eid (deref e') (frm_mtu (env_framer e)) DATA a s (data_result (listing e')) fs gs"
      "carrying eid (deref e') (frm_mtu (env_framer e)) EVENT a s (\<lambda>g. EventBody (map (event_value (listing e')) g)) hs ks"
    using dispatch_run [OF assms(1,3-8) size assms(10), of should_log rnd] assms(2) by auto
  obtain ps qs where p: "list_all2 (decodes_to (deref e') eid) (map frame_bytes (fs @ hs)) (map Some (ps @ qs))"
      "map pf_body ps = map (data_result (listing e')) gs" "map pf_body qs = map (\<lambda>g. EventBody (map (event_value (listing e')) g)) ks"
      "\<forall>p \<in> set (ps @ qs). sent_by a s p"
      "\<forall>f \<in> set (fs @ hs). frame_done f (frame_bytes f) \<and> int (length (frame_bytes f)) \<le> frm_mtu (env_framer e)"
    using carrying_decodes [OF d(7)] carrying_decodes [OF d(8)] by (fastforce intro: list_all2_appendI)
  have "length (fs @ hs) \<le> length (due_values time e) + length es"
    using nonempty_count [OF d(7)] nonempty_count [OF d(8)] d(5,6) by simp
  moreover have "carried body_values (ps @ qs) = map (shown_value e') (due_values time e)"
      "carried body_events (ps @ qs) = map (event_value (listing e')) es"
    unfolding d(5,6) [symmetric] by (simp_all add: carried_bodies [OF p(2)] carried_bodies [OF p(3)] comp_def map_concat)
  ultimately show ?thesis using d(1-4) p(1,4,5)
    by (intro exI [of _ e'] exI [of _ "ps @ qs"]) (simp del: list_all2_append carried_append)
qed

section \<open>Properties\<close>

text \<open>
  Property C1: telemetry reaches its receiver. An environment dispatches its due channels and its queued
  change events; a stream writer takes the frames from the queue and sends them to a connection;
  the client at the other end gets the bytes in pieces of any size, with timeouts in between. The
  client then holds exactly the due channels with their values and exactly the events, each in
  order, in frames with the application's identifier and the time of the dispatch, and the environment
  can dispatch again.
\<close>

theorem telemetry_delivered:
  assumes "dispatch_ready a e" and "env_frames e = []" and "time_to_int time 1000 = Inr s" and "0 \<le> s" and "s < 2 ^ 64"
    and "\<forall>x \<in> set (due_values time e). data_ok (emitted time e) x"
    and "env_events e = map (event_of e) es" and "\<forall>x \<in> set es. event_ok (listing e) x"
    and "int (length (due_values time e) + length es) \<le> MAX_SIZE" and "expected_ok eid a"
    and "file_spec ok written wr fls" and "writer_ready w"
    and "\<forall>q \<in> snd ` set (w_queues w). room (length (due_values time e) + length es) (w_queue_objs w q)"
    and "(i, r) \<in> set (w_streams w)" and "ok (w_files w r)" and "written (w_files w r) = []"
    and "frm_mtu (env_framer e) \<le> mtu" and "frm_mtu (env_framer e) < 2 ^ 32" and "\<forall>k. \<not> stopping k"
  shows "\<exists>e' w'. dispatch time should_log rnd e = (Inr (int (length (env_frames e'))), e') \<and>
    dispatch_ready a e' \<and> env_events e' = [] \<and>
    queue_run (ret ()) (\<lambda>f. frame_handle wr fls (Some f)) (map Some (env_frames e') @ None # rest) w = (Inr rest, w') \<and>
    (\<forall>pieces final later. (\<forall>p \<in> set pieces. p \<noteq> SocketError \<and> p \<noteq> Received []) \<and> received pieces = written (w_files w' r) \<and>
      (final = Received [] \<or> final = SocketError) \<longrightarrow>
      (\<exists>c ps. socket_run stopping True (pieces @ final # later) (new_client (deref e') eid mtu) = (Inr (), c) \<and>
        tc_frames c = map Some ps \<and> (\<forall>p \<in> set ps. sent_by a s p) \<and>
        carried body_values ps = map (shown_value e') (due_values time e) \<and>
        carried body_events ps = map (event_value (listing e')) es))"
proof -
  obtain e' ps where d: "dispatch time should_log rnd e = (Inr (int (length (env_frames e'))), e')" "dispatch_ready a e'" "env_events e' = []"
      "length (env_frames e') \<le> length (due_values time e) + length es"
      "list_all2 (decodes_to (deref e') eid) (map frame_bytes (env_frames e')) (map Some ps)"
      "\<forall>f \<in> set (env_frames e'). frame_done f (frame_bytes f) \<and> int (length (frame_bytes f)) \<le> frm_mtu (env_framer e)"
      "\<forall>p \<in> set ps. sent_by a s p" "carried body_values ps = map (shown_value e') (due_values time e)"
      "carried body_events ps = map (event_value (listing e')) es"
    using dispatched_frames [OF assms(1-10), of should_log rnd] by blast
  let ?bss = "map frame_bytes (env_frames e')"
  have small: "\<forall>bs \<in> set ?bss. length bs < 2 ^ 32 \<and> int (length bs) \<le> mtu"
  proof
    fix bs assume "bs \<in> set ?bss"
    then have "int (length bs) \<le> frm_mtu (env_framer e)" using d(6) by auto
    then show "length bs < 2 ^ 32 \<and> int (length bs) \<le> mtu" using assms(17,18) by simp
  qed
  have fin: "list_all2 (\<lambda>f bs. frame_done f bs \<and> length bs < 2 ^ 32) (env_frames e') ?bss"
    unfolding list.rel_map(2) using d(6) small by (intro list.rel_refl_strong) auto
  have "\<forall>q \<in> snd ` set (w_queues w). room (length (env_frames e')) (w_queue_objs w q)" using assms(13) d(4) room_less by blast
  then obtain w' where w': "for_each (\<lambda>f. frame_handle wr fls (Some f)) (env_frames e') w = (Inr (), w')"
      "\<forall>(i, r) \<in> set (w_streams w). ok (w_files w r) \<longrightarrow> (i, r) \<in> set (w_streams w') \<and>
        written (w_files w' r) = written (w_files w r) @ concat (map size_framed ?bss)"
    by (rule frames_handled [OF assms(11,12) fin])
  then have out: "written (w_files w' r) = concat (map size_framed ?bss)" using assms(14-16) by fastforce
  have "0 \<le> mtu" using assms(1,17) by (simp add: dispatch_ready_def)
  note arrive = socket_frames_received [OF assms(19) _ _ this small d(5), unfolded delivered_Some, folded out]
  have run: "queue_run (ret ()) (\<lambda>f. frame_handle wr fls (Some f)) (map Some (env_frames e') @ None # rest) w = (Inr rest, w')"
    using w'(1) by (simp add: queue_run_until_stop)
  have "\<exists>c ps. socket_run stopping True (pieces @ final # later) (new_client (deref e') eid mtu) = (Inr (), c) \<and>
      tc_frames c = map Some ps \<and> (\<forall>p \<in> set ps. sent_by a s p) \<and>
      carried body_values ps = map (shown_value e') (due_values time e) \<and> carried body_events ps = map (event_value (listing e')) es"
    if "(\<forall>p \<in> set pieces. p \<noteq> SocketError \<and> p \<noteq> Received []) \<and> received pieces = written (w_files w' r) \<and>
      (final = Received [] \<or> final = SocketError)" for pieces final later
    using arrive [of pieces final later, OF that [THEN conjunct1] that [THEN conjunct2, THEN conjunct1] that [THEN conjunct2, THEN conjunct2]] d(7-9) by blast
  with d(1-3) run show ?thesis by blast
qed

text \<open>One channel that is due and has changed, sent byte by byte.\<close>

definition sample_channel :: channel where
  "sample_channel = new_channel ''level'' UINT8 0 True True False"

definition sample_change :: event_element where
  "sample_change = (0, (VInt 0, 0), (VInt 9, 0))"

lemma sample_facts: "tp_type sample_channel = UINT8" "tp_data sample_channel = VInt 0" "\<not> ch_is_stream sample_channel" "is_due 0 sample_channel"
    "ch_name sample_channel = ''level''" "event_ok [(''level'', sample_channel)] sample_change"
proof -
  show c: "tp_type sample_channel = UINT8" "tp_data sample_channel = VInt 0" "\<not> ch_is_stream sample_channel" "ch_name sample_channel = ''level''"
    by (simp_all add: sample_channel_def new_channel_def new_type_primitive_def type_primitive.defs channel.defs default_val_def int_primitive_def)
  have "fadd 0 0 = 0"
    by (simp add: fadd_def fl_zero fval_zero fnan_def finf_def inf_mag_def binary64_def fmag_def fneg_bit_def enc_mag_def fbits_def)
  moreover have "fle 0 0" by code_simp
  moreover have "ch_rate sample_channel = 0" "ch_last_emitted sample_channel = 0"
    by (simp_all add: sample_channel_def new_channel_def type_primitive.defs channel.defs)
  ultimately show "is_due 0 sample_channel" by (simp add: is_due_def)
  have "timed_ok UINT8 (VInt 0, 0)" "timed_ok UINT8 (VInt 9, 0)"
    unfolding timed_ok_def fst_conv snd_conv time_to_int_zero by code_simp+
  then show "event_ok [(''level'', sample_channel)] sample_change" using c by (simp add: sample_change_def event_ok_def registered_def)
qed

lemma byte_by_byte: "received (map (\<lambda>b. Received [b]) bs) = bs"
  by (induction bs) simp_all

theorem telemetry_delivered_witness:
  "\<exists>e e' w' c ps. new_channel_env 100 [sample_channel] None None None 77 True = Inr e \<and>
    dispatch 0 True 5 (e\<lparr>env_events := [(''level'', (VInt 0, 0), (VInt 9, 0))]\<rparr>) = (Inr (int (length (env_frames e'))), e') \<and>
    queue_run (ret ()) (\<lambda>f. frame_handle memory_write (\<lambda>s. (True, s)) (Some f)) (map Some (env_frames e') @ None # []) sample_writer = (Inr [], w') \<and>
    socket_run (\<lambda>_. False) True (map (\<lambda>b. Received [b]) (w_files w' 0) @ SocketError # []) (new_client (deref e') None 100) = (Inr (), c) \<and>
    tc_frames c = map Some ps \<and> carried body_values ps = map (shown_value e') [(0, VInt 0)] \<and>
    carried body_events ps = [event_value (listing e') (0, (VInt 0, 0), (VInt 9, 0))]"
proof -
  obtain e where e: "new_channel_env 100 [sample_channel] None None None 77 True = Inr e" "dispatch_ready 77 e"
      "listing e = [(''level'', sample_channel)]" "frm_mtu (env_framer e) = 100" "env_frames e = []"
    using new_env_ready [of "[sample_channel]" 100 None 77 True] sample_facts(5) by auto
  let ?e = "e\<lparr>env_events := [(''level'', (VInt 0, 0), (VInt 9, 0))]\<rparr>"
  have same: "listing ?e = listing e" "dispatch_ready 77 ?e" "frm_mtu (env_framer ?e) = 100" "env_frames ?e = []"
    using e(2,4,5) by (simp_all add: listing_def dispatch_ready_def env_lists_def log_ok_def log_get_def chan_at_def)
  have len: "length (env_channels ?e) = 1" using listing_nth(1) [of ?e] unfolding same(1) e(3) by simp
  have due: "due_values 0 ?e = [(0, VInt 0)]" unfolding due_at_def same(1) e(3) len using sample_facts by simp
  have "\<not> isl (net_pack UINT8 (VInt 0))" by code_simp
  then have ok: "\<forall>x \<in> set (due_values 0 ?e). data_ok (emitted 0 ?e) x"
    unfolding due using sample_facts by (simp add: data_ok_def registered_def emitted_def same(1) e(3))
  have ev: "env_events ?e = map (event_of ?e) [sample_change]" by (simp add: event_of_def sample_change_def same(1) e(3))
  have evok: "\<forall>x \<in> set [sample_change]. event_ok (listing ?e) x" unfolding same(1) e(3) using sample_facts(6) by simp
  have "\<exists>e' w'. dispatch 0 True 5 ?e = (Inr (int (length (env_frames e'))), e') \<and> dispatch_ready 77 e' \<and> env_events e' = [] \<and>
    queue_run (ret ()) (\<lambda>f. frame_handle memory_write (\<lambda>s. (True, s)) (Some f)) (map Some (env_frames e') @ None # []) sample_writer = (Inr [], w') \<and>
    (\<forall>pieces final later. (\<forall>p \<in> set pieces. p \<noteq> SocketError \<and> p \<noteq> Received []) \<and> received pieces = w_files w' 0 \<and>
      (final = Received [] \<or> final = SocketError) \<longrightarrow>
      (\<exists>c ps. socket_run (\<lambda>_. False) True (pieces @ final # later) (new_client (deref e') None 100) = (Inr (), c) \<and>
        tc_frames c = map Some ps \<and> (\<forall>p \<in> set ps. sent_by 77 0 p) \<and>
        carried body_values ps = map (shown_value e') (due_values 0 ?e) \<and> carried body_events ps = map (event_value (listing e')) [sample_change]))"
    by (rule telemetry_delivered [OF same(2,4) time_to_int_zero _ _ ok ev evok _ _ memory_spec sample_ready])
      (use due e(4) in \<open>simp_all add: MAX_SIZE_def expected_ok_def\<close>, simp_all add: sample_writer_def room_def)
  then obtain e' w' where run: "dispatch 0 True 5 ?e = (Inr (int (length (env_frames e'))), e')"
      "queue_run (ret ()) (\<lambda>f. frame_handle memory_write (\<lambda>s. (True, s)) (Some f)) (map Some (env_frames e') @ None # []) sample_writer = (Inr [], w')"
    and all: "\<forall>pieces final later. (\<forall>p \<in> set pieces. p \<noteq> SocketError \<and> p \<noteq> Received []) \<and> received pieces = w_files w' 0 \<and>
      (final = Received [] \<or> final = SocketError) \<longrightarrow>
      (\<exists>c ps. socket_run (\<lambda>_. False) True (pieces @ final # later) (new_client (deref e') None 100) = (Inr (), c) \<and>
        tc_frames c = map Some ps \<and> (\<forall>p \<in> set ps. sent_by 77 0 p) \<and>
        carried body_values ps = map (shown_value e') (due_values 0 ?e) \<and> carried body_events ps = map (event_value (listing e')) [sample_change])"
    by (elim exE conjE)
  let ?bytes = "map (\<lambda>b. Received [b]) (w_files w' 0)"
  have "(\<forall>p \<in> set ?bytes. p \<noteq> SocketError \<and> p \<noteq> Received []) \<and> received ?bytes = w_files w' 0 \<and> (SocketError = Received [] \<or> SocketError = SocketError)"
    by (auto simp: byte_by_byte)
  from all [THEN spec, of ?bytes, THEN spec, of SocketError, THEN spec, of "[]", THEN mp, OF this] obtain c ps where
      "socket_run (\<lambda>_. False) True (?bytes @ SocketError # []) (new_client (deref e') None 100) = (Inr (), c)" "tc_frames c = map Some ps"
      "carried body_values ps = map (shown_value e') (due_values 0 ?e)" "carried body_events ps = map (event_value (listing e')) [sample_change]"
    by (elim exE conjE)
  with e(1) run show ?thesis unfolding due sample_change_def list.map by (intro exI conjI)
qed

end
