(* ===== verification/Spec2Isabelle.thy ===== *)
theory Spec2Isabelle
  imports Channel_Frames Processor Server_Handlers Daemon_Manager
    State_Machine Telemetry_Delivery
begin

text \<open>
  A verification development for \<open>vtelem\<close>, a real-time telemetry library (\<open>src/vtelem\<close>).

  The program. An application registers \<^emph>\<open>channels\<close> (typed values with a rate) in a telemetry
  \<^emph>\<open>environment\<close>. At every dispatch the environment collects the channels that are due and the
  change events of the tracked ones, packs them into \<^emph>\<open>frames\<close> of a bounded size and queues them;
  \<^emph>\<open>stream writers\<close> send the frames to files and clients. A receiver cuts its byte stream back into
  frames with the \<^emph>\<open>frame processor\<close> and decodes them. Arbitrary payloads travel as \<^emph>\<open>messages\<close>,
  cut into fragments by a message framer and joined again by a message cache. The work is done by
  \<^emph>\<open>daemons\<close>, threads with a small state machine, which a daemon manager starts and stops in the
  order of their dependencies; HTTP requests and commands reach the application through handlers.

  Conventions. A method that changes its object is a state-and-exception program over a record of
  the object's attributes (\<open>Vtelem_Prelude\<close>): it returns a value or a Python exception and, in both
  cases, the state at that point. Dictionaries are association lists in insertion order, integers
  are unbounded as in Python, bytes are 8-bit words, floats are the 64-bit words of binary64 with
  their arithmetic defined by rounding (\<open>Py_Float\<close>, \<open>Float_Facts\<close>). Characters are code points below
  256 and letters are folded in the ASCII range. A call that would wait forever is the outcome
  \<open>Blocks\<close>. Log output is left out.

  Theories and sources.
  \<^item> \<open>Primitives\<close>, \<open>Struct_Codec\<close>: \<open>enums/primitive.py\<close> and the \<open>struct\<close> formats its types stand for.
    Whatever packs is as wide as its type says and unpacks to the value the type carries.
  \<^item> \<open>Byte_Buffer\<close>, \<open>Type_Primitive\<close>: \<open>classes/byte_buffer.py\<close> and \<open>classes/type_primitive.py\<close>. Fields
    read back as written (locales \<open>byte_sink\<close> and \<open>byte_source\<close>), a typed value stays in range.
  \<^item> \<open>User_Enum\<close>, \<open>Registry\<close>, \<open>Type_Registries\<close>: \<open>classes/user_enum.py\<close>, \<open>names.py\<close>, \<open>types/frame.py\<close>,
    \<open>enums/\<close> and \<open>registry/\<close>. A registry refines a list of named items (locale \<open>named_store\<close>).
  \<^item> \<open>Channel\<close>: \<open>channel/__init__.py\<close>, \<open>channel/registry.py\<close>, \<open>classes/event_queue.py\<close>. Emission is limited
    by the rate, changes become events.
  \<^item> \<open>Frame\<close>, \<open>Frame_Layout\<close>, \<open>Frame_Content\<close>, \<open>Framer\<close>: \<open>frame/\<close> and \<open>channel/framer.py\<close>; \<open>Parsing\<close> and
    \<open>Decoding\<close>: \<open>parsing/\<close>; \<open>Channel_Frames\<close> joins both ends: data and event frames decode to exactly
    what was put into them, and corrupt or foreign frames are refused.
  \<^item> \<open>Processor\<close>: \<open>frame/processor.py\<close>. Frames come out of a byte stream however it was cut.
  \<^item> \<open>Message_Framer\<close>, \<open>Message_Cache\<close>: \<open>message/\<close>; this theory joins them in \<open>message_roundtrip\<close>.
  \<^item> \<open>Channel_Environment\<close>, \<open>Telemetry_Environment\<close>: \<open>channel/environment.py\<close>, \<open>telemetry/environment.py\<close>
    with \<open>classes/time_entity.py\<close> and \<open>classes/metered_queue.py\<close>.
  \<^item> \<open>Daemon\<close>, \<open>Daemon_Manager\<close>: \<open>daemon/__init__.py\<close> and \<open>daemon/manager.py\<close>. The interleavings of a
    controller with the daemon's threads are a step relation whose invariant relates the state to
    the threads; the manager's operations respect the dependencies (locale \<open>performing\<close>).
  \<^item> \<open>Queue_Daemon\<close>, \<open>Stream_Writer\<close>: \<open>daemon/queue.py\<close> and \<open>stream/\<close>. Every working stream carries the
    frames so that the processor recovers them; broken streams are dropped alone.
  \<^item> \<open>Py_Strings\<close>, \<open>Json\<close>, \<open>Http_Request\<close>: the string functions, \<open>json.dumps\<close> and
    \<open>classes/http_request_mapper.py\<close>. Form data is parsed to what was sent.
  \<^item> \<open>Channel_Group\<close>: \<open>channel/group.py\<close>, \<open>channel/group_registry.py\<close>. What code leaves in the data context of
    a group is what the group reads afterwards, and no other channel changes; what a group needs of
    the environment is the locale \<open>value_store\<close>.
  \<^item> \<open>State_Machine\<close>: \<open>classes/state.py\<close>, \<open>classes/state_machine.py\<close>. The current state is always known,
    transitions need both states' consent, and the metrics count them.
  \<^item> \<open>Py_Text\<close>, \<open>Command_Queue\<close>, \<open>Commanders\<close>: \<open>daemon/command_queue.py\<close>, \<open>factories/telemetry_environment.py\<close>,
    \<open>factories/daemon_manager.py\<close>, with the text Python gives values. Every command is counted and answered
    by its consumers in order; what a consumer promises is the locale \<open>answering\<close>. The text of a float is
    a parameter.
  \<^item> \<open>Telemetry_Client\<close>: \<open>client/__init__.py\<close>, \<open>client/file.py\<close>, \<open>client/socket.py\<close>. What a stream writer
    records is replayed in order and reading a file ends; a limit on the frames is kept.
  \<^item> \<open>Synchronous\<close>: \<open>daemon/synchronous.py\<close>, \<open>classes/time_keeper.py\<close>, \<open>daemon/telemetry.py\<close>. The loop runs its task
    at its rate and counts late rounds; the slaves of a time keeper stay in step with it.
  \<^item> \<open>Dispatch\<close>, \<open>Telemetry_Delivery\<close>: the dispatch of an environment, the stream writer and the client composed.
    What the two frame loops need of their elements is the locale \<open>frame_elements\<close>, interpreted for values and
    for events; the due values and the queued events of a dispatch reach the client, all and in order.
  \<^item> \<open>Udp_Clients\<close>: \<open>mtu.py\<close>, \<open>classes/udp_client_manager.py\<close>, \<open>factories/udp_client_manager.py\<close>. The clients are
    the streams of the writer and every opened socket is a client or was closed; the discovery of the
    transmission unit leaves the socket as it was. The operating system is a parameter.
  \<^item> \<open>Telemetry_Server\<close>: \<open>daemon/http.py\<close>, \<open>telemetry/server.py\<close>, \<open>types/telemetry_server.py\<close>. The operations of
    a server on all its daemons, by the states in which they find them: when it starts, stops, changes its
    speed, what is then closed, and in which cases it raises. What the threads do is a parameter.
  \<^item> \<open>Json_Parse\<close>, \<open>Serializable\<close>, \<open>Object_Messages\<close>: \<open>classes/serdes.py\<close>, \<open>types/serializable.py\<close>, \<open>schema/manager.py\<close>,
    \<open>serializables/primitive.py\<close>, the text, JSON and object messages of \<open>message/framer.py\<close> and \<open>message/cache.py\<close>.
    The reader of \<open>json\<close> inverts its writer (\<open>loads_dumps\<close>, for every document whose floats the parameters write and
    read back; its fuel is the length of the text, which every value of the text covers), so an enumeration
    is equal after a trip through JSON and through frames. What a validator accepts is a parameter.
  \<^item> \<open>Server_Handlers\<close>: requests of \<open>classes/http_request_mapper.py\<close>, \<open>factories/telemetry_server.py\<close>,
    \<open>factories/websocket_daemon.py\<close>, the JSON form of the registries. A request goes from the text of its target
    to the answer of its handler: only the identifier of the application stops the server, a command arrives as
    it was written, and the registries read back as their documents unless there is a channel group.
  Bounds and fuel. \<open>process_loop\<close> takes the length of the buffer plus two as fuel: every round takes
  at least a length from the buffer, so \<open>process_loop_run\<close> shows that it is never used up. The
  recursion of \<open>perform_stack\<close> is limited as Python limits it, and \<open>start_all_succeeds\<close> shows a limit
  that suffices. The fragment count is computed with a floating-point division, exact for messages
  below \<open>2^53\<close> bytes. Identifiers and counts are limited by the width of their fields.

  Parameters. What code outside the sources does is an argument: the random numbers of frame
  identifiers, the file operations of streams, the percent-decoding of URL queries, \<open>run\<close> and the
  callbacks of a daemon, the text of a float.

  Not modelled. The network daemons (\<open>daemon/websocket*.py\<close>, \<open>daemon/tcp_telemetry.py\<close>,
  \<open>daemon/event_loop.py\<close>), the clients that open connections (\<open>client/tcp.py\<close>, \<open>client/udp.py\<close>,
  \<open>client/websocket.py\<close>) and the search of free ports in \<open>mtu.py\<close> are calls of sockets and of \<open>asyncio\<close>;
  \<open>classes/data_cache.py\<close> and \<open>schema/__init__.py\<close> hand their data to packages outside the sources; \<open>app.py\<close> and \<open>entry.py\<close> parse the command line.
\<close>

section \<open>Messages from end to end\<close>

text \<open>A received frame: its bytes are decoded and, when they are accepted, ingested by the cache.\<close>

definition receive :: "type_primitive option \<Rightarrow> channel_registry \<Rightarrow> frame \<Rightarrow> (message_cache, unit) py" where
  "receive expected_id reg f =
     (case raw f of
        Inl err \<Rightarrow> raise err
      | Inr (bytes, n) \<Rightarrow>
          (case fst (decode_frame bytes n expected_id reg) of
             Inl err \<Rightarrow> raise err
           | Inr None \<Rightarrow> ret ()
           | Inr (Some parsed) \<Rightarrow> ingest parsed))"

lemma receive_fragment:
  assumes "frame_done f bs" and "expected_ok eid a" and "length frag < 2 ^ 32"
    and "carries bs use_crc a time (message_type_value mt) num key (int j) (int n) frag"
    and "fields_ok (message_type_value mt) num key (int j) (int n)"
  shows "receive eid reg f =
    ingest_message \<lparr>pm_type = mt, pm_number = num, pm_crc = key, pm_fragment_index = int j,
      pm_total_fragments = int n, pm_data = frag\<rparr>"
proof -
  obtain s where s: "header_ok a (frame_type_value MESSAGE) s"
      "bs = frame_image use_crc a (frame_type_value MESSAGE) s (int (length frag))
        (message_header (message_type_value mt) num key (int j) (int n) @ frag)"
    using assms(4) by (auto simp: carries_def)
  have len: "0 \<le> int (length frag)" "int (length frag) < 2 ^ 32" using assms(3) by simp_all
  note dec = decode_image [OF s(1) len assms(2) message_body_reads [OF assms(5)] s(2)]
  have "MessageType (message_type_value mt) = Inr mt" by simp
  from to_parsed_fields [OF this] dec assms(1) show ?thesis
    by (simp add: receive_def frame_done_def ingest_def header_tuple_def fun_eq_iff)
qed

text \<open>A message framer for the samples.\<close>

lemma sample_message_framer:
  obtains m where "new_message_framer 60 None 77 True = Inr m" and "mf_ok m (77 mod 2 ^ 16) 60 True"
    and "dict_get (mf_message_numbers m) TEXT = Some 0" and "dict_get (mf_message_numbers m) JSON = Some 0"
proof -
  obtain fr where fr: "new_framer 60 None 77 True = Inr fr" "framer_ok fr (77 mod 2 ^ 16)"
      "frm_mtu fr = 60" "frm_use_crc fr = True"
    using new_framer_random [of 60 77 True] by (elim exE conjE) (rule that)
  define m where "m = \<lparr>mf_framer = fr, mf_message_numbers = map (\<lambda>t. (t, 0 :: int)) all_message_types\<rparr>"
  have new: "new_message_framer 60 None 77 True = Inr m" by (simp add: new_message_framer_def fr(1) m_def)
  have ok: "mf_ok m (77 mod 2 ^ 16) 60 True" using fr(2-4) by (simp add: mf_ok_def m_def)
  have "dict_get (mf_message_numbers m) TEXT = Some 0" "dict_get (mf_message_numbers m) JSON = Some 0" by (simp_all add: m_def all_message_types_def)
  with new ok show thesis by (rule that)
qed

lemma message_delivered:
  assumes "mf_ok m a mtu use_crc" and "time_ok time"
    and "int per = mtu - (26 + (if use_crc then 4 else 0))" and "0 < per" and "per < 2 ^ 32"
    and "message \<noteq> []" and "fragment_count per (length message) < 2 ^ 16"
    and "dict_get (mf_message_numbers m) mt = Some num" and "0 \<le> num" and "num < 2 ^ 16"
    and "expected_ok eid a"
    and "dict_get (mc_data c mt) (messag_crc message) = None"
    and "dict_get (mc_fragment_data c mt) (messag_crc message) = None"
    and "distinct order" and "set order = {..<fragment_count per (length message)}"
  shows "\<exists>fs total m' c'. serialize_message message time mt rnd m = (Inr (fs, total), m') \<and>
    length fs = fragment_count per (length message) \<and>
    for_each (\<lambda>j. receive eid reg (fs ! j)) order c = (Inr (), c') \<and>
    content mt (messag_crc message) c' = Inr (Some (num, message)) \<and>
    mc_calls c' = mc_calls c @ map (\<lambda>cb. (cb, mt, num, message)) (mc_callbacks c mt)"
proof -
  let ?n = "fragment_count per (length message)" and ?key = "messag_crc message"
  let ?frag = "fragment per message"
  obtain fs bss m' where
    ser: "serialize_message message time mt rnd m = (Inr (fs, int (length (concat bss))), m')"
    and finished: "list_all2 frame_done fs bss"
    and carry: "list_all2 (\<lambda>j bs. carries bs use_crc a time (message_type_value mt) num ?key (int j)
         (int ?n) (?frag j)) [0..<?n] bss"
    by (rule serialize_message_run [OF assms(1-5) assms(7-10)])
  have len: "length fs = ?n" using list_all2_lengthD [OF finished] list_all2_lengthD [OF carry] by simp
  have one: "receive eid reg (fs ! j) = ingest_message (fragment_message mt num ?key ?n ?frag j)"
    if "j \<in> set order" for j
  proof -
    have j: "j < ?n" using that assms(15) by simp
    have "length (?frag j) \<le> per" by (simp add: fragment_def)
    then have small: "length (?frag j) < 2 ^ 32" using assms(5) by simp
    have fok: "fields_ok (message_type_value mt) num ?key (int j) (int ?n)"
      using message_type_value_bounds [of mt] messag_crc_range [of message] assms(7,9,10) j
      by (simp add: fields_ok_def)
    have "frame_done (fs ! j) (bss ! j)" using list_all2_nthD [OF finished] j len by simp
    moreover have "carries (bss ! j) use_crc a time (message_type_value mt) num ?key (int j) (int ?n) (?frag j)"
      using list_all2_nthD [OF carry, of j] j by simp
    ultimately show ?thesis
      using receive_fragment [OF _ assms(11) small _ fok] by (simp add: fragment_message_def)
  qed
  have n: "0 < ?n" using fragment_count_less [OF assms(4), of 0 "length message"] assms(6) by simp
  have "holds_fragments c mt ?key ?frag []" using assms(12,13) by (simp add: holds_fragments_def)
  from ingest_all [OF this assms(14,15) n, of num] concat_fragments [OF assms(4), of message]
  obtain c' where
    c': "for_each (\<lambda>j. ingest_message (fragment_message mt num ?key ?n ?frag j)) order c = (Inr (), c')"
      "content mt ?key c' = Inr (Some (num, message))"
      "mc_calls c' = mc_calls c @ map (\<lambda>cb. (cb, mt, num, message)) (mc_callbacks c mt)"
    by auto
  have "for_each (\<lambda>j. receive eid reg (fs ! j)) order =
      for_each (\<lambda>j. ingest_message (fragment_message mt num ?key ?n ?frag j)) order"
    using one by (rule for_each_cong)
  with ser len c' show ?thesis by auto
qed

text \<open>
  Property C2: a message handed to a message framer is cut into frames within the framer's limit;
  when a receiver that knows nothing of the message yet is given all the frames, in any order, it
  ends up with exactly the message under its number and checksum, having told each of its callbacks
  once.
\<close>

theorem message_roundtrip:
  assumes "mf_ok m a mtu use_crc" and "time_ok time"
    and "int per = mtu - (26 + (if use_crc then 4 else 0))" and "0 < per" and "per < 2 ^ 32"
    and "message \<noteq> []" and "fragment_count per (length message) < 2 ^ 16"
    and "dict_get (mf_message_numbers m) mt = Some num" and "0 \<le> num" and "num < 2 ^ 16"
    and "expected_ok eid a"
    and "dict_get (mc_data c mt) (messag_crc message) = None"
    and "dict_get (mc_fragment_data c mt) (messag_crc message) = None"
    and "distinct order" and "set order = {..<fragment_count per (length message)}"
  shows "\<exists>fs total m' c'. serialize_message message time mt rnd m = (Inr (fs, total), m') \<and>
    length fs = fragment_count per (length message) \<and>
    for_each (\<lambda>j. receive eid reg (fs ! j)) order c = (Inr (), c') \<and>
    content mt (messag_crc message) c' = Inr (Some (num, message)) \<and>
    mc_calls c' = mc_calls c @ map (\<lambda>cb. (cb, mt, num, message)) (mc_callbacks c mt)"
  by (rule message_delivered [OF assms])

theorem message_roundtrip_witness:
  "\<exists>m fs total m' c'. new_message_framer 60 None 77 True = Inr m \<and>
    serialize_message [1, 2, 3] None TEXT 0 m = (Inr (fs, total), m') \<and>
    for_each (\<lambda>j. receive None (new_channel_registry []) (fs ! j)) [0] empty_cache = (Inr (), c') \<and>
    content TEXT (messag_crc [1, 2, 3]) c' = Inr (Some (0, [1, 2, 3]))"
proof -
  obtain m where new: "new_message_framer 60 None 77 True = Inr m" and ok: "mf_ok m (77 mod 2 ^ 16) 60 True"
    and num: "dict_get (mf_message_numbers m) TEXT = Some 0" by (rule sample_message_framer)
  have fc: "fragment_count 30 (length [1, 2, 3 :: byte]) = 1" by code_simp
  have order: "set [0 :: nat] = {..<fragment_count 30 (length [1, 2, 3 :: byte])}" unfolding fc by auto
  have "\<exists>fs total m' c'. serialize_message [1, 2, 3] None TEXT 0 m = (Inr (fs, total), m') \<and>
    length fs = fragment_count 30 (length [1, 2, 3 :: byte]) \<and>
    for_each (\<lambda>j. receive None (new_channel_registry []) (fs ! j)) [0] empty_cache = (Inr (), c') \<and>
    content TEXT (messag_crc [1, 2, 3]) c' = Inr (Some (0, [1, 2, 3])) \<and>
    mc_calls c' = mc_calls empty_cache @ map (\<lambda>cb. (cb, TEXT, 0, [1, 2, 3])) (mc_callbacks empty_cache TEXT)"
    by (rule message_roundtrip [OF ok _ _ _ _ _ _ num _ _ _ _ _ _ order])
      (simp_all add: time_ok_def fragment_count_def expected_ok_def empty_cache_def)
  with new show ?thesis by blast
qed

text \<open>
  Property C3: an enumeration object that is sent as a JSON message, cut into frames, and received in any
  order is found as text in the receiver's cache under its number; an object of its class that reads
  this text is equal to the one that was sent.
\<close>

theorem object_message_roundtrip:
  assumes "ue_init d = Inr e" and "distinct (dict_keys (ed_mappings d))"
    and "new_serializable enum_class schema manager (enum_object d) = Inr so" and "json_text fr indent so = Inr txt"
    and "mf_ok m a mtu use_crc" and "time_ok time"
    and "int per = mtu - (26 + (if use_crc then 4 else 0))" and "0 < per" and "per < 2 ^ 32"
    and "fragment_count per (length (utf8_encode txt)) < 2 ^ 16"
    and "dict_get (mf_message_numbers m) mt = Some num" and "0 \<le> num" and "num < 2 ^ 16"
    and "expected_ok eid a"
    and "dict_get (mc_data c mt) (messag_crc (utf8_encode txt)) = None"
    and "dict_get (mc_fragment_data c mt) (messag_crc (utf8_encode txt)) = None"
    and "distinct order" and "set order = {..<fragment_count per (length (utf8_encode txt))}"
  shows "\<exists>fs total m' c' got so'. serialize_object fr indent so time mt rnd m = (Inr (fs, total), m') \<and>
    for_each (\<lambda>j. receive eid reg (fs ! j)) order c = (Inr (), c') \<and>
    content_str mt (messag_crc (utf8_encode txt)) c' = Inr (Some (num, got)) \<and>
    load_text pf got so = Inr so' \<and> serializable_eq so' so"
proof -
  obtain so' where so': "load_text pf txt so = Inr so'" "serializable_eq so' so" "txt \<noteq> []"
    using enum_json_read [OF assms(1-3), of fr indent pf] assms(4) by auto
  then have "utf8_encode txt \<noteq> []" by (simp add: utf8_encode_empty)
  from message_delivered [OF assms(5-9) this assms(10-18), of rnd reg] obtain fs total m' c' where
    sent: "serialize_message (utf8_encode txt) time mt rnd m = (Inr (fs, total), m')"
      "for_each (\<lambda>j. receive eid reg (fs ! j)) order c = (Inr (), c')"
      "content mt (messag_crc (utf8_encode txt)) c' = Inr (Some (num, utf8_encode txt))"
    by blast
  have "serialize_object fr indent so time mt rnd m = (Inr (fs, total), m')"
    using sent(1) assms(4) by (simp add: serialize_object_def serialize_message_str_def)
  with sent(2) content_str_encoded [OF sent(3)] so' show ?thesis by blast
qed

theorem object_message_roundtrip_witness:
  "\<exists>m fs total m' c' got so'. new_message_framer 60 None 77 True = Inr m \<and>
    serialize_object (\<lambda>_. []) None sample_serializable None JSON 0 m = (Inr (fs, total), m') \<and>
    for_each (\<lambda>j. receive None (new_channel_registry []) (fs ! j)) [3, 1, 0, 2] empty_cache = (Inr (), c') \<and>
    content_str JSON (messag_crc (utf8_encode (dumps (\<lambda>_. []) None (enum_doc sample_enum)))) c' = Inr (Some (0, got)) \<and>
    load_text (\<lambda>_. 0) got sample_serializable = Inr so' \<and> serializable_eq so' sample_serializable"
proof -
  let ?txt = "dumps (\<lambda>_. []) None (enum_doc sample_enum)"
  obtain m where new: "new_message_framer 60 None 77 True = Inr m" and ok: "mf_ok m (77 mod 2 ^ 16) 60 True"
    and num: "dict_get (mf_message_numbers m) JSON = Some 0" by (rule sample_message_framer)
  have "length (utf8_encode ?txt) = 96" by code_simp
  then have fc: "fragment_count 30 (length (utf8_encode ?txt)) = 4" by (simp add: fragment_count_def)
  have order: "set [3, 1, 0, 2] = {..<fragment_count 30 (length (utf8_encode ?txt))}" unfolding fc by auto
  have d: "distinct (dict_keys (ed_mappings sample_data))" by (simp add: sample_data_def)
  have "\<exists>fs total m' c' got so'. serialize_object (\<lambda>_. []) None sample_serializable None JSON 0 m = (Inr (fs, total), m') \<and>
    for_each (\<lambda>j. receive None (new_channel_registry []) (fs ! j)) [3, 1, 0, 2] empty_cache = (Inr (), c') \<and>
    content_str JSON (messag_crc (utf8_encode ?txt)) c' = Inr (Some (0, got)) \<and>
    load_text (\<lambda>_. 0) got sample_serializable = Inr so' \<and> serializable_eq so' sample_serializable"
    by (rule object_message_roundtrip [OF sample_enum_init d sample_object sample_text ok _ _ _ _ _ num _ _ _ _ _ _ order])
      (simp_all add: fc time_ok_def expected_ok_def empty_cache_def)
  with new show ?thesis by blast
qed

end
